(* ===== verification/Go_Prelude.thy ===== *)
theory Go_Prelude
  imports Main "HOL-Library.Word" "HOL-Library.Sublist"
begin

unbundle bit_operations_syntax

text \<open>
  What the components share: the Go types the sources use and the operations of Go's
  standard library on them.
  \<^item> Go strings are lists of bytes (\<^typ>\<open>string\<close>). Byte slices of the wire protocols are
    lists of 8-bit words. \<open>strings.TrimSpace\<close> is modelled with the UTF-8 encodings of all
    code points that \<open>unicode.IsSpace\<close> accepts; \<open>strings.ToLower\<close>, \<open>strings.ToUpper\<close> and
    \<open>strings.EqualFold\<close> are modelled on ASCII letters (other bytes are kept), which is
    exact for ASCII text.
  \<^item> \<open>time.Time\<close> is the number of nanoseconds since the zero time (January 1, year 1, UTC),
    so \<open>time.Time{}\<close> is 0; \<open>time.Duration\<close> is a number of nanoseconds.
  \<^item> Go's \<open>int\<close> and \<open>int64\<close> are mathematical integers with \<open>wrap64\<close> written where the
    sources can overflow; \<open>uint64\<close> counters are 64-bit words.
  \<^item> an error return is the left injection of a sum.
\<close>

named_theorems go_defs "definitions of the library operations, unfolded together"
named_theorems time_defs "the duration constants"

section \<open>Types\<close>

type_synonym byte = "8 word"
type_synonym uint16 = "16 word"
type_synonym uint32 = "32 word"
type_synonym uint64 = "64 word"
type_synonym go_time = int
type_synonym duration = int

section \<open>Fixed-width integers and time\<close>

definition wrap64 :: "int \<Rightarrow> int" where
  "wrap64 x = (x + 2 ^ 63) mod 2 ^ 64 - 2 ^ 63"

lemma wrap64_id: "- (2 ^ 63) \<le> x \<Longrightarrow> x < 2 ^ 63 \<Longrightarrow> wrap64 x = x"
  by (simp add: wrap64_def)

lemma wrap64_range: "- (2 ^ 63) \<le> wrap64 x \<and> wrap64 x < 2 ^ 63"
proof -
  have "0 \<le> (x + 2 ^ 63) mod 2 ^ 64" and "(x + 2 ^ 63) mod 2 ^ 64 < (2::int) ^ 64"
    by (rule pos_mod_sign, simp) (rule pos_mod_bound, simp)
  then show ?thesis by (simp add: wrap64_def)
qed

definition Millisecond :: duration where [time_defs]: "Millisecond = 1000000"
definition Second :: duration where [time_defs]: "Second = 1000000000"
definition Minute :: duration where [time_defs]: "Minute = 60 * Second"
definition Hour :: duration where [time_defs]: "Hour = 60 * Minute"

text \<open>\<open>time.Duration(ms) * time.Millisecond\<close>, a product of two \<open>int64\<close>.\<close>

definition millis :: "int \<Rightarrow> duration" where
  "millis ms = wrap64 (ms * Millisecond)"

lemma millis_small: "\<bar>ms\<bar> \<le> 9000000000000 \<Longrightarrow> millis ms = ms * 1000000"
  by (simp add: millis_def wrap64_id time_defs)

text \<open>\<open>Time.After\<close>, \<open>Time.Before\<close>, \<open>Time.IsZero\<close>.\<close>

definition time_after :: "go_time \<Rightarrow> go_time \<Rightarrow> bool" where [go_defs]: "time_after a b \<longleftrightarrow> b < a"
definition time_before :: "go_time \<Rightarrow> go_time \<Rightarrow> bool" where [go_defs]: "time_before a b \<longleftrightarrow> a < b"
definition is_zero :: "go_time \<Rightarrow> bool" where [go_defs]: "is_zero t \<longleftrightarrow> t = 0"

text \<open>
  \<open>Time.AddDate(years, 0, 0)\<close> keeps month, day and time of day and normalises February 29
  of a year that is not a leap year to March 1. Days count from January 1 of year 1.
\<close>

definition is_leap :: "int \<Rightarrow> bool" where
  "is_leap y \<longleftrightarrow> y mod 4 = 0 \<and> (y mod 100 \<noteq> 0 \<or> y mod 400 = 0)"

definition days_before_year :: "int \<Rightarrow> int" where
  "days_before_year y = 365 * (y - 1) + (y - 1) div 4 - (y - 1) div 100 + (y - 1) div 400"

definition civil_year :: "int \<Rightarrow> int \<times> int" where
  "civil_year d =
     (let n400 = d div 146097; r400 = d mod 146097;
          n100 = min 3 (r400 div 36524); r100 = r400 - n100 * 36524;
          n4 = r100 div 1461; r4 = r100 mod 1461;
          n1 = min 3 (r4 div 365)
      in (400 * n400 + 100 * n100 + 4 * n4 + n1 + 1, r4 - n1 * 365))"

definition shift_yday :: "int \<Rightarrow> int \<Rightarrow> int \<Rightarrow> int" where
  "shift_yday y y' yday =
     (if is_leap y \<and> \<not> is_leap y' \<and> 59 < yday then yday - 1
      else if \<not> is_leap y \<and> is_leap y' \<and> 59 \<le> yday then yday + 1
      else yday)"

definition day_ns :: int where "day_ns = 24 * Hour"

definition add_years :: "int \<Rightarrow> go_time \<Rightarrow> go_time" where
  "add_years n t =
     (let (y, yday) = civil_year (t div day_ns)
      in (days_before_year (y + n) + shift_yday y (y + n) yday) * day_ns + t mod day_ns)"

lemma day_ns_eq: "day_ns = 86400000000000"
  by (simp add: day_ns_def time_defs)

lemma civil_year_days:
  assumes "civil_year d = (y, yday)"
  shows "days_before_year y + yday = d"
proof -
  define n400 r400 where "n400 = d div 146097" and "r400 = d mod 146097"
  define n100 r100 where "n100 = min 3 (r400 div 36524)" and "r100 = r400 - n100 * 36524"
  define n4 r4 where "n4 = r100 div 1461" and "r4 = r100 mod 1461"
  define n1 where "n1 = min 3 (r4 div 365)"
  have "civil_year d = (400 * n400 + 100 * n100 + 4 * n4 + n1 + 1, r4 - n1 * 365)"
    unfolding civil_year_def Let_def n400_def r400_def n100_def r100_def n4_def r4_def n1_def
    by (rule refl)
  then have y: "y - 1 = 400 * n400 + 100 * n100 + 4 * n4 + n1" and yd: "yday = r4 - n1 * 365"
    using assms by simp_all
  have d: "d = n400 * 146097 + r400" and r400: "0 \<le> r400" "r400 < 146097"
    by (simp_all add: n400_def r400_def)
  have n100: "0 \<le> n100" "n100 \<le> 3" and r100: "0 \<le> r100" "r100 < 36525"
    using r400 by (auto simp: n100_def r100_def min_def)
  have r100': "r100 = n4 * 1461 + r4" and r4: "0 \<le> r4" "r4 < 1461"
    by (simp_all add: n4_def r4_def)
  have n4: "0 \<le> n4" "n4 \<le> 24"
    using r100 by (simp_all add: n4_def)
  have n1: "0 \<le> n1" "n1 \<le> 3"
    using r4 by (auto simp: n1_def)
  have quot: "(r + b * q) div b = q" if "0 \<le> r" "r < b" for r b q :: int
    using that by simp
  have q4: "(y - 1) div 4 = 100 * n400 + 25 * n100 + n4"
    using quot [of n1 4 "100 * n400 + 25 * n100 + n4"] n1 by (simp add: y algebra_simps)
  have q100: "(y - 1) div 100 = 4 * n400 + n100"
    using quot [of "4 * n4 + n1" 100 "4 * n400 + n100"] n1 n4 by (simp add: y algebra_simps)
  have q400: "(y - 1) div 400 = n400"
    using quot [of "100 * n100 + 4 * n4 + n1" 400 n400] n1 n4 n100 by (simp add: y algebra_simps)
  show ?thesis
    unfolding days_before_year_def q4 q100 q400 unfolding yd d
    using r100_def r100' y by (simp add: algebra_simps)
qed

lemma days_before_year_100: "days_before_year y + 36524 \<le> days_before_year (y + 100)"
proof -
  define a b c c' where "a = (y - 1) div 4" and "b = (y - 1) div 100"
    and "c = (y - 1) div 400" and "c' = (y + 100 - 1) div 400"
  have a': "(y + 100 - 1) div 4 = a + 25"
    using div_mult_self2 [of 4 "y - 1" 25] by (simp add: algebra_simps a_def)
  have b': "(y + 100 - 1) div 100 = b + 1"
    using div_mult_self2 [of 100 "y - 1" 1] by (simp add: algebra_simps b_def)
  have "c \<le> c'"
    unfolding c_def c'_def by (rule zdiv_mono1) auto
  moreover have "days_before_year y = 365 * (y - 1) + a - b + c"
    unfolding days_before_year_def a_def b_def c_def by (rule refl)
  moreover have "days_before_year (y + 100) = 365 * (y + 100 - 1) + (a + 25) - (b + 1) + c'"
    unfolding days_before_year_def a' b' c'_def by (rule refl)
  ultimately show ?thesis by simp
qed

lemma shift_yday_ge: "yday - 1 \<le> shift_yday y y' yday"
  by (simp add: shift_yday_def)

lemma add_years_100_after: "t < add_years 100 t"
proof -
  obtain y yday where c: "civil_year (t div day_ns) = (y, yday)" by fastforce
  have "t div day_ns < days_before_year (y + 100) + shift_yday y (y + 100) yday"
    using civil_year_days [OF c] days_before_year_100 [of y] shift_yday_ge [of yday y "y + 100"]
    by linarith
  then have "(t div day_ns) * day_ns + t mod day_ns
      < (days_before_year (y + 100) + shift_yday y (y + 100) yday) * day_ns + t mod day_ns"
    by (simp add: day_ns_eq)
  then show ?thesis by (simp add: add_years_def c)
qed

section \<open>Transition systems\<close>

text \<open>
  The states reachable from the states of \<open>init\<close> by labelled steps, and the contract of an
  invariant: it holds at the start and every step keeps it. Each stateful component
  interprets the locale on its own step relation and invariant.
\<close>

inductive reach :: "('s \<Rightarrow> bool) \<Rightarrow> ('s \<Rightarrow> 'e \<Rightarrow> 's \<Rightarrow> bool) \<Rightarrow> 's \<Rightarrow> bool"
  for init :: "'s \<Rightarrow> bool" and step :: "'s \<Rightarrow> 'e \<Rightarrow> 's \<Rightarrow> bool" where
  reach_init: "init s \<Longrightarrow> reach init step s"
| reach_step: "reach init step s \<Longrightarrow> step s e t \<Longrightarrow> reach init step t"

locale invariant_system =
  fixes init :: "'s \<Rightarrow> bool"
    and step :: "'s \<Rightarrow> 'e \<Rightarrow> 's \<Rightarrow> bool"
    and inv :: "'s \<Rightarrow> bool"
  assumes init_inv: "init s \<Longrightarrow> inv s"
    and step_inv: "inv s \<Longrightarrow> step s e t \<Longrightarrow> inv t"
begin

lemma reach_inv: "reach init step s \<Longrightarrow> inv s"
  by (induction rule: reach.induct) (auto intro: init_inv step_inv)

end

section \<open>Strings\<close>

definition is_digit :: "char \<Rightarrow> bool" where
  "is_digit c \<longleftrightarrow> 48 \<le> (of_char c :: nat) \<and> (of_char c :: nat) \<le> 57"

definition digit_val :: "char \<Rightarrow> nat" where
  "digit_val c = of_char c - 48"

definition lower_char :: "char \<Rightarrow> char" where
  "lower_char c = (let n = (of_char c :: nat) in if 65 \<le> n \<and> n \<le> 90 then char_of (n + 32) else c)"

definition upper_char :: "char \<Rightarrow> char" where
  "upper_char c = (let n = (of_char c :: nat) in if 97 \<le> n \<and> n \<le> 122 then char_of (n - 32) else c)"

definition to_lower :: "string \<Rightarrow> string" where "to_lower = map lower_char"
definition to_upper :: "string \<Rightarrow> string" where "to_upper = map upper_char"

definition equal_fold :: "string \<Rightarrow> string \<Rightarrow> bool" where
  "equal_fold a b \<longleftrightarrow> to_lower a = to_lower b"

text \<open>The code points of \<open>unicode.IsSpace\<close>, each as its UTF-8 bytes.\<close>

definition go_spaces :: "string list" where
  "go_spaces =
    [[CHR 0x09], [CHR 0x0A], [CHR 0x0B], [CHR 0x0C], [CHR 0x0D], [CHR 0x20],
     [CHR 0xC2, CHR 0x85], [CHR 0xC2, CHR 0xA0], [CHR 0xE1, CHR 0x9A, CHR 0x80],
     [CHR 0xE2, CHR 0x80, CHR 0x80], [CHR 0xE2, CHR 0x80, CHR 0x81],
     [CHR 0xE2, CHR 0x80, CHR 0x82], [CHR 0xE2, CHR 0x80, CHR 0x83],
     [CHR 0xE2, CHR 0x80, CHR 0x84], [CHR 0xE2, CHR 0x80, CHR 0x85],
     [CHR 0xE2, CHR 0x80, CHR 0x86], [CHR 0xE2, CHR 0x80, CHR 0x87],
     [CHR 0xE2, CHR 0x80, CHR 0x88], [CHR 0xE2, CHR 0x80, CHR 0x89],
     [CHR 0xE2, CHR 0x80, CHR 0x8A], [CHR 0xE2, CHR 0x80, CHR 0xA8],
     [CHR 0xE2, CHR 0x80, CHR 0xA9], [CHR 0xE2, CHR 0x80, CHR 0xAF],
     [CHR 0xE2, CHR 0x81, CHR 0x9F], [CHR 0xE3, CHR 0x80, CHR 0x80]]"

text \<open>\<open>strip ps s\<close> removes elements of \<open>ps\<close> from the front of \<open>s\<close> as long as there is one.\<close>

function strip :: "string list \<Rightarrow> string \<Rightarrow> string" where
  "strip ps s =
     (case find (\<lambda>p. p \<noteq> [] \<and> prefix p s) ps of
        None \<Rightarrow> s
      | Some p \<Rightarrow> strip ps (drop (length p) s))"
  by pat_completeness auto
termination
  by (relation "measure (\<lambda>(ps, s). length s)") (auto simp: find_Some_iff prefix_def)

declare strip.simps [simp del]

text \<open>Code equations by pattern matching, so that closed terms evaluate in the kernel.\<close>

definition strip_step :: "string list \<Rightarrow> string \<Rightarrow> string option" where
  "strip_step ps s = map_option (\<lambda>p. drop (length p) s) (find (\<lambda>p. p \<noteq> [] \<and> prefix p s) ps)"

definition strip_more :: "string list \<Rightarrow> string \<Rightarrow> string option \<Rightarrow> string" where
  "strip_more ps s r = (case r of None \<Rightarrow> s | Some t \<Rightarrow> strip ps t)"

lemma strip_code [code]: "strip ps s = strip_more ps s (strip_step ps s)"
  by (subst strip.simps) (simp add: strip_more_def strip_step_def split: option.splits)

lemma strip_more_code [code]:
  "strip_more ps s None = s"
  "strip_more ps s (Some t) = strip ps t"
  by (simp_all add: strip_more_def)

definition trim_left :: "string \<Rightarrow> string" where
  "trim_left s = strip go_spaces s"

definition trim_right :: "string \<Rightarrow> string" where
  "trim_right s = rev (strip (map rev go_spaces) (rev s))"

definition trim_space :: "string \<Rightarrow> string" where
  "trim_space s = trim_right (trim_left s)"

definition trim_suffix :: "string \<Rightarrow> string \<Rightarrow> string" where
  "trim_suffix s suf = (if suffix suf s then take (length s - length suf) s else s)"

definition has_prefix :: "string \<Rightarrow> string \<Rightarrow> bool" where
  "has_prefix s p \<longleftrightarrow> prefix p s"

text \<open>\<open>strings.Split\<close> and \<open>strings.SplitN\<close> at a one-byte separator.\<close>

fun split_on :: "char \<Rightarrow> string \<Rightarrow> string list" where
  "split_on sep [] = [[]]"
| "split_on sep (c # cs) =
     (if c = sep then [] # split_on sep cs
      else (case split_on sep cs of [] \<Rightarrow> [[c]] | f # fs \<Rightarrow> (c # f) # fs))"

fun split_n :: "nat \<Rightarrow> char \<Rightarrow> string \<Rightarrow> string list" where
  "split_n 0 sep s = []"
| "split_n (Suc 0) sep s = [s]"
| "split_n (Suc (Suc n)) sep s =
     (let f = takeWhile (\<lambda>c. c \<noteq> sep) s
      in if length f = length s then [s] else f # split_n (Suc n) sep (drop (Suc (length f)) s))"

fun join_with :: "string \<Rightarrow> string list \<Rightarrow> string" where
  "join_with sep [] = []"
| "join_with sep [x] = x"
| "join_with sep (x # y # xs) = x @ sep @ join_with sep (y # xs)"

lemma takeWhile_sep: "x \<notin> set h \<Longrightarrow> takeWhile (\<lambda>c. c \<noteq> x) (h @ x # t) = h"
  by (induction h) auto

subsection \<open>Facts about trimming\<close>

lemma strip_suffix: "suffix (strip ps s) s"
proof (induction ps s rule: strip.induct)
  case (1 ps s)
  then show ?case
    by (subst strip.simps)
       (auto split: option.splits intro: suffix_order.trans suffix_drop)
qed

lemma strip_no_prefix:
  "find (\<lambda>p. p \<noteq> [] \<and> prefix p (strip ps s)) ps = None"
proof (induction ps s rule: strip.induct)
  case (1 ps s)
  then show ?case
    by (cases "find (\<lambda>p. p \<noteq> [] \<and> prefix p s) ps") (simp_all add: strip.simps [of ps s])
qed

lemma strip_id: "find (\<lambda>p. p \<noteq> [] \<and> prefix p s) ps = None \<Longrightarrow> strip ps s = s"
  by (subst strip.simps) simp

lemma strip_idem [simp]: "strip ps (strip ps s) = strip ps s"
  by (rule strip_id) (rule strip_no_prefix)

lemma trim_left_idem [simp]: "trim_left (trim_left s) = trim_left s"
  by (simp add: trim_left_def)

lemma trim_right_idem [simp]: "trim_right (trim_right s) = trim_right s"
  by (simp add: trim_right_def)

lemma trim_right_prefix: "prefix (trim_right s) s"
  using strip_suffix [of "map rev go_spaces" "rev s"]
  by (simp add: trim_right_def suffix_to_prefix)

lemma trim_left_of_prefix:
  assumes "trim_left s = s" and "prefix t s"
  shows "trim_left t = t"
proof -
  have "find (\<lambda>p. p \<noteq> [] \<and> prefix p s) go_spaces = None"
    using strip_no_prefix [of go_spaces s] assms(1) by (simp add: trim_left_def)
  then have "find (\<lambda>p. p \<noteq> [] \<and> prefix p t) go_spaces = None"
    using assms(2) by (auto simp: find_None_iff intro: prefix_order.trans)
  then show ?thesis by (simp add: trim_left_def strip_id)
qed

lemma trim_space_idem [simp]: "trim_space (trim_space s) = trim_space s"
proof -
  have "trim_left (trim_right (trim_left s)) = trim_right (trim_left s)"
    by (rule trim_left_of_prefix [OF trim_left_idem trim_right_prefix])
  then show ?thesis by (simp add: trim_space_def)
qed

text \<open>Visible ASCII characters are never trimmed.\<close>

definition graphic :: "char \<Rightarrow> bool" where
  "graphic c \<longleftrightarrow> 33 \<le> (of_char c :: nat) \<and> (of_char c :: nat) \<le> 126"

lemma go_spaces_not_graphic: "p \<in> set go_spaces \<Longrightarrow> \<exists>c cs. p = c # cs \<and> list_all (\<lambda>c. \<not> graphic c) p"
  by (auto simp: go_spaces_def graphic_def)

lemma strip_graphic:
  assumes "list_all graphic s" and "\<And>p. p \<in> set ps \<Longrightarrow> list_all (\<lambda>c. \<not> graphic c) p"
  shows "strip ps s = s"
proof (rule strip_id)
  have "\<not> (p \<noteq> [] \<and> prefix p s)" if "p \<in> set ps" for p
    using assms(1) assms(2) [OF that] by (cases p) (auto simp: prefix_def)
  then show "find (\<lambda>p. p \<noteq> [] \<and> prefix p s) ps = None" by (simp add: find_None_iff)
qed

lemma trim_space_graphic:
  assumes "list_all graphic s"
  shows "trim_space s = s"
proof -
  have "strip go_spaces s = s"
    using assms go_spaces_not_graphic by (intro strip_graphic) blast+
  moreover have "strip (map rev go_spaces) (rev s) = rev s"
    using assms go_spaces_not_graphic by (intro strip_graphic) (auto simp: list_all_iff)
  ultimately show ?thesis by (simp add: trim_space_def trim_left_def trim_right_def)
qed

lemma lower_char_idem [simp]: "lower_char (lower_char c) = lower_char c"
  by (simp add: lower_char_def Let_def)

lemma to_lower_idem [simp]: "to_lower (to_lower s) = to_lower s"
  by (simp add: to_lower_def)

lemma length_to_lower [simp]: "length (to_lower s) = length s"
  by (simp add: to_lower_def)

subsection \<open>Decimal numbers: \<open>strconv.Itoa\<close> and \<open>strconv.Atoi\<close>\<close>

definition digit_char :: "nat \<Rightarrow> char" where
  "digit_char n = char_of (n + 48)"

fun nat_str :: "nat \<Rightarrow> string" where
  "nat_str n = (if n < 10 then [digit_char n] else nat_str (n div 10) @ [digit_char (n mod 10)])"

declare nat_str.simps [simp del]

definition itoa :: "int \<Rightarrow> string" where
  "itoa i = (if i < 0 then CHR ''-'' # nat_str (nat (- i)) else nat_str (nat i))"

fun digits_val :: "int \<Rightarrow> string \<Rightarrow> int" where
  "digits_val acc [] = acc"
| "digits_val acc (c # cs) = digits_val (acc * 10 + int (digit_val c)) cs"

definition atoi :: "string \<Rightarrow> int option" where
  "atoi s =
     (let neg = (case s of c # _ \<Rightarrow> c = CHR ''-'' | [] \<Rightarrow> False);
          ds = (case s of c # cs \<Rightarrow> if c = CHR ''-'' \<or> c = CHR ''+'' then cs else s | [] \<Rightarrow> [])
      in if ds = [] \<or> \<not> list_all is_digit ds then None
         else let v = digits_val 0 ds
              in if neg then (if v \<le> 2 ^ 63 then Some (- v) else None)
                 else (if v < 2 ^ 63 then Some v else None))"

lemma is_digit_digit_char [simp]: "n < 10 \<Longrightarrow> is_digit (digit_char n)"
  by (simp add: is_digit_def digit_char_def)

lemma digit_val_digit_char [simp]: "n < 10 \<Longrightarrow> digit_val (digit_char n) = n"
  by (simp add: digit_val_def digit_char_def)

lemma nat_str_digits: "list_all is_digit (nat_str n)"
  by (induction n rule: nat_str.induct) (subst nat_str.simps, simp)

lemma nat_str_nonempty [simp]: "nat_str n \<noteq> []"
  by (subst nat_str.simps) simp

lemma digits_val_append: "digits_val acc (xs @ ys) = digits_val (digits_val acc xs) ys"
  by (induction xs arbitrary: acc) auto

lemma digits_val_nat_str [simp]: "digits_val 0 (nat_str n) = int n"
proof (induction n rule: nat_str.induct)
  case (1 n)
  then show ?case
    by (subst nat_str.simps) (simp add: digits_val_append zdiv_int zmod_int)
qed

lemma not_digit_iff:
  "\<not> is_digit CHR ''-''" "\<not> is_digit CHR ''+''" "\<not> is_digit CHR '':''"
  "\<not> is_digit CHR ''[''" "\<not> is_digit CHR '']''" "\<not> is_digit CHR ''.''"
  by (simp_all add: is_digit_def)

lemma digits_avoid: "list_all is_digit s \<Longrightarrow> \<not> is_digit c \<Longrightarrow> c \<notin> set s"
  by (auto simp: list_all_iff)

lemma atoi_nat_str: "int n < 2 ^ 63 \<Longrightarrow> atoi (nat_str n) = Some (int n)"
proof -
  assume n: "int n < 2 ^ 63"
  obtain c cs where s: "nat_str n = c # cs" by (cases "nat_str n") auto
  have "is_digit c" using nat_str_digits [of n] by (simp add: s)
  then have "c \<noteq> CHR ''-''" "c \<noteq> CHR ''+''" using not_digit_iff by auto
  then show ?thesis
    using n nat_str_digits [of n] digits_val_nat_str [of n] by (simp add: atoi_def s)
qed

lemma atoi_itoa: "0 \<le> i \<Longrightarrow> i < 2 ^ 63 \<Longrightarrow> atoi (itoa i) = Some i"
  by (simp add: itoa_def atoi_nat_str)

end
