(* ===== verification/Runtime.thy ===== *)
theory Runtime
  imports Go_Prelude
begin

text \<open>
  The engine lifecycle of \<open>engine/internal/runtime/runtime.go\<close>: the states, the snapshot
  record, \<open>New\<close>, \<open>Snapshot\<close>, \<open>Transition\<close> and \<open>canTransition\<close>. The clock is an argument of
  each operation. The specification is the graph of legal lifecycle edges; a run of
  requests visits a path of that graph and the sequence number counts its edges.
\<close>

section \<open>Model\<close>

datatype engine_state =
    StateStopped | StateStarting | StateRunning | StateDegraded | StateStopping | StateFailed

record snapshot =
  sn_State :: engine_state
  sn_Sequence :: uint64
  sn_StateChangedAt :: go_time
  sn_Reason :: string

record state_change =
  ch_Previous :: engine_state
  ch_Current :: snapshot

datatype runtime_error = InvalidTransition engine_state engine_state

record runtime =
  rt_snapshot :: snapshot

definition new_runtime :: "go_time \<Rightarrow> runtime" where
  "new_runtime now =
     \<lparr>rt_snapshot = \<lparr>sn_State = StateStopped, sn_Sequence = 0, sn_StateChangedAt = now, sn_Reason = []\<rparr>\<rparr>"

fun canTransition :: "engine_state \<Rightarrow> engine_state \<Rightarrow> bool" where
  "canTransition StateStopped next \<longleftrightarrow> next = StateStarting"
| "canTransition StateStarting next \<longleftrightarrow> next = StateRunning \<or> next = StateStopping \<or> next = StateFailed"
| "canTransition StateRunning next \<longleftrightarrow> next = StateDegraded \<or> next = StateStopping \<or> next = StateFailed"
| "canTransition StateDegraded next \<longleftrightarrow> next = StateRunning \<or> next = StateStopping \<or> next = StateFailed"
| "canTransition StateStopping next \<longleftrightarrow> next = StateStopped \<or> next = StateFailed"
| "canTransition StateFailed next \<longleftrightarrow> next = StateStarting \<or> next = StateStopped"

definition Transition ::
    "go_time \<Rightarrow> runtime \<Rightarrow> engine_state \<Rightarrow> string \<Rightarrow> runtime \<times> (runtime_error + state_change)" where
  "Transition now r next reason =
     (let previous = sn_State (rt_snapshot r)
      in if previous = next then
           (r, Inr \<lparr>ch_Previous = previous, ch_Current = rt_snapshot r\<rparr>)
         else if \<not> canTransition previous next then
           (r, Inl (InvalidTransition previous next))
         else
           let s = \<lparr>sn_State = next, sn_Sequence = sn_Sequence (rt_snapshot r) + 1,
                    sn_StateChangedAt = now, sn_Reason = reason\<rparr>
           in (r\<lparr>rt_snapshot := s\<rparr>, Inr \<lparr>ch_Previous = previous, ch_Current = s\<rparr>))"

definition rt_state :: "runtime \<Rightarrow> engine_state" where
  "rt_state r = sn_State (rt_snapshot r)"

text \<open>Callers that drop the result, as \<open>_, _ = s.runtime.Transition(...)\<close> does.\<close>

definition transition_to :: "go_time \<Rightarrow> engine_state \<Rightarrow> string \<Rightarrow> runtime \<Rightarrow> runtime" where
  "transition_to now next reason r = fst (Transition now r next reason)"

section \<open>Specification\<close>

text \<open>The legal lifecycle edges.\<close>

inductive lifecycle_edge :: "engine_state \<Rightarrow> engine_state \<Rightarrow> bool" where
  start: "lifecycle_edge StateStopped StateStarting"
| retry: "lifecycle_edge StateFailed StateStarting"
| started: "lifecycle_edge StateStarting StateRunning"
| degrade: "lifecycle_edge StateRunning StateDegraded"
| recover: "lifecycle_edge StateDegraded StateRunning"
| stop: "s \<in> {StateStarting, StateRunning, StateDegraded} \<Longrightarrow> lifecycle_edge s StateStopping"
| stopped: "s \<in> {StateStopping, StateFailed} \<Longrightarrow> lifecycle_edge s StateStopped"
| fail: "s \<in> {StateStarting, StateRunning, StateDegraded, StateStopping} \<Longrightarrow> lifecycle_edge s StateFailed"

inductive_simps lifecycle_edge_simps:
  "lifecycle_edge StateStopped t" "lifecycle_edge StateStarting t" "lifecycle_edge StateRunning t"
  "lifecycle_edge StateDegraded t" "lifecycle_edge StateStopping t" "lifecycle_edge StateFailed t"

fun path :: "('a \<Rightarrow> 'a \<Rightarrow> bool) \<Rightarrow> 'a \<Rightarrow> 'a list \<Rightarrow> bool" where
  "path E a [] \<longleftrightarrow> True"
| "path E a (b # bs) \<longleftrightarrow> E a b \<and> path E b bs"

text \<open>A run of transition requests, with the states it moves to.\<close>

fun run_requests ::
    "runtime \<Rightarrow> (go_time \<times> engine_state \<times> string) list \<Rightarrow> runtime \<times> engine_state list" where
  "run_requests r [] = (r, [])"
| "run_requests r ((now, next, reason) # reqs) =
     (let r' = transition_to now next reason r; (r'', visited) = run_requests r' reqs
      in (r'', if rt_state r' = rt_state r then visited else rt_state r' # visited))"

section \<open>Lemmas\<close>

lemma canTransition_edge: "canTransition s t \<longleftrightarrow> lifecycle_edge s t"
  by (cases s) (auto simp: lifecycle_edge_simps)

lemma canTransition_irrefl [simp]: "\<not> canTransition s s"
  by (cases s) auto

lemma transition_to_state:
  "rt_state (transition_to now next reason r)
     = (if canTransition (rt_state r) next then next else rt_state r)"
  by (auto simp: transition_to_def Transition_def Let_def rt_state_def)

lemma transition_to_seq:
  "sn_Sequence (rt_snapshot (transition_to now next reason r))
     = (if canTransition (rt_state r) next
        then sn_Sequence (rt_snapshot r) + 1 else sn_Sequence (rt_snapshot r))"
  by (auto simp: transition_to_def Transition_def Let_def rt_state_def)

lemmas transition_to_simps = transition_to_state transition_to_seq

lemma run_requests_path:
  assumes "run_requests r reqs = (r', visited)"
  shows "path lifecycle_edge (rt_state r) visited
    \<and> rt_state r' = last (rt_state r # visited)
    \<and> sn_Sequence (rt_snapshot r') = sn_Sequence (rt_snapshot r) + of_nat (length visited)"
  using assms
proof (induction r reqs arbitrary: r' visited rule: run_requests.induct)
  case (1 r)
  then show ?case by simp
next
  case (2 r now nxt reason reqs)
  obtain v where v: "run_requests (transition_to now nxt reason r) reqs = (r', v)"
    and vis: "visited = (if rt_state (transition_to now nxt reason r) = rt_state r then v
                         else rt_state (transition_to now nxt reason r) # v)"
    using "2.prems" by (auto simp: Let_def split: prod.splits)
  show ?case
  proof (cases "canTransition (rt_state r) nxt")
    case True
    then have "nxt \<noteq> rt_state r" by auto
    then show ?thesis
      using "2.IH" [OF refl v] True vis
      by (simp add: transition_to_simps canTransition_edge)
  next
    case False
    then show ?thesis using "2.IH" [OF refl v] vis by (simp add: transition_to_simps)
  qed
qed

text \<open>
  C1. Lifecycle refinement: whatever transitions are requested of a new runtime, the states
  it moves through form a path of legal lifecycle edges from \<open>stopped\<close>, the current state is
  the last of them, and the sequence number is the number of moves (modulo \<open>2 ^ 64\<close>); refused
  and repeated requests change nothing.
\<close>

theorem runtime_run_is_lifecycle_path:
  "case run_requests (new_runtime now) reqs of (r, visited) \<Rightarrow>
     path lifecycle_edge StateStopped visited
     \<and> rt_state r = last (StateStopped # visited)
     \<and> unat (sn_Sequence (rt_snapshot r)) = length visited mod 2 ^ 64"
proof -
  obtain r visited where r: "run_requests (new_runtime now) reqs = (r, visited)" by fastforce
  have "rt_state (new_runtime now) = StateStopped" "sn_Sequence (rt_snapshot (new_runtime now)) = 0"
    by (simp_all add: new_runtime_def rt_state_def)
  with run_requests_path [OF r] show ?thesis
    by (simp add: r unat_of_nat)
qed

end
