(* ===== verification/Net_Addr.thy ===== *)
theory Net_Addr
  imports Go_Prelude
begin

text \<open>
  The parts of Go's package \<open>net\<close> that the engine calls on addresses: \<open>net.ParseIP\<close>,
  \<open>IP.To4\<close>, \<open>IP.String\<close>, the address classes, \<open>net.SplitHostPort\<close> and \<open>net.JoinHostPort\<close>.
  An \<open>IP\<close> is a list of 4 or 16 bytes, as in Go; \<open>nil\<close> is \<^const>\<open>None\<close>.
  The round trips that the SOCKS datagram codec and the configuration need are proved here.
\<close>

type_synonym ip = "byte list"

section \<open>Parsing addresses\<close>

fun ipv4_fields :: "nat \<Rightarrow> nat \<Rightarrow> byte list \<Rightarrow> string \<Rightarrow> byte list option" where
  "ipv4_fields val digLen acc [] =
     (if length acc < 3 then None else Some (acc @ [of_nat val]))"
| "ipv4_fields val digLen acc (c # cs) =
     (if is_digit c then
        (if digLen = 1 \<and> val = 0 then None
         else let v = val * 10 + digit_val c
              in if v > 255 then None else ipv4_fields v (Suc digLen) acc cs)
      else if c = CHR ''.'' then
        (if digLen = 0 \<or> cs = [] then None
         else if length acc = 3 then None
         else ipv4_fields 0 0 (acc @ [of_nat val]) cs)
      else None)"

definition hex_val :: "char \<Rightarrow> nat option" where
  "hex_val c =
     (let n = (of_char c :: nat)
      in if 48 \<le> n \<and> n \<le> 57 then Some (n - 48)
         else if 97 \<le> n \<and> n \<le> 102 then Some (n - 87)
         else if 65 \<le> n \<and> n \<le> 70 then Some (n - 55)
         else None)"

definition is_hex :: "char \<Rightarrow> bool" where "is_hex c \<longleftrightarrow> hex_val c \<noteq> None"

definition hex_number :: "string \<Rightarrow> nat" where
  "hex_number = foldl (\<lambda>acc c. acc * 16 + the (hex_val c)) 0"

function ipv6_loop :: "byte list \<Rightarrow> nat option \<Rightarrow> string \<Rightarrow> (byte list \<times> nat option \<times> string) option" where
  "ipv6_loop acc ell s =
     (if 16 \<le> length acc then Some (acc, ell, s)
      else
        let ds = takeWhile is_hex s; rest = drop (length ds) s
        in if ds = [] \<or> 4 < length ds then None
           else if (case rest of c # _ \<Rightarrow> c = CHR ''.'' | [] \<Rightarrow> False) then
             (if (ell = None \<and> length acc \<noteq> 12) \<or> length acc + 4 > 16 then None
              else map_option (\<lambda>f. (acc @ f, ell, [])) (ipv4_fields 0 0 [] s))
           else
             let n = hex_number ds; acc' = acc @ [of_nat (n div 256), of_nat (n mod 256)]
             in (case rest of
                   [] \<Rightarrow> Some (acc', ell, [])
                 | [c] \<Rightarrow> None
                 | c # d # cs \<Rightarrow>
                     if c \<noteq> CHR '':'' then None
                     else if d = CHR '':'' then
                       (if ell \<noteq> None then None
                        else if cs = [] then Some (acc', Some (length acc'), [])
                        else ipv6_loop acc' (Some (length acc')) cs)
                     else ipv6_loop acc' ell (d # cs)))"
  by pat_completeness auto
termination
proof (relation "measure (\<lambda>(acc, ell, s). length s)", goal_cases)
  case 1
  then show ?case by simp
next
  case (2 acc ell s ds rest n acc' c cs' d cs)
  then have "length rest < length s" by (cases s) auto
  moreover from 2 have "rest = c # d # cs" by simp
  ultimately show ?case by simp
next
  case (3 acc ell s ds rest n acc' c cs' d cs)
  then have "length rest < length s" by (cases s) auto
  moreover from 3 have "rest = c # d # cs" by simp
  ultimately show ?case by simp
qed

declare ipv6_loop.simps [simp del]

definition ipv6_finish :: "byte list \<times> nat option \<times> string \<Rightarrow> ip option" where
  "ipv6_finish r =
     (case r of (acc, ell, rest) \<Rightarrow>
        if rest \<noteq> [] then None
        else if length acc < 16 then
          (case ell of
             None \<Rightarrow> None
           | Some e \<Rightarrow> Some (take e acc @ replicate (16 - length acc) 0 @ drop e acc))
        else if ell \<noteq> None then None else Some acc)"

definition parse_ipv6 :: "string \<Rightarrow> ip option" where
  "parse_ipv6 s =
     (if CHR ''%'' \<in> set s then None
      else if prefix ''::'' s then
        (if drop 2 s = [] then Some (replicate 16 0)
         else Option.bind (ipv6_loop [] (Some 0) (drop 2 s)) ipv6_finish)
      else Option.bind (ipv6_loop [] None s) ipv6_finish)"

text \<open>The prefix of an IPv4 address in its 16-byte form.\<close>

definition v4InV6Prefix :: "byte list" where
  "v4InV6Prefix = replicate 10 0 @ [255, 255]"

definition parse_ip :: "string \<Rightarrow> ip option" where
  "parse_ip s =
     (case find (\<lambda>c. c = CHR ''.'' \<or> c = CHR '':'' \<or> c = CHR ''%'') s of
        None \<Rightarrow> None
      | Some c \<Rightarrow>
          if c = CHR ''.'' then map_option (\<lambda>f. v4InV6Prefix @ f) (ipv4_fields 0 0 [] s)
          else if c = CHR '':'' then parse_ipv6 s
          else None)"

definition to4 :: "ip \<Rightarrow> ip option" where
  "to4 ip =
     (if length ip = 4 then Some ip
      else if length ip = 16 \<and> take 12 ip = v4InV6Prefix then Some (drop 12 ip)
      else None)"

definition to16 :: "ip \<Rightarrow> ip option" where
  "to16 ip =
     (if length ip = 4 then Some (v4InV6Prefix @ ip)
      else if length ip = 16 then Some ip else None)"

section \<open>Printing addresses\<close>

definition ipv4_string :: "byte list \<Rightarrow> string" where
  "ipv4_string bs = join_with ''.'' (map (\<lambda>b. nat_str (unat b)) bs)"

definition hex_digit :: "nat \<Rightarrow> char" where
  "hex_digit n = (if n < 10 then char_of (n + 48) else char_of (n + 87))"

fun hex_str :: "nat \<Rightarrow> string" where
  "hex_str n = (if n < 16 then [hex_digit n] else hex_str (n div 16) @ [hex_digit (n mod 16)])"

declare hex_str.simps [simp del]

fun groups16 :: "byte list \<Rightarrow> nat list" where
  "groups16 (hi # lo # bs) = (unat hi * 256 + unat lo) # groups16 bs"
| "groups16 _ = []"

definition zero_run :: "nat list \<Rightarrow> nat \<times> nat" where
  "zero_run gs =
     foldl (\<lambda>(zs, ze) i.
              let j = i + length (takeWhile (\<lambda>g. g = 0) (drop i gs))
              in if 2 \<le> j - i \<and> ze - zs < j - i then (i, j) else (zs, ze))
       (255, 255) [0..<8]"

definition ipv6_string :: "byte list \<Rightarrow> string" where
  "ipv6_string bs =
     (let gs = groups16 bs; (zs, ze) = zero_run gs
      in if zs = 255 then join_with '':'' (map hex_str gs)
         else join_with '':'' (map hex_str (take zs gs)) @ ''::''
              @ join_with '':'' (map hex_str (drop ze gs)))"

definition hex_byte :: "byte \<Rightarrow> string" where
  "hex_byte b = [hex_digit (unat b div 16), hex_digit (unat b mod 16)]"

definition ip_string :: "ip \<Rightarrow> string" where
  "ip_string ip =
     (if ip = [] then ''<nil>''
      else if length ip \<noteq> 4 \<and> length ip \<noteq> 16 then CHR ''?'' # concat (map hex_byte ip)
      else (case to4 ip of Some v4 \<Rightarrow> ipv4_string v4 | None \<Rightarrow> ipv6_string ip))"

section \<open>Address classes\<close>

definition ip_equal :: "ip \<Rightarrow> ip \<Rightarrow> bool" where
  "ip_equal a b \<longleftrightarrow>
     (if length a = length b then a = b
      else if length a = 4 \<and> length b = 16 then b = v4InV6Prefix @ a
      else if length a = 16 \<and> length b = 4 then a = v4InV6Prefix @ b
      else False)"

definition ip_is_unspecified :: "ip \<Rightarrow> bool" where
  "ip_is_unspecified ip \<longleftrightarrow> ip_equal ip (v4InV6Prefix @ [0, 0, 0, 0]) \<or> ip_equal ip (replicate 16 0)"

definition ip_is_loopback :: "ip \<Rightarrow> bool" where
  "ip_is_loopback ip \<longleftrightarrow>
     (case to4 ip of
        Some v4 \<Rightarrow> v4 ! 0 = 127
      | None \<Rightarrow> ip_equal ip (replicate 15 0 @ [1]))"

definition ip_is_multicast :: "ip \<Rightarrow> bool" where
  "ip_is_multicast ip \<longleftrightarrow>
     (case to4 ip of
        Some v4 \<Rightarrow> (v4 ! 0) AND 0xf0 = 0xe0
      | None \<Rightarrow> length ip = 16 \<and> ip ! 0 = 0xff)"

definition ip_is_link_local_unicast :: "ip \<Rightarrow> bool" where
  "ip_is_link_local_unicast ip \<longleftrightarrow>
     (case to4 ip of
        Some v4 \<Rightarrow> v4 ! 0 = 169 \<and> v4 ! 1 = 254
      | None \<Rightarrow> length ip = 16 \<and> ip ! 0 = 0xfe \<and> (ip ! 1) AND 0xc0 = 0x80)"

section \<open>Host and port\<close>

definition split_host_port :: "string \<Rightarrow> (string \<times> string) option" where
  "split_host_port hp =
     (if CHR '':'' \<notin> set hp then None
      else
        let port = rev (takeWhile (\<lambda>c. c \<noteq> CHR '':'') (rev hp));
            i = length hp - length port - 1
        in if hp ! 0 = CHR ''['' then
             (if CHR '']'' \<notin> set hp then None
              else
                let end = length (takeWhile (\<lambda>c. c \<noteq> CHR '']'') hp)
                in if Suc end = length hp then None
                   else if Suc end \<noteq> i then None
                   else if CHR ''['' \<in> set (drop 1 hp) then None
                   else if CHR '']'' \<in> set (drop (Suc end) hp) then None
                   else Some (take (end - 1) (drop 1 hp), port))
           else
             let host = take i hp
             in if CHR '':'' \<in> set host then None
                else if CHR ''['' \<in> set hp then None
                else if CHR '']'' \<in> set hp then None
                else Some (host, port))"

definition join_host_port :: "string \<Rightarrow> string \<Rightarrow> string" where
  "join_host_port host port =
     (if CHR '':'' \<in> set host then ''['' @ host @ '']:'' @ port
      else host @ '':'' @ port)"

section \<open>Round trips\<close>

lemma takeWhile_colon_port: "CHR '':'' \<notin> set port \<Longrightarrow>
   rev (takeWhile (\<lambda>c. c \<noteq> CHR '':'') (rev (h @ CHR '':'' # port))) = port"
proof -
  assume p: "CHR '':'' \<notin> set port"
  then show ?thesis using takeWhile_sep [of "CHR '':''" "rev port" "rev h"] by simp
qed

lemma split_join_host_port:
  assumes "CHR ''['' \<notin> set host" "CHR '']'' \<notin> set host"
    and "CHR '':'' \<notin> set port" "CHR ''['' \<notin> set port" "CHR '']'' \<notin> set port"
  shows "split_host_port (join_host_port host port) = Some (host, port)"
proof (cases "CHR '':'' \<in> set host")
  case True
  let ?hp = "(''['' @ host @ '']'') @ CHR '':'' # port"
  have "rev (takeWhile (\<lambda>c. c \<noteq> CHR '':'') (rev ?hp)) = port"
    using assms(3) by (rule takeWhile_colon_port)
  moreover have "takeWhile (\<lambda>c. c \<noteq> CHR '']'') ?hp = ''['' @ host"
    using takeWhile_sep [of "CHR '']''" "''['' @ host" "CHR '':'' # port"] assms(2) by simp
  ultimately show ?thesis
    using True assms by (simp add: join_host_port_def split_host_port_def Let_def)
next
  case False
  let ?hp = "host @ CHR '':'' # port"
  have "rev (takeWhile (\<lambda>c. c \<noteq> CHR '':'') (rev ?hp)) = port"
    using assms(3) by (rule takeWhile_colon_port)
  moreover have "?hp ! 0 \<noteq> CHR ''[''"
    using assms(1) by (cases host) auto
  ultimately show ?thesis
    using False assms by (simp add: join_host_port_def split_host_port_def Let_def)
qed

lemma split_host_port_SomeD:
  assumes "split_host_port hp = Some (host, port)"
  shows "CHR '':'' \<notin> set port"
proof -
  have "port = rev (takeWhile (\<lambda>c. c \<noteq> CHR '':'') (rev hp))"
    using assms by (auto simp: split_host_port_def Let_def split: if_splits)
  then show ?thesis by (auto dest: set_takeWhileD)
qed

lemma ipv4_fields_octet:
  assumes "n \<le> 255"
  shows "ipv4_fields 0 0 acc (nat_str n @ rest)
       = ipv4_fields n (length (nat_str n)) acc rest"
proof -
  consider "n < 10" | "10 \<le> n" "n < 100" | "100 \<le> n" by linarith
  then show ?thesis
  proof cases
    case 1
    then show ?thesis by (simp add: nat_str.simps)
  next
    case 2
    then have "nat_str n = [digit_char (n div 10), digit_char (n mod 10)]" "n div 10 < 10" "n div 10 \<noteq> 0"
      by (auto simp: nat_str.simps)
    then show ?thesis using 2 by simp
  next
    case 3
    have q: "n div 100 < 10" "n div 100 \<noteq> 0" "\<not> n div 10 < 10" "n div 10 mod 10 < 10" "n mod 10 < 10"
      using 3 assms by auto
    have s: "nat_str n = [digit_char (n div 100), digit_char (n div 10 mod 10), digit_char (n mod 10)]"
      using 3 assms q by (simp add: nat_str.simps [of n] nat_str.simps [of "n div 10"]
          nat_str.simps [of "n div 100"] div_mult2_eq [symmetric])
    have e2: "n div 100 * 10 + n div 10 mod 10 = n div 10"
      using div_mult_mod_eq [of "n div 10" 10] div_mult2_eq [of n 10 10] by simp
    have e3: "n div 10 * 10 + n mod 10 = n" by simp
    have le: "(255 < n div 10) = False" "(255 < n div 100) = False" "(255 < n) = False" "(n div 100 = 0) = False"
      using assms q by auto
    show ?thesis by (simp only: s ipv4_fields.simps Let_def q digit_val_digit_char e2 e3 le
          is_digit_digit_char append_Cons append_Nil if_True if_False mult_0 add_0 list.size) simp
  qed
qed

lemma byte_le_255: "unat (b :: byte) \<le> 255"
  using unsigned_less [where 'a = nat and w = b] by (simp add: less_Suc_eq_le)

lemma ipv4_fields_string:
  "ipv4_fields 0 0 [] (ipv4_string [a, b, c, d]) = Some [a, b, c, d]"
proof -
  have dot: "ipv4_fields n (length (nat_str n)) acc (CHR ''.'' # nat_str m @ rest)
      = ipv4_fields m (length (nat_str m)) (acc @ [of_nat n]) rest"
    if "length acc < 3" "m \<le> 255" for n m acc rest
    using that ipv4_fields_octet [OF that(2), of "acc @ [of_nat n]" rest] not_digit_iff(6) by simp
  have "ipv4_fields 0 0 [] (ipv4_string [a, b, c, d])
      = ipv4_fields (unat a) (length (nat_str (unat a))) []
          (CHR ''.'' # nat_str (unat b) @ CHR ''.'' # nat_str (unat c) @ CHR ''.'' # nat_str (unat d))"
    using ipv4_fields_octet [OF byte_le_255 [of a]] by (simp add: ipv4_string_def)
  then show ?thesis
    using dot [of _ "unat d" _ "[]"] dot byte_le_255 by simp
qed

lemma find_skip_digits:
  "list_all is_digit xs \<Longrightarrow>
   find (\<lambda>c. c = CHR ''.'' \<or> c = CHR '':'' \<or> c = CHR ''%'') (xs @ CHR ''.'' # ys) = Some CHR ''.''"
  by (induction xs) (auto simp: is_digit_def)

lemma parse_ipv4_string:
  "length bs = 4 \<Longrightarrow> parse_ip (ipv4_string bs) = Some (v4InV6Prefix @ bs)"
proof -
  assume "length bs = 4"
  then obtain a b c d where bs: "bs = [a, b, c, d]"
    by (auto simp: length_Suc_conv numeral_eq_Suc)
  have "find (\<lambda>c. c = CHR ''.'' \<or> c = CHR '':'' \<or> c = CHR ''%'') (ipv4_string bs) = Some CHR ''.''"
    using find_skip_digits [OF nat_str_digits] by (simp add: bs ipv4_string_def)
  then show ?thesis
    using ipv4_fields_string [of a b c d] by (simp add: parse_ip_def bs)
qed

lemma to4_prefix [simp]: "length bs = 4 \<Longrightarrow> to4 (v4InV6Prefix @ bs) = Some bs"
  by (simp add: to4_def v4InV6Prefix_def)

lemma to4_length: "to4 ip = Some v4 \<Longrightarrow> length v4 = 4"
  by (auto simp: to4_def split: if_splits)

lemma to4_id: "length bs = 4 \<Longrightarrow> to4 bs = Some bs"
  by (simp add: to4_def)

lemma ip_string_to4: "to4 ip = Some v4 \<Longrightarrow> ip_string ip = ipv4_string v4"
  by (auto simp: ip_string_def to4_def split: if_splits)

lemma ipv4_string_chars: "c \<in> set (ipv4_string bs) \<Longrightarrow> is_digit c \<or> c = CHR ''.''"
proof -
  assume "c \<in> set (ipv4_string bs)"
  moreover have "set (join_with ''.'' xs) \<subseteq> insert CHR ''.'' (\<Union> (set ` set xs))" for xs
    by (induction xs rule: induct_list012) auto
  ultimately have "c = CHR ''.'' \<or> (\<exists>b \<in> set bs. c \<in> set (nat_str (unat b)))"
    by (fastforce simp: ipv4_string_def)
  then show ?thesis using nat_str_digits by (auto simp: list_all_iff)
qed

lemma ipv4_string_nonempty [simp]: "length bs = 4 \<Longrightarrow> ipv4_string bs \<noteq> []"
  by (auto simp: ipv4_string_def length_Suc_conv numeral_eq_Suc)

end
