(* ===== verification/Dns_Config.thy ===== *)
theory Dns_Config
  imports Net_Addr
begin

text \<open>
  \<open>engine/internal/dns/config.go\<close>: the resolver configuration, its normalisation, the
  adapter binding of a query, the DoH endpoints of a policy and the order of traditional
  servers. A normalised configuration has a known policy, canonical distinct IPv4 servers
  that include the built-in ones, and positive bounded limits; normalising again changes
  nothing.
\<close>

section \<open>Model\<close>

definition PolicyAuto :: string where "PolicyAuto = ''auto''"
definition PolicyOff :: string where "PolicyOff = ''off''"
definition PolicyAliDNS :: string where "PolicyAliDNS = ''alidns''"
definition PolicyDNSPod :: string where "PolicyDNSPod = ''dnspod''"
definition PolicyGoogle :: string where "PolicyGoogle = ''google''"

definition DefaultCacheTTL :: duration where "DefaultCacheTTL = 180 * Second"
definition DefaultQueryTimeout :: duration where "DefaultQueryTimeout = 4 * Second"
definition DefaultMaxCacheEntries :: int where "DefaultMaxCacheEntries = 1024"
definition DefaultFailureThreshold :: int where "DefaultFailureThreshold = 3"

definition defaultLegacyServers :: "string list" where
  "defaultLegacyServers = [''223.5.5.5'', ''119.29.29.29'']"

record endpoint =
  ep_IP :: string
  ep_Host :: string
  ep_Path :: string

definition mk_endpoint :: "string \<Rightarrow> string \<Rightarrow> endpoint" where
  "mk_endpoint addr host = \<lparr>ep_IP = addr, ep_Host = host, ep_Path = ''/dns-query''\<rparr>"

definition providerEndpoints :: "string \<Rightarrow> endpoint list" where
  "providerEndpoints p =
     (if p = PolicyAliDNS then [mk_endpoint ''223.5.5.5'' ''dns.alidns.com'']
      else if p = PolicyDNSPod then
        [mk_endpoint ''1.12.12.12'' ''doh.pub'', mk_endpoint ''120.53.53.53'' ''doh.pub'']
      else if p = PolicyGoogle then
        [mk_endpoint ''8.8.8.8'' ''dns.google'', mk_endpoint ''8.8.4.4'' ''dns.google'']
      else [])"

record dns_config =
  dc_Policy :: string
  dc_LegacyServers :: "string list"
  dc_CacheTTL :: duration
  dc_QueryTimeout :: duration
  dc_MaxCacheEntries :: int
  dc_FailureThreshold :: int

record binding =
  bd_Name :: string
  bd_SourceIP :: string
  bd_IfIndex :: int
  bd_DNSServers :: "string list"

datatype dns_error =
    UnsupportedPolicy string
  | NotIPv4 string
  | LegacyServersError dns_error
  | AdapterNameRequired
  | InvalidSourceAddress string
  | InvalidInterfaceIndex string
  | AdapterServersError string dns_error

definition DefaultConfig :: dns_config where
  "DefaultConfig =
     \<lparr>dc_Policy = PolicyAuto, dc_LegacyServers = defaultLegacyServers,
      dc_CacheTTL = DefaultCacheTTL, dc_QueryTimeout = DefaultQueryTimeout,
      dc_MaxCacheEntries = DefaultMaxCacheEntries, dc_FailureThreshold = DefaultFailureThreshold\<rparr>"

fun add_missing :: "string list \<Rightarrow> string list \<Rightarrow> string list" where
  "add_missing result [] = result"
| "add_missing result (v # vs) =
     add_missing (if v \<in> set result then result else result @ [v]) vs"

fun ipv4_list_loop :: "string list \<Rightarrow> string list \<Rightarrow> dns_error + string list" where
  "ipv4_list_loop result [] = Inr result"
| "ipv4_list_loop result (value # values) =
     (let text = trim_space value
      in if text = [] then ipv4_list_loop result values
         else case Option.bind (parse_ip text) to4 of
                None \<Rightarrow> Inl (NotIPv4 text)
              | Some v4 \<Rightarrow>
                  let canon = ip_string v4
                  in ipv4_list_loop (if canon \<in> set result then result else result @ [canon]) values)"

definition normalizeIPv4List :: "string list \<Rightarrow> dns_error + string list" where
  "normalizeIPv4List values = ipv4_list_loop [] values"

definition clamp_default :: "int \<Rightarrow> int \<Rightarrow> int \<Rightarrow> int" where
  "clamp_default def hi v = (if v \<le> 0 then def else if v > hi then hi else v)"

definition NormalizeConfig :: "dns_config \<Rightarrow> dns_error + dns_config" where
  "NormalizeConfig config =
     (let policy = to_lower (trim_space (dc_Policy config));
          policy = (if policy = [] then PolicyAuto else policy)
      in if policy \<notin> {PolicyAuto, PolicyOff, PolicyAliDNS, PolicyDNSPod, PolicyGoogle}
         then Inl (UnsupportedPolicy policy)
         else case normalizeIPv4List (dc_LegacyServers config) of
                Inl e \<Rightarrow> Inl (LegacyServersError e)
              | Inr servers \<Rightarrow> Inr
                  \<lparr>dc_Policy = policy,
                   dc_LegacyServers = add_missing servers defaultLegacyServers,
                   dc_CacheTTL = clamp_default DefaultCacheTTL (24 * Hour) (dc_CacheTTL config),
                   dc_QueryTimeout =
                     clamp_default DefaultQueryTimeout (30 * Second) (dc_QueryTimeout config),
                   dc_MaxCacheEntries =
                     clamp_default DefaultMaxCacheEntries 65536 (dc_MaxCacheEntries config),
                   dc_FailureThreshold =
                     clamp_default DefaultFailureThreshold 100 (dc_FailureThreshold config)\<rparr>)"

definition NormalizeBinding :: "binding \<Rightarrow> dns_error + binding" where
  "NormalizeBinding b =
     (let name = trim_space (bd_Name b); source = trim_space (bd_SourceIP b)
      in if name = [] then Inl AdapterNameRequired
         else case Option.bind (parse_ip source) to4 of
                None \<Rightarrow> Inl (InvalidSourceAddress name)
              | Some v4 \<Rightarrow>
                  if bd_IfIndex b < 0 then Inl (InvalidInterfaceIndex name)
                  else case normalizeIPv4List (bd_DNSServers b) of
                         Inl e \<Rightarrow> Inl (AdapterServersError name e)
                       | Inr servers \<Rightarrow> Inr
                           \<lparr>bd_Name = name, bd_SourceIP = ip_string v4,
                            bd_IfIndex = bd_IfIndex b, bd_DNSServers = servers\<rparr>)"

definition Endpoints :: "string \<Rightarrow> endpoint list" where
  "Endpoints policy =
     (if policy = PolicyAuto
      then concat (map providerEndpoints [PolicyAliDNS, PolicyDNSPod, PolicyGoogle])
      else providerEndpoints policy)"

definition LegacyServers :: "dns_config \<Rightarrow> binding \<Rightarrow> string list" where
  "LegacyServers config b = add_missing (bd_DNSServers b) (dc_LegacyServers config)"

lemmas policy_defs = PolicyAuto_def PolicyOff_def PolicyAliDNS_def PolicyDNSPod_def PolicyGoogle_def
lemmas dns_default_defs = DefaultCacheTTL_def DefaultQueryTimeout_def DefaultMaxCacheEntries_def
  DefaultFailureThreshold_def

section \<open>Invariants\<close>

text \<open>A canonical server is the dotted form of four bytes.\<close>

definition canonical_ipv4 :: "string \<Rightarrow> bool" where
  "canonical_ipv4 s \<longleftrightarrow> Option.bind (parse_ip s) to4 \<noteq> None
     \<and> ip_string (the (Option.bind (parse_ip s) to4)) = s"

definition wf_dns_config :: "dns_config \<Rightarrow> bool" where
  "wf_dns_config c \<longleftrightarrow>
     dc_Policy c \<in> {PolicyAuto, PolicyOff, PolicyAliDNS, PolicyDNSPod, PolicyGoogle}
     \<and> distinct (dc_LegacyServers c) \<and> list_all canonical_ipv4 (dc_LegacyServers c)
     \<and> set defaultLegacyServers \<subseteq> set (dc_LegacyServers c)
     \<and> 0 < dc_CacheTTL c \<and> dc_CacheTTL c \<le> 24 * Hour
     \<and> 0 < dc_QueryTimeout c \<and> dc_QueryTimeout c \<le> 30 * Second
     \<and> 0 < dc_MaxCacheEntries c \<and> dc_MaxCacheEntries c \<le> 65536
     \<and> 0 < dc_FailureThreshold c \<and> dc_FailureThreshold c \<le> 100"

definition wf_binding :: "binding \<Rightarrow> bool" where
  "wf_binding b \<longleftrightarrow>
     bd_Name b \<noteq> [] \<and> trim_space (bd_Name b) = bd_Name b
     \<and> canonical_ipv4 (bd_SourceIP b) \<and> 0 \<le> bd_IfIndex b
     \<and> distinct (bd_DNSServers b) \<and> list_all canonical_ipv4 (bd_DNSServers b)"

section \<open>Lemmas\<close>

lemma canonical_ipv4_string: "length bs = 4 \<Longrightarrow> canonical_ipv4 (ipv4_string bs)"
  by (simp add: canonical_ipv4_def parse_ipv4_string to4_id ip_string_to4)

lemma canonical_ipv4E:
  assumes "canonical_ipv4 s"
  obtains bs where "length bs = 4" "s = ipv4_string bs"
proof -
  obtain v4 where v4: "Option.bind (parse_ip s) to4 = Some v4" "ip_string v4 = s"
    using assms by (auto simp: canonical_ipv4_def)
  then have "length v4 = 4" by (auto simp: bind_eq_Some_conv dest: to4_length)
  then show ?thesis using v4 that [of v4] by (simp add: ip_string_to4 to4_id)
qed

lemma ipv4_string_graphic: "list_all graphic (ipv4_string bs)"
proof -
  have "graphic c" if "c \<in> set (ipv4_string bs)" for c
    using ipv4_string_chars [OF that] by (auto simp: graphic_def is_digit_def)
  then show ?thesis by (simp add: list_all_iff)
qed

lemma canonical_ipv4_facts:
  assumes "canonical_ipv4 s"
  shows "s \<noteq> []" "trim_space s = s"
    "\<exists>v4. Option.bind (parse_ip s) to4 = Some v4 \<and> length v4 = 4 \<and> ip_string v4 = s"
proof -
  obtain bs where bs: "length bs = 4" "s = ipv4_string bs" using assms by (rule canonical_ipv4E)
  then show "s \<noteq> []" by simp
  show "trim_space s = s" using bs ipv4_string_graphic by (simp add: trim_space_graphic)
  show "\<exists>v4. Option.bind (parse_ip s) to4 = Some v4 \<and> length v4 = 4 \<and> ip_string v4 = s"
    using bs by (simp add: parse_ipv4_string ip_string_to4 to4_id)
qed

lemma bind_to4_canonical:
  assumes "Option.bind (parse_ip text) to4 = Some v4"
  shows "canonical_ipv4 (ip_string v4)"
proof -
  have "length v4 = 4" using assms by (auto simp: bind_eq_Some_conv dest: to4_length)
  then show ?thesis by (simp add: ip_string_to4 to4_id canonical_ipv4_string)
qed

lemma set_add_missing [simp]: "set (add_missing r vs) = set r \<union> set vs"
  by (induction r vs rule: add_missing.induct) auto

lemma distinct_add_missing [simp]: "distinct (add_missing r vs) \<longleftrightarrow> distinct r"
  by (induction r vs rule: add_missing.induct) auto

lemma add_missing_absorb: "set vs \<subseteq> set r \<Longrightarrow> add_missing r vs = r"
  by (induction r vs rule: add_missing.induct) auto

lemma prefix_add_missing: "prefix r (add_missing r vs)"
proof (induction r vs rule: add_missing.induct)
  case (2 r v vs)
  then show ?case by (auto intro: append_prefixD)
qed simp

lemma ipv4_list_loop_wf:
  assumes "ipv4_list_loop r vs = Inr r'" "distinct r" "list_all canonical_ipv4 r"
  shows "distinct r' \<and> list_all canonical_ipv4 r'"
  using assms
proof (induction r vs rule: ipv4_list_loop.induct)
  case (2 r v vs)
  then show ?case
    by (auto simp: Let_def bind_to4_canonical split: if_splits option.splits)
qed simp

lemma ipv4_list_loop_id:
  assumes "list_all canonical_ipv4 vs" "distinct (r @ vs)"
  shows "ipv4_list_loop r vs = Inr (r @ vs)"
  using assms
proof (induction vs arbitrary: r)
  case (Cons v vs)
  then obtain v4 where "Option.bind (parse_ip v) to4 = Some v4" "ip_string v4 = v"
    using canonical_ipv4_facts(3) [of v] by auto
  then show ?case
    using Cons canonical_ipv4_facts(1,2) [of v] by (auto simp: Let_def)
qed simp

lemmas normalizeIPv4List_wf = ipv4_list_loop_wf [of "[]", folded normalizeIPv4List_def, simplified]
lemmas normalizeIPv4List_id = ipv4_list_loop_id [of _ "[]", folded normalizeIPv4List_def, simplified]

lemma defaultLegacyServers_eq:
  "defaultLegacyServers = [ipv4_string [223, 5, 5, 5], ipv4_string [119, 29, 29, 29]]"
  by code_simp

lemma defaultLegacyServers_canonical: "list_all canonical_ipv4 defaultLegacyServers"
  by (simp add: defaultLegacyServers_eq canonical_ipv4_string)

lemma clamp_default_bounds:
  "0 < def \<Longrightarrow> def \<le> hi \<Longrightarrow> 0 < clamp_default def hi v \<and> clamp_default def hi v \<le> hi"
  by (simp add: clamp_default_def)

lemma clamp_default_id: "0 < v \<Longrightarrow> v \<le> hi \<Longrightarrow> clamp_default def hi v = v"
  by (simp add: clamp_default_def)

lemma wf_dns_config_fixed:
  assumes "wf_dns_config c"
  shows "NormalizeConfig c = Inr c"
proof -
  have p: "to_lower (trim_space (dc_Policy c)) = dc_Policy c" "dc_Policy c \<noteq> []"
    using assms by (auto simp: wf_dns_config_def policy_defs trim_space_graphic graphic_def
        to_lower_def lower_char_def)
  show ?thesis
    using assms p
    by (auto simp: NormalizeConfig_def wf_dns_config_def normalizeIPv4List_id clamp_default_id
        add_missing_absorb Let_def)
qed

lemma NormalizeConfig_wf:
  assumes "NormalizeConfig c = Inr c'"
  shows "wf_dns_config c'"
proof -
  obtain servers where s: "normalizeIPv4List (dc_LegacyServers c) = Inr servers"
    using assms by (auto simp: NormalizeConfig_def Let_def split: if_splits sum.splits)
  have "distinct servers \<and> list_all canonical_ipv4 servers"
    using s by (rule normalizeIPv4List_wf)
  then show ?thesis
    using assms s defaultLegacyServers_canonical
    by (auto simp: NormalizeConfig_def wf_dns_config_def Let_def clamp_default_bounds
        dns_default_defs time_defs list_all_iff split: if_splits)
qed

text \<open>
  Normalising a DNS configuration either reports an error or yields a well-formed
  configuration (known policy, distinct canonical IPv4 servers that include the built-in
  ones, every limit positive and bounded), and normalising that result again returns it
  unchanged. The error cases are exactly an unknown policy and a server that is not IPv4.
\<close>

theorem NormalizeConfig_wf_idempotent:
  "case NormalizeConfig c of
     Inl e \<Rightarrow> (\<exists>p. e = UnsupportedPolicy p) \<or> (\<exists>t. e = LegacyServersError t)
   | Inr c' \<Rightarrow> wf_dns_config c' \<and> NormalizeConfig c' = Inr c'"
proof (cases "NormalizeConfig c")
  case (Inl e)
  then show ?thesis by (auto simp: NormalizeConfig_def Let_def split: if_splits sum.splits)
next
  case (Inr c')
  then have "wf_dns_config c'" by (rule NormalizeConfig_wf)
  with Inr show ?thesis by (simp add: wf_dns_config_fixed)
qed

lemma NormalizeBinding_wf: "NormalizeBinding b = Inr b' \<Longrightarrow> wf_binding b'"
  using normalizeIPv4List_wf [of "bd_DNSServers b" "bd_DNSServers b'"]
  by (auto simp: NormalizeBinding_def wf_binding_def Let_def bind_to4_canonical
      split: if_splits option.splits sum.splits)

lemma wf_binding_fixed: "wf_binding b \<Longrightarrow> NormalizeBinding b = Inr b"
  using canonical_ipv4_facts [of "bd_SourceIP b"]
  by (auto simp: NormalizeBinding_def wf_binding_def Let_def normalizeIPv4List_id)

text \<open>The traditional servers of a query: the adapter's own ones first, every configured one once.\<close>

lemma LegacyServers_wf:
  assumes "wf_dns_config c" "wf_binding b"
  shows "distinct (LegacyServers c b)" "prefix (bd_DNSServers b) (LegacyServers c b)"
    "set defaultLegacyServers \<subseteq> set (LegacyServers c b)" "list_all canonical_ipv4 (LegacyServers c b)"
  using assms prefix_add_missing
  by (auto simp: LegacyServers_def wf_dns_config_def wf_binding_def list_all_iff)

lemma Endpoints_nonempty_iff:
  assumes "wf_dns_config c"
  shows "Endpoints (dc_Policy c) = [] \<longleftrightarrow> dc_Policy c = PolicyOff"
  using assms by (auto simp: wf_dns_config_def Endpoints_def providerEndpoints_def policy_defs)

end
