(* ===== verification/Proxy_Config.thy ===== *)
theory Proxy_Config
  imports Dns_Config
begin

text \<open>
  \<open>engine/internal/proxy/config.go\<close>: adapters, channels, the proxy configuration and its
  normalisation. The wall clock that \<open>normalizeConfig\<close> reads is its first argument. A
  normalised configuration satisfies \<open>wf_config\<close>, which is what the schedulers, the health
  table and the listeners rely on.
\<close>

section \<open>Model\<close>

definition DefaultListenHost :: string where "DefaultListenHost = ''127.0.0.1''"
definition DefaultSOCKSPort :: int where "DefaultSOCKSPort = 10800"
definition DefaultHTTPPort :: int where "DefaultHTTPPort = 10801"
definition ChannelEthernet :: string where "ChannelEthernet = ''nic_ethernet''"
definition ChannelWiFi :: string where "ChannelWiFi = ''nic_wifi''"
definition ChannelAggregation :: string where "ChannelAggregation = ''aggregation''"
definition ChannelDirect :: string where "ChannelDirect = ''direct''"

lemmas channel_defs = ChannelEthernet_def ChannelWiFi_def ChannelAggregation_def ChannelDirect_def

record adapter =
  ad_Name :: string
  ad_SourceIP :: string
  ad_IfIndex :: int
  ad_SourceIPv6 :: string
  ad_IPv6IfIndex :: int
  ad_Weight :: int
  ad_DNSServers :: "string list"

record channel =
  chn_Name :: string
  chn_Port :: int
  chn_AdapterNames :: "string list"

record quarantine_seed =
  qs_Adapter :: string
  qs_Domain :: string
  qs_ExpiresAt :: go_time

record proxy_config =
  cf_ListenHost :: string
  cf_SOCKSPort :: int
  cf_HTTPPort :: int
  cf_Weighted :: bool
  cf_Adapters :: "adapter list"
  cf_Channels :: "channel list"
  cf_ConnectTimeout :: duration
  cf_DNS :: dns_config
  cf_DomainIsolation :: "bool option"
  cf_DomainIsolationExpiry :: "bool option"
  cf_DomainQuarantines :: "quarantine_seed list"

datatype config_error =
    ListenHostNotLoopback | InvalidSOCKSPort int | InvalidHTTPPort int
  | PortsMustBothBeZero | PortsMustDiffer | ChannelPoolWithPorts
  | NoAdapters | TooManyAdapters
  | AdapterNameMissing | AdapterSourceInvalid string | AdapterIfIndexInvalid string
  | AdapterIPv6IfIndexInvalid string | AdapterIPv6Invalid string | AdapterIPv6Unusable string
  | AdapterDNS dns_error
  | DuplicateAdapterName string | DuplicateAdapterIP string | DuplicateAdapterIPv6 string
  | TooFewChannels | ChannelNameMissing | ChannelNameUnsupported string
  | DuplicateChannelName string | ChannelPortInvalid string int | DuplicateChannelPort int
  | ChannelWithoutAdapters string | DirectChannelWithAdapters
  | ChannelUnknownAdapter string string | ChannelRepeatsAdapter string string
  | MissingChannel string
  | DNSConfigError dns_error

text \<open>\<open>normalizeDomain\<close> of \<open>health.go\<close>, used for the seeds as well.\<close>

definition normalizeDomain :: "string \<Rightarrow> string" where
  "normalizeDomain domain = trim_suffix (to_lower (trim_space domain)) ''.''"

text \<open>The IPv6 part of the adapter loop: \<open>if adapter.SourceIPv6 != ""\<close>.\<close>

definition normalize_ipv6_source :: "adapter \<Rightarrow> config_error + adapter" where
  "normalize_ipv6_source a =
     (if ad_SourceIPv6 a = [] then Inr a
      else case parse_ip (ad_SourceIPv6 a) of
             None \<Rightarrow> Inl (AdapterIPv6Invalid (ad_Name a))
           | Some ipv6 \<Rightarrow>
               if to4 ipv6 \<noteq> None then Inl (AdapterIPv6Invalid (ad_Name a))
               else if ip_is_unspecified ipv6 \<or> ip_is_multicast ipv6 \<or> ip_is_link_local_unicast ipv6
                 then Inl (AdapterIPv6Unusable (ad_Name a))
               else Inr (a\<lparr>ad_SourceIPv6 := ip_string ipv6,
                           ad_IPv6IfIndex := (if ad_IPv6IfIndex a = 0 then ad_IfIndex a
                                              else ad_IPv6IfIndex a)\<rparr>))"

definition normalize_adapter :: "adapter \<Rightarrow> config_error + adapter" where
  "normalize_adapter raw =
     (let a = raw\<lparr>ad_Name := trim_space (ad_Name raw), ad_SourceIP := trim_space (ad_SourceIP raw),
                  ad_SourceIPv6 := trim_space (ad_SourceIPv6 raw)\<rparr>
      in if ad_Name a = [] then Inl AdapterNameMissing
         else case Option.bind (parse_ip (ad_SourceIP a)) to4 of
                None \<Rightarrow> Inl (AdapterSourceInvalid (ad_Name a))
              | Some v4 \<Rightarrow>
                  let a = a\<lparr>ad_SourceIP := ip_string v4\<rparr>
                  in if ad_IfIndex a < 0 then Inl (AdapterIfIndexInvalid (ad_Name a))
                     else if ad_IPv6IfIndex a < 0 then Inl (AdapterIPv6IfIndexInvalid (ad_Name a))
                     else case normalize_ipv6_source a of
                            Inl e \<Rightarrow> Inl e
                          | Inr a \<Rightarrow>
                              (case NormalizeBinding \<lparr>bd_Name = ad_Name a, bd_SourceIP = ad_SourceIP a,
                                      bd_IfIndex = ad_IfIndex a, bd_DNSServers = ad_DNSServers a\<rparr> of
                                 Inl e \<Rightarrow> Inl (AdapterDNS e)
                               | Inr b \<Rightarrow>
                                   Inr (a\<lparr>ad_DNSServers := bd_DNSServers b,
                                          ad_Weight := (if ad_Weight a \<le> 0 then 1 else ad_Weight a)\<rparr>)))"

fun adapters_loop :: "adapter list \<Rightarrow> adapter list \<Rightarrow> config_error + adapter list" where
  "adapters_loop seen [] = Inr seen"
| "adapters_loop seen (raw # rest) =
     (case normalize_adapter raw of
        Inl e \<Rightarrow> Inl e
      | Inr a \<Rightarrow>
          if ad_Name a \<in> ad_Name ` set seen then Inl (DuplicateAdapterName (ad_Name a))
          else if ad_SourceIP a \<in> ad_SourceIP ` set seen then Inl (DuplicateAdapterIP (ad_SourceIP a))
          else if ad_SourceIPv6 a \<noteq> [] \<and> ad_SourceIPv6 a \<in> ad_SourceIPv6 ` set seen
            then Inl (DuplicateAdapterIPv6 (ad_SourceIPv6 a))
          else adapters_loop (seen @ [a]) rest)"

fun channel_adapters_loop ::
    "string set \<Rightarrow> string \<Rightarrow> string list \<Rightarrow> string list \<Rightarrow> config_error + string list" where
  "channel_adapters_loop known ch names [] = Inr names"
| "channel_adapters_loop known ch names (rawName # rest) =
     (let name = trim_space rawName
      in if name \<notin> known then Inl (ChannelUnknownAdapter ch name)
         else if name \<in> set names then Inl (ChannelRepeatsAdapter ch name)
         else channel_adapters_loop known ch (names @ [name]) rest)"

fun channels_loop :: "string set \<Rightarrow> channel list \<Rightarrow> channel list \<Rightarrow> config_error + channel list" where
  "channels_loop known seen [] = Inr seen"
| "channels_loop known seen (raw # rest) =
     (let name = trim_space (chn_Name raw)
      in if name = [] then Inl ChannelNameMissing
         else if name \<notin> {ChannelEthernet, ChannelWiFi, ChannelAggregation} \<and> name \<noteq> ChannelDirect
                 \<and> (\<not> has_prefix name ''nic_'' \<or> length name \<le> 4)
           then Inl (ChannelNameUnsupported name)
         else if name \<in> chn_Name ` set seen then Inl (DuplicateChannelName name)
         else if chn_Port raw < 0 \<or> chn_Port raw > 65535 then Inl (ChannelPortInvalid name (chn_Port raw))
         else if chn_Port raw \<noteq> 0 \<and> chn_Port raw \<in> chn_Port ` set seen
           then Inl (DuplicateChannelPort (chn_Port raw))
         else if name \<noteq> ChannelDirect \<and> chn_AdapterNames raw = [] then Inl (ChannelWithoutAdapters name)
         else if name = ChannelDirect \<and> chn_AdapterNames raw \<noteq> [] then Inl DirectChannelWithAdapters
         else case channel_adapters_loop known name [] (chn_AdapterNames raw) of
                Inl e \<Rightarrow> Inl e
              | Inr names \<Rightarrow>
                  channels_loop known
                    (seen @ [raw\<lparr>chn_Name := name, chn_AdapterNames := names\<rparr>]) rest)"

text \<open>
  When several baseline channels are missing Go reports one of them (its map iteration order
  is random); the model reports the first.
\<close>

definition normalizeChannels :: "adapter list \<Rightarrow> channel list \<Rightarrow> config_error + channel list" where
  "normalizeChannels adapters channels =
     (if channels = [] then Inr []
      else if length channels < 3 then Inl TooFewChannels
      else case channels_loop (ad_Name ` set adapters) [] channels of
             Inl e \<Rightarrow> Inl e
           | Inr chs \<Rightarrow>
               (case find (\<lambda>n. n \<notin> chn_Name ` set chs) [ChannelEthernet, ChannelWiFi, ChannelAggregation] of
                  Some n \<Rightarrow> Inl (MissingChannel n)
                | None \<Rightarrow> Inr chs))"

fun seeds_loop ::
    "go_time \<Rightarrow> bool \<Rightarrow> string set \<Rightarrow> quarantine_seed list \<Rightarrow> quarantine_seed list" where
  "seeds_loop now expiry known [] = []"
| "seeds_loop now expiry known (raw # rest) =
     (let s = raw\<lparr>qs_Adapter := trim_space (qs_Adapter raw), qs_Domain := normalizeDomain (qs_Domain raw),
                  qs_ExpiresAt := (if expiry then qs_ExpiresAt raw else add_years 100 now)\<rparr>
      in if qs_Adapter s \<notin> known \<or> qs_Domain s = [] \<or> \<not> time_after (qs_ExpiresAt s) now
         then seeds_loop now expiry known rest
         else s # seeds_loop now expiry known rest)"

definition check_ports :: "proxy_config \<Rightarrow> config_error option" where
  "check_ports c =
     (if cf_SOCKSPort c < 0 \<or> cf_SOCKSPort c > 65535 then Some (InvalidSOCKSPort (cf_SOCKSPort c))
      else if cf_HTTPPort c < 0 \<or> cf_HTTPPort c > 65535 then Some (InvalidHTTPPort (cf_HTTPPort c))
      else if cf_Channels c = [] then
        (if cf_SOCKSPort c = 0 \<and> cf_HTTPPort c \<noteq> 0 \<or> cf_HTTPPort c = 0 \<and> cf_SOCKSPort c \<noteq> 0
           then Some PortsMustBothBeZero
         else if cf_SOCKSPort c \<noteq> 0 \<and> cf_SOCKSPort c = cf_HTTPPort c then Some PortsMustDiffer
         else None)
      else if cf_SOCKSPort c \<noteq> 0 \<or> cf_HTTPPort c \<noteq> 0 then Some ChannelPoolWithPorts
      else None)"

text \<open>The listen host with its default, and an optional switch that defaults to on.\<close>

definition listen_host :: "string \<Rightarrow> string" where
  "listen_host raw = (let host = trim_space raw in if host = [] then DefaultListenHost else host)"

definition default_true :: "bool option \<Rightarrow> bool" where
  "default_true b = (case b of None \<Rightarrow> True | Some v \<Rightarrow> v)"

definition normalizeConfig :: "go_time \<Rightarrow> proxy_config \<Rightarrow> config_error + proxy_config" where
  "normalizeConfig now c =
     (let host = listen_host (cf_ListenHost c)
      in if (case parse_ip host of None \<Rightarrow> True | Some ip \<Rightarrow> \<not> ip_is_loopback ip)
           then Inl ListenHostNotLoopback
         else case check_ports c of
           Some e \<Rightarrow> Inl e
         | None \<Rightarrow>
             if cf_Adapters c = [] then Inl NoAdapters
             else if length (cf_Adapters c) > 64 then Inl TooManyAdapters
             else case adapters_loop [] (cf_Adapters c) of
               Inl e \<Rightarrow> Inl e
             | Inr adapters \<Rightarrow>
                 (case normalizeChannels adapters (cf_Channels c) of
                    Inl e \<Rightarrow> Inl e
                  | Inr channels \<Rightarrow>
                      (case NormalizeConfig (cf_DNS c) of
                         Inl e \<Rightarrow> Inl (DNSConfigError e)
                       | Inr dns \<Rightarrow>
                           let isolation = default_true (cf_DomainIsolation c);
                               expiry = default_true (cf_DomainIsolationExpiry c)
                           in Inr (c\<lparr>cf_ListenHost := host, cf_Adapters := adapters, cf_Channels := channels,
                                cf_ConnectTimeout := clamp_default (6 * Second) (30 * Second) (cf_ConnectTimeout c),
                                cf_DNS := dns, cf_DomainIsolation := Some isolation,
                                cf_DomainIsolationExpiry := Some expiry,
                                cf_DomainQuarantines := seeds_loop now expiry (ad_Name ` set adapters)
                                   (cf_DomainQuarantines c)\<rparr>))))"

definition adaptersForChannel :: "adapter list \<Rightarrow> channel \<Rightarrow> adapter list" where
  "adaptersForChannel adapters ch = filter (\<lambda>a. ad_Name a \<in> set (chn_AdapterNames ch)) adapters"

section \<open>Well-formed configurations\<close>

definition wf_adapter :: "adapter \<Rightarrow> bool" where
  "wf_adapter a \<longleftrightarrow>
     ad_Name a \<noteq> [] \<and> trim_space (ad_Name a) = ad_Name a \<and> canonical_ipv4 (ad_SourceIP a)
     \<and> 0 \<le> ad_IfIndex a \<and> 0 \<le> ad_IPv6IfIndex a \<and> 1 \<le> ad_Weight a
     \<and> distinct (ad_DNSServers a) \<and> list_all canonical_ipv4 (ad_DNSServers a)"

definition wf_adapters :: "adapter list \<Rightarrow> bool" where
  "wf_adapters as \<longleftrightarrow>
     list_all wf_adapter as \<and> distinct (map ad_Name as) \<and> distinct (map ad_SourceIP as)
     \<and> distinct (filter (\<lambda>s. s \<noteq> []) (map ad_SourceIPv6 as))"

definition wf_channel :: "string set \<Rightarrow> channel \<Rightarrow> bool" where
  "wf_channel known ch \<longleftrightarrow>
     0 \<le> chn_Port ch \<and> chn_Port ch \<le> 65535 \<and> chn_Name ch \<noteq> []
     \<and> distinct (chn_AdapterNames ch) \<and> set (chn_AdapterNames ch) \<subseteq> known
     \<and> (chn_AdapterNames ch = [] \<longleftrightarrow> chn_Name ch = ChannelDirect)"

definition wf_channels :: "string set \<Rightarrow> channel list \<Rightarrow> bool" where
  "wf_channels known chs \<longleftrightarrow>
     list_all (wf_channel known) chs \<and> distinct (map chn_Name chs)
     \<and> distinct (filter (\<lambda>p. p \<noteq> 0) (map chn_Port chs))"

definition wf_config :: "go_time \<Rightarrow> proxy_config \<Rightarrow> bool" where
  "wf_config now c \<longleftrightarrow>
     (\<exists>ip. parse_ip (cf_ListenHost c) = Some ip \<and> ip_is_loopback ip)
     \<and> check_ports c = None
     \<and> cf_Adapters c \<noteq> [] \<and> length (cf_Adapters c) \<le> 64 \<and> wf_adapters (cf_Adapters c)
     \<and> wf_channels (ad_Name ` set (cf_Adapters c)) (cf_Channels c)
     \<and> (cf_Channels c \<noteq> [] \<longrightarrow>
          {ChannelEthernet, ChannelWiFi, ChannelAggregation} \<subseteq> chn_Name ` set (cf_Channels c))
     \<and> 0 < cf_ConnectTimeout c \<and> cf_ConnectTimeout c \<le> 30 * Second
     \<and> wf_dns_config (cf_DNS c)
     \<and> cf_DomainIsolation c \<noteq> None \<and> cf_DomainIsolationExpiry c \<noteq> None
     \<and> (\<forall>s \<in> set (cf_DomainQuarantines c).
          qs_Adapter s \<in> ad_Name ` set (cf_Adapters c) \<and> qs_Domain s \<noteq> []
          \<and> time_after (qs_ExpiresAt s) now)"

section \<open>Lemmas\<close>

lemma normalize_ipv6_source_keeps:
  "normalize_ipv6_source a = Inr a' \<Longrightarrow> 0 \<le> ad_IfIndex a \<Longrightarrow> 0 \<le> ad_IPv6IfIndex a \<Longrightarrow>
     ad_Name a' = ad_Name a \<and> ad_SourceIP a' = ad_SourceIP a \<and> ad_IfIndex a' = ad_IfIndex a
     \<and> 0 \<le> ad_IPv6IfIndex a' \<and> ad_DNSServers a' = ad_DNSServers a \<and> ad_Weight a' = ad_Weight a"
  by (auto simp: normalize_ipv6_source_def split: if_splits option.splits)

lemma normalize_adapter_wf:
  assumes "normalize_adapter raw = Inr a"
  shows "wf_adapter a"
proof -
  define r where "r = raw\<lparr>ad_Name := trim_space (ad_Name raw), ad_SourceIP := trim_space (ad_SourceIP raw),
                  ad_SourceIPv6 := trim_space (ad_SourceIPv6 raw)\<rparr>"
  obtain v4 a1 b where
    n: "ad_Name r \<noteq> []" and v4: "Option.bind (parse_ip (ad_SourceIP r)) to4 = Some v4"
    and ix: "0 \<le> ad_IfIndex r" "0 \<le> ad_IPv6IfIndex r"
    and a1: "normalize_ipv6_source (r\<lparr>ad_SourceIP := ip_string v4\<rparr>) = Inr a1"
    and b: "NormalizeBinding \<lparr>bd_Name = ad_Name a1, bd_SourceIP = ad_SourceIP a1,
              bd_IfIndex = ad_IfIndex a1, bd_DNSServers = ad_DNSServers a1\<rparr> = Inr b"
    and a: "a = a1\<lparr>ad_DNSServers := bd_DNSServers b,
                   ad_Weight := (if ad_Weight a1 \<le> 0 then 1 else ad_Weight a1)\<rparr>"
    using assms
    by (auto simp: normalize_adapter_def Let_def r_def split: if_splits option.splits sum.splits)
  have "canonical_ipv4 (ip_string v4)" using v4 by (rule bind_to4_canonical)
  moreover have "trim_space (ad_Name r) = ad_Name r" by (simp add: r_def)
  ultimately show ?thesis
    using normalize_ipv6_source_keeps [OF a1] NormalizeBinding_wf [OF b] n ix a
    by (simp add: wf_adapter_def wf_binding_def)
qed

lemma adapters_loop_wf:
  assumes "adapters_loop seen raws = Inr as" "wf_adapters seen"
  shows "wf_adapters as \<and> length as = length seen + length raws"
  using assms
proof (induction seen raws rule: adapters_loop.induct)
  case (2 seen raw rest)
  then obtain a where a: "normalize_adapter raw = Inr a"
    and fresh: "ad_Name a \<notin> ad_Name ` set seen" "ad_SourceIP a \<notin> ad_SourceIP ` set seen"
      "ad_SourceIPv6 a = [] \<or> ad_SourceIPv6 a \<notin> ad_SourceIPv6 ` set seen"
    and rest: "adapters_loop (seen @ [a]) rest = Inr as"
    by (auto split: sum.splits if_splits)
  have "wf_adapters (seen @ [a])"
    using "2.prems"(2) fresh normalize_adapter_wf [OF a] by (auto simp: wf_adapters_def)
  then show ?case using "2.IH" [OF a] fresh rest by auto
qed simp

lemma channel_adapters_loop_wf:
  "channel_adapters_loop known ch names raws = Inr names' \<Longrightarrow> distinct names \<Longrightarrow> set names \<subseteq> known \<Longrightarrow>
     distinct names' \<and> set names' \<subseteq> known \<and> length names' = length names + length raws"
  by (induction known ch names raws rule: channel_adapters_loop.induct)
     (auto simp: Let_def split: if_splits)

lemma channels_loop_wf:
  assumes "channels_loop known seen raws = Inr chs" "wf_channels known seen"
  shows "wf_channels known chs \<and> length chs = length seen + length raws"
  using assms
proof (induction known seen raws rule: channels_loop.induct)
  case (2 known seen raw rest)
  let ?name = "trim_space (chn_Name raw)"
  obtain names where
    names: "channel_adapters_loop known ?name [] (chn_AdapterNames raw) = Inr names"
    and nm: "?name \<noteq> []" "?name \<notin> chn_Name ` set seen"
    and port: "0 \<le> chn_Port raw" "chn_Port raw \<le> 65535" "chn_Port raw = 0 \<or> chn_Port raw \<notin> chn_Port ` set seen"
    and direct: "chn_AdapterNames raw = [] \<longleftrightarrow> ?name = ChannelDirect"
    and rest: "channels_loop known (seen @ [raw\<lparr>chn_Name := ?name, chn_AdapterNames := names\<rparr>]) rest = Inr chs"
    using "2.prems"(1) by (auto simp: Let_def split: sum.splits if_splits)
  have n: "distinct names" "set names \<subseteq> known" "length names = length (chn_AdapterNames raw)"
    using channel_adapters_loop_wf [OF names] by auto
  have "names = [] \<longleftrightarrow> ?name = ChannelDirect"
    using n(3) direct by (metis length_0_conv)
  then have wf: "wf_channels known (seen @ [raw\<lparr>chn_Name := ?name, chn_AdapterNames := names\<rparr>])"
    using "2.prems"(2) nm port n by (auto simp: wf_channels_def wf_channel_def)
  show ?case
  proof -
    have "\<not> (?name \<notin> {ChannelEthernet, ChannelWiFi, ChannelAggregation} \<and> ?name \<noteq> ChannelDirect
                 \<and> (\<not> has_prefix ?name ''nic_'' \<or> length ?name \<le> 4))"
      using "2.prems"(1) nm by (auto simp: Let_def split: if_splits)
    then show ?thesis
      using "2.IH" [OF refl nm(1) _ nm(2) _ _ _ _ names rest wf] port direct by auto
  qed
qed simp

lemma normalizeChannels_wf:
  assumes "normalizeChannels as raws = Inr chs"
  shows "wf_channels (ad_Name ` set as) chs \<and> (chs = [] \<longleftrightarrow> raws = [])
    \<and> (chs \<noteq> [] \<longrightarrow> {ChannelEthernet, ChannelWiFi, ChannelAggregation} \<subseteq> chn_Name ` set chs)"
proof (cases "raws = []")
  case True
  then show ?thesis using assms by (simp add: normalizeChannels_def wf_channels_def)
next
  case False
  then have l: "channels_loop (ad_Name ` set as) [] raws = Inr chs"
    and f: "find (\<lambda>n. n \<notin> chn_Name ` set chs) [ChannelEthernet, ChannelWiFi, ChannelAggregation] = None"
    using assms by (auto simp: normalizeChannels_def split: sum.splits if_splits option.splits)
  have "wf_channels (ad_Name ` set as) [] " by (simp add: wf_channels_def)
  then have "wf_channels (ad_Name ` set as) chs \<and> length chs = length raws"
    using channels_loop_wf [OF l] by simp
  moreover have "{ChannelEthernet, ChannelWiFi, ChannelAggregation} \<subseteq> chn_Name ` set chs"
    using f [unfolded find_None_iff] by auto
  ultimately show ?thesis using False by auto
qed

lemma seeds_loop_wf:
  "s \<in> set (seeds_loop now expiry known raws) \<Longrightarrow>
     qs_Adapter s \<in> known \<and> qs_Domain s \<noteq> [] \<and> time_after (qs_ExpiresAt s) now"
  by (induction now expiry known raws rule: seeds_loop.induct) (auto simp: Let_def split: if_splits)

lemma check_ports_cong:
  "cf_SOCKSPort c' = cf_SOCKSPort c \<Longrightarrow> cf_HTTPPort c' = cf_HTTPPort c \<Longrightarrow>
   (cf_Channels c' = [] \<longleftrightarrow> cf_Channels c = []) \<Longrightarrow> check_ports c' = check_ports c"
  by (simp add: check_ports_def)

lemma normalizeConfig_accepts:
  assumes "normalizeConfig now c = Inr c'"
  shows "wf_config now c'"
proof -
  obtain adapters channels dns where
    as: "adapters_loop [] (cf_Adapters c) = Inr adapters"
    and chs: "normalizeChannels adapters (cf_Channels c) = Inr channels"
    and dns: "NormalizeConfig (cf_DNS c) = Inr dns"
    and ports: "check_ports c = None" and ne: "cf_Adapters c \<noteq> []" "length (cf_Adapters c) \<le> 64"
    and host: "\<exists>ip. parse_ip (cf_ListenHost c') = Some ip \<and> ip_is_loopback ip"
    and c': "cf_Adapters c' = adapters" "cf_Channels c' = channels" "cf_DNS c' = dns"
      "cf_SOCKSPort c' = cf_SOCKSPort c" "cf_HTTPPort c' = cf_HTTPPort c"
      "cf_ConnectTimeout c' = clamp_default (6 * Second) (30 * Second) (cf_ConnectTimeout c)"
      "cf_DomainIsolation c' \<noteq> None" "cf_DomainIsolationExpiry c' \<noteq> None"
      "cf_DomainQuarantines c' = seeds_loop now (default_true (cf_DomainIsolationExpiry c))
         (ad_Name ` set adapters) (cf_DomainQuarantines c)"
    using assms
    by (auto simp: normalizeConfig_def Let_def split: if_splits option.splits sum.splits)
  have wa: "wf_adapters adapters" "length adapters = length (cf_Adapters c)"
    using adapters_loop_wf [OF as] by (simp_all add: wf_adapters_def)
  have "0 < clamp_default (6 * Second) (30 * Second) (cf_ConnectTimeout c)
      \<and> clamp_default (6 * Second) (30 * Second) (cf_ConnectTimeout c) \<le> 30 * Second"
    by (rule clamp_default_bounds) (simp_all add: time_defs)
  moreover have "check_ports c' = None"
    using check_ports_cong [of c' c] c' normalizeChannels_wf [OF chs] ports by simp
  moreover have "adapters \<noteq> []" using wa(2) ne by auto
  ultimately show ?thesis
    using wa ne host c' normalizeChannels_wf [OF chs] NormalizeConfig_wf [OF dns] seeds_loop_wf
    by (auto simp: wf_config_def)
qed

text \<open>
  Every configuration that the proxy accepts is well formed: it listens on a loopback
  address with consistent ports; it has between one and 64 adapters with distinct names,
  distinct canonical IPv4 sources, distinct IPv6 sources and positive weights; its channels
  have distinct names and ports, refer to known adapters only and include the three baseline
  channels; its timeouts are positive and bounded; and every quarantine seed names a known
  adapter and has not expired.
\<close>

theorem normalizeConfig_wf:
  assumes "normalizeConfig now c = Inr c'"
  shows "wf_config now c'"
  using assms by (rule normalizeConfig_accepts)

definition example_config :: proxy_config where
  "example_config = \<lparr>cf_ListenHost = [], cf_SOCKSPort = 0, cf_HTTPPort = 0, cf_Weighted = True,
     cf_Adapters =
       [\<lparr>ad_Name = '' eth '', ad_SourceIP = ''10.0.0.2'', ad_IfIndex = 4, ad_SourceIPv6 = [],
         ad_IPv6IfIndex = 0, ad_Weight = 0, ad_DNSServers = [''1.1.1.1'', ''1.1.1.1'']\<rparr>,
        \<lparr>ad_Name = ''wlan'', ad_SourceIP = ''10.0.1.2'', ad_IfIndex = 5, ad_SourceIPv6 = [],
         ad_IPv6IfIndex = 0, ad_Weight = 2, ad_DNSServers = []\<rparr>],
     cf_Channels =
       [\<lparr>chn_Name = ChannelEthernet, chn_Port = 0, chn_AdapterNames = [''eth'']\<rparr>,
        \<lparr>chn_Name = ChannelWiFi, chn_Port = 0, chn_AdapterNames = [''wlan'']\<rparr>,
        \<lparr>chn_Name = ChannelAggregation, chn_Port = 7000, chn_AdapterNames = [''eth'', ''wlan '']\<rparr>,
        \<lparr>chn_Name = ChannelDirect, chn_Port = 0, chn_AdapterNames = []\<rparr>],
     cf_ConnectTimeout = 0, cf_DNS = DefaultConfig, cf_DomainIsolation = None,
     cf_DomainIsolationExpiry = Some False,
     cf_DomainQuarantines = [\<lparr>qs_Adapter = ''eth'', qs_Domain = ''A.org.'', qs_ExpiresAt = 0\<rparr>]\<rparr>"

theorem normalizeConfig_wf_witness:
  "\<exists>c'. normalizeConfig 5 example_config = Inr c' \<and> wf_config 5 c'"
proof -
  have "\<not> isl (normalizeConfig 5 example_config)" by code_simp
  then obtain c' where "normalizeConfig 5 example_config = Inr c'"
    by (cases "normalizeConfig 5 example_config") auto
  then show ?thesis using normalizeConfig_wf by blast
qed

text \<open>Each channel that is not the direct one has adapters to schedule, all from the configuration.\<close>

lemma adaptersForChannel_nonempty:
  assumes "wf_config now c" "ch \<in> set (cf_Channels c)" "chn_Name ch \<noteq> ChannelDirect"
  shows "adaptersForChannel (cf_Adapters c) ch \<noteq> []"
    and "set (adaptersForChannel (cf_Adapters c) ch) \<subseteq> set (cf_Adapters c)"
proof -
  have "wf_channel (ad_Name ` set (cf_Adapters c)) ch"
    using assms(1,2) by (auto simp: wf_config_def wf_channels_def list_all_iff)
  then obtain n where "n \<in> set (chn_AdapterNames ch)" "n \<in> ad_Name ` set (cf_Adapters c)"
    using assms(3) by (cases "chn_AdapterNames ch") (auto simp: wf_channel_def)
  then show "adaptersForChannel (cf_Adapters c) ch \<noteq> []"
    by (auto simp: adaptersForChannel_def filter_empty_conv)
  show "set (adaptersForChannel (cf_Adapters c) ch) \<subseteq> set (cf_Adapters c)"
    by (auto simp: adaptersForChannel_def)
qed

end
