(* ===== verification/Health.thy ===== *)
theory Health
  imports Proxy_Config "HOL-Library.AList" "HOL-Library.List_Lexorder" "HOL-Library.Char_ord"
    "HOL-Library.Product_Lexorder"
begin

text \<open>
  \<open>engine/internal/proxy/health.go\<close>: the table of adapter health and of per-adapter domain
  quarantines that all schedulers of a proxy share. Go maps are association lists without
  duplicate keys (\<open>wf_table\<close>), updated with \<^const>\<open>AList.update\<close> and \<^const>\<open>AList.delete\<close>. The clock
  \<open>h.now\<close> is an argument of every operation. \<open>candidates\<close> prunes expired entries while it
  runs, so it returns the table as well.
\<close>

section \<open>Model\<close>

definition domainFailureThreshold :: int where "domainFailureThreshold = 2"
definition domainEvidenceTTL :: duration where "domainEvidenceTTL = 10 * Minute"
definition domainQuarantineTTL :: duration where "domainQuarantineTTL = 30 * Minute"

definition adapterFailureBackoff :: "duration list" where
  "adapterFailureBackoff = [2 * Second, 5 * Second, 15 * Second, 30 * Second]"

record domain_health =
  dh_evidence :: int
  dh_expiresAt :: go_time

record adapter_health =
  ah_consecutiveFailures :: int
  ah_successes :: uint64
  ah_failures :: uint64
  ah_lastSuccessAt :: go_time
  ah_lastFailureAt :: go_time
  ah_cooldownUntil :: go_time
  ah_domains :: "(string \<times> domain_health) list"

record health_table =
  ht_adapters :: "(string \<times> adapter_health) list"
  ht_domainIsolation :: bool
  ht_domainIsolationExpiry :: bool

datatype health_state = Healthy | Cooldown | Probing

record adapter_health_snapshot =
  hs_State :: health_state
  hs_ConsecutiveFailures :: int
  hs_Successes :: uint64
  hs_Failures :: uint64
  hs_LastSuccessAt :: go_time
  hs_LastFailureAt :: go_time
  hs_CooldownUntil :: go_time
  hs_DomainQuarantines :: nat

record domain_quarantine_snapshot =
  dq_Adapter :: string
  dq_Domain :: string
  dq_Evidence :: int
  dq_ExpiresAt :: go_time

definition fresh_health :: adapter_health where
  "fresh_health = \<lparr>ah_consecutiveFailures = 0, ah_successes = 0, ah_failures = 0, ah_lastSuccessAt = 0,
     ah_lastFailureAt = 0, ah_cooldownUntil = 0, ah_domains = []\<rparr>"

text \<open>The write \<open>h.adapters[name] = state\<close> and the read \<open>h.adapters[name]\<close> (nil when absent).\<close>

definition put_health :: "string \<Rightarrow> adapter_health \<Rightarrow> health_table \<Rightarrow> health_table" where
  "put_health name st h = h\<lparr>ht_adapters := AList.update name st (ht_adapters h)\<rparr>"

definition health_of :: "health_table \<Rightarrow> string \<Rightarrow> adapter_health option" where
  "health_of h name = map_of (ht_adapters h) name"

definition seed_health :: "quarantine_seed \<Rightarrow> health_table \<Rightarrow> health_table" where
  "seed_health seed h =
     (case health_of h (qs_Adapter seed) of
        None \<Rightarrow> h
      | Some st \<Rightarrow> put_health (qs_Adapter seed)
          (st\<lparr>ah_domains := AList.update (normalizeDomain (qs_Domain seed))
                 \<lparr>dh_evidence = domainFailureThreshold, dh_expiresAt = qs_ExpiresAt seed\<rparr>
                 (ah_domains st)\<rparr>) h)"

definition newHealthTableConfigured ::
    "adapter list \<Rightarrow> bool \<Rightarrow> bool \<Rightarrow> quarantine_seed list \<Rightarrow> health_table" where
  "newHealthTableConfigured adapters isolation expiry seeds =
     fold seed_health seeds
       (fold (\<lambda>a. put_health (ad_Name a) fresh_health) adapters
          \<lparr>ht_adapters = [], ht_domainIsolation = isolation, ht_domainIsolationExpiry = expiry\<rparr>)"

definition newHealthTable :: "adapter list \<Rightarrow> health_table" where
  "newHealthTable adapters = newHealthTableConfigured adapters True True []"

definition expired :: "go_time \<Rightarrow> domain_health \<Rightarrow> bool" where
  "expired now e \<longleftrightarrow> \<not> is_zero (dh_expiresAt e) \<and> \<not> time_after (dh_expiresAt e) now"

definition pruneExpiredDomains :: "adapter_health \<Rightarrow> go_time \<Rightarrow> adapter_health" where
  "pruneExpiredDomains st now = st\<lparr>ah_domains := filter (\<lambda>(d, e). \<not> expired now e) (ah_domains st)\<rparr>"

definition domainQuarantined :: "adapter_health \<Rightarrow> string \<Rightarrow> go_time \<Rightarrow> bool" where
  "domainQuarantined st domain now =
     (if domain = [] then False
      else case map_of (ah_domains st) domain of
             None \<Rightarrow> False
           | Some e \<Rightarrow> dh_evidence e \<ge> domainFailureThreshold \<and> time_after (dh_expiresAt e) now)"

definition cooldown_of :: "health_table \<Rightarrow> adapter \<Rightarrow> go_time" where
  "cooldown_of h a = (case health_of h (ad_Name a) of None \<Rightarrow> 0 | Some st \<Rightarrow> ah_cooldownUntil st)"

fun earliest_loop :: "(adapter \<Rightarrow> go_time) \<Rightarrow> adapter \<Rightarrow> adapter list \<Rightarrow> adapter" where
  "earliest_loop c selected [] = selected"
| "earliest_loop c selected (a # as) =
     earliest_loop c (if time_before (c a) (c selected) then a else selected) as"

text \<open>The callers pass adapters that have a state, so the nil case of \<^const>\<open>cooldown_of\<close> is not reached.\<close>

fun earliestCooldown :: "adapter list \<Rightarrow> health_table \<Rightarrow> adapter list" where
  "earliestCooldown (a # b # as) h = [earliest_loop (cooldown_of h) a (b # as)]"
| "earliestCooldown as h = as"

record buckets =
  bk_healthy :: "adapter list"
  bk_domainFallback :: "adapter list"
  bk_recovery :: "adapter list"
  bk_all :: "adapter list"

definition add_if :: "bool \<Rightarrow> 'a \<Rightarrow> 'a list \<Rightarrow> 'a list" where
  "add_if b x xs = (if b then xs @ [x] else xs)"

fun candidates_loop ::
    "go_time \<Rightarrow> string set \<Rightarrow> string \<Rightarrow> adapter list \<Rightarrow> health_table \<Rightarrow> buckets \<Rightarrow> buckets \<times> health_table" where
  "candidates_loop now excluded domain [] h b = (b, h)"
| "candidates_loop now excluded domain (a # as) h b =
     (if ad_Name a \<in> excluded then candidates_loop now excluded domain as h b
      else case health_of h (ad_Name a) of
             None \<Rightarrow> candidates_loop now excluded domain as h b
           | Some st0 \<Rightarrow>
               let st = pruneExpiredDomains st0 now;
                   h = put_health (ad_Name a) st h;
                   cooling = time_after (ah_cooldownUntil st) now;
                   quarantined = domainQuarantined st domain now
               in candidates_loop now excluded domain as h
                    \<lparr>bk_healthy = add_if (\<not> cooling \<and> \<not> quarantined) a (bk_healthy b),
                     bk_domainFallback = add_if (\<not> cooling) a (bk_domainFallback b),
                     bk_recovery = add_if (\<not> quarantined) a (bk_recovery b),
                     bk_all = bk_all b @ [a]\<rparr>)"

definition candidates ::
    "go_time \<Rightarrow> health_table \<Rightarrow> adapter list \<Rightarrow> string set \<Rightarrow> string \<Rightarrow> adapter list \<times> health_table" where
  "candidates now h adapters excluded domain =
     (let domain = normalizeDomain domain;
          domain = (if \<not> ht_domainIsolation h then [] else domain);
          (b, h') = candidates_loop now excluded domain adapters h
            \<lparr>bk_healthy = [], bk_domainFallback = [], bk_recovery = [], bk_all = []\<rparr>
      in (if bk_healthy b \<noteq> [] then bk_healthy b
          else if bk_domainFallback b \<noteq> [] then bk_domainFallback b
          else if bk_recovery b \<noteq> [] then earliestCooldown (bk_recovery b) h'
          else earliestCooldown (bk_all b) h', h'))"

definition recordLocalFailure :: "go_time \<Rightarrow> string \<Rightarrow> health_table \<Rightarrow> health_table" where
  "recordLocalFailure now name h =
     (case health_of h name of
        None \<Rightarrow> h
      | Some st \<Rightarrow>
          let n = ah_consecutiveFailures st + 1;
              index = n - 1;
              index = (if index \<ge> int (length adapterFailureBackoff)
                       then int (length adapterFailureBackoff) - 1 else index)
          in put_health name
               (st\<lparr>ah_failures := ah_failures st + 1, ah_consecutiveFailures := n, ah_lastFailureAt := now,
                   ah_cooldownUntil := now + adapterFailureBackoff ! nat index\<rparr>) h)"

definition recordSuccess :: "go_time \<Rightarrow> string \<Rightarrow> string \<Rightarrow> health_table \<Rightarrow> health_table" where
  "recordSuccess now name domain h =
     (case health_of h name of
        None \<Rightarrow> h
      | Some st \<Rightarrow> put_health name
          (st\<lparr>ah_successes := ah_successes st + 1, ah_consecutiveFailures := 0, ah_cooldownUntil := 0,
              ah_lastSuccessAt := now,
              ah_domains := AList.delete (normalizeDomain domain) (ah_domains st)\<rparr>) h)"

definition recordComparativeDomainFailure ::
    "go_time \<Rightarrow> string \<Rightarrow> string \<Rightarrow> health_table \<Rightarrow> health_table" where
  "recordComparativeDomainFailure now name domain0 h =
     (let domain = normalizeDomain domain0
      in if \<not> ht_domainIsolation h \<or> domain = [] then h
         else case health_of h name of
                None \<Rightarrow> h
              | Some st \<Rightarrow>
                  let entry = (case map_of (ah_domains st) domain of
                                 None \<Rightarrow> \<lparr>dh_evidence = 0, dh_expiresAt = 0\<rparr>
                               | Some e \<Rightarrow> if expired now e then \<lparr>dh_evidence = 0, dh_expiresAt = 0\<rparr> else e);
                      n = dh_evidence entry + 1;
                      expiry = (if n \<ge> domainFailureThreshold
                                then (if ht_domainIsolationExpiry h then now + domainQuarantineTTL
                                      else add_years 100 now)
                                else now + domainEvidenceTTL)
                  in put_health name
                       (st\<lparr>ah_domains := AList.update domain
                              \<lparr>dh_evidence = n, dh_expiresAt = expiry\<rparr> (ah_domains st)\<rparr>) h)"

definition health_state_of :: "go_time \<Rightarrow> adapter_health \<Rightarrow> health_state" where
  "health_state_of now st =
     (if time_after (ah_cooldownUntil st) now then Cooldown
      else if ah_consecutiveFailures st > 0 then Probing else Healthy)"

definition adapter_quarantines ::
    "go_time \<Rightarrow> bool \<Rightarrow> string \<Rightarrow> adapter_health \<Rightarrow> domain_quarantine_snapshot list" where
  "adapter_quarantines now isolation name st =
     (if \<not> isolation then []
      else map (\<lambda>(d, e). \<lparr>dq_Adapter = name, dq_Domain = d, dq_Evidence = dh_evidence e,
                          dq_ExpiresAt = dh_expiresAt e\<rparr>)
             (filter (\<lambda>(d, e). \<not> (dh_evidence e < domainFailureThreshold
                                  \<or> \<not> time_after (dh_expiresAt e) now)) (ah_domains st)))"

definition adapter_snapshot :: "go_time \<Rightarrow> bool \<Rightarrow> string \<Rightarrow> adapter_health \<Rightarrow> adapter_health_snapshot" where
  "adapter_snapshot now isolation name st =
     \<lparr>hs_State = health_state_of now st, hs_ConsecutiveFailures = ah_consecutiveFailures st,
      hs_Successes = ah_successes st, hs_Failures = ah_failures st,
      hs_LastSuccessAt = ah_lastSuccessAt st, hs_LastFailureAt = ah_lastFailureAt st,
      hs_CooldownUntil = ah_cooldownUntil st,
      hs_DomainQuarantines = length (adapter_quarantines now isolation name st)\<rparr>"

text \<open>
  \<open>sort.Slice\<close> with the order by adapter and then domain. It is not a stable sort, which makes
  no difference: no two entries have the same adapter and domain.
\<close>

definition health_snapshot ::
    "go_time \<Rightarrow> health_table \<Rightarrow>
       ((string \<times> adapter_health_snapshot) list \<times> domain_quarantine_snapshot list) \<times> health_table" where
  "health_snapshot now h =
     (let pruned = map (\<lambda>(name, st). (name, pruneExpiredDomains st now)) (ht_adapters h);
          isolated = ht_domainIsolation h
      in ((map (\<lambda>(name, st). (name, adapter_snapshot now isolated name st)) pruned,
           sort_key (\<lambda>q. (dq_Adapter q, dq_Domain q))
             (concat (map (\<lambda>(name, st). adapter_quarantines now isolated name st) pruned))),
          h\<lparr>ht_adapters := pruned\<rparr>))"

text \<open>
  \<open>errors.As(err, &errno)\<close> finds the first \<open>syscall.Errno\<close> of the error chain, if any: the
  argument is its number.
\<close>

definition isLocalConnectFailure :: "int option \<Rightarrow> bool" where
  "isLocalConnectFailure err =
     (case err of
        None \<Rightarrow> False
      | Some errno \<Rightarrow>
          errno \<in> set [10022, 10049, 10050, 10051, 10065, 1214, 1231, 1232]
          \<or> errno \<in> set [49, 51, 64, 65, 99, 100, 101, 113])"

section \<open>The view of the table at a time\<close>

text \<open>
  Pruning is invisible: \<open>live now h\<close> is the table without the entries that have expired, and
  every question the table answers at \<open>now\<close> depends on this view only.
\<close>

definition live :: "go_time \<Rightarrow> health_table \<Rightarrow> health_table" where
  "live now h = h\<lparr>ht_adapters := map (\<lambda>(n, st). (n, pruneExpiredDomains st now)) (ht_adapters h)\<rparr>"

definition known :: "health_table \<Rightarrow> adapter \<Rightarrow> bool" where
  "known h a \<longleftrightarrow> health_of h (ad_Name a) \<noteq> None"

definition cooling :: "go_time \<Rightarrow> health_table \<Rightarrow> adapter \<Rightarrow> bool" where
  "cooling now h a \<longleftrightarrow> time_after (cooldown_of h a) now"

definition quarantined :: "go_time \<Rightarrow> health_table \<Rightarrow> string \<Rightarrow> string \<Rightarrow> bool" where
  "quarantined now h name domain =
     (case health_of h name of None \<Rightarrow> False | Some st \<Rightarrow> domainQuarantined st domain now)"

lemma health_of_put [simp]:
  "health_of (put_health n st h) m = (if m = n then Some st else health_of h m)"
  by (simp add: health_of_def put_health_def update_conv')

lemma put_health_iso [simp]:
  "ht_domainIsolation (put_health n st h) = ht_domainIsolation h"
  "ht_domainIsolationExpiry (put_health n st h) = ht_domainIsolationExpiry h"
  by (simp_all add: put_health_def)

lemma prune_idem [simp]: "pruneExpiredDomains (pruneExpiredDomains st now) now = pruneExpiredDomains st now"
  by (simp add: pruneExpiredDomains_def)

lemma prune_cooldown [simp]: "ah_cooldownUntil (pruneExpiredDomains st now) = ah_cooldownUntil st"
  by (simp add: pruneExpiredDomains_def)

lemma map_of_prune:
  assumes "distinct (map fst (ah_domains st))"
  shows "map_of (ah_domains (pruneExpiredDomains st now)) d
    = (case map_of (ah_domains st) d of None \<Rightarrow> None | Some e \<Rightarrow> if expired now e then None else Some e)"
proof -
  have "map_of (filter (\<lambda>(d, e). \<not> expired now e) al) d
      = (case map_of al d of None \<Rightarrow> None | Some e \<Rightarrow> if expired now e then None else Some e)"
    if "distinct (map fst al)" for al :: "(string \<times> domain_health) list"
    using that by (induction al) (force split: option.splits if_splits dest: map_of_SomeD)+
  then show ?thesis using assms by (simp add: pruneExpiredDomains_def)
qed

text \<open>The invariant: keys are unique, counters are not negative.\<close>

definition wf_health :: "adapter_health \<Rightarrow> bool" where
  "wf_health st \<longleftrightarrow> distinct (map fst (ah_domains st)) \<and> 0 \<le> ah_consecutiveFailures st
     \<and> (\<forall>d e. map_of (ah_domains st) d = Some e \<longrightarrow> 0 \<le> dh_evidence e)"

definition wf_table :: "health_table \<Rightarrow> bool" where
  "wf_table h \<longleftrightarrow> distinct (map fst (ht_adapters h)) \<and> (\<forall>n st. health_of h n = Some st \<longrightarrow> wf_health st)"

lemma wf_tableD: "wf_table h \<Longrightarrow> health_of h n = Some st \<Longrightarrow> wf_health st"
  by (simp add: wf_table_def)

lemma wf_put_health: "wf_table h \<Longrightarrow> wf_health st \<Longrightarrow> wf_table (put_health n st h)"
  by (auto simp: wf_table_def) (simp add: put_health_def distinct_update)

lemma wf_fresh_health [simp]: "wf_health fresh_health"
  by (simp add: wf_health_def fresh_health_def)

lemma wf_prune: "wf_health st \<Longrightarrow> wf_health (pruneExpiredDomains st now)"
  by (auto simp: wf_health_def map_of_prune split: option.splits if_splits)
     (simp_all add: pruneExpiredDomains_def distinct_map_filter)

lemma wf_health_update:
  "wf_health st \<Longrightarrow> 0 \<le> dh_evidence e \<Longrightarrow>
     wf_health (st\<lparr>ah_domains := AList.update d e (ah_domains st)\<rparr>)"
  by (auto simp: wf_health_def update_conv' distinct_update split: if_splits)

text \<open>Every operation is of this shape, so the invariant needs an argument about one state only.\<close>

lemma wf_case_health:
  assumes "wf_table h" "\<And>st. wf_health st \<Longrightarrow> wf_health (f st)"
  shows "wf_table (case health_of h n of None \<Rightarrow> h | Some st \<Rightarrow> put_health n (f st) h)"
  using assms by (auto split: option.splits intro!: wf_put_health dest: wf_tableD)

lemma wf_seed_health: "wf_table h \<Longrightarrow> wf_table (seed_health seed h)"
  unfolding seed_health_def
  by (rule wf_case_health) (auto simp: domainFailureThreshold_def intro: wf_health_update)

lemma wf_newHealthTable: "wf_table (newHealthTableConfigured as isolated ex seeds)"
proof -
  have s1: "wf_table (fold seed_health seeds h)" if "wf_table h" for h
    using that by (induction seeds arbitrary: h) (auto intro: wf_seed_health)
  have s2: "wf_table (fold (\<lambda>a. put_health (ad_Name a) fresh_health) as h)" if "wf_table h" for h
    using that by (induction as arbitrary: h) (simp_all add: wf_put_health)
  show ?thesis
    unfolding newHealthTableConfigured_def by (intro s1 s2) (simp add: wf_table_def health_of_def)
qed

lemma wf_recordLocalFailure: "wf_table h \<Longrightarrow> wf_table (recordLocalFailure now n h)"
  unfolding recordLocalFailure_def Let_def by (rule wf_case_health) (auto simp: wf_health_def)

lemma wf_recordSuccess: "wf_table h \<Longrightarrow> wf_table (recordSuccess now n d h)"
  unfolding recordSuccess_def
  by (rule wf_case_health)
     (auto simp: wf_health_def distinct_delete delete_conv' simp del: map_of_eq_Some_iff split: if_splits)

definition entry_at :: "go_time \<Rightarrow> string \<Rightarrow> adapter_health \<Rightarrow> domain_health" where
  "entry_at now domain st =
     (case map_of (ah_domains st) domain of
        None \<Rightarrow> \<lparr>dh_evidence = 0, dh_expiresAt = 0\<rparr>
      | Some e \<Rightarrow> if expired now e then \<lparr>dh_evidence = 0, dh_expiresAt = 0\<rparr> else e)"

lemma entry_at_nonneg: "wf_health st \<Longrightarrow> 0 \<le> dh_evidence (entry_at now d st)"
  by (auto simp: entry_at_def wf_health_def simp del: map_of_eq_Some_iff split: option.splits)

lemma wf_recordComparative:
  assumes "wf_table h"
  shows "wf_table (recordComparativeDomainFailure now n d h)"
proof (cases "\<not> ht_domainIsolation h \<or> normalizeDomain d = []")
  case False
  then show ?thesis
    unfolding recordComparativeDomainFailure_def Let_def if_not_P [OF False]
    using assms entry_at_nonneg
    by (intro wf_case_health wf_health_update) (auto simp: entry_at_def)
qed (use assms in \<open>simp add: recordComparativeDomainFailure_def\<close>)

section \<open>Candidate selection\<close>

lemma health_of_live: "health_of (live now h) n = map_option (\<lambda>st. pruneExpiredDomains st now) (health_of h n)"
  by (simp add: live_def health_of_def map_of_map)

lemma live_put_prune:
  assumes "health_of h n = Some st"
  shows "live now (put_health n (pruneExpiredDomains st now) h) = live now h"
proof -
  have "map (\<lambda>(n, st). (n, pruneExpiredDomains st now)) (AList.update n (pruneExpiredDomains st now) al)
      = map (\<lambda>(n, st). (n, pruneExpiredDomains st now)) al" if "map_of al n = Some st" for al
    using that by (induction al) (auto split: if_splits)
  then show ?thesis using assms by (simp add: live_def put_health_def health_of_def)
qed

lemma domainQuarantined_prune:
  "wf_health st \<Longrightarrow> domainQuarantined (pruneExpiredDomains st now) d now = domainQuarantined st d now"
  by (auto simp: domainQuarantined_def map_of_prune wf_health_def expired_def split: option.splits)

lemma known_live: "known (live now h) a = known h a"
  by (simp add: known_def health_of_live)

lemma cooldown_of_live: "cooldown_of (live now h) a = cooldown_of h a"
  by (simp add: cooldown_of_def health_of_live option.case_eq_if option.map_sel)

lemma quarantined_live:
  "wf_table h \<Longrightarrow> quarantined now (live now h) n d = quarantined now h n d"
  by (auto simp: quarantined_def health_of_live domainQuarantined_prune split: option.splits dest: wf_tableD)

lemma live_cong:
  assumes "live now h' = live now h" "wf_table h" "wf_table h'"
  shows "known h' a = known h a" "cooldown_of h' a = cooldown_of h a"
    "quarantined now h' n d = quarantined now h n d"
  using assms known_live cooldown_of_live quarantined_live by metis+

text \<open>
  The contract: among the adapters that are known and not excluded, in their order, take
  those that neither cool down nor are quarantined for the domain; if there is none, those
  that do not cool down; if there is none, the first one with the earliest end of cooldown
  among those not quarantined; and else the first such one among all.
\<close>

definition eligible :: "health_table \<Rightarrow> string set \<Rightarrow> adapter list \<Rightarrow> adapter list" where
  "eligible h excluded as = filter (\<lambda>a. ad_Name a \<notin> excluded \<and> known h a) as"

definition earliest :: "(adapter \<Rightarrow> go_time) \<Rightarrow> adapter list \<Rightarrow> adapter list" where
  "earliest c as = (case find (\<lambda>a. list_all (\<lambda>b. c a \<le> c b) as) as of None \<Rightarrow> [] | Some a \<Rightarrow> [a])"

fun first_nonempty :: "'a list list \<Rightarrow> 'a list" where
  "first_nonempty [] = []"
| "first_nonempty (xs # xss) = (if xs \<noteq> [] then xs else first_nonempty xss)"

definition effective_domain :: "health_table \<Rightarrow> string \<Rightarrow> string" where
  "effective_domain h domain = (if ht_domainIsolation h then normalizeDomain domain else [])"

definition candidates_spec ::
    "go_time \<Rightarrow> health_table \<Rightarrow> adapter list \<Rightarrow> string set \<Rightarrow> string \<Rightarrow> adapter list" where
  "candidates_spec now h as excluded domain =
     (let el = eligible h excluded as;
          clean = (\<lambda>a. \<not> quarantined now h (ad_Name a) (effective_domain h domain))
      in first_nonempty
           [filter (\<lambda>a. \<not> cooling now h a \<and> clean a) el,
            filter (\<lambda>a. \<not> cooling now h a) el,
            earliest (cooldown_of h) (filter clean el),
            earliest (cooldown_of h) el])"

lemma earliest_loop_find:
  "find (\<lambda>a. list_all (\<lambda>b. c a \<le> c b) (x # xs)) (x # xs) = Some (earliest_loop c x xs)"
proof (induction xs arbitrary: x)
  case (Cons y ys)
  show ?case
  proof (cases "c y < c x")
    case True
    have "list_all (\<lambda>b. c a \<le> c b) (x # y # ys) \<longleftrightarrow> list_all (\<lambda>b. c a \<le> c b) (y # ys)" for a
      using True by auto
    then show ?thesis using Cons.IH [of y] True by (simp add: go_defs)
  next
    case False
    define P where "P = (\<lambda>a. list_all (\<lambda>b. c a \<le> c b) (x # ys))"
    have P: "(\<lambda>a. list_all (\<lambda>b. c a \<le> c b) (x # y # ys)) = P"
      using False by (auto simp: P_def fun_eq_iff)
    have "P y \<Longrightarrow> P x" using False by (auto simp: P_def list_all_iff)
    then have "find P (x # y # ys) = find P (x # ys)" by auto
    also have "\<dots> = Some (earliest_loop c x ys)" unfolding P_def by (rule Cons.IH)
    finally show ?thesis unfolding P using False by (simp add: go_defs)
  qed
qed simp

lemma earliest_eqs: "earliest c [] = []" "earliest c (x # xs) = [earliest_loop c x xs]"
  by (simp add: earliest_def) (simp only: earliest_def earliest_loop_find option.case)

lemma earliestCooldown_earliest: "earliestCooldown as h = earliest (cooldown_of h) as"
  by (cases "(as, h)" rule: earliestCooldown.cases) (simp_all add: earliest_eqs)

lemma earliest_empty_iff [simp]: "earliest c as = [] \<longleftrightarrow> as = []"
  by (cases as) (simp_all add: earliest_eqs)

lemma earliest_subset: "set (earliest c as) \<subseteq> set as"
  by (auto simp: earliest_def find_Some_iff2 split: option.splits)

lemma candidates_loop_spec:
  assumes "candidates_loop now ex d as h b = (b', h')" "wf_table h"
  shows "live now h' = live now h \<and> wf_table h' \<and> ht_domainIsolation h' = ht_domainIsolation h \<and>
    bk_all b' = bk_all b @ eligible h ex as \<and>
    bk_domainFallback b' = bk_domainFallback b @ filter (\<lambda>a. \<not> cooling now h a) (eligible h ex as) \<and>
    bk_recovery b' = bk_recovery b @ filter (\<lambda>a. \<not> quarantined now h (ad_Name a) d) (eligible h ex as) \<and>
    bk_healthy b' = bk_healthy b
      @ filter (\<lambda>a. \<not> cooling now h a \<and> \<not> quarantined now h (ad_Name a) d) (eligible h ex as)"
  using assms
proof (induction as arbitrary: h b)
  case Nil
  then show ?case by (simp add: eligible_def)
next
  case (Cons a as)
  show ?case
  proof (cases "ad_Name a \<in> ex \<or> health_of h (ad_Name a) = None")
    case True
    then have "candidates_loop now ex d as h b = (b', h')"
      using Cons.prems by (cases "ad_Name a \<in> ex") simp_all
    moreover have "eligible h ex (a # as) = eligible h ex as" using True by (auto simp: eligible_def known_def)
    ultimately show ?thesis using Cons.IH Cons.prems(2) by simp
  next
    case False
    then obtain st where st: "health_of h (ad_Name a) = Some st" and nex: "ad_Name a \<notin> ex" by auto
    define h1 where "h1 = put_health (ad_Name a) (pruneExpiredDomains st now) h"
    have wst: "wf_health st" using Cons.prems(2) st by (rule wf_tableD)
    have wf1: "wf_table h1" using Cons.prems(2) wst by (simp add: h1_def wf_put_health wf_prune)
    have live1: "live now h1 = live now h" using st by (simp add: h1_def live_put_prune)
    note same = live_cong [OF live1 Cons.prems(2) wf1]
    have el: "eligible h1 ex as = eligible h ex as" "eligible h ex (a # as) = a # eligible h ex as"
      using same(1) nex st by (auto simp: eligible_def known_def)
    have ca: "time_after (ah_cooldownUntil st) now = cooling now h a"
      by (simp add: cooling_def cooldown_of_def st)
    have qa: "domainQuarantined (pruneExpiredDomains st now) d now = quarantined now h (ad_Name a) d"
      using wst by (simp add: quarantined_def st domainQuarantined_prune)
    from Cons.IH [OF _ wf1] Cons.prems(1) show ?thesis
      by (simp add: nex st Let_def h1_def [symmetric] live1 el cooling_def same ca qa add_if_def)
         (simp add: h1_def)
  qed
qed

text \<open>Afterwards each state is what it was or its pruned version.\<close>

lemma candidates_loop_states:
  "candidates_loop now ex d as h b = (b', h') \<Longrightarrow> health_of h' n = Some st' \<Longrightarrow>
     \<exists>st. health_of h n = Some st \<and> st' \<in> {st, pruneExpiredDomains st now}"
proof (induction now ex d as h b rule: candidates_loop.induct)
  case (2 now ex d a as h b)
  then show ?case
    by (cases "ad_Name a \<in> ex"; cases "health_of h (ad_Name a)"; cases "n = ad_Name a")
       (force simp: Let_def)+
qed simp

lemma candidates_states:
  assumes "candidates now h as ex d = (cs, h')" "health_of h' n = Some st'"
  shows "\<exists>st. health_of h n = Some st \<and> st' \<in> {st, pruneExpiredDomains st now}"
proof -
  obtain b where "candidates_loop now ex (if \<not> ht_domainIsolation h then [] else normalizeDomain d) as h
      \<lparr>bk_healthy = [], bk_domainFallback = [], bk_recovery = [], bk_all = []\<rparr> = (b, h')"
    using assms(1) unfolding candidates_def Let_def by (auto split: prod.splits)
  then show ?thesis using assms(2) by (rule candidates_loop_states)
qed

lemma candidates_characterised:
  assumes "wf_table h"
  shows "fst (candidates now h as ex d) = candidates_spec now h as ex d
    \<and> live now (snd (candidates now h as ex d)) = live now h
    \<and> wf_table (snd (candidates now h as ex d))"
proof -
  obtain b h' where l: "candidates_loop now ex (effective_domain h d) as h
      \<lparr>bk_healthy = [], bk_domainFallback = [], bk_recovery = [], bk_all = []\<rparr> = (b, h')"
    by fastforce
  note spec = candidates_loop_spec [OF l assms]
  have if_not_iso: "(if \<not> ht_domainIsolation h then [] else normalizeDomain d) = effective_domain h d"
    by (simp add: effective_domain_def)
  have "cooldown_of h' = cooldown_of h" using live_cong(2) [of now h' h] spec assms by auto
  moreover have "candidates now h as ex d =
     (if bk_healthy b \<noteq> [] then bk_healthy b
      else if bk_domainFallback b \<noteq> [] then bk_domainFallback b
      else if bk_recovery b \<noteq> [] then earliest (cooldown_of h') (bk_recovery b)
      else earliest (cooldown_of h') (bk_all b), h')"
    by (simp only: candidates_def Let_def not_not if_not_iso l case_prod_conv earliestCooldown_earliest)
  ultimately show ?thesis
    using spec by (auto simp: candidates_spec_def Let_def earliest_eqs)
qed

lemma first_nonempty_subset:
  "(\<And>xs. xs \<in> set xss \<Longrightarrow> set xs \<subseteq> A) \<Longrightarrow> set (first_nonempty xss) \<subseteq> A"
  by (induction xss) auto

lemma first_nonempty_empty: "first_nonempty xss = [] \<longleftrightarrow> (\<forall>xs \<in> set xss. xs = [])"
  by (induction xss) auto

lemma candidates_spec_subset: "set (candidates_spec now h as ex d) \<subseteq> set (eligible h ex as)"
  unfolding candidates_spec_def Let_def
  by (rule first_nonempty_subset) (auto dest!: subsetD [OF earliest_subset])

lemma first_nonempty_subseq:
  "(\<And>xs. xs \<in> set xss \<Longrightarrow> subseq xs ys) \<Longrightarrow> subseq (first_nonempty xss) ys"
  by (induction xss) auto

lemma earliest_subseq: "subseq (earliest c as) as"
  using earliest_subset [of c as] by (auto simp: earliest_def subseq_singleton_left split: option.splits)

lemma candidates_spec_sublist: "subseq (candidates_spec now h as ex d) as"
  unfolding candidates_spec_def Let_def eligible_def
  by (rule first_nonempty_subseq)
     (auto intro: subseq_filter_left subseq_order.trans [OF earliest_subseq])

lemma candidates_spec_empty: "candidates_spec now h as ex d = [] \<longleftrightarrow> eligible h ex as = []"
  by (auto simp: candidates_spec_def Let_def first_nonempty_empty)

text \<open>
  C4. Choosing candidates is the documented cascade, whatever expired entries are pruned on
  the way: the answer is \<^const>\<open>candidates_spec\<close>, which is computed from the table as it was,
  and afterwards the table is unchanged but for entries that have expired.
\<close>

theorem candidates_cascade:
  assumes "wf_table h" "candidates now h as ex d = (cs, h')"
  shows "cs = candidates_spec now h as ex d \<and> live now h' = live now h \<and> wf_table h'"
  using candidates_characterised [OF assms(1), of now as ex d] assms(2) by simp

definition example_adapter :: "string \<Rightarrow> string \<Rightarrow> int \<Rightarrow> adapter" where
  "example_adapter name ip weight = \<lparr>ad_Name = name, ad_SourceIP = ip, ad_IfIndex = 1, ad_SourceIPv6 = [],
     ad_IPv6IfIndex = 0, ad_Weight = weight, ad_DNSServers = []\<rparr>"

definition example_pair :: "adapter list" where
  "example_pair = [example_adapter ''eth'' ''10.0.0.2'' 3, example_adapter ''wifi'' ''10.0.1.2'' 1]"

lemma health_of_example:
  "health_of (newHealthTable example_pair) n = (if n = ''eth'' \<or> n = ''wifi'' then Some fresh_health else None)"
  by (simp add: newHealthTable_def newHealthTableConfigured_def example_pair_def example_adapter_def)
     (simp add: health_of_def)

theorem candidates_cascade_witness:
  "wf_table (recordLocalFailure 10 ''eth'' (newHealthTable example_pair))
   \<and> fst (candidates 11 (recordLocalFailure 10 ''eth'' (newHealthTable example_pair)) example_pair {} [])
     = [example_adapter ''wifi'' ''10.0.1.2'' 1]"
proof -
  let ?h = "recordLocalFailure 10 ''eth'' (newHealthTable example_pair)"
  have wf: "wf_table ?h" unfolding newHealthTable_def by (intro wf_recordLocalFailure wf_newHealthTable)
  have "fst (candidates 11 ?h example_pair {} []) = candidates_spec 11 ?h example_pair {} []"
    using candidates_cascade [OF wf, of 11 example_pair "{}" "[]"] by (metis prod.collapse)
  also have "\<dots> = [example_adapter ''wifi'' ''10.0.1.2'' 1]"
    by code_simp
  finally show ?thesis using wf by simp
qed

section \<open>Interface to the schedulers\<close>

text \<open>
  What a scheduler may rely on: candidates are known adapters that were offered and not
  excluded, there is one whenever some offered adapter qualifies, and asking does not
  change which adapters are known.
\<close>

locale health_service =
  fixes cands :: "go_time \<Rightarrow> 'h \<Rightarrow> adapter list \<Rightarrow> string set \<Rightarrow> string \<Rightarrow> adapter list \<times> 'h"
    and member :: "'h \<Rightarrow> adapter \<Rightarrow> bool"
    and ok :: "'h \<Rightarrow> bool"
  assumes sound: "ok h \<Longrightarrow> cands now h as ex d = (cs, h') \<Longrightarrow> a \<in> set cs \<Longrightarrow>
      a \<in> set as \<and> ad_Name a \<notin> ex \<and> member h a"
    and available: "ok h \<Longrightarrow> cands now h as ex d = (cs, h') \<Longrightarrow> a \<in> set as \<Longrightarrow> ad_Name a \<notin> ex \<Longrightarrow>
      member h a \<Longrightarrow> cs \<noteq> []"
    and stable: "ok h \<Longrightarrow> cands now h as ex d = (cs, h') \<Longrightarrow> ok h' \<and> (member h' a \<longleftrightarrow> member h a)"
begin

text \<open>Any rule that picks one of the candidates picks a qualifying adapter, and picks if there is one.\<close>

lemma pick_sound:
  assumes "ok h" "cands now h as ex d = (cs, h')" "cs \<noteq> []" "pick cs \<in> set cs"
  shows "pick cs \<in> set as \<and> ad_Name (pick cs) \<notin> ex \<and> member h' (pick cs)"
  using sound [OF assms(1,2,4)] stable [OF assms(1,2)] by blast

lemma none_iff:
  assumes "ok h" "cands now h as ex d = (cs, h')"
  shows "cs = [] \<longleftrightarrow> (\<forall>a \<in> set as. ad_Name a \<in> ex \<or> \<not> member h a)"
proof
  assume "cs = []"
  then show "\<forall>a \<in> set as. ad_Name a \<in> ex \<or> \<not> member h a" using available [OF assms] by blast
next
  assume none: "\<forall>a \<in> set as. ad_Name a \<in> ex \<or> \<not> member h a"
  show "cs = []"
  proof (rule ccontr)
    assume "cs \<noteq> []"
    then obtain a where "a \<in> set cs" by (cases cs) auto
    then show False using sound [OF assms] none by blast
  qed
qed

end

interpretation table: health_service candidates known wf_table
proof
  fix h now as ex d cs h' a
  assume wf: "wf_table h" and c: "candidates now h as ex d = (cs, h')"
  note ch = candidates_characterised [OF wf, of now as ex d, unfolded c, simplified]
  show "a \<in> set as \<and> ad_Name a \<notin> ex \<and> known h a" if "a \<in> set cs"
    using that ch candidates_spec_subset by (fastforce simp: eligible_def)
  show "cs \<noteq> []" if "a \<in> set as" "ad_Name a \<notin> ex" "known h a"
    using that ch candidates_spec_empty [of now h as ex d] by (auto simp: eligible_def filter_empty_conv)
  show "wf_table h' \<and> known h' a = known h a"
    using ch live_cong(1) wf by blast
qed

section \<open>Backoff, quarantine and snapshots\<close>

lemma recordLocalFailure_eq:
  assumes "health_of h n = Some st" "wf_health st"
  shows "recordLocalFailure now n h = put_health n
    (st\<lparr>ah_failures := ah_failures st + 1, ah_consecutiveFailures := ah_consecutiveFailures st + 1,
        ah_lastFailureAt := now,
        ah_cooldownUntil := now + adapterFailureBackoff ! nat (min (ah_consecutiveFailures st) 3)\<rparr>) h"
  using assms by (auto simp: recordLocalFailure_def Let_def adapterFailureBackoff_def min_def)

lemma local_failures_run:
  "health_of h n = Some st \<Longrightarrow> wf_health st \<Longrightarrow> ts \<noteq> [] \<Longrightarrow>
   health_of (fold (\<lambda>t. recordLocalFailure t n) ts h) m =
    (if m = n then Some (st\<lparr>ah_failures := ah_failures st + of_nat (length ts),
        ah_consecutiveFailures := ah_consecutiveFailures st + int (length ts), ah_lastFailureAt := last ts,
        ah_cooldownUntil := last ts
          + adapterFailureBackoff ! nat (min (ah_consecutiveFailures st + int (length ts) - 1) 3)\<rparr>)
     else health_of h m)"
proof (induction ts arbitrary: h st)
  case (Cons t ts)
  define st1 where "st1 = st\<lparr>ah_failures := ah_failures st + 1,
      ah_consecutiveFailures := ah_consecutiveFailures st + 1, ah_lastFailureAt := t,
      ah_cooldownUntil := t + adapterFailureBackoff ! nat (min (ah_consecutiveFailures st) 3)\<rparr>"
  have r: "recordLocalFailure t n h = put_health n st1 h"
    using Cons.prems(1,2) by (simp add: recordLocalFailure_eq st1_def)
  have w: "wf_health st1" using Cons.prems(2) by (auto simp: wf_health_def st1_def)
  show ?case
  proof (cases "ts = []")
    case False
    show ?thesis
      using Cons.IH [of "put_health n st1 h" st1, OF _ w False] r False
      by (simp add: st1_def add.assoc)
  qed (use r in \<open>simp add: st1_def\<close>)
qed simp

text \<open>
  Local connect failures back off exponentially up to a cap and a success clears them:
  after \<open>n > 0\<close> failures in a row an adapter cools down for the \<open>n\<close>-th backoff after the last
  one (2, 5, 15 and then always 30 seconds), its counters have advanced by \<open>n\<close>, no other
  adapter is touched, and one success ends the cooldown at once and restarts the sequence.
\<close>

theorem local_failure_backoff:
  assumes "wf_table h" "health_of h name = Some st" "ah_consecutiveFailures st = 0" "ts \<noteq> []"
  shows "\<exists>st'. health_of (fold (\<lambda>t. recordLocalFailure t name) ts h) name = Some st'
      \<and> ah_consecutiveFailures st' = int (length ts)
      \<and> ah_failures st' = ah_failures st + of_nat (length ts)
      \<and> ah_cooldownUntil st' = last ts + adapterFailureBackoff ! min (length ts - 1) 3
      \<and> ah_domains st' = ah_domains st
      \<and> (\<forall>m. m \<noteq> name \<longrightarrow> health_of (fold (\<lambda>t. recordLocalFailure t name) ts h) m = health_of h m)
      \<and> (\<exists>st''. health_of (recordSuccess t name d (fold (\<lambda>t. recordLocalFailure t name) ts h)) name = Some st''
             \<and> ah_consecutiveFailures st'' = 0 \<and> ah_cooldownUntil st'' = 0)"
proof -
  have k: "nat (min (int (length ts) - 1) 3) = min (length ts - 1) 3"
    using assms(4) by (cases ts) (auto simp: min_def)
  show ?thesis
    using local_failures_run [OF assms(2) wf_tableD [OF assms(1,2)] assms(4)] assms(3) k
    by (simp add: recordSuccess_def)
qed

theorem local_failure_backoff_witness:
  "\<exists>st'. health_of (fold (\<lambda>t. recordLocalFailure t ''eth'') [100, 200, 300] (newHealthTable example_pair)) ''eth''
       = Some st' \<and> ah_cooldownUntil st' = 300 + 15 * Second"
  using local_failure_backoff [of "newHealthTable example_pair" "''eth''" fresh_health "[100, 200, 300]" 0 "[]"]
    wf_newHealthTable [of example_pair True True "[]"] health_of_example [of "''eth''"]
  by (auto simp: newHealthTable_def fresh_health_def adapterFailureBackoff_def)

lemma recordComparative_eq:
  assumes "ht_domainIsolation h" "normalizeDomain d \<noteq> []" "health_of h n = Some st"
  shows "recordComparativeDomainFailure now n d h = put_health n
    (st\<lparr>ah_domains := AList.update (normalizeDomain d)
       \<lparr>dh_evidence = dh_evidence (entry_at now (normalizeDomain d) st) + 1,
        dh_expiresAt =
          (if dh_evidence (entry_at now (normalizeDomain d) st) + 1 \<ge> domainFailureThreshold
           then (if ht_domainIsolationExpiry h then now + domainQuarantineTTL else add_years 100 now)
           else now + domainEvidenceTTL)\<rparr> (ah_domains st)\<rparr>) h"
  using assms by (simp add: recordComparativeDomainFailure_def Let_def entry_at_def)

definition quarantine_end :: "health_table \<Rightarrow> go_time \<Rightarrow> go_time" where
  "quarantine_end h now = (if ht_domainIsolationExpiry h then now + domainQuarantineTTL else add_years 100 now)"

lemma comparative_pair:
  assumes iso: "ht_domainIsolation h" and dom: "normalizeDomain d \<noteq> []" and st: "health_of h n = Some st"
    and clean: "dh_evidence (entry_at t1 (normalizeDomain d) st) = 0" and t2: "t2 < t1 + domainEvidenceTTL"
  defines "h1 \<equiv> recordComparativeDomainFailure t1 n d h"
  shows "h1 = put_health n (st\<lparr>ah_domains := AList.update (normalizeDomain d)
            \<lparr>dh_evidence = 1, dh_expiresAt = t1 + domainEvidenceTTL\<rparr> (ah_domains st)\<rparr>) h"
    and "recordComparativeDomainFailure t2 n d h1 = put_health n (st\<lparr>ah_domains := AList.update (normalizeDomain d)
            \<lparr>dh_evidence = 2, dh_expiresAt = quarantine_end h t2\<rparr> (ah_domains st)\<rparr>) h1"
proof -
  show h1: "h1 = put_health n (st\<lparr>ah_domains := AList.update (normalizeDomain d)
            \<lparr>dh_evidence = 1, dh_expiresAt = t1 + domainEvidenceTTL\<rparr> (ah_domains st)\<rparr>) h"
    using recordComparative_eq [OF iso dom st, of t1] clean
    by (simp add: h1_def domainFailureThreshold_def)
  let ?al = "AList.update (normalizeDomain d) \<lparr>dh_evidence = 1, dh_expiresAt = t1 + domainEvidenceTTL\<rparr> (ah_domains st)"
  have "entry_at t2 (normalizeDomain d) (st\<lparr>ah_domains := ?al\<rparr>) = \<lparr>dh_evidence = 1, dh_expiresAt = t1 + domainEvidenceTTL\<rparr>"
    using t2 by (auto simp: entry_at_def expired_def go_defs update_conv')
  then show "recordComparativeDomainFailure t2 n d h1 = put_health n (st\<lparr>ah_domains := AList.update (normalizeDomain d)
            \<lparr>dh_evidence = 2, dh_expiresAt = quarantine_end h t2\<rparr> (ah_domains st)\<rparr>) h1"
    using recordComparative_eq [of h1 d n "st\<lparr>ah_domains := ?al\<rparr>" t2] iso dom
    by (simp add: h1 domainFailureThreshold_def quarantine_end_def)
qed

text \<open>
  C19. A domain is quarantined on an adapter by exactly two comparative failures: one failure
  quarantines nothing, a second one before the evidence expires quarantines the domain on
  that adapter until the configured end (30 minutes, or 100 years when quarantines do not
  expire) and leaves every other adapter and domain as it was; a success lifts it at once.
\<close>

theorem comparative_failures_quarantine:
  assumes "ht_domainIsolation h" "normalizeDomain d \<noteq> []" "health_of h n = Some st"
    "dh_evidence (entry_at t1 (normalizeDomain d) st) = 0" "t2 < t1 + domainEvidenceTTL"
  defines "h1 \<equiv> recordComparativeDomainFailure t1 n d h"
  defines "h2 \<equiv> recordComparativeDomainFailure t2 n d h1"
  shows "\<not> quarantined t h1 n (normalizeDomain d)
    \<and> (quarantined t h2 n (normalizeDomain d) \<longleftrightarrow> t < quarantine_end h t2)
    \<and> t2 < quarantine_end h t2
    \<and> ((n', d') \<noteq> (n, normalizeDomain d) \<longrightarrow> quarantined t h2 n' d' = quarantined t h n' d')
    \<and> \<not> quarantined t (recordSuccess t3 n d h2) n (normalizeDomain d)"
proof -
  have h1: "h1 = put_health n (st\<lparr>ah_domains := AList.update (normalizeDomain d)
            \<lparr>dh_evidence = 1, dh_expiresAt = t1 + domainEvidenceTTL\<rparr> (ah_domains st)\<rparr>) h"
    and h2: "h2 = put_health n (st\<lparr>ah_domains := AList.update (normalizeDomain d)
            \<lparr>dh_evidence = 2, dh_expiresAt = quarantine_end h t2\<rparr> (ah_domains st)\<rparr>) h1"
    unfolding h2_def h1_def using comparative_pair [OF assms(1-5)] by blast+
  note q = quarantined_def domainQuarantined_def domainFailureThreshold_def go_defs
  have "\<not> quarantined t h1 n (normalizeDomain d)" by (simp add: q h1 update_conv')
  moreover have "quarantined t h2 n (normalizeDomain d) \<longleftrightarrow> t < quarantine_end h t2"
    using assms(2) by (simp add: q h2 update_conv')
  moreover have "t2 < quarantine_end h t2"
    using add_years_100_after [of t2] by (simp add: quarantine_end_def domainQuarantineTTL_def time_defs)
  moreover have "quarantined t h2 n' d' = quarantined t h n' d'" if "(n', d') \<noteq> (n, normalizeDomain d)"
    using that assms(3) by (cases "n' = n") (simp_all add: q h2 h1 update_conv')
  moreover have "\<not> quarantined t (recordSuccess t3 n d h2) n (normalizeDomain d)"
    by (simp add: q h2 recordSuccess_def delete_conv')
  ultimately show ?thesis by blast
qed

theorem comparative_failures_quarantine_witness:
  "quarantined (5 * Minute)
     (recordComparativeDomainFailure (2 * Minute) ''eth'' ''Example.com.''
        (recordComparativeDomainFailure 0 ''eth'' ''example.com'' (newHealthTable example_pair)))
     ''eth'' ''example.com''"
proof -
  have n: "normalizeDomain ''Example.com.'' = ''example.com''" "normalizeDomain ''example.com'' = ''example.com''"
    by code_simp+
  have i: "ht_domainIsolation (newHealthTable example_pair)" "ht_domainIsolationExpiry (newHealthTable example_pair)"
    by code_simp+
  have h: "health_of (newHealthTable example_pair) ''eth'' = Some fresh_health"
    by (simp add: health_of_example)
  have r: "recordComparativeDomainFailure t ''eth'' ''Example.com.'' h
      = recordComparativeDomainFailure t ''eth'' ''example.com'' h" for t h
    by (simp add: recordComparativeDomainFailure_def n)
  have "quarantined (5 * Minute)
     (recordComparativeDomainFailure (2 * Minute) ''eth'' ''example.com''
        (recordComparativeDomainFailure 0 ''eth'' ''example.com'' (newHealthTable example_pair)))
     ''eth'' (normalizeDomain ''example.com'')
     \<longleftrightarrow> 5 * Minute < quarantine_end (newHealthTable example_pair) (2 * Minute)"
    using comparative_failures_quarantine [OF i(1) _ h, of "''example.com''" 0 "2 * Minute"]
    by (simp add: n entry_at_def fresh_health_def domainEvidenceTTL_def time_defs)
  then show ?thesis
    using i by (simp add: n r quarantine_end_def domainQuarantineTTL_def time_defs)
qed

definition quarantine_key :: "domain_quarantine_snapshot \<Rightarrow> string \<times> string" where
  "quarantine_key q = (dq_Adapter q, dq_Domain q)"

lemma domain_health_eta [simp]: "\<lparr>dh_evidence = dh_evidence e, dh_expiresAt = dh_expiresAt e\<rparr> = e"
  by simp

lemma adapter_quarantines_mem:
  "q \<in> set (adapter_quarantines now isolated n st) \<longleftrightarrow>
     isolated \<and> dq_Adapter q = n
     \<and> (dq_Domain q, \<lparr>dh_evidence = dq_Evidence q, dh_expiresAt = dq_ExpiresAt q\<rparr>) \<in> set (ah_domains st)
     \<and> domainFailureThreshold \<le> dq_Evidence q \<and> now < dq_ExpiresAt q"
proof -
  have "(\<exists>d e. (d, e) \<in> set al \<and> P e \<and> q = \<lparr>dq_Adapter = n, dq_Domain = d, dq_Evidence = dh_evidence e,
            dq_ExpiresAt = dh_expiresAt e\<rparr>) \<longleftrightarrow>
        dq_Adapter q = n \<and> (dq_Domain q, \<lparr>dh_evidence = dq_Evidence q, dh_expiresAt = dq_ExpiresAt q\<rparr>) \<in> set al
        \<and> P \<lparr>dh_evidence = dq_Evidence q, dh_expiresAt = dq_ExpiresAt q\<rparr>"
    for al :: "(string \<times> domain_health) list" and P by (cases q) force
  note eq = this [of "ah_domains st" "\<lambda>e. domainFailureThreshold \<le> dh_evidence e \<and> now < dh_expiresAt e"]
  have "q \<in> set (adapter_quarantines now isolated n st) \<longleftrightarrow> isolated \<and>
     (\<exists>d e. (d, e) \<in> set (ah_domains st) \<and> (domainFailureThreshold \<le> dh_evidence e \<and> now < dh_expiresAt e)
        \<and> q = \<lparr>dq_Adapter = n, dq_Domain = d, dq_Evidence = dh_evidence e, dq_ExpiresAt = dh_expiresAt e\<rparr>)"
    by (simp add: adapter_quarantines_def go_defs image_iff not_less not_le Bex_def)
  then show ?thesis unfolding eq by simp
qed

lemma quarantine_keys_distinct:
  assumes "distinct (map fst al)" "\<And>n st. (n, st) \<in> set al \<Longrightarrow> distinct (map fst (ah_domains st))"
  shows "distinct (map quarantine_key (concat (map (\<lambda>(n, st). adapter_quarantines now isolated n st) al)))"
  using assms
proof (induction al)
  case (Cons p al)
  obtain n st where p: "p = (n, st)" by fastforce
  have "distinct (map fst (ah_domains st))" using Cons.prems(2) [of n st] by (simp add: p)
  then have "distinct (map fst (filter P (ah_domains st)))" for P by (rule distinct_map_filter)
  then have "distinct (map (Pair n) (map fst (filter P (ah_domains st))))" for P
    by (simp add: distinct_map inj_on_def)
  then have d: "distinct (map quarantine_key (adapter_quarantines now isolated n st))"
    by (simp add: adapter_quarantines_def quarantine_key_def comp_def case_prod_unfold)
  define A R where "A = map quarantine_key (adapter_quarantines now isolated n st)"
    and "R = map quarantine_key (concat (map (\<lambda>(n, st). adapter_quarantines now isolated n st) al))"
  have "fst k = n" if "k \<in> set A" for k
    using that by (auto simp: A_def quarantine_key_def adapter_quarantines_mem)
  moreover have "fst k \<in> fst ` set al" if "k \<in> set R" for k
    using that by (force simp: R_def quarantine_key_def adapter_quarantines_mem)
  moreover have "n \<notin> fst ` set al" using Cons.prems(1) by (simp add: p)
  ultimately have "set A \<inter> set R = {}" by blast
  moreover have "distinct R" unfolding R_def using Cons.prems by (intro Cons.IH) auto
  ultimately have "distinct (A @ R)" using d by (simp add: A_def)
  then show ?case by (simp add: p A_def R_def)
qed simp

lemma map_of_map_pair: "map_of (map (\<lambda>(n, x). (n, f n x)) al) m = map_option (f m) (map_of al m)"
  by (induction al) auto

lemma snapshot_mem:
  assumes "wf_table h"
  shows "q \<in> set (concat (map (\<lambda>(n, st). adapter_quarantines now isolated n st) (ht_adapters (live now h)))) \<longleftrightarrow>
    isolated \<and> (\<exists>st. health_of h (dq_Adapter q) = Some st
        \<and> map_of (ah_domains st) (dq_Domain q) = Some \<lparr>dh_evidence = dq_Evidence q, dh_expiresAt = dq_ExpiresAt q\<rparr>)
    \<and> domainFailureThreshold \<le> dq_Evidence q \<and> now < dq_ExpiresAt q"
proof -
  have d: "distinct (map fst (ht_adapters h))"
    and dd: "(m, st) \<in> set (ht_adapters h) \<Longrightarrow> distinct (map fst (ah_domains st))" for m st
    using assms by (auto simp: wf_table_def health_of_def wf_health_def)
  have "(n, st) \<in> set (ht_adapters h) \<longleftrightarrow> health_of h n = Some st" for n st
    using d by (simp add: health_of_def)
  moreover have "(k, e) \<in> set (ah_domains st) \<longleftrightarrow> map_of (ah_domains st) k = Some e"
    if "health_of h n = Some st" for n st k e
    using wf_tableD [OF assms that] by (simp add: wf_health_def)
  moreover have "q \<in> set (concat (map (\<lambda>(n, st). adapter_quarantines now isolated n st) (ht_adapters (live now h)))) \<longleftrightarrow>
      (\<exists>n st. (n, st) \<in> set (ht_adapters h)
         \<and> q \<in> set (adapter_quarantines now isolated n (pruneExpiredDomains st now)))"
    by (simp add: live_def) force
  moreover have "(k, e) \<in> set (ah_domains (pruneExpiredDomains st now)) \<longleftrightarrow>
      (k, e) \<in> set (ah_domains st) \<and> \<not> expired now e" for k e st
    by (auto simp: pruneExpiredDomains_def)
  ultimately show ?thesis
    by (simp add: adapter_quarantines_mem expired_def go_defs cong: conj_cong)
       (blast intro: less_imp_le)
qed

text \<open>
  A snapshot reports exactly what the table holds: every adapter appears once with its
  counters; the quarantines are sorted strictly by adapter and domain and are exactly the
  entries with enough evidence that have not expired (none when isolation is off); and the
  only effect on the table is that expired entries are gone.
\<close>

theorem health_snapshot_exact:
  assumes "wf_table h" "health_snapshot now h = ((as, qs), h')"
  shows "map_of as n = map_option (\<lambda>st. adapter_snapshot now (ht_domainIsolation h) n (pruneExpiredDomains st now))
           (health_of h n)
    \<and> distinct (map fst as) \<and> sorted_wrt (<) (map quarantine_key qs)
    \<and> (q \<in> set qs \<longleftrightarrow> ht_domainIsolation h
         \<and> (\<exists>st. health_of h (dq_Adapter q) = Some st
              \<and> map_of (ah_domains st) (dq_Domain q)
                 = Some \<lparr>dh_evidence = dq_Evidence q, dh_expiresAt = dq_ExpiresAt q\<rparr>)
         \<and> domainFailureThreshold \<le> dq_Evidence q \<and> now < dq_ExpiresAt q)
    \<and> h' = live now h \<and> wf_table h'"
proof -
  define al where "al = ht_adapters (live now h)"
  define raw where "raw = concat (map (\<lambda>(n, st). adapter_quarantines now (ht_domainIsolation h) n st) al)"
  have "al = map (\<lambda>(n, st). (n, pruneExpiredDomains st now)) (ht_adapters h)" by (simp add: al_def live_def)
  then have eq: "as = map (\<lambda>(n, st). (n, adapter_snapshot now (ht_domainIsolation h) n st)) al"
      "qs = sort_key quarantine_key raw" "h' = live now h"
    using assms(2) by (auto simp: health_snapshot_def Let_def live_def raw_def quarantine_key_def [abs_def])
  have wf: "wf_table (live now h)"
    using assms(1) by (auto simp: wf_table_def health_of_live intro: wf_prune)
      (simp add: live_def comp_def case_prod_unfold)
  then have d: "distinct (map fst al)" and al: "map_of al m = health_of (live now h) m"
    and dd: "(m, st) \<in> set al \<Longrightarrow> distinct (map fst (ah_domains st))" for m st
    by (auto simp: wf_table_def al_def health_of_def wf_health_def)
  have keys: "distinct (map quarantine_key raw)" unfolding raw_def using d dd by (rule quarantine_keys_distinct)
  then have "distinct (map quarantine_key qs)" by (simp add: eq distinct_map inj_on_def)
  then have "sorted_wrt (<) (map quarantine_key qs)" by (simp add: eq strict_sorted_iff)
  moreover have "map_of as n = map_option (\<lambda>st. adapter_snapshot now (ht_domainIsolation h) n (pruneExpiredDomains st now))
           (health_of h n)"
    using al [of n] by (simp add: eq map_of_map_pair health_of_live option.map_comp comp_def)
  moreover have "distinct (map fst as)" using d by (simp add: eq comp_def case_prod_unfold)
  moreover have "q \<in> set qs \<longleftrightarrow> ht_domainIsolation h
         \<and> (\<exists>st. health_of h (dq_Adapter q) = Some st
              \<and> map_of (ah_domains st) (dq_Domain q)
                 = Some \<lparr>dh_evidence = dq_Evidence q, dh_expiresAt = dq_ExpiresAt q\<rparr>)
         \<and> domainFailureThreshold \<le> dq_Evidence q \<and> now < dq_ExpiresAt q"
    using snapshot_mem [OF assms(1), of q now] by (simp add: eq raw_def al_def)
  ultimately show ?thesis using eq wf by blast
qed

definition seeded_example :: health_table where
  "seeded_example = newHealthTableConfigured example_pair True True
     [\<lparr>qs_Adapter = ''wifi'', qs_Domain = ''b.org'', qs_ExpiresAt = 9\<rparr>,
      \<lparr>qs_Adapter = ''eth'', qs_Domain = ''a.org'', qs_ExpiresAt = 9\<rparr>,
      \<lparr>qs_Adapter = ''eth'', qs_Domain = ''old.org'', qs_ExpiresAt = 4\<rparr>]"

theorem health_snapshot_exact_witness:
  "sorted_wrt (<) (map quarantine_key (snd (fst (health_snapshot 5 seeded_example))))
   \<and> map quarantine_key (snd (fst (health_snapshot 5 seeded_example)))
     = [(''eth'', ''a.org''), (''wifi'', ''b.org'')]"
proof -
  obtain as qs h' where s: "health_snapshot 5 seeded_example = ((as, qs), h')"
    by (metis prod.exhaust)
  have "wf_table seeded_example" unfolding seeded_example_def by (rule wf_newHealthTable)
  then have "sorted_wrt (<) (map quarantine_key qs)"
    using health_snapshot_exact [OF _ s] by blast
  moreover have "map quarantine_key (snd (fst (health_snapshot 5 seeded_example)))
     = [(''eth'', ''a.org''), (''wifi'', ''b.org'')]" by code_simp
  ultimately show ?thesis by (simp add: s)
qed

end
