(* ===== verification/Scheduler.thy ===== *)
theory Scheduler
  imports Health
begin

text \<open>
  \<open>engine/internal/proxy/scheduler.go\<close>: choosing the adapter of the next connection, by smooth
  weighted round robin or plain round robin over the candidates of the shared health table.
  The table is an argument and a result of every operation, since several schedulers share
  it. \<open>s.next\<close> starts at 0 and is only ever assigned a remainder, so it is a natural number;
  \<open>s.currentWeight\<close> is a tot function because a missing key of a Go map reads as 0.
\<close>

section \<open>Model\<close>

record scheduler =
  sc_adapters :: "adapter list"
  sc_weighted :: bool
  sc_next :: nat
  sc_currentWeight :: "string \<Rightarrow> int"

definition newScheduler :: "adapter list \<Rightarrow> bool \<Rightarrow> scheduler" where
  "newScheduler adapters weighted =
     \<lparr>sc_adapters = adapters, sc_weighted = weighted, sc_next = 0, sc_currentWeight = (\<lambda>_. 0)\<rparr>"

fun weighted_loop ::
    "adapter list \<Rightarrow> int \<Rightarrow> adapter \<Rightarrow> (string \<Rightarrow> int) \<Rightarrow> int \<times> adapter \<times> (string \<Rightarrow> int)" where
  "weighted_loop [] tot selected cw = (tot, selected, cw)"
| "weighted_loop (a # as) tot selected cw =
     (let tot = tot + ad_Weight a;
          cw = cw(ad_Name a := cw (ad_Name a) + ad_Weight a);
          selected = (if cw (ad_Name a) > cw (ad_Name selected) then a else selected)
      in weighted_loop as tot selected cw)"

definition selectWeighted :: "adapter list \<Rightarrow> scheduler \<Rightarrow> adapter \<times> scheduler" where
  "selectWeighted cs s =
     (let (tot, selected, cw) = weighted_loop cs 0 (hd cs) (sc_currentWeight s)
      in (selected, s\<lparr>sc_currentWeight := cw(ad_Name selected := cw (ad_Name selected) - tot)\<rparr>))"

definition SelectForDomain ::
    "go_time \<Rightarrow> string set \<Rightarrow> string \<Rightarrow> scheduler \<Rightarrow> health_table \<Rightarrow> adapter option \<times> scheduler \<times> health_table" where
  "SelectForDomain now excluded domain s h =
     (let (cs, h') = candidates now h (sc_adapters s) excluded domain
      in if cs = [] then (None, s, h')
         else if sc_weighted s then (let (a, s') = selectWeighted cs s in (Some a, s', h'))
         else (Some (cs ! (sc_next s mod length cs)),
               s\<lparr>sc_next := (sc_next s + 1) mod length cs\<rparr>, h'))"

definition Select ::
    "go_time \<Rightarrow> string set \<Rightarrow> scheduler \<Rightarrow> health_table \<Rightarrow> adapter option \<times> scheduler \<times> health_table" where
  "Select now excluded s h = SelectForDomain now excluded [] s h"

definition MarkFailure :: "go_time \<Rightarrow> string \<Rightarrow> health_table \<Rightarrow> health_table" where
  "MarkFailure now name h = recordLocalFailure now name h"

definition MarkSuccess :: "go_time \<Rightarrow> string \<Rightarrow> string list \<Rightarrow> health_table \<Rightarrow> health_table" where
  "MarkSuccess now name domain h =
     recordSuccess now name (case domain of d # _ \<Rightarrow> d | [] \<Rightarrow> []) h"

section \<open>One weighted choice\<close>

definition total_weight :: "adapter list \<Rightarrow> int" where
  "total_weight as = sum_list (map ad_Weight as)"

definition bump :: "adapter list \<Rightarrow> (string \<Rightarrow> int) \<Rightarrow> string \<Rightarrow> int" where
  "bump as cw n = cw n + sum_list (map ad_Weight (filter (\<lambda>a. ad_Name a = n) as))"

lemma bump_simps [simp]:
  "bump [] cw = cw"
  "bump (a # as) cw = bump as (cw(ad_Name a := cw (ad_Name a) + ad_Weight a))"
  by (auto simp: bump_def fun_eq_iff)

lemma bump_other: "n \<notin> ad_Name ` set as \<Longrightarrow> bump as cw n = cw n"
  by (induction as arbitrary: cw) auto

lemma bump_mem: "distinct (map ad_Name as) \<Longrightarrow> a \<in> set as \<Longrightarrow> bump as cw (ad_Name a) = cw (ad_Name a) + ad_Weight a"
  by (induction as arbitrary: cw) (auto simp: bump_other image_iff)

text \<open>The loop keeps as selected an adapter of the part it has seen with the greatest weight there.\<close>

lemma weighted_loop_max:
  assumes "weighted_loop as tot sel cw = (tot', sel', cw')"
    and "distinct (map ad_Name (seen @ as))"
    and "sel \<in> set seen \<or> (seen = [] \<and> as \<noteq> [] \<and> sel = hd as)"
    and "\<forall>b \<in> set seen. cw (ad_Name b) \<le> cw (ad_Name sel)"
  shows "tot' = tot + total_weight as \<and> cw' = bump as cw \<and> sel' \<in> set (seen @ as)
    \<and> (\<forall>b \<in> set (seen @ as). cw' (ad_Name b) \<le> cw' (ad_Name sel'))"
  using assms
proof (induction as arbitrary: tot sel cw seen)
  case Nil
  then show ?case by (auto simp: total_weight_def)
next
  case (Cons a as)
  define cw1 where "cw1 = cw(ad_Name a := cw (ad_Name a) + ad_Weight a)"
  define sel1 where "sel1 = (if cw1 (ad_Name a) > cw1 (ad_Name sel) then a else sel)"
  have l: "weighted_loop as (tot + ad_Weight a) sel1 cw1 = (tot', sel', cw')"
    using Cons.prems(1) by (simp add: Let_def cw1_def sel1_def)
  have keep: "cw1 (ad_Name b) = cw (ad_Name b)" if "b \<in> set seen" for b
    using Cons.prems(2) that by (auto simp: cw1_def image_iff)
  have in1: "sel1 \<in> set (seen @ [a])"
    using Cons.prems(3) by (auto simp: sel1_def)
  have max1: "\<forall>b \<in> set (seen @ [a]). cw1 (ad_Name b) \<le> cw1 (ad_Name sel1)"
  proof (cases "sel \<in> set seen")
    case True
    then show ?thesis using keep Cons.prems(4) by (auto simp: sel1_def)
  next
    case False
    then show ?thesis using Cons.prems(3) by (auto simp: sel1_def)
  qed
  show ?case
    using Cons.IH [OF l, of "seen @ [a]"] in1 max1 Cons.prems(2)
    by (auto simp: total_weight_def add.assoc simp flip: cw1_def)
qed

lemma selectWeighted_spec:
  assumes "selectWeighted cs s = (a, s')" "cs \<noteq> []" "distinct (map ad_Name cs)"
  shows "a \<in> set cs
    \<and> (\<forall>b \<in> set cs. bump cs (sc_currentWeight s) (ad_Name b) \<le> bump cs (sc_currentWeight s) (ad_Name a))
    \<and> s' = s\<lparr>sc_currentWeight := (bump cs (sc_currentWeight s))
               (ad_Name a := bump cs (sc_currentWeight s) (ad_Name a) - total_weight cs)\<rparr>"
proof -
  obtain tot sel cw where l: "weighted_loop cs 0 (hd cs) (sc_currentWeight s) = (tot, sel, cw)"
    by (metis prod_cases3)
  have "tot = total_weight cs" "cw = bump cs (sc_currentWeight s)" "sel \<in> set cs"
    "\<forall>b \<in> set cs. cw (ad_Name b) \<le> cw (ad_Name sel)"
    using weighted_loop_max [OF l, of "[]", simplified] assms(2,3) by blast+
  moreover have "a = sel" "s' = s\<lparr>sc_currentWeight := cw(ad_Name sel := cw (ad_Name sel) - tot)\<rparr>"
    using assms(1) l by (auto simp: selectWeighted_def)
  ultimately show ?thesis by simp
qed

lemma selectWeighted_keeps:
  "selectWeighted cs s = (a, s') \<Longrightarrow>
     sc_adapters s' = sc_adapters s \<and> sc_weighted s' = sc_weighted s \<and> sc_next s' = sc_next s"
  by (auto simp: selectWeighted_def split: prod.splits)

section \<open>Every choice is sound\<close>

lemma subseq_set: "subseq xs ys \<Longrightarrow> set xs \<subseteq> set ys"
  by (induction rule: list_emb.induct) auto

lemma distinct_map_subseq: "subseq xs ys \<Longrightarrow> distinct (map f ys) \<Longrightarrow> distinct (map f xs)"
  by (induction rule: list_emb.induct) (auto dest!: subseq_set)

lemma SelectForDomain_facts:
  assumes wf: "wf_table h" and d: "distinct (map ad_Name (sc_adapters s))"
    and sel: "SelectForDomain now ex d s h = (r, s', h')"
  shows "wf_table h' \<and> sc_adapters s' = sc_adapters s
    \<and> (r = None \<longleftrightarrow> (\<forall>a \<in> set (sc_adapters s). ad_Name a \<in> ex \<or> \<not> known h a))
    \<and> (\<forall>a. r = Some a \<longrightarrow> a \<in> set (sc_adapters s) \<and> ad_Name a \<notin> ex \<and> known h' a
          \<and> a \<in> set (candidates_spec now h (sc_adapters s) ex d))"
proof -
  obtain cs where c: "candidates now h (sc_adapters s) ex d = (cs, h')"
    using sel by (cases "candidates now h (sc_adapters s) ex d") (auto simp: SelectForDomain_def split: if_splits prod.splits)
  have cs: "cs = candidates_spec now h (sc_adapters s) ex d" and wf': "wf_table h'"
    using candidates_characterised [OF wf, of now "sc_adapters s" ex d] by (simp_all add: c)
  have "distinct (map ad_Name cs)"
    using d candidates_spec_sublist [of now h "sc_adapters s" ex d] cs
    by (simp add: distinct_map_subseq)
  moreover obtain w sw where w: "selectWeighted cs s = (w, sw)" by fastforce
  ultimately have "cs \<noteq> [] \<Longrightarrow> w \<in> set cs" and sw: "sc_adapters sw = sc_adapters s"
    using selectWeighted_spec [OF w] selectWeighted_keeps [OF w] by blast+
  then have pick: "cs \<noteq> [] \<Longrightarrow> \<exists>a \<in> set cs. r = Some a" and keep: "sc_adapters s' = sc_adapters s"
      and nil: "cs = [] \<Longrightarrow> r = None"
    using sel by (auto simp: SelectForDomain_def c w split: if_splits)
  have "r = None \<longleftrightarrow> cs = []" using pick nil by auto
  moreover have "a \<in> set (sc_adapters s) \<and> ad_Name a \<notin> ex \<and> known h' a \<and> a \<in> set cs" if "r = Some a" for a
  proof -
    have "a \<in> set cs" "cs \<noteq> []" using that pick nil by auto
    then show ?thesis using table.pick_sound [OF wf c, of "\<lambda>_. a"] by simp
  qed
  ultimately show ?thesis using table.none_iff [OF wf c] wf' keep cs by simp
qed

text \<open>
  A scheduler never picks an adapter that is excluded, unknown to the health table or
  not its own, picks one of the candidates the health table offers, gives up only when no
  adapter qualifies, and keeps its adapters and the invariant of the table.
\<close>

theorem SelectForDomain_sound:
  assumes wf: "wf_table h" and d: "distinct (map ad_Name (sc_adapters s))"
    and sel: "SelectForDomain now ex d s h = (r, s', h')"
  shows "wf_table h' \<and> sc_adapters s' = sc_adapters s
    \<and> (r = None \<longleftrightarrow> (\<forall>a \<in> set (sc_adapters s). ad_Name a \<in> ex \<or> \<not> known h a))
    \<and> (\<forall>a. r = Some a \<longrightarrow> a \<in> set (sc_adapters s) \<and> ad_Name a \<notin> ex \<and> known h' a
          \<and> a \<in> set (candidates_spec now h (sc_adapters s) ex d))"
  using assms by (rule SelectForDomain_facts)

section \<open>Long-run fairness\<close>

text \<open>
  A run of selections over a table in which all adapters of the scheduler are healthy: no
  cooldown, no domain evidence. Each request has its own time and domain.
\<close>

fun select_run ::
    "(go_time \<times> string) list \<Rightarrow> scheduler \<Rightarrow> health_table \<Rightarrow> adapter option list \<times> scheduler \<times> health_table" where
  "select_run [] s h = ([], s, h)"
| "select_run ((now, d) # rs) s h =
     (let (a, s1, h1) = SelectForDomain now {} d s h;
          (as, s2, h2) = select_run rs s1 h1
      in (a # as, s2, h2))"

definition all_healthy :: "adapter list \<Rightarrow> health_table \<Rightarrow> bool" where
  "all_healthy as h \<longleftrightarrow> wf_table h \<and> list_all (\<lambda>a. case health_of h (ad_Name a) of
     None \<Rightarrow> False | Some st \<Rightarrow> ah_cooldownUntil st = 0 \<and> ah_domains st = []) as"

lemma candidates_all_healthy:
  assumes "all_healthy as h" "0 \<le> now" "as \<noteq> []" "candidates now h as {} d = (cs, h')"
  shows "cs = as \<and> all_healthy as h'"
proof -
  have ch: "cs = candidates_spec now h as {} d" "live now h' = live now h" "wf_table h'"
    using candidates_characterised [of h now as "{}" d] assms(1,4) by (simp_all add: all_healthy_def)
  have st: "\<exists>st. health_of h (ad_Name a) = Some st \<and> ah_cooldownUntil st = 0 \<and> ah_domains st = []"
    if "a \<in> set as" for a
    using assms(1) that by (auto simp: all_healthy_def list_all_iff split: option.splits)
  have "eligible h {} as = as" using st by (force simp: eligible_def known_def intro: filter_True)
  moreover have "\<not> cooling now h a \<and> \<not> quarantined now h (ad_Name a) dd" if "a \<in> set as" for a dd
    using st [OF that] assms(2)
    by (auto simp: cooling_def cooldown_of_def quarantined_def domainQuarantined_def go_defs split: if_splits)
  then have "filter (\<lambda>a. \<not> cooling now h a \<and> \<not> quarantined now h (ad_Name a) (effective_domain h d)) as = as"
    by (simp add: filter_id_conv)
  ultimately have "cs = as" using ch(1) assms(3) by (simp add: candidates_spec_def)
  moreover have "case health_of h' (ad_Name a) of None \<Rightarrow> False
      | Some st \<Rightarrow> ah_cooldownUntil st = 0 \<and> ah_domains st = []" if a: "a \<in> set as" for a
  proof -
    obtain st' where st': "health_of h' (ad_Name a) = Some st'"
      using table.stable [of h now as "{}" d cs h' a] assms(1,4) st [OF a]
      by (auto simp: all_healthy_def known_def)
    then show ?thesis
      using candidates_states [OF assms(4) st'] st [OF a] by (auto simp: pruneExpiredDomains_def)
  qed
  ultimately show ?thesis using ch(3) by (simp add: all_healthy_def list_all_iff)
qed

lemma SelectForDomain_healthy:
  assumes "all_healthy (sc_adapters s) h" "0 \<le> now" "sc_adapters s \<noteq> []"
  obtains h' where "all_healthy (sc_adapters s) h'"
    "SelectForDomain now {} d s h =
      (if sc_weighted s
       then (Some (fst (selectWeighted (sc_adapters s) s)), snd (selectWeighted (sc_adapters s) s), h')
       else (Some (sc_adapters s ! (sc_next s mod length (sc_adapters s))),
             s\<lparr>sc_next := (sc_next s + 1) mod length (sc_adapters s)\<rparr>, h'))"
proof -
  obtain cs h' where c: "candidates now h (sc_adapters s) {} d = (cs, h')" by fastforce
  have "cs = sc_adapters s \<and> all_healthy (sc_adapters s) h'"
    using assms c by (intro candidates_all_healthy)
  then show ?thesis using that [of h'] c assms(3) by (simp add: SelectForDomain_def Let_def case_prod_unfold)
qed

text \<open>
  Plain round robin takes the healthy adapters strictly in turn: the \<open>i\<close>-th of a run of
  selections is the adapter \<open>i\<close> places after the current one, cyclically. So over a cycle
  every adapter is chosen exactly once.
\<close>

theorem round_robin_cycles:
  assumes "all_healthy (sc_adapters s) h" "sc_adapters s \<noteq> []" "\<not> sc_weighted s"
    "list_all (\<lambda>(now, d). 0 \<le> now) rs"
  shows "fst (select_run rs s h) =
    map (\<lambda>i. Some (sc_adapters s ! ((sc_next s + i) mod length (sc_adapters s)))) [0..<length rs]"
  using assms
proof (induction rs arbitrary: s h)
  case (Cons r rs)
  obtain now d where r: "r = (now, d)" by fastforce
  define s1 where "s1 = s\<lparr>sc_next := (sc_next s + 1) mod length (sc_adapters s)\<rparr>"
  obtain h1 where h1: "all_healthy (sc_adapters s) h1" and
    sel: "SelectForDomain now {} d s h = (Some (sc_adapters s ! (sc_next s mod length (sc_adapters s))), s1, h1)"
    using SelectForDomain_healthy [OF Cons.prems(1) _ Cons.prems(2), of now d] Cons.prems(3,4)
    by (auto simp: r s1_def)
  have "fst (select_run rs s1 h1) =
    map (\<lambda>i. Some (sc_adapters s ! (((sc_next s + 1) mod length (sc_adapters s) + i) mod length (sc_adapters s)))) [0..<length rs]"
    using Cons.IH [of s1 h1] Cons.prems h1 by (simp add: s1_def)
  then show ?case
    by (simp add: r sel case_prod_unfold map_upt_Suc mod_add_left_eq del: upt_Suc)
qed simp

text \<open>
  The invariant of smooth weighted round robin after \<open>t\<close> selections of which \<open>n a\<close> chose \<open>a\<close>:
  the current weight is what \<open>a\<close> has been granted minus what it has spent, and it never falls
  below minus the total weight.
\<close>

definition wrr_inv :: "adapter list \<Rightarrow> (string \<Rightarrow> int) \<Rightarrow> nat \<Rightarrow> (adapter \<Rightarrow> nat) \<Rightarrow> bool" where
  "wrr_inv cs cw t n \<longleftrightarrow> sum_list (map n cs) = t
     \<and> (\<forall>a \<in> set cs. cw (ad_Name a) = int t * ad_Weight a - total_weight cs * int (n a)
                     \<and> - total_weight cs < cw (ad_Name a))"

lemma sum_list_pos_elem:
  fixes f :: "'a \<Rightarrow> int"
  assumes "0 < sum_list (map f xs)"
  shows "\<exists>x \<in> set xs. 0 < f x"
proof (rule ccontr)
  assume "\<not> ?thesis"
  then have "sum_list (map f xs) \<le> sum_list (map (\<lambda>_. 0) xs)"
    by (intro sum_list_mono) (auto simp: not_less)
  then show False using assms by simp
qed

lemma sum_list_upd:
  fixes n :: "'a \<Rightarrow> nat"
  shows "distinct xs \<Longrightarrow> a \<in> set xs \<Longrightarrow> sum_list (map (n(a := n a + 1)) xs) = sum_list (map n xs) + 1"
proof (induction xs)
  case (Cons x xs)
  then show ?case by (cases "x = a") (auto simp: map_fun_upd simp del: fun_upd_apply simp add: fun_upd_same fun_upd_other)
qed simp

lemma sum_list_affine:
  fixes f :: "'a \<Rightarrow> int"
  shows "sum_list (map (\<lambda>a. k * f a - c * int (n a)) xs) = k * sum_list (map f xs) - c * int (sum_list (map n xs))"
  by (induction xs) (auto simp: algebra_simps)

lemma sum_list_int: "sum_list (map (\<lambda>b. int (f b)) xs) = int (sum_list (map f xs))"
  by (induction xs) auto

lemma wrr_inv_step:
  assumes inv: "wrr_inv cs (sc_currentWeight s) t n" and d: "distinct (map ad_Name cs)"
    and w: "\<And>a. a \<in> set cs \<Longrightarrow> 1 \<le> ad_Weight a" and ne: "cs \<noteq> []"
    and sel: "selectWeighted cs s = (a, s')"
  shows "a \<in> set cs \<and> wrr_inv cs (sc_currentWeight s') (t + 1) (n(a := n a + 1))"
proof -
  define T where "T = total_weight cs"
  define up where "up = bump cs (sc_currentWeight s)"
  have a: "a \<in> set cs" and max: "\<And>b. b \<in> set cs \<Longrightarrow> up (ad_Name b) \<le> up (ad_Name a)"
    and s': "sc_currentWeight s' = up(ad_Name a := up (ad_Name a) - T)"
    using selectWeighted_spec [OF sel ne d] by (auto simp: up_def T_def)
  have up: "up (ad_Name b) = int (t + 1) * ad_Weight b - T * int (n b)" if "b \<in> set cs" for b
    using inv that d by (simp add: up_def bump_mem wrr_inv_def T_def algebra_simps)
  have dc: "distinct cs" using d by (simp add: distinct_map)
  have T: "0 < T"
  proof -
    have "sum_list (map (\<lambda>_. 1) cs) \<le> sum_list (map ad_Weight cs)" using w by (intro sum_list_mono)
    then show ?thesis using ne by (cases cs) (auto simp: T_def total_weight_def sum_list_triv)
  qed
  have "sum_list (map (\<lambda>b. up (ad_Name b)) cs)
      = sum_list (map (\<lambda>b. int (t + 1) * ad_Weight b - T * int (n b)) cs)"
    using up by (intro arg_cong [where f = sum_list] map_cong) auto
  also have "\<dots> = int (t + 1) * T - T * int t"
    using inv unfolding sum_list_affine by (simp add: wrr_inv_def T_def total_weight_def)
  finally have "0 < sum_list (map (\<lambda>b. up (ad_Name b)) cs)" using T by (simp add: algebra_simps)
  then obtain b where "b \<in> set cs" "0 < up (ad_Name b)" using sum_list_pos_elem by blast
  then have pos: "0 < up (ad_Name a)" using max by force
  have "- T < up (ad_Name b)" if "b \<in> set cs" for b
  proof -
    have "- T < sc_currentWeight s (ad_Name b)" using inv that by (auto simp: wrr_inv_def T_def)
    then show ?thesis using w [OF that] d that by (simp add: up_def bump_mem)
  qed
  moreover have "b = a" if "b \<in> set cs" "ad_Name b = ad_Name a" for b
    using d a that by (auto simp: distinct_map inj_on_def)
  ultimately have "sc_currentWeight s' (ad_Name b) = int (t + 1) * ad_Weight b - T * int ((n(a := n a + 1)) b)
      \<and> - T < sc_currentWeight s' (ad_Name b)" if "b \<in> set cs" for b
    using that up [OF that] pos by (cases "b = a") (auto simp: s' algebra_simps)
  moreover have "sum_list (map (n(a := n a + 1)) cs) = t + 1"
    using sum_list_upd [OF dc a, of n] inv by (simp add: wrr_inv_def)
  ultimately show ?thesis using a unfolding wrr_inv_def T_def by blast
qed

lemma wrr_inv_run:
  assumes "select_run rs s h = (ps, s', h')" "wrr_inv (sc_adapters s) (sc_currentWeight s) t n"
    "all_healthy (sc_adapters s) h" "list_all (\<lambda>(now, d). 0 \<le> now) rs" "sc_adapters s \<noteq> []" "sc_weighted s"
    "distinct (map ad_Name (sc_adapters s))" "\<And>a. a \<in> set (sc_adapters s) \<Longrightarrow> 1 \<le> ad_Weight a"
  shows "wrr_inv (sc_adapters s) (sc_currentWeight s') (t + length rs) (\<lambda>a. n a + count_list ps (Some a))"
  using assms
proof (induction rs arbitrary: s h t n ps)
  case (Cons r rs)
  obtain now d where r: "r = (now, d)" by fastforce
  obtain a s1 where w: "selectWeighted (sc_adapters s) s = (a, s1)" by fastforce
  obtain h1 where h1: "all_healthy (sc_adapters s) h1"
    and sel: "SelectForDomain now {} d s h = (Some a, s1, h1)"
    using SelectForDomain_healthy [OF Cons.prems(3) _ Cons.prems(5), of now d] Cons.prems(4,6)
    by (auto simp: r w)
  obtain ps1 where ps: "select_run rs s1 h1 = (ps1, s', h')" "ps = Some a # ps1"
    using Cons.prems(1) by (auto simp: r sel split: prod.splits)
  have keep: "sc_adapters s1 = sc_adapters s" "sc_weighted s1 = sc_weighted s"
    using selectWeighted_keeps [OF w] by simp_all
  have "wrr_inv (sc_adapters s1) (sc_currentWeight s1) (t + 1) (n(a := n a + 1))"
    using wrr_inv_step [OF Cons.prems(2,7,8,5) w] keep by simp
  from Cons.IH [OF ps(1) this] keep h1 Cons.prems
  have "wrr_inv (sc_adapters s) (sc_currentWeight s') (t + 1 + length rs)
      (\<lambda>b. (n(a := n a + 1)) b + count_list ps1 (Some b))" by simp
  moreover have "(\<lambda>b. (n(a := n a + 1)) b + count_list ps1 (Some b)) = (\<lambda>b. n b + count_list ps (Some b))"
    by (auto simp: ps)
  ultimately show ?case by simp
qed simp

lemma sum_list_le_eq:
  fixes f g :: "'a \<Rightarrow> int"
  assumes "\<And>x. x \<in> set xs \<Longrightarrow> f x \<le> g x" "sum_list (map f xs) = sum_list (map g xs)" "x \<in> set xs"
  shows "f x = g x"
proof (rule ccontr)
  assume "f x \<noteq> g x"
  then have "0 < g x - f x" using assms(1) [OF assms(3)] by simp
  also have "\<dots> \<le> sum_list (map (\<lambda>y. g y - f y) xs)"
    using assms(1,3) by (intro member_le_sum_list) auto
  also have "\<dots> = 0" using assms(2) by (simp add: sum_list_subtractf)
  finally show False by simp
qed

text \<open>
  C2. Smooth weighted round robin is exactly fair: over any run of requests whose length is
  \<open>k\<close> times the total weight, an adapter of weight \<open>w\<close> is chosen exactly \<open>k * w\<close> times, and
  then the current weights are back at zero, so the pattern repeats.
\<close>

theorem weighted_round_robin_fair:
  assumes healthy: "all_healthy (sc_adapters s) h" and ne: "sc_adapters s \<noteq> []" and weighted: "sc_weighted s"
    and d: "distinct (map ad_Name (sc_adapters s))" and w: "\<forall>a \<in> set (sc_adapters s). 1 \<le> ad_Weight a"
    and zero: "\<forall>a \<in> set (sc_adapters s). sc_currentWeight s (ad_Name a) = 0"
    and times: "list_all (\<lambda>(now, d). 0 \<le> now) rs"
    and len: "int (length rs) = int k * total_weight (sc_adapters s)"
    and run: "select_run rs s h = (ps, s', h')" and a: "a \<in> set (sc_adapters s)"
  shows "int (count_list ps (Some a)) = int k * ad_Weight a \<and> sc_currentWeight s' (ad_Name a) = 0"
proof -
  let ?as = "sc_adapters s"
  define T where "T = total_weight ?as"
  have "0 \<le> sum_list (map ad_Weight ?as)" using w by (intro sum_list_nonneg) force
  moreover have "ad_Weight a \<le> sum_list (map ad_Weight ?as)"
    using a w by (intro member_le_sum_list) force+
  ultimately have T: "0 < T" using w a by (force simp: T_def total_weight_def)
  have "wrr_inv ?as (sc_currentWeight s) 0 (\<lambda>_. 0)"
    using zero T by (simp add: wrr_inv_def T_def)
  from wrr_inv_run [OF run this healthy times ne weighted d] w
  have inv: "wrr_inv ?as (sc_currentWeight s') (length rs) (\<lambda>a. count_list ps (Some a))" by simp
  have cw: "sc_currentWeight s' (ad_Name b) = T * (int k * ad_Weight b - int (count_list ps (Some b)))"
    and low: "- T < sc_currentWeight s' (ad_Name b)" if "b \<in> set ?as" for b
    using inv that len by (auto simp: wrr_inv_def T_def algebra_simps)
  have le: "int (count_list ps (Some b)) \<le> int k * ad_Weight b" if "b \<in> set ?as" for b
  proof -
    have "T * (- 1) < T * (int k * ad_Weight b - int (count_list ps (Some b)))"
      using cw [OF that] low [OF that] by simp
    then have "- 1 < int k * ad_Weight b - int (count_list ps (Some b))"
      using T by (simp only: mult_less_cancel_left_pos)
    then show ?thesis by simp
  qed
  have "sum_list (map (\<lambda>b. int (count_list ps (Some b))) ?as) = int (sum_list (map (\<lambda>b. count_list ps (Some b)) ?as))"
    by (rule sum_list_int)
  also have "\<dots> = sum_list (map (\<lambda>b. int k * ad_Weight b) ?as)"
    using inv len by (simp add: wrr_inv_def sum_list_const_mult total_weight_def)
  finally have "int (count_list ps (Some a)) = int k * ad_Weight a"
    using le a by (intro sum_list_le_eq [of ?as "\<lambda>b. int (count_list ps (Some b))" "\<lambda>b. int k * ad_Weight b"])
  then show ?thesis using cw [OF a] by simp
qed

section \<open>Examples\<close>

lemma example_pair_healthy: "all_healthy example_pair (newHealthTable example_pair)"
  using wf_newHealthTable [of example_pair True True "[]"]
  by (simp add: all_healthy_def health_of_example newHealthTable_def [symmetric])
     (simp add: example_pair_def example_adapter_def fresh_health_def)

theorem SelectForDomain_sound_witness:
  "\<exists>a s' h'. SelectForDomain 5 {''eth''} ''x.org'' (newScheduler example_pair True) (newHealthTable example_pair)
      = (Some a, s', h') \<and> ad_Name a \<notin> {''eth''}"
proof -
  obtain r s' h' where s: "SelectForDomain 5 {''eth''} ''x.org'' (newScheduler example_pair True)
      (newHealthTable example_pair) = (r, s', h')" by (metis prod_cases3)
  have k: "known (newHealthTable example_pair) (example_adapter ''wifi'' ''10.0.1.2'' 1)"
    by (simp add: known_def health_of_example example_adapter_def)
  have "wf_table (newHealthTable example_pair)" using example_pair_healthy by (simp add: all_healthy_def)
  moreover have "distinct (map ad_Name (sc_adapters (newScheduler example_pair True)))"
    by (simp add: newScheduler_def example_pair_def example_adapter_def)
  moreover have "example_adapter ''wifi'' ''10.0.1.2'' 1 \<in> set (sc_adapters (newScheduler example_pair True))"
    "ad_Name (example_adapter ''wifi'' ''10.0.1.2'' 1) \<notin> {''eth''}"
    by (simp_all add: newScheduler_def example_pair_def example_adapter_def)
  ultimately show ?thesis using SelectForDomain_sound [OF _ _ s] k s by (cases r) blast+
qed

theorem round_robin_cycles_witness:
  "map (map_option ad_Name) (fst (select_run [(1, []), (2, []), (3, [])] (newScheduler example_pair False)
     (newHealthTable example_pair))) = [Some ''eth'', Some ''wifi'', Some ''eth'']"
proof -
  have a: "sc_adapters (newScheduler example_pair False) = example_pair"
    "sc_next (newScheduler example_pair False) = 0" "\<not> sc_weighted (newScheduler example_pair False)"
    by (simp_all add: newScheduler_def)
  have ne: "sc_adapters (newScheduler example_pair False) \<noteq> []"
    unfolding a(1) by (simp add: example_pair_def)
  show ?thesis
    using round_robin_cycles [OF _ ne a(3), of "newHealthTable example_pair" "[(1, []), (2, []), (3, [])]"]
      example_pair_healthy
    by (simp add: a) (simp add: example_pair_def example_adapter_def upt_conv_Cons)
qed

theorem weighted_round_robin_fair_witness:
  "count_list (fst (select_run [(1, []), (2, []), (3, []), (4, [])] (newScheduler example_pair True)
     (newHealthTable example_pair))) (Some (example_adapter ''eth'' ''10.0.0.2'' 3)) = 3"
proof -
  let ?s = "newScheduler example_pair True" and ?h = "newHealthTable example_pair"
  obtain ps s' h' where r: "select_run [(1, []), (2, []), (3, []), (4, [])] ?s ?h = (ps, s', h')"
    by (metis prod_cases3)
  have "int (count_list ps (Some (example_adapter ''eth'' ''10.0.0.2'' 3)))
      = int 1 * ad_Weight (example_adapter ''eth'' ''10.0.0.2'' 3)"
    using weighted_round_robin_fair [OF _ _ _ _ _ _ _ _ r, of 1 "example_adapter ''eth'' ''10.0.0.2'' 3"]
      example_pair_healthy
    by (simp add: newScheduler_def) (simp add: example_pair_def example_adapter_def total_weight_def)
  then show ?thesis unfolding r by (simp add: example_adapter_def)
qed

end
