(* ===== verification/Registry.thy ===== *)
theory Registry
  imports Scheduler
begin

text \<open>
  \<open>engine/internal/proxy/registry.go\<close>: the sessions of the proxy and their traffic counters.
  A \<open>*connection\<close> is named by its id; \<open>rg_objects\<close> holds every session that was created (a
  finished session can still be referred to by the goroutine that served it), and
  \<open>rg_connections\<close> the keys of the map \<open>connections\<close>. Counters are 64-bit words: \<open>Add(1)\<close> wraps
  and \<open>Add(^uint64(0))\<close> subtracts one. The clock is an argument.
\<close>

section \<open>Model\<close>

record net_conn =
  nc_id :: nat
  nc_RemoteAddr :: "string option"
  nc_LocalAddr :: "string option"

record adapter_counters =
  ac_adapter :: adapter
  ac_active :: uint64
  ac_bytesUp :: uint64
  ac_bytesDown :: uint64

record connection =
  cn_protocol :: string
  cn_channel :: string
  cn_client :: string
  cn_listener :: string
  cn_startedAt :: go_time
  cn_clientConn :: net_conn
  cn_upstream :: "net_conn option"
  cn_target :: string
  cn_remote :: string
  cn_adapter :: string
  cn_direct :: bool
  cn_bytesUp :: uint64
  cn_bytesDown :: uint64

record registry =
  rg_nextID :: uint64
  rg_startedAt :: go_time
  rg_objects :: "(uint64 \<times> connection) list"
  rg_connections :: "uint64 list"
  rg_adapters :: "(string \<times> adapter_counters) list"
  rg_order :: "string list"
  rg_directActive :: uint64
  rg_directBytesUp :: uint64
  rg_directBytesDown :: uint64

record adapter_telemetry =
  at_Name :: string
  at_SourceIP :: string
  at_IfIndex :: int
  at_SourceIPv6 :: string
  at_IPv6IfIndex :: int
  at_Connections :: uint64
  at_BytesUp :: uint64
  at_BytesDown :: uint64
  at_Health :: "adapter_health_snapshot option"

record connection_snapshot =
  cs_ID :: uint64
  cs_Protocol :: string
  cs_Channel :: string
  cs_Client :: string
  cs_Listener :: string
  cs_Target :: string
  cs_Remote :: string
  cs_Adapter :: string
  cs_StartedAt :: go_time
  cs_BytesUp :: uint64
  cs_BytesDown :: uint64

record telemetry_snapshot =
  ts_StartedAt :: go_time
  ts_SampledAt :: go_time
  ts_Adapters :: "adapter_telemetry list"
  ts_Connections :: "connection_snapshot list"
  ts_DomainQuarantines :: "domain_quarantine_snapshot list"
  ts_TotalConnections :: uint64
  ts_TotalBytesUp :: uint64
  ts_TotalBytesDown :: uint64

definition new_counters :: "adapter \<Rightarrow> adapter_counters" where
  "new_counters a = \<lparr>ac_adapter = a, ac_active = 0, ac_bytesUp = 0, ac_bytesDown = 0\<rparr>"

definition newRegistry :: "go_time \<Rightarrow> adapter list \<Rightarrow> registry" where
  "newRegistry now adapters =
     \<lparr>rg_nextID = 0, rg_startedAt = now, rg_objects = [], rg_connections = [],
      rg_adapters = fold (\<lambda>a. AList.update (ad_Name a) (new_counters a)) adapters [],
      rg_order = map ad_Name adapters, rg_directActive = 0, rg_directBytesUp = 0, rg_directBytesDown = 0\<rparr>"

definition addr_string :: "string option \<Rightarrow> string" where
  "addr_string a = (case a of None \<Rightarrow> [] | Some s \<Rightarrow> s)"

definition new_session :: "go_time \<Rightarrow> string \<Rightarrow> string \<Rightarrow> string \<Rightarrow> string \<Rightarrow> net_conn \<Rightarrow> connection" where
  "new_session now protocol channel clientAddress listenerAddress client =
     \<lparr>cn_protocol = protocol, cn_channel = channel, cn_client = clientAddress,
      cn_listener = listenerAddress, cn_startedAt = now, cn_clientConn = client, cn_upstream = None,
      cn_target = [], cn_remote = [], cn_adapter = [], cn_direct = False, cn_bytesUp = 0, cn_bytesDown = 0\<rparr>"

definition beginAddress ::
    "go_time \<Rightarrow> string \<Rightarrow> string \<Rightarrow> string \<Rightarrow> string \<Rightarrow> net_conn \<Rightarrow> registry \<Rightarrow> uint64 \<times> registry" where
  "beginAddress now protocol channel clientAddress listenerAddress client r =
     (let sid = rg_nextID r + 1;
          session = new_session now protocol channel clientAddress listenerAddress client
      in (sid, r\<lparr>rg_nextID := sid, rg_objects := AList.update sid session (rg_objects r),
                rg_connections := (if sid \<in> set (rg_connections r) then rg_connections r
                                   else rg_connections r @ [sid])\<rparr>))"

definition Begin :: "go_time \<Rightarrow> string \<Rightarrow> string \<Rightarrow> net_conn \<Rightarrow> registry \<Rightarrow> uint64 \<times> registry" where
  "Begin now protocol channel client r =
     beginAddress now protocol channel (addr_string (nc_RemoteAddr client))
       (addr_string (nc_LocalAddr client)) client r"

definition BeginAddress ::
    "go_time \<Rightarrow> string \<Rightarrow> string \<Rightarrow> string \<Rightarrow> net_conn \<Rightarrow> registry \<Rightarrow> uint64 \<times> registry" where
  "BeginAddress now protocol channel clientAddress client r =
     beginAddress now protocol channel clientAddress [] client r"

text \<open>The session object behind a pointer, and a write through the pointer.\<close>

definition session_of :: "registry \<Rightarrow> uint64 \<Rightarrow> connection option" where
  "session_of r sid = map_of (rg_objects r) sid"

definition set_session :: "uint64 \<Rightarrow> (connection \<Rightarrow> connection) \<Rightarrow> registry \<Rightarrow> registry" where
  "set_session sid f r =
     (case session_of r sid of
        None \<Rightarrow> r
      | Some c \<Rightarrow> r\<lparr>rg_objects := AList.update sid (f c) (rg_objects r)\<rparr>)"

definition on_counters :: "string \<Rightarrow> (adapter_counters \<Rightarrow> adapter_counters) \<Rightarrow> registry \<Rightarrow> registry" where
  "on_counters name f r =
     (case map_of (rg_adapters r) name of
        None \<Rightarrow> r
      | Some k \<Rightarrow> r\<lparr>rg_adapters := AList.update name (f k) (rg_adapters r)\<rparr>)"

definition connect_session :: "net_conn \<Rightarrow> string \<Rightarrow> connection \<Rightarrow> connection" where
  "connect_session upstream target c =
     c\<lparr>cn_upstream := Some upstream, cn_target := target,
       cn_remote := (case nc_RemoteAddr upstream of None \<Rightarrow> cn_remote c | Some a \<Rightarrow> a)\<rparr>"

definition Attach :: "uint64 \<Rightarrow> net_conn \<Rightarrow> string \<Rightarrow> adapter \<Rightarrow> registry \<Rightarrow> registry" where
  "Attach sid upstream target adapter r =
     on_counters (ad_Name adapter) (\<lambda>k. k\<lparr>ac_active := ac_active k + 1\<rparr>)
       (set_session sid (\<lambda>c. (connect_session upstream target c)\<lparr>cn_adapter := ad_Name adapter\<rparr>) r)"

definition AttachDirect :: "uint64 \<Rightarrow> net_conn \<Rightarrow> string \<Rightarrow> registry \<Rightarrow> registry" where
  "AttachDirect sid upstream target r =
     (set_session sid (\<lambda>c. (connect_session upstream target c)\<lparr>cn_adapter := [], cn_direct := True\<rparr>) r)
       \<lparr>rg_directActive := rg_directActive r + 1\<rparr>"

definition AddUp :: "uint64 \<Rightarrow> uint64 \<Rightarrow> registry \<Rightarrow> registry" where
  "AddUp sid amount r =
     (if amount = 0 then r
      else case session_of r sid of
             None \<Rightarrow> r
           | Some c \<Rightarrow>
               let r = set_session sid (\<lambda>c. c\<lparr>cn_bytesUp := cn_bytesUp c + amount\<rparr>) r
               in if map_of (rg_adapters r) (cn_adapter c) \<noteq> None
                  then on_counters (cn_adapter c) (\<lambda>k. k\<lparr>ac_bytesUp := ac_bytesUp k + amount\<rparr>) r
                  else if cn_direct c then r\<lparr>rg_directBytesUp := rg_directBytesUp r + amount\<rparr>
                  else r)"

definition AddDown :: "uint64 \<Rightarrow> uint64 \<Rightarrow> registry \<Rightarrow> registry" where
  "AddDown sid amount r =
     (if amount = 0 then r
      else case session_of r sid of
             None \<Rightarrow> r
           | Some c \<Rightarrow>
               let r = set_session sid (\<lambda>c. c\<lparr>cn_bytesDown := cn_bytesDown c + amount\<rparr>) r
               in if map_of (rg_adapters r) (cn_adapter c) \<noteq> None
                  then on_counters (cn_adapter c) (\<lambda>k. k\<lparr>ac_bytesDown := ac_bytesDown k + amount\<rparr>) r
                  else if cn_direct c then r\<lparr>rg_directBytesDown := rg_directBytesDown r + amount\<rparr>
                  else r)"

definition Finish :: "uint64 \<Rightarrow> registry \<Rightarrow> registry" where
  "Finish sid r =
     (let r = r\<lparr>rg_connections := removeAll sid (rg_connections r)\<rparr>
      in case session_of r sid of
           None \<Rightarrow> r
         | Some c \<Rightarrow>
             if map_of (rg_adapters r) (cn_adapter c) \<noteq> None
             then on_counters (cn_adapter c) (\<lambda>k. k\<lparr>ac_active := ac_active k + NOT 0\<rparr>) r
             else if cn_direct c then r\<lparr>rg_directActive := rg_directActive r + NOT 0\<rparr>
             else r)"

text \<open>\<open>CloseAll\<close> closes, per live session, the client connection and then the upstream if there is one.\<close>

definition live_sessions :: "registry \<Rightarrow> (uint64 \<times> connection) list" where
  "live_sessions r = concat (map (\<lambda>sid. case session_of r sid of None \<Rightarrow> [] | Some c \<Rightarrow> [(sid, c)]) (rg_connections r))"

definition CloseAll :: "registry \<Rightarrow> net_conn list" where
  "CloseAll r = concat (map (\<lambda>(sid, c). cn_clientConn c # (case cn_upstream c of None \<Rightarrow> [] | Some u \<Rightarrow> [u]))
                         (live_sessions r))"

definition adapter_item :: "adapter_counters \<Rightarrow> adapter_telemetry" where
  "adapter_item k =
     \<lparr>at_Name = ad_Name (ac_adapter k), at_SourceIP = ad_SourceIP (ac_adapter k),
      at_IfIndex = ad_IfIndex (ac_adapter k), at_SourceIPv6 = ad_SourceIPv6 (ac_adapter k),
      at_IPv6IfIndex = ad_IPv6IfIndex (ac_adapter k), at_Connections = ac_active k,
      at_BytesUp = ac_bytesUp k, at_BytesDown = ac_bytesDown k, at_Health = None\<rparr>"

definition connection_item :: "uint64 \<times> connection \<Rightarrow> connection_snapshot" where
  "connection_item p =
     (case p of (sid, c) \<Rightarrow>
        \<lparr>cs_ID = sid, cs_Protocol = cn_protocol c, cs_Channel = cn_channel c, cs_Client = cn_client c,
         cs_Listener = cn_listener c, cs_Target = cn_target c, cs_Remote = cn_remote c,
         cs_Adapter = cn_adapter c, cs_StartedAt = cn_startedAt c, cs_BytesUp = cn_bytesUp c,
         cs_BytesDown = cn_bytesDown c\<rparr>)"

definition items_of :: "registry \<Rightarrow> adapter_telemetry list" where
  "items_of r = map (\<lambda>name. adapter_item (the (map_of (rg_adapters r) name))) (rg_order r)"

definition registry_snapshot :: "go_time \<Rightarrow> bool \<Rightarrow> registry \<Rightarrow> telemetry_snapshot" where
  "registry_snapshot now includeConnections r =
     \<lparr>ts_StartedAt = rg_startedAt r, ts_SampledAt = now, ts_Adapters = items_of r,
      ts_Connections = (if includeConnections then map connection_item (live_sessions r) else []),
      ts_DomainQuarantines = [],
      ts_TotalConnections = foldl (\<lambda>t i. t + at_Connections i) 0 (items_of r) + rg_directActive r,
      ts_TotalBytesUp = foldl (\<lambda>t i. t + at_BytesUp i) 0 (items_of r) + rg_directBytesUp r,
      ts_TotalBytesDown = foldl (\<lambda>t i. t + at_BytesDown i) 0 (items_of r) + rg_directBytesDown r\<rparr>"

section \<open>Histories\<close>

text \<open>
  What the goroutines of the proxy do with sessions, in any interleaving: a session is begun,
  attached at most once (to an adapter of the registry or directly), then counts bytes in
  any order and at any time, and is finished once, attached or not. Ids do not wrap around:
  fewer than \<open>2 ^ 64\<close> sessions are begun.
\<close>

definition attached :: "connection \<Rightarrow> bool" where
  "attached c \<longleftrightarrow> cn_direct c \<or> cn_adapter c \<noteq> []"

datatype registry_event =
    EvBegin uint64 | EvAttach uint64 string | EvAttachDirect uint64 | EvUp uint64 uint64
  | EvDown uint64 uint64 | EvFinish uint64

inductive registry_step :: "registry \<Rightarrow> registry_event \<Rightarrow> registry \<Rightarrow> bool" where
  step_begin: "rg_nextID r + 1 \<noteq> 0 \<Longrightarrow> beginAddress now p ch ca la client r = (sid, r') \<Longrightarrow>
     registry_step r (EvBegin sid) r'"
| step_attach: "sid \<in> set (rg_connections r) \<Longrightarrow> session_of r sid = Some c \<Longrightarrow> \<not> attached c \<Longrightarrow>
     ad_Name a \<in> set (rg_order r) \<Longrightarrow> registry_step r (EvAttach sid (ad_Name a)) (Attach sid u t a r)"
| step_attach_direct: "sid \<in> set (rg_connections r) \<Longrightarrow> session_of r sid = Some c \<Longrightarrow> \<not> attached c \<Longrightarrow>
     registry_step r (EvAttachDirect sid) (AttachDirect sid u t r)"
| step_up: "session_of r sid = Some c \<Longrightarrow> attached c \<Longrightarrow> registry_step r (EvUp sid n) (AddUp sid n r)"
| step_down: "session_of r sid = Some c \<Longrightarrow> attached c \<Longrightarrow> registry_step r (EvDown sid n) (AddDown sid n r)"
| step_finish: "sid \<in> set (rg_connections r) \<Longrightarrow> registry_step r (EvFinish sid) (Finish sid r)"

inductive_cases registry_stepE: "registry_step r e r'"

section \<open>The books balance\<close>

datatype owner = Unattached | Direct | Via string

definition owner_of :: "connection \<Rightarrow> owner" where
  "owner_of c = (if cn_direct c then Direct else if cn_adapter c = [] then Unattached else Via (cn_adapter c))"

text \<open>The counters of the registry by owner.\<close>

definition counter :: "(adapter_counters \<Rightarrow> uint64) \<Rightarrow> uint64 \<Rightarrow> registry \<Rightarrow> owner \<Rightarrow> uint64" where
  "counter f direct r w = (case w of Unattached \<Rightarrow> 0 | Direct \<Rightarrow> direct
     | Via n \<Rightarrow> (case map_of (rg_adapters r) n of None \<Rightarrow> 0 | Some k \<Rightarrow> f k))"

definition active_of :: "registry \<Rightarrow> owner \<Rightarrow> uint64" where
  "active_of r = counter ac_active (rg_directActive r) r"

definition up_of :: "registry \<Rightarrow> owner \<Rightarrow> uint64" where
  "up_of r = counter ac_bytesUp (rg_directBytesUp r) r"

definition down_of :: "registry \<Rightarrow> owner \<Rightarrow> uint64" where
  "down_of r = counter ac_bytesDown (rg_directBytesDown r) r"

text \<open>What the sessions say.\<close>

definition tally :: "(uint64 \<times> connection \<Rightarrow> uint64) \<Rightarrow> registry \<Rightarrow> owner \<Rightarrow> uint64" where
  "tally g r w = sum_list (map (\<lambda>p. if owner_of (snd p) = w then g p else 0) (rg_objects r))"

definition live_bit :: "registry \<Rightarrow> uint64 \<times> connection \<Rightarrow> uint64" where
  "live_bit r p = (if fst p \<in> set (rg_connections r) then 1 else 0)"

definition reg_shape :: "registry \<Rightarrow> bool" where
  "reg_shape r \<longleftrightarrow>
     distinct (map fst (rg_objects r)) \<and> (\<forall>i \<in> fst ` set (rg_objects r). i \<le> rg_nextID r)
     \<and> distinct (rg_connections r) \<and> set (rg_connections r) \<subseteq> fst ` set (rg_objects r)
     \<and> distinct (rg_order r) \<and> [] \<notin> set (rg_order r)
     \<and> (\<forall>n. n \<in> set (rg_order r) \<longleftrightarrow> map_of (rg_adapters r) n \<noteq> None)
     \<and> (\<forall>n k. map_of (rg_adapters r) n = Some k \<longrightarrow> ad_Name (ac_adapter k) = n)
     \<and> (\<forall>i c. session_of r i = Some c \<longrightarrow>
          (cn_direct c \<longrightarrow> cn_adapter c = []) \<and> cn_adapter c \<in> insert [] (set (rg_order r))
          \<and> (\<not> attached c \<longrightarrow> cn_bytesUp c = 0 \<and> cn_bytesDown c = 0))"

definition reg_books :: "registry \<Rightarrow> bool" where
  "reg_books r \<longleftrightarrow> (\<forall>w. w \<noteq> Unattached \<longrightarrow>
     active_of r w = tally (live_bit r) r w \<and> up_of r w = tally (cn_bytesUp \<circ> snd) r w
     \<and> down_of r w = tally (cn_bytesDown \<circ> snd) r w)"

definition reg_inv :: "registry \<Rightarrow> bool" where
  "reg_inv r \<longleftrightarrow> reg_shape r \<and> reg_books r"

lemma sum_list_update:
  fixes f :: "'k \<times> 'v \<Rightarrow> 'a::ab_group_add"
  assumes "distinct (map fst al)" "map_of al k = Some v0"
    "\<And>k' v. (k', v) \<in> set al \<Longrightarrow> k' \<noteq> k \<Longrightarrow> f' (k', v) = f (k', v)"
  shows "sum_list (map f' (AList.update k v al)) = sum_list (map f al) + (f' (k, v) - f (k, v0))"
  using assms
proof (induction al)
  case (Cons p al)
  show ?case
  proof (cases "fst p = k")
    case True
    have "map f' al = map f al" using Cons.prems(1,3) True by (auto simp: image_iff)
    then have "sum_list (map f' al) = sum_list (map f al)" by (rule arg_cong)
    then show ?thesis using Cons.prems(2) True by (cases p) (simp add: algebra_simps)
  next
    case False
    then have "sum_list (map f' (AList.update k v al)) = sum_list (map f al) + (f' (k, v) - f (k, v0))"
      using Cons by (intro Cons.IH) (auto split: if_splits)
    moreover have "f' p = f p" using Cons.prems(3) [of "fst p" "snd p"] False by simp
    ultimately show ?thesis using False by (cases p) (simp add: algebra_simps)
  qed
qed simp

lemma sum_list_update_new:
  fixes f :: "'k \<times> 'v \<Rightarrow> 'a::ab_group_add"
  shows "map_of al k = None \<Longrightarrow> sum_list (map f (AList.update k v al)) = sum_list (map f al) + f (k, v)"
  by (induction al) (auto simp: algebra_simps split: if_splits)

lemma update_same: "map_of al k = Some v \<Longrightarrow> AList.update k v al = al"
  by (induction al) (auto split: if_splits)

lemma tally_update:
  assumes "distinct (map fst (rg_objects r))" "session_of r i = Some c"
    "rg_objects r' = AList.update i c' (rg_objects r)"
    "\<And>j d. j \<noteq> i \<Longrightarrow> g' (j, d) = g (j, d)"
  shows "tally g' r' w = tally g r w
    + ((if owner_of c' = w then g' (i, c') else 0) - (if owner_of c = w then g (i, c) else 0))"
proof -
  have "sum_list (map (\<lambda>p. if owner_of (snd p) = w then g' p else 0) (AList.update i c' (rg_objects r)))
    = sum_list (map (\<lambda>p. if owner_of (snd p) = w then g p else 0) (rg_objects r))
      + ((if owner_of (snd (i, c')) = w then g' (i, c') else 0) - (if owner_of (snd (i, c)) = w then g (i, c) else 0))"
    using assms(2,4) by (intro sum_list_update [OF assms(1)]) (simp_all add: session_of_def)
  then show ?thesis by (simp only: tally_def assms(3) snd_conv)
qed

lemma books_update:
  assumes "reg_books r" "distinct (map fst (rg_objects r))" "session_of r i = Some c"
    and "rg_objects r' = AList.update i c' (rg_objects r)"
    and "\<And>j. j \<noteq> i \<Longrightarrow> j \<in> set (rg_connections r') \<longleftrightarrow> j \<in> set (rg_connections r)"
    and "\<And>w. w \<noteq> Unattached \<Longrightarrow> active_of r' w = active_of r w
       + ((if owner_of c' = w then live_bit r' (i, c') else 0) - (if owner_of c = w then live_bit r (i, c) else 0))"
    and "\<And>w. w \<noteq> Unattached \<Longrightarrow> up_of r' w = up_of r w
       + ((if owner_of c' = w then cn_bytesUp c' else 0) - (if owner_of c = w then cn_bytesUp c else 0))"
    and "\<And>w. w \<noteq> Unattached \<Longrightarrow> down_of r' w = down_of r w
       + ((if owner_of c' = w then cn_bytesDown c' else 0) - (if owner_of c = w then cn_bytesDown c else 0))"
  shows "reg_books r'"
proof -
  note t = tally_update [OF assms(2-4)]
  have "tally (live_bit r') r' w = tally (live_bit r) r w
       + ((if owner_of c' = w then live_bit r' (i, c') else 0) - (if owner_of c = w then live_bit r (i, c) else 0))" for w
    using assms(5) by (intro t) (simp add: live_bit_def)
  moreover have "tally (cn_bytesUp \<circ> snd) r' w = tally (cn_bytesUp \<circ> snd) r w
       + ((if owner_of c' = w then cn_bytesUp c' else 0) - (if owner_of c = w then cn_bytesUp c else 0))" for w
    by (subst t [where g = "cn_bytesUp \<circ> snd"]) simp_all
  moreover have "tally (cn_bytesDown \<circ> snd) r' w = tally (cn_bytesDown \<circ> snd) r w
       + ((if owner_of c' = w then cn_bytesDown c' else 0) - (if owner_of c = w then cn_bytesDown c else 0))" for w
    by (subst t [where g = "cn_bytesDown \<circ> snd"]) simp_all
  ultimately show ?thesis using assms(1,6-8) by (simp add: reg_books_def)
qed

lemmas view_defs = active_of_def up_of_def down_of_def counter_def

lemma set_session_simps [simp]:
  "rg_adapters (set_session i f r) = rg_adapters r"
  "rg_order (set_session i f r) = rg_order r"
  "rg_connections (set_session i f r) = rg_connections r"
  "rg_nextID (set_session i f r) = rg_nextID r"
  "rg_directActive (set_session i f r) = rg_directActive r"
  "rg_directBytesUp (set_session i f r) = rg_directBytesUp r"
  "rg_directBytesDown (set_session i f r) = rg_directBytesDown r"
  by (simp_all add: set_session_def split: option.splits)

lemma set_session_objects:
  "session_of r i = Some c \<Longrightarrow> rg_objects (set_session i f r) = AList.update i (f c) (rg_objects r)"
  by (simp add: set_session_def)

lemma on_counters_simps [simp]:
  "rg_objects (on_counters n f r) = rg_objects r"
  "rg_order (on_counters n f r) = rg_order r"
  "rg_connections (on_counters n f r) = rg_connections r"
  "rg_nextID (on_counters n f r) = rg_nextID r"
  "rg_directActive (on_counters n f r) = rg_directActive r"
  "rg_directBytesUp (on_counters n f r) = rg_directBytesUp r"
  "rg_directBytesDown (on_counters n f r) = rg_directBytesDown r"
  by (simp_all add: on_counters_def split: option.splits)

lemma map_of_on_counters:
  "map_of (rg_adapters (on_counters n f r)) m
     = (if m = n then map_option f (map_of (rg_adapters r) n) else map_of (rg_adapters r) m)"
  by (auto simp: on_counters_def update_conv' split: option.splits)

lemma shape_update:
  assumes "reg_shape r" "session_of r i = Some c"
    and "rg_objects r' = AList.update i c' (rg_objects r)"
    and "rg_order r' = rg_order r" "rg_nextID r' = rg_nextID r"
    and "distinct (rg_connections r')" "set (rg_connections r') \<subseteq> set (rg_connections r)"
    and "\<And>n. map_option ac_adapter (map_of (rg_adapters r') n) = map_option ac_adapter (map_of (rg_adapters r) n)"
    and "cn_direct c' \<Longrightarrow> cn_adapter c' = []" "cn_adapter c' \<in> insert [] (set (rg_order r))"
    and "\<not> attached c' \<Longrightarrow> cn_bytesUp c' = 0 \<and> cn_bytesDown c' = 0"
  shows "reg_shape r'"
proof -
  have i: "i \<in> fst ` set (rg_objects r)"
    using assms(2) by (metis session_of_def map_of_SomeD image_eqI fst_conv)
  then have keys: "fst ` set (AList.update i c' (rg_objects r)) = fst ` set (rg_objects r)"
    by (simp add: dom_update insert_absorb)
  have ads: "map_of (rg_adapters r') n = None \<longleftrightarrow> map_of (rg_adapters r) n = None" for n
    using assms(8) [of n] by (metis map_option_is_None)
  have nm: "ad_Name (ac_adapter k) = n" if "map_of (rg_adapters r') n = Some k" for n k
    using assms(1) assms(8) [of n] that by (cases "map_of (rg_adapters r) n") (auto simp: reg_shape_def)
  have ses: "session_of r' j = (if j = i then Some c' else session_of r j)" for j
    by (simp add: session_of_def assms(3) update_conv')
  have old: "(cn_direct d \<longrightarrow> cn_adapter d = []) \<and> cn_adapter d \<in> insert [] (set (rg_order r))
      \<and> (\<not> attached d \<longrightarrow> cn_bytesUp d = 0 \<and> cn_bytesDown d = 0)" if "session_of r j = Some d" for j d
    using assms(1) that unfolding reg_shape_def by blast
  have "(cn_direct d \<longrightarrow> cn_adapter d = []) \<and> cn_adapter d \<in> insert [] (set (rg_order r'))
      \<and> (\<not> attached d \<longrightarrow> cn_bytesUp d = 0 \<and> cn_bytesDown d = 0)" if "session_of r' j = Some d" for j d
    using that old [of j d] assms(9-11) unfolding ses assms(4) by (cases "j = i") auto
  moreover have "distinct (map fst (rg_objects r'))" "\<forall>j \<in> fst ` set (rg_objects r'). j \<le> rg_nextID r'"
    "set (rg_connections r') \<subseteq> fst ` set (rg_objects r')"
    using assms(1,7) unfolding assms(3,5) keys by (auto simp: reg_shape_def distinct_update)
  moreover have "n \<in> set (rg_order r') \<longleftrightarrow> map_of (rg_adapters r') n \<noteq> None" for n
    using assms(1) unfolding assms(4) ads by (simp add: reg_shape_def)
  moreover have "distinct (rg_order r')" "[] \<notin> set (rg_order r')"
    using assms(1) unfolding assms(4) by (auto simp: reg_shape_def)
  ultimately show ?thesis using assms(6) nm unfolding reg_shape_def by blast
qed

lemma shapeD:
  assumes "reg_shape r"
  shows "distinct (map fst (rg_objects r))" "map_of (rg_adapters r) [] = None"
    "session_of r i = Some c \<Longrightarrow> cn_direct c \<Longrightarrow> cn_adapter c = []"
    "session_of r i = Some c \<Longrightarrow> cn_adapter c = [] \<or> map_of (rg_adapters r) (cn_adapter c) \<noteq> None"
    "session_of r i = Some c \<Longrightarrow> \<not> attached c \<Longrightarrow> cn_bytesUp c = 0 \<and> cn_bytesDown c = 0"
    "i \<in> set (rg_connections r) \<Longrightarrow> \<exists>c. session_of r i = Some c" "distinct (rg_connections r)"
    "session_of r i = Some c \<Longrightarrow> cn_adapter c \<in> insert [] (set (rg_order r))"
proof -
  note sh = assms [unfolded reg_shape_def]
  show "distinct (map fst (rg_objects r))" "distinct (rg_connections r)" using sh by blast+
  show "map_of (rg_adapters r) [] = None" using sh by blast
  show "session_of r i = Some c \<Longrightarrow> cn_direct c \<Longrightarrow> cn_adapter c = []"
    "session_of r i = Some c \<Longrightarrow> cn_adapter c = [] \<or> map_of (rg_adapters r) (cn_adapter c) \<noteq> None"
    "session_of r i = Some c \<Longrightarrow> \<not> attached c \<Longrightarrow> cn_bytesUp c = 0 \<and> cn_bytesDown c = 0"
    "session_of r i = Some c \<Longrightarrow> cn_adapter c \<in> insert [] (set (rg_order r))"
    using sh by blast+
  show "\<exists>c. session_of r i = Some c" if "i \<in> set (rg_connections r)"
  proof -
    have "i \<in> fst ` set (rg_objects r)" using sh that by blast
    then show ?thesis by (cases "session_of r i") (auto simp: session_of_def map_of_eq_None_iff)
  qed
qed

lemma Attach_inv:
  assumes inv: "reg_inv r" and live: "i \<in> set (rg_connections r)" and c: "session_of r i = Some c"
    and new: "\<not> attached c" and known: "ad_Name a \<in> set (rg_order r)"
  shows "reg_inv (Attach i u t a r)"
proof -
  let ?c = "(connect_session u t c)\<lparr>cn_adapter := ad_Name a\<rparr>" and ?r = "Attach i u t a r"
  have sh: "reg_shape r" and bk: "reg_books r" using inv by (simp_all add: reg_inv_def)
  have objs: "rg_objects ?r = AList.update i ?c (rg_objects r)"
    using c by (simp add: Attach_def set_session_objects)
  have n: "ad_Name a \<noteq> []" "map_of (rg_adapters r) (ad_Name a) \<noteq> None"
    using sh known by (auto simp: reg_shape_def)
  have o: "owner_of c = Unattached" "owner_of ?c = Via (ad_Name a)"
    using new n by (auto simp: owner_of_def attached_def connect_session_def)
  have z: "cn_bytesUp c = 0" "cn_bytesDown c = 0" using shapeD(5) [OF sh c new] by simp_all
  have "reg_shape ?r"
    using shapeD(7) [OF sh] n known new z
    by (intro shape_update [OF sh c objs])
       (auto simp: Attach_def map_of_on_counters attached_def connect_session_def option.map_comp comp_def)
  moreover have "reg_books ?r"
    using n o z live
    by (intro books_update [OF bk shapeD(1) [OF sh] c objs])
       (auto simp: Attach_def view_defs map_of_on_counters live_bit_def connect_session_def split: owner.splits option.splits)
  ultimately show ?thesis by (simp add: reg_inv_def)
qed

lemma AttachDirect_inv:
  assumes inv: "reg_inv r" and live: "i \<in> set (rg_connections r)" and c: "session_of r i = Some c"
    and new: "\<not> attached c"
  shows "reg_inv (AttachDirect i u t r)"
proof -
  let ?c = "(connect_session u t c)\<lparr>cn_adapter := [], cn_direct := True\<rparr>" and ?r = "AttachDirect i u t r"
  have sh: "reg_shape r" and bk: "reg_books r" using inv by (simp_all add: reg_inv_def)
  have objs: "rg_objects ?r = AList.update i ?c (rg_objects r)"
    using c by (simp add: AttachDirect_def set_session_objects)
  have o: "owner_of c = Unattached" "owner_of ?c = Direct"
    using new by (auto simp: owner_of_def attached_def connect_session_def)
  have z: "cn_bytesUp c = 0" "cn_bytesDown c = 0" using shapeD(5) [OF sh c new] by simp_all
  have "reg_shape ?r"
    using shapeD(7) [OF sh] new z
    by (intro shape_update [OF sh c objs]) (auto simp: AttachDirect_def attached_def connect_session_def)
  moreover have "reg_books ?r"
    using o z live
    by (intro books_update [OF bk shapeD(1) [OF sh] c objs])
       (auto simp: AttachDirect_def view_defs live_bit_def connect_session_def split: owner.splits option.splits)
  ultimately show ?thesis by (simp add: reg_inv_def)
qed

lemma AddUp_inv:
  assumes inv: "reg_inv r" and c: "session_of r i = Some c" and att: "attached c"
  shows "reg_inv (AddUp i n r)"
proof (cases "n = 0")
  case False
  let ?c = "c\<lparr>cn_bytesUp := cn_bytesUp c + n\<rparr>" and ?r = "AddUp i n r"
  have sh: "reg_shape r" and bk: "reg_books r" using inv by (simp_all add: reg_inv_def)
  have objs: "rg_objects ?r = AList.update i ?c (rg_objects r)"
    using c False by (simp add: AddUp_def Let_def set_session_objects)
  have k: "cn_adapter c = [] \<longleftrightarrow> cn_direct c" "map_of (rg_adapters r) (cn_adapter c) = None \<longleftrightarrow> cn_direct c"
    using shapeD(2) [OF sh] shapeD(3,4) [OF sh c] att by (auto simp: attached_def)
  have o: "owner_of ?c = owner_of c" "owner_of c = (if cn_direct c then Direct else Via (cn_adapter c))"
    using k by (auto simp: owner_of_def)
  have "reg_shape ?r"
    using shapeD(3,5,8) [OF sh c] shapeD(7) [OF sh] att False c
    by (intro shape_update [OF sh c objs])
       (auto simp: AddUp_def Let_def map_of_on_counters attached_def option.map_comp comp_def reg_shape_def)
  moreover have "reg_books ?r"
    using k o c False
    by (intro books_update [OF bk shapeD(1) [OF sh] c objs])
       (auto simp: AddUp_def Let_def view_defs map_of_on_counters live_bit_def split: owner.splits option.splits)
  ultimately show ?thesis by (simp add: reg_inv_def)
qed (use inv in \<open>simp add: AddUp_def\<close>)

lemma AddDown_inv:
  assumes inv: "reg_inv r" and c: "session_of r i = Some c" and att: "attached c"
  shows "reg_inv (AddDown i n r)"
proof (cases "n = 0")
  case False
  let ?c = "c\<lparr>cn_bytesDown := cn_bytesDown c + n\<rparr>" and ?r = "AddDown i n r"
  have sh: "reg_shape r" and bk: "reg_books r" using inv by (simp_all add: reg_inv_def)
  have objs: "rg_objects ?r = AList.update i ?c (rg_objects r)"
    using c False by (simp add: AddDown_def Let_def set_session_objects)
  have k: "cn_adapter c = [] \<longleftrightarrow> cn_direct c" "map_of (rg_adapters r) (cn_adapter c) = None \<longleftrightarrow> cn_direct c"
    using shapeD(2) [OF sh] shapeD(3,4) [OF sh c] att by (auto simp: attached_def)
  have o: "owner_of ?c = owner_of c" "owner_of c = (if cn_direct c then Direct else Via (cn_adapter c))"
    using k by (auto simp: owner_of_def)
  have "reg_shape ?r"
    using shapeD(3,5,8) [OF sh c] shapeD(7) [OF sh] att False c
    by (intro shape_update [OF sh c objs])
       (auto simp: AddDown_def Let_def map_of_on_counters attached_def option.map_comp comp_def reg_shape_def)
  moreover have "reg_books ?r"
    using k o c False
    by (intro books_update [OF bk shapeD(1) [OF sh] c objs])
       (auto simp: AddDown_def Let_def view_defs map_of_on_counters live_bit_def split: owner.splits option.splits)
  ultimately show ?thesis by (simp add: reg_inv_def)
qed (use inv in \<open>simp add: AddDown_def\<close>)

lemma Finish_inv:
  assumes inv: "reg_inv r" and live: "i \<in> set (rg_connections r)"
  shows "reg_inv (Finish i r)"
proof -
  let ?r = "Finish i r"
  have sh: "reg_shape r" and bk: "reg_books r" using inv by (simp_all add: reg_inv_def)
  obtain c where c: "session_of r i = Some c" using shapeD(6) [OF sh live] by blast
  have c': "session_of (r\<lparr>rg_connections := l\<rparr>) i = Some c" for l using c by (simp add: session_of_def)
  have objs: "rg_objects ?r = AList.update i c (rg_objects r)"
    using c update_same [of "rg_objects r" i c] by (simp add: Finish_def Let_def c') (simp add: session_of_def)
  have k: "cn_adapter c = [] \<longleftrightarrow> cn_direct c \<or> \<not> attached c"
    "map_of (rg_adapters r) (cn_adapter c) = None \<longleftrightarrow> cn_direct c \<or> \<not> attached c"
    using shapeD(2) [OF sh] shapeD(3,4) [OF sh c] by (auto simp: attached_def)
  have o: "owner_of c = (if \<not> attached c then Unattached else if cn_direct c then Direct else Via (cn_adapter c))"
    using k by (auto simp: owner_of_def attached_def)
  have conns: "rg_connections ?r = removeAll i (rg_connections r)"
    by (simp add: Finish_def Let_def c')
  have minus: "x + NOT 0 = x - 1" for x :: uint64 by simp
  have "reg_shape ?r"
    using shapeD [OF sh] c sh
    by (intro shape_update [OF sh c objs])
       (auto simp: Finish_def Let_def c' map_of_on_counters distinct_removeAll option.map_comp comp_def reg_shape_def)
  moreover have "reg_books ?r"
    using k o live
    by (intro books_update [OF bk shapeD(1) [OF sh] c objs])
       (auto simp: conns Finish_def Let_def c' minus view_defs map_of_on_counters live_bit_def attached_def
          split: owner.splits option.splits)
  ultimately show ?thesis by (simp add: reg_inv_def)
qed

lemma word_succ_greater: "x + 1 \<noteq> 0 \<Longrightarrow> x < x + 1" for x :: uint64
  by (metis add.commute lessI unatSuc word_less_nat_alt)

lemma beginAddress_inv:
  assumes inv: "reg_inv r" and ids: "rg_nextID r + 1 \<noteq> 0"
    and b: "beginAddress now p ch ca la client r = (i, r')"
  shows "reg_inv r' \<and> i \<notin> set (rg_connections r) \<and> i \<in> set (rg_connections r')"
proof -
  have sh: "reg_shape r" and bk: "reg_books r" using inv by (simp_all add: reg_inv_def)
  have i: "i = rg_nextID r + 1" using b by (simp add: beginAddress_def Let_def)
  have gt: "rg_nextID r < i" using word_succ_greater [OF ids] i by simp
  have le: "\<forall>j \<in> fst ` set (rg_objects r). j \<le> rg_nextID r" using sh by (simp add: reg_shape_def)
  then have fresh: "i \<notin> fst ` set (rg_objects r)" using gt by force
  then have nl: "i \<notin> set (rg_connections r)" using sh by (auto simp: reg_shape_def)
  define c where "c = new_session now p ch ca la client"
  have c: "owner_of c = Unattached" "cn_adapter c = []" "\<not> cn_direct c" "cn_bytesUp c = 0" "cn_bytesDown c = 0"
    by (simp_all add: c_def new_session_def owner_of_def)
  have r': "r' = r\<lparr>rg_nextID := i, rg_objects := AList.update i c (rg_objects r), rg_connections := rg_connections r @ [i]\<rparr>"
    using b nl i by (auto simp: beginAddress_def Let_def c_def)
  have none: "map_of (rg_objects r) i = None" using fresh by (simp add: map_of_eq_None_iff)
  have "tally g' r' w = tally g r w" if "w \<noteq> Unattached" "\<And>j d. j \<noteq> i \<Longrightarrow> g' (j, d) = g (j, d)" for g g' w
  proof -
    have "sum_list (map (\<lambda>p. if owner_of (snd p) = w then g' p else 0) (rg_objects r))
        = sum_list (map (\<lambda>p. if owner_of (snd p) = w then g p else 0) (rg_objects r))"
      using that(2) fresh by (intro arg_cong [where f = sum_list] map_cong) force+
    then show ?thesis using none that(1) c(1) by (simp add: tally_def r' sum_list_update_new)
  qed
  note t = this
  have "tally (live_bit r') r' w = tally (live_bit r) r w" "tally (cn_bytesUp \<circ> snd) r' w = tally (cn_bytesUp \<circ> snd) r w"
    "tally (cn_bytesDown \<circ> snd) r' w = tally (cn_bytesDown \<circ> snd) r w" if "w \<noteq> Unattached" for w
    by (intro t [OF that]; simp add: live_bit_def r')+
  moreover have "active_of r' = active_of r" "up_of r' = up_of r" "down_of r' = down_of r"
    by (auto simp: view_defs r' fun_eq_iff split: owner.splits)
  ultimately have "reg_books r'" using bk by (simp add: reg_books_def)
  moreover have "reg_shape r'"
  proof -
    have "session_of r' j = (if j = i then Some c else session_of r j)" for j
      by (simp add: session_of_def r' update_conv')
    moreover have ids': "\<forall>j \<in> fst ` set (rg_objects r'). j \<le> rg_nextID r'"
      using le gt by (auto simp: r' dom_update)
    ultimately have "(cn_direct d \<longrightarrow> cn_adapter d = []) \<and> cn_adapter d \<in> insert [] (set (rg_order r))
        \<and> (\<not> attached d \<longrightarrow> cn_bytesUp d = 0 \<and> cn_bytesDown d = 0)" if "session_of r' j = Some d" for j d
      using that c shapeD(3,5,8) [OF sh, of j d] by (cases "j = i") auto
    moreover have eqs: "rg_order r' = rg_order r" "rg_adapters r' = rg_adapters r" by (simp_all add: r')
    moreover have "distinct (map fst (rg_objects r'))" "distinct (rg_connections r')"
      "set (rg_connections r') \<subseteq> fst ` set (rg_objects r')"
      using sh nl by (auto simp: reg_shape_def r' distinct_update dom_update)
    ultimately show ?thesis using sh ids' unfolding reg_shape_def eqs by blast
  qed
  ultimately show ?thesis using nl by (simp add: reg_inv_def r')
qed

definition registry_init :: "registry \<Rightarrow> bool" where
  "registry_init r \<longleftrightarrow> (\<exists>now as. r = newRegistry now as \<and> distinct (map ad_Name as) \<and> [] \<notin> ad_Name ` set as)"

lemma newRegistry_adapters:
  "map_of (fold (\<lambda>a. AList.update (ad_Name a) (new_counters a)) as al) n
     = (case find (\<lambda>a. ad_Name a = n) (rev as) of None \<Rightarrow> map_of al n | Some a \<Rightarrow> Some (new_counters a))"
proof (induction as arbitrary: al)
  case (Cons a as)
  have "find P (xs @ [x]) = (case find P xs of None \<Rightarrow> if P x then Some x else None | Some y \<Rightarrow> Some y)"
    for P :: "adapter \<Rightarrow> bool" and xs x by (induction xs) auto
  then show ?case using Cons by (auto simp: update_conv' split: option.splits)
qed simp

lemma find_SomeD: "find P xs = Some x \<Longrightarrow> x \<in> set xs \<and> P x"
  by (auto simp: find_Some_iff)

lemma newRegistry_inv:
  assumes "distinct (map ad_Name as)" "[] \<notin> ad_Name ` set as"
  shows "reg_inv (newRegistry now as)"
proof -
  have k: "map_of (rg_adapters (newRegistry now as)) n
      = map_option new_counters (find (\<lambda>a. ad_Name a = n) (rev as))" for n
    by (simp add: newRegistry_def newRegistry_adapters option.case_eq_if map_option_case)
  have some: "\<exists>a \<in> set as. ad_Name a = n \<and> c = new_counters a"
    if m: "map_of (rg_adapters (newRegistry now as)) n = Some c" for n c
  proof -
    obtain a where "find (\<lambda>a. ad_Name a = n) (rev as) = Some a" "c = new_counters a"
      using m unfolding k by blast
    then show ?thesis using find_SomeD by fastforce
  qed
  have none: "map_of (rg_adapters (newRegistry now as)) n = None \<longleftrightarrow> n \<notin> ad_Name ` set as" for n
    unfolding k by (auto simp: find_None_iff)
  have "n \<in> ad_Name ` set as \<longleftrightarrow> map_of (rg_adapters (newRegistry now as)) n \<noteq> None" for n
    by (simp add: none)
  moreover have "ad_Name (ac_adapter c) = n" if "map_of (rg_adapters (newRegistry now as)) n = Some c" for n c
    using some [OF that] by (auto simp: new_counters_def)
  moreover have "rg_objects (newRegistry now as) = []" "rg_connections (newRegistry now as) = []"
    "rg_order (newRegistry now as) = map ad_Name as" by (simp_all add: newRegistry_def)
  ultimately have "reg_shape (newRegistry now as)"
    using assms unfolding reg_shape_def session_of_def by simp
  moreover have "counter f 0 (newRegistry now as) w = 0" if "\<And>a. f (new_counters a) = 0" for f w
    using some that by (fastforce simp: counter_def split: owner.splits option.splits)
  then have "reg_books (newRegistry now as)"
    by (simp add: reg_books_def active_of_def up_of_def down_of_def tally_def new_counters_def)
       (simp add: newRegistry_def)
  ultimately show ?thesis by (simp add: reg_inv_def)
qed

text \<open>The registry as a transition system.\<close>

interpretation registry: invariant_system registry_init registry_step reg_inv
proof
  show "reg_inv r" if "registry_init r" for r
    using that by (auto simp: registry_init_def intro: newRegistry_inv)
  show "reg_inv r'" if "reg_inv r" "registry_step r e r'" for r e r'
    using that(2,1)
    by cases (auto intro: Attach_inv AttachDirect_inv AddUp_inv AddDown_inv Finish_inv dest: beginAddress_inv)
qed

section \<open>Telemetry is exact\<close>

lemma sum_list_single:
  fixes x :: "'a::comm_monoid_add"
  shows "distinct ns \<Longrightarrow> sum_list (map (\<lambda>n. if m = n then x else 0) ns) = (if m \<in> set ns then x else 0)"
  by (induction ns) auto

lemma sum_over_owners:
  fixes g :: "'p \<Rightarrow> uint64"
  assumes "distinct ns" "\<And>p. p \<in> set ps \<Longrightarrow> own p \<in> {Unattached, Direct} \<union> Via ` set ns"
  shows "sum_list (map (\<lambda>n. sum_list (map (\<lambda>p. if own p = Via n then g p else 0) ps)) ns)
      + sum_list (map (\<lambda>p. if own p = Direct then g p else 0) ps)
    = sum_list (map (\<lambda>p. if own p = Unattached then 0 else g p) ps)"
  using assms(2)
proof (induction ps)
  case (Cons p ps)
  have "sum_list (map (\<lambda>n. if own p = Via n then g p else 0) ns) + (if own p = Direct then g p else 0)
      = (if own p = Unattached then 0 else g p)"
    using Cons.prems [of p] assms(1)
    by (cases "own p") (auto simp: sum_list_single)
  then show ?case using Cons by (simp add: sum_list_addf algebra_simps)
qed simp

lemma tally_total:
  assumes "reg_shape r"
  shows "sum_list (map (\<lambda>n. tally g r (Via n)) (rg_order r)) + tally g r Direct
    = sum_list (map (\<lambda>p. if owner_of (snd p) = Unattached then 0 else g p) (rg_objects r))"
  unfolding tally_def
proof (rule sum_over_owners)
  show "distinct (rg_order r)" using assms by (simp add: reg_shape_def)
  fix p assume "p \<in> set (rg_objects r)"
  then have "session_of r (fst p) = Some (snd p)"
    using shapeD(1) [OF assms] by (simp add: session_of_def map_of_is_SomeI)
  from shapeD(8) [OF assms this]
  show "owner_of (snd p) \<in> {Unattached, Direct} \<union> Via ` set (rg_order r)"
    by (auto simp: owner_of_def)
qed

lemma items_views:
  assumes "reg_shape r" "item \<in> set (items_of r)"
  shows "at_Name item \<in> set (rg_order r) \<and> at_Connections item = active_of r (Via (at_Name item))
    \<and> at_BytesUp item = up_of r (Via (at_Name item)) \<and> at_BytesDown item = down_of r (Via (at_Name item))"
  using assms by (auto simp: items_of_def adapter_item_def view_defs reg_shape_def)

lemma foldl_items:
  assumes "reg_shape r"
  shows "foldl (\<lambda>t i. t + at_Connections i) 0 (items_of r) = sum_list (map (\<lambda>n. active_of r (Via n)) (rg_order r))"
    "foldl (\<lambda>t i. t + at_BytesUp i) 0 (items_of r) = sum_list (map (\<lambda>n. up_of r (Via n)) (rg_order r))"
    "foldl (\<lambda>t i. t + at_BytesDown i) 0 (items_of r) = sum_list (map (\<lambda>n. down_of r (Via n)) (rg_order r))"
proof -
  have fold: "foldl (\<lambda>t i. t + f i) a xs = a + sum_list (map f xs)" for f :: "adapter_telemetry \<Rightarrow> uint64" and a xs
    by (induction xs arbitrary: a) (auto simp: algebra_simps)
  have "f (the (map_of (rg_adapters r) n)) = (case map_of (rg_adapters r) n of None \<Rightarrow> 0 | Some k \<Rightarrow> f k)"
    if "n \<in> set (rg_order r)" for n and f :: "adapter_counters \<Rightarrow> uint64"
    using assms that by (cases "map_of (rg_adapters r) n") (auto simp: reg_shape_def)
  then show "foldl (\<lambda>t i. t + at_Connections i) 0 (items_of r) = sum_list (map (\<lambda>n. active_of r (Via n)) (rg_order r))"
    "foldl (\<lambda>t i. t + at_BytesUp i) 0 (items_of r) = sum_list (map (\<lambda>n. up_of r (Via n)) (rg_order r))"
    "foldl (\<lambda>t i. t + at_BytesDown i) 0 (items_of r) = sum_list (map (\<lambda>n. down_of r (Via n)) (rg_order r))"
    unfolding fold items_of_def
    by (auto intro!: arg_cong [where f = sum_list] map_cong simp: adapter_item_def view_defs comp_def)
qed

text \<open>The number of live sessions with a property of their state.\<close>

definition live_count :: "(connection \<Rightarrow> bool) \<Rightarrow> registry \<Rightarrow> nat" where
  "live_count P r = length (filter (\<lambda>(i, c). i \<in> set (rg_connections r) \<and> P c) (rg_objects r))"

lemma count_sum: "sum_list (map (\<lambda>p. if P p then 1 else 0) xs) = (of_nat (length (filter P xs)) :: uint64)"
  by (induction xs) auto

lemma live_count_sum:
  "sum_list (map (\<lambda>p. if P (snd p) then live_bit r p else 0) (rg_objects r)) = of_nat (live_count P r)"
proof -
  have "(\<lambda>p. if P (snd p) then live_bit r p else 0)
      = (\<lambda>p. if (case p of (i, c) \<Rightarrow> i \<in> set (rg_connections r) \<and> P c) then 1 else (0 :: uint64))"
    by (auto simp: fun_eq_iff live_bit_def)
  then show ?thesis by (simp only: count_sum live_count_def)
qed

lemma live_ids:
  assumes "\<And>i. i \<in> set (rg_connections r) \<Longrightarrow> \<exists>c. session_of r i = Some c"
  shows "map fst (live_sessions r) = rg_connections r"
proof -
  have "map fst (concat (map (\<lambda>i. case session_of r i of None \<Rightarrow> [] | Some c \<Rightarrow> [(i, c)]) l)) = l"
    if "\<And>i. i \<in> set l \<Longrightarrow> \<exists>c. session_of r i = Some c" for l
    using that
  proof (induction l)
    case (Cons i l)
    then obtain c where "session_of r i = Some c" by auto
    then show ?case using Cons by simp
  qed simp
  then show ?thesis using assms unfolding live_sessions_def by blast
qed

text \<open>
  C3. Telemetry is exact after any interleaving of session operations: each adapter reports
  the number of live sessions attached to it and the bytes of all sessions ever attached to
  it; the totals are the number of live attached sessions and the bytes of all sessions,
  modulo \<open>2 ^ 64\<close>; and the connection list has each live session once.
\<close>

theorem registry_telemetry_exact:
  fixes now :: go_time
  assumes "reach registry_init registry_step r"
  defines "snap \<equiv> registry_snapshot now True r"
  shows "(\<forall>item \<in> set (ts_Adapters snap).
        at_Connections item = of_nat (live_count (\<lambda>c. owner_of c = Via (at_Name item)) r)
        \<and> at_BytesUp item = tally (cn_bytesUp \<circ> snd) r (Via (at_Name item))
        \<and> at_BytesDown item = tally (cn_bytesDown \<circ> snd) r (Via (at_Name item)))
    \<and> ts_TotalConnections snap = of_nat (live_count attached r)
    \<and> ts_TotalBytesUp snap = sum_list (map (cn_bytesUp \<circ> snd) (rg_objects r))
    \<and> ts_TotalBytesDown snap = sum_list (map (cn_bytesDown \<circ> snd) (rg_objects r))
    \<and> map cs_ID (ts_Connections snap) = rg_connections r \<and> distinct (map cs_ID (ts_Connections snap))"
proof -
  have sh: "reg_shape r" and bk: "reg_books r"
    using registry.reach_inv [OF assms(1)] by (simp_all add: reg_inv_def)
  have via: "Via n \<noteq> Unattached" for n by simp
  have att: "owner_of c = Unattached \<longleftrightarrow> \<not> attached c" for c by (simp add: owner_of_def attached_def)
  have books: "active_of r w = tally (live_bit r) r w" "up_of r w = tally (cn_bytesUp \<circ> snd) r w"
    "down_of r w = tally (cn_bytesDown \<circ> snd) r w" if "w \<noteq> Unattached" for w
    using bk that by (simp_all add: reg_books_def)
  have live: "tally (live_bit r) r w = of_nat (live_count (\<lambda>c. owner_of c = w) r)" for w
    unfolding tally_def by (rule live_count_sum)
  have "\<forall>item \<in> set (ts_Adapters snap).
        at_Connections item = of_nat (live_count (\<lambda>c. owner_of c = Via (at_Name item)) r)
        \<and> at_BytesUp item = tally (cn_bytesUp \<circ> snd) r (Via (at_Name item))
        \<and> at_BytesDown item = tally (cn_bytesDown \<circ> snd) r (Via (at_Name item))"
    using items_views [OF sh] by (simp add: snap_def registry_snapshot_def books [OF via] live)
  moreover have direct: "rg_directActive r = tally (live_bit r) r Direct"
    "rg_directBytesUp r = tally (cn_bytesUp \<circ> snd) r Direct"
    "rg_directBytesDown r = tally (cn_bytesDown \<circ> snd) r Direct"
    using books [of Direct] by (simp_all add: view_defs)
  note total = snap_def registry_snapshot_def foldl_items [OF sh] books [OF via] direct tally_total [OF sh]
  have "ts_TotalConnections snap = of_nat (live_count attached r)"
  proof -
    have "(\<lambda>p. if owner_of (snd p) = Unattached then 0 else live_bit r p)
        = (\<lambda>p. if attached (snd p) then live_bit r p else 0)" by (simp add: att fun_eq_iff)
    then show ?thesis using live_count_sum [of attached r] by (simp add: total)
  qed
  moreover have zero: "owner_of (snd p) = Unattached \<Longrightarrow> cn_bytesUp (snd p) = 0 \<and> cn_bytesDown (snd p) = 0"
    if "p \<in> set (rg_objects r)" for p
    using that shapeD(1) [OF sh] shapeD(5) [OF sh, of "fst p" "snd p"]
    by (simp add: att session_of_def map_of_is_SomeI)
  have "ts_TotalBytesUp snap = sum_list (map (cn_bytesUp \<circ> snd) (rg_objects r))"
    "ts_TotalBytesDown snap = sum_list (map (cn_bytesDown \<circ> snd) (rg_objects r))"
    using zero by (auto simp: total intro!: arg_cong [where f = sum_list] map_cong)
  moreover have "map cs_ID (ts_Connections snap) = rg_connections r"
    using shapeD(6) [OF sh] live_ids [of r]
    by (simp add: snap_def registry_snapshot_def connection_item_def comp_def case_prod_unfold)
  ultimately show ?thesis using shapeD(7) [OF sh] by simp
qed

section \<open>Example\<close>

definition example_conn :: net_conn where
  "example_conn = \<lparr>nc_id = 7, nc_RemoteAddr = Some ''10.0.0.9:80'', nc_LocalAddr = None\<rparr>"

definition example_history :: registry where
  "example_history =
     AddUp 1 500 (Attach 1 example_conn ''x.org:80'' (example_adapter ''eth'' ''10.0.0.2'' 3)
       (snd (beginAddress 3 ''socks5'' [] ''c'' ''l'' example_conn (newRegistry 0 example_pair))))"

lemma session_of_Attach:
  "session_of r i = Some c \<Longrightarrow>
     session_of (Attach i u t a r) i = Some ((connect_session u t c)\<lparr>cn_adapter := ad_Name a\<rparr>)"
  by (simp add: Attach_def session_of_def set_session_objects update_conv')

lemma example_history_reach: "reach registry_init registry_step example_history"
proof -
  define r0 where "r0 = newRegistry 0 example_pair"
  define s1 where "s1 = new_session 3 ''socks5'' [] ''c'' ''l'' example_conn"
  define r1 where "r1 = snd (beginAddress 3 ''socks5'' [] ''c'' ''l'' example_conn r0)"
  define a where "a = example_adapter ''eth'' ''10.0.0.2'' 3"
  define r2 where "r2 = Attach 1 example_conn ''x.org:80'' a r1"
  have "distinct (map ad_Name example_pair)" "[] \<notin> ad_Name ` set example_pair"
    by (simp_all add: example_pair_def example_adapter_def)
  then have r0: "reach registry_init registry_step r0"
    by (intro reach_init) (auto simp: registry_init_def r0_def)
  have b: "beginAddress 3 ''socks5'' [] ''c'' ''l'' example_conn r0 = (1, r1)"
    and c1: "session_of r1 1 = Some s1" "1 \<in> set (rg_connections r1)" and o: "rg_order r1 = map ad_Name example_pair"
    by (simp_all add: r1_def r0_def s1_def newRegistry_def beginAddress_def Let_def session_of_def)
  have "rg_nextID r0 + 1 \<noteq> 0" by (simp add: r0_def newRegistry_def)
  then have r1: "reach registry_init registry_step r1" by (rule reach_step [OF r0 step_begin [OF _ b]])
  have n: "ad_Name a = ''eth''" by (simp add: a_def example_adapter_def)
  have "\<not> attached s1" by (simp add: s1_def new_session_def attached_def)
  moreover have "ad_Name a \<in> set (rg_order r1)" by (simp add: o n) (simp add: example_pair_def example_adapter_def)
  ultimately have r2: "reach registry_init registry_step r2"
    unfolding r2_def by (rule reach_step [OF r1 step_attach [OF c1(2,1)]])
  have "session_of r2 1 = Some ((connect_session example_conn ''x.org:80'' s1)\<lparr>cn_adapter := ''eth''\<rparr>)"
    using session_of_Attach [OF c1(1), of example_conn "''x.org:80''" a] by (simp add: r2_def n)
  moreover have "attached ((connect_session example_conn ''x.org:80'' s1)\<lparr>cn_adapter := ''eth''\<rparr>)"
    by (simp add: attached_def)
  ultimately have "reach registry_init registry_step (AddUp 1 500 r2)" by (rule reach_step [OF r2 step_up])
  then show ?thesis by (simp add: example_history_def r2_def a_def r1_def r0_def)
qed

theorem registry_telemetry_exact_witness:
  "reach registry_init registry_step example_history
   \<and> ts_TotalBytesUp (registry_snapshot 9 True example_history) = 500
   \<and> sum_list (map (cn_bytesUp \<circ> snd) (rg_objects example_history)) = 500"
proof -
  have "sum_list (map (cn_bytesUp \<circ> snd) (rg_objects example_history)) = 500" by code_simp
  moreover have "ts_TotalBytesUp (registry_snapshot 9 True example_history)
      = sum_list (map (cn_bytesUp \<circ> snd) (rg_objects example_history))"
    using registry_telemetry_exact [OF example_history_reach, of 9] by blast
  ultimately show ?thesis using example_history_reach by simp
qed

end
