(* ===== verification/Dns_Wire.thy ===== *)
theory Dns_Wire
  imports Dns_Config
begin

text \<open>
  \<open>engine/internal/dns/wire.go\<close>: record types, domain names, the query encoder and the
  response parser, on byte lists. Every index and slice expression of the parser is a read that is
  undefined out of range, and an undefined read is the error value \<open>NamePanic\<close> or \<open>Panic\<close>, which no caller
  turns into another error; the theorems show that it never happens. The IDNA conversion (package \<open>golang.org/x/net/idna\<close>) is the
  parameter \<open>to_ascii\<close>, and the random query id is an argument.
\<close>

section \<open>Big-endian integers\<close>

definition be16 :: "byte \<Rightarrow> byte \<Rightarrow> uint16" where
  "be16 hi lo = push_bit 8 (ucast hi) OR ucast lo"

definition put16 :: "uint16 \<Rightarrow> byte list" where
  "put16 v = [ucast (drop_bit 8 v), ucast v]"

definition be32 :: "byte \<Rightarrow> byte \<Rightarrow> byte \<Rightarrow> byte \<Rightarrow> uint32" where
  "be32 a b c d = push_bit 24 (ucast a) OR push_bit 16 (ucast b) OR push_bit 8 (ucast c) OR ucast d"

definition u16_at :: "byte list \<Rightarrow> nat \<Rightarrow> uint16 option" where
  "u16_at p off = (if off + 2 \<le> length p then Some (be16 (p ! off) (p ! (off + 1))) else None)"

definition u32_at :: "byte list \<Rightarrow> nat \<Rightarrow> uint32 option" where
  "u32_at p off =
     (if off + 4 \<le> length p
      then Some (be32 (p ! off) (p ! (off + 1)) (p ! (off + 2)) (p ! (off + 3))) else None)"

definition slice :: "byte list \<Rightarrow> nat \<Rightarrow> nat \<Rightarrow> byte list option" where
  "slice p from len = (if from + len \<le> length p then Some (take len (drop from p)) else None)"

definition byte_at :: "byte list \<Rightarrow> nat \<Rightarrow> byte option" where
  "byte_at p off = (if off < length p then Some (p ! off) else None)"

section \<open>Model\<close>

definition dnsTypeA :: uint16 where "dnsTypeA = 1"
definition dnsTypeAAAA :: uint16 where "dnsTypeAAAA = 28"

datatype record_type = RecordA | RecordAAAA

record wire_answer =
  wa_Address :: string
  wa_TTL :: duration

datatype wire_error =
    UnsupportedRecordType string
  | IdnaError | InvalidDomainLength | InvalidLabelLength | LabelHyphen | LabelNotAscii
  | RandFailed
  | ShortResponse | MismatchedID | NotResponse | TruncatedResponse | ResponseCode uint16
  | MalformedQuestion | MalformedAnswer | TruncatedAnswerData | NoAddressRecord
  | Panic

datatype name_error =
    TruncatedName | TruncatedPointer | InvalidPointer | InvalidLabel | TruncatedLabel | TooManyLabels
  | NamePanic

definition normalizeRecordType :: "string \<Rightarrow> wire_error + record_type \<times> uint16" where
  "normalizeRecordType value =
     (let v = to_upper (trim_space value)
      in if v = [] \<or> v = ''A'' then Inr (RecordA, dnsTypeA)
         else if v = ''AAAA'' then Inr (RecordAAAA, dnsTypeAAAA)
         else Inl (UnsupportedRecordType value))"

definition label_char :: "char \<Rightarrow> bool" where
  "label_char c \<longleftrightarrow>
     (let n = (of_char c :: nat) in 97 \<le> n \<and> n \<le> 122 \<or> 48 \<le> n \<and> n \<le> 57 \<or> c = CHR ''-'')"

fun check_labels :: "string list \<Rightarrow> wire_error option" where
  "check_labels [] = None"
| "check_labels (l # ls) =
     (if length l = 0 \<or> length l > 63 then Some InvalidLabelLength
      else if l ! 0 = CHR ''-'' \<or> l ! (length l - 1) = CHR ''-'' then Some LabelHyphen
      else if \<not> list_all label_char l then Some LabelNotAscii
      else check_labels ls)"

definition normalize_dns_domain :: "(string \<Rightarrow> string option) \<Rightarrow> string \<Rightarrow> wire_error + string" where
  "normalize_dns_domain to_ascii value =
     (let raw = trim_suffix (trim_space value) ''.''
      in case to_ascii raw of
           None \<Rightarrow> Inl IdnaError
         | Some ascii \<Rightarrow>
             let name = to_lower ascii
             in if name = [] \<or> length name > 253 then Inl InvalidDomainLength
                else case check_labels (split_on CHR ''.'' name) of
                       Some e \<Rightarrow> Inl e
                     | None \<Rightarrow> Inr name)"

definition bytes_of :: "string \<Rightarrow> byte list" where
  "bytes_of s = map (\<lambda>c. of_nat (of_char c)) s"

definition encode_name :: "string list \<Rightarrow> byte list" where
  "encode_name labels = concat (map (\<lambda>l. of_nat (length l) # bytes_of l) labels) @ [0]"

definition buildQuery ::
    "(string \<Rightarrow> string option) \<Rightarrow> uint16 option \<Rightarrow> string \<Rightarrow> uint16 \<Rightarrow> wire_error + byte list \<times> uint16" where
  "buildQuery to_ascii rand domain recordType =
     (case normalize_dns_domain to_ascii domain of
        Inl e \<Rightarrow> Inl e
      | Inr name \<Rightarrow>
          (case rand of
             None \<Rightarrow> Inl RandFailed
           | Some queryID \<Rightarrow> Inr
               (put16 queryID @ put16 0x0100 @ put16 1 @ put16 0 @ put16 0 @ put16 0
                 @ encode_name (split_on CHR ''.'' name) @ put16 recordType @ put16 1, queryID)))"

fun skip_name_loop :: "nat \<Rightarrow> byte list \<Rightarrow> nat \<Rightarrow> name_error + nat" where
  "skip_name_loop 0 packet off = Inl TooManyLabels"
| "skip_name_loop (Suc n) packet off =
     (if off \<ge> length packet then Inl TruncatedName
      else
        (case byte_at packet off of
           None \<Rightarrow> Inl NamePanic
         | Some b \<Rightarrow>
             if b = 0 then Inr (off + 1)
             else if b AND 0xc0 = 0xc0 then
               (if off + 1 \<ge> length packet then Inl TruncatedPointer
                else
                  (case byte_at packet (off + 1) of
                     None \<Rightarrow> Inl NamePanic
                   | Some c \<Rightarrow>
                       if (push_bit 8 (unat (b AND 0x3f)) OR unat c) \<ge> length packet then Inl InvalidPointer
                       else Inr (off + 2)))
             else if b AND 0xc0 \<noteq> 0 \<or> unat b > 63 then Inl InvalidLabel
             else if off + 1 + unat b > length packet then Inl TruncatedLabel
             else skip_name_loop n packet (off + 1 + unat b)))"

definition skipName :: "byte list \<Rightarrow> nat \<Rightarrow> name_error + nat" where
  "skipName packet off = skip_name_loop 129 packet off"

text \<open>A caller replaces the error, but does not catch a panic.\<close>

definition name_failure :: "wire_error \<Rightarrow> name_error \<Rightarrow> wire_error" where
  "name_failure error e = (if e = NamePanic then Panic else error)"

definition isFakeIPv4 :: "ip \<Rightarrow> bool" where
  "isFakeIPv4 ip \<longleftrightarrow>
     (case to4 ip of
        None \<Rightarrow> False
      | Some v \<Rightarrow> v ! 0 = 198 \<and> (v ! 1 = 18 \<or> v ! 1 = 19))"

fun questions_loop :: "nat \<Rightarrow> byte list \<Rightarrow> nat \<Rightarrow> wire_error + nat" where
  "questions_loop 0 packet off = Inr off"
| "questions_loop (Suc n) packet off =
     (case skipName packet off of
        Inl e \<Rightarrow> Inl (name_failure MalformedQuestion e)
      | Inr off' \<Rightarrow>
          if off' + 4 > length packet then Inl MalformedQuestion
          else questions_loop n packet (off' + 4))"

text \<open>The address of a record with the wanted class and type, if it is usable.\<close>

definition usable_address :: "uint16 \<Rightarrow> byte list \<Rightarrow> ip option" where
  "usable_address recordType data =
     (if recordType = dnsTypeA \<and> length data = 4 then
        (if isFakeIPv4 data then None else to4 data)
      else if recordType = dnsTypeAAAA \<and> length data = 16 then Some data
      else None)"

text \<open>
  One answer record at an offset: the offset behind it and, when the record has the wanted
  class and type and a usable address, the answer it gives.
\<close>

definition read_answer ::
    "byte list \<Rightarrow> uint16 \<Rightarrow> nat \<Rightarrow> wire_error + nat \<times> wire_answer option" where
  "read_answer packet recordType off =
     (case skipName packet off of
        Inl e \<Rightarrow> Inl (name_failure MalformedAnswer e)
      | Inr o1 \<Rightarrow>
          if o1 + 10 > length packet then Inl MalformedAnswer
          else
            (case (u16_at packet o1, u16_at packet (o1 + 2), u32_at packet (o1 + 4), u16_at packet (o1 + 8)) of
               (Some answerType, Some cls, Some ttlSeconds, Some rdlength) \<Rightarrow>
                 let len = unat rdlength; o2 = o1 + 10
                 in if o2 + len > length packet then Inl TruncatedAnswerData
                    else
                      (case slice packet o2 len of
                         None \<Rightarrow> Inl Panic
                       | Some data \<Rightarrow>
                           Inr (o2 + len,
                             if cls \<noteq> 1 \<or> answerType \<noteq> recordType then None
                             else map_option
                                    (\<lambda>ip. \<lparr>wa_Address = ip_string ip, wa_TTL = int (unat ttlSeconds) * Second\<rparr>)
                                    (usable_address recordType data)))
             | _ \<Rightarrow> Inl Panic))"

fun answers_loop :: "nat \<Rightarrow> byte list \<Rightarrow> uint16 \<Rightarrow> nat \<Rightarrow> wire_answer \<Rightarrow> wire_error + wire_answer" where
  "answers_loop 0 packet recordType off best = Inr best"
| "answers_loop (Suc n) packet recordType off best =
     (case read_answer packet recordType off of
        Inl e \<Rightarrow> Inl e
      | Inr (off', None) \<Rightarrow> answers_loop n packet recordType off' best
      | Inr (off', Some a) \<Rightarrow>
          answers_loop n packet recordType off'
            (if wa_Address best = [] \<or> wa_TTL a < wa_TTL best then a else best))"

definition parseResponse :: "byte list \<Rightarrow> uint16 \<Rightarrow> uint16 \<Rightarrow> wire_error + wire_answer" where
  "parseResponse packet queryID recordType =
     (if length packet < 12 then Inl ShortResponse
      else
        (case (u16_at packet 0, u16_at packet 2, u16_at packet 4, u16_at packet 6) of
           (Some respID, Some flags, Some questionCount, Some answerCount) \<Rightarrow>
             if respID \<noteq> queryID then Inl MismatchedID
             else if flags AND 0x8000 = 0 then Inl NotResponse
             else if flags AND 0x0200 \<noteq> 0 then Inl TruncatedResponse
             else if flags AND 0x000f \<noteq> 0 then Inl (ResponseCode (flags AND 0x000f))
             else
               (case questions_loop (unat questionCount) packet 12 of
                  Inl e \<Rightarrow> Inl e
                | Inr off \<Rightarrow>
                    (case answers_loop (unat answerCount) packet recordType off
                            \<lparr>wa_Address = [], wa_TTL = 0\<rparr> of
                       Inl e \<Rightarrow> Inl e
                     | Inr best \<Rightarrow>
                         if wa_Address best = [] then Inl NoAddressRecord else Inr best))
         | _ \<Rightarrow> Inl Panic))"

section \<open>Reference parser\<close>

text \<open>
  The reference follows the grammar of a DNS message (RFC 1035) on the bytes that are left, in numbers: a name is a
  chain of labels of at most 63 bytes that ends with an empty one or with a pointer into the message; a question is a name and four
  bytes; a resource is a name, type, class, TTL and counted data. It first collects all resources and then takes, of those that
  are asked for, the first one of least TTL.
\<close>

definition num2 :: "byte \<Rightarrow> byte \<Rightarrow> nat" where
  "num2 a b = 256 * unat a + unat b"

definition num4 :: "byte \<Rightarrow> byte \<Rightarrow> byte \<Rightarrow> byte \<Rightarrow> nat" where
  "num4 a b c d = 65536 * num2 a b + num2 c d"

fun after_name :: "nat \<Rightarrow> nat \<Rightarrow> byte list \<Rightarrow> byte list option" where
  "after_name whole 0 bytes = None"
| "after_name whole (Suc n) [] = None"
| "after_name whole (Suc n) (b # bytes) =
     (if unat b = 0 then Some bytes
      else if unat b < 64 then (if length bytes < unat b then None else after_name whole n (drop (unat b) bytes))
      else if unat b < 192 then None
      else (case bytes of
              [] \<Rightarrow> None
            | c # rest \<Rightarrow> if 256 * (unat b - 192) + unat c < whole then Some rest else None))"

fun after_questions :: "nat \<Rightarrow> nat \<Rightarrow> byte list \<Rightarrow> byte list option" where
  "after_questions whole 0 bytes = Some bytes"
| "after_questions whole (Suc n) bytes =
     (case after_name whole 129 bytes of
        Some (_ # _ # _ # _ # rest) \<Rightarrow> after_questions whole n rest
      | _ \<Rightarrow> None)"

type_synonym resource = "nat \<times> nat \<times> nat \<times> byte list"

fun resources :: "nat \<Rightarrow> nat \<Rightarrow> byte list \<Rightarrow> wire_error + resource list" where
  "resources whole 0 bytes = Inr []"
| "resources whole (Suc n) bytes =
     (case after_name whole 129 bytes of
        Some (t1 # t2 # c1 # c2 # l1 # l2 # l3 # l4 # d1 # d2 # rest) \<Rightarrow>
          if length rest < num2 d1 d2 then Inl TruncatedAnswerData
          else
            (case resources whole n (drop (num2 d1 d2) rest) of
               Inl e \<Rightarrow> Inl e
             | Inr rs \<Rightarrow> Inr ((num2 t1 t2, num2 c1 c2, num4 l1 l2 l3 l4, take (num2 d1 d2) rest) # rs))
      | _ \<Rightarrow> Inl MalformedAnswer)"

text \<open>The Internet class; an address of the benchmark network 198.18.0.0/15 is no answer.\<close>

definition wanted_address :: "nat \<Rightarrow> resource \<Rightarrow> wire_answer option" where
  "wanted_address rt = (\<lambda>(type, cls, ttl, data).
     if cls \<noteq> 1 \<or> type \<noteq> rt then None
     else if rt = 1 \<and> length data = 4 \<and> \<not> (unat (data ! 0) = 198 \<and> unat (data ! 1) div 2 = 9)
       then Some \<lparr>wa_Address = join_with ''.'' (map (\<lambda>b. nat_str (unat b)) data), wa_TTL = int ttl * 1000000000\<rparr>
     else if rt = 28 \<and> length data = 16 then Some \<lparr>wa_Address = ip_string data, wa_TTL = int ttl * 1000000000\<rparr>
     else None)"

fun first_least :: "wire_answer list \<Rightarrow> wire_answer option" where
  "first_least [] = None"
| "first_least (a # as) =
     (case first_least as of
        None \<Rightarrow> Some a
      | Some b \<Rightarrow> if wa_TTL b < wa_TTL a then Some b else Some a)"

definition reference_parse :: "byte list \<Rightarrow> uint16 \<Rightarrow> uint16 \<Rightarrow> wire_error + wire_answer" where
  "reference_parse packet queryID rt =
     (case packet of
        i1 # i2 # f1 # f2 # q1 # q2 # a1 # a2 # _ # _ # _ # _ # body \<Rightarrow>
          if num2 i1 i2 \<noteq> unat queryID then Inl MismatchedID
          else if unat f1 < 128 then Inl NotResponse
          else if odd (unat f1 div 2) then Inl TruncatedResponse
          else if unat f2 mod 16 \<noteq> 0 then Inl (ResponseCode (of_nat (unat f2 mod 16)))
          else
            (case after_questions (length packet) (num2 q1 q2) body of
               None \<Rightarrow> Inl MalformedQuestion
             | Some rest \<Rightarrow>
                 (case resources (length packet) (num2 a1 a2) rest of
                    Inl e \<Rightarrow> Inl e
                  | Inr rs \<Rightarrow>
                      (case first_least (List.map_filter (wanted_address (unat rt)) rs) of
                         None \<Rightarrow> Inl NoAddressRecord
                       | Some b \<Rightarrow> Inr b)))
      | _ \<Rightarrow> Inl ShortResponse)"

section \<open>Numbers\<close>

lemma all_bytes: "(\<forall>b \<in> set (map of_nat [0..<256]). P (b :: byte)) \<Longrightarrow> P b"
proof -
  assume all: "\<forall>b \<in> set (map of_nat [0..<256]). P (b :: byte)"
  have "b = of_nat (unat b)" "unat b \<in> set [0..<256]" using unsigned_less [of b, where ?'a = nat] by simp_all
  then have "b \<in> set (map of_nat [0..<256])" by (metis image_eqI list.set_map)
  with all show "P b" by blast
qed

lemma byte_kinds:
  "(b :: byte) AND 0xc0 = 0xc0 \<longleftrightarrow> 192 \<le> unat b" "b AND 0xc0 \<noteq> 0 \<longleftrightarrow> 64 \<le> unat b"
  "192 \<le> unat b \<Longrightarrow> unat (b AND 0x3f) = unat b - 192" "(b :: byte) = 0 \<longleftrightarrow> unat b = 0"
proof -
  have "((b :: byte) AND 0xc0 = 0xc0 \<longleftrightarrow> 192 \<le> unat b) \<and> (b AND 0xc0 \<noteq> 0 \<longleftrightarrow> 64 \<le> unat b)
      \<and> (192 \<le> unat b \<longrightarrow> unat (b AND 0x3f) = unat b - 192)"
    by (rule all_bytes) code_simp
  then show "(b :: byte) AND 0xc0 = 0xc0 \<longleftrightarrow> 192 \<le> unat b" "b AND 0xc0 \<noteq> 0 \<longleftrightarrow> 64 \<le> unat b"
    "192 \<le> unat b \<Longrightarrow> unat (b AND 0x3f) = unat b - 192" by blast+
  show "b = 0 \<longleftrightarrow> unat b = 0" by (simp add: unat_eq_0)
qed

lemma push_or_add: "n < 2 ^ k \<Longrightarrow> push_bit k m OR n = (m :: nat) * 2 ^ k + n"
proof -
  assume n: "n < 2 ^ k"
  have "push_bit k m + n = push_bit k m OR n"
  proof (rule disjunctive_add)
    fix i
    show "\<not> bit (push_bit k m) i \<or> \<not> bit n i"
    proof (cases "i < k")
      case False
      then have "n < 2 ^ i" using n by (meson less_le_trans not_le one_le_numeral power_increasing)
      then show ?thesis by (simp add: bit_iff_odd)
    qed (simp add: bit_push_bit_iff)
  qed
  then show ?thesis by (simp add: push_bit_eq_mult)
qed


lemma unat_be16: "unat (be16 a b) = num2 a b"
proof -
  have lt: "unat b < 256" using unsigned_less [of b, where ?'a = nat] by simp
  have la: "unat a < 256" using unsigned_less [of a, where ?'a = nat] by simp
  have "unat (be16 a b) = push_bit 8 (unat a) OR unat b"
    using la lt by (simp add: be16_def unsigned_or_eq unsigned_push_bit_eq unsigned_ucast_eq take_bit_push_bit take_bit_nat_eq_self)
  also have "\<dots> = num2 a b" using push_or_add [of "unat b" 8 "unat a"] lt by (simp add: num2_def)
  finally show ?thesis .
qed

lemma unat_be32: "unat (be32 a b c d) = num4 a b c d"
proof -
  have lt: "unat a < 256" "unat b < 256" "unat c < 256" "unat d < 256"
    using unsigned_less [of a, where ?'a = nat] unsigned_less [of b, where ?'a = nat] unsigned_less [of c, where ?'a = nat]
      unsigned_less [of d, where ?'a = nat] by simp_all
  have "unat (be32 a b c d) = ((push_bit 24 (unat a) OR push_bit 16 (unat b)) OR push_bit 8 (unat c)) OR unat d"
    using lt by (simp add: be32_def unsigned_or_eq unsigned_push_bit_eq unsigned_ucast_eq take_bit_push_bit take_bit_nat_eq_self or.assoc)
  also have "push_bit 24 (unat a) OR push_bit 16 (unat b) = push_bit 16 (push_bit 8 (unat a) OR unat b)"
    by (simp add: push_bit_or)
  also have "push_bit 8 (unat a) OR unat b = num2 a b"
    using push_or_add [of "unat b" 8 "unat a"] lt(2) by (simp add: num2_def)
  also have "(push_bit 16 (num2 a b) OR push_bit 8 (unat c)) OR unat d = push_bit 16 (num2 a b) OR (push_bit 8 (unat c) OR unat d)"
    by (simp add: or.assoc)
  also have "push_bit 8 (unat c) OR unat d = num2 c d"
    using push_or_add [of "unat d" 8 "unat c"] lt(4) by (simp add: num2_def)
  also have "push_bit 16 (num2 a b) OR num2 c d = num4 a b c d"
    using push_or_add [of "num2 c d" 16 "num2 a b"] lt(3,4) by (simp add: num2_def num4_def)
  finally show ?thesis .
qed

lemma flag_bits:
  "be16 f1 f2 AND 0x8000 = 0 \<longleftrightarrow> unat f1 < 128" "be16 f1 f2 AND 0x0200 \<noteq> 0 \<longleftrightarrow> odd (unat f1 div 2)"
  "be16 f1 f2 AND 0x000f = of_nat (unat f2 mod 16)"
proof -
  have "be16 f1 f2 AND 0x8000 = 0 \<longleftrightarrow> \<not> bit (be16 f1 f2) 15"
    using and_exp_eq_0_iff_not_bit [of "be16 f1 f2" 15] by simp
  also have "bit (be16 f1 f2) 15 \<longleftrightarrow> bit f1 7" using bit_imp_le_length [of f2 15] by (auto simp: be16_def bit_simps)
  also have "bit f1 7 \<longleftrightarrow> 128 \<le> unat f1" 
  proof -
    have "bit f1 7 \<longleftrightarrow> bit (unat f1) 7" by (simp add: bit_unsigned_iff)
    also have "\<dots> \<longleftrightarrow> odd (unat f1 div 128)" by (simp add: bit_iff_odd)
    also have "\<dots> \<longleftrightarrow> 128 \<le> unat f1"
    proof -
      have "unat f1 < 256" using unsigned_less [of f1, where ?'a = nat] by simp
      then have "unat f1 div 128 = (if 128 \<le> unat f1 then 1 else 0)" by auto
      then show ?thesis by simp
    qed
    finally show ?thesis .
  qed
  finally show "be16 f1 f2 AND 0x8000 = 0 \<longleftrightarrow> unat f1 < 128" by (simp only: not_le)
  have "be16 f1 f2 AND 0x0200 = 0 \<longleftrightarrow> \<not> bit (be16 f1 f2) 9"
    using and_exp_eq_0_iff_not_bit [of "be16 f1 f2" 9] by simp
  also have "bit (be16 f1 f2) 9 \<longleftrightarrow> bit f1 1" using bit_imp_le_length [of f2 9] by (auto simp: be16_def bit_simps)
  also have "bit f1 1 \<longleftrightarrow> odd (unat f1 div 2)" 
  proof -
    have "bit f1 1 \<longleftrightarrow> bit (unat f1) 1" by (simp add: bit_unsigned_iff)
    then show ?thesis by (simp add: bit_iff_odd)
  qed
  finally show "be16 f1 f2 AND 0x0200 \<noteq> 0 \<longleftrightarrow> odd (unat f1 div 2)" by simp
  have "be16 f1 f2 AND 0x000f = take_bit 4 (be16 f1 f2)" by (simp add: take_bit_eq_mask mask_eq_exp_minus_1)
  also have "\<dots> = of_nat (take_bit 4 (unat (be16 f1 f2)))" by (simp add: of_nat_take_bit)
  also have "take_bit 4 (unat (be16 f1 f2)) = unat f2 mod 16" 
  proof -
    have "(256 * unat f1 + unat f2) mod 16 = unat f2 mod 16" using mod_mult_self4 [of 16 "16 * unat f1" "unat f2"] by simp
    then show ?thesis by (simp add: unat_be16 num2_def take_bit_eq_mod)
  qed
  finally show "be16 f1 f2 AND 0x000f = of_nat (unat f2 mod 16)" .
qed

section \<open>The parser and the reference\<close>

text \<open>The scanner in numbers; its reads are in range.\<close>

lemma skip_numbers:
  "skip_name_loop (Suc n) p off =
     (if length p \<le> off then Inl TruncatedName
      else if unat (p ! off) = 0 then Inr (off + 1)
      else if unat (p ! off) < 64 then
        (if length p < off + 1 + unat (p ! off) then Inl TruncatedLabel else skip_name_loop n p (off + 1 + unat (p ! off)))
      else if unat (p ! off) < 192 then Inl InvalidLabel
      else if length p \<le> off + 1 then Inl TruncatedPointer
      else if length p \<le> 256 * (unat (p ! off) - 192) + unat (p ! (off + 1)) then Inl InvalidPointer
      else Inr (off + 2))"
proof -
  have pointer: "push_bit 8 (unat (b AND 0x3f)) OR unat c = 256 * (unat b - 192) + unat c" if "192 \<le> unat b" for b c :: byte
    using push_or_add [of "unat c" 8 "unat b - 192"] unsigned_less [of c, where ?'a = nat] that by (simp add: byte_kinds(3))
  show ?thesis
    unfolding skip_name_loop.simps byte_at_def byte_kinds(1,2)
    unfolding byte_kinds(4)
    by (cases "off < length p"; cases "off + 1 < length p"; cases "192 \<le> unat (p ! off)") (auto simp: pointer)
qed

text \<open>The parser's position is the number of bytes before the rest.\<close>

lemma skip_after:
  "(case after_name (length p) n (drop off p) of
      None \<Rightarrow> (\<exists>e. skip_name_loop n p off = Inl e \<and> e \<noteq> NamePanic)
    | Some rest \<Rightarrow> \<exists>off'. skip_name_loop n p off = Inr off' \<and> rest = drop off' p \<and> off' \<le> length p)"
proof (induction n arbitrary: off)
  case (Suc n)
  show ?case
  proof (cases "off < length p")
    case True
    define b where "b = p ! off"
    have d: "drop off p = b # drop (Suc off) p" using True by (simp add: Cons_nth_drop_Suc b_def)
    have run: "after_name (length p) (Suc n) (drop off p) =
       (if unat b = 0 then Some (drop (Suc off) p)
        else if unat b < 64 then (if length p < off + 1 + unat b then None else after_name (length p) n (drop (off + 1 + unat b) p))
        else if unat b < 192 then None
        else if length p \<le> off + 1 then None
        else if 256 * (unat b - 192) + unat (p ! (off + 1)) < length p then Some (drop (off + 2) p) else None)"
    proof -
      have ptr: "(case drop (Suc off) p of [] \<Rightarrow> None | c # rest \<Rightarrow> if f c then Some rest else None)
          = (if length p \<le> off + 1 then None else if f (p ! (off + 1)) then Some (drop (off + 2) p) else None)" for f
        by (cases "off + 1 < length p") (simp_all add: Cons_nth_drop_Suc [symmetric])
      show ?thesis unfolding d after_name.simps ptr using True by (auto simp: add.commute)
    qed
    show ?thesis
      unfolding run skip_numbers b_def [symmetric] using True Suc.IH [of "off + 1 + unat b"] by auto
  qed (simp add: skip_numbers)
qed simp


lemma front: "off + n \<le> length p \<Longrightarrow> drop off p = map (\<lambda>i. p ! (off + i)) [0..<n] @ drop (off + n) p"
proof (induction n)
  case (Suc n)
  then have "drop (off + n) p = p ! (off + n) # drop (off + Suc n) p" by (simp add: Cons_nth_drop_Suc)
  with Suc show ?case by simp
qed simp

lemma questions_after:
  "off \<le> length p \<Longrightarrow>
   (case after_questions (length p) n (drop off p) of
      None \<Rightarrow> questions_loop n p off = Inl MalformedQuestion
    | Some rest \<Rightarrow> \<exists>off'. questions_loop n p off = Inr off' \<and> rest = drop off' p \<and> off' \<le> length p)"
proof (induction n arbitrary: off)
  case (Suc n)
  show ?case
  proof (cases "after_name (length p) 129 (drop off p)")
    case None
    then show ?thesis using skip_after [where p = p and n = 129 and off = off] by (auto simp: skipName_def name_failure_def)
  next
    case (Some rest)
    then obtain off' where off': "skipName p off = Inr off'" "rest = drop off' p" "off' \<le> length p"
      using skip_after [where p = p and n = 129 and off = off] by (auto simp: skipName_def)
    show ?thesis
    proof (cases "off' + 4 \<le> length p")
      case True
      then have "rest = p ! off' # p ! (off' + 1) # p ! (off' + 2) # p ! (off' + 3) # drop (off' + 4) p"
        using front [where off = off' and n = 4 and p = p] off'(2) by (simp add: upt_rec numeral_eq_Suc)
      moreover have "questions_loop (Suc n) p off = questions_loop n p (off' + 4)" using off'(1) True by simp
      ultimately show ?thesis using Some Suc.IH [OF True]
        by (cases "after_questions (length p) n (drop (off' + 4) p)") (simp_all del: questions_loop.simps)
    next
      case False
      then have "length rest < 4" using off' by simp
      then have "after_questions (length p) (Suc n) (drop off p) = None" using Some by (auto split: list.splits)
      then show ?thesis using off'(1) False by simp
    qed
  qed
qed simp

text \<open>A record that is read, as a resource.\<close>

lemma wanted_usable:
  "wanted_address (unat rt) (unat answerType, unat cls, unat ttl, data)
   = (if cls \<noteq> 1 \<or> answerType \<noteq> rt then None
      else map_option (\<lambda>ip. \<lparr>wa_Address = ip_string ip, wa_TTL = int (unat ttl) * Second\<rparr>) (usable_address rt data))"
  for cls answerType rt :: uint16 and ttl :: uint32
proof -
  have w: "unat answerType = unat rt \<longleftrightarrow> answerType = rt" "unat cls = 1 \<longleftrightarrow> cls = 1" "unat rt = 1 \<longleftrightarrow> rt = dnsTypeA"
    "unat rt = 28 \<longleftrightarrow> rt = dnsTypeAAAA"
    by (simp_all add: dnsTypeA_def dnsTypeAAAA_def word_unat_eq_iff)
  have fake: "(x = 198 \<and> (y = 18 \<or> y = 19)) \<longleftrightarrow> (unat x = 198 \<and> unat y div 2 = 9)" for x y :: byte
  proof -
    have "unat y div 2 = 9 \<longleftrightarrow> unat y = 18 \<or> unat y = 19" by presburger
    then show ?thesis by (simp add: word_unat_eq_iff)
  qed
  have four: "to4 data = Some data \<and> ip_string data = join_with ''.'' (map (\<lambda>b. nat_str (unat b)) data)" if "length data = 4"
    using that by (cases "data = []") (auto simp: to4_def ip_string_def ipv4_string_def)
  have aaaa: "dnsTypeAAAA \<noteq> dnsTypeA" by (simp add: dnsTypeA_def dnsTypeAAAA_def)
  show ?thesis
    unfolding wanted_address_def usable_address_def prod.case w isFakeIPv4_def fake
    using four aaaa by (auto simp: Second_def)
qed


lemma read_answer_after:
  "(case after_name (length p) 129 (drop off p) of
      Some (t1 # t2 # c1 # c2 # l1 # l2 # l3 # l4 # d1 # d2 # rest) \<Rightarrow>
        if length rest < num2 d1 d2 then read_answer p rt off = Inl TruncatedAnswerData
        else \<exists>off'. off' \<le> length p \<and> drop off' p = drop (num2 d1 d2) rest
          \<and> read_answer p rt off
            = Inr (off', wanted_address (unat rt) (num2 t1 t2, num2 c1 c2, num4 l1 l2 l3 l4, take (num2 d1 d2) rest))
    | _ \<Rightarrow> read_answer p rt off = Inl MalformedAnswer)"
proof (cases "after_name (length p) 129 (drop off p)")
  case None
  then show ?thesis using skip_after [where p = p and n = 129 and off = off] by (auto simp: skipName_def read_answer_def name_failure_def)
next
  case (Some bytes)
  then obtain o1 where o1: "skipName p off = Inr o1" "bytes = drop o1 p" "o1 \<le> length p"
    using skip_after [where p = p and n = 129 and off = off] by (auto simp: skipName_def)
  show ?thesis
  proof (cases "o1 + 10 \<le> length p")
    case False
    then have "length bytes < 10" using o1 by simp
    moreover have "read_answer p rt off = Inl MalformedAnswer" using o1(1) False by (simp add: read_answer_def)
    ultimately show ?thesis using Some by (auto split: list.splits)
  next
    case True
    define x where "x i = p ! (o1 + i)" for i
    define rest where "rest = drop (o1 + 10) p"
    have bytes: "bytes = x 0 # x 1 # x 2 # x 3 # x 4 # x 5 # x 6 # x 7 # x 8 # x 9 # rest"
      using front [OF True] o1(2) by (simp add: upt_rec numeral_eq_Suc x_def rest_def)
    define n where "n = num2 (x 8) (x 9)"
    have idx: "o1 + 2 + 1 = o1 + 3" "o1 + 4 + 1 = o1 + 5" "o1 + 4 + 2 = o1 + 6" "o1 + 4 + 3 = o1 + 7" "o1 + 8 + 1 = o1 + 9" "o1 + 2 + 2 = o1 + 4"
      "o1 + 4 + 4 = o1 + 8" "o1 + 8 + 2 = o1 + 10" by simp_all
    have at: "u16_at p o1 = Some (be16 (x 0) (x 1))" "u16_at p (o1 + 2) = Some (be16 (x 2) (x 3))"
      "u32_at p (o1 + 4) = Some (be32 (x 4) (x 5) (x 6) (x 7))" "u16_at p (o1 + 8) = Some (be16 (x 8) (x 9))"
      using True unfolding u16_at_def u32_at_def idx x_def by simp_all
    have len: "length rest = length p - (o1 + 10)" "drop (o1 + 10 + n) p = drop n rest" by (simp_all add: rest_def add.commute)
    have sl: "slice p (o1 + 10) n = (if n \<le> length rest then Some (take n rest) else None)"
      using True by (auto simp: slice_def rest_def)
    have "read_answer p rt off =
       (if length rest < n then Inl TruncatedAnswerData
        else Inr (o1 + 10 + n, wanted_address (unat rt) (num2 (x 0) (x 1), num2 (x 2) (x 3), num4 (x 4) (x 5) (x 6) (x 7), take n rest)))"
    proof -
      have w: "wanted_address (unat rt) (num2 (x 0) (x 1), num2 (x 2) (x 3), num4 (x 4) (x 5) (x 6) (x 7), data) =
          (if be16 (x 2) (x 3) \<noteq> 1 \<or> be16 (x 0) (x 1) \<noteq> rt then None
           else map_option (\<lambda>ip. \<lparr>wa_Address = ip_string ip, wa_TTL = int (unat (be32 (x 4) (x 5) (x 6) (x 7))) * Second\<rparr>)
             (usable_address rt data))" for data
        by (simp only: unat_be16 [symmetric] unat_be32 [symmetric] wanted_usable)
      have big: "length p < o1 + 10 + n \<longleftrightarrow> length rest < n" using True len(1) by linarith
      have "\<not> length p < o1 + 10" using True by simp
      then show ?thesis
        unfolding read_answer_def o1(1) w sum.case at prod.case option.case unat_be16 n_def [symmetric]
        by (simp add: sl big Let_def)
    qed
    moreover have "o1 + 10 + n \<le> length p" if "\<not> length rest < n" using that True len(1) by simp
    ultimately show ?thesis using Some len(2) unfolding bytes by (auto simp: n_def [symmetric])
  qed
qed

fun collect_answers :: "nat \<Rightarrow> byte list \<Rightarrow> uint16 \<Rightarrow> nat \<Rightarrow> wire_error + wire_answer list" where
  "collect_answers 0 packet rt off = Inr []"
| "collect_answers (Suc n) packet rt off =
     (case read_answer packet rt off of
        Inl e \<Rightarrow> Inl e
      | Inr (off', a) \<Rightarrow>
          (case collect_answers n packet rt off' of
             Inl e \<Rightarrow> Inl e
           | Inr as \<Rightarrow> Inr ((case a of None \<Rightarrow> [] | Some x \<Rightarrow> [x]) @ as)))"

lemma first_least_None [simp]: "first_least as = None \<longleftrightarrow> as = []"
  by (cases as) (auto split: option.splits)

lemma first_least_spec:
  "first_least as = Some b \<Longrightarrow> b \<in> set as \<and> (\<forall>a \<in> set as. wa_TTL b \<le> wa_TTL a)"
proof (induction as arbitrary: b)
  case (Cons a as)
  show ?case
  proof (cases "first_least as")
    case None
    then show ?thesis using Cons.prems by simp
  next
    case (Some c)
    then show ?thesis using Cons.prems Cons.IH [OF Some] by (auto split: if_splits)
  qed
qed simp

lemma join_with_nonempty: "xs \<noteq> [] \<Longrightarrow> list_all (\<lambda>x. x \<noteq> []) xs \<Longrightarrow> join_with sep xs \<noteq> []"
  by (induction sep xs rule: join_with.induct) auto

lemma ip_string_nonempty [simp]: "ip_string ip \<noteq> []"
proof -
  have hex: "hex_str n \<noteq> []" for n by (subst hex_str.simps) simp
  show ?thesis
  proof (cases "to4 ip")
    case (Some v4)
    then show ?thesis using to4_length [OF Some] ipv4_string_nonempty by (simp add: ip_string_to4)
  next
    case None
    have "groups16 ip \<noteq> []" if "length ip = 16"
      using that by (cases ip rule: groups16.cases) auto
    then have "ipv6_string ip \<noteq> []" if "length ip = 16"
      using that hex by (auto simp: ipv6_string_def Let_def list_all_iff join_with_nonempty split: prod.splits)
    with None show ?thesis by (auto simp: ip_string_def to4_def)
  qed
qed

lemma read_answer_address: "read_answer p rt off = Inr (off', Some a) \<Longrightarrow> wa_Address a \<noteq> []"
  by (auto simp: read_answer_def Let_def split: sum.splits if_splits option.splits)

text \<open>Continuing from a best answer is like having it in front of the collected ones.\<close>

definition seed_best :: "wire_answer \<Rightarrow> wire_answer list" where
  "seed_best best = (if wa_Address best = [] then [] else [best])"

lemma first_least_step:
  "first_least (b # a # as) = first_least ((if wa_TTL a < wa_TTL b then a else b) # as)"
  by (auto split: option.splits)

lemma answers_loop_collect:
  assumes "wa_TTL best = 0 \<or> wa_Address best \<noteq> []"
  shows "(case answers_loop n p rt off best of Inl e \<Rightarrow> Inl e
          | Inr b \<Rightarrow> Inr (if wa_Address b = [] then None else Some b))
       = (case collect_answers n p rt off of Inl e \<Rightarrow> Inl e
          | Inr as \<Rightarrow> Inr (first_least (seed_best best @ as)))"
  using assms
proof (induction n p rt off best rule: answers_loop.induct)
  case (1 p rt off best)
  then show ?case by (simp add: seed_best_def)
next
  case (2 n p rt off best)
  show ?case
  proof (cases "read_answer p rt off")
    case (Inl e)
    then show ?thesis by simp
  next
    case (Inr r)
    obtain off' a where r: "r = (off', a)" by fastforce
    show ?thesis
    proof (cases a)
      case None
      then show ?thesis
        using "2.IH"(1) [OF Inr _ None] "2.prems" Inr r by (simp split: sum.splits)
    next
      case (Some x)
      define nb where "nb = (if wa_Address best = [] \<or> wa_TTL x < wa_TTL best then x else best)"
      have x: "wa_Address x \<noteq> []" using Inr r Some read_answer_address by simp
      then have nb: "wa_Address nb \<noteq> []" by (simp add: nb_def)
      have least: "first_least (seed_best nb @ as) = first_least (seed_best best @ x # as)" for as
        using x first_least_step [of best x as] by (simp add: seed_best_def nb_def)
      have "answers_loop (Suc n) p rt off best = answers_loop n p rt off' nb"
        using Inr r Some by (simp add: nb_def)
      then show ?thesis
        using "2.IH"(2) [OF Inr _ Some, folded nb_def] nb Inr r Some
        by (simp add: least split: sum.splits)
    qed
  qed
qed


lemma collect_resources:
  "off \<le> length p \<Longrightarrow>
   collect_answers n p rt off
   = (case resources (length p) n (drop off p) of
        Inl e \<Rightarrow> Inl e
      | Inr rs \<Rightarrow> Inr (List.map_filter (wanted_address (unat rt)) rs))"
proof (induction n arbitrary: off)
  case (Suc n)
  note read = read_answer_after [where p = p and off = off and rt = rt]
  show ?case
  proof (cases "after_name (length p) 129 (drop off p)")
    case None
    with read show ?thesis by simp
  next
    case (Some bytes)
    show ?thesis
    proof (cases "length bytes < 10")
      case True
      then have "resources (length p) (Suc n) (drop off p) = Inl MalformedAnswer" "read_answer p rt off = Inl MalformedAnswer"
        using Some read by (auto split: list.splits)
      then show ?thesis by simp
    next
      case False
      then have "bytes = map (\<lambda>i. bytes ! i) [0..<10] @ drop 10 bytes" using front [where off = 0 and n = 10 and p = bytes] by simp
      then obtain t1 t2 c1 c2 l1 l2 l3 l4 d1 d2 rest where b: "bytes = t1 # t2 # c1 # c2 # l1 # l2 # l3 # l4 # d1 # d2 # rest"
        by (simp add: upt_rec numeral_eq_Suc)
      show ?thesis
      proof (cases "length rest < num2 d1 d2")
        case True
        with read Some show ?thesis by (simp add: b)
      next
        case False
        with read Some obtain off' where off': "off' \<le> length p" "drop off' p = drop (num2 d1 d2) rest"
          "read_answer p rt off = Inr (off', wanted_address (unat rt) (num2 t1 t2, num2 c1 c2, num4 l1 l2 l3 l4, take (num2 d1 d2) rest))"
          by (auto simp: b)
        show ?thesis
          using Suc.IH [OF off'(1)] False Some off'(2,3) by (auto simp: b map_filter_simps split: sum.splits option.splits)
      qed
    qed
  qed
qed (simp add: map_filter_simps)

text \<open>
  C5. For every packet, query id and record type the response parser returns, without an index or a slice outside the packet, exactly what
  the grammar of DNS messages says: which error a malformed, foreign, truncated or negative response is, and otherwise, of all resources
  of the wanted type and class with a usable address, the first one with the least TTL.
\<close>

theorem parseResponse_reference:
  "parseResponse packet queryID rt = reference_parse packet queryID rt
   \<and> parseResponse packet queryID rt \<noteq> Inl Panic"
proof -
  have loop: "(case answers_loop n packet rt off \<lparr>wa_Address = [], wa_TTL = 0\<rparr> of
         Inl e \<Rightarrow> Inl e | Inr best \<Rightarrow> if wa_Address best = [] then Inl NoAddressRecord else Inr best)
      = (case collect_answers n packet rt off of Inl e \<Rightarrow> Inl e
         | Inr as \<Rightarrow> (case first_least as of None \<Rightarrow> Inl NoAddressRecord | Some b \<Rightarrow> Inr b))"
    for n off
    using answers_loop_collect [of "\<lparr>wa_Address = [], wa_TTL = 0\<rparr>" n packet rt off]
    by (auto simp: seed_best_def split: sum.splits if_splits option.splits)
  have eq: "parseResponse packet queryID rt = reference_parse packet queryID rt"
  proof (cases "length packet < 12")
    case True
    then show ?thesis by (auto simp: parseResponse_def reference_parse_def split: list.splits)
  next
    case False
    define x where "x i = packet ! i" for i
    have p: "packet = x 0 # x 1 # x 2 # x 3 # x 4 # x 5 # x 6 # x 7 # x 8 # x 9 # x 10 # x 11 # drop 12 packet"
      using front [where off = 0 and n = 12 and p = packet] False by (simp add: upt_rec numeral_eq_Suc x_def)
    have at: "u16_at packet 0 = Some (be16 (x 0) (x 1))" "u16_at packet 2 = Some (be16 (x 2) (x 3))"
      "u16_at packet 4 = Some (be16 (x 4) (x 5))" "u16_at packet 6 = Some (be16 (x 6) (x 7))"
      using False by (simp_all add: u16_at_def x_def)
    have "12 \<le> length packet" using False by simp
    note ques = questions_after [OF this, where n = "num2 (x 4) (x 5)"]
    have body: "(case questions_loop (num2 (x 4) (x 5)) packet 12 of
          Inl e \<Rightarrow> Inl e
        | Inr off \<Rightarrow> (case answers_loop (num2 (x 6) (x 7)) packet rt off \<lparr>wa_Address = [], wa_TTL = 0\<rparr> of
             Inl e \<Rightarrow> Inl e | Inr best \<Rightarrow> if wa_Address best = [] then Inl NoAddressRecord else Inr best))
      = (case after_questions (length packet) (num2 (x 4) (x 5)) (drop 12 packet) of
           None \<Rightarrow> Inl MalformedQuestion
         | Some rest \<Rightarrow>
             (case resources (length packet) (num2 (x 6) (x 7)) rest of
                Inl e \<Rightarrow> Inl e
              | Inr rs \<Rightarrow> (case first_least (List.map_filter (wanted_address (unat rt)) rs) of
                     None \<Rightarrow> Inl NoAddressRecord | Some b \<Rightarrow> Inr b)))"
      using ques by (auto simp: loop collect_resources split: option.splits sum.splits)
    have ref: "reference_parse packet queryID rt =
       (if num2 (x 0) (x 1) \<noteq> unat queryID then Inl MismatchedID
        else if unat (x 2) < 128 then Inl NotResponse
        else if odd (unat (x 2) div 2) then Inl TruncatedResponse
        else if unat (x 3) mod 16 \<noteq> 0 then Inl (ResponseCode (of_nat (unat (x 3) mod 16)))
        else (case after_questions (length packet) (num2 (x 4) (x 5)) (drop 12 packet) of
           None \<Rightarrow> Inl MalformedQuestion
         | Some rest \<Rightarrow>
             (case resources (length packet) (num2 (x 6) (x 7)) rest of
                Inl e \<Rightarrow> Inl e
              | Inr rs \<Rightarrow> (case first_least (List.map_filter (wanted_address (unat rt)) rs) of
                     None \<Rightarrow> Inl NoAddressRecord | Some b \<Rightarrow> Inr b))))"
      unfolding reference_parse_def by (subst p) simp
    have small: "(of_nat (k mod 16) :: uint16) = 0 \<longleftrightarrow> k mod 16 = 0" for k
      by (simp add: word_unat_eq_iff unat_of_nat)
    have id: "be16 (x 0) (x 1) \<noteq> queryID \<longleftrightarrow> num2 (x 0) (x 1) \<noteq> unat queryID" by (simp add: word_unat_eq_iff unat_be16)
    show ?thesis
      unfolding ref parseResponse_def at option.case prod.case id flag_bits unat_be16 body using False
      by (simp add: small)
  qed
  have "resources l n bs \<noteq> Inl Panic" for l n bs
    by (induction n arbitrary: bs) (auto split: option.splits list.splits sum.splits)
  then have "reference_parse packet queryID rt \<noteq> Inl Panic"
    unfolding reference_parse_def by (auto split: list.splits option.splits sum.splits)
  with eq show ?thesis by simp
qed

section \<open>Queries and their replies\<close>

lemma be16_put16: "be16 (ucast (drop_bit 8 v)) (ucast v) = v"
  unfolding be16_def by (rule bit_word_eqI) (auto simp: bit_simps)

lemma length_put16 [simp]: "length (put16 v) = 2" by (simp add: put16_def)

lemma label_length_byte:
  assumes "0 < k" "k \<le> 63"
  shows "(of_nat k :: byte) \<noteq> 0" "(of_nat k :: byte) AND 0xc0 = 0" "unat (of_nat k :: byte) = k"
proof -
  have "\<forall>k \<in> set [1..<64]. (of_nat k :: byte) \<noteq> 0 \<and> (of_nat k :: byte) AND 0xc0 = 0
      \<and> unat (of_nat k :: byte) = k" by code_simp
  moreover have "k \<in> set [1..<64]" using assms by simp
  ultimately show "(of_nat k :: byte) \<noteq> 0" "(of_nat k :: byte) AND 0xc0 = 0" "unat (of_nat k :: byte) = k"
    by blast+
qed

definition valid_label :: "string \<Rightarrow> bool" where
  "valid_label l \<longleftrightarrow> 0 < length l \<and> length l \<le> 63"

lemma check_labels_valid: "check_labels ls = None \<Longrightarrow> list_all valid_label ls"
  by (induction ls rule: check_labels.induct) (auto simp: valid_label_def split: if_splits)

lemma split_on_nonempty [simp]: "split_on sep s \<noteq> []"
  by (induction s) (auto split: list.splits)

lemma split_on_length: "sum_list (map (\<lambda>l. Suc (length l)) (split_on sep s)) = Suc (length s)"
  by (induction s) (auto split: list.splits)

lemma valid_labels_count:
  "list_all valid_label ls \<Longrightarrow> 2 * length ls \<le> sum_list (map (\<lambda>l. Suc (length l)) ls)"
  by (induction ls) (auto simp: valid_label_def simp del: length_greater_0_conv)

lemma length_bytes_of [simp]: "length (bytes_of s) = length s"
  by (simp add: bytes_of_def)

lemma after_encoded_labels:
  assumes "list_all valid_label ls" "length ls < n"
  shows "after_name whole n (encode_name ls @ ys) = Some ys"
  using assms
proof (induction ls arbitrary: n)
  case Nil
  then obtain m where "n = Suc m" by (cases n) auto
  then show ?case by (simp add: encode_name_def)
next
  case (Cons l ls)
  obtain m where n: "n = Suc m" using Cons.prems by (cases n) auto
  have b: "unat (of_nat (length l) :: byte) = length l" "0 < length l" "length l < 64"
    using label_length_byte [of "length l"] Cons.prems by (auto simp: valid_label_def)
  have "after_name whole m (encode_name ls @ ys) = Some ys" using Cons.prems n by (intro Cons.IH) auto
  then show ?case using b by (simp add: n encode_name_def)
qed

text \<open>The labels of a name in a message, and the name they spell.\<close>

fun name_labels :: "nat \<Rightarrow> byte list \<Rightarrow> string list option" where
  "name_labels 0 bytes = None"
| "name_labels (Suc n) [] = None"
| "name_labels (Suc n) (b # bytes) =
     (if unat b = 0 then Some []
      else if length bytes < unat b then None
      else map_option ((#) (map (\<lambda>c. char_of (unat c)) (take (unat b) bytes))) (name_labels n (drop (unat b) bytes)))"

lemma labels_encoded:
  assumes "list_all valid_label ls" "length ls < n"
  shows "name_labels n (encode_name ls @ ys) = Some ls"
  using assms
proof (induction ls arbitrary: n)
  case Nil
  then obtain m where "n = Suc m" by (cases n) auto
  then show ?case by (simp add: encode_name_def)
next
  case (Cons l ls)
  obtain m where n: "n = Suc m" using Cons.prems by (cases n) auto
  have b: "unat (of_nat (length l) :: byte) = length l" "0 < length l"
    using label_length_byte [of "length l"] Cons.prems by (auto simp: valid_label_def)
  have chars: "map (\<lambda>c. char_of (unat c)) (bytes_of l) = l"
    by (induction l) (simp_all add: bytes_of_def unat_of_nat)
  have "name_labels m (encode_name ls @ ys) = Some ls" using Cons.prems n by (intro Cons.IH) auto
  then show ?case using b chars by (simp add: n encode_name_def)
qed

lemma join_split: "join_with [sep] (split_on sep s) = s"
proof (induction s)
  case (Cons c s)
  obtain f fs where "split_on sep s = f # fs" by (cases "split_on sep s") auto
  with Cons show ?case by (cases fs) auto
qed simp

lemma buildQuery_shape:
  assumes "buildQuery to_ascii rand domain rt = Inr (q, qid)"
  obtains name ls where "normalize_dns_domain to_ascii domain = Inr name" "ls = split_on CHR ''.'' name"
    "list_all valid_label ls" "length ls \<le> 127"
    "q = put16 qid @ put16 0x0100 @ put16 1 @ put16 0 @ put16 0 @ put16 0
         @ encode_name ls @ put16 rt @ put16 1"
proof -
  obtain name where norm: "normalize_dns_domain to_ascii domain = Inr name"
    and q: "q = put16 qid @ put16 0x0100 @ put16 1 @ put16 0 @ put16 0 @ put16 0
         @ encode_name (split_on CHR ''.'' name) @ put16 rt @ put16 1"
    using assms by (auto simp: buildQuery_def split: sum.splits option.splits)
  have name: "length name \<le> 253" "check_labels (split_on CHR ''.'' name) = None"
    using norm by (auto simp: normalize_dns_domain_def Let_def split: option.splits if_splits)
  let ?ls = "split_on CHR ''.'' name"
  have v: "list_all valid_label ?ls" using name(2) by (rule check_labels_valid)
  then have "length ?ls \<le> 127"
    using valid_labels_count [OF v] split_on_length [of "CHR ''.''" name] name(1) by simp
  with v q norm that show ?thesis by blast
qed

text \<open>
  A server's reply to a query: its id, flags and counts of a response with one answer, the question as it stands in the query,
  and one record for the name at offset 12 with the type and class of the question.
\<close>

definition reply_to :: "byte list \<Rightarrow> byte list \<Rightarrow> byte list \<Rightarrow> byte list" where
  "reply_to q ttl data =
     take 2 q @ [0x81, 0x80, 0, 1, 0, 1, 0, 0, 0, 0] @ drop 12 q
     @ [0xc0, 0x0c] @ drop (length q - 4) q @ ttl @ [0, of_nat (length data)] @ data"

lemma after_pointer: "12 < whole \<Longrightarrow> after_name whole 129 (0xc0 # 0x0c # ys) = Some ys"
  using after_name.simps(3) [of whole 128 "0xc0" "0x0c # ys"] by simp

text \<open>
  C6. A query that the encoder builds is, byte for byte, a message with the id that is returned, the flag "recursion desired" alone, one question and
  nothing else; the question spells the normalised name and ends with the record type and the Internet class. And a server's reply to it
  that echoes id and question and carries one record of the type with a usable address is parsed, with the id that was
  returned, to exactly the address and TTL of that record.
\<close>

theorem buildQuery_reply_roundtrip:
  assumes "buildQuery to_ascii rand domain rt = Inr (q, qid)"
    and "wanted_address (unat rt) (unat rt, 1, num4 l1 l2 l3 l4, data) = Some answer"
  shows "\<exists>name i1 i2 t1 t2. rand = Some qid \<and> normalize_dns_domain to_ascii domain = Inr name
      \<and> take 12 q = [i1, i2, 1, 0, 0, 1, 0, 0, 0, 0, 0, 0] \<and> num2 i1 i2 = unat qid
      \<and> map_option (join_with ''.'') (name_labels 128 (drop 12 q)) = Some name
      \<and> after_name (length q) 129 (drop 12 q) = Some [t1, t2, 0, 1] \<and> num2 t1 t2 = unat rt
    \<and> parseResponse (reply_to q [l1, l2, l3, l4] data) qid rt = Inr answer"
proof -
  obtain name ls where norm: "normalize_dns_domain to_ascii domain = Inr name" and ls: "ls = split_on CHR ''.'' name"
    "list_all valid_label ls" "length ls \<le> 127"
    and q: "q = put16 qid @ put16 0x0100 @ put16 1 @ put16 0 @ put16 0 @ put16 0 @ encode_name ls @ put16 rt @ put16 1"
    using assms(1) by (rule buildQuery_shape)
  define i1 :: byte where "i1 = ucast (drop_bit 8 qid)"
  define i2 :: byte where "i2 = ucast qid"
  define t1 :: byte where "t1 = ucast (drop_bit 8 rt)"
  define t2 :: byte where "t2 = ucast rt"
  note bytes = i1_def i2_def t1_def t2_def
  have nums: "num2 i1 i2 = unat qid" "num2 t1 t2 = unat rt"
    by (simp_all add: bytes unat_be16 [symmetric] be16_put16)
  have words: "put16 0x0100 = [1, 0]" "put16 1 = [0, 1]" "put16 0 = [0, 0]" by code_simp+
  have q: "q = [i1, i2, 1, 0, 0, 1, 0, 0, 0, 0, 0, 0] @ encode_name ls @ [t1, t2, 0, 1]"
    unfolding q words by (simp add: put16_def bytes)
  have front: "take 12 q = [i1, i2, 1, 0, 0, 1, 0, 0, 0, 0, 0, 0]" "drop 12 q = encode_name ls @ [t1, t2, 0, 1]"
    "take 2 q = [i1, i2]" "drop (length q - 4) q = [t1, t2, 0, 1]"
    by (simp_all add: q)
  have after: "after_name whole 129 (encode_name ls @ ys) = Some ys" for whole ys
    by (rule after_encoded_labels [OF ls(2)]) (use ls(3) in simp)
  have labels: "name_labels 128 (drop 12 q) = Some ls"
    unfolding front(2) by (rule labels_encoded [OF ls(2)]) (use ls(3) in simp)
  have data: "length data \<le> 16" using assms(2) by (auto simp: wanted_address_def split: if_splits)
  have len: "num2 0 (of_nat (length data)) = length data" using data by (simp add: num2_def unat_of_nat)
  define p where "p = reply_to q [l1, l2, l3, l4] data"
  define whole where "whole = length p"
  have p: "p = i1 # i2 # 0x81 # 0x80 # 0 # 1 # 0 # 1 # 0 # 0 # 0 # 0 # encode_name ls
      @ t1 # t2 # 0 # 1 # 0xc0 # 0x0c # t1 # t2 # 0 # 1 # l1 # l2 # l3 # l4 # 0 # of_nat (length data) # data"
    unfolding p_def reply_to_def front by simp
  have whole: "12 < whole" by (simp add: whole_def p)
  have one: "num2 0 1 = Suc 0" by (simp add: num2_def)
  have ques: "after_questions whole (num2 0 1) (encode_name ls @ t1 # t2 # 0 # 1 # ys) = Some ys" for ys
    by (simp add: one after)
  have res: "resources whole (num2 0 1) (0xc0 # 0x0c # t1 # t2 # 0 # 1 # l1 # l2 # l3 # l4 # 0 # of_nat (length data) # data)
      = Inr [(unat rt, 1, num4 l1 l2 l3 l4, data)]"
    using after_pointer [OF whole] nums(2) len by (simp add: one)
  have "reference_parse p qid rt = Inr answer"
    unfolding reference_parse_def whole_def [symmetric] unfolding p
    using nums ques res assms(2) by (simp add: map_filter_simps)
  then have "parseResponse p qid rt = Inr answer" using parseResponse_reference [of p qid rt] by simp
  moreover have "rand = Some qid" using assms(1) by (auto simp: buildQuery_def split: sum.splits option.splits)
  ultimately show ?thesis
    using norm front(1,2) nums labels after ls(1) join_split [of "CHR ''.''" name] unfolding p_def by auto
qed

theorem buildQuery_reply_roundtrip_witness:
  "\<exists>q qid. buildQuery Some (Some 7) ''Example.COM.'' dnsTypeA = Inr (q, qid)
     \<and> map_option (join_with ''.'') (name_labels 128 (drop 12 q)) = Some ''example.com''
     \<and> parseResponse (reply_to q [0, 0, 1, 44] [93, 184, 216, 34]) qid dnsTypeA
         = Inr \<lparr>wa_Address = ''93.184.216.34'', wa_TTL = 300 * 1000000000\<rparr>"
proof -
  obtain q qid where q: "buildQuery Some (Some 7) ''Example.COM.'' dnsTypeA = Inr (q, qid)"
  proof -
    have "\<not> isl (buildQuery Some (Some 7) ''Example.COM.'' dnsTypeA)" by code_simp
    then show thesis using that by (cases "buildQuery Some (Some 7) ''Example.COM.'' dnsTypeA") auto
  qed
  have u: "wanted_address (unat dnsTypeA) (unat dnsTypeA, 1, num4 0 0 1 44, [93, 184, 216, 34])
      = Some \<lparr>wa_Address = ''93.184.216.34'', wa_TTL = 300 * 1000000000\<rparr>"
    by (simp add: wanted_address_def dnsTypeA_def num4_def num2_def nat_str.simps digit_char_def) code_simp
  have "normalize_dns_domain Some ''Example.COM.'' = Inr ''example.com''" by code_simp
  then show ?thesis
    using q buildQuery_reply_roundtrip [OF q u] by auto
qed

end
