(* ===== verification/Resolver.thy ===== *)
theory Resolver
  imports Dns_Wire "HOL-Library.AList"
begin

text \<open>
  \<open>engine/internal/dns/resolver.go\<close>: the caching, single-flight DNS resolver with its three
  transports.
  \<^item> The network is an environment record over a world \<open>'w\<close>: what a UDP, TCP or DoH exchange
    answers, the random query ids, the state of the context, the order in which racing DoH
    queries finish, and the standard library's IDNA, MIME and error-text functions.
  \<^item> Each section of the code that holds the mutex is one function on the resolver record:
    \<open>resolve_begin\<close>, \<open>finish_lookup\<close>, \<open>recordDoHSuccess\<close>, \<open>recordStrictFailure\<close>, \<open>resolver_status\<close>.
    \<open>resolver_step\<close> lets them interleave freely.
  \<^item> A \<open>*lookup\<close> is named by a number; its \<open>done\<close> channel is closed when \<open>rs_lookups\<close> has its
    outcome. Calls of the fallback handler are appended to \<open>rs_emitted\<close>.
\<close>

section \<open>Model\<close>

definition maxDNSMessageBytes :: nat where "maxDNSMessageBytes = 64 * 1024"

record dns_query =
  qu_Domain :: string
  qu_RecordType :: string
  qu_Binding :: binding

record dns_result =
  re_Domain :: string
  re_Address :: string
  re_RecordType :: "record_type option"
  re_Adapter :: string
  re_Transport :: string
  re_Server :: string
  re_Cached :: bool
  re_ExpiresAt :: "go_time option"

record fallback_event =
  fe_Adapter :: string
  fe_Policy :: string
  fe_Reason :: string

record cache_key =
  ck_adapter :: string
  ck_sourceIP :: string
  ck_ifIndex :: int
  ck_domain :: string
  ck_recordType :: record_type

record cache_entry =
  ce_result :: dns_result
  ce_expiresAt :: go_time

datatype resolve_error =
    BindingErr dns_error | WireErr wire_error | NetErr nat | ShortRead | BadTCPLength uint16
  | DoHStatus int | DoHContentType string | DoHTooLarge | NoDoHEndpoint | CtxErr nat
  | UdpErr string resolve_error | TcpErr string resolve_error
  | DoHFailed resolve_error | AutoFailed resolve_error resolve_error | Joined "resolve_error list"

type_synonym lookup_outcome = "resolve_error + dns_result"

record dns_status =
  st_Policy :: string
  st_LegacyServers :: "string list"
  st_DoHEndpoints :: "endpoint list"
  st_CacheEntries :: nat
  st_Inflight :: nat
  st_Queries :: uint64
  st_CacheHits :: uint64
  st_DoHSuccesses :: uint64
  st_DoHFailures :: uint64
  st_LegacySuccesses :: uint64
  st_LegacyFailures :: uint64
  st_AutomaticFallbacks :: uint64

record resolver =
  rs_config :: dns_config
  rs_cache :: "(cache_key \<times> cache_entry) list"
  rs_inflight :: "(cache_key \<times> nat) list"
  rs_lookups :: "nat \<Rightarrow> lookup_outcome option"
  rs_nextLookup :: nat
  rs_strictFailures :: "string \<Rightarrow> int"
  rs_fallbackEmitted :: "string \<Rightarrow> bool"
  rs_onFallback :: bool
  rs_emitted :: "fallback_event list"
  rs_queries :: uint64
  rs_cacheHits :: uint64
  rs_dohSuccesses :: uint64
  rs_dohFailures :: uint64
  rs_legacySuccesses :: uint64
  rs_legacyFailures :: uint64
  rs_automaticFallbacks :: uint64

record doh_response =
  dr_StatusCode :: int
  dr_ContentType :: string
  dr_Body :: "nat + byte list"

datatype race_event = Arrive nat | RaceCtxDone nat
datatype wait_event = LookupDone | WaitCtxDone nat | RootDone nat

text \<open>
  An exchange is dial, write and read; a TCP exchange yields the bytes the peer sends before
  it closes, a DoH exchange what \<open>http.ReadResponse\<close> returns after the TLS handshake.
\<close>

record 'w dns_env =
  ev_query_id :: "'w \<Rightarrow> uint16 option \<times> 'w"
  ev_to_ascii :: "string \<Rightarrow> string option"
  ev_media_type :: "string \<Rightarrow> string option"
  ev_error_text :: "resolve_error \<Rightarrow> string"
  ev_udp :: "string \<Rightarrow> binding \<Rightarrow> byte list \<Rightarrow> 'w \<Rightarrow> (nat + byte list) \<times> 'w"
  ev_tcp :: "string \<Rightarrow> binding \<Rightarrow> byte list \<Rightarrow> 'w \<Rightarrow> (nat + byte list) \<times> 'w"
  ev_doh :: "endpoint \<Rightarrow> string \<Rightarrow> binding \<Rightarrow> byte list \<Rightarrow> 'w \<Rightarrow> (nat + doh_response) \<times> 'w"
  ev_schedule :: "nat \<Rightarrow> 'w \<Rightarrow> race_event list"
  ev_ctx_err :: "'w \<Rightarrow> nat option"
  ev_now :: "'w \<Rightarrow> go_time"
  ev_wait :: "'w \<Rightarrow> wait_event"

definition new_resolver :: "dns_config \<Rightarrow> bool \<Rightarrow> resolve_error + resolver" where
  "new_resolver config hasDial =
     (if \<not> hasDial then Inl (NetErr 0)
      else case NormalizeConfig config of
             Inl e \<Rightarrow> Inl (BindingErr e)
           | Inr c \<Rightarrow> Inr
               \<lparr>rs_config = c, rs_cache = [], rs_inflight = [], rs_lookups = (\<lambda>_. None), rs_nextLookup = 0,
                rs_strictFailures = (\<lambda>_. 0), rs_fallbackEmitted = (\<lambda>_. False), rs_onFallback = False,
                rs_emitted = [], rs_queries = 0, rs_cacheHits = 0, rs_dohSuccesses = 0, rs_dohFailures = 0,
                rs_legacySuccesses = 0, rs_legacyFailures = 0, rs_automaticFallbacks = 0\<rparr>)"

definition SetFallbackHandler :: "bool \<Rightarrow> resolver \<Rightarrow> resolver" where
  "SetFallbackHandler handler r = r\<lparr>rs_onFallback := handler\<rparr>"

subsection \<open>Cache\<close>

definition removeExpired :: "go_time \<Rightarrow> resolver \<Rightarrow> resolver" where
  "removeExpired now r = r\<lparr>rs_cache := filter (\<lambda>(k, e). time_after (ce_expiresAt e) now) (rs_cache r)\<rparr>"

text \<open>One pass over the cache for the entry that expires first, \<open>first\<close> being the empty accumulator.\<close>

fun oldest_loop :: "(cache_key \<times> go_time) option \<Rightarrow> (cache_key \<times> cache_entry) list \<Rightarrow> (cache_key \<times> go_time) option" where
  "oldest_loop acc [] = acc"
| "oldest_loop acc ((k, e) # rest) =
     oldest_loop
       (case acc of
          None \<Rightarrow> Some (k, ce_expiresAt e)
        | Some (k0, oldest) \<Rightarrow> if time_before (ce_expiresAt e) oldest then Some (k, ce_expiresAt e) else acc) rest"

fun evict_loop :: "nat \<Rightarrow> nat \<Rightarrow> (cache_key \<times> cache_entry) list \<Rightarrow> (cache_key \<times> cache_entry) list" where
  "evict_loop 0 limit cache = cache"
| "evict_loop (Suc n) limit cache =
     (if length cache < limit then cache
      else case oldest_loop None cache of
             None \<Rightarrow> cache
           | Some (k, _) \<Rightarrow> evict_loop n limit (AList.delete k cache))"

text \<open>Each round deletes an entry, so the number of entries bounds the rounds of the loop.\<close>

definition makeCacheRoom :: "go_time \<Rightarrow> resolver \<Rightarrow> resolver" where
  "makeCacheRoom now r =
     (let r = removeExpired now r
      in r\<lparr>rs_cache := evict_loop (length (rs_cache r)) (nat (dc_MaxCacheEntries (rs_config r))) (rs_cache r)\<rparr>)"

subsection \<open>Transports\<close>

definition mk_result :: "string \<Rightarrow> string \<Rightarrow> string \<Rightarrow> dns_result" where
  "mk_result address transport server =
     \<lparr>re_Domain = [], re_Address = address, re_RecordType = None, re_Adapter = [],
      re_Transport = transport, re_Server = server, re_Cached = False, re_ExpiresAt = None\<rparr>"

definition queryUDP ::
    "'w dns_env \<Rightarrow> string \<Rightarrow> uint16 \<Rightarrow> binding \<Rightarrow> string \<Rightarrow> 'w \<Rightarrow>
       (resolve_error + dns_result \<times> duration) \<times> 'w" where
  "queryUDP env domain recordType b server w =
     (let (rand, w) = ev_query_id env w
      in case buildQuery (ev_to_ascii env) rand domain recordType of
           Inl e \<Rightarrow> (Inl (WireErr e), w)
         | Inr (packet, queryID) \<Rightarrow>
             (let address = join_host_port server ''53'';
                  (reply, w) = ev_udp env address b packet w
              in case reply of
                   Inl e \<Rightarrow> (Inl (NetErr e), w)
                 | Inr datagram \<Rightarrow>
                     (case parseResponse (take 4096 datagram) queryID recordType of
                        Inl e \<Rightarrow> (Inl (WireErr e), w)
                      | Inr answer \<Rightarrow> (Inr (mk_result (wa_Address answer) ''udp'' address, wa_TTL answer), w))))"

definition read_tcp_message :: "byte list \<Rightarrow> resolve_error + byte list" where
  "read_tcp_message stream =
     (case u16_at stream 0 of
        None \<Rightarrow> Inl ShortRead
      | Some len \<Rightarrow>
          if len = 0 \<or> unat len > maxDNSMessageBytes then Inl (BadTCPLength len)
          else case slice stream 2 (unat len) of
                 None \<Rightarrow> Inl ShortRead
               | Some message \<Rightarrow> Inr message)"

definition queryTCP ::
    "'w dns_env \<Rightarrow> string \<Rightarrow> uint16 \<Rightarrow> binding \<Rightarrow> string \<Rightarrow> 'w \<Rightarrow>
       (resolve_error + dns_result \<times> duration) \<times> 'w" where
  "queryTCP env domain recordType b server w =
     (let (rand, w) = ev_query_id env w
      in case buildQuery (ev_to_ascii env) rand domain recordType of
           Inl e \<Rightarrow> (Inl (WireErr e), w)
         | Inr (packet, queryID) \<Rightarrow>
             (let address = join_host_port server ''53'';
                  (reply, w) = ev_tcp env address b (put16 (of_nat (length packet)) @ packet) w
              in case reply of
                   Inl e \<Rightarrow> (Inl (NetErr e), w)
                 | Inr stream \<Rightarrow>
                     (case read_tcp_message stream of
                        Inl e \<Rightarrow> (Inl e, w)
                      | Inr message \<Rightarrow>
                          (case parseResponse message queryID recordType of
                             Inl e \<Rightarrow> (Inl (WireErr e), w)
                           | Inr answer \<Rightarrow> (Inr (mk_result (wa_Address answer) ''tcp'' address, wa_TTL answer), w)))))"

definition check_content_type :: "'w dns_env \<Rightarrow> string \<Rightarrow> bool" where
  "check_content_type env header =
     (let contentType = trim_space header
      in contentType = []
         \<or> (case ev_media_type env contentType of
              None \<Rightarrow> False
            | Some mediaType \<Rightarrow> equal_fold mediaType ''application/dns-message''))"

definition queryDoH ::
    "'w dns_env \<Rightarrow> string \<Rightarrow> uint16 \<Rightarrow> binding \<Rightarrow> endpoint \<Rightarrow> 'w \<Rightarrow>
       (resolve_error + dns_result \<times> duration) \<times> 'w" where
  "queryDoH env domain recordType b ep w =
     (let (rand, w) = ev_query_id env w
      in case buildQuery (ev_to_ascii env) rand domain recordType of
           Inl e \<Rightarrow> (Inl (WireErr e), w)
         | Inr (packet, queryID) \<Rightarrow>
             (let address = join_host_port (ep_IP ep) ''443'';
                  (reply, w) = ev_doh env ep address b packet w
              in case reply of
                   Inl e \<Rightarrow> (Inl (NetErr e), w)
                 | Inr response \<Rightarrow>
                     if dr_StatusCode response \<noteq> 200 then (Inl (DoHStatus (dr_StatusCode response)), w)
                     else if \<not> check_content_type env (dr_ContentType response)
                       then (Inl (DoHContentType (trim_space (dr_ContentType response))), w)
                     else case dr_Body response of
                            Inl e \<Rightarrow> (Inl (NetErr e), w)
                          | Inr all \<Rightarrow>
                              let body = take (maxDNSMessageBytes + 1) all
                              in if length body > maxDNSMessageBytes then (Inl DoHTooLarge, w)
                                 else case parseResponse body queryID recordType of
                                        Inl e \<Rightarrow> (Inl (WireErr e), w)
                                      | Inr answer \<Rightarrow>
                                          (Inr (mk_result (wa_Address answer) ''doh'' (ep_Host ep @ ''@'' @ address),
                                                wa_TTL answer), w)))"

subsection \<open>Uncached resolution\<close>

definition bindingKey :: "binding \<Rightarrow> string" where
  "bindingKey b = bd_Name b @ [CHR 0x00] @ bd_SourceIP b @ [CHR 0x00] @ itoa (bd_IfIndex b)"

definition limitText :: "string \<Rightarrow> nat \<Rightarrow> string" where
  "limitText value maximum = (let v = trim_space value in if length v \<le> maximum then v else take maximum v)"

definition recordDoHSuccess :: "binding \<Rightarrow> resolver \<Rightarrow> resolver" where
  "recordDoHSuccess b r =
     r\<lparr>rs_strictFailures := (rs_strictFailures r)(bindingKey b := 0),
       rs_fallbackEmitted := (rs_fallbackEmitted r)(bindingKey b := False)\<rparr>"

definition recordStrictFailure :: "(resolve_error \<Rightarrow> string) \<Rightarrow> binding \<Rightarrow> resolve_error \<Rightarrow> resolver \<Rightarrow> resolver" where
  "recordStrictFailure text b failure r =
     (let key = bindingKey b;
          r = r\<lparr>rs_strictFailures := (rs_strictFailures r)(key := rs_strictFailures r key + 1)\<rparr>
      in if rs_strictFailures r key \<ge> dc_FailureThreshold (rs_config r) \<and> \<not> rs_fallbackEmitted r key
         then r\<lparr>rs_fallbackEmitted := (rs_fallbackEmitted r)(key := True),
                rs_emitted := rs_emitted r @
                  (if rs_onFallback r
                   then [\<lparr>fe_Adapter = bd_Name b, fe_Policy = dc_Policy (rs_config r),
                          fe_Reason = limitText (text failure) 512\<rparr>]
                   else [])\<rparr>
         else r)"

text \<open>
  The goroutines of the race: every endpoint is queried and its outcome goes into a buffered
  channel. The environment says in which order outcomes arrive and when the context ends; the
  context has a deadline, so a schedule that runs out counts as its end.
\<close>

fun query_all ::
    "'w dns_env \<Rightarrow> string \<Rightarrow> uint16 \<Rightarrow> binding \<Rightarrow> endpoint list \<Rightarrow> 'w \<Rightarrow>
       (resolve_error + dns_result \<times> duration) list \<times> 'w" where
  "query_all env domain recordType b [] w = ([], w)"
| "query_all env domain recordType b (ep # eps) w =
     (let (o1, w) = queryDoH env domain recordType b ep w;
          (os, w) = query_all env domain recordType b eps w
      in (o1 # os, w))"

fun race_loop ::
    "nat \<Rightarrow> race_event list \<Rightarrow> (resolve_error + dns_result \<times> duration) list \<Rightarrow> resolve_error list \<Rightarrow>
       resolve_error + dns_result \<times> duration" where
  "race_loop 0 evs outcomes failures = Inl (Joined failures)"
| "race_loop (Suc n) [] outcomes failures = Inl (CtxErr 0)"
| "race_loop (Suc n) (RaceCtxDone e # evs) outcomes failures = Inl (CtxErr e)"
| "race_loop (Suc n) (Arrive i # evs) outcomes failures =
     (if i < length outcomes
      then (case outcomes ! i of
              Inr ok \<Rightarrow> Inr ok
            | Inl e \<Rightarrow> race_loop n evs outcomes (failures @ [e]))
      else Inl (CtxErr 0))"

definition resolveDoH ::
    "'w dns_env \<Rightarrow> string \<Rightarrow> uint16 \<Rightarrow> binding \<Rightarrow> resolver \<Rightarrow> 'w \<Rightarrow>
       (resolve_error + dns_result \<times> duration) \<times> resolver \<times> 'w" where
  "resolveDoH env domain recordType b r w =
     (let endpoints = Endpoints (dc_Policy (rs_config r))
      in if endpoints = [] then (Inl NoDoHEndpoint, r, w)
         else let (outcomes, w') = query_all env domain recordType b endpoints w;
                  out = race_loop (length endpoints) (ev_schedule env (length endpoints) w) outcomes []
              in case out of
                   Inr ok \<Rightarrow> (Inr ok, r\<lparr>rs_dohSuccesses := rs_dohSuccesses r + 1\<rparr>, w')
                 | Inl e \<Rightarrow> (Inl e, r, w'))"

fun legacy_loop ::
    "'w dns_env \<Rightarrow> string \<Rightarrow> uint16 \<Rightarrow> binding \<Rightarrow> string list \<Rightarrow> resolve_error list \<Rightarrow> 'w \<Rightarrow>
       (resolve_error list + dns_result \<times> duration) \<times> 'w" where
  "legacy_loop env domain recordType b [] failures w = (Inl failures, w)"
| "legacy_loop env domain recordType b (server # servers) failures w =
     (let (u, w) = queryUDP env domain recordType b server w
      in case u of
           Inr ok \<Rightarrow> (Inr ok, w)
         | Inl eu \<Rightarrow>
             (let (t, w) = queryTCP env domain recordType b server w
              in case t of
                   Inr ok \<Rightarrow> (Inr ok, w)
                 | Inl et \<Rightarrow>
                     let failures = failures @ [UdpErr server eu, TcpErr server et]
                     in if ev_ctx_err env w \<noteq> None then (Inl failures, w)
                        else legacy_loop env domain recordType b servers failures w))"

definition resolveLegacy ::
    "'w dns_env \<Rightarrow> string \<Rightarrow> uint16 \<Rightarrow> binding \<Rightarrow> resolver \<Rightarrow> 'w \<Rightarrow>
       (resolve_error + dns_result \<times> duration) \<times> resolver \<times> 'w" where
  "resolveLegacy env domain recordType b r w =
     (let (out, w) = legacy_loop env domain recordType b (LegacyServers (rs_config r) b) [] w
      in case out of
           Inr ok \<Rightarrow> (Inr ok, r\<lparr>rs_legacySuccesses := rs_legacySuccesses r + 1\<rparr>, w)
         | Inl failures \<Rightarrow>
             (case ev_ctx_err env w of
                Some e \<Rightarrow> (Inl (CtxErr e), r, w)
              | None \<Rightarrow> (Inl (Joined failures), r\<lparr>rs_legacyFailures := rs_legacyFailures r + 1\<rparr>, w)))"

definition wire_type :: "record_type \<Rightarrow> uint16" where
  "wire_type t = (case t of RecordA \<Rightarrow> dnsTypeA | RecordAAAA \<Rightarrow> dnsTypeAAAA)"

definition resolveUncached ::
    "'w dns_env \<Rightarrow> string \<Rightarrow> record_type \<Rightarrow> binding \<Rightarrow> resolver \<Rightarrow> 'w \<Rightarrow>
       (resolve_error + dns_result \<times> duration) \<times> resolver \<times> 'w" where
  "resolveUncached env domain recordType b r w =
     (let wireType = wire_type recordType
      in if dc_Policy (rs_config r) \<noteq> PolicyOff
         then (let (out, r, w) = resolveDoH env domain wireType b r w
               in case out of
                    Inr ok \<Rightarrow> (Inr ok, recordDoHSuccess b r, w)
                  | Inl err \<Rightarrow>
                      (case ev_ctx_err env w of
                         Some e \<Rightarrow> (Inl (CtxErr e), r, w)
                       | None \<Rightarrow>
                           let r = r\<lparr>rs_dohFailures := rs_dohFailures r + 1\<rparr>
                           in if dc_Policy (rs_config r) \<noteq> PolicyAuto
                              then (Inl (DoHFailed err), recordStrictFailure (ev_error_text env) b err r, w)
                              else let r = r\<lparr>rs_automaticFallbacks := rs_automaticFallbacks r + 1\<rparr>;
                                       (legacy, r, w) = resolveLegacy env domain wireType b r w
                                   in case legacy of
                                        Inr ok \<Rightarrow> (Inr ok, r, w)
                                      | Inl legacyErr \<Rightarrow> (Inl (AutoFailed err legacyErr), r, w)))
         else resolveLegacy env domain wireType b r w)"

subsection \<open>The single-flight protocol\<close>

text \<open>The second half of \<open>runLookup\<close>, with the two clock readings it makes.\<close>

definition label_result :: "go_time \<Rightarrow> dns_config \<Rightarrow> cache_key \<Rightarrow> binding \<Rightarrow> dns_result \<Rightarrow> duration \<Rightarrow> dns_result" where
  "label_result now c key b res ttl0 =
     (let ttl = (if ttl0 > dc_CacheTTL c then dc_CacheTTL c else ttl0)
      in res\<lparr>re_Domain := ck_domain key, re_RecordType := Some (ck_recordType key), re_Adapter := bd_Name b,
             re_ExpiresAt := (if ttl > 0 then Some (now + ttl) else re_ExpiresAt res)\<rparr>)"

definition finish_lookup ::
    "go_time \<Rightarrow> go_time \<Rightarrow> cache_key \<Rightarrow> binding \<Rightarrow> nat \<Rightarrow> resolve_error + dns_result \<times> duration \<Rightarrow> resolver \<Rightarrow> resolver" where
  "finish_lookup now1 now2 key b call out r =
     (let outcome = (case out of
                       Inl e \<Rightarrow> Inl e
                     | Inr (res, ttl) \<Rightarrow> Inr (label_result now1 (rs_config r) key b res ttl));
          r = (case outcome of
                 Inl e \<Rightarrow> r
               | Inr res \<Rightarrow>
                   (case re_ExpiresAt res of
                      None \<Rightarrow> r
                    | Some t \<Rightarrow>
                        let r = makeCacheRoom now2 r
                        in r\<lparr>rs_cache := AList.update key \<lparr>ce_result = res, ce_expiresAt = t\<rparr> (rs_cache r)\<rparr>))
      in r\<lparr>rs_lookups := (rs_lookups r)(call := Some outcome),
           rs_inflight := AList.delete key (rs_inflight r)\<rparr>)"

definition runLookup ::
    "'w dns_env \<Rightarrow> cache_key \<Rightarrow> binding \<Rightarrow> nat \<Rightarrow> resolver \<Rightarrow> 'w \<Rightarrow> resolver \<times> 'w" where
  "runLookup env key b call r w =
     (let (out, r, w) = resolveUncached env (ck_domain key) (ck_recordType key) b r w
      in (finish_lookup (ev_now env w) (ev_now env w) key b call out r, w))"

datatype begin_result =
    Rejected resolve_error
  | Hit dns_result
  | Waiting nat "(cache_key \<times> binding) option"

definition key_of :: "(string \<Rightarrow> string option) \<Rightarrow> dns_query \<Rightarrow> resolve_error + cache_key \<times> binding" where
  "key_of to_ascii q =
     (case NormalizeBinding (qu_Binding q) of
        Inl e \<Rightarrow> Inl (BindingErr e)
      | Inr b \<Rightarrow>
          (case normalize_dns_domain to_ascii (qu_Domain q) of
             Inl e \<Rightarrow> Inl (WireErr e)
           | Inr domain \<Rightarrow>
               (case normalizeRecordType (qu_RecordType q) of
                  Inl e \<Rightarrow> Inl (WireErr e)
                | Inr (t, _) \<Rightarrow> Inr
                    (\<lparr>ck_adapter = bd_Name b, ck_sourceIP = bd_SourceIP b, ck_ifIndex = bd_IfIndex b,
                      ck_domain = domain, ck_recordType = t\<rparr>, b))))"

text \<open>\<open>Resolve\<close> up to the end of its critical section: a hit, or the lookup to wait for and, if this
  caller creates it, the arguments of the goroutine it starts.\<close>

definition resolve_begin ::
    "(string \<Rightarrow> string option) \<Rightarrow> go_time \<Rightarrow> dns_query \<Rightarrow> resolver \<Rightarrow> begin_result \<times> resolver" where
  "resolve_begin to_ascii now q r =
     (case key_of to_ascii q of
        Inl e \<Rightarrow> (Rejected e, r)
      | Inr (key, b) \<Rightarrow>
          let r = removeExpired now (r\<lparr>rs_queries := rs_queries r + 1\<rparr>)
          in case map_of (rs_cache r) key of
               Some entry \<Rightarrow>
                 (Hit ((ce_result entry)\<lparr>re_Cached := True\<rparr>), r\<lparr>rs_cacheHits := rs_cacheHits r + 1\<rparr>)
             | None \<Rightarrow>
                 (case map_of (rs_inflight r) key of
                    Some call \<Rightarrow> (Waiting call None, r)
                  | None \<Rightarrow>
                      (Waiting (rs_nextLookup r) (Some (key, b)),
                       r\<lparr>rs_inflight := AList.update key (rs_nextLookup r) (rs_inflight r),
                         rs_nextLookup := rs_nextLookup r + 1\<rparr>)))"

text \<open>The final \<open>select\<close>; a lookup that is not done leaves only the context to end the wait.\<close>

definition resolve_wait :: "wait_event \<Rightarrow> nat \<Rightarrow> resolver \<Rightarrow> lookup_outcome" where
  "resolve_wait ev call r =
     (case ev of
        LookupDone \<Rightarrow> (case rs_lookups r call of Some out \<Rightarrow> out | None \<Rightarrow> Inl (CtxErr 0))
      | WaitCtxDone e \<Rightarrow> Inl (CtxErr e)
      | RootDone e \<Rightarrow> Inl (CtxErr e))"

text \<open>\<open>Resolve\<close> as its caller sees it when the goroutine it starts runs before the wait ends.\<close>

definition Resolve :: "'w dns_env \<Rightarrow> dns_query \<Rightarrow> resolver \<Rightarrow> 'w \<Rightarrow> lookup_outcome \<times> resolver \<times> 'w" where
  "Resolve env q r w =
     (case resolve_begin (ev_to_ascii env) (ev_now env w) q r of
        (Rejected e, r) \<Rightarrow> (Inl e, r, w)
      | (Hit res, r) \<Rightarrow> (Inr res, r, w)
      | (Waiting call None, r) \<Rightarrow> (resolve_wait (ev_wait env w) call r, r, w)
      | (Waiting call (Some (key, b)), r) \<Rightarrow>
          (let (r, w) = runLookup env key b call r w
           in (resolve_wait (ev_wait env w) call r, r, w)))"

definition resolver_status :: "go_time \<Rightarrow> resolver \<Rightarrow> dns_status \<times> resolver" where
  "resolver_status now r0 =
     (let r = removeExpired now r0
      in (\<lparr>st_Policy = dc_Policy (rs_config r), st_LegacyServers = dc_LegacyServers (rs_config r),
           st_DoHEndpoints = Endpoints (dc_Policy (rs_config r)), st_CacheEntries = length (rs_cache r),
           st_Inflight = length (rs_inflight r), st_Queries = rs_queries r, st_CacheHits = rs_cacheHits r,
           st_DoHSuccesses = rs_dohSuccesses r, st_DoHFailures = rs_dohFailures r,
           st_LegacySuccesses = rs_legacySuccesses r, st_LegacyFailures = rs_legacyFailures r,
           st_AutomaticFallbacks = rs_automaticFallbacks r\<rparr>, r))"

section \<open>Eviction\<close>

lemma oldest_loop_spec:
  "oldest_loop acc cache = (case acc of Some (k0, t0) \<Rightarrow>
       (if list_all (\<lambda>(k, e). t0 \<le> ce_expiresAt e) cache then acc else oldest_loop None cache)
     | None \<Rightarrow> oldest_loop None cache)"
proof (induction cache arbitrary: acc)
  case (Cons p rest)
  obtain k e where p: "p = (k, e)" by fastforce
  show ?case
  proof (cases acc)
    case (Some a)
    obtain k0 t0 where a: "a = (k0, t0)" by fastforce
    show ?thesis
      using Cons.IH [of "Some (k0, t0)"] Cons.IH [of "Some (k, ce_expiresAt e)"]
      by (auto simp: Some a p go_defs list_all_iff split: if_splits)
  qed simp
qed (simp split: option.splits)

lemma oldest_loop_min:
  "cache \<noteq> [] \<Longrightarrow> \<exists>k e. oldest_loop None cache = Some (k, ce_expiresAt e) \<and> (k, e) \<in> set cache
      \<and> (\<forall>k' e'. (k', e') \<in> set cache \<longrightarrow> ce_expiresAt e \<le> ce_expiresAt e')"
proof (induction cache)
  case (Cons p rest)
  obtain k e where p: "p = (k, e)" by fastforce
  have o: "oldest_loop None (p # rest) =
      (if list_all (\<lambda>(k', e'). ce_expiresAt e \<le> ce_expiresAt e') rest then Some (k, ce_expiresAt e)
       else oldest_loop None rest)"
    using oldest_loop_spec [of "Some (k, ce_expiresAt e)" rest] by (simp add: p)
  show ?case
  proof (cases "list_all (\<lambda>(k', e'). ce_expiresAt e \<le> ce_expiresAt e') rest")
    case True
    then show ?thesis using o by (auto simp: p list_all_iff)
  next
    case False
    then have "rest \<noteq> []" by auto
    with Cons.IH obtain k1 e1 where i: "oldest_loop None rest = Some (k1, ce_expiresAt e1)" "(k1, e1) \<in> set rest"
      "\<forall>k' e'. (k', e') \<in> set rest \<longrightarrow> ce_expiresAt e1 \<le> ce_expiresAt e'" by blast
    moreover have "ce_expiresAt e1 \<le> ce_expiresAt e"
      using False i(3) by (fastforce simp: list_all_iff)
    ultimately show ?thesis using o False by (auto simp: p)
  qed
qed simp

lemma delete_length:
  "distinct (map fst al) \<Longrightarrow> k \<in> fst ` set al \<Longrightarrow> Suc (length (AList.delete k al)) = length al"
proof (induction al)
  case (Cons p al)
  have "AList.delete k al = al" if "k \<notin> fst ` set al" using that by (simp add: delete_idem)
  then show ?case using Cons by (auto simp: AList.delete_eq)
qed simp

lemma evict_loop_spec:
  assumes "distinct (map fst cache)" "length cache \<le> n" "0 < limit"
  shows "length (evict_loop n limit cache) < limit \<and> set (evict_loop n limit cache) \<subseteq> set cache
    \<and> distinct (map fst (evict_loop n limit cache))
    \<and> (\<forall>(k, e) \<in> set cache - set (evict_loop n limit cache). \<forall>(k', e') \<in> set (evict_loop n limit cache).
         ce_expiresAt e \<le> ce_expiresAt e')
    \<and> (length cache < limit \<longrightarrow> evict_loop n limit cache = cache)"
  using assms
proof (induction n arbitrary: cache)
  case (Suc n)
  show ?case
  proof (cases "length cache < limit")
    case False
    then have "cache \<noteq> []" using Suc.prems(3) by auto
    then obtain k e where o: "oldest_loop None cache = Some (k, ce_expiresAt e)" and ke: "(k, e) \<in> set cache"
      and min: "\<And>k' e'. (k', e') \<in> set cache \<Longrightarrow> ce_expiresAt e \<le> ce_expiresAt e'"
      using oldest_loop_min by blast
    define c where "c = AList.delete k cache"
    have len: "Suc (length c) = length cache"
      unfolding c_def using Suc.prems(1) ke by (intro delete_length) force+
    have d: "distinct (map fst c)" using Suc.prems(1) by (simp add: c_def distinct_delete)
    have sub: "set c \<subseteq> set cache" by (simp add: c_def AList.delete_eq)
    have gone: "p \<in> set c" if "p \<in> set cache" "p \<noteq> (k, e)" for p
      using that eq_key_imp_eq_value [OF Suc.prems(1) ke] by (cases p) (auto simp: c_def AList.delete_eq)
    have e: "evict_loop (Suc n) limit cache = evict_loop n limit c" using False o by (simp add: c_def)
    have ih: "length (evict_loop n limit c) < limit \<and> set (evict_loop n limit c) \<subseteq> set c
      \<and> distinct (map fst (evict_loop n limit c))
      \<and> (\<forall>(k, e) \<in> set c - set (evict_loop n limit c). \<forall>(k', e') \<in> set (evict_loop n limit c).
           ce_expiresAt e \<le> ce_expiresAt e')"
      using Suc.IH [OF d _ Suc.prems(3)] len Suc.prems(2) by simp
    have "\<forall>(k1, e1) \<in> set cache - set (evict_loop n limit c). \<forall>(k', e') \<in> set (evict_loop n limit c).
           ce_expiresAt e1 \<le> ce_expiresAt e'"
    proof (clarify)
      fix k1 e1 k' e'
      assume a: "(k1, e1) \<in> set cache" "(k1, e1) \<notin> set (evict_loop n limit c)" "(k', e') \<in> set (evict_loop n limit c)"
      show "ce_expiresAt e1 \<le> ce_expiresAt e'"
      proof (cases "(k1, e1) = (k, e)")
        case True
        then show ?thesis using min [of k' e'] a ih sub by blast
      next
        case neq: False
        then show ?thesis using gone [OF a(1)] a ih by blast
      qed
    qed
    then show ?thesis unfolding e using ih sub False by blast
  qed (use Suc.prems in auto)
qed simp

lemma removeExpired_simps [simp]:
  "rs_config (removeExpired now r) = rs_config r" "rs_inflight (removeExpired now r) = rs_inflight r"
  "rs_lookups (removeExpired now r) = rs_lookups r" "rs_nextLookup (removeExpired now r) = rs_nextLookup r"
  "rs_strictFailures (removeExpired now r) = rs_strictFailures r"
  "rs_fallbackEmitted (removeExpired now r) = rs_fallbackEmitted r"
  by (simp_all add: removeExpired_def)

lemma makeCacheRoom_simps [simp]:
  "rs_config (makeCacheRoom now r) = rs_config r" "rs_inflight (makeCacheRoom now r) = rs_inflight r"
  "rs_lookups (makeCacheRoom now r) = rs_lookups r" "rs_nextLookup (makeCacheRoom now r) = rs_nextLookup r"
  "rs_strictFailures (makeCacheRoom now r) = rs_strictFailures r"
  "rs_fallbackEmitted (makeCacheRoom now r) = rs_fallbackEmitted r"
  by (simp_all add: makeCacheRoom_def Let_def)

lemma removeExpired_cache:
  "set (rs_cache (removeExpired now r)) = {(k, e) \<in> set (rs_cache r). now < ce_expiresAt e}"
  by (auto simp: removeExpired_def go_defs)

lemma removeExpired_distinct:
  "distinct (map fst (rs_cache r)) \<Longrightarrow> distinct (map fst (rs_cache (removeExpired now r)))"
  by (simp add: removeExpired_def distinct_map_filter)

lemma removeExpired_length: "length (rs_cache (removeExpired now r)) \<le> length (rs_cache r)"
  by (simp add: removeExpired_def)

lemma makeCacheRoom_spec:
  fixes now :: go_time and r :: resolver
  assumes "distinct (map fst (rs_cache r))" "0 < dc_MaxCacheEntries (rs_config r)"
  defines "r' \<equiv> makeCacheRoom now r"
  shows "int (length (rs_cache r')) < dc_MaxCacheEntries (rs_config r)
    \<and> distinct (map fst (rs_cache r'))
    \<and> (\<forall>(k, e) \<in> set (rs_cache r'). (k, e) \<in> set (rs_cache r) \<and> now < ce_expiresAt e)
    \<and> (\<forall>(k, e) \<in> set (rs_cache r) - set (rs_cache r'). now < ce_expiresAt e \<longrightarrow>
         int (length (rs_cache r)) \<ge> dc_MaxCacheEntries (rs_config r)
         \<and> (\<forall>(k', e') \<in> set (rs_cache r'). ce_expiresAt e \<le> ce_expiresAt e'))"
proof -
  define c where "c = rs_cache (removeExpired now r)"
  define n where "n = nat (dc_MaxCacheEntries (rs_config r))"
  have c: "rs_cache r' = evict_loop (length c) n c"
    by (simp add: r'_def makeCacheRoom_def Let_def c_def n_def)
  have sp: "length (evict_loop (length c) n c) < n \<and> set (evict_loop (length c) n c) \<subseteq> set c
    \<and> distinct (map fst (evict_loop (length c) n c))
    \<and> (\<forall>(k, e) \<in> set c - set (evict_loop (length c) n c). \<forall>(k', e') \<in> set (evict_loop (length c) n c).
         ce_expiresAt e \<le> ce_expiresAt e')
    \<and> (length c < n \<longrightarrow> evict_loop (length c) n c = c)"
    using removeExpired_distinct [OF assms(1), of now] assms(2)
    by (intro evict_loop_spec) (simp_all add: c_def n_def)
  have sc: "set c = {(k, e) \<in> set (rs_cache r). now < ce_expiresAt e}" by (simp add: c_def removeExpired_cache)
  have full: "int (length (rs_cache r)) \<ge> dc_MaxCacheEntries (rs_config r)"
    if "(k, e) \<in> set c" "(k, e) \<notin> set (rs_cache r')" for k e
    using that sp removeExpired_length [of now r] c by (fastforce simp: c_def n_def)
  have n: "int n = dc_MaxCacheEntries (rs_config r)" using assms(2) by (simp add: n_def)
  then have "int (length (rs_cache r')) < dc_MaxCacheEntries (rs_config r)" using sp c by simp
  moreover have "\<forall>(k, e) \<in> set (rs_cache r'). (k, e) \<in> set (rs_cache r) \<and> now < ce_expiresAt e"
    using sp sc unfolding c by blast
  moreover have "\<forall>(k, e) \<in> set (rs_cache r) - set (rs_cache r'). now < ce_expiresAt e \<longrightarrow>
         int (length (rs_cache r)) \<ge> dc_MaxCacheEntries (rs_config r)
         \<and> (\<forall>(k', e') \<in> set (rs_cache r'). ce_expiresAt e \<le> ce_expiresAt e')"
    using sp sc full unfolding c by blast
  ultimately show ?thesis using sp c by simp
qed

text \<open>
  Making room keeps the best part of the cache: afterwards there is room for one more
  entry, all entries that are kept were there and have not expired, entries that had not
  expired were dropped only if the cache was full, and none of them would have outlived an
  entry that is kept.
\<close>

theorem makeCacheRoom_evicts_oldest:
  fixes now :: go_time and r :: resolver
  assumes "distinct (map fst (rs_cache r))" "0 < dc_MaxCacheEntries (rs_config r)"
  defines "r' \<equiv> makeCacheRoom now r"
  shows "int (length (rs_cache r')) < dc_MaxCacheEntries (rs_config r)
    \<and> distinct (map fst (rs_cache r'))
    \<and> (\<forall>(k, e) \<in> set (rs_cache r'). (k, e) \<in> set (rs_cache r) \<and> now < ce_expiresAt e)
    \<and> (\<forall>(k, e) \<in> set (rs_cache r) - set (rs_cache r'). now < ce_expiresAt e \<longrightarrow>
         int (length (rs_cache r)) \<ge> dc_MaxCacheEntries (rs_config r)
         \<and> (\<forall>(k', e') \<in> set (rs_cache r'). ce_expiresAt e \<le> ce_expiresAt e'))"
  unfolding r'_def using assms(1,2) by (rule makeCacheRoom_spec)

section \<open>The resolver as a transition system\<close>

text \<open>
  Any goroutine may run any of the critical sections at any time. A lookup that finishes is
  the one registered for its key, with any outcome whatsoever for the binding of the key.
\<close>

datatype resolver_event = EvResolve | EvFinishLookup nat | EvReport | EvOther

inductive resolver_step :: "resolver \<Rightarrow> resolver_event \<Rightarrow> resolver \<Rightarrow> bool" where
  rs_begin: "resolve_begin to_ascii now q r = (res, r') \<Longrightarrow> resolver_step r EvResolve r'"
| rs_finish: "map_of (rs_inflight r) key = Some call \<Longrightarrow> bd_Name b = ck_adapter key \<Longrightarrow>
     resolver_step r (EvFinishLookup call) (finish_lookup now1 now2 key b call out r)"
| rs_success: "resolver_step r EvReport (recordDoHSuccess b r)"
| rs_failure: "resolver_step r EvReport (recordStrictFailure text b e r)"
| rs_handler: "resolver_step r EvOther (SetFallbackHandler on r)"
| rs_status: "resolver_step r EvOther (snd (resolver_status now r))"
| rs_count1: "resolver_step r EvOther (r\<lparr>rs_dohSuccesses := n\<rparr>)"
| rs_count2: "resolver_step r EvOther (r\<lparr>rs_dohFailures := n\<rparr>)"
| rs_count3: "resolver_step r EvOther (r\<lparr>rs_legacySuccesses := n\<rparr>)"
| rs_count4: "resolver_step r EvOther (r\<lparr>rs_legacyFailures := n\<rparr>)"
| rs_count5: "resolver_step r EvOther (r\<lparr>rs_automaticFallbacks := n\<rparr>)"

definition resolver_init :: "resolver \<Rightarrow> bool" where
  "resolver_init r \<longleftrightarrow> (\<exists>config. new_resolver config True = Inr r)"

definition answers_key :: "cache_key \<Rightarrow> dns_result \<Rightarrow> bool" where
  "answers_key k res \<longleftrightarrow> re_Domain res = ck_domain k \<and> re_RecordType res = Some (ck_recordType k)
     \<and> re_Adapter res = ck_adapter k"

definition resolver_inv :: "resolver \<Rightarrow> bool" where
  "resolver_inv r \<longleftrightarrow>
     wf_dns_config (rs_config r)
     \<and> distinct (map fst (rs_cache r)) \<and> int (length (rs_cache r)) \<le> dc_MaxCacheEntries (rs_config r)
     \<and> (\<forall>(k, e) \<in> set (rs_cache r). answers_key k (ce_result e)
          \<and> re_ExpiresAt (ce_result e) = Some (ce_expiresAt e))
     \<and> distinct (map fst (rs_inflight r)) \<and> distinct (map snd (rs_inflight r))
     \<and> (\<forall>call \<in> snd ` set (rs_inflight r). call < rs_nextLookup r \<and> rs_lookups r call = None)
     \<and> (\<forall>call. rs_nextLookup r \<le> call \<longrightarrow> rs_lookups r call = None)"

text \<open>The part of the invariant about the cache and the part about lookups.\<close>

lemma inv_removeExpired: "resolver_inv r \<Longrightarrow> resolver_inv (removeExpired now r)"
  using removeExpired_length [of now r] removeExpired_distinct [of r now]
  by (auto simp: resolver_inv_def removeExpired_cache)

lemma resolver_inv_cong:
  assumes "resolver_inv r" "rs_config r' = rs_config r" "rs_cache r' = rs_cache r"
    "rs_inflight r' = rs_inflight r" "rs_lookups r' = rs_lookups r" "rs_nextLookup r' = rs_nextLookup r"
  shows "resolver_inv r'"
  using assms by (simp add: resolver_inv_def)

lemma inv_begin:
  assumes "resolver_inv r" "resolve_begin to_ascii now q r = (res, r')"
  shows "resolver_inv r'"
proof (cases "key_of to_ascii q")
  case (Inr kb)
  obtain key b where kb: "kb = (key, b)" by fastforce
  define r1 where "r1 = removeExpired now (r\<lparr>rs_queries := rs_queries r + 1\<rparr>)"
  have i1: "resolver_inv r1" unfolding r1_def
    by (rule inv_removeExpired, rule resolver_inv_cong [OF assms(1)]) simp_all
  show ?thesis
  proof (cases "map_of (rs_cache r1) key")
    case (Some e)
    then have "r' = r1\<lparr>rs_cacheHits := rs_cacheHits r1 + 1\<rparr>"
      using assms(2) by (simp add: resolve_begin_def Inr kb r1_def [symmetric])
    then show ?thesis by (intro resolver_inv_cong [OF i1]) simp_all
  next
    case None
    show ?thesis
    proof (cases "map_of (rs_inflight r1) key")
      case (Some call)
      then have "r' = r1" using assms(2) None by (simp add: resolve_begin_def Inr kb r1_def [symmetric])
      then show ?thesis using i1 by simp
    next
      case fresh: None
      then have r': "r' = r1\<lparr>rs_inflight := AList.update key (rs_nextLookup r1) (rs_inflight r1),
                         rs_nextLookup := rs_nextLookup r1 + 1\<rparr>"
        using assms(2) None by (simp add: resolve_begin_def Inr kb r1_def [symmetric])
      have u: "AList.update key v al = al @ [(key, v)]" if "map_of al key = None" for al :: "(cache_key \<times> nat) list" and v
        using that by (induction al) (auto split: if_splits)
      show ?thesis using i1 fresh
        by (auto simp: r' u resolver_inv_def map_of_eq_None_iff less_Suc_eq)
    qed
  qed
qed (use assms in \<open>simp add: resolve_begin_def\<close>)

lemma label_result_answers:
  "bd_Name b = ck_adapter key \<Longrightarrow> answers_key key (label_result now c key b res ttl)"
  by (simp add: label_result_def answers_key_def Let_def)

lemma inv_store:
  assumes "resolver_inv r" "answers_key key res" "re_ExpiresAt res = Some t"
  shows "resolver_inv ((makeCacheRoom now r)\<lparr>rs_cache :=
    AList.update key \<lparr>ce_result = res, ce_expiresAt = t\<rparr> (rs_cache (makeCacheRoom now r))\<rparr>)"
proof -
  define c where "c = rs_cache (makeCacheRoom now r)"
  have d: "distinct (map fst (rs_cache r))" and m: "0 < dc_MaxCacheEntries (rs_config r)"
    using assms(1) by (auto simp: resolver_inv_def wf_dns_config_def)
  note room = makeCacheRoom_spec [OF d m, of now, folded c_def]
  have len: "length (AList.update key v al) \<le> Suc (length al)" for v :: cache_entry and al
    by (induction al) auto
  have "int (length (AList.update key \<lparr>ce_result = res, ce_expiresAt = t\<rparr> c)) \<le> dc_MaxCacheEntries (rs_config r)"
    using room len [of "\<lparr>ce_result = res, ce_expiresAt = t\<rparr>" c] by linarith
  moreover have "set (AList.update key v c) \<subseteq> insert (key, v) (set c)" for v
    by (induction c) auto
  ultimately show ?thesis
    using assms room by (fastforce simp: resolver_inv_def c_def [symmetric] distinct_update)
qed

lemma label_result_expiry:
  "re_ExpiresAt res = None \<Longrightarrow> re_ExpiresAt (label_result now c key b res ttl) = Some t \<Longrightarrow>
     now < t \<and> t \<le> now + dc_CacheTTL c \<and> t \<le> now + ttl"
  by (auto simp: label_result_def Let_def split: if_splits)

text \<open>The store part of \<^const>\<open>finish_lookup\<close>.\<close>

definition store_outcome :: "go_time \<Rightarrow> cache_key \<Rightarrow> lookup_outcome \<Rightarrow> resolver \<Rightarrow> resolver" where
  "store_outcome now key outcome r = (case outcome of
     Inl e \<Rightarrow> r
   | Inr res \<Rightarrow>
       (case re_ExpiresAt res of
          None \<Rightarrow> r
        | Some t \<Rightarrow>
            let r = makeCacheRoom now r
            in r\<lparr>rs_cache := AList.update key \<lparr>ce_result = res, ce_expiresAt = t\<rparr> (rs_cache r)\<rparr>))"

definition labelled :: "go_time \<Rightarrow> dns_config \<Rightarrow> cache_key \<Rightarrow> binding \<Rightarrow> resolve_error + dns_result \<times> duration \<Rightarrow> lookup_outcome" where
  "labelled now c key b out = (case out of Inl e \<Rightarrow> Inl e | Inr (res, ttl) \<Rightarrow> Inr (label_result now c key b res ttl))"

lemma finish_lookup_eq:
  "finish_lookup now1 now2 key b call out r =
     (let outcome = labelled now1 (rs_config r) key b out; r = store_outcome now2 key outcome r
      in r\<lparr>rs_lookups := (rs_lookups r)(call := Some outcome), rs_inflight := AList.delete key (rs_inflight r)\<rparr>)"
  by (simp add: finish_lookup_def labelled_def store_outcome_def Let_def)

lemma store_outcome_simps [simp]:
  "rs_config (store_outcome now key out r) = rs_config r" "rs_inflight (store_outcome now key out r) = rs_inflight r"
  "rs_lookups (store_outcome now key out r) = rs_lookups r" "rs_nextLookup (store_outcome now key out r) = rs_nextLookup r"
  by (simp_all add: store_outcome_def Let_def split: sum.splits option.splits)

lemma inv_finish:
  assumes inv: "resolver_inv r" and call: "map_of (rs_inflight r) key = Some call"
    and b: "bd_Name b = ck_adapter key"
  shows "resolver_inv (finish_lookup now1 now2 key b call out r)"
proof -
  define outcome where "outcome = labelled now1 (rs_config r) key b out"
  define r1 where "r1 = store_outcome now2 key outcome r"
  have ans: "answers_key key res" if "outcome = Inr res" for res
    using that b by (auto simp: outcome_def labelled_def intro: label_result_answers split: sum.splits prod.splits)
  have i1: "resolver_inv r1"
    using inv ans inv_store [OF inv, of key]
    by (auto simp: r1_def store_outcome_def Let_def split: sum.splits option.splits)
  have eqs: "rs_inflight r1 = rs_inflight r" "rs_lookups r1 = rs_lookups r" "rs_nextLookup r1 = rs_nextLookup r"
    by (simp_all add: r1_def)
  have mem: "(key, call) \<in> set (rs_inflight r)" using call by (rule map_of_SomeD)
  have dk: "distinct (map fst (rs_inflight r))" and dc: "distinct (map snd (rs_inflight r))"
    using inv by (simp_all add: resolver_inv_def)
  have sub: "set (AList.delete key (rs_inflight r)) = {p \<in> set (rs_inflight r). fst p \<noteq> key}"
    by (auto simp: AList.delete_eq)
  have "distinct (map snd (AList.delete key (rs_inflight r)))"
    using dc by (simp add: AList.delete_eq distinct_map_filter)
  moreover have "distinct (map fst (AList.delete key (rs_inflight r)))" using dk by (rule distinct_delete)
  moreover have "c \<noteq> call" if "c \<in> snd ` set (AList.delete key (rs_inflight r))" for c
    using that mem dc by (fastforce simp: sub distinct_map inj_on_def)
  moreover have "call < rs_nextLookup r" using inv mem by (force simp: resolver_inv_def)
  ultimately have "resolver_inv (r1\<lparr>rs_lookups := (rs_lookups r1)(call := Some outcome),
      rs_inflight := AList.delete key (rs_inflight r1)\<rparr>)"
    using i1 unfolding resolver_inv_def by (auto simp: eqs sub)
  then show ?thesis by (simp add: finish_lookup_eq outcome_def r1_def Let_def)
qed

lemma recordStrictFailure_simps [simp]:
  "rs_config (recordStrictFailure text b e r) = rs_config r" "rs_cache (recordStrictFailure text b e r) = rs_cache r"
  "rs_inflight (recordStrictFailure text b e r) = rs_inflight r"
  "rs_lookups (recordStrictFailure text b e r) = rs_lookups r"
  "rs_nextLookup (recordStrictFailure text b e r) = rs_nextLookup r"
  by (simp_all add: recordStrictFailure_def Let_def)

lemma inv_new: "new_resolver config True = Inr r \<Longrightarrow> resolver_inv r"
  by (auto simp: new_resolver_def resolver_inv_def wf_dns_config_def dest!: NormalizeConfig_wf split: sum.splits)

interpretation resolver: invariant_system resolver_init resolver_step resolver_inv
proof
  show "resolver_inv r" if "resolver_init r" for r
    using that by (auto simp: resolver_init_def intro: inv_new)
  show "resolver_inv r'" if inv: "resolver_inv r" and "resolver_step r e r'" for r e r'
    using that(2)
  proof cases
    case rs_begin
    then show ?thesis using inv inv_begin by blast
  next
    case rs_finish
    then show ?thesis using inv inv_finish by blast
  next
    case rs_success
    then show ?thesis by (intro resolver_inv_cong [OF inv]) (simp_all add: recordDoHSuccess_def)
  next
    case rs_failure
    then show ?thesis by (intro resolver_inv_cong [OF inv]) simp_all
  next
    case rs_handler
    then show ?thesis by (intro resolver_inv_cong [OF inv]) (simp_all add: SetFallbackHandler_def)
  next
    case rs_status
    then show ?thesis using inv_removeExpired [OF inv] by (simp add: resolver_status_def Let_def)
  qed (auto intro: resolver_inv_cong [OF inv])
qed

lemma begin_hit:
  assumes inv: "resolver_inv r" and h: "resolve_begin to_ascii now q r = (Hit res, r')"
  shows "\<exists>key b t. key_of to_ascii q = Inr (key, b) \<and> answers_key key res
      \<and> re_Cached res \<and> re_ExpiresAt res = Some t \<and> now < t"
proof -
  obtain key b where k: "key_of to_ascii q = Inr (key, b)"
    using h by (auto simp: resolve_begin_def split: sum.splits)
  define r1 where "r1 = removeExpired now (r\<lparr>rs_queries := rs_queries r + 1\<rparr>)"
  obtain e where e: "map_of (rs_cache r1) key = Some e" and res: "res = (ce_result e)\<lparr>re_Cached := True\<rparr>"
    using h by (auto simp: resolve_begin_def k r1_def [symmetric] split: option.splits)
  have "(key, e) \<in> set (rs_cache r1)" using e by (rule map_of_SomeD)
  then have "(key, e) \<in> set (rs_cache r)" "now < ce_expiresAt e" by (auto simp: r1_def removeExpired_cache)
  then show ?thesis using inv k res by (fastforce simp: resolver_inv_def answers_key_def)
qed

lemma begin_wait:
  assumes inv: "resolver_inv r" and h: "resolve_begin to_ascii now q r = (Waiting call st, r')"
  shows "rs_lookups r' call = None \<and> (\<exists>r''. resolve_begin to_ascii now2 q r' = (Waiting call None, r''))"
proof -
  obtain key b where k: "key_of to_ascii q = Inr (key, b)"
    using h by (auto simp: resolve_begin_def split: sum.splits)
  define r1 where "r1 = removeExpired now (r\<lparr>rs_queries := rs_queries r + 1\<rparr>)"
  have none: "map_of (rs_cache r1) key = None"
    using h by (auto simp: resolve_begin_def k r1_def [symmetric] split: option.splits)
  then have inf: "map_of (rs_inflight r') key = Some call" and cache: "rs_cache r' = rs_cache r1"
    using h by (auto simp: resolve_begin_def k r1_def [symmetric] update_conv' split: option.splits)
  have "rs_lookups r' call = None"
    using inv_begin [OF inv h] map_of_SomeD [OF inf] by (force simp: resolver_inv_def)
  moreover have "key \<notin> fst ` set (rs_cache r1)" using none by (simp add: map_of_eq_None_iff)
  then have "map_of (rs_cache (removeExpired now2 (r'\<lparr>rs_queries := rs_queries r' + 1\<rparr>))) key = None"
    by (auto simp: map_of_eq_None_iff removeExpired_cache cache)
  ultimately show ?thesis using inf by (simp add: resolve_begin_def k)
qed


text \<open>A whole lookup, network included, is a sequence of such steps.\<close>

abbreviation resolver_reach :: "resolver \<Rightarrow> bool" where
  "resolver_reach \<equiv> reach resolver_init resolver_step"

lemmas resolver_reach_step = reach_step [of resolver_init resolver_step]

lemmas counters_reach =
  resolver_reach_step [OF _ rs_count1] resolver_reach_step [OF _ rs_count2] resolver_reach_step [OF _ rs_count3]
  resolver_reach_step [OF _ rs_count4] resolver_reach_step [OF _ rs_count5]

lemma resolveLegacy_reach:
  "resolver_reach r \<Longrightarrow> resolveLegacy env d t b r w = (out, r', w') \<Longrightarrow> resolver_reach r' \<and> rs_inflight r' = rs_inflight r"
  by (auto simp: resolveLegacy_def Let_def intro: counters_reach split: prod.splits sum.splits option.splits)

lemma resolveDoH_reach:
  "resolver_reach r \<Longrightarrow> resolveDoH env d t b r w = (out, r', w') \<Longrightarrow> resolver_reach r' \<and> rs_inflight r' = rs_inflight r"
  by (auto simp: resolveDoH_def Let_def intro: counters_reach split: prod.splits sum.splits if_splits)

lemma resolveUncached_reach:
  assumes "resolver_reach r" "resolveUncached env d t b r w = (out, r', w')"
  shows "resolver_reach r' \<and> rs_inflight r' = rs_inflight r"
proof (cases "dc_Policy (rs_config r) = PolicyOff")
  case True
  then show ?thesis using assms resolveLegacy_reach by (fastforce simp: resolveUncached_def)
next
  case False
  obtain o1 r1 w1 where d: "resolveDoH env d (wire_type t) b r w = (o1, r1, w1)" by (metis prod_cases3)
  have r1: "resolver_reach r1" "rs_inflight r1 = rs_inflight r" using resolveDoH_reach [OF assms(1) d] by simp_all
  define r2 where "r2 = r1\<lparr>rs_dohFailures := rs_dohFailures r1 + 1\<rparr>"
  have r2: "resolver_reach r2" "rs_inflight r2 = rs_inflight r" using r1 by (simp_all add: r2_def counters_reach)
  obtain o3 r3 w3 where l: "resolveLegacy env d (wire_type t) b
      (r2\<lparr>rs_automaticFallbacks := rs_automaticFallbacks r2 + 1\<rparr>) w1 = (o3, r3, w3)" by (metis prod_cases3)
  have r3: "resolver_reach r3" "rs_inflight r3 = rs_inflight r"
    using resolveLegacy_reach [OF counters_reach(5) [OF r2(1)] l] r2(2) by simp_all
  have "r' \<in> {recordDoHSuccess b r1, r1, r3} \<or> (\<exists>e. r' = recordStrictFailure (ev_error_text env) b e r2)"
    using assms(2) False l
    by (auto simp: resolveUncached_def d Let_def r2_def [symmetric] split: sum.splits option.splits if_splits)
  moreover have "resolver_reach (recordDoHSuccess b r1)" "resolver_reach (recordStrictFailure (ev_error_text env) b e r2)" for e
    by (rule reach_step [OF r1(1) rs_success], rule reach_step [OF r2(1) rs_failure])
  ultimately show ?thesis using r1 r2 r3 by (auto simp: recordDoHSuccess_def)
qed

lemma runLookup_reach:
  assumes "resolver_reach r" "map_of (rs_inflight r) key = Some call" "bd_Name b = ck_adapter key"
    "runLookup env key b call r w = (r', w')"
  shows "resolver_reach r'"
proof -
  obtain out r1 w1 where u: "resolveUncached env (ck_domain key) (ck_recordType key) b r w = (out, r1, w1)"
    by (metis prod_cases3)
  have a: "resolver_reach r1" and b: "map_of (rs_inflight r1) key = Some call"
    using resolveUncached_reach [OF assms(1) u] assms(2) by simp_all
  have "resolver_reach (finish_lookup (ev_now env w1) (ev_now env w1) key b call out r1)"
    by (rule reach_step [OF a rs_finish [OF b assms(3)]])
  then show ?thesis using assms(4) by (auto simp: runLookup_def u)
qed

section \<open>Transports and policies\<close>

lemma queryDoH_answer:
  "queryDoH env domain rt b ep w = (Inr (res, ttl), w') \<Longrightarrow>
     re_Transport res = ''doh'' \<and> re_Server res = ep_Host ep @ ''@'' @ join_host_port (ep_IP ep) ''443''
     \<and> re_ExpiresAt res = None"
  by (auto simp: queryDoH_def mk_result_def Let_def split: sum.splits prod.splits if_splits)

lemma queryUDP_answer:
  "queryUDP env domain rt b server w = (Inr (res, ttl), w') \<Longrightarrow>
     re_Transport res = ''udp'' \<and> re_Server res = join_host_port server ''53'' \<and> re_ExpiresAt res = None"
  by (auto simp: queryUDP_def mk_result_def Let_def split: sum.splits prod.splits)

lemma queryTCP_answer:
  "queryTCP env domain rt b server w = (Inr (res, ttl), w') \<Longrightarrow>
     re_Transport res = ''tcp'' \<and> re_Server res = join_host_port server ''53'' \<and> re_ExpiresAt res = None"
  by (auto simp: queryTCP_def mk_result_def Let_def split: sum.splits prod.splits)

lemma query_all_mem:
  "query_all env domain rt b eps w = (os, w') \<Longrightarrow> Inr (res, ttl) \<in> set os \<Longrightarrow>
     \<exists>ep \<in> set eps. \<exists>w1 w2. queryDoH env domain rt b ep w1 = (Inr (res, ttl), w2)"
proof (induction eps arbitrary: w os)
  case (Cons ep eps)
  obtain o1 w1 where q: "queryDoH env domain rt b ep w = (o1, w1)" by fastforce
  obtain os1 w2 where qs: "query_all env domain rt b eps w1 = (os1, w2)" by fastforce
  have "os = o1 # os1" "w2 = w'" using Cons.prems(1) by (auto simp: q qs)
  then show ?case using Cons.IH [of w1 os1] Cons.prems(2) q qs by auto
qed simp

lemma race_loop_mem: "race_loop n evs os fs = Inr ok \<Longrightarrow> Inr ok \<in> set os"
  by (induction n evs os fs rule: race_loop.induct)
     (auto split: if_splits sum.splits dest: nth_mem [of _ "os" for os] simp: in_set_conv_nth)

definition doh_answer :: "resolver \<Rightarrow> dns_result \<Rightarrow> bool" where
  "doh_answer r res \<longleftrightarrow> re_Transport res = ''doh'' \<and> (\<exists>ep \<in> set (Endpoints (dc_Policy (rs_config r))).
     re_Server res = ep_Host ep @ ''@'' @ join_host_port (ep_IP ep) ''443'')"

definition legacy_answer :: "resolver \<Rightarrow> binding \<Rightarrow> dns_result \<Rightarrow> bool" where
  "legacy_answer r b res \<longleftrightarrow> re_Transport res \<in> {''udp'', ''tcp''}
     \<and> (\<exists>server \<in> set (LegacyServers (rs_config r) b). re_Server res = join_host_port server ''53'')"

lemma resolveDoH_answer:
  assumes "resolveDoH env domain rt b r w = (Inr (res, ttl), r', w')"
  shows "doh_answer r res \<and> re_ExpiresAt res = None"
proof -
  obtain os w1 where q: "query_all env domain rt b (Endpoints (dc_Policy (rs_config r))) w = (os, w1)" by fastforce
  have "Inr (res, ttl) \<in> set os"
    using assms race_loop_mem by (auto simp: resolveDoH_def Let_def q split: if_splits sum.splits)
  then obtain ep w2 w3 where "ep \<in> set (Endpoints (dc_Policy (rs_config r)))"
    "queryDoH env domain rt b ep w2 = (Inr (res, ttl), w3)"
    using query_all_mem [OF q] by blast
  then show ?thesis using queryDoH_answer by (fastforce simp: doh_answer_def)
qed

lemma legacy_loop_answer:
  "legacy_loop env domain rt b servers fs w = (Inr (res, ttl), w') \<Longrightarrow>
     re_Transport res \<in> {''udp'', ''tcp''} \<and> re_ExpiresAt res = None
     \<and> (\<exists>server \<in> set servers. re_Server res = join_host_port server ''53'')"
  by (induction env domain rt b servers fs w rule: legacy_loop.induct)
     (auto simp: Let_def split: prod.splits sum.splits if_splits dest!: queryUDP_answer queryTCP_answer)

lemma resolveLegacy_answer:
  "resolveLegacy env domain rt b r w = (Inr (res, ttl), r', w') \<Longrightarrow> legacy_answer r b res \<and> re_ExpiresAt res = None"
  by (auto simp: resolveLegacy_def legacy_answer_def Let_def dest!: legacy_loop_answer
      split: prod.splits sum.splits option.splits)

lemma resolveDoH_config: "resolveDoH env domain rt b r w = (out, r', w') \<Longrightarrow> rs_config r' = rs_config r"
  by (auto simp: resolveDoH_def Let_def split: prod.splits sum.splits if_splits)

text \<open>The transports a policy does not use cannot influence the result.\<close>

lemma env_without_legacy:
  "ev_query_id (env\<lparr>ev_udp := u, ev_tcp := t\<rparr>) = ev_query_id env"
  "ev_to_ascii (env\<lparr>ev_udp := u, ev_tcp := t\<rparr>) = ev_to_ascii env"
  "ev_media_type (env\<lparr>ev_udp := u, ev_tcp := t\<rparr>) = ev_media_type env"
  "ev_doh (env\<lparr>ev_udp := u, ev_tcp := t\<rparr>) = ev_doh env"
  "ev_schedule (env\<lparr>ev_udp := u, ev_tcp := t\<rparr>) = ev_schedule env"
  by simp_all

lemma env_without_doh:
  "ev_query_id (env\<lparr>ev_doh := d, ev_schedule := sch\<rparr>) = ev_query_id env"
  "ev_to_ascii (env\<lparr>ev_doh := d, ev_schedule := sch\<rparr>) = ev_to_ascii env"
  "ev_udp (env\<lparr>ev_doh := d, ev_schedule := sch\<rparr>) = ev_udp env"
  "ev_tcp (env\<lparr>ev_doh := d, ev_schedule := sch\<rparr>) = ev_tcp env"
  "ev_ctx_err (env\<lparr>ev_doh := d, ev_schedule := sch\<rparr>) = ev_ctx_err env"
  by simp_all

lemma query_all_legacy_free:
  "query_all (env\<lparr>ev_udp := u, ev_tcp := t\<rparr>) domain rt b eps w = query_all env domain rt b eps w"
proof -
  have q: "queryDoH (env\<lparr>ev_udp := u, ev_tcp := t\<rparr>) domain rt b ep w = queryDoH env domain rt b ep w" for ep w
    unfolding queryDoH_def check_content_type_def env_without_legacy by (rule refl)
  show ?thesis by (induction eps arbitrary: w) (simp_all add: q case_prod_unfold Let_def)
qed

lemma legacy_loop_doh_free:
  "legacy_loop (env\<lparr>ev_doh := d, ev_schedule := sch\<rparr>) domain rt b servers fs w
     = legacy_loop env domain rt b servers fs w"
proof -
  have q: "queryUDP (env\<lparr>ev_doh := d, ev_schedule := sch\<rparr>) domain rt b sv w = queryUDP env domain rt b sv w"
    "queryTCP (env\<lparr>ev_doh := d, ev_schedule := sch\<rparr>) domain rt b sv w = queryTCP env domain rt b sv w" for sv w
    unfolding queryUDP_def queryTCP_def env_without_doh by (rule refl)+
  show ?thesis
    by (induction servers arbitrary: fs w) (auto simp: q env_without_doh case_prod_unfold Let_def split: sum.split)
qed

text \<open>
  C18. The DNS policy decides the transport. With a provider policy the resolution is a
  function of the DoH exchanges alone, whatever the plain UDP and TCP servers would answer,
  and an answer comes from one of that provider's endpoints over DoH. With the policy \<open>off\<close> it
  is a function of UDP and TCP alone and comes from a configured plain server. With \<open>auto\<close> an
  answer comes from either, and from DoH whenever the race yields one.
\<close>

theorem dns_policy_isolation:
  fixes r :: resolver and env :: "'w dns_env"
  defines "p \<equiv> dc_Policy (rs_config r)"
  assumes ok: "resolveUncached env domain t b r w = (Inr (res, ttl), r', w')"
  shows "(p \<noteq> PolicyOff \<and> p \<noteq> PolicyAuto \<longrightarrow> doh_answer r res
        \<and> resolveUncached (env\<lparr>ev_udp := u, ev_tcp := tc\<rparr>) domain t b r w = (Inr (res, ttl), r', w'))
    \<and> (p = PolicyOff \<longrightarrow> legacy_answer r b res
        \<and> resolveUncached (env\<lparr>ev_doh := d, ev_schedule := sch\<rparr>) domain t b r w = (Inr (res, ttl), r', w'))
    \<and> (p = PolicyAuto \<longrightarrow> doh_answer r res \<or> legacy_answer r b res
        \<and> isl (fst (resolveDoH env domain (wire_type t) b r w)))"
proof -
  obtain out r1 w1 where doh: "resolveDoH env domain (wire_type t) b r w = (out, r1, w1)" by (metis prod_cases3)
  have c1: "rs_config r1 = rs_config r" using doh by (rule resolveDoH_config)
  have free: "resolveDoH (env\<lparr>ev_udp := u, ev_tcp := tc\<rparr>) domain rt b r w = resolveDoH env domain rt b r w" for rt
    unfolding resolveDoH_def query_all_legacy_free env_without_legacy by (rule refl)
  have ctx: "ev_ctx_err (env\<lparr>ev_udp := u, ev_tcp := tc\<rparr>) = ev_ctx_err env" by simp
  have strict: ?thesis if ne: "p \<noteq> PolicyOff" "p \<noteq> PolicyAuto"
  proof -
    obtain ok1 where o: "out = Inr ok1"
      using ok ne by (auto simp: resolveUncached_def p_def doh c1 Let_def split: sum.splits option.splits)
    then show ?thesis
      using ok that doh resolveDoH_answer [of env domain "wire_type t" b r w res ttl r1 w1]
      by (auto simp: resolveUncached_def p_def free Let_def)
  qed
  have off: ?thesis if "p = PolicyOff"
  proof -
    have l: "resolveLegacy env domain (wire_type t) b r w = (Inr (res, ttl), r', w')"
      using ok that by (simp add: resolveUncached_def p_def)
    have "legacy_answer r b res" using resolveLegacy_answer [OF l] by simp
    moreover have "resolveLegacy (env\<lparr>ev_doh := d, ev_schedule := sch\<rparr>) domain (wire_type t) b r w
        = resolveLegacy env domain (wire_type t) b r w"
      unfolding resolveLegacy_def legacy_loop_doh_free env_without_doh by (rule refl)
    ultimately show ?thesis
      using that l by (auto simp: resolveUncached_def p_def policy_defs)
  qed
  have auto: ?thesis if auto: "p = PolicyAuto"
  proof (cases out)
    case (Inr ok1)
    then show ?thesis
      using ok that doh resolveDoH_answer [of env domain "wire_type t" b r w res ttl r1 w1]
      by (auto simp: resolveUncached_def p_def policy_defs)
  next
    case (Inl e)
    have np: "PolicyAuto \<noteq> PolicyOff" by (simp add: policy_defs)
    define r2 where "r2 = r1\<lparr>rs_dohFailures := rs_dohFailures r1 + 1, rs_automaticFallbacks := rs_automaticFallbacks r1 + 1\<rparr>"
    obtain r3 w3 where l: "resolveLegacy env domain (wire_type t) b r2 w1 = (Inr (res, ttl), r3, w3)"
      using ok auto by (auto simp: resolveUncached_def p_def np doh Inl c1 r2_def Let_def split: option.splits sum.splits prod.splits)
    have "legacy_answer r2 b res" using resolveLegacy_answer [OF l] by simp
    then have "legacy_answer r b res" by (simp add: legacy_answer_def r2_def c1)
    then show ?thesis using that doh Inl by (simp add: policy_defs)
  qed
  show ?thesis using strict off auto by blast
qed

section \<open>Fallback alerts\<close>

text \<open>
  The reports of one binding: a success or a failure of strict DoH. The specification counts,
  with the length of the current streak of failures, how often a streak reaches the threshold.
\<close>

datatype report = DoHSucceeded | DoHFailedWith resolve_error

definition apply_report :: "(resolve_error \<Rightarrow> string) \<Rightarrow> binding \<Rightarrow> report \<Rightarrow> resolver \<Rightarrow> resolver" where
  "apply_report render b rep r =
     (case rep of DoHSucceeded \<Rightarrow> recordDoHSuccess b r | DoHFailedWith e \<Rightarrow> recordStrictFailure render b e r)"

fun alerts :: "int \<Rightarrow> int \<Rightarrow> report list \<Rightarrow> nat" where
  "alerts threshold streak [] = 0"
| "alerts threshold streak (DoHSucceeded # reps) = alerts threshold 0 reps"
| "alerts threshold streak (DoHFailedWith e # reps) =
     (if streak + 1 = threshold then 1 else 0) + alerts threshold (streak + 1) reps"

definition streak_ok :: "binding \<Rightarrow> resolver \<Rightarrow> bool" where
  "streak_ok b r \<longleftrightarrow> 0 \<le> rs_strictFailures r (bindingKey b)
     \<and> (rs_fallbackEmitted r (bindingKey b) \<longleftrightarrow> dc_FailureThreshold (rs_config r) \<le> rs_strictFailures r (bindingKey b))"

lemma apply_report_step:
  assumes "streak_ok b r" "0 < dc_FailureThreshold (rs_config r)"
  shows "streak_ok b (apply_report render b rep r)"
    "rs_onFallback (apply_report render b rep r) = rs_onFallback r"
    "rs_config (apply_report render b rep r) = rs_config r"
    "rs_strictFailures (apply_report render b rep r) (bindingKey b)
       = (case rep of DoHSucceeded \<Rightarrow> 0 | DoHFailedWith _ \<Rightarrow> rs_strictFailures r (bindingKey b) + 1)"
    "rs_onFallback r \<Longrightarrow> length (rs_emitted (apply_report render b rep r)) = length (rs_emitted r)
       + (case rep of DoHSucceeded \<Rightarrow> 0 | DoHFailedWith _ \<Rightarrow>
            if rs_strictFailures r (bindingKey b) + 1 = dc_FailureThreshold (rs_config r) then 1 else 0)"
  using assms
  by (auto simp: apply_report_def recordDoHSuccess_def recordStrictFailure_def streak_ok_def Let_def split: report.splits)

text \<open>
  The fallback handler is called exactly once per streak of strict DoH failures that
  reaches the threshold, when it reaches it; a success ends the streak and arms the alert
  again.
\<close>

theorem fallback_alerts_once_per_streak:
  assumes "streak_ok b r" "rs_onFallback r" "0 < dc_FailureThreshold (rs_config r)"
  shows "length (rs_emitted (fold (apply_report render b) reps r))
    = length (rs_emitted r)
      + alerts (dc_FailureThreshold (rs_config r)) (rs_strictFailures r (bindingKey b)) reps"
  using assms
proof (induction reps arbitrary: r)
  case (Cons rep reps)
  note st = apply_report_step [OF Cons.prems(1,3), of render rep]
  have "length (rs_emitted (fold (apply_report render b) reps (apply_report render b rep r)))
    = length (rs_emitted (apply_report render b rep r))
      + alerts (dc_FailureThreshold (rs_config r)) (rs_strictFailures (apply_report render b rep r) (bindingKey b)) reps"
    using Cons.IH [of "apply_report render b rep r"] st Cons.prems by simp
  then show ?case using st(4,5) Cons.prems by (cases rep) simp_all
qed simp

lemma makeCacheRoom_distinct:
  "distinct (map fst (rs_cache r)) \<Longrightarrow> 0 < dc_MaxCacheEntries (rs_config r) \<Longrightarrow>
     distinct (map fst (rs_cache (makeCacheRoom now r)))"
  using makeCacheRoom_spec by blast

section \<open>A resolved name is served from the cache\<close>

text \<open>
  What a query resolves is cached: if a lookup that this query started ends with a result
  that carries an expiry time, then until that time the same question is answered from the
  cache with the same address, without any lookup.
\<close>

theorem resolve_then_hit:
  assumes "resolver_inv r"
    "resolve_begin to_ascii now q r = (Waiting call (Some (key, b)), r1)"
    "finish_lookup now1 now2 key b call out r1 = r2"
    "rs_lookups r2 call = Some (Inr res)" "re_ExpiresAt res = Some t" "now3 < t"
  shows "\<exists>r3. resolve_begin to_ascii now3 q r2 = (Hit (res\<lparr>re_Cached := True\<rparr>), r3) \<and> rs_inflight r3 = rs_inflight r2"
proof -
  have k: "key_of to_ascii q = Inr (key, b)"
    using assms(2) by (auto simp: resolve_begin_def Let_def split: sum.splits option.splits)
  define outcome where "outcome = labelled now1 (rs_config r1) key b out"
  have r2: "r2 = (store_outcome now2 key outcome r1)\<lparr>rs_lookups := (rs_lookups r1)(call := Some outcome),
      rs_inflight := AList.delete key (rs_inflight r1)\<rparr>"
    using assms(3) by (simp add: finish_lookup_eq Let_def outcome_def)
  then have "outcome = Inr res" using assms(4) by simp
  then have c: "rs_cache r2 = AList.update key \<lparr>ce_result = res, ce_expiresAt = t\<rparr> (rs_cache (makeCacheRoom now2 r1))"
    using assms(5) by (simp add: r2 store_outcome_def Let_def)
  have d: "distinct (map fst (rs_cache r2))"
    using inv_begin [OF assms(1,2)] by (simp add: c distinct_update makeCacheRoom_distinct resolver_inv_def wf_dns_config_def)
  have "(key, \<lparr>ce_result = res, ce_expiresAt = t\<rparr>) \<in> set (rs_cache r2)"
    by (rule map_of_SomeD) (simp add: c update_conv')
  then have "(key, \<lparr>ce_result = res, ce_expiresAt = t\<rparr>) \<in> set (rs_cache (removeExpired now3 (r2\<lparr>rs_queries := rs_queries r2 + 1\<rparr>)))"
    using assms(6) by (simp add: removeExpired_cache)
  moreover have "distinct (map fst (rs_cache (removeExpired now3 (r2\<lparr>rs_queries := rs_queries r2 + 1\<rparr>))))"
    using d by (intro removeExpired_distinct) simp
  ultimately have "map_of (rs_cache (removeExpired now3 (r2\<lparr>rs_queries := rs_queries r2 + 1\<rparr>))) key
      = Some \<lparr>ce_result = res, ce_expiresAt = t\<rparr>" by simp
  then show ?thesis by (simp add: resolve_begin_def k Let_def)
qed

section \<open>Examples\<close>

definition example_resolver :: "string \<Rightarrow> resolver" where
  "example_resolver policy = projr (new_resolver (DefaultConfig\<lparr>dc_Policy := policy\<rparr>) True)"

lemma example_resolver_init: "resolver_init (example_resolver ''off'')" "resolver_init (example_resolver ''google'')"
proof -
  have "\<not> isl (new_resolver (DefaultConfig\<lparr>dc_Policy := ''off''\<rparr>) True)"
    "\<not> isl (new_resolver (DefaultConfig\<lparr>dc_Policy := ''google''\<rparr>) True)" by code_simp+
  then show "resolver_init (example_resolver ''off'')" "resolver_init (example_resolver ''google'')"
    unfolding resolver_init_def example_resolver_def by (metis sum.collapse(2))+
qed

definition example_binding :: binding where
  "example_binding = \<lparr>bd_Name = ''eth'', bd_SourceIP = ''10.0.0.2'', bd_IfIndex = 2, bd_DNSServers = []\<rparr>"

definition example_query :: dns_query where
  "example_query = \<lparr>qu_Domain = ''x.org'', qu_RecordType = [], qu_Binding = example_binding\<rparr>"

text \<open>A network in which every UDP server answers with one address and nothing else works.\<close>

definition example_env :: "unit dns_env" where
  "example_env =
     \<lparr>ev_query_id = (\<lambda>w. (Some 7, w)), ev_to_ascii = Some, ev_media_type = Some, ev_error_text = (\<lambda>_. ''e''),
      ev_udp = (\<lambda>a b p w. (Inr (reply_to p [0, 0, 1, 44] [93, 184, 216, 34]), w)),
      ev_tcp = (\<lambda>a b p w. (Inl 1, w)), ev_doh = (\<lambda>ep a b p w. (Inl 1, w)), ev_schedule = (\<lambda>n w. []),
      ev_ctx_err = (\<lambda>w. None), ev_now = (\<lambda>w. 1000), ev_wait = (\<lambda>w. LookupDone)\<rparr>"

definition example_entry :: "go_time \<Rightarrow> cache_entry" where
  "example_entry t = \<lparr>ce_result = mk_result ''1.2.3.4'' ''udp'' ''s'', ce_expiresAt = t\<rparr>"

definition example_key :: "string \<Rightarrow> cache_key" where
  "example_key d = \<lparr>ck_adapter = ''eth'', ck_sourceIP = ''10.0.0.2'', ck_ifIndex = 2, ck_domain = d, ck_recordType = RecordA\<rparr>"

definition full_example :: resolver where
  "full_example = (example_resolver ''off'')
     \<lparr>rs_config := DefaultConfig\<lparr>dc_MaxCacheEntries := 2\<rparr>,
      rs_cache := [(example_key ''a'', example_entry 90), (example_key ''b'', example_entry 50)]\<rparr>"

theorem makeCacheRoom_evicts_oldest_witness:
  "int (length (rs_cache (makeCacheRoom 10 full_example))) < 2
   \<and> rs_cache (makeCacheRoom 10 full_example) = [(example_key ''a'', example_entry 90)]"
proof -
  have d: "distinct (map fst (rs_cache full_example))" "0 < dc_MaxCacheEntries (rs_config full_example)"
    "dc_MaxCacheEntries (rs_config full_example) = 2"
    by (simp_all add: full_example_def example_key_def)
  have "rs_cache (makeCacheRoom 10 full_example) = [(example_key ''a'', example_entry 90)]" by code_simp
  then show ?thesis using makeCacheRoom_evicts_oldest [OF d(1,2), of 10] d(3) by simp
qed


theorem dns_policy_isolation_witness:
  "\<exists>res ttl r' w'. resolveUncached example_env ''x.org'' RecordA example_binding (example_resolver ''off'') ()
      = (Inr (res, ttl), r', w') \<and> legacy_answer (example_resolver ''off'') example_binding res"
proof -
  have p: "dc_Policy (rs_config (example_resolver ''off'')) = PolicyOff" by code_simp
  have "\<not> isl (fst (resolveUncached example_env ''x.org'' RecordA example_binding (example_resolver ''off'') ()))"
    by code_simp
  then obtain res ttl r' w' where
    "resolveUncached example_env ''x.org'' RecordA example_binding (example_resolver ''off'') () = (Inr (res, ttl), r', w')"
    by (metis prod.collapse sum.collapse(2))
  then show ?thesis using dns_policy_isolation [where env = example_env] p by blast
qed

theorem fallback_alerts_once_per_streak_witness:
  "length (rs_emitted (fold (apply_report (\<lambda>_. ''e'') example_binding)
      (replicate 5 (DoHFailedWith ShortRead) @ [DoHSucceeded] @ replicate 3 (DoHFailedWith ShortRead))
      (SetFallbackHandler True (example_resolver ''google'')))) = 2"
proof -
  let ?r = "SetFallbackHandler True (example_resolver ''google'')"
  have f: "rs_strictFailures ?r (bindingKey example_binding) = 0" "rs_emitted ?r = []"
    "dc_FailureThreshold (rs_config ?r) = 3" "rs_onFallback ?r" "\<not> rs_fallbackEmitted ?r (bindingKey example_binding)"
    by code_simp+
  have "streak_ok example_binding ?r" using f by (simp add: streak_ok_def)
  then have "length (rs_emitted (fold (apply_report (\<lambda>_. ''e'') example_binding) reps ?r)) = alerts 3 0 reps" for reps
    using fallback_alerts_once_per_streak [of example_binding ?r "\<lambda>_. ''e''" reps] f by simp
  moreover have "alerts 3 0 (replicate 5 (DoHFailedWith ShortRead) @ [DoHSucceeded] @ replicate 3 (DoHFailedWith ShortRead)) = 2"
    by code_simp
  ultimately show ?thesis by (rule trans)
qed

definition example_result :: dns_result where
  "example_result = mk_result ''93.184.216.34'' ''udp'' ''8.8.8.8:53''"

theorem resolve_then_hit_witness:
  "\<exists>call r1 r2 r3. resolve_begin Some 5 example_query (example_resolver ''off'')
       = (Waiting call (Some (example_key ''x.org'', example_binding)), r1)
     \<and> r2 = finish_lookup 6 6 (example_key ''x.org'') example_binding call (Inr (example_result, 60 * Second)) r1
     \<and> resolve_begin Some 100 example_query r2
       = (Hit ((label_result 6 (rs_config r1) (example_key ''x.org'') example_binding example_result (60 * Second))
            \<lparr>re_Cached := True\<rparr>), r3)"
proof -
  let ?r = "example_resolver ''off''"
  have w: "fst (resolve_begin Some 5 example_query ?r) = Waiting 0 (Some (example_key ''x.org'', example_binding))"
    "dc_CacheTTL (rs_config (snd (resolve_begin Some 5 example_query ?r))) = 180 * Second"
    by code_simp+
  then obtain r1 where b: "resolve_begin Some 5 example_query ?r = (Waiting 0 (Some (example_key ''x.org'', example_binding)), r1)"
    and c: "dc_CacheTTL (rs_config r1) = 180 * Second"
    by (cases "resolve_begin Some 5 example_query ?r") auto
  define res where "res = label_result 6 (rs_config r1) (example_key ''x.org'') example_binding example_result (60 * Second)"
  define r2 where "r2 = finish_lookup 6 6 (example_key ''x.org'') example_binding 0 (Inr (example_result, 60 * Second)) r1"
  have "resolver_inv ?r" using example_resolver_init(1) by (auto simp: resolver_init_def intro: inv_new)
  moreover have "rs_lookups r2 0 = Some (Inr res)"
    by (simp add: r2_def finish_lookup_eq labelled_def Let_def res_def)
  moreover have "re_ExpiresAt res = Some (6 + 60 * Second)"
    using c by (simp add: res_def label_result_def Let_def time_defs)
  ultimately have "\<exists>r3. resolve_begin Some 100 example_query r2 = (Hit (res\<lparr>re_Cached := True\<rparr>), r3)
      \<and> rs_inflight r3 = rs_inflight r2"
    using resolve_then_hit [OF _ b r2_def [symmetric]] by (simp add: time_defs)
  then show ?thesis using b r2_def res_def by blast
qed

end
