(* ===== verification/Dial.thy ===== *)
theory Dial
  imports Registry Resolver
begin

text \<open>
  \<open>engine/internal/proxy/dial.go\<close> with \<open>dial_other.go\<close> and \<open>dial_windows.go\<close>: opening the
  upstream connection of a session through the adapter the scheduler picks, with at most two
  attempts. The environment gives the clock, the operating system's dial call (an error is the
  number \<open>errors.As\<close> would find, if any), writes to connections (the count and the error, if
  any) and the environment of the resolver. \<open>dial_ctx\<close> holds
  what the loop changes: scheduler, shared health table, resolver and its local variables.
\<close>

section \<open>Model\<close>

datatype platform = Windows | OtherOS

record dialer =
  dl_Timeout :: duration
  dl_KeepAlive :: duration
  dl_LocalUDP :: bool
  dl_LocalIP :: "ip option"
  dl_UnicastIF :: "(bool \<times> int) option"

record 'w proxy_env =
  px_platform :: platform
  px_now :: "'w \<Rightarrow> go_time"
  px_dial :: "string \<Rightarrow> dialer \<Rightarrow> string \<Rightarrow> 'w \<Rightarrow> (int option + net_conn) \<times> 'w"
  px_write :: "net_conn \<Rightarrow> byte list \<Rightarrow> 'w \<Rightarrow> (nat \<times> int option option) \<times> 'w"
  px_dns :: "'w dns_env"

datatype dial_failure =
    NoResolver string | ResolveFailed string resolve_error | BadAddress string
  | NoSource string string | BindFailed string | ConnectFailed string "int option"

datatype dial_error =
    BadTarget | LiteralIPRequired | NoAdapterAvailable | AllFailed "dial_failure list"

record dial_ctx =
  dx_sched :: scheduler
  dx_health :: health_table
  dx_resolver :: "resolver option"
  dx_excluded :: "string list"
  dx_failures :: "dial_failure list"
  dx_comparative :: "string list"

definition networkForIP :: "string \<Rightarrow> ip \<Rightarrow> string" where
  "networkForIP transport ip = (if to4 ip \<noteq> None then transport @ ''4'' else transport @ ''6'')"

definition is_v6_network :: "string \<Rightarrow> bool" where
  "is_v6_network network \<longleftrightarrow> network = ''tcp6'' \<or> network = ''udp6''"

definition adapterSupportsNetwork :: "adapter \<Rightarrow> string \<Rightarrow> bool" where
  "adapterSupportsNetwork a network =
     (if is_v6_network network then ad_SourceIPv6 a \<noteq> [] else ad_SourceIP a \<noteq> [])"

definition adapterDNSBinding :: "adapter \<Rightarrow> binding" where
  "adapterDNSBinding a = \<lparr>bd_Name = ad_Name a, bd_SourceIP = ad_SourceIP a, bd_IfIndex = ad_IfIndex a,
                          bd_DNSServers = ad_DNSServers a\<rparr>"

text \<open>\<open>bits.ReverseBytes32\<close>.\<close>

definition reverse_bytes32 :: "uint32 \<Rightarrow> uint32" where
  "reverse_bytes32 w = push_bit 24 (w AND 0xff) OR push_bit 8 (w AND 0xff00)
     OR (drop_bit 8 w AND 0xff00) OR (drop_bit 24 w AND 0xff)"

text \<open>
  Both variants choose and check the source address; the Windows one also pins the socket to
  the interface, with the index in network byte order for IPv4.
\<close>

definition boundNetworkDialer :: "platform \<Rightarrow> adapter \<Rightarrow> duration \<Rightarrow> string \<Rightarrow> dialer option" where
  "boundNetworkDialer os a timeout network =
     (let ipv6 = is_v6_network network;
          sourceText = (if ipv6 then ad_SourceIPv6 a else ad_SourceIP a);
          ifIndex = (if ipv6 then ad_IPv6IfIndex a else ad_IfIndex a)
      in case parse_ip sourceText of
           None \<Rightarrow> None
         | Some source \<Rightarrow>
             if ipv6 \<and> to4 source \<noteq> None \<or> \<not> ipv6 \<and> to4 source = None then None
             else Some
               \<lparr>dl_Timeout = timeout, dl_KeepAlive = 30 * Second,
                dl_LocalUDP = (network = ''udp4'' \<or> network = ''udp6''),
                dl_LocalIP = Some (if ipv6 then source else the (to4 source)),
                dl_UnicastIF =
                  (case os of
                     OtherOS \<Rightarrow> None
                   | Windows \<Rightarrow>
                       if ifIndex \<le> 0 then None
                       else if ipv6 then Some (True, ifIndex)
                       else Some (False, int (unat (reverse_bytes32 (word_of_int ifIndex)))))\<rparr>)"

definition boundDialer :: "platform \<Rightarrow> adapter \<Rightarrow> duration \<Rightarrow> dialer option" where
  "boundDialer os a timeout = boundNetworkDialer os a timeout ''tcp4''"

text \<open>The \<open>dialTCP\<close> and \<open>dialUDP\<close> closures of \<open>New\<close>: the network follows the local address.\<close>

definition dialTCP :: "'w proxy_env \<Rightarrow> dialer \<Rightarrow> string \<Rightarrow> 'w \<Rightarrow> (int option + net_conn) \<times> 'w" where
  "dialTCP env d target w =
     px_dial env
       (case dl_LocalIP d of
          Some ip \<Rightarrow> if \<not> dl_LocalUDP d \<and> to4 ip = None then ''tcp6'' else ''tcp4''
        | None \<Rightarrow> ''tcp4'') d target w"

definition dialUDP :: "'w proxy_env \<Rightarrow> dialer \<Rightarrow> string \<Rightarrow> 'w \<Rightarrow> (int option + net_conn) \<times> 'w" where
  "dialUDP env d target w =
     px_dial env
       (case dl_LocalIP d of
          Some ip \<Rightarrow> if dl_LocalUDP d \<and> to4 ip = None then ''udp6'' else ''udp4''
        | None \<Rightarrow> ''udp4'') d target w"

text \<open>The address to dial: the literal target, or an A record and, failing that, an AAAA record.\<close>

definition resolve_target ::
    "'w proxy_env \<Rightarrow> ip option \<Rightarrow> string \<Rightarrow> adapter \<Rightarrow> resolver option \<Rightarrow> 'w \<Rightarrow>
       (dial_failure + ip) \<times> resolver option \<times> 'w" where
  "resolve_target env targetIP host a rs w =
     (case targetIP of
        Some ip \<Rightarrow> (Inr ip, rs, w)
      | None \<Rightarrow>
          (case rs of
             None \<Rightarrow> (Inl (NoResolver (ad_Name a)), rs, w)
           | Some r \<Rightarrow>
               let (o1, r1, w1) = Resolve (px_dns env)
                     \<lparr>qu_Domain = host, qu_RecordType = ''A'', qu_Binding = adapterDNSBinding a\<rparr> r w;
                   (o2, r2, w2) =
                     (if isl o1 \<and> ad_SourceIPv6 a \<noteq> []
                      then Resolve (px_dns env)
                        \<lparr>qu_Domain = host, qu_RecordType = ''AAAA'', qu_Binding = adapterDNSBinding a\<rparr> r1 w1
                      else (o1, r1, w1))
               in case o2 of
                    Inl e \<Rightarrow> (Inl (ResolveFailed (ad_Name a) e), Some r2, w2)
                  | Inr res \<Rightarrow>
                      (case parse_ip (re_Address res) of
                         None \<Rightarrow> (Inl (BadAddress (ad_Name a)), Some r2, w2)
                       | Some ip \<Rightarrow> (Inr ip, Some r2, w2))))"

definition try_adapter ::
    "'w proxy_env \<Rightarrow> duration \<Rightarrow> ip option \<Rightarrow> string \<Rightarrow> string \<Rightarrow> string \<Rightarrow> adapter \<Rightarrow> dial_ctx \<Rightarrow> 'w \<Rightarrow>
       net_conn option \<times> dial_ctx \<times> 'w" where
  "try_adapter env timeout targetIP host port domain a x w =
     (let (res, rs, w) = resolve_target env targetIP host a (dx_resolver x) w;
          x = x\<lparr>dx_resolver := rs\<rparr>
      in case res of
           Inl f \<Rightarrow> (None, x\<lparr>dx_failures := dx_failures x @ [f], dx_comparative := dx_comparative x @ [ad_Name a]\<rparr>, w)
         | Inr ip \<Rightarrow>
             let network = networkForIP ''tcp'' ip
             in if \<not> adapterSupportsNetwork a network
                then (None, x\<lparr>dx_failures := dx_failures x @ [NoSource (ad_Name a) network]\<rparr>, w)
                else case boundNetworkDialer (px_platform env) a timeout network of
                       None \<Rightarrow> (None, x\<lparr>dx_health := MarkFailure (px_now env w) (ad_Name a) (dx_health x),
                                        dx_failures := dx_failures x @ [BindFailed (ad_Name a)]\<rparr>, w)
                     | Some d \<Rightarrow>
                         let (c, w) = dialTCP env d (join_host_port (ip_string ip) port) w;
                             now = px_now env w
                         in case c of
                              Inr conn \<Rightarrow>
                                (Some conn, x\<lparr>dx_health :=
                                   fold (\<lambda>n. recordComparativeDomainFailure now n domain) (dx_comparative x)
                                     (MarkSuccess now (ad_Name a) [domain] (dx_health x))\<rparr>, w)
                            | Inl errno \<Rightarrow>
                                (None,
                                 x\<lparr>dx_health := (if isLocalConnectFailure errno
                                                then MarkFailure now (ad_Name a) (dx_health x) else dx_health x),
                                   dx_comparative := (if \<not> isLocalConnectFailure errno \<and> domain \<noteq> []
                                                     then dx_comparative x @ [ad_Name a] else dx_comparative x),
                                   dx_failures := dx_failures x @ [ConnectFailed (ad_Name a) errno]\<rparr>, w))"

fun dial_loop ::
    "'w proxy_env \<Rightarrow> duration \<Rightarrow> ip option \<Rightarrow> string \<Rightarrow> string \<Rightarrow> string \<Rightarrow> nat \<Rightarrow> dial_ctx \<Rightarrow> 'w \<Rightarrow>
       (net_conn \<times> adapter) option \<times> dial_ctx \<times> 'w" where
  "dial_loop env timeout targetIP host port domain 0 x w = (None, x, w)"
| "dial_loop env timeout targetIP host port domain (Suc n) x w =
     (case SelectForDomain (px_now env w) (set (dx_excluded x)) domain (dx_sched x) (dx_health x) of
        (None, s, h) \<Rightarrow> (None, x\<lparr>dx_sched := s, dx_health := h\<rparr>, w)
      | (Some a, s, h) \<Rightarrow>
          (case try_adapter env timeout targetIP host port domain a
                  (x\<lparr>dx_sched := s, dx_health := h, dx_excluded := dx_excluded x @ [ad_Name a]\<rparr>) w of
             (Some conn, x, w) \<Rightarrow> (Some (conn, a), x, w)
           | (None, x, w) \<Rightarrow> dial_loop env timeout targetIP host port domain n x w))"

text \<open>The names of the adapters without an address of the right family, as the map holds them.\<close>

definition initial_excluded :: "adapter list \<Rightarrow> string \<Rightarrow> string list" where
  "initial_excluded as network =
     rev (fold (\<lambda>a acc. if adapterSupportsNetwork a network \<or> ad_Name a \<in> set acc then acc else ad_Name a # acc) as [])"

definition dial_attempts :: "adapter list \<Rightarrow> string list \<Rightarrow> nat" where
  "dial_attempts as excluded = min 2 (length as - length excluded)"

definition dial_start :: "scheduler \<Rightarrow> health_table \<Rightarrow> resolver option \<Rightarrow> ip option \<Rightarrow> dial_ctx" where
  "dial_start s h rs targetIP =
     \<lparr>dx_sched = s, dx_health = h, dx_resolver = rs,
      dx_excluded = (case targetIP of None \<Rightarrow> [] | Some ip \<Rightarrow> initial_excluded (sc_adapters s) (networkForIP ''tcp'' ip)),
      dx_failures = [], dx_comparative = []\<rparr>"

definition dialUpstream ::
    "'w proxy_env \<Rightarrow> duration \<Rightarrow> string \<Rightarrow> bool \<Rightarrow> scheduler \<Rightarrow> health_table \<Rightarrow> resolver option \<Rightarrow> 'w \<Rightarrow>
       (dial_error + net_conn \<times> adapter) \<times> dial_ctx \<times> 'w" where
  "dialUpstream env timeout target literalIPOnly s h rs w =
     (case split_host_port target of
        None \<Rightarrow> (Inl BadTarget, dial_start s h rs None, w)
      | Some (host, port) \<Rightarrow>
          let targetIP = parse_ip host;
              x = dial_start s h rs targetIP
          in if literalIPOnly \<and> targetIP = None then (Inl LiteralIPRequired, x, w)
             else let domain = (if targetIP = None then normalizeDomain host else []);
                      (out, x, w) = dial_loop env timeout targetIP host port domain
                        (dial_attempts (sc_adapters s) (dx_excluded x)) x w
                  in case out of
                       Some ok \<Rightarrow> (Inr ok, x, w)
                     | None \<Rightarrow> (Inl (if dx_failures x = [] then NoAdapterAvailable else AllFailed (dx_failures x)), x, w))"

section \<open>What an attempt can do to the health table\<close>

text \<open>\<open>less_evidence h h'\<close>: every domain entry of \<open>h'\<close> was already in \<open>h\<close>.\<close>

definition less_evidence :: "health_table \<Rightarrow> health_table \<Rightarrow> bool" where
  "less_evidence h h' \<longleftrightarrow> (\<forall>n st'. health_of h' n = Some st' \<longrightarrow>
     (\<exists>st. health_of h n = Some st \<and> map_of (ah_domains st') \<subseteq>\<^sub>m map_of (ah_domains st)))"

lemma less_evidence_refl [simp]: "less_evidence h h"
  by (auto simp: less_evidence_def)

lemma less_evidence_trans: "less_evidence h1 h2 \<Longrightarrow> less_evidence h2 h3 \<Longrightarrow> less_evidence h1 h3"
  unfolding less_evidence_def by (meson map_le_trans)

lemma less_evidence_candidates:
  assumes "wf_table h" "candidates now h as ex d = (cs, h')"
  shows "less_evidence h h'"
proof -
  have p: "map_of (ah_domains (pruneExpiredDomains st now)) \<subseteq>\<^sub>m map_of (ah_domains st)" if "wf_health st" for st
    using that by (auto simp: map_le_def wf_health_def map_of_prune split: option.splits if_splits)
  show ?thesis
    unfolding less_evidence_def
  proof (intro allI impI)
    fix n st'
    assume "health_of h' n = Some st'"
    then obtain st where "health_of h n = Some st" "st' = st \<or> st' = pruneExpiredDomains st now"
      using candidates_states [OF assms(2)] by auto
    then show "\<exists>st. health_of h n = Some st \<and> map_of (ah_domains st') \<subseteq>\<^sub>m map_of (ah_domains st)"
      using p wf_tableD [OF assms(1)] by auto
  qed
qed

lemma less_evidence_MarkFailure: "less_evidence h (MarkFailure now n h)"
  by (auto simp: less_evidence_def MarkFailure_def recordLocalFailure_def Let_def split: option.splits if_splits)

lemma SelectForDomain_health:
  "SelectForDomain now ex d s h = (r, s', h') \<Longrightarrow> \<exists>cs. candidates now h (sc_adapters s) ex d = (cs, h')"
  by (cases "candidates now h (sc_adapters s) ex d") (auto simp: SelectForDomain_def split: if_splits prod.splits)

lemma wf_MarkFailure: "wf_table h \<Longrightarrow> wf_table (MarkFailure now n h)"
  by (simp add: MarkFailure_def wf_recordLocalFailure)

section \<open>One attempt\<close>

lemma resolve_target_literal: "resolve_target env (Some ip) host a rs w = (Inr ip, rs, w)"
  by (simp add: resolve_target_def)

lemma try_adapter_None:
  assumes "try_adapter env timeout targetIP host port domain a x w = (None, x', w')" "wf_table (dx_health x)"
  shows "dx_sched x' = dx_sched x \<and> dx_excluded x' = dx_excluded x \<and> wf_table (dx_health x')
    \<and> less_evidence (dx_health x) (dx_health x') \<and> length (dx_failures x') = Suc (length (dx_failures x))"
  using assms
  by (auto simp: try_adapter_def Let_def wf_MarkFailure less_evidence_MarkFailure
      split: prod.splits sum.splits if_splits option.splits)

lemma try_adapter_Some:
  assumes "try_adapter env timeout targetIP host port domain a x w = (Some conn, x', w')"
  shows "dx_sched x' = dx_sched x \<and> dx_excluded x' = dx_excluded x
    \<and> (\<exists>ip. (targetIP = None \<or> targetIP = Some ip) \<and> adapterSupportsNetwork a (networkForIP ''tcp'' ip))"
  using assms
  by (cases targetIP)
     (auto simp: try_adapter_def Let_def resolve_target_literal
        split: prod.splits sum.splits if_splits option.splits)

lemma try_adapter_literal:
  "try_adapter env timeout (Some ip) host port domain a (x\<lparr>dx_resolver := rs\<rparr>) w =
     (let (c, x', w') = try_adapter env timeout (Some ip) host port domain a x w
      in (c, x'\<lparr>dx_resolver := rs\<rparr>, w'))"
  by (simp add: try_adapter_def Let_def resolve_target_literal case_prod_unfold split: sum.split option.split)

section \<open>The attempt loop\<close>

definition loop_result ::
    "adapter list \<Rightarrow> dial_ctx \<Rightarrow> (net_conn \<times> adapter) option \<Rightarrow> dial_ctx \<Rightarrow> string list \<Rightarrow> bool" where
  "loop_result as x out x' tried \<longleftrightarrow>
     dx_excluded x' = dx_excluded x @ tried \<and> distinct tried \<and> set tried \<inter> set (dx_excluded x) = {}
     \<and> set tried \<subseteq> ad_Name ` set as
     \<and> (out = None \<longrightarrow> less_evidence (dx_health x) (dx_health x')
          \<and> length (dx_failures x') = length (dx_failures x) + length tried)
     \<and> (\<forall>conn a. out = Some (conn, a) \<longrightarrow> a \<in> set as \<and> tried \<noteq> [] \<and> last tried = ad_Name a)"

lemma dial_loop_result:
  assumes "dial_loop env timeout tip host port domain n x w = (out, x', w')"
    "wf_table (dx_health x)" "distinct (map ad_Name (sc_adapters (dx_sched x)))"
  shows "\<exists>tried. length tried \<le> n \<and> loop_result (sc_adapters (dx_sched x)) x out x' tried"
  using assms
proof (induction n arbitrary: x w)
  case 0
  then have "loop_result (sc_adapters (dx_sched x)) x out x' []" by (auto simp: loop_result_def)
  then show ?case by (intro exI [of _ "[]"]) simp
next
  case (Suc n)
  let ?as = "sc_adapters (dx_sched x)"
  obtain r s h where sel: "SelectForDomain (px_now env w) (set (dx_excluded x)) domain (dx_sched x) (dx_health x) = (r, s, h)"
    by (metis prod_cases3)
  note sound = SelectForDomain_facts [OF Suc.prems(2,3) sel]
  have le: "less_evidence (dx_health x) h"
    using SelectForDomain_health [OF sel] less_evidence_candidates [OF Suc.prems(2)] by blast
  show ?case
  proof (cases r)
    case None
    then have "out = None" "x' = x\<lparr>dx_sched := s, dx_health := h\<rparr>" using Suc.prems(1) by (simp_all add: sel)
    then have "loop_result ?as x out x' []" using le by (simp add: loop_result_def)
    then show ?thesis by (intro exI [of _ "[]"]) simp
  next
    case (Some a)
    define x1 where "x1 = x\<lparr>dx_sched := s, dx_health := h, dx_excluded := dx_excluded x @ [ad_Name a]\<rparr>"
    have a: "a \<in> set ?as" "ad_Name a \<notin> set (dx_excluded x)" using sound Some by simp_all
    obtain c x2 w2 where t: "try_adapter env timeout tip host port domain a x1 w = (c, x2, w2)" by (metis prod_cases3)
    show ?thesis
    proof (cases c)
      case (Some conn)
      then have "out = Some (conn, a)" "x' = x2"
        using Suc.prems(1) t by (simp_all add: sel \<open>r = Some a\<close> x1_def [symmetric])
      moreover have "dx_excluded x2 = dx_excluded x @ [ad_Name a]"
        using try_adapter_Some [OF t [unfolded Some]] by (simp add: x1_def)
      ultimately have "loop_result ?as x out x' [ad_Name a]" using a by (simp add: loop_result_def)
      then show ?thesis by (intro exI [of _ "[ad_Name a]"]) simp
    next
      case None
      have x2: "dx_sched x2 = s" "dx_excluded x2 = dx_excluded x @ [ad_Name a]" "wf_table (dx_health x2)"
        "less_evidence h (dx_health x2)" "length (dx_failures x2) = Suc (length (dx_failures x))"
        using try_adapter_None [OF t [unfolded None]] sound by (simp_all add: x1_def)
      have "dial_loop env timeout tip host port domain n x2 w2 = (out, x', w')"
        using Suc.prems(1) t None by (simp add: sel \<open>r = Some a\<close> x1_def [symmetric])
      then obtain tried where tr: "length tried \<le> n" "loop_result ?as x2 out x' tried"
        using Suc.IH [of x2 w2] x2 sound Suc.prems(3) by auto
      have "less_evidence (dx_health x) (dx_health x2)" using le x2(4) by (rule less_evidence_trans)
      then have "loop_result ?as x out x' (ad_Name a # tried)"
        using tr(2) x2 a by (auto simp: loop_result_def intro: less_evidence_trans)
      then show ?thesis using tr(1) by (intro exI [of _ "ad_Name a # tried"]) simp
    qed
  qed
qed

lemma dial_loop_literal:
  "dial_loop env timeout (Some ip) host port domain n (x\<lparr>dx_resolver := rs\<rparr>) w =
     (let (out, x', w') = dial_loop env timeout (Some ip) host port domain n x w
      in (out, x'\<lparr>dx_resolver := rs\<rparr>, w'))"
proof (induction n arbitrary: x w)
  case (Suc n)
  obtain r s h where sel: "SelectForDomain (px_now env w) (set (dx_excluded x)) domain (dx_sched x) (dx_health x) = (r, s, h)"
    by (metis prod_cases3)
  show ?case
  proof (cases r)
    case (Some a)
    define x1 where "x1 = x\<lparr>dx_sched := s, dx_health := h, dx_excluded := dx_excluded x @ [ad_Name a]\<rparr>"
    have x1': "x\<lparr>dx_resolver := rs, dx_sched := s, dx_health := h, dx_excluded := dx_excluded x @ [ad_Name a]\<rparr>
        = x1\<lparr>dx_resolver := rs\<rparr>" by (simp add: x1_def)
    obtain c x2 w2 where t: "try_adapter env timeout (Some ip) host port domain a x1 w = (c, x2, w2)" by (metis prod_cases3)
    show ?thesis
      using Suc.IH [of x2 w2] by (cases c) (simp_all add: sel Some x1' x1_def [symmetric] try_adapter_literal t)
  qed (simp add: sel)
qed simp

lemma initial_excluded_set:
  "set (initial_excluded as network) = {ad_Name a | a. a \<in> set as \<and> \<not> adapterSupportsNetwork a network}"
proof -
  have "set (fold (\<lambda>a acc. if adapterSupportsNetwork a network \<or> ad_Name a \<in> set acc then acc else ad_Name a # acc) as acc)
     = set acc \<union> {ad_Name a | a. a \<in> set as \<and> \<not> adapterSupportsNetwork a network}" for acc
    by (induction as arbitrary: acc) auto
  then show ?thesis by (simp add: initial_excluded_def)
qed


text \<open>
  A literal target never touches DNS: the connection attempt does the same with any
  resolver, or none, and leaves the resolver as it was.
\<close>

theorem dialUpstream_literal_ignores_resolver:
  assumes "split_host_port target = Some (host, port)" "parse_ip host = Some ip"
    "dialUpstream env timeout target lit s h rs w = (out, x', w')"
  shows "dialUpstream env timeout target lit s h rs2 w = (out, x'\<lparr>dx_resolver := rs2\<rparr>, w')"
proof -
  have start: "dial_start s h rs2 (Some ip) = (dial_start s h rs (Some ip))\<lparr>dx_resolver := rs2\<rparr>"
    by (simp add: dial_start_def)
  show ?thesis using assms
    by (auto simp: dialUpstream_def Let_def start dial_loop_literal split: prod.splits option.splits)
qed

section \<open>Example\<close>

text \<open>A network in which the first interface cannot reach anything and the second can.\<close>

definition example_penv :: "unit proxy_env" where
  "example_penv =
     \<lparr>px_platform = OtherOS, px_now = (\<lambda>w. 1000),
      px_dial = (\<lambda>network d target w.
        (if dl_LocalIP d = Some [10, 0, 0, 2] then Inl (Some 101) else Inr example_conn, w)),
      px_write = (\<lambda>c bs w. ((length bs, None), w)), px_dns = example_env\<rparr>"

definition example_target :: string where "example_target = ''93.184.216.34:443''"

lemma example_target_split:
  "split_host_port example_target = Some (''93.184.216.34'', ''443'')"
  "parse_ip ''93.184.216.34'' = Some [0, 0, 0, 0, 0, 0, 0, 0, 0, 0, 0xff, 0xff, 93, 184, 216, 34]"
  by code_simp+


theorem dialUpstream_literal_ignores_resolver_witness:
  "fst (dialUpstream example_penv (6 * Second) example_target True
       (newScheduler example_pair True) (newHealthTable example_pair) (Some (example_resolver ''off'')) ())
   = Inr (example_conn, example_adapter ''wifi'' ''10.0.1.2'' 1)"
proof -
  let ?run = "\<lambda>rs. dialUpstream example_penv (6 * Second) example_target True
       (newScheduler example_pair True) (newHealthTable example_pair) rs ()"
  have f: "fst (?run None) = Inr (example_conn, example_adapter ''wifi'' ''10.0.1.2'' 1)" by code_simp
  obtain out x' w' where r: "?run None = (out, x', w')" by (metis prod_cases3)
  show ?thesis
    using dialUpstream_literal_ignores_resolver [OF example_target_split r, of "Some (example_resolver ''off'')"] f r
    by simp
qed

end
