(* ===== verification/Socks.thy ===== *)
theory Socks
  imports Dns_Wire
begin

text \<open>
  \<open>engine/internal/proxy/socks.go\<close> and the packet formats of \<open>udp.go\<close>: the SOCKS5 handshake on
  a byte stream, the address forms, the replies, and the headers of relayed datagrams.
  A client connection is the bytes it still delivers before it ends, the bytes written to it
  so far, and the number of further writes that succeed.
\<close>

section \<open>Model\<close>

record client_io =
  io_in :: "byte list"
  io_out :: "byte list"
  io_writes :: nat

text \<open>\<open>io.ReadFull\<close>, \<open>reader.ReadByte\<close> and \<open>client.Write\<close>.\<close>

definition read_full :: "nat \<Rightarrow> client_io \<Rightarrow> (byte list \<times> client_io) option" where
  "read_full n io =
     (if n \<le> length (io_in io) then Some (take n (io_in io), io\<lparr>io_in := drop n (io_in io)\<rparr>) else None)"

definition write_client :: "byte list \<Rightarrow> client_io \<Rightarrow> bool \<times> client_io" where
  "write_client bs io =
     (if io_writes io = 0 then (False, io)
      else (True, io\<lparr>io_out := io_out io @ bs, io_writes := io_writes io - 1\<rparr>))"

definition chars_of :: "byte list \<Rightarrow> string" where
  "chars_of bs = map (\<lambda>b. char_of (unat b)) bs"

definition readSOCKSHost :: "byte \<Rightarrow> client_io \<Rightarrow> (string \<times> client_io) option" where
  "readSOCKSHost addressType io =
     (if addressType = 1 then
        (case read_full 4 io of None \<Rightarrow> None | Some (value, io) \<Rightarrow> Some (ip_string value, io))
      else if addressType = 3 then
        (case read_full 1 io of
           None \<Rightarrow> None
         | Some (len, io) \<Rightarrow>
             if len ! 0 = 0 then None
             else case read_full (unat (len ! 0)) io of
                    None \<Rightarrow> None
                  | Some (value, io) \<Rightarrow> Some (chars_of value, io))
      else if addressType = 4 then
        (case read_full 16 io of None \<Rightarrow> None | Some (value, io) \<Rightarrow> Some (ip_string value, io))
      else None)"

definition socks_reply :: "byte \<Rightarrow> byte list" where
  "socks_reply reply = [5, reply, 0, 1, 0, 0, 0, 0, 0, 0]"

definition writeSOCKSReply :: "byte \<Rightarrow> client_io \<Rightarrow> bool \<times> client_io" where
  "writeSOCKSReply reply io = write_client (socks_reply reply) io"

text \<open>
  \<open>handleSOCKS\<close> up to the point where it hands over: the connection ends, a UDP association
  for the given client address starts, or a TCP connection to the given host and port is
  requested. A host that cannot be read costs a failure reply; the bytes of a host that was
  not complete stay unread in the model, which is invisible since the handler then returns.
\<close>

datatype socks_action = SocksEnd | SocksUDP string nat | SocksConnect string nat

definition read_greeting :: "client_io \<Rightarrow> (byte list \<times> client_io) option" where
  "read_greeting io =
     (case read_full 2 io of
        None \<Rightarrow> None
      | Some (header, io) \<Rightarrow>
          if header ! 0 \<noteq> 5 then None else read_full (unat (header ! 1)) io)"

definition read_command :: "string \<Rightarrow> client_io \<Rightarrow> socks_action \<times> client_io" where
  "read_command channel io =
     (case read_full 4 io of
        None \<Rightarrow> (SocksEnd, io)
      | Some (request, io) \<Rightarrow>
          if request ! 0 \<noteq> 5 then (SocksEnd, io)
          else case readSOCKSHost (request ! 3) io of
                 None \<Rightarrow> (SocksEnd, snd (writeSOCKSReply 8 io))
               | Some (host, io) \<Rightarrow>
                   (case read_full 2 io of
                      None \<Rightarrow> (SocksEnd, io)
                    | Some (portBytes, io) \<Rightarrow>
                        let port = unat (be16 (portBytes ! 0) (portBytes ! 1))
                        in if request ! 1 = 3 then
                             (if channel = [] then (SocksEnd, snd (writeSOCKSReply 7 io))
                              else (SocksUDP host port, io))
                           else if request ! 1 \<noteq> 1 then (SocksEnd, snd (writeSOCKSReply 7 io))
                           else (SocksConnect host port, io)))"

definition socks_handshake :: "string \<Rightarrow> client_io \<Rightarrow> socks_action \<times> client_io" where
  "socks_handshake channel io =
     (case read_greeting io of
        None \<Rightarrow> (SocksEnd, io)
      | Some (methods, io) \<Rightarrow>
          if 0 \<notin> set methods then (SocksEnd, snd (write_client [5, 0xff] io))
          else let (ok, io) = write_client [5, 0] io
               in if \<not> ok then (SocksEnd, io) else read_command channel io)"

subsection \<open>Datagrams\<close>

record socks_udp_packet =
  up_target :: string
  up_payload :: "byte list"

definition parseSOCKSUDPPacket :: "byte list \<Rightarrow> socks_udp_packet option" where
  "parseSOCKSUDPPacket p =
     (if length p < 4 \<or> p ! 0 \<noteq> 0 \<or> p ! 1 \<noteq> 0 \<or> p ! 2 \<noteq> 0 then None
      else
        let header =
              (if p ! 3 = 1 then (if length p < 10 then None else Some (take 4 (drop 4 p), 8))
               else if p ! 3 = 4 then
                 (if length p < 22 then None
                  else if to4 (take 16 (drop 4 p)) \<noteq> None then None
                  else Some (take 16 (drop 4 p), 20))
               else None)
        in case header of
             None \<Rightarrow> None
           | Some (ip, portOffset) \<Rightarrow>
               let port = unat (be16 (p ! portOffset) (p ! (portOffset + 1)));
                   payloadOffset = portOffset + 2
               in if port = 0 \<or> length p = payloadOffset then None
                  else Some \<lparr>up_target = join_host_port (ip_string ip) (nat_str port),
                             up_payload = drop payloadOffset p\<rparr>)"

definition packSOCKSUDPReply :: "string \<Rightarrow> byte list \<Rightarrow> byte list option" where
  "packSOCKSUDPReply target payload =
     (case split_host_port target of
        None \<Rightarrow> None
      | Some (host, portText) \<Rightarrow>
          (case (parse_ip host, atoi portText) of
             (Some ip, Some port) \<Rightarrow>
               if port \<le> 0 \<or> port > 65535 then None
               else (case to4 ip of
                       Some v4 \<Rightarrow> Some ([0, 0, 0, 1] @ v4 @ put16 (word_of_int port) @ payload)
                     | None \<Rightarrow>
                         (case to16 ip of
                            Some v6 \<Rightarrow> Some ([0, 0, 0, 4] @ v6 @ put16 (word_of_int port) @ payload)
                          | None \<Rightarrow> Some ([0, 0, 0, 4] @ replicate 16 0 @ put16 (word_of_int port) @ payload)))
           | _ \<Rightarrow> None))"

definition writeSOCKSBindReply :: "byte \<Rightarrow> (ip \<times> int) option \<Rightarrow> client_io \<Rightarrow> bool \<times> client_io" where
  "writeSOCKSBindReply reply address io =
     (case address of
        None \<Rightarrow> (False, io)
      | Some (ip, port) \<Rightarrow>
          (case to4 ip of
             None \<Rightarrow> (False, io)
           | Some v4 \<Rightarrow>
               if port < 0 \<or> port > 65535 then (False, io)
               else write_client ([5, reply, 0, 1] @ v4 @ put16 (word_of_int port)) io))"

section \<open>Requests as a client writes them\<close>

datatype socks_address = SocksIPv4 "byte list" | SocksDomain "byte list" | SocksIPv6 "byte list"

fun address_ok :: "socks_address \<Rightarrow> bool" where
  "address_ok (SocksIPv4 b) \<longleftrightarrow> length b = 4"
| "address_ok (SocksDomain d) \<longleftrightarrow> 0 < length d \<and> length d < 256"
| "address_ok (SocksIPv6 b) \<longleftrightarrow> length b = 16"

fun address_bytes :: "socks_address \<Rightarrow> byte list" where
  "address_bytes (SocksIPv4 b) = 1 # b"
| "address_bytes (SocksDomain d) = 3 # of_nat (length d) # d"
| "address_bytes (SocksIPv6 b) = 4 # b"

fun address_host :: "socks_address \<Rightarrow> string" where
  "address_host (SocksIPv4 b) = ip_string b"
| "address_host (SocksDomain d) = chars_of d"
| "address_host (SocksIPv6 b) = ip_string b"

definition socks_request :: "byte list \<Rightarrow> byte \<Rightarrow> byte \<Rightarrow> socks_address \<Rightarrow> uint16 \<Rightarrow> byte list" where
  "socks_request methods command reserved address port =
     [5, of_nat (length methods)] @ methods @ [5, command, reserved] @ address_bytes address @ put16 port"

text \<open>What a complete request asks for: the action, and the bytes sent back after the greeting.\<close>

definition socks_outcome :: "string \<Rightarrow> byte \<Rightarrow> string \<Rightarrow> nat \<Rightarrow> socks_action \<times> byte list" where
  "socks_outcome channel command host port =
     (if command = 1 then (SocksConnect host port, [])
      else if command = 3 \<and> channel \<noteq> [] then (SocksUDP host port, [])
      else (SocksEnd, socks_reply 7))"

lemma read_full_append:
  "n = length bs \<Longrightarrow> io_in io = bs @ rest \<Longrightarrow> read_full n io = Some (bs, io\<lparr>io_in := rest\<rparr>)"
  by (simp add: read_full_def)

lemma unat_byte_length: "n < 256 \<Longrightarrow> unat (of_nat n :: byte) = n"
  by (simp add: unat_of_nat)

lemma readSOCKSHost_address:
  assumes "address_ok a" "io_in io = tl (address_bytes a) @ rest"
  shows "readSOCKSHost (hd (address_bytes a)) io = Some (address_host a, io\<lparr>io_in := rest\<rparr>)"
proof (cases a)
  case (SocksDomain d)
  let ?io = "io\<lparr>io_in := d @ rest\<rparr>"
  have one: "read_full 1 io = Some ([of_nat (length d)], ?io)"
    using assms SocksDomain by (intro read_full_append) auto
  have len: "unat (of_nat (length d) :: byte) = length d" "(of_nat (length d) :: byte) \<noteq> 0"
    using assms(1) SocksDomain unat_byte_length [of "length d"] by (auto simp: unat_eq_0 [symmetric])
  have "read_full (length d) ?io = Some (d, io\<lparr>io_in := rest\<rparr>)"
    using read_full_append [of "length d" d ?io rest] by simp
  then show ?thesis using one len by (simp add: readSOCKSHost_def SocksDomain)
qed (use assms in \<open>auto simp: readSOCKSHost_def read_full_append\<close>)

lemma read_greeting_methods:
  assumes "length methods < 256" "io_in io = [5, of_nat (length methods)] @ methods @ rest"
  shows "read_greeting io = Some (methods, io\<lparr>io_in := rest\<rparr>)"
proof -
  have "read_full 2 io = Some ([5, of_nat (length methods)], io\<lparr>io_in := methods @ rest\<rparr>)"
    using assms(2) by (intro read_full_append) auto
  moreover have "read_full (length methods) (io\<lparr>io_in := methods @ rest\<rparr>)
      = Some (methods, io\<lparr>io_in := rest\<rparr>)"
    using read_full_append [of "length methods" methods "io\<lparr>io_in := methods @ rest\<rparr>" rest] by simp
  ultimately show ?thesis using unat_byte_length [OF assms(1)] by (simp add: read_greeting_def)
qed

text \<open>The result of writing \<open>bs\<close>, which may be nothing.\<close>

definition after_reply :: "byte list \<Rightarrow> client_io \<Rightarrow> client_io" where
  "after_reply bs io = (if bs = [] then io else snd (write_client bs io))"

lemma read_command_request:
  assumes "address_ok a" "io_in io = [5, command, reserved] @ address_bytes a @ put16 port @ rest"
  shows "read_command channel io =
    (let (act, reply) = socks_outcome channel command (address_host a) (unat port)
     in (act, after_reply reply (io\<lparr>io_in := rest\<rparr>)))"
proof -
  obtain t bs where t: "address_bytes a = t # bs" by (cases a) auto
  let ?io1 = "io\<lparr>io_in := bs @ put16 port @ rest\<rparr>" and ?io2 = "io\<lparr>io_in := put16 port @ rest\<rparr>"
  have r4: "read_full 4 io = Some ([5, command, reserved, t], ?io1)"
    using assms(2) t by (intro read_full_append) auto
  have h: "readSOCKSHost t ?io1 = Some (address_host a, ?io2)"
    using readSOCKSHost_address [OF assms(1), of ?io1 "put16 port @ rest"] t by simp
  have p: "read_full 2 ?io2 = Some (put16 port, io\<lparr>io_in := rest\<rparr>)"
    using read_full_append [of 2 "put16 port" ?io2 rest] by simp
  have port: "be16 (put16 port ! 0) (put16 port ! 1) = port" "be16 (put16 port ! 0) (put16 port ! Suc 0) = port"
    using be16_put16 [of port] by (simp_all add: put16_def)
  show ?thesis
    by (auto simp: read_command_def r4 h p port Let_def socks_outcome_def after_reply_def writeSOCKSReply_def socks_reply_def)
qed

text \<open>
  A complete SOCKS5 request, for any of the three address forms, any list of methods that
  offers no authentication and any command, is understood exactly: the client gets the
  method selection, the host and the port are those the client encoded, CONNECT and (on a
  channel listener) UDP ASSOCIATE are handed on, any other command is answered with reply 7,
  and no byte behind the request is consumed.
\<close>

theorem socks_request_roundtrip:
  assumes "length methods < 256" "0 \<in> set methods" "address_ok a" "0 < io_writes io"
    and "io_in io = socks_request methods command reserved a port @ rest"
  shows "socks_handshake channel io =
    (let (act, reply) = socks_outcome channel command (address_host a) (unat port)
     in (act, after_reply reply
           (io\<lparr>io_out := io_out io @ [5, 0], io_writes := io_writes io - 1, io_in := rest\<rparr>)))"
proof -
  let ?rest = "[5, command, reserved] @ address_bytes a @ put16 port @ rest"
  let ?io = "io\<lparr>io_in := ?rest, io_out := io_out io @ [5, 0], io_writes := io_writes io - 1\<rparr>"
  have g: "read_greeting io = Some (methods, io\<lparr>io_in := ?rest\<rparr>)"
    by (rule read_greeting_methods [OF assms(1)]) (simp add: assms(5) socks_request_def)
  have "socks_handshake channel io = read_command channel ?io"
    using assms(2,4) by (simp add: socks_handshake_def g write_client_def)
  also have "\<dots> = (let (act, reply) = socks_outcome channel command (address_host a) (unat port)
     in (act, after_reply reply (?io\<lparr>io_in := rest\<rparr>)))"
    by (rule read_command_request [OF assms(3)]) simp
  finally show ?thesis by simp
qed

lemma digits_no_bracket:
  assumes "list_all is_digit s"
  shows "CHR '':'' \<notin> set s" "CHR ''['' \<notin> set s" "CHR '']'' \<notin> set s"
  using assms by (auto simp: list_all_iff is_digit_def)

lemma ipv4_no_bracket: "CHR ''['' \<notin> set (ipv4_string b)" "CHR '']'' \<notin> set (ipv4_string b)"
  using ipv4_string_chars [of _ b] by (force simp: is_digit_def)+

lemma put16_be16: "put16 (be16 a b) = [a, b]"
proof -
  have "\<not> bit b (8 + n)" for n using bit_imp_le_length [of b "8 + n"] by auto
  then show ?thesis unfolding put16_def be16_def by (auto intro!: bit_word_eqI simp: bit_simps)
qed

lemma packSOCKSUDPReply_ipv4:
  assumes "length b = 4" "0 < port" "port < 65536"
  shows "packSOCKSUDPReply (join_host_port (ipv4_string b) (nat_str port)) payload
    = Some ([0, 0, 0, 1] @ b @ put16 (of_nat port) @ payload)"
proof -
  have "split_host_port (join_host_port (ipv4_string b) (nat_str port)) = Some (ipv4_string b, nat_str port)"
    using ipv4_no_bracket digits_no_bracket [OF nat_str_digits] by (rule split_join_host_port)
  moreover have "atoi (nat_str port) = Some (int port)" using assms(3) by (intro atoi_nat_str) simp
  ultimately show ?thesis
    using assms by (simp add: packSOCKSUDPReply_def parse_ipv4_string)
qed

text \<open>
  The header of a datagram survives the trip: for every IPv4 datagram the relay accepts, a
  reply packed for the target that was parsed starts with the very ten header bytes the
  client had sent, followed by the reply's payload.
\<close>

theorem udp_header_roundtrip:
  assumes "parseSOCKSUDPPacket p = Some pk" "p ! 3 = 1"
  shows "packSOCKSUDPReply (up_target pk) reply = Some (take 10 p @ reply) \<and> p = take 10 p @ up_payload pk
     \<and> up_payload pk \<noteq> []"
proof -
  let ?port = "be16 (p ! 8) (p ! 9)"
  have p: "10 < length p" "p ! 0 = 0" "p ! 1 = 0" "p ! 2 = 0" "unat ?port \<noteq> 0"
    and pk: "up_target pk = join_host_port (ip_string (take 4 (drop 4 p))) (nat_str (unat ?port))"
      "up_payload pk = drop 10 p"
    using assms by (auto simp: parseSOCKSUDPPacket_def Let_def split: if_splits)
  have hd: "take 10 p = [0, 0, 0, 1] @ take 4 (drop 4 p) @ [p ! 8, p ! 9]"
    using p assms(2) by (intro nth_equalityI) (auto simp: nth_append nth_Cons numeral_eq_Suc less_Suc_eq)
  have "packSOCKSUDPReply (up_target pk) reply
      = Some ([0, 0, 0, 1] @ take 4 (drop 4 p) @ put16 (of_nat (unat ?port)) @ reply)"
    unfolding pk using p ip_string_to4 [OF to4_id, of "take 4 (drop 4 p)"] unsigned_less [where w = ?port and 'a = nat]
    by (simp add: packSOCKSUDPReply_ipv4)
  then have "packSOCKSUDPReply (up_target pk) reply = Some (take 10 p @ reply)"
    by (simp add: hd put16_be16)
  then show ?thesis using p pk by simp
qed

section \<open>Examples\<close>

definition example_request :: "byte list" where
  "example_request = socks_request [0] 1 0 (SocksDomain [0x61, 0x2e, 0x62]) 443"

theorem socks_request_roundtrip_witness:
  "socks_handshake ''wifi'' \<lparr>io_in = example_request @ [22, 3], io_out = [], io_writes = 2\<rparr>
     = (SocksConnect ''a.b'' 443, \<lparr>io_in = [22, 3], io_out = [5, 0], io_writes = 1\<rparr>)"
proof -
  have "chars_of [0x61, 0x2e, 0x62] = ''a.b''" by code_simp
  then show ?thesis
    using socks_request_roundtrip [of "[0]" "SocksDomain [0x61, 0x2e, 0x62]"
      "\<lparr>io_in = example_request @ [22, 3], io_out = [], io_writes = 2\<rparr>" 1 0 443 "[22, 3]" "''wifi''"]
  by (simp add: example_request_def socks_outcome_def after_reply_def)
qed

theorem udp_header_roundtrip_witness:
  "\<exists>pk. parseSOCKSUDPPacket [0, 0, 0, 1, 8, 8, 4, 4, 0, 53, 7] = Some pk
     \<and> packSOCKSUDPReply (up_target pk) [9, 9] = Some [0, 0, 0, 1, 8, 8, 4, 4, 0, 53, 9, 9]"
proof -
  have "parseSOCKSUDPPacket [0, 0, 0, 1, 8, 8, 4, 4, 0, 53, 7] \<noteq> None" by code_simp
  then obtain pk where pk: "parseSOCKSUDPPacket [0, 0, 0, 1, 8, 8, 4, 4, 0, 53, 7] = Some pk" by auto
  then show ?thesis using udp_header_roundtrip [OF pk, of "[9, 9]"] by simp
qed

end
