(* ===== verification/Udp.thy ===== *)
theory Udp
  imports Dial Socks
begin

text \<open>
  \<open>engine/internal/proxy/udp.go\<close>: a SOCKS5 UDP association. The association keeps one flow per
  target; a flow owns a connected upstream socket and a telemetry session. A \<open>*udpFlow\<close> is the
  position of its object in \<open>ua_objects\<close>, since a closed flow can still be held by the goroutine
  that serves it; \<open>ua_flows\<close> is the map \<open>flows\<close>. \<open>udp_state\<close> also holds what the association
  changes elsewhere: its scheduler, the health table, the registry and the connections closed
  so far. Where the code releases the association's mutex in the middle of \<open>forward\<close>, the model
  has one definition per critical section, composed in \<open>forward\<close>.
\<close>

section \<open>Model\<close>

type_synonym udp_addr = "ip \<times> int"

record udp_flow =
  uf_target :: string
  uf_adapter :: "adapter option"
  uf_connection :: net_conn
  uf_session :: uint64
  uf_lastActive :: go_time
  uf_client :: udp_addr
  uf_done :: bool

record udp_association =
  ua_channel :: string
  ua_relay :: net_conn
  ua_allowedIP :: ip
  ua_lockedPort :: int
  ua_flowLimit :: nat
  ua_idleTimeout :: duration
  ua_timeout :: duration
  ua_objects :: "udp_flow list"
  ua_flows :: "(string \<times> nat) list"
  ua_closed :: bool

record udp_state =
  us_assoc :: udp_association
  us_sched :: "scheduler option"
  us_health :: health_table
  us_registry :: registry
  us_closes :: "net_conn list"

definition defaultUDPFlowLimit :: nat where "defaultUDPFlowLimit = 256"
definition defaultUDPFlowIdleTimeout :: duration where "defaultUDPFlowIdleTimeout = 120 * Second"
definition defaultUDPFlowSweepInterval :: duration where "defaultUDPFlowSweepInterval = 5 * Second"

datatype udp_error =
    UdpBadTarget | UdpNotLiteral | UdpNoScheduler | UdpNoAdapter
  | UdpFailed "(string \<times> int option) list" | UdpDirectFailed "int option"

definition flow_of :: "udp_state \<Rightarrow> nat \<Rightarrow> udp_flow" where
  "flow_of st i = ua_objects (us_assoc st) ! i"

definition set_flow :: "nat \<Rightarrow> (udp_flow \<Rightarrow> udp_flow) \<Rightarrow> udp_state \<Rightarrow> udp_state" where
  "set_flow i f st = st\<lparr>us_assoc := (us_assoc st)
     \<lparr>ua_objects := (ua_objects (us_assoc st))[i := f (flow_of st i)]\<rparr>\<rparr>"

definition on_registry :: "(registry \<Rightarrow> registry) \<Rightarrow> udp_state \<Rightarrow> udp_state" where
  "on_registry f st = st\<lparr>us_registry := f (us_registry st)\<rparr>"

definition set_flows :: "(string \<times> nat) list \<Rightarrow> udp_state \<Rightarrow> udp_state" where
  "set_flows fs st = st\<lparr>us_assoc := (us_assoc st)\<lparr>ua_flows := fs\<rparr>\<rparr>"

definition close_conn :: "net_conn \<Rightarrow> udp_state \<Rightarrow> udp_state" where
  "close_conn c st = st\<lparr>us_closes := us_closes st @ [c]\<rparr>"

subsection \<open>Flows\<close>

definition touch :: "go_time \<Rightarrow> nat \<Rightarrow> udp_state \<Rightarrow> udp_state" where
  "touch now i st = set_flow i (\<lambda>f. f\<lparr>uf_lastActive := now\<rparr>) st"

definition send :: "'w proxy_env \<Rightarrow> nat \<Rightarrow> byte list \<Rightarrow> udp_state \<Rightarrow> 'w \<Rightarrow> bool \<times> udp_state \<times> 'w" where
  "send env i payload st w =
     (let ((written, err), w) = px_write env (uf_connection (flow_of st i)) payload w;
          st = (if 0 < written
                then touch (px_now env w) i (on_registry (AddUp (uf_session (flow_of st i)) (of_nat written)) st)
                else st)
      in (err = None \<and> written = length payload, st, w))"

text \<open>\<open>closeOnce\<close> makes every call but the first do nothing.\<close>

definition flow_close :: "nat \<Rightarrow> udp_state \<Rightarrow> udp_state" where
  "flow_close i st =
     (let f = flow_of st i
      in if uf_done f then st
         else
           let st = close_conn (uf_connection f) (set_flow i (\<lambda>f. f\<lparr>uf_done := True\<rparr>) st);
               st = (if map_of (ua_flows (us_assoc st)) (uf_target f) = Some i
                     then set_flows (AList.delete (uf_target f) (ua_flows (us_assoc st))) st else st)
           in on_registry (Finish (uf_session f)) st)"

datatype flow_read = FlowTimeout | FlowReadError | FlowData "byte list"

text \<open>
  One round of \<open>receiveLoop\<close>: the outcome of the read and of the write to the client are given;
  the result says whether the loop goes on. Leaving it closes the flow.
\<close>

definition receive_step ::
    "go_time \<Rightarrow> flow_read \<Rightarrow> (byte list \<Rightarrow> udp_addr \<Rightarrow> nat option) \<Rightarrow> nat \<Rightarrow> udp_state \<Rightarrow> bool \<times> udp_state" where
  "receive_step now rd relay_write i st =
     (let f = flow_of st i
      in case rd of
           FlowTimeout \<Rightarrow>
             if now - uf_lastActive f < ua_idleTimeout (us_assoc st) then (True, st)
             else (False, flow_close i st)
         | FlowReadError \<Rightarrow> (False, flow_close i st)
         | FlowData bs \<Rightarrow>
             if bs = [] then (True, st)
             else case packSOCKSUDPReply (uf_target f) bs of
                    None \<Rightarrow> (False, flow_close i st)
                  | Some packet \<Rightarrow>
                      (case relay_write packet (uf_client f) of
                         None \<Rightarrow> (False, flow_close i st)
                       | Some written \<Rightarrow>
                           let st = on_registry (AddDown (uf_session f) (of_nat (length bs))) st
                           in (True, if 0 < written then touch now i st else st)))"

fun receiveLoop ::
    "(byte list \<Rightarrow> udp_addr \<Rightarrow> nat option) \<Rightarrow> nat \<Rightarrow> (go_time \<times> flow_read) list \<Rightarrow> udp_state \<Rightarrow> bool \<times> udp_state" where
  "receiveLoop relay_write i [] st = (True, st)"
| "receiveLoop relay_write i ((now, rd) # rds) st =
     (let (go, st) = receive_step now rd relay_write i st
      in if go then receiveLoop relay_write i rds st else (False, st))"

text \<open>Dialling and sending the first payload; a socket that was opened is closed on failure.\<close>

definition udp_setup ::
    "'w proxy_env \<Rightarrow> dialer \<Rightarrow> string \<Rightarrow> byte list \<Rightarrow> udp_state \<Rightarrow> 'w \<Rightarrow> (int option + net_conn) \<times> udp_state \<times> 'w" where
  "udp_setup env d target payload st w =
     (let (c, w) = dialUDP env d target w
      in case c of
           Inl e \<Rightarrow> (Inl e, st, w)
         | Inr upstream \<Rightarrow>
             let ((written, err), w) = px_write env upstream payload w
             in case err of
                  Some e \<Rightarrow> (Inl e, close_conn upstream st, w)
                | None \<Rightarrow> if written \<noteq> length payload then (Inl None, close_conn upstream st, w)
                          else (Inr upstream, st, w))"

definition udp_label :: "udp_addr \<Rightarrow> string" where
  "udp_label a = join_host_port (ip_string (fst a)) (itoa (snd a))"

text \<open>The telemetry session of a new flow and the flow itself, for an adapter or direct.\<close>

definition start_flow ::
    "go_time \<Rightarrow> udp_addr \<Rightarrow> string \<Rightarrow> byte list \<Rightarrow> net_conn \<Rightarrow> adapter option \<Rightarrow> udp_state \<Rightarrow> nat \<times> udp_state" where
  "start_flow now client target payload upstream ad st =
     (let a = us_assoc st;
          (sid, r) = BeginAddress now ''socks5_udp'' (ua_channel a) (udp_label client) (ua_relay a) (us_registry st);
          r = (case ad of Some x \<Rightarrow> Attach sid upstream target x r | None \<Rightarrow> AttachDirect sid upstream target r);
          r = AddUp sid (of_nat (length payload)) r;
          flow = \<lparr>uf_target = target, uf_adapter = ad, uf_connection = upstream, uf_session = sid,
                  uf_lastActive = now, uf_client = client, uf_done = False\<rparr>
      in (length (ua_objects a),
          st\<lparr>us_registry := r, us_assoc := a\<lparr>ua_objects := ua_objects a @ [flow]\<rparr>\<rparr>))"

fun flow_loop ::
    "'w proxy_env \<Rightarrow> udp_addr \<Rightarrow> string \<Rightarrow> string \<Rightarrow> byte list \<Rightarrow> nat \<Rightarrow> string list \<Rightarrow> (string \<times> int option) list \<Rightarrow>
       scheduler \<Rightarrow> udp_state \<Rightarrow> 'w \<Rightarrow> (udp_error + nat) \<times> udp_state \<times> 'w" where
  "flow_loop env client target network payload 0 excluded failures s st w =
     (Inl (if failures = [] then UdpNoAdapter else UdpFailed failures), st\<lparr>us_sched := Some s\<rparr>, w)"
| "flow_loop env client target network payload (Suc n) excluded failures s st w =
     (case Select (px_now env w) (set excluded) s (us_health st) of
        (None, s, h) \<Rightarrow>
          (Inl (if failures = [] then UdpNoAdapter else UdpFailed failures), st\<lparr>us_sched := Some s, us_health := h\<rparr>, w)
      | (Some a, s, h) \<Rightarrow>
          let st = st\<lparr>us_sched := Some s, us_health := h\<rparr>; excluded = excluded @ [ad_Name a]
          in case boundNetworkDialer (px_platform env) a (ua_timeout (us_assoc st)) network of
               None \<Rightarrow>
                 flow_loop env client target network payload n excluded (failures @ [(ad_Name a, None)]) s
                   (st\<lparr>us_health := MarkFailure (px_now env w) (ad_Name a) (us_health st)\<rparr>) w
             | Some d \<Rightarrow>
                 (case udp_setup env d target payload st w of
                    (Inl e, st, w) \<Rightarrow>
                      flow_loop env client target network payload n excluded (failures @ [(ad_Name a, e)]) s
                        (if isLocalConnectFailure e
                         then st\<lparr>us_health := MarkFailure (px_now env w) (ad_Name a) (us_health st)\<rparr> else st) w
                  | (Inr upstream, st, w) \<Rightarrow>
                      let st = st\<lparr>us_health := MarkSuccess (px_now env w) (ad_Name a) [] (us_health st)\<rparr>;
                          (i, st) = start_flow (px_now env w) client target payload upstream (Some a) st
                      in (Inr i, st, w)))"

definition createDirectFlow ::
    "'w proxy_env \<Rightarrow> udp_addr \<Rightarrow> string \<Rightarrow> string \<Rightarrow> byte list \<Rightarrow> udp_state \<Rightarrow> 'w \<Rightarrow>
       (udp_error + nat) \<times> udp_state \<times> 'w" where
  "createDirectFlow env client target network payload st w =
     (let d = \<lparr>dl_Timeout = ua_timeout (us_assoc st), dl_KeepAlive = 0, dl_LocalUDP = (network = ''udp6''),
               dl_LocalIP = (if network = ''udp6'' then Some (replicate 16 0) else None), dl_UnicastIF = None\<rparr>
      in case udp_setup env d target payload st w of
           (Inl e, st, w) \<Rightarrow> (Inl (UdpDirectFailed e), st, w)
         | (Inr upstream, st, w) \<Rightarrow>
             let (i, st) = start_flow (px_now env w) client target payload upstream None st
             in (Inr i, st, w))"

definition createFlow ::
    "'w proxy_env \<Rightarrow> udp_addr \<Rightarrow> string \<Rightarrow> byte list \<Rightarrow> udp_state \<Rightarrow> 'w \<Rightarrow> (udp_error + nat) \<times> udp_state \<times> 'w" where
  "createFlow env client target payload st w =
     (case split_host_port target of
        None \<Rightarrow> (Inl UdpBadTarget, st, w)
      | Some (host, port) \<Rightarrow>
          (case parse_ip host of
             None \<Rightarrow> (Inl UdpNotLiteral, st, w)
           | Some targetIP \<Rightarrow>
               let network = networkForIP ''udp'' targetIP
               in if ua_channel (us_assoc st) = ChannelDirect
                  then createDirectFlow env client target network payload st w
                  else case us_sched st of
                         None \<Rightarrow> (Inl UdpNoScheduler, st, w)
                       | Some s \<Rightarrow>
                           let excluded = initial_excluded (sc_adapters s) network
                           in flow_loop env client target network payload (dial_attempts (sc_adapters s) excluded)
                                excluded [] s st w))"

subsection \<open>The association\<close>

datatype forward_phase = ForwardDone | ForwardCreate

definition forward_lookup ::
    "'w proxy_env \<Rightarrow> socks_udp_packet \<Rightarrow> udp_state \<Rightarrow> 'w \<Rightarrow> forward_phase \<times> udp_state \<times> 'w" where
  "forward_lookup env packet st w =
     (if ua_closed (us_assoc st) then (ForwardDone, st, w)
      else case map_of (ua_flows (us_assoc st)) (up_target packet) of
             Some i \<Rightarrow>
               let (ok, st, w) = send env i (up_payload packet) st w
               in (ForwardDone, if ok then st else flow_close i st, w)
           | None \<Rightarrow>
               if ua_flowLimit (us_assoc st) \<le> length (ua_flows (us_assoc st)) then (ForwardDone, st, w)
               else (ForwardCreate, st, w))"

definition forward_install ::
    "'w proxy_env \<Rightarrow> socks_udp_packet \<Rightarrow> nat \<Rightarrow> udp_state \<Rightarrow> 'w \<Rightarrow> udp_state \<times> 'w" where
  "forward_install env packet i st w =
     (if ua_closed (us_assoc st) then (flow_close i st, w)
      else case map_of (ua_flows (us_assoc st)) (up_target packet) of
             Some j \<Rightarrow> (let (ok, st, w) = send env j (up_payload packet) (flow_close i st) w in (st, w))
           | None \<Rightarrow> (set_flows (AList.update (up_target packet) i (ua_flows (us_assoc st))) st, w))"

definition forward ::
    "'w proxy_env \<Rightarrow> udp_addr \<Rightarrow> socks_udp_packet \<Rightarrow> udp_state \<Rightarrow> 'w \<Rightarrow> udp_state \<times> 'w" where
  "forward env client packet st w =
     (case forward_lookup env packet st w of
        (ForwardDone, st, w) \<Rightarrow> (st, w)
      | (ForwardCreate, st, w) \<Rightarrow>
          (case createFlow env client (up_target packet) (up_payload packet) st w of
             (Inl e, st, w) \<Rightarrow> (st, w)
           | (Inr i, st, w) \<Rightarrow> forward_install env packet i st w))"

text \<open>The checks of \<open>serve\<close> on a datagram: the sender's address and port, and the packet.\<close>

definition serve_accept ::
    "udp_addr option \<Rightarrow> byte list \<Rightarrow> udp_association \<Rightarrow> (udp_addr \<times> socks_udp_packet \<times> udp_association) option" where
  "serve_accept clientAddress bytes a =
     (case clientAddress of
        None \<Rightarrow> None
      | Some (ip, port) \<Rightarrow>
          if \<not> ip_equal ip (ua_allowedIP a) then None
          else case parseSOCKSUDPPacket bytes of
                 None \<Rightarrow> None
               | Some packet \<Rightarrow>
                   if ua_lockedPort a \<noteq> 0 \<and> port \<noteq> ua_lockedPort a then None
                   else Some ((ip, port), packet,
                              a\<lparr>ua_lockedPort := (if ua_lockedPort a = 0 then port else ua_lockedPort a)\<rparr>))"

datatype relay_read = RelayClosed | RelayTimeout | RelayError | RelayData "udp_addr option" "byte list"

text \<open>
  \<open>serve\<close> over the successive observations of the loop: whether the control connection or the
  server's context has ended, and the outcome of the read. The result is \<open>None\<close> while the loop
  runs, and afterwards whether it ended with an error.
\<close>

fun serve ::
    "'w proxy_env \<Rightarrow> (bool \<times> relay_read) list \<Rightarrow> udp_state \<Rightarrow> 'w \<Rightarrow> bool option \<times> udp_state \<times> 'w" where
  "serve env [] st w = (None, st, w)"
| "serve env ((stop, rd) # rds) st w =
     (if stop then (Some False, st, w)
      else case rd of
             RelayClosed \<Rightarrow> (Some False, st, w)
           | RelayTimeout \<Rightarrow> serve env rds st w
           | RelayError \<Rightarrow> (Some True, st, w)
           | RelayData clientAddress bytes \<Rightarrow>
               (case serve_accept clientAddress bytes (us_assoc st) of
                  None \<Rightarrow> serve env rds st w
                | Some (client, packet, a) \<Rightarrow>
                    let (st, w) = forward env client packet (st\<lparr>us_assoc := a\<rparr>) w
                    in serve env rds st w))"

definition association_close :: "udp_state \<Rightarrow> udp_state" where
  "association_close st =
     (if ua_closed (us_assoc st) then st
      else
        let flows = map snd (ua_flows (us_assoc st));
            st = st\<lparr>us_assoc := (us_assoc st)\<lparr>ua_closed := True\<rparr>\<rparr>
        in fold flow_close flows (close_conn (ua_relay (us_assoc st)) st))"

text \<open>
  The checks and replies before an association serves: \<open>peer\<close> and \<open>local\<close> are the addresses of the
  control connection when they are TCP addresses, \<open>listenUDP\<close> opens the relay socket.
\<close>

datatype association_error =
    PeerNotIPv4 | InvalidClientAddress | ClientAddressMismatch | ListenerNotIPv4 | RelayListenFailed
  | UnknownUDPChannel | BindReplyFailed

definition open_association ::
    "(ip \<Rightarrow> (net_conn \<times> udp_addr) option) \<Rightarrow> ip option \<Rightarrow> ip option \<Rightarrow> string \<Rightarrow> scheduler option \<Rightarrow>
       string \<Rightarrow> int \<Rightarrow> duration \<Rightarrow> client_io \<Rightarrow> (association_error + udp_association) \<times> net_conn list \<times> client_io" where
  "open_association listenUDP peer local channel sched requestedHost requestedPort timeout io =
     (case Option.bind peer to4 of
        None \<Rightarrow> (Inl PeerNotIPv4, [], io)
      | Some peer4 \<Rightarrow>
          (case parse_ip requestedHost of
             None \<Rightarrow> (Inl InvalidClientAddress, [], io)
           | Some requestedIP \<Rightarrow>
               if \<not> ip_is_unspecified requestedIP \<and> \<not> ip_equal requestedIP (the peer) then (Inl ClientAddressMismatch, [], io)
               else case Option.bind local to4 of
                      None \<Rightarrow> (Inl ListenerNotIPv4, [], io)
                    | Some local4 \<Rightarrow>
                        (case listenUDP local4 of
                           None \<Rightarrow> (Inl RelayListenFailed, [], io)
                         | Some (relay, bound) \<Rightarrow>
                             if sched = None \<and> channel \<noteq> ChannelDirect then (Inl UnknownUDPChannel, [relay], io)
                             else
                               let (ok, io) = writeSOCKSBindReply 0 (Some bound) io
                               in if \<not> ok then (Inl BindReplyFailed, [relay], io)
                                  else (Inr \<lparr>ua_channel = channel, ua_relay = relay, ua_allowedIP = peer4,
                                             ua_lockedPort = requestedPort, ua_flowLimit = defaultUDPFlowLimit,
                                             ua_idleTimeout = defaultUDPFlowIdleTimeout, ua_timeout = timeout,
                                             ua_objects = [], ua_flows = [], ua_closed = False\<rparr>, [], io))))"

text \<open>\<open>handleUDPAssociation\<close>: whether the association started, whether an error is returned, and the state after.\<close>

definition handleUDPAssociation ::
    "'w proxy_env \<Rightarrow> (ip \<Rightarrow> (net_conn \<times> udp_addr) option) \<Rightarrow> ip option \<Rightarrow> ip option \<Rightarrow> string \<Rightarrow> scheduler option \<Rightarrow>
       health_table \<Rightarrow> registry \<Rightarrow> string \<Rightarrow> int \<Rightarrow> duration \<Rightarrow> (bool \<times> relay_read) list \<Rightarrow> client_io \<Rightarrow> 'w \<Rightarrow>
       (bool \<times> bool) \<times> udp_state option \<times> client_io \<times> 'w" where
  "handleUDPAssociation env listenUDP peer local channel sched h r requestedHost requestedPort timeout reads io w =
     (case open_association listenUDP peer local channel sched requestedHost requestedPort timeout io of
        (Inl e, closes, io) \<Rightarrow> ((False, True), None, io, w)
      | (Inr a, closes, io) \<Rightarrow>
          let (res, st, w) = serve env reads
                \<lparr>us_assoc = a, us_sched = sched, us_health = h, us_registry = r, us_closes = closes\<rparr> w
          in ((True, res = Some True), Some (association_close st), io, w))"

end
