(* ===== verification/Http.thy ===== *)
theory Http
  imports Socks
begin

text \<open>
  \<open>engine/internal/proxy/http.go\<close>: reading the header of an HTTP proxy request, extracting the
  target, and rewriting the header for the upstream server. \<open>net/url\<close> is a parameter:
  \<open>parse_url\<close> gives, for a request target that parses, the values of the methods the code
  calls on the result. Everything is proved for every such function.
\<close>

section \<open>Model\<close>

definition maxHTTPHeaderBytes :: nat where "maxHTTPHeaderBytes = 65536"

datatype http_error =
    HeaderRead | HeaderTooLong | MissingRequestLine | InvalidRequestLine | MissingHostHeader
  | BadURLPort | EmptyHost | InvalidPort | InvalidExplicitHost | IPv6NeedsBrackets

record proxyRequest =
  pr_host :: string
  pr_port :: int
  pr_connect :: bool
  pr_forwardHeader :: "byte list"

record parsed_url =
  pu_IsAbs :: bool
  pu_Hostname :: string
  pu_Port :: string
  pu_Scheme :: string
  pu_RequestURI :: string

text \<open>\<open>reader.ReadBytes('\n')\<close>: the bytes up to and including the next newline.\<close>

fun read_line :: "byte list \<Rightarrow> (byte list \<times> byte list) option" where
  "read_line [] = None"
| "read_line (b # bs) =
     (if b = 10 then Some ([b], bs)
      else map_option (\<lambda>(line, rest). (b # line, rest)) (read_line bs))"

definition blank_line :: "byte list \<Rightarrow> bool" where
  "blank_line line \<longleftrightarrow> line = [13, 10] \<or> line = [10]"

lemma read_line_shorter: "read_line bs = Some (line, rest) \<Longrightarrow> bs = line @ rest \<and> line \<noteq> []"
  by (induction bs arbitrary: line) (auto split: if_splits)

function read_header_loop :: "byte list \<Rightarrow> byte list \<Rightarrow> http_error + byte list \<times> byte list" where
  "read_header_loop result input =
     (if maxHTTPHeaderBytes < length result then Inl HeaderTooLong
      else case read_line input of
             None \<Rightarrow> Inl HeaderRead
           | Some (line, rest) \<Rightarrow>
               if blank_line line then Inr (result @ line, rest)
               else read_header_loop (result @ line) rest)"
  by pat_completeness auto
termination
  by (relation "measure (\<lambda>(result, input). length input)") (auto dest: read_line_shorter)

declare read_header_loop.simps [simp del]

definition readHTTPHeader :: "client_io \<Rightarrow> http_error + byte list \<times> client_io" where
  "readHTTPHeader io =
     map_sum (\<lambda>e. e) (\<lambda>(header, rest). (header, io\<lparr>io_in := rest\<rparr>)) (read_header_loop [] (io_in io))"

text \<open>\<open>strings.ReplaceAll(text, "\r\n", "\n")\<close> and the lines of a header.\<close>

fun crlf_to_lf :: "string \<Rightarrow> string" where
  "crlf_to_lf (c # d # cs) =
     (if c = CHR 0x0D \<and> d = CHR 0x0A then d # crlf_to_lf cs else c # crlf_to_lf (d # cs))"
| "crlf_to_lf cs = cs"

definition header_lines :: "byte list \<Rightarrow> string list" where
  "header_lines header = split_on (CHR 0x0A) (crlf_to_lf (chars_of header))"

fun findHTTPHeader :: "string list \<Rightarrow> string \<Rightarrow> string" where
  "findHTTPHeader [] wanted = []"
| "findHTTPHeader (line # lines) wanted =
     (let parts = split_n 2 CHR '':'' line
      in if length parts = 2 \<and> equal_fold (trim_space (parts ! 0)) wanted then trim_space (parts ! 1)
         else findHTTPHeader lines wanted)"

definition is_bracket :: "char \<Rightarrow> bool" where
  "is_bracket c \<longleftrightarrow> c = CHR ''['' \<or> c = CHR '']''"

definition trim_brackets :: "string \<Rightarrow> string" where
  "trim_brackets s = rev (dropWhile is_bracket (rev (dropWhile is_bracket s)))"

definition splitHostPort :: "string \<Rightarrow> int \<Rightarrow> http_error + string \<times> int" where
  "splitHostPort value defaultPort =
     (let value = trim_space value
      in if value = [] then Inl EmptyHost
         else case split_host_port value of
                Some (host, portText) \<Rightarrow>
                  (case atoi portText of
                     None \<Rightarrow> Inl InvalidPort
                   | Some port \<Rightarrow> if port < 1 \<or> port > 65535 then Inl InvalidPort else Inr (host, port))
              | None \<Rightarrow>
                  if count_list value CHR '':'' = 1 then Inl InvalidExplicitHost
                  else if count_list value CHR '':'' > 1 \<and> \<not> has_prefix value ''['' then Inl IPv6NeedsBrackets
                  else Inr (trim_brackets value, defaultPort))"

text \<open>The header lines that are kept when the request is forwarded, and the forwarded text.\<close>

definition header_name :: "string \<Rightarrow> string" where
  "header_name line = to_lower (trim_space (split_n 2 CHR '':'' line ! 0))"

definition forwards :: "string \<Rightarrow> bool" where
  "forwards line \<longleftrightarrow> line \<noteq> [] \<and> header_name line \<noteq> ''proxy-connection''
     \<and> header_name line \<noteq> ''proxy-authorization''"

definition crlf :: string where "crlf = [CHR 0x0D, CHR 0x0A]"

definition forward_text :: "string \<Rightarrow> string \<Rightarrow> string \<Rightarrow> string list \<Rightarrow> string" where
  "forward_text method originTarget version lines =
     method @ '' '' @ originTarget @ '' '' @ version @ crlf
     @ concat (map (\<lambda>line. line @ crlf) (filter forwards lines)) @ crlf"

text \<open>Host, port and origin form of a request that is not CONNECT.\<close>

definition host_header_target :: "string \<Rightarrow> string list \<Rightarrow> http_error + string \<times> int \<times> string" where
  "host_header_target target lines =
     (let hostHeader = findHTTPHeader lines ''host''
      in if hostHeader = [] then Inl MissingHostHeader
         else map_sum (\<lambda>e. e) (\<lambda>(host, port). (host, port, target)) (splitHostPort hostHeader 80))"

definition request_target ::
    "(string \<Rightarrow> parsed_url option) \<Rightarrow> string \<Rightarrow> string list \<Rightarrow> http_error + string \<times> int \<times> string" where
  "request_target parse_url target lines =
     (case parse_url target of
        Some u \<Rightarrow>
          if pu_IsAbs u \<and> pu_Hostname u \<noteq> [] then
            let origin = (if pu_RequestURI u = [] then ''/'' else pu_RequestURI u)
            in if pu_Port u \<noteq> [] then
                 (case atoi (pu_Port u) of
                    None \<Rightarrow> Inl BadURLPort
                  | Some port \<Rightarrow> Inr (pu_Hostname u, port, origin))
               else Inr (pu_Hostname u, if equal_fold (pu_Scheme u) ''https'' then 443 else 80, origin)
          else host_header_target target lines
      | None \<Rightarrow> host_header_target target lines)"

definition parseProxyRequest ::
    "(string \<Rightarrow> parsed_url option) \<Rightarrow> byte list \<Rightarrow> http_error + proxyRequest" where
  "parseProxyRequest parse_url header =
     (let lines = header_lines header
      in if length lines < 2 then Inl MissingRequestLine
         else
           let parts = split_n 3 CHR '' '' (lines ! 0)
           in if length parts \<noteq> 3 then Inl InvalidRequestLine
              else
                let method = parts ! 0; target = parts ! 1; version = parts ! 2
                in if equal_fold method ''CONNECT'' then
                     map_sum (\<lambda>e. e)
                       (\<lambda>(host, port). \<lparr>pr_host = host, pr_port = port, pr_connect = True, pr_forwardHeader = []\<rparr>)
                       (splitHostPort target 443)
                   else
                     map_sum (\<lambda>e. e)
                       (\<lambda>(host, port, originTarget).
                          \<lparr>pr_host = host, pr_port = port, pr_connect = False,
                           pr_forwardHeader = bytes_of (forward_text method originTarget version (tl lines))\<rparr>)
                       (request_target parse_url target (tl lines)))"

definition http_error_text :: "string \<Rightarrow> string" where
  "http_error_text status =
     ''HTTP/1.1 '' @ status @ crlf @ ''Connection: close'' @ crlf @ ''Content-Length: 0'' @ crlf @ crlf"

definition writeHTTPError :: "string \<Rightarrow> client_io \<Rightarrow> client_io" where
  "writeHTTPError status io = snd (write_client (bytes_of (http_error_text status)) io)"

definition connect_established :: string where
  "connect_established =
     ''HTTP/1.1 200 Connection Established'' @ crlf @ ''Proxy-Agent: HypoMux'' @ crlf @ crlf"

section \<open>Reading the header\<close>

definition is_line :: "byte list \<Rightarrow> bool" where
  "is_line l \<longleftrightarrow> (\<exists>body. l = body @ [10] \<and> 10 \<notin> set body)"

lemma read_line_iff: "read_line bs = Some (line, rest) \<longleftrightarrow> bs = line @ rest \<and> is_line line"
proof (induction bs arbitrary: line)
  case (Cons b bs)
  show ?case
  proof (cases line)
    case (Cons c l)
    have "is_line (c # l) \<longleftrightarrow> (if c = 10 then l = [] else is_line l)"
      by (auto simp: is_line_def Cons_eq_append_conv)
    then show ?thesis using Cons.IH [of l] by (auto simp: Cons)
  qed (auto simp: is_line_def)
qed (auto simp: is_line_def)

lemma blank_is_line: "blank_line l \<Longrightarrow> is_line l \<and> length l \<le> 2"
  by (force simp: blank_line_def is_line_def)

lemma read_header_loop_sound:
  "read_header_loop acc input = Inr (h, rest) \<Longrightarrow>
   \<exists>ls l. input = concat ls @ l @ rest \<and> h = acc @ concat ls @ l \<and> (\<forall>x \<in> set ls. is_line x \<and> \<not> blank_line x)
     \<and> blank_line l \<and> length (acc @ concat ls) \<le> maxHTTPHeaderBytes"
proof (induction acc input rule: read_header_loop.induct)
  case (1 acc input)
  then have acc: "length acc \<le> maxHTTPHeaderBytes"
    by (auto simp: read_header_loop.simps [of acc] split: if_splits)
  from 1(2) acc obtain line t where line: "read_line input = Some (line, t)"
    by (auto simp: read_header_loop.simps [of acc] split: option.splits)
  then have input: "input = line @ t" "is_line line" by (simp_all add: read_line_iff)
  show ?case
  proof (cases "blank_line line")
    case True
    then show ?thesis using 1(2) acc input line
      by (intro exI [of _ "[]"] exI [of _ line]) (simp add: read_header_loop.simps [of acc])
  next
    case False
    then have "read_header_loop (acc @ line) t = Inr (h, rest)"
      using 1(2) acc line by (simp add: read_header_loop.simps [of acc])
    then obtain ls l where ls: "t = concat ls @ l @ rest" "h = (acc @ line) @ concat ls @ l"
      "\<forall>x \<in> set ls. is_line x \<and> \<not> blank_line x" "blank_line l"
      "length ((acc @ line) @ concat ls) \<le> maxHTTPHeaderBytes"
      using 1(1) [OF _ line refl False] acc by auto
    then show ?thesis using input False
      by (intro exI [of _ "line # ls"] exI [of _ l]) simp
  qed
qed

lemma read_header_loop_complete:
  "\<lbrakk>\<forall>x \<in> set ls. is_line x \<and> \<not> blank_line x; blank_line l; length (acc @ concat ls) \<le> maxHTTPHeaderBytes\<rbrakk> \<Longrightarrow>
   read_header_loop acc (concat ls @ l @ rest) = Inr (acc @ concat ls @ l, rest)"
proof (induction ls arbitrary: acc)
  case Nil
  then have "read_line (l @ rest) = Some (l, rest)" by (simp add: read_line_iff blank_is_line)
  then show ?case using Nil by (simp add: read_header_loop.simps [of acc])
next
  case (Cons x ls)
  then have "read_line (x @ concat ls @ l @ rest) = Some (x, concat ls @ l @ rest)"
    by (simp add: read_line_iff)
  then show ?case using Cons by (simp add: read_header_loop.simps [of acc])
qed

text \<open>
  C14. The header reader accepts exactly the inputs that start with complete lines of which the
  first blank one ends the header, provided the lines before it fit in the limit of 64 KiB;
  it returns those bytes and leaves everything behind them unread. In particular no accepted
  header is longer than the limit plus two bytes.
\<close>

theorem readHTTPHeader_exact:
  "(readHTTPHeader io = Inr (h, io') \<longleftrightarrow>
     (\<exists>ls l rest. io_in io = concat ls @ l @ rest \<and> h = concat ls @ l \<and> io' = io\<lparr>io_in := rest\<rparr>
        \<and> (\<forall>x \<in> set ls. is_line x \<and> \<not> blank_line x) \<and> blank_line l \<and> length (concat ls) \<le> maxHTTPHeaderBytes))
   \<and> (readHTTPHeader io = Inr (h, io') \<longrightarrow> length h \<le> maxHTTPHeaderBytes + 2)"
    (is "(?accepts \<longleftrightarrow> ?spec) \<and> _")
proof -
  have "?accepts \<longleftrightarrow> ?spec"
  proof
    assume ?accepts
    then obtain rest where r: "read_header_loop [] (io_in io) = Inr (h, rest)" "io' = io\<lparr>io_in := rest\<rparr>"
      by (cases "read_header_loop [] (io_in io)") (auto simp: readHTTPHeader_def)
    then show ?spec using read_header_loop_sound [OF r(1)] by auto
  next
    assume ?spec
    then show ?accepts using read_header_loop_complete [of _ _ "[]"] by (auto simp: readHTTPHeader_def)
  qed
  moreover have "?spec \<Longrightarrow> length h \<le> maxHTTPHeaderBytes + 2" using blank_is_line by fastforce
  ultimately show ?thesis by blast
qed

section \<open>The forwarded header\<close>

lemma chars_of_bytes_of: "chars_of (bytes_of s) = s"
proof -
  have "char_of (unat (of_nat (of_char c) :: byte)) = c" for c :: char
    using unat_byte_length [of "of_char c"] by simp
  then show ?thesis by (induction s) (simp_all add: chars_of_def bytes_of_def)
qed

lemma crlf_to_lf_line:
  "CHR 0x0A \<notin> set l \<Longrightarrow> crlf_to_lf (l @ crlf @ rest) = l @ CHR 0x0A # crlf_to_lf rest"
proof (induction l)
  case (Cons c l)
  then show ?case by (cases l) (auto simp: crlf_def)
qed (simp add: crlf_def)

lemma split_on_line:
  "sep \<notin> set l \<Longrightarrow> split_on sep (l @ sep # rest) = l # split_on sep rest"
  by (induction l) auto

definition text_lines :: "string \<Rightarrow> string list" where
  "text_lines s = split_on (CHR 0x0A) (crlf_to_lf s)"

lemma text_lines_line: "CHR 0x0A \<notin> set l \<Longrightarrow> text_lines (l @ crlf @ rest) = l # text_lines rest"
  by (simp add: text_lines_def crlf_to_lf_line split_on_line)

text \<open>A line of a header as it is sent: the line and the end of line it has, either of the two that are read.\<close>

definition header_line :: "string \<times> string \<Rightarrow> bool" where
  "header_line = (\<lambda>(line, eol). CHR 0x0A \<notin> set line
     \<and> (eol = [CHR 0x0D, CHR 0x0A] \<or> eol = [CHR 0x0A] \<and> (line = [] \<or> last line \<noteq> CHR 0x0D)))"

lemma crlf_to_lf_newline:
  "CHR 0x0A \<notin> set l \<Longrightarrow> l = [] \<or> last l \<noteq> CHR 0x0D \<Longrightarrow> crlf_to_lf (l @ CHR 0x0A # rest) = l @ CHR 0x0A # crlf_to_lf rest"
proof (induction l)
  case Nil
  then show ?case by (cases rest) auto
next
  case (Cons c l)
  then show ?case by (cases l) auto
qed

lemma text_lines_of_lines:
  "\<forall>l \<in> set ls. header_line l \<Longrightarrow> text_lines (concat (map (\<lambda>(line, eol). line @ eol) ls)) = map fst ls @ [[]]"
proof (induction ls)
  case Nil
  then show ?case by (simp add: text_lines_def)
next
  case (Cons l ls)
  obtain line eol where l: "l = (line, eol)" by fastforce
  then have "text_lines (line @ eol @ rest) = line # text_lines rest" for rest
    using Cons.prems text_lines_line [of line rest]
      crlf_to_lf_newline [of "[]" rest]
    by (auto simp: header_line_def crlf_def text_lines_def crlf_to_lf_newline split_on_line)
  then show ?case using Cons l by simp
qed

lemma split_n_3:
  "sep \<notin> set a \<Longrightarrow> sep \<notin> set b \<Longrightarrow> split_n 3 sep (a @ sep # b @ sep # c) = [a, b, c]"
  by (simp add: numeral_3_eq_3 Let_def takeWhile_sep)

lemma header_name_before_colon: "header_name line = to_lower (trim_space (takeWhile (\<lambda>c. c \<noteq> CHR '':'') line))"
proof -
  have "takeWhile (\<lambda>c. c \<noteq> CHR '':'') line = line"
    if "length (takeWhile (\<lambda>c. c \<noteq> CHR '':'') line) = length line"
    using that by (metis takeWhile_eq_take take_all_iff order_refl)
  then show ?thesis by (auto simp add: header_name_def numeral_2_eq_2 Let_def simp del: takeWhile_eq_all_conv)
qed

text \<open>
  C15. What the upstream server sees of a plain HTTP request. Let the client send a request line
  \<open>method target version\<close> and any further lines, each ended by CR LF or by LF alone. If the
  request is accepted and is not a CONNECT, then the bytes sent upstream are exactly these: the
  request line with the target in origin form (for an absolute URL with a host the path and
  query, \<open>/\<close> when there is none; any other target as it is), then every other line that is not
  empty and whose field name, up to the first colon, without surrounding space and in lower
  case, is neither \<open>proxy-connection\<close> nor \<open>proxy-authorization\<close>, unchanged and in order,
  then the blank line, every line ended by CR LF.
\<close>

theorem forwarded_header_lines:
  assumes "\<forall>l \<in> set ((method @ '' '' @ target @ '' '' @ version, eol) # lines). header_line l"
    and "CHR '' '' \<notin> set method" "CHR '' '' \<notin> set target"
    and "parseProxyRequest parse_url (bytes_of (method @ '' '' @ target @ '' '' @ version @ eol
           @ concat (map (\<lambda>(line, eol). line @ eol) lines))) = Inr req"
    and "\<not> pr_connect req"
  shows "pr_forwardHeader req = bytes_of
    (method @ '' ''
     @ (case parse_url target of
          Some u \<Rightarrow> if pu_IsAbs u \<and> pu_Hostname u \<noteq> [] then if pu_RequestURI u = [] then ''/'' else pu_RequestURI u
                    else target
        | None \<Rightarrow> target)
     @ '' '' @ version @ [CHR 0x0D, CHR 0x0A]
     @ concat [line @ [CHR 0x0D, CHR 0x0A]. (line, _) \<leftarrow> lines, line \<noteq> []
         \<and> to_lower (trim_space (takeWhile (\<lambda>c. c \<noteq> CHR '':'') line)) \<notin> {''proxy-connection'', ''proxy-authorization''}]
     @ [CHR 0x0D, CHR 0x0A])"
proof -
  define first where "first = method @ '' '' @ target @ '' '' @ version"
  define header where "header = bytes_of (first @ eol @ concat (map (\<lambda>(line, eol). line @ eol) lines))"
  have "\<forall>l \<in> set ((first, eol) # lines). header_line l" using assms(1) by (simp add: first_def)
  from text_lines_of_lines [OF this] have lines: "header_lines header = first # map fst lines @ [[]]"
    by (simp add: header_def header_lines_def text_lines_def [symmetric] chars_of_bytes_of)
  have parts: "split_n 3 CHR '' '' first = [method, target, version]"
    using split_n_3 [OF assms(2,3), of version] by (simp add: first_def)
  have req: "parseProxyRequest parse_url header = Inr req" using assms(4) by (simp add: header_def first_def)
  obtain host port origin where t: "request_target parse_url target (map fst lines @ [[]]) = Inr (host, port, origin)"
    and f: "pr_forwardHeader req = bytes_of (forward_text method origin version (map fst lines @ [[]]))"
    using req assms(5)
    by (cases "request_target parse_url target (map fst lines @ [[]])"; cases "splitHostPort target 443")
       (auto simp: parseProxyRequest_def lines parts Let_def split: if_splits)
  have o: "origin = (case parse_url target of
          Some u \<Rightarrow> if pu_IsAbs u \<and> pu_Hostname u \<noteq> [] then if pu_RequestURI u = [] then ''/'' else pu_RequestURI u
                    else target
        | None \<Rightarrow> target)"
    using t by (auto simp: request_target_def host_header_target_def Let_def split: option.splits if_splits)
       (auto simp: map_sum_def split: sum.splits)
  have kept: "concat (map (\<lambda>line. line @ crlf) (filter forwards (map fst lines @ [[]]))) =
     concat [line @ crlf. (line, _) \<leftarrow> lines, line \<noteq> []
         \<and> to_lower (trim_space (takeWhile (\<lambda>c. c \<noteq> CHR '':'') line)) \<notin> {''proxy-connection'', ''proxy-authorization''}]"
    by (induction lines) (auto simp: forwards_def header_name_before_colon)
  show ?thesis unfolding f forward_text_def o kept by (simp only: crlf_def append.assoc)
qed

section \<open>Targets\<close>

lemma splitHostPort_join:
  assumes "CHR ''['' \<notin> set host" "CHR '']'' \<notin> set host" "1 \<le> p" "p \<le> 65535"
    and "trim_space (join_host_port host (nat_str p)) = join_host_port host (nat_str p)"
  shows "splitHostPort (join_host_port host (nat_str p)) d = Inr (host, int p)"
proof -
  have "split_host_port (join_host_port host (nat_str p)) = Some (host, nat_str p)"
    using assms(1,2) digits_no_bracket [OF nat_str_digits] by (intro split_join_host_port)
  moreover have "atoi (nat_str p) = Some (int p)" using assms(4) by (intro atoi_nat_str) simp
  moreover have "join_host_port host (nat_str p) \<noteq> []" by (simp add: join_host_port_def)
  ultimately show ?thesis using assms by (simp add: splitHostPort_def)
qed

lemma splitHostPort_bounds:
  "splitHostPort v d = Inr (host, port) \<Longrightarrow> 1 \<le> d \<Longrightarrow> d \<le> 65535 \<Longrightarrow> 1 \<le> port \<and> port \<le> 65535"
  by (auto simp: splitHostPort_def Let_def split: if_splits option.splits)

lemma parseProxyRequest_connect:
  assumes "header_lines h = (method @ CHR '' '' # target @ CHR '' '' # version) # rest" "rest \<noteq> []"
    and "CHR '' '' \<notin> set method" "CHR '' '' \<notin> set target" "equal_fold method ''CONNECT''"
  shows "parseProxyRequest parse_url h = map_sum (\<lambda>e. e)
     (\<lambda>(host, port). \<lparr>pr_host = host, pr_port = port, pr_connect = True, pr_forwardHeader = []\<rparr>)
     (splitHostPort target 443)"
proof -
  have "split_n 3 CHR '' '' (method @ CHR '' '' # target @ CHR '' '' # version) = [method, target, version]"
    using assms(3,4) by (simp add: numeral_3_eq_3 takeWhile_sep)
  moreover have "length (header_lines h) \<ge> 2" using assms(1,2) by (cases rest) auto
  ultimately show ?thesis using assms(1,2,5) by (simp add: parseProxyRequest_def Let_def)
qed

text \<open>
  A CONNECT request for a host and a port gives back exactly that host and port, IPv6
  hosts in brackets included, whatever header lines follow; and whatever a CONNECT request
  names as its target, the port that is accepted lies between 1 and 65535 (443 when the
  request names none).
\<close>

theorem connect_request_roundtrip:
  assumes "header_lines h = (method @ CHR '' '' # target @ CHR '' '' # version) # rest" "rest \<noteq> []"
    and "CHR '' '' \<notin> set method" "CHR '' '' \<notin> set target" "equal_fold method ''CONNECT''"
  shows "(\<forall>req. parseProxyRequest parse_url h = Inr req \<longrightarrow>
           pr_connect req \<and> 1 \<le> pr_port req \<and> pr_port req \<le> 65535)
    \<and> (\<forall>host p. target = join_host_port host (nat_str p) \<and> trim_space target = target
         \<and> CHR ''['' \<notin> set host \<and> CHR '']'' \<notin> set host \<and> 1 \<le> p \<and> p \<le> 65535 \<longrightarrow>
           parseProxyRequest parse_url h =
             Inr \<lparr>pr_host = host, pr_port = int p, pr_connect = True, pr_forwardHeader = []\<rparr>)"
proof -
  note eq = parseProxyRequest_connect [OF assms, of parse_url]
  have "pr_connect req \<and> 1 \<le> pr_port req \<and> pr_port req \<le> 65535"
    if "parseProxyRequest parse_url h = Inr req" for req
    using that splitHostPort_bounds [of target 443]
    by (cases "splitHostPort target 443") (auto simp: eq)
  then show ?thesis using splitHostPort_join by (auto simp: eq)
qed

section \<open>Examples\<close>

definition example_get :: "byte list" where
  "example_get = bytes_of (''GET http://a.b/x HTTP/1.1'' @ crlf @ ''Host: a.b'' @ crlf
     @ ''Proxy-Authorization: Basic Zm9v'' @ crlf @ '' PROXY-connection : close'' @ [CHR 0x0A] @ ''Accept: */*'' @ crlf @ crlf)"

definition example_connect :: "byte list" where
  "example_connect = bytes_of (''CONNECT [::1]:8443 HTTP/1.1'' @ crlf @ crlf)"

definition example_urls :: "string \<Rightarrow> parsed_url option" where
  "example_urls t = (if t = ''http://a.b/x''
     then Some \<lparr>pu_IsAbs = True, pu_Hostname = ''a.b'', pu_Port = [], pu_Scheme = ''http'', pu_RequestURI = ''/x''\<rparr>
     else None)"

lemmas split_n_simps = numeral_2_eq_2 numeral_3_eq_3 Let_def

lemma header_lines_text: "header_lines (bytes_of s) = text_lines s"
  by (simp add: header_lines_def text_lines_def chars_of_bytes_of)

theorem readHTTPHeader_exact_witness:
  "readHTTPHeader \<lparr>io_in = example_connect @ [1], io_out = [], io_writes = 0\<rparr>
     = Inr (example_connect, \<lparr>io_in = [1], io_out = [], io_writes = 0\<rparr>)"
proof -
  let ?io = "\<lparr>io_in = example_connect @ [1], io_out = [], io_writes = 0\<rparr>"
  define b where "b = bytes_of (''CONNECT [::1]:8443 HTTP/1.1'' @ [CHR 0x0D])"
  have "10 \<notin> set b" "\<not> blank_line (b @ [10])" "length b \<le> 65000"
    by (simp_all add: b_def bytes_of_def blank_line_def)
  moreover have "example_connect = concat [b @ [10]] @ [13, 10]"
    by (simp add: b_def bytes_of_def example_connect_def crlf_def)
  moreover have "blank_line [13, 10]" by (simp add: blank_line_def)
  ultimately have "\<exists>ls l rest. io_in ?io = concat ls @ l @ rest \<and> example_connect = concat ls @ l
      \<and> ?io\<lparr>io_in := [1]\<rparr> = ?io\<lparr>io_in := rest\<rparr> \<and> (\<forall>x \<in> set ls. is_line x \<and> \<not> blank_line x) \<and> blank_line l
      \<and> length (concat ls) \<le> maxHTTPHeaderBytes"
    by (intro exI [of _ "[b @ [10]]"] exI [of _ "[13, 10]"] exI [of _ "[1]"])
       (simp add: is_line_def maxHTTPHeaderBytes_def)
  then show ?thesis using readHTTPHeader_exact [of ?io example_connect "?io\<lparr>io_in := [1]\<rparr>"] by simp
qed

lemma example_get_lines:
  "header_lines example_get =
     [''GET http://a.b/x HTTP/1.1'', ''Host: a.b'', ''Proxy-Authorization: Basic Zm9v'', '' PROXY-connection : close'',
      ''Accept: */*'', [], []]"
  by (simp add: example_get_def header_lines_text text_lines_def crlf_def)

theorem forwarded_header_lines_witness:
  "\<exists>req. parseProxyRequest example_urls example_get = Inr req \<and> \<not> pr_connect req
     \<and> pr_forwardHeader req = bytes_of (''GET /x HTTP/1.1'' @ crlf @ ''Host: a.b'' @ crlf @ ''Accept: */*'' @ crlf @ crlf)"
proof -
  let ?lines = "[(''Host: a.b'', [CHR 0x0D, CHR 0x0A]), (''Proxy-Authorization: Basic Zm9v'', [CHR 0x0D, CHR 0x0A]),
     ('' PROXY-connection : close'', [CHR 0x0A]), (''Accept: */*'', [CHR 0x0D, CHR 0x0A]), ([], [CHR 0x0D, CHR 0x0A])]"
  let ?first = "''GET'' @ '' '' @ ''http://a.b/x'' @ '' '' @ ''HTTP/1.1''"
  have get: "example_get = bytes_of (''GET'' @ '' '' @ ''http://a.b/x'' @ '' '' @ ''HTTP/1.1'' @ [CHR 0x0D, CHR 0x0A]
      @ concat (map (\<lambda>(line, eol). line @ eol) ?lines))"
    by (simp add: example_get_def crlf_def)
  have ok: "\<forall>l \<in> set ((?first, [CHR 0x0D, CHR 0x0A]) # ?lines). header_line l" by (simp add: header_line_def)
  have "\<not> equal_fold ''GET'' ''CONNECT''" by code_simp
  then obtain req where r: "parseProxyRequest example_urls example_get = Inr req" "\<not> pr_connect req"
    by (auto simp: parseProxyRequest_def example_get_lines split_n_simps request_target_def example_urls_def)
  have names: "to_lower (trim_space ''Host'') = ''host''" "to_lower (trim_space ''Accept'') = ''accept''"
    "to_lower (trim_space ''Proxy-Authorization'') = ''proxy-authorization''"
    "to_lower (trim_space '' PROXY-connection '') = ''proxy-connection''" by code_simp+
  show ?thesis
    using forwarded_header_lines [OF ok _ _ r(1) [unfolded get] r(2)] r names
    by (simp add: example_urls_def crlf_def)
qed

theorem connect_request_roundtrip_witness:
  "parseProxyRequest (\<lambda>t. None) example_connect
     = Inr \<lparr>pr_host = ''::1'', pr_port = 8443, pr_connect = True, pr_forwardHeader = []\<rparr>"
proof -
  have l: "header_lines example_connect = (''CONNECT'' @ CHR '' '' # ''[::1]:8443'' @ CHR '' '' # ''HTTP/1.1'') # [[], []]"
    by (simp add: example_connect_def header_lines_text text_lines_def crlf_def)
  have "digit_char 8 = CHR ''8''" "digit_char 4 = CHR ''4''" "digit_char 3 = CHR ''3''" by code_simp+
  then have "join_host_port ''::1'' (nat_str 8443) = ''[::1]:8443''"
    by (simp add: join_host_port_def nat_str.simps)
  moreover have "trim_space ''[::1]:8443'' = ''[::1]:8443''" by code_simp
  moreover have "equal_fold ''CONNECT'' ''CONNECT''" by (simp add: equal_fold_def)
  note conj = connect_request_roundtrip [OF l _ _ _ this, of "\<lambda>t. None"]
  ultimately have "parseProxyRequest (\<lambda>t. None) example_connect
     = Inr \<lparr>pr_host = ''::1'', pr_port = int 8443, pr_connect = True, pr_forwardHeader = []\<rparr>"
    by (intro conj [THEN conjunct2, rule_format]) simp_all
  then show ?thesis by simp
qed

end
