(* ===== verification/Proxy_Server.thy ===== *)
theory Proxy_Server
  imports Udp Http
begin

text \<open>
  \<open>engine/internal/proxy/server.go\<close>, with \<open>handleSOCKS\<close> and \<open>handleHTTP\<close>: the proxy server that puts
  the parts together. \<open>server\<close> is the struct \<open>Server\<close>: \<open>sv_cancelled\<close> says that its context has
  ended, \<open>sv_opened\<close> and \<open>sv_closed\<close> record the listeners that were opened and closed. The session
  handlers thread the server's state through; \<open>sv_closes\<close> records the connections they close.
  What the operating system does is given by \<open>server_env\<close>.
\<close>

section \<open>Model\<close>

record listener =
  ln_id :: nat
  ln_Addr :: string

record proxy_endpoints =
  en_SOCKS :: string
  en_HTTP :: string
  en_Channels :: "(string \<times> string) list"

definition no_endpoints :: proxy_endpoints where
  "no_endpoints = \<lparr>en_SOCKS = [], en_HTTP = [], en_Channels = []\<rparr>"

record 'w server_env =
  se_proxy :: "'w proxy_env"
  se_listenTCP :: "string \<Rightarrow> 'w \<Rightarrow> listener option \<times> 'w"
  se_listenUDP :: "ip \<Rightarrow> (net_conn \<times> udp_addr) option"
  se_parse_url :: "string \<Rightarrow> parsed_url option"

record server =
  sv_config :: proxy_config
  sv_scheduler :: scheduler
  sv_schedulers :: "(string \<times> scheduler) list"
  sv_health :: health_table
  sv_registry :: registry
  sv_resolver :: "resolver option"
  sv_cancelled :: bool
  sv_listeners :: "listener list"
  sv_endpoints :: proxy_endpoints
  sv_running :: bool
  sv_dnsFallbackHandler :: bool
  sv_opened :: "listener list"
  sv_closed :: "listener list"
  sv_closes :: "net_conn list"

definition channel_schedulers :: "proxy_config \<Rightarrow> (string \<times> scheduler) list" where
  "channel_schedulers c =
     fold (\<lambda>ch m. if chn_Name ch = ChannelDirect then m
                  else AList.update (chn_Name ch)
                         (newScheduler (adaptersForChannel (cf_Adapters c) ch) (cf_Weighted c)) m)
       (cf_Channels c) []"

definition New :: "go_time \<Rightarrow> proxy_config \<Rightarrow> config_error + server" where
  "New now config =
     (case normalizeConfig now config of
        Inl e \<Rightarrow> Inl e
      | Inr c \<Rightarrow> Inr
          \<lparr>sv_config = c, sv_scheduler = newScheduler (cf_Adapters c) (cf_Weighted c),
           sv_schedulers = channel_schedulers c,
           sv_health = newHealthTableConfigured (cf_Adapters c) (the (cf_DomainIsolation c))
                         (the (cf_DomainIsolationExpiry c)) (cf_DomainQuarantines c),
           sv_registry = newRegistry now (cf_Adapters c), sv_resolver = None, sv_cancelled = False,
           sv_listeners = [], sv_endpoints = no_endpoints, sv_running = False, sv_dnsFallbackHandler = False,
           sv_opened = [], sv_closed = [], sv_closes = []\<rparr>)"

definition listenAddress :: "string \<Rightarrow> int \<Rightarrow> string" where
  "listenAddress host port = join_host_port host (itoa port)"

subsection \<open>Starting and stopping\<close>

datatype start_error = ResolverFailed resolve_error | ListenSOCKS | ListenHTTP | ListenChannel string

text \<open>The listener of one channel: on its port or, when that fails, on any free one.\<close>

definition listen_channel :: "'w server_env \<Rightarrow> string \<Rightarrow> channel \<Rightarrow> 'w \<Rightarrow> listener option \<times> 'w" where
  "listen_channel env host ch w =
     (let (l, w) = se_listenTCP env (listenAddress host (chn_Port ch)) w
      in if l = None \<and> chn_Port ch \<noteq> 0 then se_listenTCP env (listenAddress host 0) w else (l, w))"

text \<open>The loop of \<open>startChannelListeners\<close>: what was opened, and either the endpoints or the channel that failed.\<close>

fun listen_channels ::
    "'w server_env \<Rightarrow> string \<Rightarrow> channel list \<Rightarrow> listener list \<Rightarrow> (string \<times> string) list \<Rightarrow> 'w \<Rightarrow>
       (string + (string \<times> string) list) \<times> listener list \<times> 'w" where
  "listen_channels env host [] ls eps w = (Inr eps, ls, w)"
| "listen_channels env host (ch # chs) ls eps w =
     (case listen_channel env host ch w of
        (None, w) \<Rightarrow> (Inl (chn_Name ch), ls, w)
      | (Some l, w) \<Rightarrow> listen_channels env host chs (ls @ [l]) (AList.update (chn_Name ch) (ln_Addr l) eps) w)"

definition startChannelListeners ::
    "'w server_env \<Rightarrow> server \<Rightarrow> 'w \<Rightarrow> (start_error + proxy_endpoints) \<times> server \<times> 'w" where
  "startChannelListeners env s w =
     (let (res, ls, w) = listen_channels env (cf_ListenHost (sv_config s)) (cf_Channels (sv_config s)) [] [] w;
          s = s\<lparr>sv_opened := sv_opened s @ ls\<rparr>
      in case res of
           Inl name \<Rightarrow> (Inl (ListenChannel name), s\<lparr>sv_closed := sv_closed s @ ls, sv_cancelled := True\<rparr>, w)
         | Inr eps \<Rightarrow>
             let e = \<lparr>en_SOCKS = [], en_HTTP = [], en_Channels = eps\<rparr>
             in (Inr e, s\<lparr>sv_listeners := ls, sv_endpoints := e, sv_running := True\<rparr>, w))"

definition Start :: "'w server_env \<Rightarrow> server \<Rightarrow> 'w \<Rightarrow> (start_error + proxy_endpoints) \<times> server \<times> 'w" where
  "Start env s w =
     (if sv_running s then (Inr (sv_endpoints s), s, w)
      else
        let s = s\<lparr>sv_cancelled := False\<rparr>
        in case new_resolver (cf_DNS (sv_config s)) True of
             Inl e \<Rightarrow> (Inl (ResolverFailed e), s\<lparr>sv_cancelled := True\<rparr>, w)
           | Inr r \<Rightarrow>
               let s = s\<lparr>sv_resolver := Some (SetFallbackHandler (sv_dnsFallbackHandler s) r)\<rparr>;
                   c = sv_config s
               in if cf_Channels c \<noteq> [] then startChannelListeners env s w
                  else
                    case se_listenTCP env (listenAddress (cf_ListenHost c) (cf_SOCKSPort c)) w of
                      (None, w) \<Rightarrow> (Inl ListenSOCKS, s\<lparr>sv_cancelled := True, sv_resolver := None\<rparr>, w)
                    | (Some socks, w) \<Rightarrow>
                        (case se_listenTCP env (listenAddress (cf_ListenHost c) (cf_HTTPPort c)) w of
                           (None, w) \<Rightarrow>
                             (Inl ListenHTTP,
                              s\<lparr>sv_opened := sv_opened s @ [socks], sv_closed := sv_closed s @ [socks],
                                sv_cancelled := True, sv_resolver := None\<rparr>, w)
                         | (Some httpListener, w) \<Rightarrow>
                             let e = \<lparr>en_SOCKS = ln_Addr socks, en_HTTP = ln_Addr httpListener, en_Channels = []\<rparr>
                             in (Inr e,
                                 s\<lparr>sv_opened := sv_opened s @ [socks, httpListener],
                                   sv_listeners := [socks, httpListener], sv_endpoints := e, sv_running := True\<rparr>, w)))"

datatype stop_result = StopOk | StopTimedOut | StopCloseErrors "listener list"

text \<open>
  \<open>Stop\<close>: \<open>close_error\<close> tells which listeners fail to close, \<open>drained\<close> whether all goroutines end
  before the caller's context does.
\<close>

definition Stop :: "(listener \<Rightarrow> bool) \<Rightarrow> bool \<Rightarrow> server \<Rightarrow> stop_result \<times> server" where
  "Stop close_error drained s =
     (if \<not> sv_running s then (StopOk, s)
      else
        let ls = sv_listeners s;
            s = s\<lparr>sv_running := False, sv_cancelled := True, sv_listeners := [],
                  sv_closed := sv_closed s @ ls, sv_closes := sv_closes s @ CloseAll (sv_registry s)\<rparr>;
            failed = filter close_error ls
        in (if \<not> drained then StopTimedOut else if failed = [] then StopOk else StopCloseErrors failed, s))"

definition Running :: "server \<Rightarrow> bool" where "Running s = sv_running s"

definition server_Endpoints :: "server \<Rightarrow> proxy_endpoints" where "server_Endpoints s = sv_endpoints s"

subsection \<open>Telemetry and DNS\<close>

definition timePointer :: "go_time \<Rightarrow> go_time option" where
  "timePointer t = (if is_zero t then None else Some t)"

record health_item =
  hi_HealthState :: "health_state option"
  hi_ConsecutiveFailures :: int
  hi_HealthSuccesses :: uint64
  hi_HealthFailures :: uint64
  hi_DomainQuarantines :: nat
  hi_LastSuccessAt :: "go_time option"
  hi_LastFailureAt :: "go_time option"
  hi_CooldownUntil :: "go_time option"

definition health_item_of :: "adapter_health_snapshot option \<Rightarrow> health_item" where
  "health_item_of h =
     (case h of
        None \<Rightarrow> \<lparr>hi_HealthState = None, hi_ConsecutiveFailures = 0, hi_HealthSuccesses = 0, hi_HealthFailures = 0,
                 hi_DomainQuarantines = 0, hi_LastSuccessAt = None, hi_LastFailureAt = None, hi_CooldownUntil = None\<rparr>
      | Some i \<Rightarrow> \<lparr>hi_HealthState = Some (hs_State i), hi_ConsecutiveFailures = hs_ConsecutiveFailures i,
                   hi_HealthSuccesses = hs_Successes i, hi_HealthFailures = hs_Failures i,
                   hi_DomainQuarantines = hs_DomainQuarantines i, hi_LastSuccessAt = timePointer (hs_LastSuccessAt i),
                   hi_LastFailureAt = timePointer (hs_LastFailureAt i), hi_CooldownUntil = timePointer (hs_CooldownUntil i)\<rparr>)"

record server_snapshot =
  sn_telemetry :: telemetry_snapshot
  sn_health :: "health_item list"
  sn_dns :: "dns_status option"

definition Snapshot :: "go_time \<Rightarrow> bool \<Rightarrow> server \<Rightarrow> server_snapshot \<times> server" where
  "Snapshot now includeConnections s =
     (let t = registry_snapshot now includeConnections (sv_registry s);
          ((health, quarantines), h) = health_snapshot now (sv_health s);
          adapters = map (\<lambda>i. i\<lparr>at_Health := map_of health (at_Name i)\<rparr>) (ts_Adapters t);
          s = s\<lparr>sv_health := h\<rparr>;
          (dns, s) = (case sv_resolver s of
                        None \<Rightarrow> (None, s)
                      | Some r \<Rightarrow> let (st, r) = resolver_status now r in (Some st, s\<lparr>sv_resolver := Some r\<rparr>))
      in (\<lparr>sn_telemetry = t\<lparr>ts_Adapters := adapters, ts_DomainQuarantines := quarantines\<rparr>,
           sn_health = map (\<lambda>i. health_item_of (at_Health i)) adapters, sn_dns = dns\<rparr>, s))"

definition DNSStatus :: "go_time \<Rightarrow> server \<Rightarrow> dns_status option \<times> server" where
  "DNSStatus now s =
     (case sv_resolver s of
        None \<Rightarrow> (None, s)
      | Some r \<Rightarrow>
          if \<not> sv_running s then (None, s)
          else let (st, r) = resolver_status now r in (Some st, s\<lparr>sv_resolver := Some r\<rparr>))"

datatype dns_request_error = ProxyNotRunning | UnknownDNSAdapter string | DNSLookupFailed resolve_error

definition ResolveDNS ::
    "'w proxy_env \<Rightarrow> string \<Rightarrow> string \<Rightarrow> string \<Rightarrow> server \<Rightarrow> 'w \<Rightarrow> (dns_request_error + dns_result) \<times> server \<times> 'w" where
  "ResolveDNS env domain adapterName recordType s w =
     (case sv_resolver s of
        None \<Rightarrow> (Inl ProxyNotRunning, s, w)
      | Some r \<Rightarrow>
          if \<not> sv_running s then (Inl ProxyNotRunning, s, w)
          else case find (\<lambda>a. adapterName = [] \<or> ad_Name a = adapterName) (cf_Adapters (sv_config s)) of
                 None \<Rightarrow> (Inl (UnknownDNSAdapter adapterName), s, w)
               | Some a \<Rightarrow>
                   let (out, r, w) = Resolve (px_dns env)
                         \<lparr>qu_Domain = domain, qu_RecordType = recordType, qu_Binding = adapterDNSBinding a\<rparr> r w
                   in (map_sum DNSLookupFailed (\<lambda>x. x) out, s\<lparr>sv_resolver := Some r\<rparr>, w))"

definition SetDNSFallbackHandler :: "bool \<Rightarrow> server \<Rightarrow> server" where
  "SetDNSFallbackHandler handler s =
     s\<lparr>sv_dnsFallbackHandler := handler, sv_resolver := map_option (SetFallbackHandler handler) (sv_resolver s)\<rparr>"

definition dialDNS ::
    "'w proxy_env \<Rightarrow> server \<Rightarrow> string \<Rightarrow> string \<Rightarrow> binding \<Rightarrow> 'w \<Rightarrow> (int option + net_conn) option \<times> 'w" where
  "dialDNS env s network address b w =
     (let adapter = \<lparr>ad_Name = bd_Name b, ad_SourceIP = bd_SourceIP b, ad_IfIndex = bd_IfIndex b, ad_SourceIPv6 = [],
                     ad_IPv6IfIndex = 0, ad_Weight = 0, ad_DNSServers = []\<rparr>
      in case boundNetworkDialer (px_platform env) adapter (dc_QueryTimeout (cf_DNS (sv_config s))) network of
           None \<Rightarrow> (None, w)
         | Some d \<Rightarrow> (let (c, w) = px_dial env network d address w in (Some c, w)))"

subsection \<open>Sessions\<close>

definition session_channel :: "server \<Rightarrow> uint64 \<Rightarrow> string" where
  "session_channel s sid = (case session_of (sv_registry s) sid of None \<Rightarrow> [] | Some c \<Rightarrow> cn_channel c)"

datatype connect_error = DirectTarget | DirectFailed "int option" | UnknownChannel string | UpstreamFailed dial_error

definition dialDirectTCP :: "'w proxy_env \<Rightarrow> server \<Rightarrow> string \<Rightarrow> 'w \<Rightarrow> (connect_error + net_conn) \<times> 'w" where
  "dialDirectTCP env s target w =
     (case split_host_port target of
        None \<Rightarrow> (Inl DirectTarget, w)
      | Some (host, port) \<Rightarrow>
          let v6 = (case parse_ip host of None \<Rightarrow> False | Some ip \<Rightarrow> to4 ip = None);
              d = \<lparr>dl_Timeout = cf_ConnectTimeout (sv_config s), dl_KeepAlive = 0, dl_LocalUDP = False,
                   dl_LocalIP = (if v6 then Some (replicate 16 0) else None), dl_UnicastIF = None\<rparr>;
              (c, w) = dialTCP env d target w
          in (map_sum DirectFailed (\<lambda>x. x) c, w))"

text \<open>The scheduler of a session's channel, and its state written back.\<close>

definition scheduler_for :: "server \<Rightarrow> string \<Rightarrow> scheduler option" where
  "scheduler_for s channel = (if channel = [] then Some (sv_scheduler s) else map_of (sv_schedulers s) channel)"

definition put_scheduler :: "string \<Rightarrow> scheduler \<Rightarrow> server \<Rightarrow> server" where
  "put_scheduler channel sc s =
     (if channel = [] then s\<lparr>sv_scheduler := sc\<rparr> else s\<lparr>sv_schedulers := AList.update channel sc (sv_schedulers s)\<rparr>)"

definition connect ::
    "'w proxy_env \<Rightarrow> uint64 \<Rightarrow> string \<Rightarrow> server \<Rightarrow> 'w \<Rightarrow> (connect_error + net_conn \<times> adapter option) \<times> server \<times> 'w" where
  "connect env sid target s w =
     (let channel = session_channel s sid
      in if channel = ChannelDirect then
           (case dialDirectTCP env s target w of
              (Inl e, w) \<Rightarrow> (Inl e, s, w)
            | (Inr upstream, w) \<Rightarrow>
                (Inr (upstream, None), s\<lparr>sv_registry := AttachDirect sid upstream target (sv_registry s)\<rparr>, w))
         else
           case scheduler_for s channel of
             None \<Rightarrow> (Inl (UnknownChannel channel), s, w)
           | Some sc \<Rightarrow>
               let (out, x, w) = dialUpstream env (cf_ConnectTimeout (sv_config s)) target (channel \<noteq> []) sc
                                   (sv_health s) (sv_resolver s) w;
                   s = put_scheduler channel (dx_sched x) (s\<lparr>sv_health := dx_health x, sv_resolver := dx_resolver x\<rparr>)
               in case out of
                    Inl e \<Rightarrow> (Inl (UpstreamFailed e), s, w)
                  | Inr (upstream, a) \<Rightarrow>
                      (Inr (upstream, Some a), s\<lparr>sv_registry := Attach sid upstream target a (sv_registry s)\<rparr>, w))"

text \<open>
  \<open>accountingWriter.Write\<close> and \<open>relay\<close>. The two copying goroutines are given by the interleaving of
  their writes: the direction, the length of the chunk, how much was written, and whether there was
  an error. A direction ends with an error or a short write.
\<close>

definition accounting_write :: "(uint64 \<Rightarrow> registry \<Rightarrow> registry) \<Rightarrow> nat \<Rightarrow> registry \<Rightarrow> registry" where
  "accounting_write add written r = (if 0 < written then add (of_nat written) r else r)"

type_synonym copy_event = "bool \<times> nat \<times> nat \<times> bool"

fun relay_copy :: "uint64 \<Rightarrow> bool \<Rightarrow> bool \<Rightarrow> copy_event list \<Rightarrow> registry \<Rightarrow> registry" where
  "relay_copy sid up_open down_open [] r = r"
| "relay_copy sid up_open down_open ((up, len, written, err) # es) r =
     (if (if up then up_open else down_open) then
        let r = accounting_write (if up then AddUp sid else AddDown sid) written r;
            stop = (err \<or> written \<noteq> len)
        in relay_copy sid (up_open \<and> \<not> (up \<and> stop)) (down_open \<and> \<not> (\<not> up \<and> stop)) es r
      else relay_copy sid up_open down_open es r)"

definition close_upstream :: "net_conn \<Rightarrow> server \<Rightarrow> server" where
  "close_upstream c s = s\<lparr>sv_closes := sv_closes s @ [c]\<rparr>"

definition relay :: "uint64 \<Rightarrow> net_conn \<Rightarrow> copy_event list \<Rightarrow> server \<Rightarrow> server" where
  "relay sid upstream es s =
     close_upstream upstream (s\<lparr>sv_registry := relay_copy sid True True es (sv_registry s)\<rparr>)"

text \<open>What the rest of a session observes: addresses of the control connection, datagrams, relayed chunks.\<close>

record session_script =
  ss_peer :: "ip option"
  ss_local :: "ip option"
  ss_reads :: "(bool \<times> relay_read) list"
  ss_copies :: "copy_event list"

definition run_association ::
    "'w server_env \<Rightarrow> session_script \<Rightarrow> string \<Rightarrow> string \<Rightarrow> nat \<Rightarrow> client_io \<Rightarrow> server \<Rightarrow> 'w \<Rightarrow>
       (bool \<times> bool) \<times> client_io \<times> server \<times> 'w" where
  "run_association env script channel host port io s w =
     (let (res, st, io, w) = handleUDPAssociation (se_proxy env) (se_listenUDP env) (ss_peer script) (ss_local script)
            channel (map_of (sv_schedulers s) channel) (sv_health s) (sv_registry s) host (int port)
            (cf_ConnectTimeout (sv_config s)) (ss_reads script) io w
      in case st of
           None \<Rightarrow> (res, io, s, w)
         | Some st \<Rightarrow>
             let s = s\<lparr>sv_health := us_health st, sv_registry := us_registry st, sv_closes := sv_closes s @ us_closes st\<rparr>
             in (res, io, case us_sched st of None \<Rightarrow> s | Some sc \<Rightarrow> s\<lparr>sv_schedulers := AList.update channel sc (sv_schedulers s)\<rparr>, w))"

definition handleSOCKS ::
    "'w server_env \<Rightarrow> session_script \<Rightarrow> uint64 \<Rightarrow> client_io \<Rightarrow> server \<Rightarrow> 'w \<Rightarrow> client_io \<times> server \<times> 'w" where
  "handleSOCKS env script sid io s w =
     (case socks_handshake (session_channel s sid) io of
        (SocksEnd, io) \<Rightarrow> (io, s, w)
      | (SocksUDP host port, io) \<Rightarrow>
          let ((started, err), io, s, w) = run_association env script (session_channel s sid) host port io s w
          in (if err \<and> \<not> started then snd (writeSOCKSReply 1 io) else io, s, w)
      | (SocksConnect host port, io) \<Rightarrow>
          (case connect (se_proxy env) sid (join_host_port host (nat_str port)) s w of
             (Inl e, s, w) \<Rightarrow> (snd (writeSOCKSReply 5 io), s, w)
           | (Inr (upstream, a), s, w) \<Rightarrow>
               let (ok, io) = writeSOCKSReply 0 io
               in if \<not> ok then (io, close_upstream upstream s, w)
                  else (io, relay sid upstream (ss_copies script) s, w)))"

definition handleHTTP ::
    "'w server_env \<Rightarrow> session_script \<Rightarrow> uint64 \<Rightarrow> client_io \<Rightarrow> server \<Rightarrow> 'w \<Rightarrow> client_io \<times> server \<times> 'w" where
  "handleHTTP env script sid io s w =
     (case readHTTPHeader io of
        Inl e \<Rightarrow> (writeHTTPError ''400 Bad Request'' io, s, w)
      | Inr (header, io) \<Rightarrow>
          (case parseProxyRequest (se_parse_url env) header of
             Inl e \<Rightarrow> (writeHTTPError ''400 Bad Request'' io, s, w)
           | Inr request \<Rightarrow>
               (case connect (se_proxy env) sid (join_host_port (pr_host request) (itoa (pr_port request))) s w of
                  (Inl e, s, w) \<Rightarrow> (writeHTTPError ''502 Bad Gateway'' io, s, w)
                | (Inr (upstream, a), s, w) \<Rightarrow>
                    if pr_connect request then
                      let (ok, io) = write_client (bytes_of connect_established) io
                      in if \<not> ok then (io, close_upstream upstream s, w)
                         else (io, relay sid upstream (ss_copies script) s, w)
                    else
                      let ((written, err), w) = px_write (se_proxy env) upstream (pr_forwardHeader request) w
                      in if err \<noteq> None then (writeHTTPError ''502 Bad Gateway'' io, close_upstream upstream s, w)
                         else (io, relay sid upstream (ss_copies script) s, w))))"

definition handleClient ::
    "'w server_env \<Rightarrow> session_script \<Rightarrow> string \<Rightarrow> net_conn \<Rightarrow> uint64 \<Rightarrow> client_io \<Rightarrow> server \<Rightarrow> 'w \<Rightarrow>
       client_io \<times> server \<times> 'w" where
  "handleClient env script protocol client sid io s w =
     (let (io, s, w) = (if protocol = ''socks5'' then handleSOCKS env script sid io s w
                        else handleHTTP env script sid io s w)
      in (io, close_upstream client (s\<lparr>sv_registry := Finish sid (sv_registry s)\<rparr>), w))"

datatype accept_event = AcceptClosed | AcceptError | AcceptClient net_conn

text \<open>\<open>acceptLoop\<close>: the sessions begun, in order, and whether the loop still runs after the given events.\<close>

fun acceptLoop ::
    "go_time \<Rightarrow> string \<Rightarrow> string \<Rightarrow> accept_event list \<Rightarrow> server \<Rightarrow> bool \<times> uint64 list \<times> server" where
  "acceptLoop now protocol channel [] s = (True, [], s)"
| "acceptLoop now protocol channel (ev # evs) s =
     (case ev of
        AcceptClosed \<Rightarrow> (False, [], s)
      | AcceptError \<Rightarrow> if sv_cancelled s then (False, [], s) else acceptLoop now protocol channel evs s
      | AcceptClient client \<Rightarrow>
          if \<not> sv_running s then (False, [], close_upstream client s)
          else
            let (sid, r) = Begin now protocol channel client (sv_registry s);
                (go, sids, s) = acceptLoop now protocol channel evs (s\<lparr>sv_registry := r\<rparr>)
            in (go, sid # sids, s))"

end
