(* ===== verification/Udp_Inv.thy ===== *)
theory Udp_Inv
  imports Udp
begin

text \<open>
  The association of \<^theory_text>\<open>Udp\<close> as a transition system and its invariant: how a registry step
  frames the sessions of other goroutines, what each operation keeps, the bound on the number
  of flows, and the end of an association and of an idle flow.
\<close>

section \<open>The association and its surroundings as a transition system\<close>

text \<open>
  The serving goroutine runs \<open>serve\<close> and, at the end, \<open>close\<close>; every installed flow has a goroutine
  in \<open>receiveLoop\<close>; the other sessions of the proxy use the same registry, health table and
  scheduler. Steps are the critical sections, in any order the code allows: the flow that is
  being set up is not yet received on, and the association is not closed while a datagram is
  being forwarded.
\<close>

datatype udp_phase = Idle | Creating udp_addr socks_udp_packet | Installing socks_udp_packet nat

datatype udp_event = UdpServe | UdpCreate | UdpInstall | UdpReceive nat | UdpClose | UdpOther

fun event_session :: "registry_event \<Rightarrow> uint64" where
  "event_session (EvBegin i) = i"
| "event_session (EvAttach i _) = i"
| "event_session (EvAttachDirect i) = i"
| "event_session (EvUp i _) = i"
| "event_session (EvDown i _) = i"
| "event_session (EvFinish i) = i"

definition flow_sessions :: "udp_state \<Rightarrow> uint64 list" where
  "flow_sessions st = map uf_session (ua_objects (us_assoc st))"

inductive udp_step ::
    "udp_state \<times> udp_phase \<Rightarrow> udp_event \<Rightarrow> udp_state \<times> udp_phase \<Rightarrow> bool" where
  udp_serve: "\<lbrakk>serve_accept clientAddress bytes (us_assoc st) = Some (client, packet, a);
     forward_lookup env packet (st\<lparr>us_assoc := a\<rparr>) (w :: nat) = (phase, st', w')\<rbrakk> \<Longrightarrow>
   udp_step (st, Idle) UdpServe (st', case phase of ForwardDone \<Rightarrow> Idle | ForwardCreate \<Rightarrow> Creating client packet)"
| udp_create: "\<lbrakk>createFlow env client (up_target packet) (up_payload packet) st (w :: nat) = (res, st', w');
     rg_nextID (us_registry st) + 1 \<noteq> 0\<rbrakk> \<Longrightarrow>
   udp_step (st, Creating client packet) UdpCreate (st', case res of Inl e \<Rightarrow> Idle | Inr i \<Rightarrow> Installing packet i)"
| udp_install: "forward_install env packet i st (w :: nat) = (st', w') \<Longrightarrow>
   udp_step (st, Installing packet i) UdpInstall (st', Idle)"
| udp_receive: "\<lbrakk>i < length (ua_objects (us_assoc st)); \<forall>p. phase \<noteq> Installing p i;
     receive_step now rd relay_write i st = (go, st')\<rbrakk> \<Longrightarrow>
   udp_step (st, phase) (UdpReceive i) (st', phase)"
| udp_close: "udp_step (st, Idle) UdpClose (association_close st, Idle)"
| udp_other: "\<lbrakk>registry_step (us_registry st) e r; event_session e \<notin> set (flow_sessions st);
     map_option sc_adapters sched = map_option sc_adapters (us_sched st); wf_table h\<rbrakk> \<Longrightarrow>
   udp_step (st, phase) UdpOther (st\<lparr>us_registry := r, us_health := h, us_sched := sched\<rparr>, phase)"

inductive_cases udp_stepE: "udp_step s e s'"

definition sched_ok :: "scheduler option \<Rightarrow> registry \<Rightarrow> bool" where
  "sched_ok sched r \<longleftrightarrow> (\<forall>s. sched = Some s \<longrightarrow>
     distinct (map ad_Name (sc_adapters s)) \<and> ad_Name ` set (sc_adapters s) \<subseteq> set (rg_order r))"

definition udp_init :: "udp_state \<times> udp_phase \<Rightarrow> bool" where
  "udp_init s \<longleftrightarrow> (case s of (st, phase) \<Rightarrow> phase = Idle \<and> ua_objects (us_assoc st) = [] \<and> ua_flows (us_assoc st) = []
     \<and> \<not> ua_closed (us_assoc st) \<and> reg_inv (us_registry st) \<and> wf_table (us_health st)
     \<and> sched_ok (us_sched st) (us_registry st))"

subsection \<open>What the registry steps change\<close>

definition attached_session :: "registry \<Rightarrow> uint64 \<Rightarrow> bool" where
  "attached_session r i \<longleftrightarrow> (\<exists>c. session_of r i = Some c \<and> attached c)"

text \<open>\<open>reg_moves X r r'\<close>: \<open>r'\<close> is a sound successor of \<open>r\<close> in which only sessions of \<open>X\<close> started or finished.\<close>

definition reg_moves :: "uint64 set \<Rightarrow> registry \<Rightarrow> registry \<Rightarrow> bool" where
  "reg_moves X r r' \<longleftrightarrow> (reg_inv r \<longrightarrow> reg_inv r' \<and> rg_order r' = rg_order r
     \<and> (\<forall>i. attached_session r i \<longrightarrow> attached_session r' i)
     \<and> (\<forall>i. i \<notin> X \<longrightarrow> (i \<in> set (rg_connections r') \<longleftrightarrow> i \<in> set (rg_connections r))))"

lemma reg_moves_refl [simp]: "reg_moves X r r" by (simp add: reg_moves_def)

lemma reg_moves_trans: "reg_moves X r1 r2 \<Longrightarrow> reg_moves X r2 r3 \<Longrightarrow> reg_moves X r1 r3"
  by (auto simp: reg_moves_def)

lemma session_of_set_session:
  "session_of (set_session i f r) j = (if j = i then map_option f (session_of r j) else session_of r j)"
  by (auto simp: set_session_def session_of_def update_conv' split: option.splits)

lemma session_of_simps [simp]:
  "session_of (on_counters n f r) j = session_of r j"
  "session_of (r\<lparr>rg_connections := x\<rparr>) j = session_of r j"
  "session_of (r\<lparr>rg_directActive := y\<rparr>) j = session_of r j"
  "session_of (r\<lparr>rg_directBytesUp := y\<rparr>) j = session_of r j"
  "session_of (r\<lparr>rg_directBytesDown := y\<rparr>) j = session_of r j"
  by (simp_all add: session_of_def)

fun changed_by :: "registry_event \<Rightarrow> uint64 set" where
  "changed_by (EvBegin i) = {i}"
| "changed_by (EvFinish i) = {i}"
| "changed_by _ = {}"

lemma session_of_beginAddress:
  assumes "beginAddress now p ch ca la client r = (sid, r')"
  shows "session_of r' i = (if i = sid then Some (new_session now p ch ca la client) else session_of r i)"
    "rg_order r' = rg_order r" "set (rg_connections r') = insert sid (set (rg_connections r))" "sid = rg_nextID r + 1"
  using assms by (auto simp: beginAddress_def session_of_def update_conv' Let_def split: if_splits)

lemma fresh_id:
  assumes "reg_inv r" "rg_nextID r + 1 \<noteq> 0"
  shows "session_of r (rg_nextID r + 1) = None"
proof (rule ccontr)
  assume "session_of r (rg_nextID r + 1) \<noteq> None"
  then have "rg_nextID r + 1 \<in> fst ` set (rg_objects r)"
    by (auto simp: session_of_def dest: map_of_SomeD intro: rev_image_eqI)
  then have "rg_nextID r + 1 \<le> rg_nextID r"
    using assms(1) by (auto simp: reg_inv_def reg_shape_def)
  then show False using word_succ_greater [OF assms(2)] by simp
qed

lemma registry_step_moves: "registry_step r e r' \<Longrightarrow> reg_moves (changed_by e) r r'"
proof -
  assume step: "registry_step r e r'"
  have "rg_order r' = rg_order r \<and> (\<forall>i. attached_session r i \<longrightarrow> attached_session r' i)
     \<and> (\<forall>i. i \<notin> changed_by e \<longrightarrow> (i \<in> set (rg_connections r') \<longleftrightarrow> i \<in> set (rg_connections r)))" if "reg_inv r"
    using step
  proof cases
    case (step_begin now p ch ca la client sid)
    note b = session_of_beginAddress [OF step_begin(3)]
    show ?thesis
      using fresh_id [OF that step_begin(2)] b by (auto simp: attached_session_def step_begin(1))
  qed (auto simp: attached_session_def Attach_def AttachDirect_def AddUp_def AddDown_def Finish_def Let_def
        session_of_set_session attached_def connect_session_def split: option.splits)
  then show ?thesis using registry.step_inv [OF _ step] by (simp add: reg_moves_def)
qed

lemma AddUp_moves: "attached_session r i \<Longrightarrow> reg_moves {} r (AddUp i n r)"
  using registry_step_moves [OF step_up] by (auto simp: attached_session_def)

lemma AddDown_moves: "attached_session r i \<Longrightarrow> reg_moves {} r (AddDown i n r)"
  using registry_step_moves [OF step_down] by (auto simp: attached_session_def)

lemma Finish_moves: "i \<in> set (rg_connections r) \<Longrightarrow> reg_moves {i} r (Finish i r)"
  using registry_step_moves [OF step_finish] by simp

lemma Finish_connections: "set (rg_connections (Finish i r)) = set (rg_connections r) - {i}"
  by (auto simp: Finish_def Let_def split: option.splits)

lemma AddUp_connections [simp]: "rg_connections (AddUp i n r) = rg_connections r"
  by (auto simp: AddUp_def Let_def split: option.splits)

section \<open>The invariant of an association\<close>

text \<open>
  \<open>udp_core st L\<close>: the flows in the map are exactly the flows that are not closed, apart from
  those of \<open>L\<close>; the session of a flow is live in the registry exactly as long as the flow is not
  closed; and the map respects the limit.
\<close>

definition flow_ok :: "registry \<Rightarrow> udp_flow \<Rightarrow> bool" where
  "flow_ok r f \<longleftrightarrow> attached_session r (uf_session f) \<and> (uf_done f \<longleftrightarrow> uf_session f \<notin> set (rg_connections r))"

definition flow_map_ok :: "udp_association \<Rightarrow> nat set \<Rightarrow> bool" where
  "flow_map_ok a L \<longleftrightarrow>
     distinct (map fst (ua_flows a)) \<and> length (ua_flows a) \<le> ua_flowLimit a
     \<and> (\<forall>t i. map_of (ua_flows a) t = Some i \<longrightarrow>
          i < length (ua_objects a) \<and> uf_target (ua_objects a ! i) = t \<and> \<not> uf_done (ua_objects a ! i))
     \<and> (\<forall>i < length (ua_objects a). \<not> uf_done (ua_objects a ! i) \<longrightarrow>
          i \<in> L \<or> map_of (ua_flows a) (uf_target (ua_objects a ! i)) = Some i)"

definition udp_core :: "udp_state \<Rightarrow> nat set \<Rightarrow> bool" where
  "udp_core st L \<longleftrightarrow>
     reg_inv (us_registry st) \<and> sched_ok (us_sched st) (us_registry st) \<and> wf_table (us_health st)
     \<and> distinct (flow_sessions st)
     \<and> (\<forall>f \<in> set (ua_objects (us_assoc st)). flow_ok (us_registry st) f) \<and> flow_map_ok (us_assoc st) L"

lemma udp_core_registry:
  assumes "udp_core st L" "reg_moves X (us_registry st) r" "X \<inter> set (flow_sessions st) = {}"
    and "map_option sc_adapters sched = map_option sc_adapters (us_sched st)" "wf_table h"
  shows "udp_core (st\<lparr>us_registry := r, us_health := h, us_sched := sched\<rparr>) L"
proof -
  have "flow_ok r f" if "f \<in> set (ua_objects (us_assoc st))" for f
  proof -
    have "uf_session f \<notin> X" using that assms(3) by (auto simp: flow_sessions_def)
    then show ?thesis using assms(1,2) that by (auto simp: udp_core_def reg_moves_def flow_ok_def)
  qed
  moreover have "sched_ok sched r"
    using assms by (cases sched; cases "us_sched st") (auto simp: sched_ok_def udp_core_def reg_moves_def)
  ultimately show ?thesis using assms(1,2,5) by (auto simp: udp_core_def flow_sessions_def reg_moves_def)
qed

lemma udp_core_health: "udp_core st L \<Longrightarrow> wf_table h \<Longrightarrow> udp_core (st\<lparr>us_health := h\<rparr>) L"
  by (simp add: udp_core_def flow_sessions_def)

lemma udp_core_close_conn [simp]: "udp_core (close_conn c st) L = udp_core st L"
  by (simp add: udp_core_def flow_sessions_def close_conn_def)

lemma udp_core_on_registry:
  assumes "udp_core st L" "reg_moves {} (us_registry st) (g (us_registry st))"
  shows "udp_core (on_registry g st) L"
  using udp_core_registry [OF assms(1,2), of "us_sched st" "us_health st"] assms(1)
  by (simp add: on_registry_def udp_core_def)

lemma udp_core_touch: "udp_core st L \<Longrightarrow> i < length (ua_objects (us_assoc st)) \<Longrightarrow> udp_core (touch now i st) L"
proof -
  assume c: "udp_core st L" and i: "i < length (ua_objects (us_assoc st))"
  let ?o = "ua_objects (us_assoc st)" and ?f = "(flow_of st i)\<lparr>uf_lastActive := now\<rparr>"
  have "?o[i := ?f] ! j = (if j = i then ?f else ?o ! j)" if "j < length ?o" for j
    using that by simp
  moreover have "flow_sessions (touch now i st) = flow_sessions st"
    using i by (simp add: touch_def set_flow_def flow_sessions_def map_update flow_of_def) (metis list_update_id nth_map)
  moreover have "flow_ok (us_registry st) f" if "f \<in> set (?o[i := ?f])" for f
    using c i set_update_subset_insert [of ?o i ?f] that
    by (auto simp: udp_core_def flow_ok_def flow_of_def)
  ultimately show ?thesis
    using c i unfolding udp_core_def flow_map_ok_def
    by (auto simp: touch_def set_flow_def flow_of_def nth_list_update)
qed

lemma udp_core_flow_ok: "udp_core st L \<Longrightarrow> i < length (ua_objects (us_assoc st)) \<Longrightarrow> flow_ok (us_registry st) (flow_of st i)"
  by (simp add: udp_core_def flow_of_def)

text \<open>What closing a flow leaves alone: which flows there are, their targets and sessions, and the settings.\<close>

definition same_flows :: "udp_state \<Rightarrow> udp_state \<Rightarrow> bool" where
  "same_flows st st' \<longleftrightarrow>
     map uf_target (ua_objects (us_assoc st')) = map uf_target (ua_objects (us_assoc st))
     \<and> flow_sessions st' = flow_sessions st
     \<and> ua_closed (us_assoc st') = ua_closed (us_assoc st) \<and> ua_flowLimit (us_assoc st') = ua_flowLimit (us_assoc st)
     \<and> (\<forall>i < length (ua_objects (us_assoc st)). uf_done (flow_of st i) \<longrightarrow> uf_done (flow_of st' i))"

lemma same_flows_refl [simp]: "same_flows st st" by (simp add: same_flows_def)

lemma same_flows_length: "same_flows st st' \<Longrightarrow> length (ua_objects (us_assoc st')) = length (ua_objects (us_assoc st))"
  by (metis length_map same_flows_def)

lemma same_flows_trans: "same_flows s1 s2 \<Longrightarrow> same_flows s2 s3 \<Longrightarrow> same_flows s1 s3"
  using same_flows_length [of s1 s2] by (auto simp: same_flows_def)

lemma same_flows_target:
  "same_flows st st' \<Longrightarrow> i < length (ua_objects (us_assoc st)) \<Longrightarrow> uf_target (flow_of st' i) = uf_target (flow_of st i)"
  unfolding same_flows_def flow_of_def by (metis length_map nth_map)

lemma list_update_map_same: "i < length xs \<Longrightarrow> g x = g (xs ! i) \<Longrightarrow> map g (xs[i := x]) = map g xs"
  by (metis list_update_id map_update nth_map length_map)

lemma flow_close_done:
  "uf_done (flow_of st i) \<Longrightarrow> flow_close i st = st"
  by (simp add: flow_close_def)

text \<open>A flow that is closed leaves the map and its session is finished.\<close>

definition closed_assoc :: "nat \<Rightarrow> udp_association \<Rightarrow> udp_association" where
  "closed_assoc i a =
     a\<lparr>ua_objects := (ua_objects a)[i := (ua_objects a ! i)\<lparr>uf_done := True\<rparr>],
       ua_flows := (if map_of (ua_flows a) (uf_target (ua_objects a ! i)) = Some i
                    then AList.delete (uf_target (ua_objects a ! i)) (ua_flows a) else ua_flows a)\<rparr>"

lemma closed_assoc_simps [simp]:
  "ua_objects (closed_assoc i a) = (ua_objects a)[i := (ua_objects a ! i)\<lparr>uf_done := True\<rparr>]"
  "ua_flowLimit (closed_assoc i a) = ua_flowLimit a" "ua_closed (closed_assoc i a) = ua_closed a"
  by (simp_all add: closed_assoc_def)

lemma flow_close_state:
  assumes "\<not> uf_done (flow_of st i)"
  shows "us_assoc (flow_close i st) = closed_assoc i (us_assoc st)"
    "us_registry (flow_close i st) = Finish (uf_session (flow_of st i)) (us_registry st)"
    "us_sched (flow_close i st) = us_sched st" "us_health (flow_close i st) = us_health st"
  using assms by (simp_all add: flow_close_def Let_def set_flow_def close_conn_def on_registry_def set_flows_def
      closed_assoc_def flow_of_def)

lemma length_delete_le: "length (AList.delete k xs) \<le> length xs"
  by (simp add: AList.delete_eq)

lemma closed_assoc_flows:
  assumes "flow_map_ok a L"
  shows "map_of (ua_flows (closed_assoc i a)) t
    = (if map_of (ua_flows a) t = Some i then None else map_of (ua_flows a) t)"
proof (cases "map_of (ua_flows a) t = Some i")
  case True
  then have "uf_target (ua_objects a ! i) = t" using assms by (simp add: flow_map_ok_def)
  then show ?thesis using True by (simp add: closed_assoc_def delete_conv')
next
  case False
  then show ?thesis by (auto simp: closed_assoc_def delete_conv')
qed

lemma flow_close_map:
  assumes "flow_map_ok a L" "i < length (ua_objects a)"
  shows "flow_map_ok (closed_assoc i a) (L - {i})" (is "flow_map_ok ?a _")
proof -
  note ok = assms(1) [unfolded flow_map_ok_def] and fl = closed_assoc_flows [OF assms(1)]
  have ob: "ua_objects ?a ! j = (if j = i then (ua_objects a ! i)\<lparr>uf_done := True\<rparr> else ua_objects a ! j)"
    if "j < length (ua_objects a)" for j
    using that by simp
  have "distinct (map fst (ua_flows a))" "length (ua_flows a) \<le> ua_flowLimit a" using ok by blast+
  then have "distinct (map fst (ua_flows ?a))" "length (ua_flows ?a) \<le> ua_flowLimit a"
    using length_delete_le [of "uf_target (ua_objects a ! i)" "ua_flows a"]
      distinct_delete [of "ua_flows a" "uf_target (ua_objects a ! i)"]
    by (simp_all add: closed_assoc_def)
  moreover have "j < length (ua_objects ?a) \<and> uf_target (ua_objects ?a ! j) = t \<and> \<not> uf_done (ua_objects ?a ! j)"
    if "map_of (ua_flows ?a) t = Some j" for t j
  proof -
    have "map_of (ua_flows a) t = Some j" "j \<noteq> i" using that by (auto simp: fl split: if_splits)
    then show ?thesis using ok ob [of j] by auto
  qed
  moreover have "j \<in> L - {i} \<or> map_of (ua_flows ?a) (uf_target (ua_objects ?a ! j)) = Some j"
    if "j < length (ua_objects ?a)" "\<not> uf_done (ua_objects ?a ! j)" for j
  proof -
    have "j \<noteq> i" "j < length (ua_objects a)" using that ob [of j] by auto
    then have "j \<in> L \<or> map_of (ua_flows a) (uf_target (ua_objects a ! j)) = Some j"
      using ok ob [of j] that(2) by auto
    then show ?thesis using \<open>j \<noteq> i\<close> ob [of j] \<open>j < length (ua_objects a)\<close> by (auto simp: fl)
  qed
  ultimately show ?thesis unfolding flow_map_ok_def by simp
qed

lemma flow_close_core:
  assumes "udp_core st L" "i < length (ua_objects (us_assoc st))"
  shows "udp_core (flow_close i st) (L - {i}) \<and> same_flows st (flow_close i st) \<and> uf_done (flow_of (flow_close i st) i)
    \<and> (\<forall>t j. map_of (ua_flows (us_assoc (flow_close i st))) t = Some j \<longleftrightarrow> map_of (ua_flows (us_assoc st)) t = Some j \<and> j \<noteq> i)"
proof (cases "uf_done (flow_of st i)")
  case True
  note ok = assms(1) [unfolded udp_core_def flow_map_ok_def]
  have "udp_core st (L - {i})" using assms True ok by (auto simp: udp_core_def flow_map_ok_def flow_of_def)
  moreover have "j \<noteq> i" if "map_of (ua_flows (us_assoc st)) t = Some j" for t j
    using that ok True by (auto simp: flow_of_def)
  ultimately show ?thesis using True by (auto simp: flow_close_done)
next
  case False
  let ?a = "us_assoc st" and ?st = "flow_close i st" and ?f = "flow_of st i" and ?r = "us_registry st"
  note st' = flow_close_state [OF False]
  have live: "uf_session ?f \<in> set (rg_connections ?r)" "attached_session ?r (uf_session ?f)"
    using udp_core_flow_ok [OF assms] False by (auto simp: flow_ok_def)
  have mv: "reg_moves {uf_session ?f} ?r (us_registry ?st)" using Finish_moves [OF live(1)] st' by simp
  have ses: "flow_sessions ?st = flow_sessions st"
    using assms(2) by (simp add: flow_sessions_def st' list_update_map_same flow_of_def)
  have "flow_ok (us_registry ?st) g" if g: "g \<in> set (ua_objects (us_assoc ?st))" for g
  proof -
    from g obtain j where j: "j < length (ua_objects ?a)" "g = (ua_objects ?a)[i := ?f\<lparr>uf_done := True\<rparr>] ! j"
      by (auto simp: st' in_set_conv_nth flow_of_def)
    have at: "attached_session (us_registry ?st) k" if "attached_session ?r k" for k
      using that mv assms(1) by (auto simp: reg_moves_def udp_core_def)
    show ?thesis
    proof (cases "j = i")
      case True
      then show ?thesis using j assms(2) live at Finish_connections by (simp add: flow_ok_def st')
    next
      case False
      then have "uf_session (ua_objects ?a ! j) \<noteq> uf_session ?f"
        using j assms unfolding udp_core_def flow_sessions_def flow_of_def
        by (metis distinct_conv_nth length_map nth_map)
      then show ?thesis
        using j False udp_core_flow_ok [OF assms(1) j(1)] at Finish_connections [of "uf_session ?f" ?r]
        by (auto simp: flow_ok_def st' flow_of_def)
    qed
  qed
  moreover have "flow_map_ok (us_assoc ?st) (L - {i})"
    using flow_close_map [of ?a L i] assms by (simp add: st' udp_core_def)
  moreover have "reg_inv (us_registry ?st)" "sched_ok (us_sched ?st) (us_registry ?st)"
    using mv assms(1) by (auto simp: reg_moves_def udp_core_def st' sched_ok_def)
  ultimately have "udp_core ?st (L - {i})" using ses assms(1) by (simp add: udp_core_def st'(4))
  moreover have "same_flows st ?st"
    using ses assms(2) by (auto simp: same_flows_def st' list_update_map_same flow_of_def nth_list_update)
  moreover have "map_of (ua_flows (us_assoc ?st)) t = Some j \<longleftrightarrow> map_of (ua_flows ?a) t = Some j \<and> j \<noteq> i" for t j
    using closed_assoc_flows [of ?a L i t] assms(1) by (auto simp: st' udp_core_def)
  moreover have "uf_done (flow_of ?st i)" using assms(2) by (simp add: flow_of_def st')
  ultimately show ?thesis by blast
qed

subsection \<open>Sending, receiving and opening flows\<close>

lemma same_flows_touch: "i < length (ua_objects (us_assoc st)) \<Longrightarrow> same_flows st (touch now i st)"
  by (auto simp: same_flows_def touch_def set_flow_def flow_of_def flow_sessions_def list_update_map_same nth_list_update)

lemma same_flows_on_registry [simp]: "same_flows st (on_registry g st)"
  by (simp add: same_flows_def on_registry_def flow_sessions_def flow_of_def)

lemma assoc_simps [simp]:
  "us_assoc (on_registry g st) = us_assoc st" "flow_of (on_registry g st) i = flow_of st i"
  "us_assoc (close_conn c st) = us_assoc st" "us_registry (close_conn c st) = us_registry st"
  "ua_flows (us_assoc (touch now i st)) = ua_flows (us_assoc st)"
  by (simp_all add: on_registry_def touch_def set_flow_def flow_of_def close_conn_def)

lemma send_core:
  assumes "udp_core st L" "i < length (ua_objects (us_assoc st))" "send env i payload st w = (ok, st', w')"
  shows "udp_core st' L \<and> same_flows st st' \<and> ua_flows (us_assoc st') = ua_flows (us_assoc st)"
proof -
  obtain written err w1 where wr: "px_write env (uf_connection (flow_of st i)) payload w = ((written, err), w1)"
    by (metis prod.exhaust)
  let ?g = "AddUp (uf_session (flow_of st i)) (of_nat written)"
  have core: "udp_core (on_registry ?g st) L"
    using udp_core_flow_ok [OF assms(1,2)] assms(1) by (intro udp_core_on_registry AddUp_moves) (auto simp: flow_ok_def)
  have st': "st' = (if 0 < written then touch (px_now env w1) i (on_registry ?g st) else st)"
    using assms(3) by (simp add: send_def wr)
  show ?thesis
    using core assms(1,2) same_flows_trans [OF same_flows_on_registry same_flows_touch [of i "on_registry ?g st"]]
    by (auto simp: st' intro: udp_core_touch)
qed

lemma receive_step_core:
  assumes "udp_core st L" "i < length (ua_objects (us_assoc st))" "receive_step now rd rw i st = (go, st')"
  shows "(go \<and> udp_core st' L \<and> same_flows st st' \<and> ua_flows (us_assoc st') = ua_flows (us_assoc st))
    \<or> (\<not> go \<and> st' = flow_close i st)"
proof -
  have "udp_core (on_registry (AddDown (uf_session (flow_of st i)) n) st) L" for n
    using udp_core_flow_ok [OF assms(1,2)] assms(1) by (intro udp_core_on_registry AddDown_moves) (auto simp: flow_ok_def)
  then show ?thesis
    using assms same_flows_trans [OF same_flows_on_registry same_flows_touch]
    by (auto simp: receive_step_def Let_def split: flow_read.splits if_splits option.splits intro!: udp_core_touch)
qed

text \<open>The sessions of the registry that belong to the rest of the proxy.\<close>

definition others :: "udp_state \<Rightarrow> uint64 set" where
  "others st = set (rg_connections (us_registry st)) - set (flow_sessions st)"

definition same_others :: "udp_state \<Rightarrow> udp_state \<Rightarrow> bool" where
  "same_others st st' \<longleftrightarrow> others st' = others st \<and> rg_nextID (us_registry st') = rg_nextID (us_registry st)
     \<and> rg_order (us_registry st') = rg_order (us_registry st)"

lemma same_others_refl [simp]: "same_others st st" by (simp add: same_others_def)

text \<open>\<open>opened st i target L st'\<close>: the step added one flow, number \<open>i\<close>, for \<open>target\<close>, not yet in the map.\<close>

definition opened :: "udp_state \<Rightarrow> nat \<Rightarrow> string \<Rightarrow> nat set \<Rightarrow> udp_state \<Rightarrow> bool" where
  "opened st i target L st' \<longleftrightarrow> i = length (ua_objects (us_assoc st)) \<and> udp_core st' (insert i L)
     \<and> (\<exists>f. us_assoc st' = (us_assoc st)\<lparr>ua_objects := ua_objects (us_assoc st) @ [f]\<rparr>
          \<and> uf_target f = target \<and> \<not> uf_done f)
     \<and> others st' = others st \<and> rg_nextID (us_registry st') = rg_nextID (us_registry st) + 1
     \<and> rg_order (us_registry st') = rg_order (us_registry st)"

lemma registry_op_simps [simp]:
  "rg_order (AddUp i n r) = rg_order r" "rg_order (AddDown i n r) = rg_order r" "rg_order (Finish i r) = rg_order r"
  "rg_order (Attach i u t a r) = rg_order r" "rg_order (AttachDirect i u t r) = rg_order r"
  "rg_nextID (AddUp i n r) = rg_nextID r" "rg_nextID (AddDown i n r) = rg_nextID r" "rg_nextID (Finish i r) = rg_nextID r"
  "rg_nextID (Attach i u t a r) = rg_nextID r" "rg_nextID (AttachDirect i u t r) = rg_nextID r"
  "rg_connections (AddDown i n r) = rg_connections r" "rg_connections (Attach i u t a r) = rg_connections r"
  "rg_connections (AttachDirect i u t r) = rg_connections r"
  by (auto simp: AddUp_def AddDown_def Finish_def Attach_def AttachDirect_def Let_def split: option.splits)

lemma start_flow_registry:
  fixes u :: net_conn and t :: string
  assumes "reg_inv r" "rg_nextID r + 1 \<noteq> 0" "case ad of Some x \<Rightarrow> ad_Name x \<in> set (rg_order r) | None \<Rightarrow> True"
    "BeginAddress now p ch ca client r = (sid, r1)"
  defines "r2 \<equiv> (case ad of Some x \<Rightarrow> Attach sid u t x r1 | None \<Rightarrow> AttachDirect sid u t r1)"
  shows "reg_moves {sid} r (AddUp sid n r2) \<and> attached_session (AddUp sid n r2) sid
    \<and> sid \<in> set (rg_connections (AddUp sid n r2)) \<and> session_of r sid = None"
proof -
  have b: "beginAddress now p ch ca [] client r = (sid, r1)" using assms(4) by (simp add: BeginAddress_def)
  note bs = session_of_beginAddress [OF b]
  have m1: "reg_moves {sid} r r1" using registry_step_moves [OF step_begin [OF assms(2) b]] by simp
  have ses: "\<exists>c. session_of r1 sid = Some c \<and> \<not> attached c" using bs by (simp add: new_session_def attached_def)
  have live: "sid \<in> set (rg_connections r1)" using bs by simp
  have ne: "ad_Name x \<noteq> []" if "ad = Some x" for x
    using assms(1,3) that by (auto simp: reg_inv_def reg_shape_def)
  have step2: "\<exists>e. registry_step r1 e r2 \<and> changed_by e = {}"
  proof (cases ad)
    case None
    then show ?thesis using ses live step_attach_direct [of sid r1 _ u t]
      by (intro exI [of _ "EvAttachDirect sid"]) (auto simp: r2_def)
  next
    case (Some x)
    then have "ad_Name x \<in> set (rg_order r1)" using assms(3) bs by simp
    then show ?thesis using ses live step_attach [of sid r1 _ x u t] Some
      by (intro exI [of _ "EvAttach sid (ad_Name x)"]) (auto simp: r2_def)
  qed
  then have m2: "reg_moves {sid} r1 r2"
    using registry_step_moves [of r1 _ r2] by (auto simp: reg_moves_def)
  have at: "attached_session r2 sid"
    using ses ne
    by (cases ad) (auto simp: r2_def attached_session_def Attach_def AttachDirect_def session_of_set_session attached_def)
  have live2: "sid \<in> set (rg_connections r2)"
    using live by (cases ad) (auto simp: r2_def Attach_def AttachDirect_def)
  have inv2: "reg_inv r2" using m1 m2 assms(1) by (simp add: reg_moves_def)
  have m3: "reg_moves {} r2 (AddUp sid n r2)" using AddUp_moves [OF at] .
  then have "attached_session (AddUp sid n r2) sid" using at inv2 by (simp add: reg_moves_def)
  moreover have "reg_moves {sid} r (AddUp sid n r2)"
    using m1 m2 m3 by (auto simp: reg_moves_def)
  ultimately show ?thesis using live2 fresh_id [OF assms(1,2)] bs(4) by simp
qed

lemma start_flow_others:
  assumes "udp_core st L" "rg_nextID (us_registry st) + 1 \<noteq> 0"
    "start_flow now client target payload upstream ad st = (i, st')"
  shows "others st' = others st \<and> rg_nextID (us_registry st') = rg_nextID (us_registry st) + 1
    \<and> rg_order (us_registry st') = rg_order (us_registry st)"
proof -
  let ?a = "us_assoc st" and ?r = "us_registry st"
  obtain sid r1 where b: "BeginAddress now ''socks5_udp'' (ua_channel ?a) (udp_label client) (ua_relay ?a) ?r = (sid, r1)"
    by fastforce
  have r1: "set (rg_connections r1) = insert sid (set (rg_connections ?r))" "sid = rg_nextID ?r + 1" "rg_nextID r1 = sid"
    "rg_order r1 = rg_order ?r"
    using b by (auto simp: BeginAddress_def beginAddress_def Let_def split: if_splits)
  have inv: "reg_inv ?r" using assms(1) by (simp add: udp_core_def)
  have "session_of ?r sid = None" using fresh_id [OF inv assms(2)] r1 by simp
  then have new: "sid \<notin> set (rg_connections ?r)" using inv shapeD(6) [of ?r sid] by (auto simp: reg_inv_def)
  have "set (rg_connections (us_registry st')) = set (rg_connections r1)" "rg_nextID (us_registry st') = rg_nextID r1"
    "rg_order (us_registry st') = rg_order r1" "flow_sessions st' = flow_sessions st @ [sid]"
    using assms(3) b by (auto simp: start_flow_def Let_def flow_sessions_def split: option.splits)
  then show ?thesis using r1 new by (auto simp: others_def)
qed

lemma start_flow_opened:
  assumes "udp_core st L" "rg_nextID (us_registry st) + 1 \<noteq> 0"
    "case ad of Some x \<Rightarrow> ad_Name x \<in> set (rg_order (us_registry st)) | None \<Rightarrow> True"
    "start_flow now client target payload upstream ad st = (i, st')"
  shows "opened st i target L st'"
proof -
  let ?a = "us_assoc st" and ?r = "us_registry st"
  obtain sid r1 where b: "BeginAddress now ''socks5_udp'' (ua_channel ?a) (udp_label client) (ua_relay ?a) ?r = (sid, r1)"
    by fastforce
  define r where "r = AddUp sid (of_nat (length payload))
    (case ad of Some x \<Rightarrow> Attach sid upstream target x r1 | None \<Rightarrow> AttachDirect sid upstream target r1)"
  define f where "f = \<lparr>uf_target = target, uf_adapter = ad, uf_connection = upstream, uf_session = sid,
                  uf_lastActive = now, uf_client = client, uf_done = False\<rparr>"
  have res: "i = length (ua_objects ?a)" "st' = st\<lparr>us_registry := r, us_assoc := ?a\<lparr>ua_objects := ua_objects ?a @ [f]\<rparr>\<rparr>"
    using assms(4) b by (simp_all add: start_flow_def Let_def r_def f_def)
  have inv: "reg_inv ?r" using assms(1) by (simp add: udp_core_def)
  have reg: "reg_moves {sid} ?r r" "attached_session r sid" "sid \<in> set (rg_connections r)" "session_of ?r sid = None"
    using start_flow_registry [OF inv assms(2,3) b, where u = upstream and t = target and n = "of_nat (length payload)"] by (simp_all add: r_def)
  have fresh: "sid \<notin> set (flow_sessions st)"
    using assms(1) reg(4) by (auto simp: udp_core_def flow_sessions_def flow_ok_def attached_session_def)
  have core: "udp_core (st\<lparr>us_registry := r\<rparr>) L"
    using udp_core_registry [OF assms(1) reg(1), of "us_sched st" "us_health st"] fresh assms(1) by (simp add: udp_core_def)
  have "flow_ok r f" using reg by (simp add: flow_ok_def f_def)
  then have "udp_core st' (insert i L)"
    using core fresh unfolding udp_core_def flow_map_ok_def
    by (auto simp: res flow_sessions_def f_def nth_append less_Suc_eq)
  then show ?thesis using start_flow_others [OF assms(1,2,4)] by (auto simp: opened_def res f_def)
qed

lemma udp_setup_state: "udp_setup env d target payload st w = (res, st', w') \<Longrightarrow> st' = st \<or> (\<exists>c. st' = close_conn c st)"
  by (auto simp: udp_setup_def Let_def split: prod.splits sum.splits option.splits if_splits)

text \<open>A state that differs from \<open>st\<close> at most in scheduler, health and closed connections.\<close>

definition prepared :: "udp_state \<Rightarrow> nat set \<Rightarrow> udp_state \<Rightarrow> bool" where
  "prepared st L st' \<longleftrightarrow> udp_core st' L \<and> us_assoc st' = us_assoc st \<and> us_registry st' = us_registry st"

lemma prepared_close_conn [simp]: "prepared st L (close_conn c st') = prepared st L st'"
  by (simp add: prepared_def)

lemma prepared_health: "prepared st L st' \<Longrightarrow> wf_table h \<Longrightarrow> prepared st L (st'\<lparr>us_health := h\<rparr>)"
  by (simp add: prepared_def udp_core_health)

lemma wf_MarkSuccess: "wf_table h \<Longrightarrow> wf_table (MarkSuccess now n d h)"
  by (simp add: MarkSuccess_def wf_recordSuccess)

lemma opened_prepared: "prepared st L st1 \<Longrightarrow> opened st1 i target L st' \<Longrightarrow> opened st i target L st'"
  by (auto simp: prepared_def opened_def others_def flow_sessions_def)

lemma flow_loop_result:
  assumes "prepared st L st1" "sched_ok (Some s) (us_registry st)" "rg_nextID (us_registry st) + 1 \<noteq> 0"
    "flow_loop env client target network payload n ex fs s st1 w = (res, st', w')"
  shows "case res of Inl e \<Rightarrow> prepared st L st' | Inr i \<Rightarrow> opened st i target L st'"
  using assms
proof (induction n arbitrary: ex fs s st1 w)
  case 0
  then show ?case by (auto simp: prepared_def udp_core_def flow_sessions_def)
next
  case (Suc n)
  let ?r = "us_registry st"
  obtain a s1 h where sel: "Select (px_now env w) (set ex) s (us_health st1) = (a, s1, h)" by (metis prod_cases3)
  have wf1: "wf_table (us_health st1)" and d: "distinct (map ad_Name (sc_adapters s))"
    using Suc.prems(1,2) by (auto simp: prepared_def udp_core_def sched_ok_def)
  note facts = SelectForDomain_facts [OF wf1 d sel [unfolded Select_def]]
  have ok1: "sched_ok (Some s1) ?r" using facts Suc.prems(2) by (auto simp: sched_ok_def)
  define st2 where "st2 = st1\<lparr>us_sched := Some s1, us_health := h\<rparr>"
  have p2: "prepared st L st2"
    using Suc.prems(1) ok1 facts by (auto simp: st2_def prepared_def udp_core_def flow_sessions_def)
  show ?case
  proof (cases a)
    case None
    then show ?thesis using Suc.prems(4) p2 by (auto simp: sel st2_def split: if_splits)
  next
    case (Some ad)
    have known: "ad_Name ad \<in> set (rg_order ?r)" using facts Some Suc.prems(2) by (auto simp: sched_ok_def)
    have wfh: "wf_table (MarkFailure t (ad_Name ad) (us_health x))" if "prepared st L x" for t x
      using that by (simp add: prepared_def udp_core_def wf_MarkFailure)
    show ?thesis
    proof (cases "boundNetworkDialer (px_platform env) ad (ua_timeout (us_assoc st1)) network")
      case None
      have "flow_loop env client target network payload n (ex @ [ad_Name ad]) (fs @ [(ad_Name ad, None)]) s1
          (st2\<lparr>us_health := MarkFailure (px_now env w) (ad_Name ad) (us_health st2)\<rparr>) w = (res, st', w')"
        using Suc.prems(4) by (simp add: sel Some None Let_def st2_def)
      then show ?thesis by (rule Suc.IH [OF prepared_health [OF p2 wfh [OF p2]] ok1 Suc.prems(3)])
    next
      case dialer: (Some d)
      obtain c st3 w3 where su: "udp_setup env d target payload st2 w = (c, st3, w3)" by (metis prod_cases3)
      have p3: "prepared st L st3" using udp_setup_state [OF su] p2 by auto
      show ?thesis
      proof (cases c)
        case (Inl e)
        let ?st4 = "if isLocalConnectFailure e
          then st3\<lparr>us_health := MarkFailure (px_now env w3) (ad_Name ad) (us_health st3)\<rparr> else st3"
        have p4: "prepared st L ?st4" using p3 prepared_health [OF p3 wfh [OF p3]] by simp
        have "flow_loop env client target network payload n (ex @ [ad_Name ad]) (fs @ [(ad_Name ad, e)]) s1 ?st4 w3
            = (res, st', w')"
          using Suc.prems(4) su Inl by (simp add: sel Some dialer Let_def st2_def)
        then show ?thesis by (rule Suc.IH [OF p4 ok1 Suc.prems(3)])
      next
        case (Inr upstream)
        define st4 where "st4 = st3\<lparr>us_health := MarkSuccess (px_now env w3) (ad_Name ad) [] (us_health st3)\<rparr>"
        have p4: "prepared st L st4" unfolding st4_def
          using p3 by (intro prepared_health wf_MarkSuccess) (auto simp: prepared_def udp_core_def)
        obtain i st5 where sf: "start_flow (px_now env w3) client target payload upstream (Some ad) st4 = (i, st5)"
          by fastforce
        have "opened st4 i target L st5"
          using p4 known Suc.prems(3) by (intro start_flow_opened [OF _ _ _ sf]) (auto simp: prepared_def)
        moreover have "(Inr i, st5, w3) = (res, st', w')"
          using Suc.prems(4) su sf Inr by (simp add: sel Some dialer Let_def st2_def st4_def)
        ultimately show ?thesis using opened_prepared [OF p4] by auto
      qed
    qed
  qed
qed

lemma createFlow_result:
  assumes "udp_core st L" "rg_nextID (us_registry st) + 1 \<noteq> 0"
    "createFlow env client target payload st w = (res, st', w')"
  shows "case res of Inl e \<Rightarrow> prepared st L st' | Inr i \<Rightarrow> opened st i target L st'"
proof -
  have p: "prepared st L st" using assms(1) by (simp add: prepared_def)
  have direct: ?thesis if "createDirectFlow env client target network payload st w = (res, st', w')" for network
  proof -
    define d where "d = \<lparr>dl_Timeout = ua_timeout (us_assoc st), dl_KeepAlive = 0, dl_LocalUDP = (network = ''udp6''),
               dl_LocalIP = (if network = ''udp6'' then Some (replicate 16 0) else None), dl_UnicastIF = None\<rparr>"
    obtain c st1 w1 where su: "udp_setup env d target payload st w = (c, st1, w1)" by (metis prod_cases3)
    have p1: "prepared st L st1" using udp_setup_state [OF su] p by auto
    show ?thesis
    proof (cases c)
      case (Inl e)
      then show ?thesis using that su p1 by (auto simp: createDirectFlow_def Let_def d_def [symmetric])
    next
      case (Inr u)
      obtain i st2 where sf: "start_flow (px_now env w1) client target payload u None st1 = (i, st2)" by fastforce
      have "opened st1 i target L st2"
        using p1 assms(2) by (intro start_flow_opened [OF _ _ _ sf]) (auto simp: prepared_def)
      then show ?thesis
        using that su sf Inr opened_prepared [OF p1] by (auto simp: createDirectFlow_def Let_def d_def [symmetric])
    qed
  qed
  have sched: "sched_ok (Some s) (us_registry st)" if "us_sched st = Some s" for s
    using assms(1) that by (simp add: udp_core_def)
  have loop: ?thesis if "us_sched st = Some s" "flow_loop env client target network payload n ex [] s st w = (res, st', w')"
    for s network n ex
    using flow_loop_result [OF p sched [OF that(1)] assms(2) that(2)] .
  show ?thesis
    using assms(3) p direct loop
    by (auto simp: createFlow_def Let_def split: option.splits if_splits)
qed

subsection \<open>Forwarding and closing\<close>

lemma flows_empty:
  assumes "\<And>t. map_of xs t = None"
  shows "xs = []"
proof (cases xs)
  case (Cons p l)
  then have "map_of xs (fst p) = Some (snd p)" by (cases p) simp
  then show ?thesis using assms [of "fst p"] by simp
qed

lemma map_length_eq: "distinct (map fst xs) \<Longrightarrow> length xs = card (dom (map_of xs))"
  by (metis distinct_card dom_map_of_conv_image_fst length_map list.set_map)

text \<open>Fewer entries in the map of flows means a shorter map.\<close>

lemma flows_shrink:
  assumes "udp_core st L" "udp_core st' L'"
    "\<forall>t j. map_of (ua_flows (us_assoc st')) t = Some j \<longrightarrow> map_of (ua_flows (us_assoc st)) t = Some j"
  shows "length (ua_flows (us_assoc st')) \<le> length (ua_flows (us_assoc st))"
proof -
  have "dom (map_of (ua_flows (us_assoc st'))) \<subseteq> dom (map_of (ua_flows (us_assoc st)))" using assms(3) by auto
  moreover have "distinct (map fst (ua_flows (us_assoc st)))" "distinct (map fst (ua_flows (us_assoc st')))"
    using assms(1,2) by (auto simp: udp_core_def flow_map_ok_def)
  ultimately show ?thesis by (simp add: map_length_eq card_mono finite_dom_map_of)
qed

text \<open>\<open>quiet st L st'\<close>: no flow was added, and flows that left the map are closed.\<close>

definition quiet :: "udp_state \<Rightarrow> nat set \<Rightarrow> udp_state \<Rightarrow> bool" where
  "quiet st L st' \<longleftrightarrow> udp_core st' L \<and> same_flows st st'
     \<and> (\<forall>t j. map_of (ua_flows (us_assoc st')) t = Some j \<longrightarrow> map_of (ua_flows (us_assoc st)) t = Some j)
     \<and> same_others st st'"

lemma quiet_trans: "quiet s1 L s2 \<Longrightarrow> quiet s2 L s3 \<Longrightarrow> quiet s1 L s3"
  by (auto simp: quiet_def same_others_def intro: same_flows_trans)

lemma quiet_send:
  "udp_core st L \<Longrightarrow> i < length (ua_objects (us_assoc st)) \<Longrightarrow> send env i payload st w = (ok, st', w') \<Longrightarrow> quiet st L st'"
  using send_core [of st L i env payload w ok st' w']
  by (auto simp: quiet_def same_others_def others_def same_flows_def send_def Let_def touch_def set_flow_def on_registry_def
      split: prod.splits if_splits)

lemma udp_core_mono: "udp_core st L \<Longrightarrow> L \<subseteq> L' \<Longrightarrow> udp_core st L'"
  by (auto simp: udp_core_def flow_map_ok_def)

lemma quiet_flow_close:
  "udp_core st L \<Longrightarrow> i < length (ua_objects (us_assoc st)) \<Longrightarrow> quiet st L (flow_close i st)"
proof -
  assume c: "udp_core st L" "i < length (ua_objects (us_assoc st))"
  have "uf_session (flow_of st i) \<in> set (flow_sessions st)" using c(2) by (simp add: flow_sessions_def flow_of_def)
  then have "same_others st (flow_close i st)"
    using flow_close_core [OF c] Finish_connections [of "uf_session (flow_of st i)" "us_registry st"]
    by (cases "uf_done (flow_of st i)")
       (auto simp: same_others_def others_def same_flows_def flow_close_done flow_close_state)
  then show ?thesis
    using flow_close_core [OF c] udp_core_mono [of "flow_close i st" "L - {i}" L] by (auto simp: quiet_def)
qed

lemma udp_core_flow_bound:
  "udp_core st L \<Longrightarrow> map_of (ua_flows (us_assoc st)) t = Some i \<Longrightarrow> i < length (ua_objects (us_assoc st))"
  by (auto simp: udp_core_def flow_map_ok_def)

lemma forward_lookup_quiet:
  assumes "udp_core st L" "forward_lookup env packet st w = (phase, st', w')"
  shows "quiet st L st' \<and> (phase = ForwardCreate \<longrightarrow> st' = st \<and> \<not> ua_closed (us_assoc st)
     \<and> map_of (ua_flows (us_assoc st)) (up_target packet) = None \<and> length (ua_flows (us_assoc st)) < ua_flowLimit (us_assoc st))"
proof (cases "ua_closed (us_assoc st) \<or> map_of (ua_flows (us_assoc st)) (up_target packet) = None")
  case True
  then show ?thesis using assms by (auto simp: forward_lookup_def quiet_def split: if_splits)
next
  case False
  then obtain i where i: "map_of (ua_flows (us_assoc st)) (up_target packet) = Some i" by auto
  obtain ok st1 w1 where se: "send env i (up_payload packet) st w = (ok, st1, w1)" by (metis prod_cases3)
  have q: "quiet st L st1" using quiet_send [OF assms(1) udp_core_flow_bound [OF assms(1) i] se] .
  then have "quiet st1 L (flow_close i st1)"
    using udp_core_flow_bound [OF assms(1) i] by (intro quiet_flow_close) (auto simp: quiet_def dest: same_flows_length)
  then show ?thesis
    using assms(2) False i se q by (auto simp: forward_lookup_def intro: quiet_trans)
qed

lemma flow_close_all:
  assumes "udp_core st {}" "\<forall>i \<in> set is. i < length (ua_objects (us_assoc st))"
  shows "quiet st {} (fold flow_close is st) \<and> (\<forall>i \<in> set is. uf_done (flow_of (fold flow_close is st) i))"
  using assms
proof (induction "is" arbitrary: st)
  case (Cons i "is")
  let ?st = "flow_close i st"
  have q: "quiet st {} ?st" using quiet_flow_close Cons.prems by simp
  have len: "length (ua_objects (us_assoc ?st)) = length (ua_objects (us_assoc st))"
    using q same_flows_length by (simp add: quiet_def)
  have IH: "quiet ?st {} (fold flow_close is ?st)" "\<forall>i \<in> set is. uf_done (flow_of (fold flow_close is ?st) i)"
    using Cons.IH [of ?st] q Cons.prems len by (auto simp: quiet_def)
  have "uf_done (flow_of ?st i)" using flow_close_core [of st "{}" i] Cons.prems by simp
  then have "uf_done (flow_of (fold flow_close is ?st) i)"
    using IH(1) Cons.prems(2) len by (auto simp: quiet_def same_flows_def)
  then show ?case using IH q quiet_trans by auto
qed (simp add: quiet_def)

lemma association_close_closed:
  assumes "udp_core st {}" "\<not> ua_closed (us_assoc st)"
  shows "udp_core (association_close st) {} \<and> ua_flows (us_assoc (association_close st)) = []
    \<and> ua_closed (us_assoc (association_close st)) \<and> others (association_close st) = others st
    \<and> rg_order (us_registry (association_close st)) = rg_order (us_registry st)"
proof -
  define st1 where "st1 = close_conn (ua_relay (us_assoc st)) (st\<lparr>us_assoc := (us_assoc st)\<lparr>ua_closed := True\<rparr>\<rparr>)"
  define st2 where "st2 = fold flow_close (map snd (ua_flows (us_assoc st))) st1"
  have st2: "association_close st = st2"
    using assms(2) by (simp add: association_close_def Let_def st1_def st2_def close_conn_def)
  have c1: "udp_core st1 {}" using assms(1) by (simp add: st1_def udp_core_def flow_sessions_def flow_map_ok_def close_conn_def)
  have d: "distinct (map fst (ua_flows (us_assoc st)))" using assms(1) by (simp add: udp_core_def flow_map_ok_def)
  have fl: "ua_flows (us_assoc st1) = ua_flows (us_assoc st)" "ua_objects (us_assoc st1) = ua_objects (us_assoc st)"
    "ua_closed (us_assoc st1)" by (simp_all add: st1_def)
  have "i < length (ua_objects (us_assoc st1))" if "i \<in> set (map snd (ua_flows (us_assoc st)))" for i
    using that assms(1) d fl map_of_is_SomeI [OF d] by (auto simp: udp_core_def flow_map_ok_def)
  then have q: "quiet st1 {} st2" and dn: "\<forall>i \<in> set (map snd (ua_flows (us_assoc st))). uf_done (flow_of st2 i)"
    using flow_close_all [OF c1] unfolding st2_def by blast+
  have "map_of (ua_flows (us_assoc st2)) t = None" for t
  proof (rule ccontr)
    assume "map_of (ua_flows (us_assoc st2)) t \<noteq> None"
    then obtain j where j: "map_of (ua_flows (us_assoc st2)) t = Some j" by auto
    then have "map_of (ua_flows (us_assoc st)) t = Some j" using q fl by (simp add: quiet_def)
    then have "uf_done (flow_of st2 j)" using dn by (force dest: map_of_SomeD)
    then show False using q j by (auto simp: quiet_def udp_core_def flow_map_ok_def flow_of_def)
  qed
  then have "ua_flows (us_assoc st2) = []" by (rule flows_empty)
  moreover have "others st1 = others st" "us_registry st1 = us_registry st"
    by (simp_all add: st1_def others_def flow_sessions_def)
  ultimately show ?thesis using q fl st2 by (simp add: quiet_def same_flows_def same_others_def)
qed

section \<open>Every reachable association is sound\<close>

definition phase_ok :: "udp_association \<Rightarrow> udp_phase \<Rightarrow> bool" where
  "phase_ok a phase \<longleftrightarrow> (case phase of
       Idle \<Rightarrow> True
     | Creating client packet \<Rightarrow> map_of (ua_flows a) (up_target packet) = None \<and> length (ua_flows a) < ua_flowLimit a
     | Installing packet i \<Rightarrow> map_of (ua_flows a) (up_target packet) = None \<and> length (ua_flows a) < ua_flowLimit a
         \<and> i < length (ua_objects a) \<and> uf_target (ua_objects a ! i) = up_target packet \<and> \<not> uf_done (ua_objects a ! i))"

definition pending :: "udp_phase \<Rightarrow> nat set" where
  "pending phase = (case phase of Installing packet i \<Rightarrow> {i} | _ \<Rightarrow> {})"

definition udp_inv :: "udp_state \<times> udp_phase \<Rightarrow> bool" where
  "udp_inv s \<longleftrightarrow> (case s of (st, phase) \<Rightarrow> udp_core st (pending phase) \<and> phase_ok (us_assoc st) phase
     \<and> (ua_closed (us_assoc st) \<longrightarrow> phase = Idle \<and> ua_flows (us_assoc st) = []))"

lemma pending_simps [simp]:
  "pending Idle = {}" "pending (Creating c p) = {}" "pending (Installing p i) = {i}"
  by (simp_all add: pending_def)

lemma length_update_le: "length (AList.update k v xs) \<le> Suc (length xs)"
  by (induction xs) auto

lemma quiet_phase:
  assumes "udp_core st L" "quiet st L st'" "phase_ok (us_assoc st) phase"
    "\<forall>p i. phase = Installing p i \<longrightarrow> \<not> uf_done (flow_of st' i)"
  shows "phase_ok (us_assoc st') phase"
proof -
  have le: "length (ua_flows (us_assoc st')) \<le> length (ua_flows (us_assoc st))"
    using assms(1,2) by (intro flows_shrink) (auto simp: quiet_def)
  have none: "map_of (ua_flows (us_assoc st')) t = None" if "map_of (ua_flows (us_assoc st)) t = None" for t
    using that assms(2) by (cases "map_of (ua_flows (us_assoc st')) t") (auto simp: quiet_def)
  have same: "ua_flowLimit (us_assoc st') = ua_flowLimit (us_assoc st)"
    "length (ua_objects (us_assoc st')) = length (ua_objects (us_assoc st))"
    using assms(2) same_flows_length by (auto simp: quiet_def same_flows_def)
  show ?thesis
    using assms(3,4) le none same same_flows_target [of st st'] assms(2)
    by (cases phase) (auto simp: phase_ok_def quiet_def flow_of_def)
qed

lemma quiet_inv:
  assumes "udp_inv (st, phase)" "quiet st (pending phase) st'" "\<forall>p i. phase = Installing p i \<longrightarrow> \<not> uf_done (flow_of st' i)"
  shows "udp_inv (st', phase)"
proof -
  have c: "udp_core st (pending phase)" and p: "phase_ok (us_assoc st) phase" using assms(1) by (simp_all add: udp_inv_def)
  have "phase_ok (us_assoc st') phase" using c assms(2) p assms(3) by (rule quiet_phase)
  moreover have "ua_flows (us_assoc st') = []" if "ua_flows (us_assoc st) = []"
  proof (rule flows_empty)
    show "map_of (ua_flows (us_assoc st')) t = None" for t
      using assms(2) that by (cases "map_of (ua_flows (us_assoc st')) t") (auto simp: quiet_def)
  qed
  moreover have "udp_core st' (pending phase)" "ua_closed (us_assoc st') = ua_closed (us_assoc st)"
    using assms(2) by (auto simp: quiet_def same_flows_def)
  ultimately show ?thesis using assms(1) by (simp add: udp_inv_def)
qed

lemma serve_accept_core:
  assumes "udp_core st L" "serve_accept ca bytes (us_assoc st) = Some (client, packet, a)"
  shows "udp_core (st\<lparr>us_assoc := a\<rparr>) L \<and> (\<exists>p. a = (us_assoc st)\<lparr>ua_lockedPort := p\<rparr>)"
proof -
  have "a = (us_assoc st)\<lparr>ua_lockedPort := ua_lockedPort a\<rparr>"
    using assms(2) by (auto simp: serve_accept_def split: option.splits if_splits)
  then obtain p where "a = (us_assoc st)\<lparr>ua_lockedPort := p\<rparr>" by blast
  then show ?thesis using assms(1) by (auto simp: udp_core_def flow_sessions_def flow_map_ok_def)
qed

lemma forward_install_inv:
  assumes "udp_inv (st, Installing packet i)" "forward_install env packet i st w = (st', w')"
  shows "udp_inv (st', Idle)"
proof -
  let ?a = "us_assoc st"
  have c: "udp_core st {i}" "map_of (ua_flows ?a) (up_target packet) = None" "length (ua_flows ?a) < ua_flowLimit ?a"
    "i < length (ua_objects ?a)" "uf_target (ua_objects ?a ! i) = up_target packet" "\<not> uf_done (ua_objects ?a ! i)"
    "\<not> ua_closed ?a"
    using assms(1) by (auto simp: udp_inv_def phase_ok_def)
  let ?fs = "AList.update (up_target packet) i (ua_flows ?a)"
  have st': "st' = set_flows ?fs st" using assms(2) c by (simp add: forward_install_def)
  have "length ?fs \<le> Suc (length (ua_flows ?a))" by (rule length_update_le)
  moreover have "distinct (map fst ?fs)" using c(1) by (simp add: udp_core_def flow_map_ok_def distinct_update)
  moreover have "map_of ?fs t = (if t = up_target packet then Some i else map_of (ua_flows ?a) t)" for t
    by (simp add: update_conv')
  ultimately have "flow_map_ok (us_assoc st') {}"
    using c unfolding udp_core_def flow_map_ok_def
    by (auto simp: st' set_flows_def simp del: map_of_eq_None_iff)
  then show ?thesis
    using c by (simp add: udp_inv_def udp_core_def phase_ok_def st' set_flows_def flow_sessions_def)
qed

lemma receive_step_others:
  "receive_step now rd rw i st = (True, st') \<Longrightarrow> same_flows st st' \<Longrightarrow> same_others st st'"
  by (auto simp: receive_step_def Let_def same_others_def others_def same_flows_def touch_def set_flow_def on_registry_def
      split: flow_read.splits if_splits option.splits)

lemma receive_step_quiet:
  assumes "udp_core st L" "i < length (ua_objects (us_assoc st))" "receive_step now rd rw i st = (go, st')"
  shows "quiet st L st' \<and> (\<forall>j < length (ua_objects (us_assoc st)). j \<noteq> i \<longrightarrow> uf_done (flow_of st' j) = uf_done (flow_of st j))"
proof -
  have "quiet st L st'"
    using receive_step_core [OF assms] quiet_flow_close [OF assms(1,2)] receive_step_others [of now rd rw i st st'] assms(3) by (auto simp: quiet_def)
  moreover have "uf_done (flow_of st' j) = uf_done (flow_of st j)" if "j < length (ua_objects (us_assoc st))" "j \<noteq> i" for j
    using assms(3) that
    by (auto simp: receive_step_def Let_def flow_close_def touch_def set_flow_def flow_of_def set_flows_def on_registry_def
        close_conn_def split: flow_read.splits if_splits option.splits)
  ultimately show ?thesis by blast
qed

lemma udp_step_inv:
  assumes "udp_inv s" "udp_step s e s'"
  shows "udp_inv s'"
  using assms(2,1)
proof cases
  case (udp_serve ca bytes st client packet a env w phase st' w')
  have inv: "udp_core st {}" "ua_closed (us_assoc st) \<longrightarrow> ua_flows (us_assoc st) = []"
    using assms(1) udp_serve(1) by (auto simp: udp_inv_def)
  obtain p where a: "a = (us_assoc st)\<lparr>ua_lockedPort := p\<rparr>" and c: "udp_core (st\<lparr>us_assoc := a\<rparr>) {}"
    using serve_accept_core [OF inv(1) udp_serve(4)] by blast
  have idle: "udp_inv (st\<lparr>us_assoc := a\<rparr>, Idle)" using c inv by (simp add: udp_inv_def phase_ok_def a)
  note l = forward_lookup_quiet [OF c udp_serve(5)]
  show ?thesis
  proof (cases phase)
    case ForwardDone
    then show ?thesis using quiet_inv [OF idle, of st'] l udp_serve by simp
  next
    case ForwardCreate
    then show ?thesis using l c udp_serve by (simp add: udp_inv_def phase_ok_def)
  qed
next
  case (udp_create env client packet st w res st' w')
  have inv: "udp_core st {}" "phase_ok (us_assoc st) (Creating client packet)" "\<not> ua_closed (us_assoc st)"
    using assms(1) udp_create(1) by (auto simp: udp_inv_def)
  note r = createFlow_result [OF inv(1) udp_create(5,4)]
  show ?thesis
  proof (cases res)
    case (Inl err)
    then show ?thesis using r inv udp_create by (auto simp: prepared_def udp_inv_def phase_ok_def)
  next
    case (Inr i)
    then show ?thesis using r inv udp_create by (auto simp: opened_def udp_inv_def phase_ok_def nth_append)
  qed
next
  case (udp_install env packet i st w st' w')
  then show ?thesis using assms(1) forward_install_inv by simp
next
  case (udp_receive i st phase now rd rw go st')
  have c: "udp_core st (pending phase)" using assms(1) udp_receive(1) by (simp add: udp_inv_def)
  note q = receive_step_quiet [OF c udp_receive(4) udp_receive(6)]
  have "\<not> uf_done (flow_of st' j)" if "phase = Installing p j" for p j
    using q that udp_receive assms(1) by (auto simp: udp_inv_def phase_ok_def flow_of_def)
  then show ?thesis using quiet_inv [of st phase st'] q assms(1) udp_receive by simp
next
  case (udp_close st)
  have inv: "udp_core st {}" using assms(1) udp_close by (simp add: udp_inv_def)
  show ?thesis
  proof (cases "ua_closed (us_assoc st)")
    case True
    then show ?thesis using assms(1) udp_close by (simp add: association_close_def)
  next
    case False
    then show ?thesis using association_close_closed [OF inv] udp_close by (simp add: udp_inv_def phase_ok_def)
  qed
next
  case (udp_other st ev r sched h phase)
  have "changed_by ev \<inter> set (flow_sessions st) = {}" using udp_other(5) by (cases ev) auto
  then have "udp_core (st\<lparr>us_registry := r, us_health := h, us_sched := sched\<rparr>) (pending phase)"
    using assms(1) udp_other
    by (intro udp_core_registry [OF _ registry_step_moves [OF udp_other(4)]]) (auto simp: udp_inv_def)
  then show ?thesis using assms(1) udp_other by (simp add: udp_inv_def)
qed

interpretation association: invariant_system udp_init udp_step udp_inv
proof
  show "udp_inv s" if "udp_init s" for s
    using that by (auto simp: udp_init_def udp_inv_def udp_core_def flow_sessions_def flow_map_ok_def phase_ok_def)
  show "udp_inv s'" if "udp_inv s" "udp_step s e s'" for s e s'
    using that by (rule udp_step_inv)
qed

text \<open>
  C11. In every interleaving of datagrams, replies, idle sweeps, closing and the rest of the
  proxy, an association holds at most its limit of flows, one per target; the telemetry
  session of a flow is open exactly as long as the flow is, so it is finished exactly once;
  a flow that is open is in the map or is just being installed; and once the association
  is closed all of its flows are closed and none of their sessions is left in the
  registry, whose books stay balanced throughout.
\<close>

theorem association_invariant:
  assumes "reach udp_init udp_step (st, phase)"
  shows "length (ua_flows (us_assoc st)) \<le> ua_flowLimit (us_assoc st) \<and> distinct (map fst (ua_flows (us_assoc st)))
    \<and> reg_inv (us_registry st)
    \<and> (\<forall>f \<in> set (ua_objects (us_assoc st)). uf_done f \<longleftrightarrow> uf_session f \<notin> set (rg_connections (us_registry st)))
    \<and> (\<forall>i < length (ua_objects (us_assoc st)). \<not> uf_done (flow_of st i) \<longrightarrow>
         map_of (ua_flows (us_assoc st)) (uf_target (flow_of st i)) = Some i \<or> (\<exists>p. phase = Installing p i))
    \<and> (ua_closed (us_assoc st) \<longrightarrow> (\<forall>f \<in> set (ua_objects (us_assoc st)).
         uf_done f \<and> uf_session f \<notin> set (rg_connections (us_registry st))))"
proof -
  have inv: "udp_inv (st, phase)" using association.reach_inv [OF assms] .
  then have core: "udp_core st (pending phase)" by (simp add: udp_inv_def)
  then have map: "length (ua_flows (us_assoc st)) \<le> ua_flowLimit (us_assoc st)" "distinct (map fst (ua_flows (us_assoc st)))"
    "reg_inv (us_registry st)"
    and ok: "\<And>f. f \<in> set (ua_objects (us_assoc st)) \<Longrightarrow> flow_ok (us_registry st) f"
    by (auto simp: udp_core_def flow_map_ok_def)
  have open_flow: "map_of (ua_flows (us_assoc st)) (uf_target (flow_of st i)) = Some i \<or> (\<exists>p. phase = Installing p i)"
    if "i < length (ua_objects (us_assoc st))" "\<not> uf_done (flow_of st i)" for i
    using core that by (cases phase) (auto simp: udp_core_def flow_map_ok_def flow_of_def)
  have "uf_done f" if "ua_closed (us_assoc st)" "f \<in> set (ua_objects (us_assoc st))" for f
    using that inv open_flow by (fastforce simp: udp_inv_def in_set_conv_nth flow_of_def)
  then show ?thesis using map ok open_flow by (auto simp: flow_ok_def)
qed

section \<open>Who may send\<close>

text \<open>The datagrams of a list that \<open>serve\<close> hands on, with their senders, and the association afterwards.\<close>

fun accepted :: "(udp_addr option \<times> byte list) list \<Rightarrow> udp_association \<Rightarrow> (udp_addr \<times> socks_udp_packet) list \<times> udp_association" where
  "accepted [] a = ([], a)"
| "accepted ((ca, bytes) # ds) a =
     (case serve_accept ca bytes a of
        None \<Rightarrow> accepted ds a
      | Some (client, packet, a) \<Rightarrow> (let (ps, a) = accepted ds a in ((client, packet) # ps, a)))"

text \<open>
  The datagrams of a list that come from the address of the TCP peer and are well-formed SOCKS UDP
  requests, decoded; their source ports are not looked at.
\<close>

fun requests_from :: "ip \<Rightarrow> (udp_addr option \<times> byte list) list \<Rightarrow> (udp_addr \<times> socks_udp_packet) list" where
  "requests_from peer [] = []"
| "requests_from peer ((None, bytes) # ds) = requests_from peer ds"
| "requests_from peer ((Some client, bytes) # ds) =
     (case parseSOCKSUDPPacket bytes of
        Some packet \<Rightarrow> if ip_equal (fst client) peer then (client, packet) # requests_from peer ds else requests_from peer ds
      | None \<Rightarrow> requests_from peer ds)"

lemma serve_accept_cases:
  "serve_accept (Some client) bytes a =
     (case parseSOCKSUDPPacket bytes of
        None \<Rightarrow> None
      | Some packet \<Rightarrow>
          if ip_equal (fst client) (ua_allowedIP a) \<and> (ua_lockedPort a = 0 \<or> snd client = ua_lockedPort a)
          then Some (client, packet, if ua_lockedPort a = snd client then a else a\<lparr>ua_lockedPort := snd client\<rparr>)
          else None)"
  by (cases client) (auto simp: serve_accept_def split: option.splits)

lemma dropWhile_some: "dropWhile P xs = y # ys \<Longrightarrow> \<not> (\<forall>x \<in> set xs. P x)"
  by (metis dropWhile_eq_Nil_conv list.distinct(1))

lemma accepted_locked:
  "ua_lockedPort a \<noteq> 0 \<Longrightarrow>
   accepted ds a = (filter (\<lambda>(client, packet). snd client = ua_lockedPort a) (requests_from (ua_allowedIP a) ds), a)"
proof (induction ds)
  case (Cons d ds)
  obtain ca bytes where d: "d = (ca, bytes)" by fastforce
  show ?case using Cons d
    by (cases ca) (auto simp: serve_accept_cases serve_accept_def [of None] split: option.splits)
qed simp

text \<open>
  C12. Only one client can use an association. Whatever datagrams arrive and from whomever, those
  that are handed on are exactly the following ones, in the order they came: well-formed requests
  from the address of the TCP peer, and of those only the ones from one port. That port is the
  one the client announced, and otherwise the first port other than 0 that a well-formed request
  from the address comes from; the association stays locked to it. The number 0 stands for `not
  yet locked', so a request whose source port is 0 (which no ordinary socket sends) locks
  nothing: such requests are handed on until the first one from another port, and never after.
\<close>

theorem association_single_client:
  "accepted ds a =
     (let requests = requests_from (ua_allowedIP a) ds;
          unlocked = takeWhile (\<lambda>(client, packet). snd client = 0) requests;
          locking = dropWhile (\<lambda>(client, packet). snd client = 0) requests;
          from_port = (\<lambda>port. filter (\<lambda>(client, packet). snd client = port))
      in if ua_lockedPort a \<noteq> 0 then (from_port (ua_lockedPort a) requests, a)
         else case locking of
                [] \<Rightarrow> (unlocked, a)
              | (client, packet) # later \<Rightarrow>
                  (unlocked @ (client, packet) # from_port (snd client) later, a\<lparr>ua_lockedPort := snd client\<rparr>))"
proof (cases "ua_lockedPort a = 0")
  case False
  then show ?thesis by (simp add: accepted_locked Let_def)
next
  case True
  then show ?thesis
  proof (induction ds)
    case (Cons d ds)
    obtain ca bytes where d: "d = (ca, bytes)" by fastforce
    show ?case
    proof (cases ca)
      case None
      then show ?thesis using Cons d by (simp add: serve_accept_def)
    next
      case (Some client)
      then show ?thesis using Cons d
        by (auto simp: serve_accept_cases accepted_locked Let_def split: option.splits list.splits
            dest: dropWhile_some)
    qed
  qed simp
qed

section \<open>A whole association\<close>

lemma udp_inv_Idle:
  "udp_inv (st, Idle) \<longleftrightarrow> udp_core st {} \<and> (ua_closed (us_assoc st) \<longrightarrow> ua_flows (us_assoc st) = [])"
  by (simp add: udp_inv_def phase_ok_def)

lemma forward_inv:
  assumes "udp_inv (st, Idle)" "rg_nextID (us_registry st) + 1 \<noteq> 0" "forward env client packet st w = (st', w')"
  shows "udp_inv (st', Idle) \<and> others st' = others st \<and> rg_order (us_registry st') = rg_order (us_registry st)
    \<and> unat (rg_nextID (us_registry st')) \<le> unat (rg_nextID (us_registry st)) + 1"
proof -
  have core: "udp_core st {}" using assms(1) by (simp add: udp_inv_Idle)
  obtain phase st1 w1 where lk: "forward_lookup env packet st w = (phase, st1, w1)" by (metis prod_cases3)
  note l = forward_lookup_quiet [OF core lk]
  show ?thesis
  proof (cases phase)
    case ForwardDone
    then have "st' = st1" using assms(3) lk by (simp add: forward_def)
    then show ?thesis using quiet_inv [OF assms(1), of st1] l by (simp add: quiet_def same_others_def)
  next
    case ForwardCreate
    obtain res st2 w2 where cr: "createFlow env client (up_target packet) (up_payload packet) st w1 = (res, st2, w2)"
      by (metis prod_cases3)
    note r = createFlow_result [OF core assms(2) cr]
    have st1: "st1 = st" using l ForwardCreate by simp
    show ?thesis
    proof (cases res)
      case (Inl e)
      then have "st' = st2" using assms(3) lk cr ForwardCreate st1 by (simp add: forward_def)
      then show ?thesis using r Inl assms(1) by (simp add: prepared_def udp_inv_Idle others_def flow_sessions_def)
    next
      case (Inr i)
      have inst: "forward_install env packet i st2 w2 = (st', w')"
        using assms(3) lk cr ForwardCreate Inr st1 by (simp add: forward_def)
      have inv2: "udp_inv (st2, Installing packet i)"
        using r Inr l ForwardCreate by (auto simp: opened_def udp_inv_def phase_ok_def nth_append)
      then have "st' = set_flows (AList.update (up_target packet) i (ua_flows (us_assoc st2))) st2"
        using inst by (auto simp: forward_install_def udp_inv_def phase_ok_def)
      then have "others st' = others st2" "us_registry st' = us_registry st2"
        by (simp_all add: others_def flow_sessions_def set_flows_def)
      moreover have "unat (rg_nextID (us_registry st) + 1) \<le> unat (rg_nextID (us_registry st)) + 1"
        using unat_word_ariths(1) [of "rg_nextID (us_registry st)" 1] by (simp add: mod_le_divisor)
      ultimately show ?thesis using forward_install_inv [OF inv2 inst] r Inr by (simp add: opened_def)
    qed
  qed
qed

lemma serve_inv:
  assumes "udp_inv (st, Idle)" "unat (rg_nextID (us_registry st)) + length rds < 2 ^ 64" "serve env rds st w = (res, st', w')"
  shows "udp_inv (st', Idle) \<and> others st' = others st \<and> rg_order (us_registry st') = rg_order (us_registry st)"
  using assms
proof (induction rds arbitrary: st w)
  case (Cons rd rds)
  obtain stop read where rd: "rd = (stop, read)" by fastforce
  show ?case
  proof (cases read)
    case (RelayData ca bytes)
    show ?thesis
    proof (cases "serve_accept ca bytes (us_assoc st)")
      case None
      then show ?thesis using Cons RelayData rd by (auto split: if_splits)
    next
      case (Some acc)
      obtain client packet a where acc: "acc = (client, packet, a)" by (metis prod_cases3)
      obtain st1 w1 where fw: "forward env client packet (st\<lparr>us_assoc := a\<rparr>) w = (st1, w1)" by fastforce
      have core: "udp_core st {}" using Cons.prems(1) by (simp add: udp_inv_Idle)
      obtain p where a: "a = (us_assoc st)\<lparr>ua_lockedPort := p\<rparr>" and c: "udp_core (st\<lparr>us_assoc := a\<rparr>) {}"
        using serve_accept_core [OF core Some [unfolded acc]] by blast
      have "udp_inv (st\<lparr>us_assoc := a\<rparr>, Idle)" using c Cons.prems(1) by (simp add: udp_inv_Idle a)
      moreover have "rg_nextID (us_registry st) + 1 \<noteq> 0"
      proof -
        have "unat (rg_nextID (us_registry st) + 1) = unat (rg_nextID (us_registry st)) + 1"
          using unat_word_ariths(1) [of "rg_nextID (us_registry st)" 1] Cons.prems(2) by simp
        then show ?thesis by auto
      qed
      ultimately have f: "udp_inv (st1, Idle)" "others st1 = others st" "rg_order (us_registry st1) = rg_order (us_registry st)"
        "unat (rg_nextID (us_registry st1)) \<le> unat (rg_nextID (us_registry st)) + 1"
        using forward_inv [OF _ _ fw] by (simp_all add: others_def flow_sessions_def a)
      show ?thesis
      proof (cases stop)
        case True
        then show ?thesis using Cons.prems rd by simp
      next
        case False
        then have "serve env rds st1 w1 = (res, st', w')" using Cons.prems(3) rd RelayData Some acc fw by simp
        then show ?thesis using Cons.IH [OF f(1)] f Cons.prems(2) by simp
      qed
    qed
  qed (use Cons rd in \<open>auto split: if_splits\<close>)
qed simp

lemma handleUDPAssociation_result:
  assumes "reg_inv r" "wf_table h" "sched_ok sched r" "unat (rg_nextID r) + length reads < 2 ^ 64"
    "handleUDPAssociation env listenUDP peer local channel sched h r host port timeout reads io w = ((started, err), Some st, io', w')"
  shows "started \<and> reg_inv (us_registry st) \<and> set (rg_connections (us_registry st)) = set (rg_connections r)
    \<and> (\<forall>f \<in> set (ua_objects (us_assoc st)). uf_done f) \<and> ua_closed (us_assoc st)
    \<and> wf_table (us_health st) \<and> sched_ok (us_sched st) (us_registry st) \<and> rg_order (us_registry st) = rg_order r"
proof -
  obtain op closes io1 where op: "open_association listenUDP peer local channel sched host port timeout io = (op, closes, io1)"
    by (metis prod_cases3)
  from assms(5) op obtain a where a: "op = Inr a" by (cases op) (auto simp: handleUDPAssociation_def)
  define st0 where "st0 = \<lparr>us_assoc = a, us_sched = sched, us_health = h, us_registry = r, us_closes = closes\<rparr>"
  obtain res st1 w1 where sv: "serve env reads st0 w = (res, st1, w1)" by (metis prod_cases3)
  have st: "started" "st = association_close st1"
    using assms(5) op a sv by (auto simp: handleUDPAssociation_def st0_def)
  have "ua_objects a = []" "ua_flows a = []" "\<not> ua_closed a"
    using op a by (auto simp: open_association_def Let_def split: option.splits if_splits prod.splits)
  then have inv0: "udp_inv (st0, Idle)" and o0: "others st0 = set (rg_connections r)"
    using assms(1-3) by (auto simp: udp_inv_Idle st0_def udp_core_def flow_sessions_def flow_map_ok_def others_def)
  have s1: "udp_inv (st1, Idle)" "others st1 = others st0" "rg_order (us_registry st1) = rg_order r"
    using serve_inv [OF inv0 _ sv] assms(4) by (simp_all add: st0_def)
  have inv: "udp_inv (st, Idle)" and cl: "ua_closed (us_assoc st)" and ot: "others st = others st1"
    and od: "rg_order (us_registry st) = rg_order (us_registry st1)"
  proof -
    show "udp_inv (st, Idle)" using udp_step_inv [OF s1(1) udp_close] st by simp
    show "ua_closed (us_assoc st)" "others st = others st1"
      "rg_order (us_registry st) = rg_order (us_registry st1)"
      using association_close_closed [of st1] s1(1) st by (cases "ua_closed (us_assoc st1)"; auto simp: udp_inv_Idle association_close_def)+
  qed
  have fin: "uf_done f \<and> uf_session f \<notin> set (rg_connections (us_registry st))" if f: "f \<in> set (ua_objects (us_assoc st))" for f
  proof -
    have "ua_flows (us_assoc st) = []" "flow_ok (us_registry st) f"
      using inv cl f by (auto simp: udp_inv_Idle udp_core_def)
    moreover have "uf_done f"
      using inv calculation(1) f by (fastforce simp: udp_inv_Idle udp_core_def flow_map_ok_def in_set_conv_nth)
    ultimately show ?thesis by (simp add: flow_ok_def)
  qed
  then have "others st = set (rg_connections (us_registry st))" by (auto simp: others_def flow_sessions_def)
  then show ?thesis using st inv cl ot od s1 o0 fin by (simp add: udp_inv_Idle udp_core_def)
qed

text \<open>
  A UDP association leaves nothing behind: whatever the client and the upstream servers
  send, when \<open>handleUDPAssociation\<close> returns after the association had started, every flow it
  ever opened is closed, the sessions in the registry are exactly those that were there
  before, and the registry is consistent.
\<close>

theorem handleUDPAssociation_cleans_up:
  assumes "reg_inv r" "wf_table h" "sched_ok sched r" "unat (rg_nextID r) + length reads < 2 ^ 64"
    "handleUDPAssociation env listenUDP peer local channel sched h r host port timeout reads io w = ((started, err), Some st, io', w')"
  shows "started \<and> reg_inv (us_registry st) \<and> set (rg_connections (us_registry st)) = set (rg_connections r)
    \<and> (\<forall>f \<in> set (ua_objects (us_assoc st)). uf_done f) \<and> ua_closed (us_assoc st)"
  using handleUDPAssociation_result [OF assms] by simp

section \<open>Idle flows\<close>

lemma receiveLoop_timeouts:
  "receiveLoop rw i (map (\<lambda>t. (t, FlowTimeout)) ts) st =
     (if \<exists>t \<in> set ts. ua_idleTimeout (us_assoc st) \<le> t - uf_lastActive (flow_of st i)
      then (False, flow_close i st) else (True, st))"
  by (induction ts) (auto simp: receive_step_def Let_def)

text \<open>
  C13. A flow without traffic ends: with the default settings, when the receive loop's reads
  time out every sweep interval and nothing is sent or received in between, the flow is
  closed after at most 24 rounds; and no flow is closed by a timeout before it has been idle
  for the full 120 seconds.
\<close>

theorem idle_flow_is_closed:
  assumes "ua_idleTimeout (us_assoc st) = defaultUDPFlowIdleTimeout" "length ts = 24"
    and "\<forall>k < 24. uf_lastActive (flow_of st i) + int (k + 1) * defaultUDPFlowSweepInterval \<le> ts ! k"
  shows "receiveLoop rw i (map (\<lambda>t. (t, FlowTimeout)) ts) st = (False, flow_close i st)
    \<and> (\<forall>us. (\<forall>u \<in> set us. u < uf_lastActive (flow_of st i) + 120 * Second) \<longrightarrow>
         receiveLoop rw i (map (\<lambda>t. (t, FlowTimeout)) us) st = (True, st))"
proof -
  have "ts ! 23 \<in> set ts" using assms(2) by simp
  moreover have "120 * Second \<le> ts ! 23 - uf_lastActive (flow_of st i)"
    using assms(3) by (auto simp: defaultUDPFlowSweepInterval_def dest: spec [of _ 23])
  ultimately have "receiveLoop rw i (map (\<lambda>t. (t, FlowTimeout)) ts) st = (False, flow_close i st)"
    using assms(1) by (auto simp: receiveLoop_timeouts defaultUDPFlowIdleTimeout_def)
  moreover have "receiveLoop rw i (map (\<lambda>t. (t, FlowTimeout)) us) st = (True, st)"
    if "\<forall>u \<in> set us. u < uf_lastActive (flow_of st i) + 120 * Second" for us
    using that assms(1) by (force simp: receiveLoop_timeouts defaultUDPFlowIdleTimeout_def)
  ultimately show ?thesis by blast
qed

section \<open>Examples\<close>

text \<open>A client at 127.0.0.1 sends one datagram to 8.8.4.4 on a direct channel and hangs up.\<close>

definition example_relay :: net_conn where
  "example_relay = \<lparr>nc_id = 9, nc_RemoteAddr = None, nc_LocalAddr = Some ''127.0.0.1:5000''\<rparr>"

definition example_datagram :: "byte list" where
  "example_datagram = [0, 0, 0, 1, 8, 8, 4, 4, 0, 53, 7]"

definition example_udp_env :: "nat proxy_env" where
  "example_udp_env =
     \<lparr>px_platform = OtherOS, px_now = (\<lambda>w. 1000), px_dial = (\<lambda>network d target w. (Inr example_conn, w)),
      px_write = (\<lambda>c bs w. ((length bs, None), w)), px_dns = undefined\<rparr>"

definition example_assoc :: udp_association where
  "example_assoc = \<lparr>ua_channel = ChannelDirect, ua_relay = example_relay, ua_allowedIP = [127, 0, 0, 1],
     ua_lockedPort = 0, ua_flowLimit = defaultUDPFlowLimit, ua_idleTimeout = defaultUDPFlowIdleTimeout,
     ua_timeout = 6 * Second, ua_objects = [], ua_flows = [], ua_closed = False\<rparr>"

definition example_udp_state :: udp_state where
  "example_udp_state = \<lparr>us_assoc = example_assoc, us_sched = None, us_health = newHealthTable [],
     us_registry = newRegistry 0 [], us_closes = []\<rparr>"

lemma example_udp_init: "udp_init (example_udp_state, Idle)"
  using newRegistry_inv [of "[]" 0] wf_newHealthTable
  by (simp add: udp_init_def example_udp_state_def example_assoc_def sched_ok_def newHealthTable_def)

lemma example_serve_accept:
  "\<exists>p. serve_accept (Some ([127, 0, 0, 1], 4000)) example_datagram example_assoc
     = Some (([127, 0, 0, 1], 4000), p, example_assoc\<lparr>ua_lockedPort := 4000\<rparr>) \<and> up_payload p = [7]"
proof -
  have "map_option up_payload (parseSOCKSUDPPacket example_datagram) = Some [7]" by code_simp
  then obtain p where "parseSOCKSUDPPacket example_datagram = Some p" "up_payload p = [7]" by auto
  then show ?thesis by (simp add: serve_accept_def example_assoc_def ip_equal_def)
qed

theorem association_invariant_witness:
  "\<exists>st. reach udp_init udp_step (st, Idle) \<and> ua_closed (us_assoc st) \<and> length (ua_flows (us_assoc st)) \<le> 256
     \<and> reg_inv (us_registry st)"
proof -
  let ?st = "association_close example_udp_state"
  have r: "reach udp_init udp_step (?st, Idle)"
    by (rule reach_step [of udp_init udp_step, OF reach_init [of udp_init, OF example_udp_init] udp_close])
  have "ua_closed (us_assoc ?st)" "ua_flowLimit (us_assoc ?st) = 256"
    by (simp_all add: association_close_def Let_def example_udp_state_def example_assoc_def close_conn_def defaultUDPFlowLimit_def)
  then show ?thesis using r association_invariant [OF r] by auto
qed

theorem association_single_client_witness:
  "\<exists>p. parseSOCKSUDPPacket example_datagram = Some p
     \<and> accepted [(Some ([127, 0, 0, 1], 0), example_datagram), (Some ([10, 0, 0, 1], 4000), example_datagram),
                 (Some ([127, 0, 0, 1], 4000), example_datagram), (Some ([127, 0, 0, 1], 0), example_datagram),
                 (Some ([127, 0, 0, 1], 4001), example_datagram), (Some ([127, 0, 0, 1], 4000), [])] example_assoc
       = ([(([127, 0, 0, 1], 0), p), (([127, 0, 0, 1], 4000), p)], example_assoc\<lparr>ua_lockedPort := 4000\<rparr>)"
proof -
  have bad: "parseSOCKSUDPPacket [] = None" by code_simp
  have "parseSOCKSUDPPacket example_datagram \<noteq> None" by code_simp
  then obtain p where "parseSOCKSUDPPacket example_datagram = Some p" by blast
  moreover have "\<not> ip_equal [10, 0, 0, 1] [127, 0, 0, 1]" "ip_equal [127, 0, 0, 1] [127, 0, 0, 1]" by code_simp+
  ultimately show ?thesis using bad unfolding association_single_client
    by (simp add: example_assoc_def)
qed

theorem idle_flow_is_closed_witness:
  "receiveLoop (\<lambda>p c. None) 0 (map (\<lambda>t. (t, FlowTimeout)) (map (\<lambda>k. int (k + 1) * (5 * Second)) [0..<24]))
     (example_udp_state\<lparr>us_assoc := example_assoc\<lparr>ua_objects :=
        [\<lparr>uf_target = ''8.8.4.4:53'', uf_adapter = None, uf_connection = example_conn, uf_session = 1,
          uf_lastActive = 0, uf_client = ([127, 0, 0, 1], 4000), uf_done = True\<rparr>]\<rparr>\<rparr>)
   = (False, example_udp_state\<lparr>us_assoc := example_assoc\<lparr>ua_objects :=
        [\<lparr>uf_target = ''8.8.4.4:53'', uf_adapter = None, uf_connection = example_conn, uf_session = 1,
          uf_lastActive = 0, uf_client = ([127, 0, 0, 1], 4000), uf_done = True\<rparr>]\<rparr>\<rparr>)"
proof -
  define st where "st = example_udp_state\<lparr>us_assoc := example_assoc\<lparr>ua_objects :=
        [\<lparr>uf_target = ''8.8.4.4:53'', uf_adapter = None, uf_connection = example_conn, uf_session = 1,
          uf_lastActive = 0, uf_client = ([127, 0, 0, 1], 4000), uf_done = True\<rparr>]\<rparr>\<rparr>"
  have "ua_idleTimeout (us_assoc st) = defaultUDPFlowIdleTimeout" "uf_lastActive (flow_of st 0) = 0" "uf_done (flow_of st 0)"
    by (simp_all add: st_def example_assoc_def flow_of_def)
  then show ?thesis
    using idle_flow_is_closed [of st "map (\<lambda>k. int (k + 1) * (5 * Second)) [0..<24]" 0 "\<lambda>p c. None"] flow_close_done [of st 0]
    unfolding st_def [symmetric] by (simp add: defaultUDPFlowSweepInterval_def)
qed

theorem handleUDPAssociation_cleans_up_witness:
  "\<exists>st io' w'. handleUDPAssociation example_udp_env (\<lambda>ip. Some (example_relay, ip, 50)) (Some [127, 0, 0, 1])
       (Some [127, 0, 0, 1]) ChannelDirect None (newHealthTable []) (newRegistry 0 []) ''0.0.0.0'' 0 (6 * Second)
       [(False, RelayData (Some ([127, 0, 0, 1], 40)) example_datagram), (True, RelayTimeout)]
       \<lparr>io_in = [], io_out = [], io_writes = 1\<rparr> 0 = ((True, False), Some st, io', w')
     \<and> length (ua_objects (us_assoc st)) = 1 \<and> (\<forall>f \<in> set (ua_objects (us_assoc st)). uf_done f)
     \<and> rg_connections (us_registry st) = []"
proof -
  let ?run = "handleUDPAssociation example_udp_env (\<lambda>ip. Some (example_relay, ip, 50)) (Some [127, 0, 0, 1])
       (Some [127, 0, 0, 1]) ChannelDirect None (newHealthTable []) (newRegistry 0 []) ''0.0.0.0'' 0 (6 * Second)
       [(False, RelayData (Some ([127, 0, 0, 1], 40)) example_datagram), (True, RelayTimeout)]
       \<lparr>io_in = [], io_out = [], io_writes = 1\<rparr> (0 :: nat)"
  have "fst ?run = (True, False) \<and> map_option (\<lambda>st. length (ua_objects (us_assoc st))) (fst (snd ?run)) = Some 1"
    by code_simp
  then obtain st io' w' where run: "?run = ((True, False), Some st, io', w')" "length (ua_objects (us_assoc st)) = 1"
    by (cases ?run) (auto simp: map_option_case split: option.splits)
  have "reg_inv (newRegistry 0 [])" "wf_table (newHealthTable [])" "sched_ok None (newRegistry 0 [])"
    using newRegistry_inv [of "[]" 0] wf_newHealthTable by (simp_all add: sched_ok_def newHealthTable_def)
  then show ?thesis using handleUDPAssociation_cleans_up [OF _ _ _ _ run(1)] run by (simp add: newRegistry_def)
qed

end
