(* ===== verification/Proxy_Server_Inv.thy ===== *)
theory Proxy_Server_Inv
  imports Proxy_Server Udp_Inv "HOL-Library.Multiset"
begin

text \<open>
  Properties of the proxy server of \<^theory_text>\<open>Proxy_Server\<close>: what the session handlers keep of the state
  and that they finish their session, that sessions stay on their channel, that listeners
  are never leaked, and that relayed bytes are counted exactly.
\<close>

section \<open>What the handlers keep\<close>

definition server_ok :: "server \<Rightarrow> bool" where
  "server_ok s \<longleftrightarrow> reg_inv (sv_registry s) \<and> wf_table (sv_health s) \<and> sched_ok (Some (sv_scheduler s)) (sv_registry s)
     \<and> (\<forall>ch sc. map_of (sv_schedulers s) ch = Some sc \<longrightarrow> sched_ok (Some sc) (sv_registry s))"

lemma wf_comparative_fold: "wf_table h \<Longrightarrow> wf_table (fold (\<lambda>n. recordComparativeDomainFailure now n d) ns h)"
  by (induction ns arbitrary: h) (simp_all add: wf_recordComparative)

lemma try_adapter_wf:
  assumes "try_adapter env timeout targetIP host port domain a x w = (c, x', w')" "wf_table (dx_health x)"
  shows "wf_table (dx_health x') \<and> dx_sched x' = dx_sched x"
  using assms
  by (auto simp: try_adapter_def Let_def wf_MarkFailure wf_MarkSuccess wf_comparative_fold
      split: prod.splits sum.splits if_splits option.splits)

lemma dial_loop_keeps:
  assumes "dial_loop env timeout tip host port domain n x w = (out, x', w')"
    "wf_table (dx_health x)" "distinct (map ad_Name (sc_adapters (dx_sched x)))"
  shows "wf_table (dx_health x') \<and> sc_adapters (dx_sched x') = sc_adapters (dx_sched x)"
  using assms
proof (induction n arbitrary: x w)
  case (Suc n)
  obtain r s h where sel: "SelectForDomain (px_now env w) (set (dx_excluded x)) domain (dx_sched x) (dx_health x) = (r, s, h)"
    by (metis prod_cases3)
  note sound = SelectForDomain_facts [OF Suc.prems(2,3) sel]
  show ?case
  proof (cases r)
    case None
    then show ?thesis using Suc.prems(1) sound sel by auto
  next
    case (Some a)
    define x1 where "x1 = x\<lparr>dx_sched := s, dx_health := h, dx_excluded := dx_excluded x @ [ad_Name a]\<rparr>"
    obtain c x2 w2 where t: "try_adapter env timeout tip host port domain a x1 w = (c, x2, w2)" by (metis prod_cases3)
    have x2: "wf_table (dx_health x2)" "sc_adapters (dx_sched x2) = sc_adapters (dx_sched x)"
      using try_adapter_wf [OF t] sound by (simp_all add: x1_def)
    show ?thesis
      using Suc.prems(1,3) Suc.IH [of x2 w2] x2 by (cases c) (auto simp: sel Some x1_def [symmetric] t)
  qed
qed simp

lemma dialUpstream_keeps:
  assumes "dialUpstream env timeout target lit s h rs w = (out, x', w')" "wf_table h" "distinct (map ad_Name (sc_adapters s))"
  shows "wf_table (dx_health x') \<and> sc_adapters (dx_sched x') = sc_adapters s"
  using assms dial_loop_keeps
  by (fastforce simp: dialUpstream_def Let_def dial_start_def split: option.splits prod.splits if_splits)

lemma dialUpstream_adapter:
  assumes "dialUpstream env timeout target lit s h rs w = (Inr (conn, a), x', w')" "wf_table h"
    "distinct (map ad_Name (sc_adapters s))"
  shows "a \<in> set (sc_adapters s) \<and> (\<exists>host port. split_host_port target = Some (host, port)
     \<and> (lit \<longrightarrow> parse_ip host \<noteq> None)
     \<and> (\<forall>ip. parse_ip host = Some ip \<longrightarrow> adapterSupportsNetwork a (networkForIP ''tcp'' ip)))"
proof -
  obtain host port where hp: "split_host_port target = Some (host, port)" and lit: "\<not> (lit \<and> parse_ip host = None)"
    using assms(1) by (auto simp: dialUpstream_def Let_def split: option.splits if_splits)
  define x where "x = dial_start s h rs (parse_ip host)"
  define domain where "domain = (if parse_ip host = None then normalizeDomain host else [])"
  define n where "n = dial_attempts (sc_adapters s) (dx_excluded x)"
  obtain o1 x1 w1 where l: "dial_loop env timeout (parse_ip host) host port domain n x w = (o1, x1, w1)"
    by (metis prod_cases3)
  have x: "dx_sched x = s" "dx_health x = h" by (simp_all add: x_def dial_start_def)
  obtain tried where tr: "loop_result (sc_adapters s) x o1 x1 tried"
    using dial_loop_result [OF l] assms(2,3) x by auto
  have "dialUpstream env timeout target lit s h rs w
      = (case o1 of Some ok \<Rightarrow> (Inr ok, x1, w1)
         | None \<Rightarrow> (Inl (if dx_failures x1 = [] then NoAdapterAvailable else AllFailed (dx_failures x1)), x1, w1))"
    unfolding dialUpstream_def hp using lit l
    by (auto simp: Let_def x_def [symmetric] domain_def n_def split: option.splits)
  then have o: "o1 = Some (conn, a)" using assms(1) by (auto split: option.splits)
  then have a: "a \<in> set (sc_adapters s)" "tried \<noteq> []" "last tried = ad_Name a" using tr by (auto simp: loop_result_def)
  have "adapterSupportsNetwork a (networkForIP ''tcp'' ip)" if "parse_ip host = Some ip" for ip
  proof (rule ccontr)
    assume "\<not> ?thesis"
    then have "ad_Name a \<in> set (dx_excluded x)" using that a(1) by (auto simp: x_def dial_start_def initial_excluded_set)
    moreover have "ad_Name a \<in> set tried" using a last_in_set by metis
    ultimately show False using tr by (auto simp: loop_result_def)
  qed
  then show ?thesis using a hp lit by auto
qed

lemma sched_ok_cong: "sc_adapters a = sc_adapters b \<Longrightarrow> rg_order r = rg_order r' \<Longrightarrow> sched_ok (Some a) r = sched_ok (Some b) r'"
  by (simp add: sched_ok_def)

lemma scheduler_for_ok: "server_ok s \<Longrightarrow> scheduler_for s ch = Some sc \<Longrightarrow> sched_ok (Some sc) (sv_registry s)"
  by (auto simp: server_ok_def scheduler_for_def split: if_splits)

lemma server_ok_put_scheduler:
  "server_ok s \<Longrightarrow> sched_ok (Some sc) (sv_registry s) \<Longrightarrow> server_ok (put_scheduler ch sc s)"
  by (auto simp: server_ok_def put_scheduler_def update_conv' split: if_splits)

lemma server_ok_registry:
  "server_ok s \<Longrightarrow> reg_inv r \<Longrightarrow> rg_order r = rg_order (sv_registry s) \<Longrightarrow> server_ok (s\<lparr>sv_registry := r\<rparr>)"
  by (auto simp: server_ok_def sched_ok_def)

lemma put_scheduler_simps [simp]:
  "sv_registry (put_scheduler ch sc s) = sv_registry s" "sv_config (put_scheduler ch sc s) = sv_config s"
  by (simp_all add: put_scheduler_def)

text \<open>\<open>kept sid s s'\<close>: the state is sound and the live sessions are the same.\<close>

definition kept :: "server \<Rightarrow> server \<Rightarrow> bool" where
  "kept s s' \<longleftrightarrow> server_ok s' \<and> set (rg_connections (sv_registry s')) = set (rg_connections (sv_registry s))"

lemma close_upstream_registry [simp]: "sv_registry (close_upstream c s) = sv_registry s"
  by (simp add: close_upstream_def)

lemma server_ok_close_upstream [simp]: "server_ok (close_upstream c s) = server_ok s" "kept s0 (close_upstream c s) = kept s0 s"
  by (simp_all add: server_ok_def close_upstream_def kept_def)

lemma connect_kept:
  assumes ok: "server_ok s" and live: "sid \<in> set (rg_connections (sv_registry s))"
    and c: "session_of (sv_registry s) sid = Some c" "\<not> attached c"
    and run: "connect env sid target s w = (res, s', w')"
  shows "kept s s' \<and> (\<forall>u a. res = Inr (u, a) \<longrightarrow> attached_session (sv_registry s') sid)"
proof (cases "session_channel s sid = ChannelDirect")
  case True
  let ?r = "sv_registry s"
  have reg: "reg_inv ?r" using ok by (simp add: server_ok_def)
  have "reg_inv (AttachDirect sid u target ?r)" for u
    using AttachDirect_inv [OF reg live c] .
  moreover have "attached_session (AttachDirect sid u target ?r) sid" for u
    using c by (simp add: attached_session_def AttachDirect_def session_of_set_session attached_def)
  ultimately show ?thesis
    using run True ok server_ok_registry [OF ok]
    by (auto simp: connect_def kept_def split: sum.splits prod.splits)
next
  case False
  let ?ch = "session_channel s sid"
  show ?thesis
  proof (cases "scheduler_for s ?ch")
    case None
    then show ?thesis using run False ok by (auto simp: connect_def kept_def)
  next
    case (Some sc)
    obtain out x w1 where d: "dialUpstream env (cf_ConnectTimeout (sv_config s)) target (?ch \<noteq> []) sc (sv_health s)
        (sv_resolver s) w = (out, x, w1)" by (metis prod_cases3)
    have sk: "sched_ok (Some sc) (sv_registry s)" using scheduler_for_ok [OF ok Some] .
    have wf: "wf_table (sv_health s)" and reg: "reg_inv (sv_registry s)" using ok by (simp_all add: server_ok_def)
    have dist: "distinct (map ad_Name (sc_adapters sc))" using sk by (simp add: sched_ok_def)
    note k = dialUpstream_keeps [OF d wf dist]
    define s1 where "s1 = put_scheduler ?ch (dx_sched x) (s\<lparr>sv_health := dx_health x, sv_resolver := dx_resolver x\<rparr>)"
    have ok1: "server_ok s1" unfolding s1_def
      using ok k sk by (intro server_ok_put_scheduler) (auto simp: server_ok_def sched_ok_def)
    have r1: "sv_registry s1 = sv_registry s" by (simp add: s1_def)
    show ?thesis
    proof (cases out)
      case (Inl e)
      then have "s' = s1" "isl res" using run False Some d by (auto simp: connect_def Let_def s1_def)
      then show ?thesis using ok1 r1 by (auto simp: kept_def)
    next
      case (Inr ua)
      obtain u a where ua: "ua = (u, a)" by fastforce
      have s': "s' = s1\<lparr>sv_registry := Attach sid u target a (sv_registry s)\<rparr>"
        using run False Some d Inr ua by (auto simp: connect_def Let_def s1_def)
      have "a \<in> set (sc_adapters sc)" using dialUpstream_adapter [OF d [unfolded Inr ua] wf dist] by blast
      then have known: "ad_Name a \<in> set (rg_order (sv_registry s))" using sk by (auto simp: sched_ok_def)
      have ne: "ad_Name a \<noteq> []" using known reg by (auto simp: reg_inv_def reg_shape_def)
      have "reg_inv (Attach sid u target a (sv_registry s))" using Attach_inv [OF reg live c known] .
      moreover have "attached_session (Attach sid u target a (sv_registry s)) sid"
        using c ne by (simp add: attached_session_def Attach_def session_of_set_session attached_def)
      ultimately show ?thesis
        using server_ok_registry [OF ok1, of "Attach sid u target a (sv_registry s)"] r1 by (simp add: s' kept_def)
    qed
  qed
qed

lemma accounting_write_moves:
  assumes "\<And>n. reg_moves {} r (f n r)"
  shows "reg_moves {} r (accounting_write f n r)"
  using assms by (simp add: accounting_write_def)

lemma relay_copy_moves:
  "reg_inv r \<Longrightarrow> attached_session r sid \<Longrightarrow> reg_moves {} r (relay_copy sid u d es r)"
proof (induction es arbitrary: u d r)
  case (Cons e es)
  obtain up len written err where e: "e = (up, len, written, err)" by (metis prod_cases4)
  define r1 where "r1 = accounting_write (if up then AddUp sid else AddDown sid) written r"
  have m: "reg_moves {} r r1" unfolding r1_def
    using AddUp_moves [OF Cons.prems(2)] AddDown_moves [OF Cons.prems(2)] by (intro accounting_write_moves) simp
  then have "reg_inv r1" "attached_session r1 sid" using Cons.prems by (simp_all add: reg_moves_def)
  then have "reg_moves {} r1 (relay_copy sid u' d' es r1)" for u' d' by (rule Cons.IH)
  then show ?case
    using reg_moves_trans [OF m] Cons.IH [OF Cons.prems] by (simp add: e Let_def r1_def [symmetric])
qed simp

lemma kept_trans: "kept s s1 \<Longrightarrow> kept s1 s2 \<Longrightarrow> kept s s2" by (simp add: kept_def)

lemma kept_refl: "server_ok s \<Longrightarrow> kept s s" by (simp add: kept_def)

lemma relay_kept:
  assumes "server_ok s" "attached_session (sv_registry s) sid"
  shows "kept s (relay sid u es s)"
proof -
  have "reg_moves {} (sv_registry s) (relay_copy sid True True es (sv_registry s))"
    using assms by (intro relay_copy_moves) (auto simp: server_ok_def)
  then show ?thesis
    using assms server_ok_registry [OF assms(1)] by (auto simp: relay_def kept_def reg_moves_def server_ok_def [of s])
qed

lemma run_association_kept:
  assumes ok: "server_ok s" and ids: "unat (rg_nextID (sv_registry s)) + length (ss_reads script) < 2 ^ 64"
    and run: "run_association env script channel host port io s w = (res, io', s', w')"
  shows "kept s s'"
proof -
  obtain res1 st io1 w1 where h: "handleUDPAssociation (se_proxy env) (se_listenUDP env) (ss_peer script) (ss_local script)
      channel (map_of (sv_schedulers s) channel) (sv_health s) (sv_registry s) host (int port)
      (cf_ConnectTimeout (sv_config s)) (ss_reads script) io w = (res1, st, io1, w1)" by (metis prod_cases4)
  show ?thesis
  proof (cases st)
    case None
    then show ?thesis using run h ok by (simp add: run_association_def kept_refl)
  next
    case (Some u)
    obtain started err where r1: "res1 = (started, err)" by fastforce
    have "sched_ok (map_of (sv_schedulers s) channel) (sv_registry s)"
      using ok by (cases "map_of (sv_schedulers s) channel") (auto simp: server_ok_def sched_ok_def)
    then have u: "reg_inv (us_registry u)" "set (rg_connections (us_registry u)) = set (rg_connections (sv_registry s))"
      "wf_table (us_health u)" "sched_ok (us_sched u) (us_registry u)" "rg_order (us_registry u) = rg_order (sv_registry s)"
      using handleUDPAssociation_result [OF _ _ _ ids h [unfolded Some r1]] ok by (simp_all add: server_ok_def)
    define s1 where "s1 = s\<lparr>sv_health := us_health u, sv_registry := us_registry u, sv_closes := sv_closes s @ us_closes u\<rparr>"
    have "server_ok s1" using ok u by (auto simp: s1_def server_ok_def sched_ok_def)
    moreover have "s' = (case us_sched u of None \<Rightarrow> s1 | Some sc \<Rightarrow> s1\<lparr>sv_schedulers := AList.update channel sc (sv_schedulers s1)\<rparr>)"
      using run h Some by (auto simp: run_association_def s1_def Let_def split: option.splits)
    ultimately show ?thesis
      using u by (auto simp: kept_def s1_def server_ok_def update_conv' split: option.splits)
  qed
qed

lemma handleSOCKS_kept:
  assumes ok: "server_ok s" and live: "sid \<in> set (rg_connections (sv_registry s))"
    and c: "session_of (sv_registry s) sid = Some c" "\<not> attached c"
    and ids: "unat (rg_nextID (sv_registry s)) + length (ss_reads script) < 2 ^ 64"
    and run: "handleSOCKS env script sid io s w = (io', s', w')"
  shows "kept s s'"
proof -
  obtain act io1 where hs: "socks_handshake (session_channel s sid) io = (act, io1)" by fastforce
  show ?thesis
  proof (cases act)
    case SocksEnd
    then show ?thesis using run hs ok by (simp add: handleSOCKS_def kept_refl)
  next
    case (SocksUDP host port)
    obtain res io2 s2 w2 where ra: "run_association env script (session_channel s sid) host port io1 s w = (res, io2, s2, w2)"
      by (metis prod_cases4)
    then have "s' = s2" using run hs SocksUDP by (simp add: handleSOCKS_def split: prod.splits)
    then show ?thesis using run_association_kept [OF ok ids ra] by simp
  next
    case (SocksConnect host port)
    obtain res s2 w2 where cn: "connect (se_proxy env) sid (join_host_port host (nat_str port)) s w = (res, s2, w2)"
      by (metis prod_cases3)
    note k = connect_kept [OF ok live c cn]
    show ?thesis
    proof (cases res)
      case (Inl e)
      then have "s' = s2" using run hs SocksConnect cn by (simp add: handleSOCKS_def)
      then show ?thesis using k by simp
    next
      case (Inr ua)
      obtain u a where ua: "ua = (u, a)" by fastforce
      have "kept s2 (relay sid u (ss_copies script) s2)"
        using k Inr ua by (intro relay_kept) (auto simp: kept_def)
      moreover have "s' = close_upstream u s2 \<or> s' = relay sid u (ss_copies script) s2"
        using run hs SocksConnect cn Inr ua by (auto simp: handleSOCKS_def Let_def split: prod.splits if_splits)
      ultimately show ?thesis using k kept_trans by auto
    qed
  qed
qed

lemma handleHTTP_kept:
  assumes ok: "server_ok s" and live: "sid \<in> set (rg_connections (sv_registry s))"
    and c: "session_of (sv_registry s) sid = Some c" "\<not> attached c"
    and run: "handleHTTP env script sid io s w = (io', s', w')"
  shows "kept s s'"
proof (cases "\<exists>header io1 request. readHTTPHeader io = Inr (header, io1) \<and> parseProxyRequest (se_parse_url env) header = Inr request")
  case False
  then have "s' = s" using run by (auto simp: handleHTTP_def split: sum.splits)
  then show ?thesis using ok by (simp add: kept_refl)
next
  case True
  then obtain header io1 request where p: "readHTTPHeader io = Inr (header, io1)"
    "parseProxyRequest (se_parse_url env) header = Inr request" by blast
  obtain res s2 w2 where cn: "connect (se_proxy env) sid (join_host_port (pr_host request) (itoa (pr_port request))) s w
      = (res, s2, w2)" by (metis prod_cases3)
  note k = connect_kept [OF ok live c cn]
  show ?thesis
  proof (cases res)
    case (Inl e)
    then have "s' = s2" using run p cn by (simp add: handleHTTP_def)
    then show ?thesis using k by simp
  next
    case (Inr ua)
    obtain u a where ua: "ua = (u, a)" by fastforce
    have "kept s2 (relay sid u (ss_copies script) s2)"
      using k Inr ua by (intro relay_kept) (auto simp: kept_def)
    moreover have "s' = close_upstream u s2 \<or> s' = relay sid u (ss_copies script) s2"
      using run p cn Inr ua by (auto simp: handleHTTP_def Let_def split: prod.splits if_splits)
    ultimately show ?thesis using k kept_trans by auto
  qed
qed

text \<open>
  C7. Whatever a client sends, over SOCKS5 or HTTP, and however the upstream side behaves, handling
  the client ends with its session finished: the live sessions are the ones before without
  this one, UDP flows of the session included; the traffic books stay balanced; and the
  health table and the schedulers stay well formed.
\<close>

theorem handleClient_finishes_session:
  assumes "server_ok s" "sid \<in> set (rg_connections (sv_registry s))"
    "session_of (sv_registry s) sid = Some c" "\<not> attached c"
    "unat (rg_nextID (sv_registry s)) + length (ss_reads script) < 2 ^ 64"
    "handleClient env script protocol client sid io s w = (io', s', w')"
  shows "server_ok s'
    \<and> set (rg_connections (sv_registry s')) = set (rg_connections (sv_registry s)) - {sid}"
proof -
  obtain io1 s1 w1 where h: "(if protocol = ''socks5'' then handleSOCKS env script sid io s w
      else handleHTTP env script sid io s w) = (io1, s1, w1)" by (metis prod_cases3)
  have k: "kept s s1"
    using h handleSOCKS_kept [OF assms(1-5)] handleHTTP_kept [OF assms(1-4)] by (auto split: if_splits)
  have s': "s' = close_upstream client (s1\<lparr>sv_registry := Finish sid (sv_registry s1)\<rparr>)"
    using assms(6) h by (simp add: handleClient_def)
  have live: "sid \<in> set (rg_connections (sv_registry s1))" using k assms(2) by (simp add: kept_def)
  then have "reg_inv (Finish sid (sv_registry s1))" using k Finish_inv by (auto simp: kept_def server_ok_def)
  then show ?thesis
    using k server_ok_registry [of s1 "Finish sid (sv_registry s1)"] Finish_connections [of sid "sv_registry s1"]
    by (simp add: s' kept_def)
qed

section \<open>Channels\<close>

definition channels_ok :: "server \<Rightarrow> bool" where
  "channels_ok s \<longleftrightarrow> (\<forall>ch sc. map_of (sv_schedulers s) ch = Some sc \<longrightarrow>
     (\<exists>c \<in> set (cf_Channels (sv_config s)). chn_Name c = ch
        \<and> sc_adapters sc = adaptersForChannel (cf_Adapters (sv_config s)) c))"

lemma channel_schedulers_spec:
  assumes "map_of (channel_schedulers c) ch = Some sc"
  shows "\<exists>x \<in> set (cf_Channels c). chn_Name x = ch \<and> ch \<noteq> ChannelDirect
     \<and> sc = newScheduler (adaptersForChannel (cf_Adapters c) x) (cf_Weighted c)"
proof -
  let ?step = "\<lambda>x m. if chn_Name x = ChannelDirect then m
     else AList.update (chn_Name x) (newScheduler (adaptersForChannel (cf_Adapters c) x) (cf_Weighted c)) m"
  have "map_of (fold ?step chs m) ch = Some sc \<Longrightarrow> map_of m ch = Some sc \<or> (\<exists>x \<in> set chs. chn_Name x = ch \<and> ch \<noteq> ChannelDirect
     \<and> sc = newScheduler (adaptersForChannel (cf_Adapters c) x) (cf_Weighted c))" for chs m
    by (induction chs arbitrary: m) (fastforce simp: update_conv' split: if_splits)+
  from this [of "cf_Channels c" "[]"] show ?thesis using assms by (simp add: channel_schedulers_def)
qed

lemma New_channels_ok: "New now config = Inr s \<Longrightarrow> channels_ok s"
  using channel_schedulers_spec by (fastforce simp: New_def channels_ok_def newScheduler_def split: sum.splits)

text \<open>
  C8. A session stays on its channel: a connection opened for a session of the direct channel
  uses no adapter and no scheduler; a connection opened for a session of another channel uses
  an adapter that the channel's configuration lists, only to a literal address, and one for
  which the adapter has a source address of the right family.
\<close>

theorem connect_respects_channel:
  assumes "server_ok s" "channels_ok s" "connect env sid target s w = (Inr (upstream, used), s', w')"
  defines "ch \<equiv> session_channel s sid"
  shows "channels_ok s' \<and> (ch = ChannelDirect \<longrightarrow> used = None \<and> sv_health s' = sv_health s \<and> sv_schedulers s' = sv_schedulers s)
    \<and> (ch \<noteq> ChannelDirect \<and> ch \<noteq> [] \<longrightarrow>
        (\<exists>a c host port ip. used = Some a \<and> c \<in> set (cf_Channels (sv_config s)) \<and> chn_Name c = ch
          \<and> a \<in> set (cf_Adapters (sv_config s)) \<and> ad_Name a \<in> set (chn_AdapterNames c)
          \<and> split_host_port target = Some (host, port) \<and> parse_ip host = Some ip
          \<and> adapterSupportsNetwork a (networkForIP ''tcp'' ip)))"
proof (cases "ch = ChannelDirect")
  case True
  then show ?thesis
    using assms(2,3) by (auto simp: connect_def ch_def channels_ok_def channel_defs split: sum.splits prod.splits)
next
  case False
  obtain sc where sc: "scheduler_for s ch = Some sc"
    using assms(3) False by (auto simp: connect_def ch_def [symmetric] Let_def split: option.splits)
  obtain out x w1 where d: "dialUpstream env (cf_ConnectTimeout (sv_config s)) target (ch \<noteq> []) sc (sv_health s)
      (sv_resolver s) w = (out, x, w1)" by (metis prod_cases3)
  have wf: "wf_table (sv_health s)" and dist: "distinct (map ad_Name (sc_adapters sc))"
    using assms(1) scheduler_for_ok [OF assms(1) sc] by (simp_all add: server_ok_def sched_ok_def)
  obtain a where out: "out = Inr (upstream, a)" "used = Some a"
    and s': "sv_config s' = sv_config s"
      "sv_schedulers s' = (if ch = [] then sv_schedulers s else AList.update ch (dx_sched x) (sv_schedulers s))"
    using assms(3) False sc d
    by (auto simp: connect_def ch_def [symmetric] Let_def put_scheduler_def split: sum.splits prod.splits)
  note ad = dialUpstream_adapter [OF d [unfolded out] wf dist]
  have "channels_ok s'"
    using assms(2) s' sc dialUpstream_keeps [OF d wf dist]
    by (auto simp: channels_ok_def scheduler_for_def update_conv')
  moreover have "\<exists>a c host port ip. used = Some a \<and> c \<in> set (cf_Channels (sv_config s)) \<and> chn_Name c = ch
          \<and> a \<in> set (cf_Adapters (sv_config s)) \<and> ad_Name a \<in> set (chn_AdapterNames c)
          \<and> split_host_port target = Some (host, port) \<and> parse_ip host = Some ip
          \<and> adapterSupportsNetwork a (networkForIP ''tcp'' ip)" if ne: "ch \<noteq> []"
  proof -
    obtain c where c: "c \<in> set (cf_Channels (sv_config s))" "chn_Name c = ch"
      "sc_adapters sc = adaptersForChannel (cf_Adapters (sv_config s)) c"
      using sc ne assms(2) by (auto simp: scheduler_for_def channels_ok_def)
    then show ?thesis using ad ne out(2) by (auto simp: adaptersForChannel_def)
  qed
  ultimately show ?thesis using False by blast
qed

section \<open>Starting and stopping never leak a listener\<close>

lemma listen_channels_spec:
  assumes "listen_channels env host chs ls eps w = (res, ls', w')" "distinct (map chn_Name chs)"
  shows "\<exists>new. ls' = ls @ new \<and> (\<forall>eps'. res = Inr eps' \<longrightarrow> length new = length chs
     \<and> (\<forall>k < length chs. map_of eps' (chn_Name (chs ! k)) = Some (ln_Addr (new ! k)))
     \<and> (\<forall>n. n \<notin> chn_Name ` set chs \<longrightarrow> map_of eps' n = map_of eps n))"
  using assms
proof (induction chs arbitrary: ls eps w)
  case (Cons ch chs)
  obtain l w1 where l: "listen_channel env host ch w = (l, w1)" by fastforce
  have step: "listen_channels env host (ch # chs) ls eps w = (case l of
      None \<Rightarrow> (Inl (chn_Name ch), ls, w1)
    | Some l \<Rightarrow> listen_channels env host chs (ls @ [l]) (AList.update (chn_Name ch) (ln_Addr l) eps) w1)"
    by (simp add: l split: option.splits)
  show ?case
  proof (cases l)
    case None
    then show ?thesis using Cons.prems(1) step by auto
  next
    case (Some x)
    have rec: "listen_channels env host chs (ls @ [x]) (AList.update (chn_Name ch) (ln_Addr x) eps) w1 = (res, ls', w')"
      using Cons.prems(1) step Some by simp
    have dist: "distinct (map chn_Name chs)" using Cons.prems(2) by simp
    obtain new where new: "ls' = (ls @ [x]) @ new" and ok: "\<And>eps'. res = Inr eps' \<Longrightarrow> length new = length chs
       \<and> (\<forall>k < length chs. map_of eps' (chn_Name (chs ! k)) = Some (ln_Addr (new ! k)))
       \<and> (\<forall>n. n \<notin> chn_Name ` set chs \<longrightarrow> map_of eps' n = map_of (AList.update (chn_Name ch) (ln_Addr x) eps) n)"
      using Cons.IH [OF rec dist] by blast
    have "map_of eps' (chn_Name ((ch # chs) ! k)) = Some (ln_Addr ((x # new) ! k))"
      if "res = Inr eps'" "k < length (ch # chs)" for eps' k
      using ok [OF that(1)] that(2) Cons.prems(2) by (cases k) (auto simp: update_conv')
    then show ?thesis using new ok by (intro exI [of _ "x # new"]) (auto simp: update_conv')
  qed
qed auto

lemma listen_channels_total:
  assumes "\<And>a w. fst (se_listenTCP env a w) \<noteq> None"
  shows "\<not> isl (fst (listen_channels env host chs ls eps w))"
proof (induction chs arbitrary: ls eps w)
  case (Cons ch chs)
  have "fst (listen_channel env host ch w) \<noteq> None"
    using assms by (auto simp: listen_channel_def Let_def case_prod_beta)
  then show ?case using Cons.IH by (auto split: prod.splits option.splits)
qed simp

definition listening_ok :: "server \<Rightarrow> bool" where
  "listening_ok s \<longleftrightarrow>
     (if cf_Channels (sv_config s) = [] then
        \<exists>a b. sv_listeners s = [a, b] \<and> sv_endpoints s = \<lparr>en_SOCKS = ln_Addr a, en_HTTP = ln_Addr b, en_Channels = []\<rparr>
      else length (sv_listeners s) = length (cf_Channels (sv_config s))
        \<and> (\<forall>k < length (sv_listeners s). map_of (en_Channels (sv_endpoints s)) (chn_Name (cf_Channels (sv_config s) ! k))
             = Some (ln_Addr (sv_listeners s ! k))))"

definition lifecycle_inv :: "server \<Rightarrow> bool" where
  "lifecycle_inv s \<longleftrightarrow>
     distinct (map chn_Name (cf_Channels (sv_config s)))
     \<and> mset (sv_opened s) = mset (sv_closed s) + mset (sv_listeners s)
     \<and> (sv_running s \<longrightarrow> \<not> sv_cancelled s \<and> listening_ok s) \<and> (\<not> sv_running s \<longrightarrow> sv_listeners s = [])"

text \<open>What a caller does with a server: start it, stop it, and anything that leaves its listeners alone.\<close>

definition same_lifecycle :: "server \<Rightarrow> server \<Rightarrow> bool" where
  "same_lifecycle s s' \<longleftrightarrow> sv_config s' = sv_config s \<and> sv_cancelled s' = sv_cancelled s \<and> sv_listeners s' = sv_listeners s
     \<and> sv_endpoints s' = sv_endpoints s \<and> sv_running s' = sv_running s \<and> sv_opened s' = sv_opened s \<and> sv_closed s' = sv_closed s"

datatype server_event = ServerStart | ServerStop | ServerUse

inductive server_step :: "server \<Rightarrow> server_event \<Rightarrow> server \<Rightarrow> bool" where
  server_start: "Start env s (w :: nat) = (res, s', w') \<Longrightarrow> server_step s ServerStart s'"
| server_stop: "Stop close_error drained s = (res, s') \<Longrightarrow> server_step s ServerStop s'"
| server_use: "same_lifecycle s s' \<Longrightarrow> server_step s ServerUse s'"

definition server_init :: "server \<Rightarrow> bool" where
  "server_init s \<longleftrightarrow> (\<exists>now config. New now config = Inr s)"

lemma New_wf:
  assumes "New now config = Inr s"
  shows "wf_config now (sv_config s)" "lifecycle_inv s" "server_ok s"
proof -
  obtain c where c: "normalizeConfig now config = Inr c" using assms by (auto simp: New_def split: sum.splits)
  then have cs: "sv_config s = c" using assms by (auto simp: New_def)
  show wf: "wf_config now (sv_config s)" using normalizeConfig_accepts [OF c] cs by simp
  then show "lifecycle_inv s"
    using assms by (auto simp: New_def lifecycle_inv_def wf_config_def wf_channels_def split: sum.splits)
  have as: "distinct (map ad_Name (cf_Adapters c))" "[] \<notin> ad_Name ` set (cf_Adapters c)"
    using wf cs by (auto simp: wf_config_def wf_adapters_def wf_adapter_def list_all_iff)
  have "sched_ok (Some sc) (newRegistry now (cf_Adapters c))" if m: "map_of (channel_schedulers c) ch = Some sc" for ch sc
  proof -
    obtain x where "sc = newScheduler (adaptersForChannel (cf_Adapters c) x) (cf_Weighted c)"
      using channel_schedulers_spec [OF m] by blast
    then show ?thesis
      using as(1) by (auto simp: sched_ok_def newScheduler_def newRegistry_def adaptersForChannel_def distinct_map_filter)
  qed
  moreover have "sched_ok (Some (newScheduler (cf_Adapters c) b)) (newRegistry now (cf_Adapters c))" for b
    using as(1) by (auto simp: sched_ok_def newScheduler_def newRegistry_def)
  ultimately show "server_ok s"
    using assms c newRegistry_inv [OF as, of now] wf_newHealthTable by (auto simp: New_def server_ok_def)
qed

lemma New_registry: "New now config = Inr s \<Longrightarrow> sv_registry s = newRegistry now (cf_Adapters (sv_config s))"
  by (auto simp: New_def split: sum.splits)

lemma Start_inv:
  assumes inv: "lifecycle_inv s" and run: "Start env s w = (res, s', w')"
  shows "lifecycle_inv s'"
proof (cases "sv_running s \<or> isl (new_resolver (cf_DNS (sv_config s)) True)")
  case True
  then show ?thesis
    using inv run by (auto simp: Start_def Let_def lifecycle_inv_def listening_ok_def split: sum.splits if_splits)
next
  case False
  then obtain r where r: "new_resolver (cf_DNS (sv_config s)) True = Inr r" and nr: "\<not> sv_running s"
    by (cases "new_resolver (cf_DNS (sv_config s)) True") auto
  have base: "mset (sv_opened s) = mset (sv_closed s)" "distinct (map chn_Name (cf_Channels (sv_config s)))" "sv_listeners s = []"
    using inv nr by (auto simp: lifecycle_inv_def)
  show ?thesis
  proof (cases "cf_Channels (sv_config s) = []")
    case True
    then show ?thesis
      using run r nr base
      by (auto simp: Start_def Let_def lifecycle_inv_def listening_ok_def split: option.splits prod.splits)
  next
    case False
    define s1 where "s1 = s\<lparr>sv_cancelled := False, sv_resolver := Some (SetFallbackHandler (sv_dnsFallbackHandler s) r)\<rparr>"
    have st: "startChannelListeners env s1 w = (res, s', w')"
      using run r nr False by (simp add: Start_def Let_def s1_def)
    obtain out ls w1 where l: "listen_channels env (cf_ListenHost (sv_config s)) (cf_Channels (sv_config s)) [] [] w = (out, ls, w1)"
      by (metis prod_cases3)
    have "\<forall>eps'. out = Inr eps' \<longrightarrow> length ls = length (cf_Channels (sv_config s))
       \<and> (\<forall>k < length (cf_Channels (sv_config s)). map_of eps' (chn_Name (cf_Channels (sv_config s) ! k)) = Some (ln_Addr (ls ! k)))"
      using listen_channels_spec [OF l base(2)] by auto
    then show ?thesis
      using st l base nr False
      by (auto simp: startChannelListeners_def Let_def s1_def lifecycle_inv_def listening_ok_def split: sum.splits)
  qed
qed

interpretation proxy: invariant_system server_init server_step lifecycle_inv
proof
  show "lifecycle_inv s" if "server_init s" for s
    using that New_wf(2) by (auto simp: server_init_def)
  show "lifecycle_inv s'" if "lifecycle_inv s" "server_step s e s'" for s e s'
    using that(2,1)
  proof cases
    case (server_start env w res w')
    show ?thesis using Start_inv [OF that(1) server_start(2)] .
  next
    case (server_stop close_error drained res)
    then show ?thesis using that(1) by (auto simp: Stop_def Let_def lifecycle_inv_def split: if_splits)
  next
    case server_use
    then show ?thesis using that(1) by (simp add: same_lifecycle_def lifecycle_inv_def listening_ok_def)
  qed
qed

text \<open>
  C9. No listener is ever leaked: after any sequence of starts, failed starts, stops and use of
  the server, the listeners opened so far are exactly those closed so far and those the
  server still holds; it holds listeners only while it runs; and while it runs, its
  context is alive and every endpoint it reports is the address of a listener it holds, one
  for each configured channel.
\<close>

theorem server_never_leaks_listeners:
  assumes "reach server_init server_step s"
  shows "mset (sv_opened s) = mset (sv_closed s) + mset (sv_listeners s)
    \<and> (\<not> sv_running s \<longrightarrow> sv_listeners s = []) \<and> (sv_running s \<longrightarrow> \<not> sv_cancelled s \<and> listening_ok s)"
  using proxy.reach_inv [OF assms] by (simp add: lifecycle_inv_def)

section \<open>Accounting of relayed traffic\<close>

text \<open>The bytes written in one direction until it ends.\<close>

fun relayed :: "bool \<Rightarrow> bool \<Rightarrow> copy_event list \<Rightarrow> nat" where
  "relayed dir open_dir [] = 0"
| "relayed dir open_dir ((up, len, written, err) # es) =
     (if up = dir \<and> open_dir then written + relayed dir (\<not> (err \<or> written \<noteq> len)) es else relayed dir open_dir es)"

lemma session_of_AddUp:
  "session_of (AddUp i n r) j = (if j = i then map_option (\<lambda>c. c\<lparr>cn_bytesUp := cn_bytesUp c + n\<rparr>) (session_of r j) else session_of r j)"
  by (cases "session_of r i") (auto simp: AddUp_def Let_def session_of_set_session)

lemma session_of_AddDown:
  "session_of (AddDown i n r) j = (if j = i then map_option (\<lambda>c. c\<lparr>cn_bytesDown := cn_bytesDown c + n\<rparr>) (session_of r j) else session_of r j)"
  by (cases "session_of r i") (auto simp: AddDown_def Let_def session_of_set_session)

text \<open>
  C10. The traffic of a relayed session is counted to the byte: in every interleaving of the two
  copying directions, with errors and short writes, the session's counters grow by exactly
  the number of bytes written in each direction until that direction ended (modulo \<open>2 ^ 64\<close>),
  and no other session's counters change.
\<close>

theorem relay_counts_every_byte:
  assumes "session_of (sv_registry s) sid = Some c"
  shows "session_of (sv_registry (relay sid u es s)) i =
    (if i = sid then Some (c\<lparr>cn_bytesUp := cn_bytesUp c + of_nat (relayed True True es),
                             cn_bytesDown := cn_bytesDown c + of_nat (relayed False True es)\<rparr>)
     else session_of (sv_registry s) i)"
proof -
  have "session_of (relay_copy sid uo d0 es r) i =
      (if i = sid then Some (c\<lparr>cn_bytesUp := cn_bytesUp c + of_nat (relayed True uo es),
                               cn_bytesDown := cn_bytesDown c + of_nat (relayed False d0 es)\<rparr>)
       else session_of r i)" if "session_of r sid = Some c" for uo d0 r c i
    using that
  proof (induction es arbitrary: uo d0 r c i)
    case (Cons e es)
    obtain up len written err where e: "e = (up, len, written, err)" by (metis prod_cases4)
    show ?case
      using Cons.prems
      by (auto simp: e Let_def accounting_write_def Cons.IH session_of_AddUp session_of_AddDown algebra_simps)
  qed simp
  then show ?thesis using assms by (simp add: relay_def)
qed

section \<open>Examples\<close>

definition example_server :: server where
  "example_server = projr (New 5 example_config)"

lemma example_server_New: "New 5 example_config = Inr example_server"
proof -
  have "\<not> isl (New 5 example_config)" by code_simp
  then show ?thesis by (cases "New 5 example_config") (simp_all add: example_server_def)
qed

definition example_senv :: "unit server_env" where
  "example_senv = \<lparr>se_proxy = example_penv, se_listenTCP = (\<lambda>a w. (Some \<lparr>ln_id = 1, ln_Addr = a\<rparr>, w)),
     se_listenUDP = (\<lambda>ip. None), se_parse_url = (\<lambda>t. None)\<rparr>"

definition example_senv_nat :: "nat server_env" where
  "example_senv_nat = \<lparr>se_proxy = example_udp_env, se_listenTCP = (\<lambda>a w. (Some \<lparr>ln_id = w, ln_Addr = a\<rparr>, w + 1)),
     se_listenUDP = (\<lambda>ip. None), se_parse_url = (\<lambda>t. None)\<rparr>"

text \<open>The example server with one client that connected on a channel.\<close>

definition example_accepted :: "string \<Rightarrow> server" where
  "example_accepted ch = example_server
     \<lparr>sv_registry := snd (Begin 7 ''socks5'' ch example_conn (sv_registry example_server))\<rparr>"

lemma example_server_registry: "sv_registry example_server = newRegistry 5 (cf_Adapters (sv_config example_server))"
  using example_server_New by (rule New_registry)

lemma example_accepted_facts:
  "server_ok (example_accepted ch)" "rg_connections (sv_registry (example_accepted ch)) = [1]"
  "session_of (sv_registry (example_accepted ch)) 1 =
     Some (new_session 7 ''socks5'' ch (addr_string (nc_RemoteAddr example_conn)) (addr_string (nc_LocalAddr example_conn)) example_conn)"
  "rg_nextID (sv_registry (example_accepted ch)) = 1"
proof -
  let ?r = "sv_registry example_server"
  obtain i r where b: "Begin 7 ''socks5'' ch example_conn ?r = (i, r)" by fastforce
  have ok: "server_ok example_server" using New_wf(3) [OF example_server_New] .
  have n: "rg_nextID ?r = 0" "rg_connections ?r = []" by (simp_all add: example_server_registry newRegistry_def)
  have "reg_inv r"
    using beginAddress_inv [of ?r] ok b n unfolding Begin_def server_ok_def by force
  moreover have "rg_order r = rg_order ?r" using b session_of_beginAddress(2) unfolding Begin_def by blast
  ultimately show "server_ok (example_accepted ch)"
    using server_ok_registry [OF ok] b by (simp add: example_accepted_def)
  show "rg_connections (sv_registry (example_accepted ch)) = [1]" "rg_nextID (sv_registry (example_accepted ch)) = 1"
    using b n by (auto simp: example_accepted_def Begin_def beginAddress_def Let_def)
  show "session_of (sv_registry (example_accepted ch)) 1 = Some (new_session 7 ''socks5'' ch
      (addr_string (nc_RemoteAddr example_conn)) (addr_string (nc_LocalAddr example_conn)) example_conn)"
    using b n by (auto simp: example_accepted_def Begin_def beginAddress_def Let_def session_of_def update_conv')
qed

theorem handleClient_finishes_session_witness:
  "\<exists>io' s' w'. handleClient example_senv \<lparr>ss_peer = None, ss_local = None, ss_reads = [], ss_copies = [(True, 3, 3, False)]\<rparr>
       ''socks5'' example_conn 1 \<lparr>io_in = example_request, io_out = [], io_writes = 5\<rparr> (example_accepted ChannelDirect) ()
     = (io', s', w') \<and> server_ok s' \<and> rg_connections (sv_registry s') = []"
proof -
  let ?s = "example_accepted ChannelDirect"
  let ?sc = "\<lparr>ss_peer = None, ss_local = None, ss_reads = [], ss_copies = [(True, 3, 3, False)]\<rparr>"
  let ?run = "handleClient example_senv ?sc ''socks5'' example_conn 1 \<lparr>io_in = example_request, io_out = [], io_writes = 5\<rparr> ?s ()"
  obtain io' s' w' where r: "?run = (io', s', w')" by (metis prod_cases3)
  have "server_ok s' \<and> set (rg_connections (sv_registry s')) = set (rg_connections (sv_registry ?s)) - {1}"
    by (rule handleClient_finishes_session [OF example_accepted_facts(1) _ example_accepted_facts(3) _ _ r])
       (simp_all add: example_accepted_facts attached_def new_session_def)
  then show ?thesis using r example_accepted_facts(2) by auto
qed

theorem connect_respects_channel_witness:
  "\<exists>s' w' a. connect example_penv 1 example_target (example_accepted ChannelWiFi) () = (Inr (example_conn, Some a), s', w')
     \<and> a \<in> set (cf_Adapters (sv_config (example_accepted ChannelWiFi))) \<and> ad_Name a = ''wlan''"
proof -
  let ?s = "example_accepted ChannelWiFi"
  let ?run = "connect example_penv 1 example_target ?s ()"
  have "case fst ?run of Inl e \<Rightarrow> False | Inr (c, a) \<Rightarrow> c = example_conn \<and> map_option ad_Name a = Some ''wlan''"
    by code_simp
  then obtain a s' w' where r: "?run = (Inr (example_conn, Some a), s', w')" and a: "ad_Name a = ''wlan''"
    by (cases ?run) (auto split: sum.splits)
  have ch: "session_channel ?s 1 = ChannelWiFi"
    by (simp add: session_channel_def example_accepted_facts new_session_def)
  have ok: "channels_ok ?s" using New_channels_ok [OF example_server_New] by (simp add: channels_ok_def example_accepted_def)
  from connect_respects_channel [OF example_accepted_facts(1) ok r] show ?thesis
    using r a ch by (auto simp: channel_defs)
qed

theorem server_never_leaks_listeners_witness:
  "\<exists>s. reach server_init server_step s \<and> sv_running s \<and> listening_ok s \<and> mset (sv_opened s) = mset (sv_closed s) + mset (sv_listeners s)"
proof -
  let ?run = "Start example_senv_nat example_server 0"
  have "\<not> sv_running example_server" "cf_Channels (sv_config example_server) \<noteq> []"
    "\<not> isl (new_resolver (cf_DNS (sv_config example_server)) True)" by code_simp+
  moreover obtain res ls w where l: "listen_channels example_senv_nat (cf_ListenHost (sv_config example_server))
      (cf_Channels (sv_config example_server)) [] [] 0 = (res, ls, w)" by (metis prod_cases3)
  moreover have "\<not> isl res"
    using listen_channels_total [of example_senv_nat "cf_ListenHost (sv_config example_server)"
        "cf_Channels (sv_config example_server)" "[]" "[]" 0] l
    by (simp add: example_senv_nat_def)
  ultimately have run: "sv_running (fst (snd ?run))"
    by (auto simp: Start_def startChannelListeners_def Let_def split: sum.splits prod.splits)
  obtain res s w where r: "?run = (res, s, w)" by (metis prod_cases3)
  have "server_init example_server" using example_server_New by (auto simp: server_init_def)
  then have "reach server_init server_step example_server" by (rule reach_init)
  then have "reach server_init server_step s" using server_start [OF r] by (rule reach_step)
  then show ?thesis using server_never_leaks_listeners [of s] run r by auto
qed

theorem relay_counts_every_byte_witness:
  "map_option (\<lambda>c. (cn_bytesUp c, cn_bytesDown c)) (session_of (sv_registry
     (relay 1 example_conn [(True, 10, 10, False), (False, 5, 4, True), (True, 7, 7, False), (False, 9, 9, False)]
        (example_accepted ChannelDirect))) 1) = Some (17, 4)"
  using relay_counts_every_byte [OF example_accepted_facts(3), where i = 1 and u = example_conn
      and es = "[(True, 10, 10, False), (False, 5, 4, True), (True, 7, 7, False), (False, 9, 9, False)]"]
  by (simp add: new_session_def)

end
