(* ===== verification/Tun_Supervisor.thy ===== *)
theory Tun_Supervisor
  imports Go_Prelude
begin

text \<open>
  The package \<open>engine/internal/tun\<close>: \<open>supervisor.go\<close> with the platform files \<open>cleanup_*.go\<close>,
  \<open>process_*.go\<close> and \<open>recover.go\<close>. A supervisor starts the sidecar process, watches it and
  removes its network state when it ends. \<open>Activate\<close> and \<open>Stop\<close> exclude each other through
  \<open>stopMu\<close>; each run has a goroutine \<open>waitProcess\<close> beside them. The functions are cut where another
  goroutine can run: the pieces between two such points are one definition each, \<open>sp_call\<close> says
  where the call that holds \<open>stopMu\<close> stands, \<open>rn_stage\<close> where the goroutine of a run stands, and
  \<open>sup_exec\<close> executes one piece. Runs are numbered, so that the pointer \<open>run\<close> is a number.
  Errors are the texts that \<open>Error()\<close> returns, because the status stores them. What the file
  system, the sidecar and the clock answer are arguments of the events.
\<close>

section \<open>Configuration\<close>

definition defaultStartupTimeout :: duration where "defaultStartupTimeout = 1500 * Millisecond"
definition configCheckTimeout :: duration where "configCheckTimeout = 10 * Second"
definition cleanupTimeout :: duration where "cleanupTimeout = 15 * Second"
definition maxLogLineBytes :: nat where "maxLogLineBytes = 64 * 1024"

datatype tun_state = TunStopped | TunStarting | TunRunning | TunStopping | TunFailed

fun tun_state_name :: "tun_state \<Rightarrow> string" where
  "tun_state_name TunStopped = ''stopped''"
| "tun_state_name TunStarting = ''starting''"
| "tun_state_name TunRunning = ''running''"
| "tun_state_name TunStopping = ''stopping''"
| "tun_state_name TunFailed = ''failed''"

record tun_config =
  tc_Executable :: string
  tc_ConfigPath :: string
  tc_StartupTimeout :: duration

record tun_status =
  tu_State :: tun_state
  tu_PID :: int
  tu_StartedAt :: "go_time option"
  tu_ExitedAt :: "go_time option"
  tu_ExitCode :: "int option"
  tu_LastError :: string
  tu_ConfigPath :: string

definition blank_status :: "tun_state \<Rightarrow> tun_status" where
  "blank_status st = \<lparr>tu_State = st, tu_PID = 0, tu_StartedAt = None, tu_ExitedAt = None, tu_ExitCode = None,
                      tu_LastError = [], tu_ConfigPath = []\<rparr>"

text \<open>The file system: \<open>filepath.Abs\<close>, \<open>filepath.Clean\<close>, and \<open>os.Stat\<close> with \<open>IsRegular\<close>.\<close>

record fs_env =
  fs_Abs :: "string \<Rightarrow> string + string"
  fs_Clean :: "string \<Rightarrow> string"
  fs_Stat :: "string \<Rightarrow> string + bool"

definition requireRegularFile :: "fs_env \<Rightarrow> string \<Rightarrow> string \<Rightarrow> string option" where
  "requireRegularFile fs path label =
     (if trim_space path = [] then Some (label @ '' is required'')
      else case fs_Stat fs path of
             Inl e \<Rightarrow> Some (label @ '' is unavailable: '' @ e)
           | Inr regular \<Rightarrow> if regular then None else Some (label @ '' is not a regular file''))"

definition normalizeTunConfig :: "fs_env \<Rightarrow> tun_config \<Rightarrow> string + tun_config" where
  "normalizeTunConfig fs config =
     (case fs_Abs fs (trim_space (tc_Executable config)) of
        Inl e \<Rightarrow> Inl (''resolve sing-box executable: '' @ e)
      | Inr executable \<Rightarrow>
          (case fs_Abs fs (trim_space (tc_ConfigPath config)) of
             Inl e \<Rightarrow> Inl (''resolve sing-box config: '' @ e)
           | Inr configPath \<Rightarrow>
               (case requireRegularFile fs executable ''sing-box executable'' of
                  Some e \<Rightarrow> Inl e
                | None \<Rightarrow>
                    (case requireRegularFile fs configPath ''sing-box config'' of
                       Some e \<Rightarrow> Inl e
                     | None \<Rightarrow>
                         let timeout = (if tc_StartupTimeout config \<le> 0 then defaultStartupTimeout
                                        else tc_StartupTimeout config)
                         in if timeout < 100 * Millisecond \<or> 10 * Second < timeout
                            then Inl ''startup timeout must be between 100ms and 10s''
                            else Inr \<lparr>tc_Executable = fs_Clean fs executable, tc_ConfigPath = fs_Clean fs configPath,
                                      tc_StartupTimeout = timeout\<rparr>))))"

subsection \<open>Output of commands\<close>

record tail_buffer =
  tb_data :: string
  tb_limit :: int

definition tail_write :: "string \<Rightarrow> tail_buffer \<Rightarrow> tail_buffer" where
  "tail_write payload b =
     (if tb_limit b \<le> 0 then b
      else let d = tb_data b @ payload
           in b\<lparr>tb_data := if int (length d) > tb_limit b then drop (length d - nat (tb_limit b)) d else d\<rparr>)"

definition command_output :: "string list \<Rightarrow> string" where
  "command_output chunks = tb_data (fold tail_write chunks \<lparr>tb_data = [], tb_limit = 32 * 1024\<rparr>)"

definition errors_join :: "string option list \<Rightarrow> string option" where
  "errors_join es =
     (let ts = map the (filter (\<lambda>e. e \<noteq> None) es) in if ts = [] then None else Some (join_with [CHR 0x0A] ts))"

definition exitError :: "int \<Rightarrow> string option \<Rightarrow> string \<Rightarrow> string" where
  "exitError exitCode waitErr stderr =
     ''sing-box exited unexpectedly (code='' @ itoa exitCode @ '')'' @
     (if stderr \<noteq> [] then '': '' @ stderr else case waitErr of None \<Rightarrow> [] | Some e \<Rightarrow> '': '' @ e)"

text \<open>A command that was run to its end: the chunks it wrote and the error of \<open>Run\<close>.\<close>

type_synonym command_result = "string list \<times> string option"

definition command_detail :: "command_result \<Rightarrow> string" where
  "command_detail r =
     (let detail = trim_space (command_output (fst r)) in if detail = [] then the (snd r) else detail)"

definition check_args :: "tun_config \<Rightarrow> string list" where
  "check_args c = [tc_Executable c, ''check'', ''--disable-color'', ''-c'', tc_ConfigPath c]"

definition run_args :: "tun_config \<Rightarrow> string list" where
  "run_args c = [tc_Executable c, ''run'', ''-c'', tc_ConfigPath c]"

definition validateConfig :: "command_result \<Rightarrow> string option" where
  "validateConfig r = (if snd r = None then None
                       else Some (''sing-box configuration check failed: '' @ command_detail r))"

section \<open>Platform cleanup\<close>

definition linuxCleanupCommands :: "string list list" where
  "linuxCleanupCommands =
     [[''ip'', ''route'', ''del'', ''default'', ''dev'', ''HypoMux-Tun''],
      [''ip'', ''-6'', ''route'', ''del'', ''default'', ''dev'', ''HypoMux-Tun''],
      [''ip'', ''link'', ''delete'', ''HypoMux-Tun'']]"

text \<open>The messages of \<open>cleanup_linux.go\<close> are Chinese; they are given by their UTF-8 bytes.\<close>

definition iproute_unavailable :: string where
  "iproute_unavailable = ''Linux iproute2 '' @ map char_of ([228, 184, 141, 229, 143, 175, 231, 148, 168, 239, 188, 154] :: nat list)"

definition linux_cleanup_failed :: "string list \<Rightarrow> string \<Rightarrow> string" where
  "linux_cleanup_failed arguments output =
     map char_of ([230, 184, 133, 231, 144, 134] :: nat list) @ '' HypoMux TUN '' @
     map char_of ([232, 181, 132, 230, 186, 144, 229, 164, 177, 232, 180, 165, 239, 188, 136] :: nat list) @ join_with '' '' arguments @
     map char_of ([239, 188, 137, 239, 188, 154] :: nat list) @ trim_space output"

fun linux_cleanup_loop :: "(string list \<Rightarrow> string \<times> bool) \<Rightarrow> string list list \<Rightarrow> string option" where
  "linux_cleanup_loop exec [] = None"
| "linux_cleanup_loop exec (arguments # rest) =
     (let (output, failed) = exec arguments; detail = to_lower output
      in if \<not> failed then linux_cleanup_loop exec rest
         else if sublist ''cannot find device'' detail \<or> sublist ''no such process'' detail
                 \<or> sublist ''cannot find'' detail then linux_cleanup_loop exec rest
         else Some (linux_cleanup_failed arguments output))"

definition cleanupPlatform_linux :: "string option \<Rightarrow> (string list \<Rightarrow> string \<times> bool) \<Rightarrow> string option" where
  "cleanupPlatform_linux lookPath exec =
     (case lookPath of Some e \<Rightarrow> Some (iproute_unavailable @ e)
      | None \<Rightarrow> linux_cleanup_loop exec linuxCleanupCommands)"

definition cleanupPlatform_windows :: "command_result \<Rightarrow> string option" where
  "cleanupPlatform_windows r = (if snd r = None then None else Some (''PowerShell cleanup failed: '' @ command_detail r))"

definition cleanupPlatform_other :: "string option" where "cleanupPlatform_other = None"

definition Recover :: "string option \<Rightarrow> string option" where "Recover cleanupPlatform = cleanupPlatform"

text \<open>
  The job object that ends the sidecar with its parent on Windows: the handle it got, or the
  error, and the handles closed on the way. \<open>None\<close> is a system call that succeeded.
\<close>

definition containProcess_windows ::
    "string + nat \<Rightarrow> string option \<Rightarrow> string + nat \<Rightarrow> string option \<Rightarrow> (string + nat) \<times> nat list" where
  "containProcess_windows createJob setInformation openProcess assign =
     (case createJob of
        Inl e \<Rightarrow> (Inl e, [])
      | Inr job \<Rightarrow>
          (case setInformation of
             Some e \<Rightarrow> (Inl (''configure kill-on-close job: '' @ e), [job])
           | None \<Rightarrow>
               (case openProcess of
                  Inl e \<Rightarrow> (Inl (''open sidecar process: '' @ e), [job])
                | Inr process \<Rightarrow>
                    (case assign of
                       Some e \<Rightarrow> (Inl (''assign sidecar to job: '' @ e), [job, process])
                     | None \<Rightarrow> (Inr job, [process])))))"

text \<open>\<open>jobContainment.Close\<close>: the handle is closed once; a handle of 0 has been closed.\<close>

definition job_Close :: "(nat \<Rightarrow> string option) \<Rightarrow> nat \<Rightarrow> string option \<times> nat" where
  "job_Close closeHandle handle = (if handle = 0 then (None, 0) else (closeHandle handle, 0))"

definition noop_Close :: "string option" where "noop_Close = None"

section \<open>The supervisor\<close>

text \<open>
  Where \<open>waitProcess\<close> stands: waiting for the process, about to record the exit (with the
  \<open>unexpected\<close> flag, the exit code and the error of \<open>Wait\<close>), running the cleanup, about to
  close \<open>done\<close>, about to call the handler (each with \<open>unexpected\<close> and the status it will report),
  or finished.
\<close>

datatype wait_stage =
    WaitExit
  | WaitMark bool int "string option" go_time
  | WaitCleanup bool tun_status
  | WaitClose bool tun_status
  | WaitReport bool tun_status
  | WaitEnded

text \<open>
  A run. \<open>rn_done\<close> is the channel \<open>done\<close> (closed or not), \<open>rn_cleanup\<close> the outcome of the cleanup
  once it ran. Two fields describe the operating system: \<open>rn_alive\<close>, that the process has not
  exited, and \<open>rn_killed\<close>, that it was killed.
\<close>

record sidecar_run =
  rn_pid :: int
  rn_done :: bool
  rn_intentional :: bool
  rn_cleanup :: "string option option"
  rn_stage :: wait_stage
  rn_alive :: bool
  rn_killed :: bool

definition new_run :: "int \<Rightarrow> sidecar_run" where
  "new_run pid = \<lparr>rn_pid = pid, rn_done = False, rn_intentional = False, rn_cleanup = None, rn_stage = WaitExit,
                  rn_alive = True, rn_killed = False\<rparr>"

text \<open>Where the holder of \<open>stopMu\<close> stands; \<open>NoCall\<close> when it is free.\<close>

datatype tun_call =
    NoCall
  | ActivateCheck tun_config
  | ActivateClean tun_config
  | ActivateLaunch tun_config
  | ActivateWait nat
  | ActivateAbort nat string
  | StopWait nat

type_synonym tun_return = "tun_status \<times> string option"

record supervisor =
  sp_status :: tun_status
  sp_run :: "nat option"
  sp_runs :: "sidecar_run list"
  sp_lastStderr :: string
  sp_onLog :: bool
  sp_onUnexpected :: bool
  sp_call :: tun_call
  sp_logs :: "string list"
  sp_commands :: "string list list"
  sp_reports :: "(nat \<times> tun_status) list"
  sp_returned :: "tun_return list"

definition NewSupervisor :: supervisor where
  "NewSupervisor = \<lparr>sp_status = blank_status TunStopped, sp_run = None, sp_runs = [], sp_lastStderr = [],
                    sp_onLog = False, sp_onUnexpected = False, sp_call = NoCall, sp_logs = [], sp_commands = [],
                    sp_reports = [], sp_returned = []\<rparr>"

definition SetHandlers :: "supervisor \<Rightarrow> supervisor" where
  "SetHandlers s = s\<lparr>sp_onLog := True, sp_onUnexpected := True\<rparr>"

definition Status :: "supervisor \<Rightarrow> tun_status" where "Status s = sp_status s"

definition tun_state_of :: "supervisor \<Rightarrow> tun_state" where "tun_state_of s = tu_State (sp_status s)"

definition emitLog :: "string \<Rightarrow> supervisor \<Rightarrow> supervisor" where
  "emitLog message s = (if sp_onLog s then s\<lparr>sp_logs := sp_logs s @ [message]\<rparr> else s)"

definition failStart :: "go_time \<Rightarrow> string \<Rightarrow> supervisor \<Rightarrow> supervisor" where
  "failStart now e s =
     s\<lparr>sp_status := (sp_status s)\<lparr>tu_State := TunFailed, tu_ExitedAt := Some now, tu_LastError := e\<rparr>\<rparr>"

definition update_run :: "nat \<Rightarrow> (sidecar_run \<Rightarrow> sidecar_run) \<Rightarrow> supervisor \<Rightarrow> supervisor" where
  "update_run r f s = s\<lparr>sp_runs := (sp_runs s)[r := f (sp_runs s ! r)]\<rparr>"

text \<open>The return of \<open>Activate\<close> or \<open>Stop\<close>, which also releases \<open>stopMu\<close>.\<close>

definition give_back :: "tun_status \<Rightarrow> string option \<Rightarrow> supervisor \<Rightarrow> supervisor" where
  "give_back st e s = s\<lparr>sp_call := NoCall, sp_returned := sp_returned s @ [(st, e)]\<rparr>"

definition activate_fail :: "go_time \<Rightarrow> string \<Rightarrow> string \<Rightarrow> supervisor \<Rightarrow> supervisor" where
  "activate_fail now e returned s = (let s = failStart now e s in give_back (Status s) (Some returned) s)"

subsection \<open>Activate\<close>

definition activate_begin :: "fs_env \<Rightarrow> tun_config \<Rightarrow> supervisor \<Rightarrow> supervisor" where
  "activate_begin fs config s =
     (case normalizeTunConfig fs config of
        Inl e \<Rightarrow> give_back (Status s) (Some e) s
      | Inr normalized \<Rightarrow>
          if tun_state_of s \<noteq> TunStopped \<and> tun_state_of s \<noteq> TunFailed then
            give_back (Status s) (Some (''TUN sidecar cannot start from '' @ tun_state_name (tun_state_of s))) s
          else s\<lparr>sp_status := (blank_status TunStarting)\<lparr>tu_ConfigPath := tc_ConfigPath normalized\<rparr>,
                 sp_lastStderr := [], sp_call := ActivateCheck normalized\<rparr>)"

definition activate_checked :: "go_time \<Rightarrow> command_result \<Rightarrow> tun_config \<Rightarrow> supervisor \<Rightarrow> supervisor" where
  "activate_checked now result c s =
     (let s = s\<lparr>sp_commands := sp_commands s @ [check_args c]\<rparr>
      in case validateConfig result of
           Some e \<Rightarrow> activate_fail now e e s
         | None \<Rightarrow> (emitLog ''[TUN] sing-box configuration check passed'' s)\<lparr>sp_call := ActivateClean c\<rparr>)"

definition activate_cleaned :: "go_time \<Rightarrow> string option \<Rightarrow> tun_config \<Rightarrow> supervisor \<Rightarrow> supervisor" where
  "activate_cleaned now result c s =
     (case result of
        Some e \<Rightarrow> (let e = ''clean stale HypoMux TUN state: '' @ e in activate_fail now e e s)
      | None \<Rightarrow> s\<lparr>sp_call := ActivateLaunch c\<rparr>)"

datatype launch = NoStdout string | NoStderr string | NotStarted string | NotContained string | Launched int

definition activate_launched :: "go_time \<Rightarrow> launch \<Rightarrow> tun_config \<Rightarrow> supervisor \<Rightarrow> supervisor" where
  "activate_launched now l c s =
     (let s = s\<lparr>sp_commands := sp_commands s @ [run_args c]\<rparr>
      in case l of
           NoStdout e \<Rightarrow> activate_fail now e (''open sing-box stdout: '' @ e) s
         | NoStderr e \<Rightarrow> activate_fail now e (''open sing-box stderr: '' @ e) s
         | NotStarted e \<Rightarrow> activate_fail now e (''start sing-box: '' @ e) s
         | NotContained e \<Rightarrow> activate_fail now e (''contain sing-box process: '' @ e) s
         | Launched pid \<Rightarrow>
             let r = length (sp_runs s);
                 s = s\<lparr>sp_runs := sp_runs s @ [new_run pid], sp_run := Some r,
                       sp_status := (sp_status s)\<lparr>tu_PID := pid, tu_StartedAt := Some now\<rparr>\<rparr>
             in (emitLog (''[TUN] sing-box process started (PID='' @ itoa pid @ ''), waiting for stable takeover'') s)
                  \<lparr>sp_call := ActivateWait r\<rparr>)"

definition markRunning :: "nat \<Rightarrow> supervisor \<Rightarrow> supervisor" where
  "markRunning r s =
     (if sp_run s \<noteq> Some r \<or> tun_state_of s \<noteq> TunStarting then
        give_back (Status s) (Some ''sing-box exited during startup'') s
      else
        let s = s\<lparr>sp_status := (sp_status s)\<lparr>tu_State := TunRunning\<rparr>\<rparr>
        in give_back (Status s) None (emitLog ''[TUN] sing-box is stable and owns TUN/WFP/routes'' s))"

definition activate_exited :: "supervisor \<Rightarrow> supervisor" where
  "activate_exited s =
     (let st = Status s;
          st = (if tu_LastError st = [] then st\<lparr>tu_LastError := ''sing-box exited during startup''\<rparr> else st)
      in give_back st (Some (tu_LastError st)) s)"

text \<open>The first half of \<open>terminateRun\<close>: the containment is closed and the process killed.\<close>

definition terminate_begin :: "nat \<Rightarrow> supervisor \<Rightarrow> supervisor" where
  "terminate_begin r s = update_run r (\<lambda>x. x\<lparr>rn_intentional := True, rn_killed := True\<rparr>) s"

definition activate_cancelled :: "nat \<Rightarrow> string \<Rightarrow> supervisor \<Rightarrow> supervisor" where
  "activate_cancelled r e s = (terminate_begin r s)\<lparr>sp_call := ActivateAbort r (''activate TUN sidecar: '' @ e)\<rparr>"

subsection \<open>Stop\<close>

definition stop_begin :: "supervisor \<Rightarrow> supervisor" where
  "stop_begin s =
     (case sp_run s of
        None \<Rightarrow> (let s = s\<lparr>sp_status := blank_status TunStopped\<rparr> in give_back (Status s) None s)
      | Some r \<Rightarrow>
          (terminate_begin r s)\<lparr>sp_status := (sp_status s)\<lparr>tu_State := TunStopping\<rparr>, sp_call := StopWait r\<rparr>)"

text \<open>
  How \<open>terminateRun\<close> ends: the run is done and its cleanup result is read, or the context ends
  before \<open>done\<close> is closed, or it ends while the cleanup result is read.
\<close>

datatype stop_wait = StopSawDone | StopGaveUp string | StopCleanupGaveUp string

definition terminate_result :: "stop_wait \<Rightarrow> sidecar_run \<Rightarrow> string option" where
  "terminate_result w x =
     (case w of
        StopSawDone \<Rightarrow> map_option (\<lambda>e. ''clean TUN state: '' @ e) (the (rn_cleanup x))
      | StopGaveUp e \<Rightarrow> Some (''wait for sing-box stop: '' @ e)
      | StopCleanupGaveUp e \<Rightarrow> Some (''clean TUN state: '' @ e))"

definition stop_end :: "stop_wait \<Rightarrow> nat \<Rightarrow> supervisor \<Rightarrow> supervisor" where
  "stop_end w r s =
     (let e = terminate_result w (sp_runs s ! r);
          s = s\<lparr>sp_run := (if sp_run s = Some r then None else sp_run s), sp_status := blank_status TunStopped\<rparr>
      in give_back (Status s) e s)"

subsection \<open>The goroutines of a run\<close>

definition wait_exited :: "go_time \<Rightarrow> int \<Rightarrow> string option \<Rightarrow> nat \<Rightarrow> supervisor \<Rightarrow> supervisor" where
  "wait_exited now code err r s =
     update_run r (\<lambda>x. x\<lparr>rn_stage := WaitMark (\<not> rn_intentional x) code err now\<rparr>) s"

definition exit_status :: "bool \<Rightarrow> int \<Rightarrow> string option \<Rightarrow> go_time \<Rightarrow> string \<Rightarrow> tun_status \<Rightarrow> tun_status" where
  "exit_status unexpected code err now stderr st =
     (let st = st\<lparr>tu_ExitedAt := Some now, tu_ExitCode := Some code, tu_PID := 0\<rparr>
      in if unexpected then st\<lparr>tu_State := TunFailed, tu_LastError := exitError code err stderr\<rparr>
         else st\<lparr>tu_State := TunStopped, tu_LastError := []\<rparr>)"

definition wait_mark :: "bool \<Rightarrow> int \<Rightarrow> string option \<Rightarrow> go_time \<Rightarrow> nat \<Rightarrow> supervisor \<Rightarrow> supervisor" where
  "wait_mark unexpected code err now r s =
     (let s = (if sp_run s = Some r
               then s\<lparr>sp_status := exit_status unexpected code err now (sp_lastStderr s) (sp_status s)\<rparr> else s)
      in update_run r (\<lambda>x. x\<lparr>rn_stage := WaitCleanup unexpected (Status s)\<rparr>) s)"

text \<open>\<open>cleanupRun\<close>, called here for the first time on the run: the platform cleanup, then the containment.\<close>

definition cleanup_result :: "string option \<Rightarrow> string option \<Rightarrow> string option" where
  "cleanup_result platform containment = errors_join [platform, containment]"

definition wait_cleanup :: "string option \<Rightarrow> bool \<Rightarrow> tun_status \<Rightarrow> nat \<Rightarrow> supervisor \<Rightarrow> supervisor" where
  "wait_cleanup e unexpected st r s =
     (let (st, s) =
        (if e \<noteq> None \<and> sp_run s = Some r \<and> unexpected then
           let s = s\<lparr>sp_status := (sp_status s)\<lparr>tu_LastError :=
                       the (errors_join [Some (tu_LastError (sp_status s)), Some (''TUN cleanup: '' @ the e)])\<rparr>\<rparr>
           in (Status s, s)
         else (st, s))
      in update_run r (\<lambda>x. x\<lparr>rn_cleanup := Some e, rn_stage := WaitClose unexpected st\<rparr>) s)"

definition wait_close :: "bool \<Rightarrow> tun_status \<Rightarrow> nat \<Rightarrow> supervisor \<Rightarrow> supervisor" where
  "wait_close unexpected st r s = update_run r (\<lambda>x. x\<lparr>rn_done := True, rn_stage := WaitReport unexpected st\<rparr>) s"

definition wait_report :: "bool \<Rightarrow> tun_status \<Rightarrow> nat \<Rightarrow> supervisor \<Rightarrow> supervisor" where
  "wait_report unexpected st r s =
     (let s = (if unexpected \<and> \<not> rn_intentional (sp_runs s ! r) \<and> sp_onUnexpected s
               then s\<lparr>sp_reports := sp_reports s @ [(r, st)]\<rparr> else s)
      in update_run r (\<lambda>x. x\<lparr>rn_stage := WaitEnded\<rparr>) s)"

text \<open>\<open>pump\<close>: one scanned line of a stream, and the end of the stream with an error.\<close>

definition pump_line :: "bool \<Rightarrow> string \<Rightarrow> supervisor \<Rightarrow> supervisor" where
  "pump_line stderr line s =
     (let text = trim_space line
      in if text = [] then s
         else emitLog (''[sing-box:'' @ (if stderr then ''stderr'' else ''stdout'') @ ''] '' @ text)
                (if stderr then s\<lparr>sp_lastStderr := text\<rparr> else s))"

definition pump_error :: "bool \<Rightarrow> string \<Rightarrow> supervisor \<Rightarrow> supervisor" where
  "pump_error stderr e s =
     emitLog (''[TUN] read sing-box '' @ (if stderr then ''stderr'' else ''stdout'') @ '': '' @ e) s"

section \<open>One step of the supervisor\<close>

datatype tun_event =
    CallActivate fs_env tun_config
  | CallStop
  | Checked go_time command_result
  | Cleaned go_time "string option"
  | Launch go_time launch
  | Stable
  | SawExit
  | Cancelled string
  | Aborted go_time
  | StopReturns stop_wait
  | ProcessExits nat
  | Waited nat go_time int "string option"
  | Marked nat
  | RunCleaned nat "string option" "string option"
  | Closed nat
  | Reported nat
  | PumpLine bool string
  | PumpError bool string

definition run_of :: "supervisor \<Rightarrow> nat \<Rightarrow> sidecar_run option" where
  "run_of s r = (if r < length (sp_runs s) then Some (sp_runs s ! r) else None)"

definition call_step :: "tun_event \<Rightarrow> supervisor \<Rightarrow> supervisor option" where
  "call_step ev s =
     (case (sp_call s, ev) of
        (NoCall, CallActivate fs c) \<Rightarrow> Some (activate_begin fs c s)
      | (NoCall, CallStop) \<Rightarrow> Some (stop_begin s)
      | (ActivateCheck c, Checked now res) \<Rightarrow> Some (activate_checked now res c s)
      | (ActivateClean c, Cleaned now res) \<Rightarrow> Some (activate_cleaned now res c s)
      | (ActivateLaunch c, Launch now l) \<Rightarrow> Some (activate_launched now l c s)
      | (ActivateWait r, Stable) \<Rightarrow> Some (markRunning r s)
      | (ActivateWait r, SawExit) \<Rightarrow> if rn_done (sp_runs s ! r) then Some (activate_exited s) else None
      | (ActivateWait r, Cancelled e) \<Rightarrow> Some (activate_cancelled r e s)
      | (ActivateAbort r e, Aborted now) \<Rightarrow>
          if rn_done (sp_runs s ! r) then Some (activate_fail now e e s) else None
      | (StopWait r, StopReturns w) \<Rightarrow>
          if rn_done (sp_runs s ! r) \<or> (case w of StopGaveUp _ \<Rightarrow> True | _ \<Rightarrow> False) then Some (stop_end w r s) else None
      | _ \<Rightarrow> None)"

definition run_step :: "tun_event \<Rightarrow> supervisor \<Rightarrow> supervisor option" where
  "run_step ev s =
     (case ev of
        ProcessExits r \<Rightarrow>
          Option.bind (run_of s r) (\<lambda>x. if rn_alive x then Some (update_run r (\<lambda>x. x\<lparr>rn_alive := False\<rparr>) s) else None)
      | Waited r now code err \<Rightarrow>
          Option.bind (run_of s r) (\<lambda>x.
            if rn_stage x = WaitExit \<and> \<not> rn_alive x then Some (wait_exited now code err r s) else None)
      | Marked r \<Rightarrow>
          Option.bind (run_of s r) (\<lambda>x.
            case rn_stage x of WaitMark u code err now \<Rightarrow> Some (wait_mark u code err now r s) | _ \<Rightarrow> None)
      | RunCleaned r platform containment \<Rightarrow>
          Option.bind (run_of s r) (\<lambda>x.
            case rn_stage x of
              WaitCleanup u st \<Rightarrow> Some (wait_cleanup (cleanup_result platform containment) u st r s) | _ \<Rightarrow> None)
      | Closed r \<Rightarrow>
          Option.bind (run_of s r) (\<lambda>x.
            case rn_stage x of WaitClose u st \<Rightarrow> Some (wait_close u st r s) | _ \<Rightarrow> None)
      | Reported r \<Rightarrow>
          Option.bind (run_of s r) (\<lambda>x.
            case rn_stage x of WaitReport u st \<Rightarrow> Some (wait_report u st r s) | _ \<Rightarrow> None)
      | PumpLine stderr line \<Rightarrow> Some (pump_line stderr line s)
      | PumpError stderr e \<Rightarrow> Some (pump_error stderr e s)
      | _ \<Rightarrow> None)"

definition sup_exec :: "tun_event \<Rightarrow> supervisor \<Rightarrow> supervisor option" where
  "sup_exec ev s = (case call_step ev s of Some t \<Rightarrow> Some t | None \<Rightarrow> run_step ev s)"

fun sup_run :: "tun_event list \<Rightarrow> supervisor \<Rightarrow> supervisor option" where
  "sup_run [] s = Some s"
| "sup_run (ev # evs) s = Option.bind (sup_exec ev s) (sup_run evs)"

end
