(* ===== verification/Diagnostic.thy ===== *)
theory Diagnostic
  imports Net_Addr "HOL-Library.Signed_Division"
begin

text \<open>
  \<open>engine/internal/diagnostic\<close>: a series of source-bound ICMP echo requests and its summary. The
  echo request of the operating system and the moment the context ends are parameters, indexed by
  the number of the attempt.
\<close>

unbundle bit_operations_syntax

section \<open>Model\<close>

definition DefaultTargetIP :: string where "DefaultTargetIP = ''223.5.5.5''"
definition DefaultCount :: int where "DefaultCount = 10"
definition MaxCount :: int where "MaxCount = 100"
definition DefaultTimeout :: duration where "DefaultTimeout = Second"

record diag_config =
  dg_SourceIP :: string
  dg_TargetIP :: string
  dg_Count :: int
  dg_Timeout :: duration

record diag_result =
  dr_Status :: string
  dr_LossRate :: int
  dr_AvgLatencyMS :: int
  dr_JitterMS :: int
  dr_Sent :: int
  dr_Received :: int
  dr_SourceIP :: string
  dr_TargetIP :: string
  dr_Note :: string

record probe_result =
  pb_roundTripTimeMS :: int
  pb_success :: bool
  pb_bindError :: bool
  pb_errorCode :: uint32

definition withDefaults :: "diag_config \<Rightarrow> diag_config" where
  "withDefaults c =
     (let target = trim_space (dg_TargetIP c)
      in \<lparr>dg_SourceIP = trim_space (dg_SourceIP c),
          dg_TargetIP = (if target = [] then DefaultTargetIP else target),
          dg_Count = (if dg_Count c \<le> 0 then DefaultCount else if dg_Count c > MaxCount then MaxCount else dg_Count c),
          dg_Timeout = (if dg_Timeout c \<le> 0 then DefaultTimeout
                        else if dg_Timeout c > 10 * Second then 10 * Second else dg_Timeout c)\<rparr>)"

definition parseIPv4 :: "string \<Rightarrow> ip option" where
  "parseIPv4 value = Option.bind (parse_ip (trim_space value)) to4"

text \<open>\<open>rtt\<close> summed, and the smallest and the largest, as the loop of \<open>summarize\<close> does.\<close>

fun rtt_loop :: "int list \<Rightarrow> int \<times> int \<times> int \<Rightarrow> int \<times> int \<times> int" where
  "rtt_loop [] acc = acc"
| "rtt_loop (rtt # rtts) (acc, minimum, maximum) =
     rtt_loop rtts (wrap64 (acc + rtt), if rtt < minimum then rtt else minimum, if rtt > maximum then rtt else maximum)"

definition summarize :: "diag_result \<Rightarrow> int list \<Rightarrow> int \<Rightarrow> bool \<Rightarrow> uint32 \<Rightarrow> diag_result" where
  "summarize base rtts sent bindError bindErrorCode =
     (let received = int (length rtts);
          base = base\<lparr>dr_Sent := sent, dr_Received := received,
                      dr_LossRate := (if sent = 0 then 100 else wrap64 (wrap64 (sent - received) * 100) sdiv sent)\<rparr>;
          base = (if rtts = [] then base
                  else let (acc, minimum, maximum) = rtt_loop rtts (0, rtts ! 0, rtts ! 0)
                       in base\<lparr>dr_AvgLatencyMS := acc sdiv received, dr_JitterMS := wrap64 (maximum - minimum)\<rparr>);
          base = base\<lparr>dr_Status :=
                   (if dr_LossRate base \<ge> 100 \<or> bindError then ''unavailable''
                    else if dr_LossRate base \<ge> 5 \<or> dr_JitterMS base > 100 then ''unstable''
                    else ''available'')\<rparr>
      in if bindError then base\<lparr>dr_Note := ''source bind failed (WinError '' @ nat_str (unat bindErrorCode) @ '')''\<rparr>
         else base)"

text \<open>
  The prober of Windows. \<open>IcmpSendEcho2Ex\<close> is given the two addresses as little-endian words and the
  timeout in milliseconds; it answers with an error code, or with a reply's status and round-trip time.
\<close>

datatype echo = EchoFailed uint32 | EchoReply uint32 uint32

definition ipv4Address :: "ip \<Rightarrow> uint32" where
  "ipv4Address ip =
     ucast (ip ! 0) OR push_bit 8 (ucast (ip ! 1)) OR push_bit 16 (ucast (ip ! 2)) OR push_bit 24 (ucast (ip ! 3))"

definition Probe :: "(uint32 \<Rightarrow> uint32 \<Rightarrow> uint32 \<Rightarrow> echo) \<Rightarrow> ip \<Rightarrow> ip \<Rightarrow> duration \<Rightarrow> probe_result" where
  "Probe icmp source target timeout =
     (let timeoutMS = (word_of_int (timeout sdiv Millisecond) :: uint32);
          timeoutMS = (if timeoutMS = 0 then 1 else timeoutMS)
      in case icmp (ipv4Address source) (ipv4Address target) timeoutMS of
           EchoFailed code \<Rightarrow>
             \<lparr>pb_roundTripTimeMS = 0, pb_success = False, pb_bindError = (code = 1231 \<or> code = 1214), pb_errorCode = code\<rparr>
         | EchoReply status rtt \<Rightarrow>
             if status \<noteq> 0 then \<lparr>pb_roundTripTimeMS = 0, pb_success = False, pb_bindError = False, pb_errorCode = 0\<rparr>
             else \<lparr>pb_roundTripTimeMS = uint rtt, pb_success = True, pb_bindError = False, pb_errorCode = 0\<rparr>)"

text \<open>The loop of \<open>Run\<close>: \<open>probe i\<close> is the outcome of the \<open>i\<close>-th attempt, \<open>None\<close> when the context has ended by then.\<close>

fun probe_loop ::
    "(nat \<Rightarrow> probe_result option) \<Rightarrow> nat \<Rightarrow> nat \<Rightarrow> diag_result \<Rightarrow> int list \<Rightarrow> bool \<Rightarrow> uint32 \<Rightarrow> diag_result" where
  "probe_loop probe 0 i base rtts bindError code = summarize base rtts (dr_Sent base) bindError code"
| "probe_loop probe (Suc n) i base rtts bindError code =
     (case probe i of
        None \<Rightarrow> (summarize base rtts (dr_Sent base) bindError code)\<lparr>dr_Note := ''cancelled''\<rparr>
      | Some p \<Rightarrow>
          probe_loop probe n (i + 1) (base\<lparr>dr_Sent := dr_Sent base + 1\<rparr>)
            (if pb_success p then rtts @ [pb_roundTripTimeMS p] else rtts)
            (bindError \<or> pb_bindError p) (if pb_bindError p then pb_errorCode p else code))"

definition diag_Run ::
    "string option \<Rightarrow> (nat \<Rightarrow> bool) \<Rightarrow> (nat \<Rightarrow> uint32 \<Rightarrow> uint32 \<Rightarrow> uint32 \<Rightarrow> echo) \<Rightarrow> diag_config \<Rightarrow> diag_result" where
  "diag_Run newProber cancelled icmp config =
     (let config = withDefaults config;
          base = \<lparr>dr_Status = ''unavailable'', dr_LossRate = 100, dr_AvgLatencyMS = 0, dr_JitterMS = 0, dr_Sent = 0,
                  dr_Received = 0, dr_SourceIP = trim_space (dg_SourceIP config), dr_TargetIP = trim_space (dg_TargetIP config),
                  dr_Note = []\<rparr>
      in case parseIPv4 (dr_SourceIP base) of
           None \<Rightarrow> base\<lparr>dr_Note := ''invalid --src-ip''\<rparr>
         | Some source \<Rightarrow>
             (case parseIPv4 (dr_TargetIP base) of
                None \<Rightarrow> base\<lparr>dr_Note := ''invalid --target-ip''\<rparr>
              | Some target \<Rightarrow>
                  (case newProber of
                     Some e \<Rightarrow> base\<lparr>dr_Note := ''IcmpCreateFile failed: '' @ e\<rparr>
                   | None \<Rightarrow>
                       probe_loop (\<lambda>i. if cancelled i then None else Some (Probe (icmp i) source target (dg_Timeout config)))
                         (nat (dg_Count config)) 0 base [] False 0)))"

section \<open>Properties\<close>

definition rtts_ok :: "int list \<Rightarrow> bool" where
  "rtts_ok rtts \<longleftrightarrow> list_all (\<lambda>r. 0 \<le> r \<and> r < 2 ^ 32) rtts \<and> length rtts \<le> 100"

lemma rtt_loop_spec:
  assumes "list_all (\<lambda>r. 0 \<le> r \<and> r < 2 ^ 32) rtts" "0 \<le> s" "s + int (length rtts) * 2 ^ 32 < 2 ^ 63"
  shows "rtt_loop rtts (s, lo, hi) = (s + sum_list rtts, fold min rtts lo, fold max rtts hi)"
  using assms
proof (induction rtts arbitrary: s lo hi)
  case (Cons r rs)
  then have "wrap64 (s + r) = s + r" by (intro wrap64_id) auto
  moreover have "rtt_loop rs (s + r, lo', hi') = (s + r + sum_list rs, fold min rs lo', fold max rs hi')" for lo' hi'
    by (rule Cons.IH) (use Cons.prems in \<open>auto simp: algebra_simps\<close>)
  moreover have "(if r < lo then r else lo) = min r lo" "(if r > hi then r else hi) = max r hi" by auto
  ultimately show ?case by (simp add: algebra_simps)
qed simp

lemma sum_list_between:
  assumes "\<forall>r \<in> set rtts. lo \<le> r \<and> r \<le> (hi :: int)"
  shows "lo * int (length rtts) \<le> sum_list rtts \<and> sum_list rtts \<le> hi * int (length rtts)"
  using assms by (induction rtts) (auto simp: algebra_simps)

lemma fold_min_le: "fold min rs (a :: int) \<le> a \<and> (\<forall>r \<in> set rs. fold min rs a \<le> r) \<and> fold min rs a \<in> insert a (set rs)"
  by (induction rs arbitrary: a) (auto, (metis min.bounded_iff min_def insert_iff)+)

lemma fold_max_ge: "a \<le> fold max rs (a :: int) \<and> (\<forall>r \<in> set rs. r \<le> fold max rs a) \<and> fold max rs a \<in> insert a (set rs)"
  by (induction rs arbitrary: a) (auto, (metis max.bounded_iff max_def insert_iff)+)

text \<open>What \<open>summarize\<close> reports of the round-trip times it is given.\<close>

definition report_ok :: "int list \<Rightarrow> bool \<Rightarrow> diag_result \<Rightarrow> bool" where
  "report_ok rtts bindError r \<longleftrightarrow>
     dr_Received r = int (length rtts) \<and> dr_Received r \<le> dr_Sent r \<and> dr_Sent r \<le> 100
     \<and> dr_LossRate r = (if dr_Sent r = 0 then 100 else (dr_Sent r - dr_Received r) * 100 div dr_Sent r)
     \<and> (rtts = [] \<longrightarrow> dr_AvgLatencyMS r = 0 \<and> dr_JitterMS r = 0)
     \<and> (rtts \<noteq> [] \<longrightarrow> (\<exists>lo \<in> set rtts. \<exists>hi \<in> set rtts. (\<forall>x \<in> set rtts. lo \<le> x \<and> x \<le> hi)
            \<and> lo \<le> dr_AvgLatencyMS r \<and> dr_AvgLatencyMS r \<le> hi \<and> dr_JitterMS r = hi - lo)
            \<and> dr_AvgLatencyMS r = sum_list rtts div int (length rtts))
     \<and> dr_Status r = (if dr_LossRate r \<ge> 100 \<or> bindError then ''unavailable''
                      else if dr_LossRate r \<ge> 5 \<or> dr_JitterMS r > 100 then ''unstable'' else ''available'')"

lemma report_ok_note [simp]: "report_ok rtts b (r\<lparr>dr_Note := n\<rparr>) = report_ok rtts b r"
  by (simp add: report_ok_def)

lemma sdiv_nonneg: "0 \<le> (a :: int) \<Longrightarrow> 0 < b \<Longrightarrow> a sdiv b = a div b"
  by (simp add: signed_divide_int_def sgn_if)

lemma summarize_report:
  assumes "rtts_ok rtts" "int (length rtts) \<le> sent" "sent \<le> 100" "dr_AvgLatencyMS base = 0" "dr_JitterMS base = 0"
  shows "report_ok rtts b (summarize base rtts sent b code)"
proof -
  have loss: "wrap64 (wrap64 (sent - int (length rtts)) * 100) sdiv sent = (sent - int (length rtts)) * 100 div sent" if "sent \<noteq> 0"
    using assms that by (subst wrap64_id, auto simp: wrap64_id sdiv_nonneg)
  show ?thesis
  proof (cases "rtts = []")
    case True
    then show ?thesis using assms loss by (simp add: summarize_def report_ok_def Let_def)
  next
    case False
    define x where "x = rtts ! 0"
    have x: "x \<in> set rtts" using False by (simp add: x_def)
    define lo hi where "lo = fold min rtts x" and "hi = fold max rtts x"
    have loop: "rtt_loop rtts (0, x, x) = (sum_list rtts, lo, hi)"
      using assms(1) by (simp add: rtt_loop_spec rtts_ok_def lo_def hi_def)
    have mem: "lo \<in> set rtts" "hi \<in> set rtts" and bnd: "\<forall>r \<in> set rtts. lo \<le> r \<and> r \<le> hi"
      using fold_min_le [of rtts x] fold_max_ge [of x rtts] x by (auto simp: lo_def hi_def)
    have range: "\<forall>r \<in> set rtts. 0 \<le> r \<and> r < 2 ^ 32" using assms(1) by (simp add: rtts_ok_def list_all_iff)
    have n: "0 < int (length rtts)" using False by simp
    have s: "0 \<le> sum_list rtts" using range by (simp add: sum_list_nonneg)
    have avg: "lo \<le> sum_list rtts div int (length rtts)" "sum_list rtts div int (length rtts) \<le> hi"
      using zdiv_mono1 [of "lo * int (length rtts)" "sum_list rtts" "int (length rtts)"]
        zdiv_mono1 [of "sum_list rtts" "hi * int (length rtts)" "int (length rtts)"] sum_list_between [OF bnd] n by auto
    have jit: "wrap64 (hi - lo) = hi - lo"
      using bspec [OF range mem(1)] bspec [OF range mem(2)] by (intro wrap64_id) auto
    define S where "S = summarize base rtts sent b code"
    have "dr_Received S = int (length rtts)" "dr_Sent S = sent"
      "dr_LossRate S = (if sent = 0 then 100 else (sent - int (length rtts)) * 100 div sent)"
      "dr_AvgLatencyMS S = sum_list rtts div int (length rtts)" "dr_JitterMS S = hi - lo"
      "dr_Status S = (if dr_LossRate S \<ge> 100 \<or> b then ''unavailable''
                      else if dr_LossRate S \<ge> 5 \<or> dr_JitterMS S > 100 then ''unstable'' else ''available'')"
      using False loss by (simp_all add: S_def summarize_def x_def [symmetric] loop jit sdiv_nonneg [OF s n] Let_def)
    moreover have "\<exists>lo \<in> set rtts. \<exists>hi \<in> set rtts. (\<forall>x \<in> set rtts. lo \<le> x \<and> x \<le> hi)
        \<and> lo \<le> dr_AvgLatencyMS S \<and> dr_AvgLatencyMS S \<le> hi \<and> dr_JitterMS S = hi - lo"
      using mem bnd avg calculation(4,5) by auto
    ultimately show ?thesis
      using assms(2,3) False unfolding report_ok_def S_def by simp
  qed
qed

text \<open>The attempts made before the context ended, and the round-trip times of those that succeeded.\<close>

definition attempts :: "(nat \<Rightarrow> bool) \<Rightarrow> nat \<Rightarrow> nat list" where
  "attempts cancelled n = takeWhile (\<lambda>i. \<not> cancelled i) [0..<n]"

definition successes :: "(nat \<Rightarrow> probe_result) \<Rightarrow> nat list \<Rightarrow> int list" where
  "successes probe is = map pb_roundTripTimeMS (filter pb_success (map probe is))"

lemma probe_loop_report:
  assumes "rtts_ok rtts" "int (length rtts) \<le> dr_Sent base" "dr_Sent base + int n \<le> 100"
    "dr_AvgLatencyMS base = 0" "dr_JitterMS base = 0"
    "\<And>i. pb_success (probe i) \<Longrightarrow> 0 \<le> pb_roundTripTimeMS (probe i) \<and> pb_roundTripTimeMS (probe i) < 2 ^ 32"
  shows "report_ok (rtts @ successes probe (takeWhile (\<lambda>i. \<not> cancelled i) [i..<i + n]))
           (b \<or> (\<exists>j \<in> set (takeWhile (\<lambda>i. \<not> cancelled i) [i..<i + n]). pb_bindError (probe j)))
           (probe_loop (\<lambda>i. if cancelled i then None else Some (probe i)) n i base rtts b code)
       \<and> dr_Sent (probe_loop (\<lambda>i. if cancelled i then None else Some (probe i)) n i base rtts b code)
         = dr_Sent base + int (length (takeWhile (\<lambda>i. \<not> cancelled i) [i..<i + n]))"
  using assms
proof (induction n arbitrary: i base rtts b code)
  case 0
  have "dr_Sent (summarize base rtts (dr_Sent base) b code) = dr_Sent base"
    by (simp add: summarize_def Let_def split: prod.splits)
  with 0 summarize_report [of rtts "dr_Sent base" base b code] show ?case by (simp add: successes_def)
next
  case (Suc n)
  have up: "[i..<i + Suc n] = i # [i + 1..<i + 1 + n]" by (simp add: upt_rec)
  show ?case
  proof (cases "cancelled i")
    case True
    have "dr_Sent (summarize base rtts (dr_Sent base) b code) = dr_Sent base"
      by (simp add: summarize_def Let_def split: prod.splits)
    moreover have "report_ok rtts b (summarize base rtts (dr_Sent base) b code)"
      by (rule summarize_report) (use Suc.prems(1-5) in auto)
    ultimately show ?thesis
      unfolding up using True by (simp add: successes_def)
  next
    case False
    define rtts' where "rtts' = (if pb_success (probe i) then rtts @ [pb_roundTripTimeMS (probe i)] else rtts)"
    have ok: "rtts_ok rtts'" using Suc.prems by (auto simp: rtts_ok_def rtts'_def)
    have le: "int (length rtts') \<le> dr_Sent base + 1" using Suc.prems by (auto simp: rtts'_def)
    have app: "rtts @ successes probe (i # is) = rtts' @ successes probe is" for "is"
      by (simp add: successes_def rtts'_def)
    show ?thesis
      using Suc.IH [of rtts' "base\<lparr>dr_Sent := dr_Sent base + 1\<rparr>" "i + 1" "b \<or> pb_bindError (probe i)"
          "if pb_bindError (probe i) then pb_errorCode (probe i) else code"] Suc.prems ok le False
      unfolding up by (simp add: app rtts'_def [symmetric] disj_assoc)
  qed
qed

lemma Probe_rtt: "pb_success (Probe icmp a b t) \<Longrightarrow>
    0 \<le> pb_roundTripTimeMS (Probe icmp a b t) \<and> pb_roundTripTimeMS (Probe icmp a b t) < 2 ^ 32"
proof -
  have "uint (x :: uint32) < 2 ^ 32" for x using uint_lt2p [of x] by simp
  then show "pb_success (Probe icmp a b t) \<Longrightarrow> ?thesis"
    by (auto simp: Probe_def Let_def split: echo.splits if_splits)
qed

lemma withDefaults_bounds:
  "1 \<le> dg_Count (withDefaults c)" "dg_Count (withDefaults c) \<le> 100"
  "0 < dg_Timeout (withDefaults c)" "dg_Timeout (withDefaults c) \<le> 10 * Second"
  by (auto simp: withDefaults_def MaxCount_def DefaultCount_def DefaultTimeout_def time_defs Let_def)

text \<open>
  C22. A diagnostic run makes between 1 and 100 attempts, with a timeout of at most ten seconds each, and stops early only when
  its context ends. Its report is exact: it counts the attempts made and the replies received, the loss
  is the percentage of attempts without a reply, the average lies between the smallest and the
  largest round-trip time received and the jitter is the difference of the two, with no
  overflow whatever the 32-bit times are, and the verdict follows the thresholds of 5 % loss and 100 ms.
\<close>

theorem diagnostic_report_exact:
  assumes "parseIPv4 (dg_SourceIP config) = Some source" "parseIPv4 (dg_TargetIP (withDefaults config)) = Some target"
    and "r = diag_Run None cancelled icmp config"
  shows "let c = withDefaults config;
             is = attempts cancelled (nat (dg_Count c));
             probe = (\<lambda>i. Probe (icmp i) source target (dg_Timeout c))
         in dr_Sent r = int (length is) \<and> length is \<le> 100 \<and> 0 < dg_Timeout c \<and> dg_Timeout c \<le> 10 * Second
            \<and> 0 \<le> dr_LossRate r \<and> dr_LossRate r \<le> 100
            \<and> report_ok (successes probe is) (\<exists>i \<in> set is. pb_bindError (probe i)) r"
proof -
  define c where "c = withDefaults config"
  define n where "n = nat (dg_Count c)"
  define ps where "ps = attempts cancelled n"
  define probe where "probe = (\<lambda>i. Probe (icmp i) source target (dg_Timeout c))"
  have n: "n \<le> 100" using withDefaults_bounds(2) [of config] by (simp add: n_def c_def)
  have src: "trim_space (dg_SourceIP c) = dg_SourceIP c" "parseIPv4 (dg_SourceIP c) = Some source"
      "parseIPv4 (trim_space (dg_TargetIP c)) = Some target"
    using assms(1,2) by (simp_all add: c_def withDefaults_def parseIPv4_def Let_def)
  define base where "base = \<lparr>dr_Status = ''unavailable'', dr_LossRate = 100, dr_AvgLatencyMS = 0, dr_JitterMS = 0, dr_Sent = 0,
      dr_Received = 0, dr_SourceIP = dg_SourceIP c, dr_TargetIP = trim_space (dg_TargetIP c), dr_Note = []\<rparr>"
  have b: "dr_Sent base = 0" "dr_AvgLatencyMS base = 0" "dr_JitterMS base = 0" by (simp_all add: base_def)
  have r: "r = probe_loop (\<lambda>i. if cancelled i then None else Some (probe i)) n 0 base [] False 0"
    unfolding probe_def using src by (simp add: assms(3) diag_Run_def c_def [symmetric] n_def base_def Let_def)
  have "report_ok (successes probe ps) (\<exists>j \<in> set ps. pb_bindError (probe j)) r \<and> dr_Sent r = int (length ps)"
    using probe_loop_report [of "[]" base n probe cancelled 0 False 0] b n Probe_rtt
    by (simp add: r ps_def attempts_def rtts_ok_def probe_def)
  moreover have "length ps \<le> n" by (simp add: ps_def attempts_def order.trans [OF length_takeWhile_le])
  moreover have ok: "report_ok (successes probe ps) (\<exists>j \<in> set ps. pb_bindError (probe j)) r"
    using calculation by blast
  moreover have "0 \<le> dr_LossRate r \<and> dr_LossRate r \<le> 100"
  proof (cases "dr_Sent r = 0")
    case False
    then have "0 < dr_Sent r" "0 \<le> dr_Received r" "dr_Received r \<le> dr_Sent r"
      "dr_LossRate r = (dr_Sent r - dr_Received r) * 100 div dr_Sent r"
      using ok by (auto simp: report_ok_def)
    moreover from this have "(dr_Sent r - dr_Received r) * 100 div dr_Sent r \<le> (100 * dr_Sent r) div dr_Sent r"
      by (intro zdiv_mono1) auto
    ultimately show ?thesis by (simp add: pos_imp_zdiv_nonneg_iff)
  qed (use ok in \<open>simp add: report_ok_def\<close>)
  ultimately show ?thesis
    using n withDefaults_bounds(3,4) [of config] by (simp add: Let_def c_def ps_def n_def probe_def)
qed

definition example_diag :: diag_config where
  "example_diag = \<lparr>dg_SourceIP = ''10.0.0.2'', dg_TargetIP = [], dg_Count = 3, dg_Timeout = 0\<rparr>"

theorem diagnostic_report_exact_witness:
  "\<exists>r. r = diag_Run None (\<lambda>i. False) (\<lambda>i a b t. if i = 1 then EchoFailed 11010 else EchoReply 0 (20 + of_nat i)) example_diag
     \<and> dr_Sent r = 3 \<and> dr_Received r = 2 \<and> dr_LossRate r = 33 \<and> dr_AvgLatencyMS r = 21 \<and> dr_JitterMS r = 2
     \<and> dr_Status r = ''unstable''"
proof -
  have p: "parseIPv4 (dg_SourceIP example_diag) = Some [10, 0, 0, 2]"
    "parseIPv4 (dg_TargetIP (withDefaults example_diag)) = Some [223, 5, 5, 5]"
    by code_simp+
  have "dg_Count (withDefaults example_diag) = 3" by code_simp
  then have "attempts (\<lambda>i. False) (nat (dg_Count (withDefaults example_diag))) = [0, 1, 2]"
    by (simp add: attempts_def upt_rec)
  moreover define icmp :: "nat \<Rightarrow> uint32 \<Rightarrow> uint32 \<Rightarrow> uint32 \<Rightarrow> echo"
    where "icmp = (\<lambda>i a b t. if i = 1 then EchoFailed 11010 else EchoReply 0 (20 + of_nat i))"
  moreover have "successes (\<lambda>i. Probe (icmp i) a b t) [0, 1, 2] = [20, 22]"
    "\<forall>i \<in> {0, 1, 2}. \<not> pb_bindError (Probe (icmp i) a b t)" for a b t
    by (simp_all add: successes_def Probe_def icmp_def Let_def)
  ultimately have "report_ok [20, 22] False (diag_Run None (\<lambda>i. False) icmp example_diag)
      \<and> dr_Sent (diag_Run None (\<lambda>i. False) icmp example_diag) = 3"
    using diagnostic_report_exact [OF p refl, of "\<lambda>i. False" icmp] by (simp add: Let_def)
  then show ?thesis
    unfolding icmp_def by (auto simp: report_ok_def)
qed

end
