(* ===== verification/Api.thy ===== *)
theory Api
  imports Runtime Proxy_Server Tun_Supervisor Diagnostic
begin

text \<open>
  The messages of protocol version 1: \<open>engine/internal/protocol/protocol.go\<close> and the transport types of
  \<open>engine/internal/api/v1/types.go\<close> with their conversions. \<open>payload\<close> and \<open>event_data\<close> list what the
  code puts into the untyped fields \<open>Result\<close> and \<open>Data\<close>, \<open>detail\<close> what it puts into the map
  \<open>Details\<close>; an error there is the value whose \<open>Error()\<close> the code takes.
\<close>

section \<open>Parameters and their conversions\<close>

record diagnostic_params =
  dp_SourceIP :: string
  dp_TargetIP :: string
  dp_Count :: int
  dp_Timeout :: int

definition diagnostic_config :: "diagnostic_params \<Rightarrow> diag_config" where
  "diagnostic_config p = \<lparr>dg_SourceIP = dp_SourceIP p, dg_TargetIP = dp_TargetIP p, dg_Count = dp_Count p,
                          dg_Timeout = millis (dp_Timeout p)\<rparr>"

record dns_start =
  ds_Policy :: string
  ds_LegacyServers :: "string list"
  ds_CacheTTLMS :: int
  ds_QueryTimeoutMS :: int

definition ResolverConfig :: "dns_start \<Rightarrow> dns_config" where
  "ResolverConfig c = \<lparr>dc_Policy = ds_Policy c, dc_LegacyServers = ds_LegacyServers c,
     dc_CacheTTL = millis (ds_CacheTTLMS c), dc_QueryTimeout = millis (ds_QueryTimeoutMS c),
     dc_MaxCacheEntries = 0, dc_FailureThreshold = 0\<rparr>"

record start_params =
  ep_Mode :: string
  ep_ListenHost :: string
  ep_SOCKSPort :: int
  ep_HTTPPort :: int
  ep_Weighted :: bool
  ep_Adapters :: "adapter list"
  ep_Channels :: "channel list"
  ep_ConnectTimeoutMS :: int
  ep_DNS :: dns_start
  ep_DomainIsolation :: "bool option"
  ep_DomainIsolationExpiry :: "bool option"
  ep_DomainQuarantines :: "quarantine_seed list"

definition ProxyConfig :: "start_params \<Rightarrow> proxy_config" where
  "ProxyConfig p =
     (let domainIsolation = (case ep_DomainIsolation p of Some b \<Rightarrow> b | None \<Rightarrow> True);
          domainIsolationExpiry = (case ep_DomainIsolationExpiry p of Some b \<Rightarrow> b | None \<Rightarrow> True)
      in \<lparr>cf_ListenHost = ep_ListenHost p, cf_SOCKSPort = ep_SOCKSPort p, cf_HTTPPort = ep_HTTPPort p,
          cf_Weighted = ep_Weighted p, cf_Adapters = ep_Adapters p, cf_Channels = ep_Channels p,
          cf_ConnectTimeout = millis (ep_ConnectTimeoutMS p), cf_DNS = ResolverConfig (ep_DNS p),
          cf_DomainIsolation = Some domainIsolation, cf_DomainIsolationExpiry = Some domainIsolationExpiry,
          cf_DomainQuarantines = ep_DomainQuarantines p\<rparr>)"

record tun_params =
  tp_Executable :: string
  tp_ConfigPath :: string
  tp_StartupTimeoutMS :: int
  tp_StrictRoute :: bool

definition tun_params_config :: "tun_params \<Rightarrow> tun_config" where
  "tun_params_config p = \<lparr>tc_Executable = tp_Executable p, tc_ConfigPath = tp_ConfigPath p,
                          tc_StartupTimeout = millis (tp_StartupTimeoutMS p)\<rparr>"

record dns_params =
  np_Domain :: string
  np_Adapter :: string
  np_RecordType :: string

section \<open>Results\<close>

record identity =
  id_ProcessID :: int
  id_Elevated :: bool

record wfp_status =
  wf_Elevated :: bool
  wf_BFERunning :: bool
  wf_EngineReady :: bool
  wf_RepairAttempted :: bool
  wf_Repaired :: bool
  wf_Detail :: string

record hello_result =
  he_Engine :: string
  he_EngineVersion :: string
  he_Commit :: string
  he_ProtocolVersion :: int
  he_Transport :: string
  he_Capabilities :: "string list"
  he_Modes :: "string list"
  he_ModeFeatures :: "(string \<times> string list) list"
  he_OS :: string
  he_Arch :: string
  he_PID :: int
  he_Elevated :: bool
  he_StartedAt :: go_time

record proxy_status =
  py_Mode :: string
  py_Running :: bool
  py_Endpoints :: proxy_endpoints
  py_Telemetry :: server_snapshot

record status_result =
  sr_Engine :: snapshot
  sr_HostUptimeMS :: int
  sr_Proxy :: "proxy_status option"
  sr_Tun :: "tun_status option"

datatype core_error =
    ErrText string | ErrConfig config_error | ErrStart start_error | ErrStop stop_result
  | ErrDNS dns_request_error | ErrJoin "core_error list"

datatype detail =
  DText string | DState engine_state | DInts "int list" | DError core_error | DWFP wfp_status

datatype payload =
    PHello hello_result
  | PStatus status_result
  | PHealth bool engine_state int
  | PStart snapshot string proxy_endpoints
  | PStop bool snapshot
  | PTelemetry server_snapshot
  | PTun bool tun_status
  | PTunStatus tun_status
  | PDNS dns_result
  | PDNSStatus dns_status
  | PDiagnostic diag_result
  | PWFP wfp_status
  | PShutdown bool

datatype event_data =
  EState snapshot | ETun tun_status | ELog string string | EFallback string string string | EExiting string

section \<open>Messages\<close>

definition Version :: int where "Version = 1"
definition Transport :: string where "Transport = ''stdio-jsonl''"
definition MaxMessageBytes :: nat where "MaxMessageBytes = 1024 * 1024"

record request =
  rq_Protocol :: int
  rq_ID :: string
  rq_Method :: string
  rq_Params :: string

record protocol_error =
  er_Code :: string
  er_Message :: string
  er_Details :: "(string \<times> detail) list"

record response =
  rs_Protocol :: int
  rs_ID :: string
  rs_Result :: "payload option"
  rs_Error :: "protocol_error option"

record event =
  ev_Protocol :: int
  ev_Sequence :: uint64
  ev_Event :: string
  ev_Data :: event_data

definition Result :: "string \<Rightarrow> payload \<Rightarrow> response" where
  "Result i p = \<lparr>rs_Protocol = Version, rs_ID = i, rs_Result = Some p, rs_Error = None\<rparr>"

definition Failure :: "string \<Rightarrow> string \<Rightarrow> string \<Rightarrow> (string \<times> detail) list \<Rightarrow> response" where
  "Failure i code message details =
     \<lparr>rs_Protocol = Version, rs_ID = i, rs_Result = None,
      rs_Error = Some \<lparr>er_Code = code, er_Message = message, er_Details = details\<rparr>\<rparr>"

definition Notification :: "uint64 \<Rightarrow> string \<Rightarrow> event_data \<Rightarrow> event" where
  "Notification sequence name d = \<lparr>ev_Protocol = Version, ev_Sequence = sequence, ev_Event = name, ev_Data = d\<rparr>"

definition failure_code :: "response \<Rightarrow> string option" where
  "failure_code r = map_option er_Code (rs_Error r)"

section \<open>Methods and events\<close>

definition MethodEngineHello :: string where "MethodEngineHello = ''engine.hello''"
definition MethodEngineStatus :: string where "MethodEngineStatus = ''engine.status''"
definition MethodEngineStart :: string where "MethodEngineStart = ''engine.start''"
definition MethodEngineStop :: string where "MethodEngineStop = ''engine.stop''"
definition MethodEngineTelemetry :: string where "MethodEngineTelemetry = ''engine.telemetry''"
definition MethodTunActivate :: string where "MethodTunActivate = ''tun.activate''"
definition MethodTunStatus :: string where "MethodTunStatus = ''tun.status''"
definition MethodTunDeactivate :: string where "MethodTunDeactivate = ''tun.deactivate''"
definition MethodDNSResolve :: string where "MethodDNSResolve = ''dns.resolve''"
definition MethodDNSStatus :: string where "MethodDNSStatus = ''dns.status''"
definition MethodHealthCheck :: string where "MethodHealthCheck = ''health.check''"
definition MethodDiagnosticRun :: string where "MethodDiagnosticRun = ''diagnostic.run''"
definition MethodWFPInspect :: string where "MethodWFPInspect = ''wfp.inspect''"
definition MethodHostShutdown :: string where "MethodHostShutdown = ''host.shutdown''"

definition EventEngineStateChanged :: string where "EventEngineStateChanged = ''engine.state_changed''"
definition EventDNSFallbackRequired :: string where "EventDNSFallbackRequired = ''dns.fallback_required''"
definition EventTunStateChanged :: string where "EventTunStateChanged = ''tun.state_changed''"
definition EventLogRecord :: string where "EventLogRecord = ''log.record''"
definition EventHostExiting :: string where "EventHostExiting = ''host.exiting''"

lemmas method_defs = MethodEngineHello_def MethodEngineStatus_def MethodEngineStart_def MethodEngineStop_def
  MethodEngineTelemetry_def MethodTunActivate_def MethodTunStatus_def MethodTunDeactivate_def MethodDNSResolve_def
  MethodDNSStatus_def MethodHealthCheck_def MethodDiagnosticRun_def MethodWFPInspect_def MethodHostShutdown_def

definition capabilities :: "string list" where
  "capabilities =
     [MethodEngineHello, MethodEngineStatus, MethodEngineStart, MethodEngineStop, MethodEngineTelemetry,
      MethodTunActivate, MethodTunStatus, MethodTunDeactivate, MethodDNSResolve, MethodDNSStatus,
      MethodHealthCheck, MethodDiagnosticRun, MethodWFPInspect, MethodHostShutdown]"

definition NewHelloResult ::
    "string \<Rightarrow> string \<Rightarrow> string \<Rightarrow> string \<Rightarrow> string \<Rightarrow> int \<Rightarrow> bool \<Rightarrow> go_time \<Rightarrow> hello_result" where
  "NewHelloResult os arch engine version commit pid elevated startedAt =
     \<lparr>he_Engine = engine, he_EngineVersion = version, he_Commit = commit, he_ProtocolVersion = Version,
      he_Transport = Transport, he_Capabilities = capabilities, he_Modes = [''proxy'', ''tun_tcp_pool''],
      he_ModeFeatures =
        [(''proxy'', [''socks5_connect'', ''http_connect'', ''source_bound_dns'', ''ipv6_egress'', ''adaptive_health'',
                     ''domain_quarantine'']),
         (''tun_tcp_pool'', [''tcp_connect'', ''udp_associate'', ''ipv6_egress'', ''adaptive_health'',
                            ''managed_tun_lifecycle'', ''dynamic_nic_channels''])],
      he_OS = os, he_Arch = arch, he_PID = pid, he_Elevated = elevated, he_StartedAt = startedAt\<rparr>"

end
