(* ===== verification/Core_Server.thy ===== *)
theory Core_Server
  imports Api
begin

text \<open>
  \<open>engine/internal/server/server.go\<close>: the request server of the engine, on top of the lifecycle, the
  proxy server and the TUN supervisor. The main goroutine reads a line, handles the request
  and writes the response and the events that follow from it; \<open>co_main\<close> says where it stands. While
  it waits inside \<open>tun.Activate\<close> or \<open>tun.Stop\<close> it holds \<open>lifecycleMu\<close>, and the pieces of the supervisor
  run; \<open>handleTunUnexpectedExit\<close> runs in the goroutine of a sidecar and needs the same lock.
  What other packages and the operating system answer is given by \<open>core_env\<close>: the decoded forms
  that \<open>encoding/json\<close> gives for a line and for parameters, the sockets of the proxy, the packet filter.
  \<open>co_broken\<close> says that the output can no longer be written. A clock numbers the readings of one piece.
\<close>

section \<open>State\<close>

record wfp_adapter =
  wa_Name :: string
  wa_SourceIP :: string
  wa_IfIndex :: uint32

datatype decoded = NotJSON | TrailingJSON request | Decoded request

record 'w core_env =
  ce_decode :: "string \<Rightarrow> decoded"
  ce_start :: "string \<Rightarrow> start_params option"
  ce_telemetry :: "string \<Rightarrow> bool option"
  ce_dns :: "string \<Rightarrow> dns_params option"
  ce_tun :: "string \<Rightarrow> tun_params option"
  ce_diagnostic :: "string \<Rightarrow> diagnostic_params option"
  ce_wfp :: "string \<Rightarrow> bool option"
  ce_os :: string
  ce_arch :: string
  ce_proxy :: "'w server_env"
  ce_closeError :: "listener \<Rightarrow> bool"
  ce_drained :: "'w \<Rightarrow> bool"
  ce_openExemption :: "wfp_adapter list \<Rightarrow> 'w \<Rightarrow> (string + nat) \<times> 'w"
  ce_closeExemption :: "nat \<Rightarrow> string option"
  ce_inspectWFP :: "bool \<Rightarrow> wfp_status \<times> string option"
  ce_newProber :: "string option"
  ce_cancelled :: "nat \<Rightarrow> bool"
  ce_icmp :: "nat \<Rightarrow> uint32 \<Rightarrow> uint32 \<Rightarrow> uint32 \<Rightarrow> echo"
  ce_fs :: fs_env

type_synonym clock = "nat \<Rightarrow> go_time"

datatype message = MResponse response | MEvent event

text \<open>The snapshots that \<open>Run\<close> takes before it handles a line, and whether the server shuts down afterwards.\<close>

record frame =
  fr_state :: snapshot
  fr_tun :: tun_status
  fr_shutdown :: bool

text \<open>Which call of the supervisor the main goroutine waits for, with what it needs afterwards.\<close>

datatype tun_wait =
    WActivate string
  | WUndo string core_error
  | WStop string bool
  | WDeactivate string tun_status
  | WHostExit

datatype main = MainIdle | MainTun tun_wait frame | MainReply response frame | MainExited

record 'w core =
  co_name :: string
  co_version :: string
  co_commit :: string
  co_identity :: identity
  co_runtime :: runtime
  co_proxy :: "server option"
  co_tun :: supervisor
  co_adapters :: "wfp_adapter list"
  co_exemption :: "nat option"
  co_mode :: string
  co_started :: go_time
  co_eventSeq :: uint64
  co_output :: "message list"
  co_main :: main
  co_taken :: nat
  co_broken :: bool
  co_world :: 'w
  co_openedEx :: "nat list"
  co_closedEx :: "nat list"

definition New_core :: "go_time \<Rightarrow> string \<Rightarrow> string \<Rightarrow> string \<Rightarrow> identity \<Rightarrow> 'w \<Rightarrow> 'w core" where
  "New_core now name version commit ident w =
     \<lparr>co_name = name, co_version = version, co_commit = commit, co_identity = ident, co_runtime = new_runtime now,
      co_proxy = None, co_tun = SetHandlers NewSupervisor, co_adapters = [], co_exemption = None, co_mode = [],
      co_started = now, co_eventSeq = 0, co_output = [], co_main = MainIdle, co_taken = 0, co_broken = False,
      co_world = w, co_openedEx = [], co_closedEx = []\<rparr>"

definition core_state :: "'w core \<Rightarrow> engine_state" where "core_state s = rt_state (co_runtime s)"

section \<open>Output\<close>

definition writeMessage :: "message \<Rightarrow> 'w core \<Rightarrow> bool \<times> 'w core" where
  "writeMessage m s = (if co_broken s then (False, s) else (True, s\<lparr>co_output := co_output s @ [m]\<rparr>))"

definition emitEvent :: "string \<Rightarrow> event_data \<Rightarrow> 'w core \<Rightarrow> bool \<times> 'w core" where
  "emitEvent name d s =
     (let n = co_eventSeq s + 1 in writeMessage (MEvent (Notification n name d)) (s\<lparr>co_eventSeq := n\<rparr>))"

definition handleTunLog :: "string \<Rightarrow> 'w core \<Rightarrow> 'w core" where
  "handleTunLog message s = snd (emitEvent EventLogRecord (ELog ''sing-box'' message) s)"

definition handleDNSFallback :: "string \<Rightarrow> string \<Rightarrow> string \<Rightarrow> 'w core \<Rightarrow> 'w core" where
  "handleDNSFallback adapter policy reason s =
     snd (emitEvent EventDNSFallbackRequired (EFallback adapter policy reason) s)"

text \<open>A piece of the supervisor runs; what it logs becomes events.\<close>

definition tun_piece :: "tun_event \<Rightarrow> 'w core \<Rightarrow> 'w core option" where
  "tun_piece ev s =
     map_option (\<lambda>t. fold handleTunLog (drop (length (sp_logs (co_tun s))) (sp_logs t)) (s\<lparr>co_tun := t\<rparr>))
       (sup_exec ev (co_tun s))"

definition tun_call :: "tun_event \<Rightarrow> 'w core \<Rightarrow> 'w core" where
  "tun_call ev s = (case tun_piece ev s of Some t \<Rightarrow> t | None \<Rightarrow> s)"

section \<open>Parts of the handlers\<close>

definition move_to :: "go_time \<Rightarrow> engine_state \<Rightarrow> string \<Rightarrow> 'w core \<Rightarrow> 'w core" where
  "move_to now next reason s = s\<lparr>co_runtime := transition_to now next reason (co_runtime s)\<rparr>"

definition closeDNSExemption :: "'w core_env \<Rightarrow> 'w core \<Rightarrow> string option \<times> 'w core" where
  "closeDNSExemption env s =
     (case co_exemption s of
        None \<Rightarrow> (None, s)
      | Some h \<Rightarrow> (ce_closeExemption env h, s\<lparr>co_exemption := None, co_closedEx := co_closedEx s @ [h]\<rparr>))"

text \<open>\<open>s.proxy.Stop\<close>, when there is a proxy.\<close>

definition stop_proxy_server :: "'w core_env \<Rightarrow> 'w core \<Rightarrow> stop_result option \<times> 'w core" where
  "stop_proxy_server env s =
     (case co_proxy s of
        None \<Rightarrow> (None, s)
      | Some p \<Rightarrow>
          let (res, p) = Stop (ce_closeError env) (ce_drained env (co_world s)) p
          in (if res = StopOk then None else Some res, s\<lparr>co_proxy := Some p\<rparr>))"

definition clear_proxy :: "'w core \<Rightarrow> 'w core" where
  "clear_proxy s = s\<lparr>co_proxy := None, co_mode := [], co_adapters := []\<rparr>"

definition join_core :: "core_error option list \<Rightarrow> core_error option" where
  "join_core es = (let xs = map the (filter (\<lambda>e. e \<noteq> None) es) in if xs = [] then None else Some (ErrJoin xs))"

definition uptimeMilliseconds :: "go_time \<Rightarrow> 'w core \<Rightarrow> int" where
  "uptimeMilliseconds now s = (now - co_started s) div Millisecond"

definition wfp_adapters :: "adapter list \<Rightarrow> wfp_adapter list" where
  "wfp_adapters as =
     map (\<lambda>a. \<lparr>wa_Name = ad_Name a, wa_SourceIP = ad_SourceIP a, wa_IfIndex = word_of_int (ad_IfIndex a)\<rparr>)
       (filter (\<lambda>a. \<not> ad_IfIndex a \<le> 0) as)"

fun engine_state_name :: "engine_state \<Rightarrow> string" where
  "engine_state_name StateStopped = ''stopped''"
| "engine_state_name StateStarting = ''starting''"
| "engine_state_name StateRunning = ''running''"
| "engine_state_name StateDegraded = ''degraded''"
| "engine_state_name StateStopping = ''stopping''"
| "engine_state_name StateFailed = ''failed''"

fun transition_error :: "runtime_error \<Rightarrow> string" where
  "transition_error (InvalidTransition previous next) =
     ''invalid engine state transition \"'' @ engine_state_name previous @ ''\" -> \"'' @ engine_state_name next @ ''\"''"

section \<open>Handlers\<close>

datatype handled = Answer response | AwaitTun tun_wait

definition hello :: "'w core_env \<Rightarrow> 'w core \<Rightarrow> hello_result" where
  "hello env s = NewHelloResult (ce_os env) (ce_arch env) (co_name s) (co_version s) (co_commit s)
                   (id_ProcessID (co_identity s)) (id_Elevated (co_identity s)) (co_started s)"

definition core_status :: "clock \<Rightarrow> 'w core \<Rightarrow> status_result \<times> 'w core" where
  "core_status clock s =
     (let (py, s) =
        (case co_proxy s of
           None \<Rightarrow> (None, s)
         | Some p \<Rightarrow>
             let (t, p') = Snapshot (clock 1) False p
             in (Some \<lparr>py_Mode = co_mode s, py_Running = Running p, py_Endpoints = server_Endpoints p, py_Telemetry = t\<rparr>,
                 s\<lparr>co_proxy := Some p'\<rparr>))
      in (\<lparr>sr_Engine = rt_snapshot (co_runtime s), sr_HostUptimeMS = uptimeMilliseconds (clock 0) s, sr_Proxy = py,
           sr_Tun = (if tun_state_of (co_tun s) \<noteq> TunStopped then Some (Status (co_tun s)) else None)\<rparr>, s))"

text \<open>The rest of \<open>startProxy\<close> once the request is accepted.\<close>

definition start_engine :: "'w core_env \<Rightarrow> clock \<Rightarrow> string \<Rightarrow> string \<Rightarrow> start_params \<Rightarrow> 'w core \<Rightarrow> response \<times> 'w core" where
  "start_engine env clock i mode params s =
     (case Transition (clock 0) (co_runtime s) StateStarting (mode @ '' start requested'') of
        (r, Inl e) \<Rightarrow> (Failure i ''invalid_state'' (transition_error e) [], s\<lparr>co_runtime := r\<rparr>)
      | (r, Inr _) \<Rightarrow>
          let s = s\<lparr>co_runtime := r\<rparr>;
              failed = (\<lambda>e s. (Failure i ''start_failed'' ''could not start proxy engine'' [(''message'', DError e)],
                               move_to (clock 2) StateFailed ''proxy start failed'' s))
          in case New (clock 1) (ProxyConfig params) of
               Inl e \<Rightarrow> failed (ErrConfig e) s
             | Inr p \<Rightarrow>
                 let (res, p, w) = Start (ce_proxy env) (SetDNSFallbackHandler True p) (co_world s);
                     s = s\<lparr>co_world := w\<rparr>
                 in case res of
                      Inl e \<Rightarrow> failed (ErrStart e) s
                    | Inr endpoints \<Rightarrow>
                        let s = s\<lparr>co_proxy := Some p, co_mode := mode, co_adapters := wfp_adapters (ep_Adapters params)\<rparr>;
                            s = move_to (clock 2) StateRunning (mode @ '' listeners ready'') s
                        in (Result i (PStart (rt_snapshot (co_runtime s)) mode endpoints), s))"

definition startProxy :: "'w core_env \<Rightarrow> clock \<Rightarrow> request \<Rightarrow> 'w core \<Rightarrow> response \<times> 'w core" where
  "startProxy env clock rq s =
     (let i = rq_ID rq; state = core_state s
      in if state \<noteq> StateStopped \<and> state \<noteq> StateFailed then
           (Failure i ''invalid_state'' ''engine must be stopped before it can start'' [(''state'', DState state)], s)
         else
           case ce_start env (rq_Params rq) of
             None \<Rightarrow> (Failure i ''invalid_params'' ''engine start params are not valid JSON'' [], s)
           | Some params \<Rightarrow>
               let mode = (if ep_Mode params = [] then ''proxy'' else ep_Mode params)
               in if mode \<noteq> ''proxy'' \<and> mode \<noteq> ''tun_tcp_pool'' then
                    (Failure i ''unsupported_mode'' ''unsupported engine mode'' [(''mode'', DText (ep_Mode params))], s)
                  else if mode = ''proxy'' \<and> ep_Channels params \<noteq> [] then
                    (Failure i ''invalid_params'' ''proxy mode cannot configure TUN channels'' [], s)
                  else if mode = ''tun_tcp_pool'' \<and> ep_Channels params = [] then
                    (Failure i ''invalid_params'' ''tun_tcp_pool mode requires channels'' [], s)
                  else start_engine env clock i mode params s)"

definition stopped_result :: "string \<Rightarrow> bool \<Rightarrow> 'w core \<Rightarrow> response" where
  "stopped_result i accepted s = Result i (PStop accepted (rt_snapshot (co_runtime s)))"

text \<open>\<open>stopProxyLocked\<close> up to the call of \<open>tun.Stop\<close>, and from its return on.\<close>

definition stopProxy :: "clock \<Rightarrow> string \<Rightarrow> 'w core \<Rightarrow> handled \<times> 'w core" where
  "stopProxy clock i s =
     (let state = core_state s
      in if state = StateStopped then (Answer (stopped_result i False s), s)
         else if state = StateFailed then (AwaitTun (WStop i True), tun_call CallStop s)
         else if state \<noteq> StateRunning \<and> state \<noteq> StateDegraded then
           (Answer (Failure i ''invalid_state'' ''engine cannot stop from its current state'' [(''state'', DState state)]), s)
         else (AwaitTun (WStop i False), tun_call CallStop (move_to (clock 0) StateStopping ''proxy stop requested'' s)))"

definition stop_resume :: "'w core_env \<Rightarrow> clock \<Rightarrow> string \<Rightarrow> bool \<Rightarrow> string option \<Rightarrow> 'w core \<Rightarrow> response \<times> 'w core" where
  "stop_resume env clock i failed tunErr s =
     (let (wfpErr, s) = closeDNSExemption env s;
          (proxyErr, s) = stop_proxy_server env s;
          err = join_core [map_option ErrText tunErr, map_option ErrText wfpErr, map_option ErrStop proxyErr]
      in if failed then
           let s = move_to (clock 0) StateStopped ''failed proxy cleared'' (clear_proxy s)
           in case err of
                Some e \<Rightarrow> (Failure i ''stop_failed'' ''could not clear failed engine'' [(''message'', DError e)], s)
              | None \<Rightarrow> (stopped_result i True s, s)
         else
           case err of
             Some e \<Rightarrow>
               (Failure i ''stop_failed'' ''could not stop engine transaction'' [(''message'', DError e)],
                move_to (clock 0) StateFailed ''engine stop failed'' s)
           | None \<Rightarrow>
               let s = move_to (clock 0) StateStopped ''proxy stopped'' (clear_proxy s) in (stopped_result i True s, s))"

definition proxyTelemetry :: "'w core_env \<Rightarrow> clock \<Rightarrow> request \<Rightarrow> 'w core \<Rightarrow> response \<times> 'w core" where
  "proxyTelemetry env clock rq s =
     (case co_proxy s of
        None \<Rightarrow> (Failure (rq_ID rq) ''invalid_state'' ''proxy engine is not running'' [], s)
      | Some p \<Rightarrow>
          if \<not> Running p then (Failure (rq_ID rq) ''invalid_state'' ''proxy engine is not running'' [], s)
          else case (if rq_Params rq \<noteq> [] then ce_telemetry env (rq_Params rq) else Some False) of
                 None \<Rightarrow> (Failure (rq_ID rq) ''invalid_params'' ''telemetry params are not valid JSON'' [], s)
               | Some includeConnections \<Rightarrow>
                   let (t, p) = Snapshot (clock 0) includeConnections p
                   in (Result (rq_ID rq) (PTelemetry t), s\<lparr>co_proxy := Some p\<rparr>))"

definition resolveDNS :: "'w core_env \<Rightarrow> request \<Rightarrow> 'w core \<Rightarrow> response \<times> 'w core" where
  "resolveDNS env rq s =
     (case co_proxy s of
        None \<Rightarrow> (Failure (rq_ID rq) ''invalid_state'' ''proxy engine is not running'' [], s)
      | Some p \<Rightarrow>
          if \<not> Running p then (Failure (rq_ID rq) ''invalid_state'' ''proxy engine is not running'' [], s)
          else case ce_dns env (rq_Params rq) of
                 None \<Rightarrow> (Failure (rq_ID rq) ''invalid_params'' ''DNS params are not valid JSON'' [], s)
               | Some q \<Rightarrow>
                   let (out, p, w) = ResolveDNS (se_proxy (ce_proxy env)) (np_Domain q) (np_Adapter q) (np_RecordType q) p (co_world s);
                       s = s\<lparr>co_proxy := Some p, co_world := w\<rparr>
                   in case out of
                        Inl e \<Rightarrow> (Failure (rq_ID rq) ''dns_failed'' ''DNS resolution failed'' [(''message'', DError (ErrDNS e))], s)
                      | Inr result \<Rightarrow> (Result (rq_ID rq) (PDNS result), s))"

definition dnsStatus :: "clock \<Rightarrow> string \<Rightarrow> 'w core \<Rightarrow> response \<times> 'w core" where
  "dnsStatus clock i s =
     (case co_proxy s of
        None \<Rightarrow> (Failure i ''invalid_state'' ''proxy engine is not running'' [], s)
      | Some p \<Rightarrow>
          let (st, p) = DNSStatus (clock 0) p; s = s\<lparr>co_proxy := Some p\<rparr>
          in case st of
               None \<Rightarrow> (Failure i ''invalid_state'' ''proxy engine is not running'' [], s)
             | Some st \<Rightarrow> (Result i (PDNSStatus st), s))"

text \<open>\<open>activateTun\<close>: the strict-route exemption, then \<open>tun.Activate\<close>; what follows its return; and the return of the \<open>tun.Stop\<close> that undoes a failure.\<close>

definition strict_route :: "'w core_env \<Rightarrow> string \<Rightarrow> 'w core \<Rightarrow> response option \<times> 'w core" where
  "strict_route env i s =
     (if \<not> id_Elevated (co_identity s) then
        (Some (Failure i ''elevation_required'' ''strict-route WFP DNS exemption requires an elevated Core'' []), s)
      else
        let (res, w) = ce_openExemption env (co_adapters s) (co_world s); s = s\<lparr>co_world := w\<rparr>
        in case res of
             Inl e \<Rightarrow> (Some (Failure i ''wfp_unavailable'' ''could not install the dynamic WFP DNS exemption''
                              [(''message'', DError (ErrText e))]), s)
           | Inr h \<Rightarrow>
               let (closeErr, s) = closeDNSExemption env (s\<lparr>co_openedEx := co_openedEx s @ [h]\<rparr>)
               in case closeErr of
                    Some e \<Rightarrow> (Some (Failure i ''wfp_unavailable'' ''could not replace the previous dynamic WFP DNS exemption''
                                     [(''message'', DError (ErrText e))]), s\<lparr>co_closedEx := co_closedEx s @ [h]\<rparr>)
                  | None \<Rightarrow> (None, s\<lparr>co_exemption := Some h\<rparr>))"

definition activateTun :: "'w core_env \<Rightarrow> request \<Rightarrow> 'w core \<Rightarrow> handled \<times> 'w core" where
  "activateTun env rq s =
     (let i = rq_ID rq
      in if core_state s \<noteq> StateRunning \<or> co_proxy s = None \<or> co_mode s \<noteq> ''tun_tcp_pool'' then
           (Answer (Failure i ''invalid_state'' ''TUN activation requires a running tun_tcp_pool'' []), s)
         else
           case ce_tun env (rq_Params rq) of
             None \<Rightarrow> (Answer (Failure i ''invalid_params'' ''TUN activation params are not valid JSON'' []), s)
           | Some params \<Rightarrow>
               (case (if tp_StrictRoute params then strict_route env i s else (None, s)) of
                  (Some r, s) \<Rightarrow> (Answer r, s)
                | (None, s) \<Rightarrow> (AwaitTun (WActivate i), tun_call (CallActivate (ce_fs env) (tun_params_config params)) s)))"

definition activate_resume :: "string \<Rightarrow> tun_return \<Rightarrow> 'w core \<Rightarrow> handled \<times> 'w core" where
  "activate_resume i ret s =
     (case ret of
        (st, None) \<Rightarrow> (Answer (Result i (PTun True st)), s)
      | (st, Some e) \<Rightarrow> (AwaitTun (WUndo i (ErrText e)), tun_call CallStop s))"

definition undo_resume :: "'w core_env \<Rightarrow> clock \<Rightarrow> string \<Rightarrow> core_error \<Rightarrow> string option \<Rightarrow> 'w core \<Rightarrow> response \<times> 'w core" where
  "undo_resume env clock i e tunErr s =
     (let (wfpErr, s) = closeDNSExemption env s;
          (proxyErr, s) = stop_proxy_server env s;
          s = move_to (clock 0) StateFailed ''TUN activation failed'' (clear_proxy s)
      in (Failure i ''tun_failed'' ''could not activate managed TUN lifecycle''
            [(''message'', DError (the (join_core [Some e, map_option ErrText tunErr, map_option ErrText wfpErr, map_option ErrStop proxyErr])))], s))"

definition deactivateTun :: "string \<Rightarrow> 'w core \<Rightarrow> handled \<times> 'w core" where
  "deactivateTun i s = (AwaitTun (WDeactivate i (Status (co_tun s))), tun_call CallStop s)"

definition deactivate_resume :: "'w core_env \<Rightarrow> string \<Rightarrow> tun_status \<Rightarrow> tun_return \<Rightarrow> 'w core \<Rightarrow> response \<times> 'w core" where
  "deactivate_resume env i before ret s =
     (let (wfpErr, s) = closeDNSExemption env s
      in case join_core [map_option ErrText (snd ret), map_option ErrText wfpErr] of
           Some e \<Rightarrow> (Failure i ''tun_failed'' ''could not deactivate managed TUN lifecycle'' [(''message'', DError e)], s)
         | None \<Rightarrow> (Result i (PTun (tu_State before \<noteq> TunStopped) (fst ret)), s))"

definition handleTunUnexpectedExit :: "'w core_env \<Rightarrow> clock \<Rightarrow> tun_status \<Rightarrow> 'w core \<Rightarrow> 'w core" where
  "handleTunUnexpectedExit env clock st s =
     (let s = snd (closeDNSExemption env s);
          s = (if co_mode s = ''tun_tcp_pool'' \<and> co_proxy s \<noteq> None then clear_proxy (snd (stop_proxy_server env s)) else s);
          state = core_state s;
          s = (if state = StateRunning \<or> state = StateDegraded
               then move_to (clock 0) StateFailed ''managed TUN sidecar exited unexpectedly'' s else s);
          engineState = rt_snapshot (co_runtime s);
          s = snd (emitEvent EventTunStateChanged (ETun st) s)
      in snd (emitEvent EventEngineStateChanged (EState engineState) s))"

text \<open>\<open>stopProxyForHostExit\<close>, the deferred call of \<open>Run\<close>, after the return of \<open>tun.Stop\<close>.\<close>

definition exit_resume :: "'w core_env \<Rightarrow> clock \<Rightarrow> 'w core \<Rightarrow> 'w core" where
  "exit_resume env clock s =
     (let s = snd (closeDNSExemption env s);
          s = clear_proxy (snd (stop_proxy_server env s));
          state = core_state s
      in if state = StateRunning \<or> state = StateDegraded
         then move_to (clock 1) StateStopped ''host exited'' (move_to (clock 0) StateStopping ''host exiting'' s) else s)"

section \<open>Requests\<close>

definition runDiagnostic :: "'w core_env \<Rightarrow> request \<Rightarrow> response" where
  "runDiagnostic env rq =
     (case (if rq_Params rq \<noteq> [] then ce_diagnostic env (rq_Params rq)
            else Some \<lparr>dp_SourceIP = [], dp_TargetIP = [], dp_Count = 0, dp_Timeout = 0\<rparr>) of
        None \<Rightarrow> Failure (rq_ID rq) ''invalid_params'' ''diagnostic params are not valid JSON'' []
      | Some p \<Rightarrow> Result (rq_ID rq) (PDiagnostic
                     (diag_Run (ce_newProber env) (ce_cancelled env) (ce_icmp env) (diagnostic_config p))))"

definition inspectWFP :: "'w core_env \<Rightarrow> request \<Rightarrow> 'w core \<Rightarrow> response" where
  "inspectWFP env rq s =
     (case (if rq_Params rq \<noteq> [] then ce_wfp env (rq_Params rq) else Some False) of
        None \<Rightarrow> Failure (rq_ID rq) ''invalid_params'' ''WFP params are not valid JSON'' []
      | Some repair \<Rightarrow>
          (case ce_inspectWFP env repair of
             (result, None) \<Rightarrow> Result (rq_ID rq) (PWFP result)
           | (result, Some e) \<Rightarrow>
               Failure (rq_ID rq)
                 (if repair \<and> \<not> id_Elevated (co_identity s) then ''elevation_required'' else ''wfp_unavailable'')
                 e [(''status'', DWFP result)]))"

definition answered :: "response \<times> 'w core \<Rightarrow> handled \<times> 'w core" where
  "answered x = (Answer (fst x), snd x)"

definition dispatch :: "'w core_env \<Rightarrow> clock \<Rightarrow> request \<Rightarrow> 'w core \<Rightarrow> handled \<times> 'w core" where
  "dispatch env clock rq s =
     (let i = rq_ID rq; m = rq_Method rq
      in if m = MethodEngineHello then (Answer (Result i (PHello (hello env s))), s)
         else if m = MethodEngineStatus then (let (r, s) = core_status clock s in (Answer (Result i (PStatus r)), s))
         else if m = MethodEngineStart then answered (startProxy env clock rq s)
         else if m = MethodEngineStop then stopProxy clock i s
         else if m = MethodEngineTelemetry then answered (proxyTelemetry env clock rq s)
         else if m = MethodTunActivate then activateTun env rq s
         else if m = MethodTunStatus then (Answer (Result i (PTunStatus (Status (co_tun s)))), s)
         else if m = MethodTunDeactivate then deactivateTun i s
         else if m = MethodDNSResolve then answered (resolveDNS env rq s)
         else if m = MethodDNSStatus then answered (dnsStatus clock i s)
         else if m = MethodHealthCheck then
           (Answer (Result i (PHealth True (core_state s) (uptimeMilliseconds (clock 0) s))), s)
         else if m = MethodDiagnosticRun then (Answer (runDiagnostic env rq), s)
         else if m = MethodWFPInspect then (Answer (inspectWFP env rq s), s)
         else if m = MethodHostShutdown then stopProxy clock i s
         else (Answer (Failure i ''method_not_found'' ''unknown method'' [(''method'', DText m)]), s))"

text \<open>The checks of \<open>handle\<close> before the dispatch.\<close>

definition handle :: "'w core_env \<Rightarrow> clock \<Rightarrow> string \<Rightarrow> 'w core \<Rightarrow> handled \<times> 'w core" where
  "handle env clock line s =
     (case ce_decode env line of
        NotJSON \<Rightarrow> (Answer (Failure [] ''invalid_json'' ''request is not valid JSON'' []), s)
      | TrailingJSON rq \<Rightarrow> (Answer (Failure (rq_ID rq) ''invalid_json'' ''request contains trailing JSON'' []), s)
      | Decoded rq \<Rightarrow>
          if rq_Protocol rq \<noteq> Version then
            (Answer (Failure (rq_ID rq) ''unsupported_protocol'' ''unsupported protocol version'' [(''supported'', DInts [Version])]), s)
          else if trim_space (rq_ID rq) = [] then
            (Answer (Failure [] ''invalid_request'' ''request id is required'' []), s)
          else if trim_space (rq_Method rq) = [] then
            (Answer (Failure (rq_ID rq) ''invalid_request'' ''request method is required'' []), s)
          else dispatch env clock rq s)"

text \<open>\<open>host.shutdown\<close> drops the answer of \<open>stopProxy\<close> and shuts the server down.\<close>

definition shuts_down :: "'w core_env \<Rightarrow> string \<Rightarrow> bool" where
  "shuts_down env line =
     (case ce_decode env line of
        Decoded rq \<Rightarrow> rq_Protocol rq = Version \<and> trim_space (rq_ID rq) \<noteq> [] \<and> rq_Method rq = MethodHostShutdown
      | _ \<Rightarrow> False)"

definition to_reply :: "frame \<Rightarrow> response \<Rightarrow> response" where
  "to_reply f r = (if fr_shutdown f then Result (rs_ID r) (PShutdown True) else r)"

section \<open>The main goroutine\<close>

definition begin_exit :: "frame \<Rightarrow> 'w core \<Rightarrow> 'w core" where
  "begin_exit f s = (tun_call CallStop s)\<lparr>co_main := MainTun WHostExit f\<rparr>"

definition current_frame :: "bool \<Rightarrow> 'w core \<Rightarrow> frame" where
  "current_frame shutdown s =
     \<lparr>fr_state = rt_snapshot (co_runtime s), fr_tun = Status (co_tun s), fr_shutdown = shutdown\<rparr>"

definition go_on :: "frame \<Rightarrow> handled \<times> 'w core \<Rightarrow> 'w core" where
  "go_on f x =
     (case x of
        (Answer r, s) \<Rightarrow> s\<lparr>co_main := MainReply (to_reply f r) f\<rparr>
      | (AwaitTun w, s) \<Rightarrow> s\<lparr>co_main := MainTun w f\<rparr>)"

text \<open>A line read by \<open>Run\<close>.\<close>

definition run_line :: "'w core_env \<Rightarrow> clock \<Rightarrow> string \<Rightarrow> 'w core \<Rightarrow> 'w core" where
  "run_line env clock text s =
     (let line = trim_space text
      in if line = [] then s
         else go_on (current_frame (shuts_down env line) s) (handle env clock line s))"

text \<open>The call of the supervisor has returned: the handler goes on.\<close>

definition resume :: "'w core_env \<Rightarrow> clock \<Rightarrow> tun_wait \<Rightarrow> frame \<Rightarrow> tun_return \<Rightarrow> 'w core \<Rightarrow> 'w core" where
  "resume env clock w f ret s =
     (case w of
        WActivate i \<Rightarrow> go_on f (activate_resume i ret s)
      | WUndo i e \<Rightarrow> go_on f (answered (undo_resume env clock i e (snd ret) s))
      | WStop i failed \<Rightarrow> go_on f (answered (stop_resume env clock i failed (snd ret) s))
      | WDeactivate i before \<Rightarrow> go_on f (answered (deactivate_resume env i before ret s))
      | WHostExit \<Rightarrow> (exit_resume env clock s)\<lparr>co_main := MainExited\<rparr>)"

text \<open>The response and the events that follow it; a message that cannot be written ends \<open>Run\<close>.\<close>

definition run_reply :: "response \<Rightarrow> frame \<Rightarrow> 'w core \<Rightarrow> 'w core" where
  "run_reply r f s =
     (let (ok1, s) = writeMessage (MResponse r) s;
          stateAfter = rt_snapshot (co_runtime s);
          (ok2, s) = (if ok1 \<and> sn_Sequence stateAfter \<noteq> sn_Sequence (fr_state f)
                      then emitEvent EventEngineStateChanged (EState stateAfter) s else (ok1, s));
          tunAfter = Status (co_tun s);
          (ok3, s) = (if ok2 \<and> (tu_State tunAfter \<noteq> tu_State (fr_tun f) \<or> tu_PID tunAfter \<noteq> tu_PID (fr_tun f))
                      then emitEvent EventTunStateChanged (ETun tunAfter) s else (ok2, s));
          (ok4, s) = (if ok3 \<and> fr_shutdown f then emitEvent EventHostExiting (EExiting ''requested'') s else (ok3, s))
      in if ok4 \<and> \<not> fr_shutdown f then s\<lparr>co_main := MainIdle\<rparr> else begin_exit f s)"

section \<open>One step of the engine\<close>

datatype core_event =
    Line clock string
  | EndOfInput
  | Resume clock
  | Reply
  | Tun tun_event
  | SidecarExit clock
  | Fallback string string string
  | UseProxy server
  | BreakOutput

definition lock_free :: "main \<Rightarrow> bool" where
  "lock_free m = (case m of MainTun _ _ \<Rightarrow> False | _ \<Rightarrow> True)"

text \<open>
  \<open>Tun\<close> runs a piece of the supervisor that is not the beginning of a call: only the handlers call it.
  \<open>UseProxy\<close> is anything the goroutines of the proxy do: they leave its listeners alone.
\<close>

definition starts_call :: "tun_event \<Rightarrow> bool" where
  "starts_call ev = (case ev of CallActivate _ _ \<Rightarrow> True | CallStop \<Rightarrow> True | _ \<Rightarrow> False)"

definition core_exec :: "'w core_env \<Rightarrow> core_event \<Rightarrow> 'w core \<Rightarrow> 'w core option" where
  "core_exec env ev s =
     (case ev of
        Line clock text \<Rightarrow> if co_main s = MainIdle then Some (run_line env clock text s) else None
      | EndOfInput \<Rightarrow> if co_main s = MainIdle then Some (begin_exit (current_frame False s) s) else None
      | Resume clock \<Rightarrow>
          (case co_main s of
             MainTun w f \<Rightarrow>
               if sp_call (co_tun s) = NoCall then Some (resume env clock w f (last (sp_returned (co_tun s))) s) else None
           | _ \<Rightarrow> None)
      | Reply \<Rightarrow> (case co_main s of MainReply r f \<Rightarrow> Some (run_reply r f s) | _ \<Rightarrow> None)
      | Tun ev \<Rightarrow> if starts_call ev then None else tun_piece ev s
      | SidecarExit clock \<Rightarrow>
          if lock_free (co_main s) \<and> co_taken s < length (sp_reports (co_tun s))
          then Some (handleTunUnexpectedExit env clock (snd (sp_reports (co_tun s) ! co_taken s)) (s\<lparr>co_taken := co_taken s + 1\<rparr>))
          else None
      | Fallback adapter policy reason \<Rightarrow> Some (handleDNSFallback adapter policy reason s)
      | UseProxy p' \<Rightarrow>
          Option.bind (co_proxy s) (\<lambda>p. if sv_running p' = sv_running p then Some (s\<lparr>co_proxy := Some p'\<rparr>) else None)
      | BreakOutput \<Rightarrow> Some (s\<lparr>co_broken := True\<rparr>))"

fun core_run :: "'w core_env \<Rightarrow> core_event list \<Rightarrow> 'w core \<Rightarrow> 'w core option" where
  "core_run env [] s = Some s"
| "core_run env (ev # evs) s = Option.bind (core_exec env ev s) (core_run env evs)"

end
