(* ===== verification/Tun_Inv.thy ===== *)
theory Tun_Inv
  imports Tun_Supervisor
begin

text \<open>
  The invariant of the supervisor over every interleaving of \<open>Activate\<close>, \<open>Stop\<close> and the goroutines of
  all runs, the progress of a run, and the properties that follow: no sidecar is left unattended,
  a run is done only after its cleanup, \<open>Stop\<close> always gets on. The last section has concrete runs,
  one of which shows two runs overlapping.
\<close>

section \<open>The invariant\<close>

fun marked :: "wait_stage \<Rightarrow> bool" where
  "marked WaitExit \<longleftrightarrow> False"
| "marked (WaitMark _ _ _ _) \<longleftrightarrow> False"
| "marked _ \<longleftrightarrow> True"

fun cleaned :: "wait_stage \<Rightarrow> bool" where
  "cleaned (WaitClose _ _) \<longleftrightarrow> True"
| "cleaned (WaitReport _ _) \<longleftrightarrow> True"
| "cleaned WaitEnded \<longleftrightarrow> True"
| "cleaned _ \<longleftrightarrow> False"

fun finished :: "wait_stage \<Rightarrow> bool" where
  "finished (WaitReport _ _) \<longleftrightarrow> True"
| "finished WaitEnded \<longleftrightarrow> True"
| "finished _ \<longleftrightarrow> False"

fun mark_flag :: "wait_stage \<Rightarrow> bool \<Rightarrow> bool" where
  "mark_flag (WaitMark unexpected _ _ _) intentional \<longleftrightarrow> unexpected \<or> intentional"
| "mark_flag _ _ \<longleftrightarrow> True"

definition run_ok :: "sidecar_run \<Rightarrow> bool" where
  "run_ok x \<longleftrightarrow>
     rn_done x = finished (rn_stage x) \<and> (rn_cleanup x \<noteq> None) = cleaned (rn_stage x)
     \<and> (rn_stage x \<noteq> WaitExit \<longrightarrow> \<not> rn_alive x) \<and> rn_killed x = rn_intentional x
     \<and> mark_flag (rn_stage x) (rn_intentional x)"

text \<open>What the status says of the current run, by where the holder of \<open>stopMu\<close> stands.\<close>

definition idle_ok :: "supervisor \<Rightarrow> bool" where
  "idle_ok s \<longleftrightarrow>
     tun_state_of s \<in> {TunStopped, TunRunning, TunFailed}
     \<and> (case sp_run s of
          None \<Rightarrow> tun_state_of s \<noteq> TunRunning
        | Some r \<Rightarrow>
            let x = sp_runs s ! r
            in if tun_state_of s = TunRunning
               then \<not> marked (rn_stage x) \<and> \<not> rn_intentional x \<and> tu_PID (sp_status s) = rn_pid x
               else marked (rn_stage x))"

definition waiting_ok :: "nat \<Rightarrow> supervisor \<Rightarrow> bool" where
  "waiting_ok r s \<longleftrightarrow>
     (let x = sp_runs s ! r
      in sp_run s = Some r \<and> \<not> rn_intentional x
         \<and> (if marked (rn_stage x) then tun_state_of s = TunFailed
            else tun_state_of s = TunStarting \<and> tu_PID (sp_status s) = rn_pid x))"

definition ending_ok :: "tun_state set \<Rightarrow> nat \<Rightarrow> supervisor \<Rightarrow> bool" where
  "ending_ok S r s \<longleftrightarrow> sp_run s = Some r \<and> rn_intentional (sp_runs s ! r) \<and> tun_state_of s \<in> S"

definition call_ok :: "supervisor \<Rightarrow> bool" where
  "call_ok s \<longleftrightarrow>
     (case sp_call s of
        NoCall \<Rightarrow> idle_ok s
      | ActivateWait r \<Rightarrow> waiting_ok r s
      | ActivateAbort r _ \<Rightarrow> ending_ok {TunStarting, TunStopped, TunFailed} r s
      | StopWait r \<Rightarrow> ending_ok {TunStopping, TunStopped, TunFailed} r s
      | _ \<Rightarrow> tun_state_of s = TunStarting \<and> (\<forall>r. sp_run s = Some r \<longrightarrow> marked (rn_stage (sp_runs s ! r))))"

definition sup_inv :: "supervisor \<Rightarrow> bool" where
  "sup_inv s \<longleftrightarrow>
     list_all run_ok (sp_runs s) \<and> (\<forall>r. sp_run s = Some r \<longrightarrow> r < length (sp_runs s))
     \<and> (\<forall>i < length (sp_runs s). sp_run s \<noteq> Some i \<longrightarrow>
           rn_intentional (sp_runs s ! i) \<or> marked (rn_stage (sp_runs s ! i)))
     \<and> call_ok s
     \<and> distinct (map fst (sp_reports s))
     \<and> (\<forall>r \<in> fst ` set (sp_reports s). r < length (sp_runs s) \<and> rn_stage (sp_runs s ! r) = WaitEnded)"

lemmas tun_step_defs = activate_begin_def activate_checked_def activate_cleaned_def activate_launched_def
  markRunning_def activate_exited_def terminate_begin_def activate_cancelled_def stop_begin_def stop_end_def
  wait_exited_def wait_mark_def wait_cleanup_def wait_close_def wait_report_def pump_line_def pump_error_def
  update_run_def give_back_def activate_fail_def failStart_def emitLog_def Status_def Let_def

lemma sup_inv_NewSupervisor: "sup_inv (SetHandlers NewSupervisor)" "sup_inv NewSupervisor"
  by (simp_all add: sup_inv_def SetHandlers_def NewSupervisor_def call_ok_def idle_ok_def tun_state_of_def blank_status_def)

text \<open>What the invariant says of a state whose runs, current run and reports are the old ones.\<close>

lemma sup_inv_frame:
  assumes "sup_inv s" "sp_runs t = sp_runs s" "sp_run t = sp_run s" "sp_reports t = sp_reports s" "call_ok t"
  shows "sup_inv t"
  using assms by (simp add: sup_inv_def)

lemma call_ok_cong:
  assumes "sp_call t = sp_call s" "sp_runs t = sp_runs s" "sp_run t = sp_run s"
    "tun_state_of t = tun_state_of s" "tu_PID (sp_status t) = tu_PID (sp_status s)"
  shows "call_ok t = call_ok s"
  using assms by (simp add: call_ok_def idle_ok_def waiting_ok_def ending_ok_def Let_def split: tun_call.splits option.splits)

text \<open>A run moves on: the other runs are as before.\<close>

lemma sup_inv_update:
  assumes "sup_inv s" "r < length (sp_runs s)" "run_ok (f (sp_runs s ! r))"
    "rn_intentional (sp_runs s ! r) \<Longrightarrow> rn_intentional (f (sp_runs s ! r))"
    "marked (rn_stage (sp_runs s ! r)) \<Longrightarrow> marked (rn_stage (f (sp_runs s ! r)))"
    "r \<in> fst ` set (sp_reports s) \<Longrightarrow> rn_stage (f (sp_runs s ! r)) = WaitEnded"
    "sp_runs t = (sp_runs s)[r := f (sp_runs s ! r)]" "sp_run t = sp_run s" "sp_reports t = sp_reports s"
    "call_ok t"
  shows "sup_inv t"
  using assms unfolding sup_inv_def
  by (auto simp: list_all_length nth_list_update)

text \<open>One lemma for each piece of \<open>Activate\<close> and \<open>Stop\<close>.\<close>

lemma current_run:
  assumes "sup_inv s" "sp_run s = Some r"
  shows "r < length (sp_runs s)" "run_ok (sp_runs s ! r)"
  using assms by (auto simp: sup_inv_def list_all_length)

lemma done_marked: "run_ok x \<Longrightarrow> rn_done x \<Longrightarrow> marked (rn_stage x)"
  by (auto simp: run_ok_def elim: finished.elims)

lemma terminate_inv:
  assumes inv: "sup_inv s" and cur: "sp_run s = Some r"
    and t: "sp_runs t = sp_runs (terminate_begin r s)" "sp_run t = sp_run s" "sp_reports t = sp_reports s" "call_ok t"
  shows "sup_inv t"
  by (rule sup_inv_update [OF inv current_run(1) [OF inv cur], where f = "\<lambda>x. x\<lparr>rn_intentional := True, rn_killed := True\<rparr>"])
    (use current_run [OF inv cur] inv t in \<open>auto simp: terminate_begin_def update_run_def run_ok_def sup_inv_def
       elim!: mark_flag.elims\<close>)

lemma activate_begin_inv: "sup_inv s \<Longrightarrow> sp_call s = NoCall \<Longrightarrow> sup_inv (activate_begin fs c s)"
  by (rule sup_inv_frame [of s]) (auto simp: tun_step_defs sup_inv_def call_ok_def idle_ok_def tun_state_of_def
      blank_status_def split: sum.splits option.splits if_splits)

lemma stop_begin_inv:
  assumes inv: "sup_inv s" and c: "sp_call s = NoCall"
  shows "sup_inv (stop_begin s)"
proof (cases "sp_run s")
  case None
  show ?thesis
    by (rule sup_inv_frame [OF inv])
      (use inv c None in \<open>auto simp: tun_step_defs sup_inv_def call_ok_def idle_ok_def tun_state_of_def blank_status_def\<close>)
next
  case (Some r)
  show ?thesis
    by (rule terminate_inv [OF inv Some])
      (use Some current_run [OF inv Some] in \<open>auto simp: tun_step_defs call_ok_def ending_ok_def tun_state_of_def\<close>)
qed

lemma activate_checked_inv: "sup_inv s \<Longrightarrow> sp_call s = ActivateCheck c \<Longrightarrow> sup_inv (activate_checked now res c s)"
  by (rule sup_inv_frame [of s])
    (auto simp: tun_step_defs sup_inv_def call_ok_def idle_ok_def tun_state_of_def split: option.splits)

lemma activate_cleaned_inv: "sup_inv s \<Longrightarrow> sp_call s = ActivateClean c \<Longrightarrow> sup_inv (activate_cleaned now res c s)"
  by (rule sup_inv_frame [of s])
    (auto simp: tun_step_defs sup_inv_def call_ok_def idle_ok_def tun_state_of_def split: option.splits)

lemma activate_launched_inv:
  assumes inv: "sup_inv s" and c: "sp_call s = ActivateLaunch c"
  shows "sup_inv (activate_launched now l c s)"
proof (cases l)
  case (Launched pid)
  with inv c show ?thesis
    by (auto simp: tun_step_defs sup_inv_def call_ok_def waiting_ok_def tun_state_of_def new_run_def run_ok_def
        nth_append less_Suc_eq)
qed (rule sup_inv_frame [OF inv];
    use inv c in \<open>auto simp: tun_step_defs sup_inv_def call_ok_def idle_ok_def tun_state_of_def split: option.splits\<close>)+

lemma waiting_run: "sup_inv s \<Longrightarrow> sp_call s = ActivateWait r \<Longrightarrow> waiting_ok r s \<and> sp_run s = Some r"
  by (auto simp: sup_inv_def call_ok_def waiting_ok_def Let_def)

lemma markRunning_inv:
  assumes inv: "sup_inv s" and c: "sp_call s = ActivateWait r"
  shows "sup_inv (markRunning r s)"
  by (rule sup_inv_frame [OF inv])
    (use waiting_run [OF inv c] in \<open>auto simp: tun_step_defs call_ok_def idle_ok_def waiting_ok_def tun_state_of_def split: if_splits\<close>)

lemma activate_exited_inv:
  assumes inv: "sup_inv s" and c: "sp_call s = ActivateWait r" and d: "rn_done (sp_runs s ! r)"
  shows "sup_inv (activate_exited s)"
  by (rule sup_inv_frame [OF inv])
    (use waiting_run [OF inv c] done_marked [OF current_run(2) [OF inv] d]
      in \<open>auto simp: tun_step_defs call_ok_def idle_ok_def waiting_ok_def tun_state_of_def\<close>)

lemma activate_cancelled_inv:
  assumes inv: "sup_inv s" and c: "sp_call s = ActivateWait r"
  shows "sup_inv (activate_cancelled r e s)"
  by (rule terminate_inv [OF inv])
    (use waiting_run [OF inv c] current_run [OF inv] in \<open>auto simp: tun_step_defs call_ok_def ending_ok_def waiting_ok_def
       tun_state_of_def split: if_splits\<close>)

lemma activate_aborted_inv:
  assumes inv: "sup_inv s" and c: "sp_call s = ActivateAbort r e" and d: "rn_done (sp_runs s ! r)"
  shows "sup_inv (activate_fail now e e s)"
proof -
  have w: "ending_ok {TunStarting, TunStopped, TunFailed} r s"
    using inv c by (auto simp: sup_inv_def call_ok_def)
  then have "marked (rn_stage (sp_runs s ! r))"
    using done_marked [OF current_run(2) [OF inv] d] by (simp add: ending_ok_def)
  with w show ?thesis
    by (intro sup_inv_frame [OF inv]) (auto simp: tun_step_defs call_ok_def idle_ok_def ending_ok_def tun_state_of_def)
qed

lemma stop_end_inv: "sup_inv s \<Longrightarrow> sp_call s = StopWait r \<Longrightarrow> sup_inv (stop_end w r s)"
  by (auto simp: tun_step_defs sup_inv_def call_ok_def ending_ok_def idle_ok_def tun_state_of_def blank_status_def)

lemmas call_inv = activate_begin_inv stop_begin_inv activate_checked_inv activate_cleaned_inv activate_launched_inv
  markRunning_inv activate_exited_inv activate_cancelled_inv activate_aborted_inv stop_end_inv

lemma sup_inv_call: "sup_inv s \<Longrightarrow> call_step ev s = Some t \<Longrightarrow> sup_inv t"
  by (auto simp: call_step_def call_inv split: tun_call.splits tun_event.splits if_splits)

lemma call_ok_update:
  assumes "sp_call t = sp_call s" "sp_run t = sp_run s"
    "tun_state_of t = tun_state_of s" "tu_PID (sp_status t) = tu_PID (sp_status s)"
    "sp_runs t = (sp_runs s)[r := y]" "r < length (sp_runs s)"
    "marked (rn_stage y) = marked (rn_stage (sp_runs s ! r))" "rn_intentional y = rn_intentional (sp_runs s ! r)"
    "rn_pid y = rn_pid (sp_runs s ! r)"
  shows "call_ok t = call_ok s"
proof -
  have "rn_intentional (sp_runs t ! i) = rn_intentional (sp_runs s ! i) \<and> rn_pid (sp_runs t ! i) = rn_pid (sp_runs s ! i)
      \<and> marked (rn_stage (sp_runs t ! i)) = marked (rn_stage (sp_runs s ! i))" for i
    using assms by (cases "i = r") auto
  then show ?thesis
    using assms by (simp add: call_ok_def idle_ok_def waiting_ok_def ending_ok_def Let_def split: tun_call.splits option.splits)
qed

text \<open>The exit of the current run is recorded: the status follows.\<close>

lemma call_ok_mark:
  assumes "call_ok s" "rn_stage (sp_runs s ! r) = WaitMark u code err now" "run_ok (sp_runs s ! r)"
    "r < length (sp_runs s)"
  shows "call_ok (wait_mark u code err now r s)"
proof (cases "sp_run s = Some r")
  case True
  then show ?thesis
    using assms by (auto simp: wait_mark_def exit_status_def update_run_def call_ok_def idle_ok_def waiting_ok_def
        ending_ok_def tun_state_of_def run_ok_def Status_def Let_def split: tun_call.splits if_splits)
next
  case False
  then have "sp_run s = Some i \<Longrightarrow> i \<noteq> r" for i by auto
  with False show ?thesis
    using assms(1) by (auto simp: wait_mark_def update_run_def call_ok_def idle_ok_def waiting_ok_def
        ending_ok_def tun_state_of_def Let_def split: tun_call.splits if_splits option.splits)
qed

lemma run_of_Some: "run_of s r = Some x \<longleftrightarrow> r < length (sp_runs s) \<and> x = sp_runs s ! r"
  by (auto simp: run_of_def)

text \<open>One lemma for each piece of \<open>waitProcess\<close>, on a run that stands there.\<close>

lemma run_facts:
  assumes "sup_inv s" "r < length (sp_runs s)"
  shows "run_ok (sp_runs s ! r)" "call_ok s" "rn_stage (sp_runs s ! r) \<noteq> WaitEnded \<Longrightarrow> r \<notin> fst ` set (sp_reports s)"
  using assms by (auto simp: sup_inv_def list_all_length)

lemma process_exits_inv:
  assumes inv: "sup_inv s" and r: "r < length (sp_runs s)"
  shows "sup_inv (update_run r (\<lambda>x. x\<lparr>rn_alive := False\<rparr>) s)"
proof (rule sup_inv_update [OF inv r])
  show "call_ok (update_run r (\<lambda>x. x\<lparr>rn_alive := False\<rparr>) s)"
    by (rule iffD2 [OF call_ok_update [where r = r and y = "(sp_runs s ! r)\<lparr>rn_alive := False\<rparr>"] run_facts(2) [OF inv r]])
      (use r in \<open>simp_all add: update_run_def tun_state_of_def\<close>)
qed (use run_facts(1) [OF inv r] inv in \<open>auto simp: update_run_def run_ok_def sup_inv_def\<close>)

lemma wait_exited_inv:
  assumes inv: "sup_inv s" and r: "r < length (sp_runs s)"
    and g: "rn_stage (sp_runs s ! r) = WaitExit" "\<not> rn_alive (sp_runs s ! r)"
  shows "sup_inv (wait_exited now code err r s)"
proof (rule sup_inv_update [OF inv r])
  show "call_ok (wait_exited now code err r s)"
    by (rule iffD2 [OF call_ok_update [where r = r
          and y = "(sp_runs s ! r)\<lparr>rn_stage := WaitMark (\<not> rn_intentional (sp_runs s ! r)) code err now\<rparr>"] run_facts(2) [OF inv r]])
      (use r g in \<open>simp_all add: wait_exited_def update_run_def tun_state_of_def\<close>)
  show "sp_runs (wait_exited now code err r s) = (sp_runs s)[r :=
      (\<lambda>x. x\<lparr>rn_stage := WaitMark (\<not> rn_intentional x) code err now\<rparr>) (sp_runs s ! r)]"
    by (simp add: wait_exited_def update_run_def)
qed (use run_facts [OF inv r] g in \<open>auto simp: wait_exited_def update_run_def run_ok_def\<close>)

lemma wait_mark_inv:
  assumes inv: "sup_inv s" and r: "r < length (sp_runs s)" and g: "rn_stage (sp_runs s ! r) = WaitMark u code err now"
  shows "sup_inv (wait_mark u code err now r s)"
proof -
  obtain st where st: "sp_runs (wait_mark u code err now r s) = (sp_runs s)[r := (sp_runs s ! r)\<lparr>rn_stage := WaitCleanup u st\<rparr>]"
    by (cases "sp_run s = Some r") (auto simp: wait_mark_def update_run_def Let_def intro: that)
  show ?thesis
    by (rule sup_inv_update [OF inv r, where f = "\<lambda>x. x\<lparr>rn_stage := WaitCleanup u st\<rparr>"])
      (use run_facts [OF inv r] g st call_ok_mark [OF run_facts(2) [OF inv r] g run_facts(1) [OF inv r] r]
        in \<open>auto simp: run_ok_def wait_mark_def update_run_def Let_def\<close>)
qed

lemma wait_cleanup_inv:
  assumes inv: "sup_inv s" and r: "r < length (sp_runs s)" and g: "rn_stage (sp_runs s ! r) = WaitCleanup u st"
  shows "sup_inv (wait_cleanup e u st r s)"
proof -
  define t where "t = wait_cleanup e u st r s"
  obtain st' where t': "sp_runs t = (sp_runs s)[r := (sp_runs s ! r)\<lparr>rn_cleanup := Some e, rn_stage := WaitClose u st'\<rparr>]"
    by (cases "e \<noteq> None \<and> sp_run s = Some r \<and> u") (auto simp: t_def wait_cleanup_def update_run_def Let_def intro: that)
  have rest: "sp_call t = sp_call s" "sp_run t = sp_run s" "sp_reports t = sp_reports s" "tun_state_of t = tun_state_of s"
      "tu_PID (sp_status t) = tu_PID (sp_status s)"
    by (simp_all add: t_def wait_cleanup_def update_run_def tun_state_of_def Let_def)
  have "call_ok t"
    by (rule iffD2 [OF call_ok_update [OF rest(1,2,4,5) t' r] run_facts(2) [OF inv r]]) (use g in simp_all)
  then have "sup_inv t"
    by (rule sup_inv_update [OF inv r, where f = "\<lambda>x. x\<lparr>rn_cleanup := Some e, rn_stage := WaitClose u st'\<rparr>", rotated 7])
      (use run_facts [OF inv r] g t' rest in \<open>auto simp: run_ok_def\<close>)
  then show ?thesis by (simp add: t_def)
qed

lemma wait_close_inv:
  assumes inv: "sup_inv s" and r: "r < length (sp_runs s)" and g: "rn_stage (sp_runs s ! r) = WaitClose u st"
  shows "sup_inv (wait_close u st r s)"
proof (rule sup_inv_update [OF inv r])
  show "call_ok (wait_close u st r s)"
    by (rule iffD2 [OF call_ok_update [where r = r and y = "(sp_runs s ! r)\<lparr>rn_done := True, rn_stage := WaitReport u st\<rparr>"]
          run_facts(2) [OF inv r]])
      (use r g in \<open>simp_all add: wait_close_def update_run_def tun_state_of_def\<close>)
  show "sp_runs (wait_close u st r s) = (sp_runs s)[r := (\<lambda>x. x\<lparr>rn_done := True, rn_stage := WaitReport u st\<rparr>) (sp_runs s ! r)]"
    by (simp add: wait_close_def update_run_def)
qed (use run_facts [OF inv r] g in \<open>auto simp: wait_close_def update_run_def run_ok_def\<close>)

lemma wait_report_inv:
  assumes inv: "sup_inv s" and r: "r < length (sp_runs s)" and g: "rn_stage (sp_runs s ! r) = WaitReport u st"
  shows "sup_inv (wait_report u st r s)"
proof -
  define t where "t = update_run r (\<lambda>x. x\<lparr>rn_stage := WaitEnded\<rparr>) s"
  have t: "wait_report u st r s = t\<lparr>sp_reports := sp_reports s @
      (if u \<and> \<not> rn_intentional (sp_runs s ! r) \<and> sp_onUnexpected s then [(r, st)] else [])\<rparr>"
    by (simp add: t_def wait_report_def update_run_def Let_def)
  have "call_ok t"
    by (rule iffD2 [OF call_ok_update [where r = r and y = "(sp_runs s ! r)\<lparr>rn_stage := WaitEnded\<rparr>"] run_facts(2) [OF inv r]])
      (use r g in \<open>simp_all add: t_def update_run_def tun_state_of_def\<close>)
  moreover have "sup_inv t"
    by (rule sup_inv_update [OF inv r _ _ _ _ _ _ _ \<open>call_ok t\<close>, where f = "\<lambda>x. x\<lparr>rn_stage := WaitEnded\<rparr>"])
      (use run_facts [OF inv r] g in \<open>auto simp: t_def update_run_def run_ok_def\<close>)
  moreover have "call_ok (t\<lparr>sp_reports := x\<rparr>) = call_ok t" for x
    by (rule call_ok_cong) (simp_all add: tun_state_of_def)
  moreover have "r \<notin> fst ` set (sp_reports s)" by (rule run_facts(3) [OF inv r]) (simp add: g)
  ultimately show ?thesis
    unfolding t sup_inv_def by (auto simp: t_def update_run_def r)
qed

lemma sup_inv_same:
  assumes "sup_inv s" "sp_runs t = sp_runs s" "sp_run t = sp_run s" "sp_reports t = sp_reports s"
    "sp_call t = sp_call s" "sp_status t = sp_status s"
  shows "sup_inv t"
  using assms call_ok_cong [of t s] by (simp add: sup_inv_def tun_state_of_def)

lemma pump_inv: "sup_inv s \<Longrightarrow> sup_inv (pump_line stderr line s)" "sup_inv s \<Longrightarrow> sup_inv (pump_error stderr e s)"
  by (erule sup_inv_same; simp add: pump_line_def pump_error_def emitLog_def Let_def)+

lemmas run_inv = process_exits_inv wait_exited_inv wait_mark_inv wait_cleanup_inv wait_close_inv wait_report_inv pump_inv

lemma sup_inv_run: "sup_inv s \<Longrightarrow> run_step ev s = Some t \<Longrightarrow> sup_inv t"
  by (cases ev) (auto simp: run_step_def bind_eq_Some_conv run_of_Some run_inv split: if_splits wait_stage.splits)

lemma sup_inv_exec: "sup_inv s \<Longrightarrow> sup_exec ev s = Some t \<Longrightarrow> sup_inv t"
  by (auto simp: sup_exec_def split: option.splits dest: sup_inv_call sup_inv_run)

definition sup_init :: "supervisor \<Rightarrow> bool" where
  "sup_init s \<longleftrightarrow> s = SetHandlers NewSupervisor"

definition sup_step :: "supervisor \<Rightarrow> tun_event \<Rightarrow> supervisor \<Rightarrow> bool" where
  "sup_step s ev t \<longleftrightarrow> sup_exec ev s = Some t"

interpretation sidecar: invariant_system sup_init sup_step sup_inv
  by unfold_locales (auto simp: sup_init_def sup_step_def sup_inv_NewSupervisor sup_inv_exec)

section \<open>Progress of a run\<close>

fun rank :: "wait_stage \<Rightarrow> nat" where
  "rank WaitExit = 5"
| "rank (WaitMark _ _ _ _) = 4"
| "rank (WaitCleanup _ _) = 3"
| "rank (WaitClose _ _) = 2"
| "rank (WaitReport _ _) = 1"
| "rank WaitEnded = 0"

text \<open>What never goes back: the goroutine of a run only advances, its flags stay set and its cleanup result is final.\<close>

definition run_after :: "sidecar_run \<Rightarrow> sidecar_run \<Rightarrow> bool" where
  "run_after x y \<longleftrightarrow>
     rank (rn_stage y) \<le> rank (rn_stage x) \<and> (rn_alive y \<longrightarrow> rn_alive x) \<and> (rn_intentional x \<longrightarrow> rn_intentional y)
     \<and> (rn_killed x \<longrightarrow> rn_killed y) \<and> (rn_done x \<longrightarrow> rn_done y)
     \<and> (\<forall>e. rn_cleanup x = Some e \<longrightarrow> rn_cleanup y = Some e) \<and> rn_pid y = rn_pid x"

lemma run_after_refl [simp]: "run_after x x"
  by (simp add: run_after_def)

lemma runs_after_update:
  assumes "sp_runs t = (sp_runs s)[i := y]" "run_after (sp_runs s ! i) y" "r < length (sp_runs s)"
  shows "r < length (sp_runs t) \<and> run_after (sp_runs s ! r) (sp_runs t ! r)"
  using assms by (cases "r = i") auto

lemma call_step_after:
  assumes "call_step ev s = Some t" "r < length (sp_runs s)"
  shows "r < length (sp_runs t) \<and> run_after (sp_runs s ! r) (sp_runs t ! r)"
proof -
  have *: "sp_runs t = sp_runs s \<or> (\<exists>pid. sp_runs t = sp_runs s @ [new_run pid])
      \<or> (\<exists>i. sp_runs t = (sp_runs s)[i := (sp_runs s ! i)\<lparr>rn_intentional := True, rn_killed := True\<rparr>])"
    using assms(1) by (auto simp: call_step_def tun_step_defs split: tun_call.splits tun_event.splits if_splits
        sum.splits option.splits launch.splits)
  have "run_after (sp_runs s ! i) ((sp_runs s ! i)\<lparr>rn_intentional := True, rn_killed := True\<rparr>)" for i
    by (simp add: run_after_def)
  with * assms(2) show ?thesis
    by (auto simp: nth_append dest: runs_after_update)
qed

lemma update_run_after:
  assumes "sp_runs s' = sp_runs s" "r < length (sp_runs s)" "i < length (sp_runs s) \<Longrightarrow> run_after (sp_runs s ! i) (f (sp_runs s ! i))"
  shows "r < length (sp_runs (update_run i f s')) \<and> run_after (sp_runs s ! r) (sp_runs (update_run i f s') ! r)"
  using assms by (cases "r = i") (auto simp: update_run_def)

lemma run_step_after:
  assumes inv: "sup_inv s" and step: "run_step ev s = Some t" and r: "r < length (sp_runs s)"
  shows "r < length (sp_runs t) \<and> run_after (sp_runs s ! r) (sp_runs t ! r)"
proof -
  have rk: "run_ok (sp_runs s ! i)" if "i < length (sp_runs s)" for i
    using inv that by (simp add: sup_inv_def list_all_length)
  note split = run_step_def bind_eq_Some_conv run_of_Some
  show ?thesis
  proof (cases ev)
    case (ProcessExits i)
    then have "t = update_run i (\<lambda>x. x\<lparr>rn_alive := False\<rparr>) s" using step by (auto simp: split split: if_splits)
    then show ?thesis using update_run_after [OF refl r, of i "\<lambda>x. x\<lparr>rn_alive := False\<rparr>"] by (simp add: run_after_def)
  next
    case (Waited i now code err)
    then have "rn_stage (sp_runs s ! i) = WaitExit" "t = wait_exited now code err i s"
      using step by (auto simp: split split: if_splits)
    then show ?thesis by (simp only: wait_exited_def Let_def split_beta, intro update_run_after r) (auto simp: run_after_def)
  next
    case (Marked i)
    then obtain u code err now where "rn_stage (sp_runs s ! i) = WaitMark u code err now" "t = wait_mark u code err now i s"
      using step by (auto simp: split split: wait_stage.splits)
    then show ?thesis by (simp only: wait_mark_def Let_def split_beta, intro update_run_after r) (auto simp: run_after_def)
  next
    case (RunCleaned i platform containment)
    then obtain u st where g: "i < length (sp_runs s)" "rn_stage (sp_runs s ! i) = WaitCleanup u st"
      and t: "t = wait_cleanup (cleanup_result platform containment) u st i s"
      using step by (auto simp: split split: wait_stage.splits)
    have "rn_cleanup (sp_runs s ! i) = None" using rk [OF g(1)] g(2) by (simp add: run_ok_def)
    then show ?thesis using g(2) by (simp only: t wait_cleanup_def Let_def split_beta, intro update_run_after r) (auto simp: run_after_def)
  next
    case (Closed i)
    then obtain u st where "rn_stage (sp_runs s ! i) = WaitClose u st" "t = wait_close u st i s"
      using step by (auto simp: split split: wait_stage.splits)
    then show ?thesis by (simp only: wait_close_def Let_def split_beta, intro update_run_after r) (auto simp: run_after_def)
  next
    case (Reported i)
    then obtain u st where "rn_stage (sp_runs s ! i) = WaitReport u st" "t = wait_report u st i s"
      using step by (auto simp: split split: wait_stage.splits)
    then show ?thesis by (simp only: wait_report_def Let_def split_beta, intro update_run_after r) (auto simp: run_after_def)
  qed (use step r in \<open>auto simp: split pump_line_def pump_error_def emitLog_def Let_def\<close>)
qed

lemma sup_exec_after:
  assumes "sup_inv s" "sup_exec ev s = Some t" "run_of s r = Some x"
  shows "\<exists>y. run_of t r = Some y \<and> run_after x y"
  using assms call_step_after [of ev s t r] run_step_after [of s ev t r]
  by (auto simp: sup_exec_def run_of_Some split: option.splits)

section \<open>Properties\<close>

lemma tail_writes:
  assumes "0 < tb_limit b" "tb_data b = drop (length acc - nat (tb_limit b)) acc"
  shows "tb_data (fold tail_write ps b) =
           drop (length (acc @ concat ps) - nat (tb_limit b)) (acc @ concat ps)"
  using assms
proof (induction ps arbitrary: b acc)
  case (Cons p ps)
  have d: "tb_data (tail_write p b) = drop (length (acc @ p) - nat (tb_limit b)) (acc @ p)"
  proof (cases "tb_limit b < int (length (tb_data b @ p))")
    case False
    then have "length acc + length p - nat (tb_limit b) = length acc - nat (tb_limit b)"
      using Cons.prems by auto
    moreover have "length (acc @ p) - nat (tb_limit b) \<le> length acc"
      using False Cons.prems by auto
    ultimately show ?thesis using False Cons.prems by (simp add: tail_write_def Let_def)
  qed (use Cons.prems in \<open>simp add: tail_write_def Let_def\<close>)
  have "tb_limit (tail_write p b) = tb_limit b"
    by (simp add: tail_write_def Let_def)
  with Cons.IH [of "tail_write p b" "acc @ p"] Cons.prems(1) d show ?case by simp
qed simp

text \<open>The output of a command is its last 32 KiB, however it was written.\<close>

lemma command_output_tail: "command_output chunks = drop (length (concat chunks) - 32768) (concat chunks)"
  using tail_writes [of "\<lparr>tb_data = [], tb_limit = 32 * 1024\<rparr>" "[]" chunks] by (simp add: command_output_def)

lemma unmarked_current:
  assumes "sup_inv s" "run_of s r = Some x" "\<not> marked (rn_stage x)" "\<not> rn_intentional x"
  shows "sp_run s = Some r \<and> tun_state_of s \<in> {TunStarting, TunRunning}"
  using assms by (auto simp: sup_inv_def run_of_Some call_ok_def idle_ok_def waiting_ok_def ending_ok_def Let_def
      split: tun_call.splits if_splits option.splits)

lemma running_has_run:
  assumes "sup_inv s" "tun_state_of s = TunRunning"
  obtains r x where "sp_call s = NoCall" "sp_run s = Some r" "run_of s r = Some x" "\<not> marked (rn_stage x)" "\<not> rn_intentional x"
    "tu_PID (sp_status s) = rn_pid x" "run_ok x"
  using assms by (auto simp: sup_inv_def run_of_Some call_ok_def idle_ok_def waiting_ok_def ending_ok_def Let_def list_all_length
      split: tun_call.splits if_splits option.splits)

text \<open>
  C20. No sidecar is left unattended: in every reachable state, under every interleaving of \<open>Activate\<close>,
  \<open>Stop\<close> and the goroutines of all runs, a sidecar process that is alive and was not killed is the
  current run, and the supervisor says that it is starting or running. In particular there is at
  most one such process, and none when the supervisor says stopped or failed. When the supervisor
  says running, there is a current run that was not asked to stop, whose exit has not been
  recorded and whose network state has not been removed, and the PID reported is the one of that run.
\<close>

theorem supervisor_owns_every_sidecar:
  assumes "reach sup_init sup_step s"
  shows "(run_of s r = Some x \<and> rn_alive x \<and> \<not> rn_killed x \<longrightarrow>
            sp_run s = Some r \<and> tun_state_of s \<in> {TunStarting, TunRunning})
       \<and> (tun_state_of s = TunRunning \<longrightarrow>
            (\<exists>i y. sp_run s = Some i \<and> run_of s i = Some y \<and> \<not> rn_killed y \<and> \<not> rn_intentional y \<and> \<not> rn_done y
                   \<and> rn_cleanup y = None \<and> tu_PID (Status s) = rn_pid y))"
proof -
  have inv: "sup_inv s" by (rule sidecar.reach_inv [OF assms])
  have "sp_run s = Some r \<and> tun_state_of s \<in> {TunStarting, TunRunning}"
    if a: "run_of s r = Some x" "rn_alive x" "\<not> rn_killed x"
  proof -
    have "run_ok x" using inv a(1) by (auto simp: sup_inv_def run_of_Some list_all_length)
    then have "rn_stage x = WaitExit" "\<not> rn_intentional x" using a by (auto simp: run_ok_def)
    then show ?thesis using unmarked_current [OF inv a(1)] by simp
  qed
  moreover have "\<exists>i y. sp_run s = Some i \<and> run_of s i = Some y \<and> \<not> rn_killed y \<and> \<not> rn_intentional y \<and> \<not> rn_done y
                   \<and> rn_cleanup y = None \<and> tu_PID (Status s) = rn_pid y" if running: "tun_state_of s = TunRunning"
  proof -
    obtain i y where f: "sp_run s = Some i" "run_of s i = Some y" "\<not> marked (rn_stage y)" "\<not> rn_intentional y"
      "tu_PID (sp_status s) = rn_pid y" "run_ok y"
      by (rule running_has_run [OF inv running])
    then have "\<not> rn_done y" "rn_cleanup y = None" "\<not> rn_killed y"
      by (auto simp: run_ok_def elim: marked.elims)
    with f show ?thesis by (auto simp: Status_def)
  qed
  ultimately show ?thesis by blast
qed

text \<open>
  C21. The contract of a run's end: whoever sees \<open>done\<close> closed finds the process gone and the network cleanup
  finished; the cleanup runs once, so its result never changes afterwards; and an unexpected exit is
  reported at most once per run, and only after all this.
\<close>

theorem run_done_after_cleanup:
  assumes "reach sup_init sup_step s" "sup_step s ev t" "run_of s r = Some x"
  shows "(rn_done x \<longrightarrow> \<not> rn_alive x \<and> rn_cleanup x \<noteq> None)
       \<and> (\<exists>y. run_of t r = Some y \<and> (rn_done x \<longrightarrow> rn_done y) \<and> (rn_cleanup x \<noteq> None \<longrightarrow> rn_cleanup y = rn_cleanup x))
       \<and> distinct (map fst (sp_reports t))
       \<and> (\<forall>(i, st) \<in> set (sp_reports t). \<exists>y. run_of t i = Some y \<and> rn_done y \<and> rn_cleanup y \<noteq> None)"
proof -
  have inv: "sup_inv s" "sup_inv t"
    using sidecar.reach_inv [OF assms(1)] sidecar.step_inv assms(2) by auto
  have rk: "run_ok y" if "run_of s' i = Some y" "sup_inv s'" for s' i y
    using that by (auto simp: sup_inv_def run_of_Some list_all_length)
  have "rn_done x \<longrightarrow> \<not> rn_alive x \<and> rn_cleanup x \<noteq> None"
    using rk [OF assms(3) inv(1)] by (auto simp: run_ok_def elim: finished.elims)
  moreover have "\<exists>y. run_of t r = Some y \<and> run_after x y"
    using assms inv(1) by (intro sup_exec_after) (simp_all add: sup_step_def)
  moreover have "\<exists>y. run_of t i = Some y \<and> rn_done y \<and> rn_cleanup y \<noteq> None" if "(i, st) \<in> set (sp_reports t)" for i st
  proof -
    have "i \<in> fst ` set (sp_reports t)" using that by force
    then have "i < length (sp_runs t)" "rn_stage (sp_runs t ! i) = WaitEnded"
      using inv(2) unfolding sup_inv_def by blast+
    moreover from this have "run_ok (sp_runs t ! i)" using rk [of t i] inv(2) by (simp add: run_of_Some)
    ultimately show ?thesis by (simp add: run_of_def run_ok_def)
  qed
  moreover have "distinct (map fst (sp_reports t))" using inv(2) by (simp add: sup_inv_def)
  ultimately show ?thesis by (auto simp: run_after_def)
qed

text \<open>The next event of a run whose process has exited.\<close>

fun next_wait :: "nat \<Rightarrow> wait_stage \<Rightarrow> tun_event" where
  "next_wait r WaitExit = Waited r 0 (- 1) None"
| "next_wait r (WaitMark _ _ _ _) = Marked r"
| "next_wait r (WaitCleanup _ _) = RunCleaned r None None"
| "next_wait r (WaitClose _ _) = Closed r"
| "next_wait r _ = Reported r"

lemma next_wait_progress:
  assumes "run_of s r = Some x" "\<not> rn_alive x" "\<not> finished (rn_stage x)"
  obtains t y where "sup_exec (next_wait r (rn_stage x)) s = Some t" "run_of t r = Some y" "rank (rn_stage y) < rank (rn_stage x)"
    "sp_call t = sp_call s"
proof -
  have r: "r < length (sp_runs s)" and x: "x = sp_runs s ! r" using assms(1) by (auto simp: run_of_Some)
  have none: "call_step (next_wait r (rn_stage x)) s = None"
    by (cases "rn_stage x") (auto simp: call_step_def split: tun_call.splits)
  have "\<exists>t. run_step (next_wait r (rn_stage x)) s = Some t \<and> r < length (sp_runs t)
      \<and> rank (rn_stage (sp_runs t ! r)) < rank (rn_stage x) \<and> sp_call t = sp_call s"
    using assms r by (cases "rn_stage x") (auto simp: run_step_def run_of_def wait_exited_def wait_mark_def wait_cleanup_def
        wait_close_def update_run_def Let_def split: if_splits)
  then show thesis
    using that none by (auto simp: sup_exec_def run_of_def)
qed

text \<open>
  \<open>Stop\<close> always gets on: while it waits for a run, the process has been killed; once the process has
  exited, either \<open>done\<close> is closed and \<open>Stop\<close> can return, with the status stopped, no current run and
  the error of the cleanup if there was one, or the goroutine of the run can take a step that
  brings \<open>done\<close> nearer. No step of anyone takes it further away, and \<open>done\<close> is at most four steps off, so
  \<open>Stop\<close> is never blocked by anything but the exit of a killed process and its cleanup.
\<close>

theorem stop_makes_progress:
  assumes "reach sup_init sup_step s" "sp_call s = StopWait r"
  shows "\<exists>x. run_of s r = Some x \<and> rn_killed x \<and> rank (rn_stage x) \<le> 5
       \<and> (rn_done x \<longrightarrow>
            (\<exists>t. sup_step s (StopReturns StopSawDone) t \<and> sp_call t = NoCall \<and> tun_state_of t = TunStopped \<and> sp_run t = None
                 \<and> sp_returned t = sp_returned s @ [(blank_status TunStopped, terminate_result StopSawDone x)]))
       \<and> (\<not> rn_done x \<and> \<not> rn_alive x \<longrightarrow>
            (\<exists>ev t y. sup_step s ev t \<and> sp_call t = StopWait r \<and> run_of t r = Some y \<and> rank (rn_stage y) < rank (rn_stage x)))
       \<and> (\<forall>ev t. sup_step s ev t \<longrightarrow>
            (\<exists>y. run_of t r = Some y \<and> rank (rn_stage y) \<le> rank (rn_stage x) \<and> (rn_alive y \<longrightarrow> rn_alive x)))"
proof -
  have inv: "sup_inv s" by (rule sidecar.reach_inv [OF assms(1)])
  then have cur: "sp_run s = Some r" and int: "rn_intentional (sp_runs s ! r)"
    using assms(2) by (auto simp: sup_inv_def call_ok_def ending_ok_def)
  define x where "x = sp_runs s ! r"
  have x: "run_of s r = Some x" and ok: "run_ok x"
    using inv cur by (auto simp: sup_inv_def run_of_Some x_def list_all_length)
  have "rank (rn_stage x) \<le> 5" by (cases "rn_stage x") auto
  moreover have "\<exists>t. sup_step s (StopReturns StopSawDone) t \<and> sp_call t = NoCall \<and> tun_state_of t = TunStopped \<and> sp_run t = None
                 \<and> sp_returned t = sp_returned s @ [(blank_status TunStopped, terminate_result StopSawDone x)]" if "rn_done x"
    using that assms(2) cur by (auto simp: sup_step_def sup_exec_def call_step_def stop_end_def give_back_def x_def
        tun_state_of_def blank_status_def Status_def Let_def)
  moreover have "\<exists>ev t y. sup_step s ev t \<and> sp_call t = StopWait r \<and> run_of t r = Some y \<and> rank (rn_stage y) < rank (rn_stage x)"
    if "\<not> rn_done x" "\<not> rn_alive x"
  proof -
    have "\<not> finished (rn_stage x)" using ok that by (simp add: run_ok_def)
    with next_wait_progress [OF x that(2)] show ?thesis unfolding sup_step_def assms(2) [symmetric] by metis
  qed
  moreover have "\<exists>y. run_of t r = Some y \<and> rank (rn_stage y) \<le> rank (rn_stage x) \<and> (rn_alive y \<longrightarrow> rn_alive x)"
    if "sup_step s ev t" for ev t
    using sup_exec_after [OF inv _ x, of ev t] that by (auto simp: sup_step_def run_after_def)
  ultimately show ?thesis
    using x ok int by (auto simp: run_ok_def x_def)
qed

text \<open>A configuration that is accepted has a startup timeout between 100 ms and 10 s and names two regular files.\<close>

lemma normalizeTunConfig_accepts:
  "normalizeTunConfig fs c = Inr n \<Longrightarrow>
    100 * Millisecond \<le> tc_StartupTimeout n \<and> tc_StartupTimeout n \<le> 10 * Second
    \<and> (\<exists>e p. fs_Abs fs (trim_space (tc_Executable c)) = Inr e \<and> fs_Abs fs (trim_space (tc_ConfigPath c)) = Inr p
           \<and> fs_Stat fs e = Inr True \<and> fs_Stat fs p = Inr True \<and> tc_Executable n = fs_Clean fs e \<and> tc_ConfigPath n = fs_Clean fs p)"
  by (auto simp: normalizeTunConfig_def requireRegularFile_def Let_def split: sum.splits option.splits if_splits)

section \<open>Concrete runs\<close>

definition example_fs :: fs_env where
  "example_fs = \<lparr>fs_Abs = Inr, fs_Clean = (\<lambda>p. p), fs_Stat = (\<lambda>p. Inr True)\<rparr>"

definition example_tun_config :: tun_config where
  "example_tun_config = \<lparr>tc_Executable = ''/sb'', tc_ConfigPath = ''/c'', tc_StartupTimeout = 0\<rparr>"

text \<open>A complete \<open>Activate\<close> that succeeds with process \<open>pid\<close>.\<close>

definition activate_events :: "int \<Rightarrow> tun_event list" where
  "activate_events pid = [CallActivate example_fs example_tun_config, Checked 1 ([], None), Cleaned 2 None,
                          Launch 3 (Launched pid), Stable]"

definition tun_running :: supervisor where
  "tun_running = the (sup_run (activate_events 7) (SetHandlers NewSupervisor))"

definition example_normalized :: tun_config where
  "example_normalized = \<lparr>tc_Executable = ''/sb'', tc_ConfigPath = ''/c'', tc_StartupTimeout = 1500000000\<rparr>"

lemma example_normalize: "normalizeTunConfig example_fs example_tun_config = Inr example_normalized"
proof -
  have "trim_space ''/sb'' = ''/sb''" "trim_space ''/c'' = ''/c''"
    by (rule trim_space_graphic; simp add: graphic_def)+
  then show ?thesis
    by (simp add: normalizeTunConfig_def requireRegularFile_def example_fs_def example_tun_config_def example_normalized_def
        defaultStartupTimeout_def time_defs Let_def)
qed

lemmas tun_eval = tun_step_defs sup_exec_def call_step_def run_step_def run_of_def tun_state_of_def exit_status_def
  blank_status_def new_run_def validateConfig_def example_normalize cleanup_result_def errors_join_def

lemmas tun_running_eval = tun_running_def activate_events_def SetHandlers_def NewSupervisor_def tun_eval

lemma sup_run_reach:
  "reach sup_init sup_step s \<Longrightarrow> sup_run evs s = Some t \<Longrightarrow> reach sup_init sup_step t"
proof (induction evs arbitrary: s)
  case (Cons ev evs)
  then show ?case by (auto simp: bind_eq_Some_conv sup_step_def intro: reach_step)
qed simp

lemma tun_init_reach: "reach sup_init sup_step (SetHandlers NewSupervisor)"
  by (rule reach_init) (simp add: sup_init_def)

lemma tun_running_run: "sup_run (activate_events 7) (SetHandlers NewSupervisor) = Some tun_running"
  by (simp add: tun_running_eval)

lemma tun_running_reach: "reach sup_init sup_step tun_running"
  by (rule sup_run_reach [OF tun_init_reach tun_running_run])

theorem supervisor_owns_every_sidecar_witness:
  "tun_state_of tun_running = TunRunning \<and> (\<exists>y. run_of tun_running 0 = Some y \<and> rn_alive y \<and> \<not> rn_killed y)
   \<and> sp_run tun_running = Some 0 \<and> tu_PID (Status tun_running) = 7"
proof -
  have f: "tun_state_of tun_running = TunRunning" "sp_run tun_running = Some 0" "tu_PID (Status tun_running) = 7"
    "map_option rn_alive (run_of tun_running 0) = Some True" "map_option rn_killed (run_of tun_running 0) = Some False"
    by (simp_all add: tun_running_eval)
  then obtain y where y: "run_of tun_running 0 = Some y" "rn_alive y" "\<not> rn_killed y" by auto
  with supervisor_owns_every_sidecar [OF tun_running_reach, of 0 y] f show ?thesis by blast
qed

text \<open>The sidecar exits by itself and its goroutine runs to the end.\<close>

definition tun_exited :: supervisor where
  "tun_exited = the (sup_run [ProcessExits 0, Waited 0 4 1 None, Marked 0, RunCleaned 0 (Some ''busy'') None, Closed 0] tun_running)"

lemma tun_exited_run:
  "sup_run [ProcessExits 0, Waited 0 4 1 None, Marked 0, RunCleaned 0 (Some ''busy'') None, Closed 0] tun_running = Some tun_exited"
  by (simp add: tun_exited_def tun_running_eval)

theorem run_done_after_cleanup_witness:
  "\<exists>x t. run_of tun_exited 0 = Some x \<and> rn_done x \<and> sup_step tun_exited (Reported 0) t \<and> rn_cleanup x = Some (Some ''busy'')
     \<and> map fst (sp_reports t) = [0] \<and> (\<exists>y. run_of t 0 = Some y \<and> rn_cleanup y = rn_cleanup x)"
proof -
  have r: "reach sup_init sup_step tun_exited"
    by (rule sup_run_reach [OF tun_running_reach tun_exited_run])
  have f: "map_option rn_done (run_of tun_exited 0) = Some True"
    "map_option rn_cleanup (run_of tun_exited 0) = Some (Some (Some ''busy''))"
    "map_option (\<lambda>t. map fst (sp_reports t)) (sup_exec (Reported 0) tun_exited) = Some [0]"
    by (simp_all add: tun_exited_def tun_running_eval)
  then obtain x t where x: "run_of tun_exited 0 = Some x" and t: "sup_exec (Reported 0) tun_exited = Some t" by auto
  then have "sup_step tun_exited (Reported 0) t" by (simp add: sup_step_def)
  with run_done_after_cleanup [OF r this x] f x t show ?thesis by auto
qed

definition tun_stopping :: supervisor where
  "tun_stopping = the (sup_run [CallStop, ProcessExits 0] tun_running)"

lemma tun_stopping_run: "sup_run [CallStop, ProcessExits 0] tun_running = Some tun_stopping"
  by (simp add: tun_stopping_def tun_running_eval)

theorem stop_makes_progress_witness:
  "sp_call tun_stopping = StopWait 0 \<and>
   (\<exists>ev t y. sup_step tun_stopping ev t \<and> sp_call t = StopWait 0 \<and> run_of t 0 = Some y \<and> rank (rn_stage y) < 5)"
proof -
  have r: "reach sup_init sup_step tun_stopping"
    by (rule sup_run_reach [OF tun_running_reach tun_stopping_run])
  have f: "sp_call tun_stopping = StopWait 0" "map_option rn_done (run_of tun_stopping 0) = Some False"
    "map_option rn_alive (run_of tun_stopping 0) = Some False" "map_option (\<lambda>x. rank (rn_stage x)) (run_of tun_stopping 0) = Some 5"
    by (simp_all add: tun_stopping_def tun_running_eval)
  from stop_makes_progress [OF r f(1)] obtain x where x: "run_of tun_stopping 0 = Some x"
    and p: "\<not> rn_done x \<and> \<not> rn_alive x \<longrightarrow>
      (\<exists>ev t y. sup_step tun_stopping ev t \<and> sp_call t = StopWait 0 \<and> run_of t 0 = Some y \<and> rank (rn_stage y) < rank (rn_stage x))"
    by blast
  from f x have "\<not> rn_done x" "\<not> rn_alive x" "rank (rn_stage x) = 5" by simp_all
  with p f(1) show ?thesis by metis
qed

text \<open>
  \<open>Activate\<close> accepts the state failed, which \<open>waitProcess\<close> sets before it cleans up. So a new
  sidecar can be running while the cleanup for the previous one, which deletes the interface by its
  name, has not finished.
\<close>

theorem activation_overlaps_old_cleanup:
  "\<exists>s x. reach sup_init sup_step s \<and> tun_state_of s = TunRunning \<and> sp_run s = Some 1
     \<and> run_of s 0 = Some x \<and> \<not> rn_done x \<and> rn_cleanup x = None \<and> sup_exec (RunCleaned 0 None None) s \<noteq> None"
proof -
  define evs where "evs = [ProcessExits 0, Waited 0 4 1 None, Marked 0] @ activate_events 8"
  have f: "map_option tun_state_of (sup_run evs tun_running) = Some TunRunning"
    "map_option sp_run (sup_run evs tun_running) = Some (Some 1)"
    "map_option (\<lambda>s. map_option (\<lambda>x. (rn_done x, rn_cleanup x)) (run_of s 0)) (sup_run evs tun_running) = Some (Some (False, None))"
    "map_option (\<lambda>s. sup_exec (RunCleaned 0 None None) s = None) (sup_run evs tun_running) = Some False"
    by (simp_all add: evs_def tun_running_eval)
  then obtain s where s: "sup_run evs tun_running = Some s" by auto
  with f sup_run_reach [OF tun_running_reach s] show ?thesis by auto
qed

end
