(* ===== verification/Core_Inv.thy ===== *)
theory Core_Inv
  imports Core_Server Tun_Inv "HOL-Library.Multiset"
begin

text \<open>
  The invariant of the whole engine server over every interleaving of requests, pieces of the TUN
  supervisor, reports of sidecar exits, DNS fallback alerts and a breaking output. \<open>engine_ok\<close> ties the lifecycle state
  to the parts, \<open>main_ok\<close> says what holds where the main goroutine stands, \<open>out_ok\<close> is the protocol. Each
  handler is shown to lead from \<open>idle_pre\<close> to \<open>handler_post\<close>; the steps follow.
\<close>

section \<open>What the supervisor does while the main goroutine waits\<close>

definition tun_quiet :: "supervisor \<Rightarrow> bool" where
  "tun_quiet t \<longleftrightarrow> sp_call t = NoCall \<and> tun_state_of t = TunStopped \<and> sp_run t = None"

definition stop_wait_ok :: "supervisor \<Rightarrow> bool" where
  "stop_wait_ok t \<longleftrightarrow> (\<exists>r. sp_call t = StopWait r) \<or> tun_quiet t"

lemma stage_fields:
  "sp_call (wait_mark u c e now r s) = sp_call s" "sp_run (wait_mark u c e now r s) = sp_run s"
  "sp_run s = None \<Longrightarrow> sp_status (wait_mark u c e now r s) = sp_status s"
  "sp_call (wait_cleanup x u st r s) = sp_call s" "sp_run (wait_cleanup x u st r s) = sp_run s"
  "tun_state_of (wait_cleanup x u st r s) = tun_state_of s"
  "sp_call (wait_report u st r s) = sp_call s" "sp_run (wait_report u st r s) = sp_run s"
  "sp_status (wait_report u st r s) = sp_status s"
  by (simp_all add: wait_mark_def wait_cleanup_def wait_report_def update_run_def tun_state_of_def Let_def)

lemma run_step_call:
  "run_step ev s = Some t \<Longrightarrow>
    sp_call t = sp_call s \<and> sp_run t = sp_run s \<and> (sp_run s = None \<longrightarrow> tun_state_of t = tun_state_of s)"
  by (cases ev) (auto simp: run_step_def bind_eq_Some_conv run_of_Some wait_exited_def wait_close_def stage_fields
      stage_fields(6) [unfolded tun_state_of_def] pump_line_def pump_error_def emitLog_def update_run_def tun_state_of_def
      Let_def split: if_splits wait_stage.splits)

lemma sup_exec_NoCall:
  "sp_call s = NoCall \<Longrightarrow> \<not> starts_call ev \<Longrightarrow> sup_exec ev s = run_step ev s"
  by (cases ev) (auto simp: sup_exec_def call_step_def starts_call_def)

lemma tun_quiet_step: "tun_quiet s \<Longrightarrow> \<not> starts_call ev \<Longrightarrow> sup_exec ev s = Some t \<Longrightarrow> tun_quiet t"
  using run_step_call [of ev s t] by (auto simp: tun_quiet_def sup_exec_NoCall)

lemma stop_wait_step:
  assumes "stop_wait_ok s" "sup_inv s" "\<not> starts_call ev" "sup_exec ev s = Some t"
  shows "stop_wait_ok t"
proof (cases "tun_quiet s")
  case True
  with assms tun_quiet_step show ?thesis by (auto simp: stop_wait_ok_def)
next
  case False
  then obtain r where r: "sp_call s = StopWait r" using assms(1) by (auto simp: stop_wait_ok_def)
  then have cur: "sp_run s = Some r" using assms(2) by (auto simp: sup_inv_def call_ok_def ending_ok_def)
  show ?thesis
  proof (cases "call_step ev s")
    case None
    with assms(4) r show ?thesis using run_step_call [of ev s t] by (auto simp: sup_exec_def stop_wait_ok_def)
  next
    case (Some t')
    then obtain w where "t' = stop_end w r s"
      using r by (auto simp: call_step_def split: tun_event.splits if_splits)
    with Some assms(4) cur show ?thesis
      by (auto simp: sup_exec_def stop_wait_ok_def tun_quiet_def stop_end_def give_back_def tun_state_of_def blank_status_def Let_def)
  qed
qed

lemma call_stop: "sp_call s = NoCall \<Longrightarrow> \<exists>t. sup_exec CallStop s = Some t \<and> stop_wait_ok t"
  by (auto simp: sup_exec_def call_step_def stop_begin_def stop_wait_ok_def tun_quiet_def give_back_def tun_state_of_def
      blank_status_def Let_def split: option.splits)

lemma call_activate: "sp_call s = NoCall \<Longrightarrow> \<exists>t. sup_exec (CallActivate fs c) s = Some t"
  by (simp add: sup_exec_def call_step_def)

section \<open>Output\<close>

definition events_of :: "message list \<Rightarrow> event list" where
  "events_of ms = List.map_filter (\<lambda>m. case m of MEvent e \<Rightarrow> Some e | _ \<Rightarrow> None) ms"

definition responses_of :: "message list \<Rightarrow> response list" where
  "responses_of ms = List.map_filter (\<lambda>m. case m of MResponse r \<Rightarrow> Some r | _ \<Rightarrow> None) ms"

definition resp_ok :: "response \<Rightarrow> bool" where
  "resp_ok r \<longleftrightarrow> rs_Protocol r = Version \<and> (rs_Result r = None) \<noteq> (rs_Error r = None)"

definition out_ok :: "'w core \<Rightarrow> bool" where
  "out_ok s \<longleftrightarrow>
     (let es = events_of (co_output s)
      in map ev_Sequence es = map of_nat [1..<Suc (length es)]
         \<and> (\<not> co_broken s \<longrightarrow> co_eventSeq s = of_nat (length es))
         \<and> list_all resp_ok (responses_of (co_output s)))"

lemma resp_ok_simps [simp]: "resp_ok (Result i p)" "resp_ok (Failure i c m d)"
  by (simp_all add: resp_ok_def Result_def Failure_def)

lemma events_of_simps [simp]:
  "events_of [] = []" "events_of (ms @ [MEvent e]) = events_of ms @ [e]" "events_of (ms @ [MResponse r]) = events_of ms"
  "responses_of [] = []" "responses_of (ms @ [MEvent e]) = responses_of ms"
  "responses_of (ms @ [MResponse r]) = responses_of ms @ [r]"
  by (simp_all add: events_of_def responses_of_def List.map_filter_def)

lemma out_ok_cong:
  "co_output t = co_output s \<Longrightarrow> co_eventSeq t = co_eventSeq s \<Longrightarrow> co_broken t = co_broken s \<Longrightarrow> out_ok t = out_ok s"
  by (simp add: out_ok_def)

lemma out_ok_emit: "out_ok s \<Longrightarrow> out_ok (snd (emitEvent name d s))"
  by (auto simp: out_ok_def emitEvent_def writeMessage_def Notification_def Let_def)

lemma out_ok_write: "out_ok s \<Longrightarrow> resp_ok r \<Longrightarrow> out_ok (snd (writeMessage (MResponse r) s))"
  by (auto simp: out_ok_def writeMessage_def Let_def)

text \<open>Writing changes nothing but the output and the event counter.\<close>

definition same_engine :: "'w core \<Rightarrow> 'w core \<Rightarrow> bool" where
  "same_engine s t \<longleftrightarrow>
     co_runtime t = co_runtime s \<and> co_proxy t = co_proxy s \<and> co_adapters t = co_adapters s \<and> co_exemption t = co_exemption s
     \<and> co_mode t = co_mode s \<and> co_main t = co_main s \<and> co_taken t = co_taken s \<and> co_openedEx t = co_openedEx s
     \<and> co_closedEx t = co_closedEx s \<and> co_identity t = co_identity s \<and> co_world t = co_world s"

lemma same_engine_trans: "same_engine s t \<Longrightarrow> same_engine t u \<Longrightarrow> same_engine s u"
  by (simp add: same_engine_def)

lemma same_engine_write: "same_engine s (snd (writeMessage m s))" "co_tun (snd (writeMessage m s)) = co_tun s"
  by (simp_all add: same_engine_def writeMessage_def)

lemma same_engine_emit: "same_engine s (snd (emitEvent name d s))" "co_tun (snd (emitEvent name d s)) = co_tun s"
  by (simp_all add: same_engine_def emitEvent_def writeMessage_def Let_def)

lemma logs_keep:
  "same_engine s (fold handleTunLog ms s) \<and> co_tun (fold handleTunLog ms s) = co_tun s
   \<and> (out_ok s \<longrightarrow> out_ok (fold handleTunLog ms s))"
proof (induction ms arbitrary: s)
  case (Cons m ms)
  let ?s = "handleTunLog m s"
  have "same_engine s ?s" "co_tun ?s = co_tun s" "out_ok s \<longrightarrow> out_ok ?s"
    by (simp_all add: handleTunLog_def same_engine_emit out_ok_emit)
  with Cons.IH [of ?s] show ?case by (auto intro: same_engine_trans)
qed (simp add: same_engine_def)

lemma tun_piece_keeps:
  assumes "tun_piece ev s = Some t"
  obtains "sup_exec ev (co_tun s) = Some (co_tun t)" "same_engine s t" "out_ok s \<Longrightarrow> out_ok t"
proof -
  obtain u where u: "sup_exec ev (co_tun s) = Some u"
    and t: "t = fold handleTunLog (drop (length (sp_logs (co_tun s))) (sp_logs u)) (s\<lparr>co_tun := u\<rparr>)"
    using assms by (auto simp: tun_piece_def)
  have "same_engine s (s\<lparr>co_tun := u\<rparr>)" by (simp add: same_engine_def)
  moreover have "out_ok (s\<lparr>co_tun := u\<rparr>) = out_ok s" by (simp add: out_ok_def)
  ultimately show thesis
    using that u t logs_keep [of "s\<lparr>co_tun := u\<rparr>"] by (auto intro: same_engine_trans)
qed

lemma tun_call_stop:
  assumes "sp_call (co_tun s) = NoCall"
  obtains "sup_exec CallStop (co_tun s) = Some (co_tun (tun_call CallStop s))" "same_engine s (tun_call CallStop s)"
    "stop_wait_ok (co_tun (tun_call CallStop s))" "out_ok s \<Longrightarrow> out_ok (tun_call CallStop s)"
proof -
  obtain u where u: "sup_exec CallStop (co_tun s) = Some u" "stop_wait_ok u" using call_stop [OF assms] by blast
  then obtain t where t: "tun_piece CallStop s = Some t" by (auto simp: tun_piece_def)
  then have "tun_call CallStop s = t" by (simp add: tun_call_def)
  with tun_piece_keeps [OF t] u that show thesis by auto
qed

lemma tun_call_activate:
  assumes "sp_call (co_tun s) = NoCall"
  obtains "sup_exec (CallActivate fs c) (co_tun s) = Some (co_tun (tun_call (CallActivate fs c) s))"
    "same_engine s (tun_call (CallActivate fs c) s)" "out_ok s \<Longrightarrow> out_ok (tun_call (CallActivate fs c) s)"
proof -
  obtain u where u: "sup_exec (CallActivate fs c) (co_tun s) = Some u" using call_activate [OF assms] by blast
  then obtain t where t: "tun_piece (CallActivate fs c) s = Some t" by (auto simp: tun_piece_def)
  then have "tun_call (CallActivate fs c) s = t" by (simp add: tun_call_def)
  with tun_piece_keeps [OF t] u that show thesis by auto
qed

section \<open>The invariant\<close>

definition main_ok :: "'w core \<Rightarrow> bool" where
  "main_ok s \<longleftrightarrow>
     (case co_main s of
        MainTun (WActivate _) _ \<Rightarrow> core_state s = StateRunning
      | MainTun (WUndo _ _) _ \<Rightarrow> core_state s = StateRunning \<and> stop_wait_ok (co_tun s)
      | MainTun (WStop _ failed) _ \<Rightarrow>
          core_state s = (if failed then StateFailed else StateStopping) \<and> stop_wait_ok (co_tun s)
      | MainTun _ _ \<Rightarrow> core_state s \<noteq> StateStopping \<and> stop_wait_ok (co_tun s)
      | MainReply r _ \<Rightarrow> core_state s \<noteq> StateStopping \<and> sp_call (co_tun s) = NoCall \<and> resp_ok r
      | _ \<Rightarrow> core_state s \<noteq> StateStopping \<and> sp_call (co_tun s) = NoCall)"

definition held :: "nat option \<Rightarrow> nat multiset" where
  "held x = (case x of None \<Rightarrow> {#} | Some h \<Rightarrow> {#h#})"

definition engine_ok :: "'w core \<Rightarrow> bool" where
  "engine_ok s \<longleftrightarrow>
     core_state s \<noteq> StateStarting \<and> core_state s \<noteq> StateDegraded
     \<and> (core_state s = StateRunning \<longrightarrow> (\<exists>p. co_proxy s = Some p \<and> sv_running p))
     \<and> (co_proxy s = None \<longleftrightarrow> co_mode s = []) \<and> (co_proxy s = None \<longrightarrow> co_adapters s = [])
     \<and> (co_exemption s \<noteq> None \<longrightarrow> core_state s \<in> {StateRunning, StateStopping})
     \<and> mset (co_openedEx s) = mset (co_closedEx s) + held (co_exemption s)
     \<and> (core_state s = StateStopped \<longrightarrow> co_proxy s = None \<and> tun_quiet (co_tun s))"

definition core_inv :: "'w core \<Rightarrow> bool" where
  "core_inv s \<longleftrightarrow> sup_inv (co_tun s) \<and> main_ok s \<and> engine_ok s \<and> out_ok s"

text \<open>Between requests, with the lock free; and what a handler leaves.\<close>

definition idle_pre :: "'w core \<Rightarrow> bool" where
  "idle_pre s \<longleftrightarrow> sup_inv (co_tun s) \<and> engine_ok s \<and> out_ok s \<and> core_state s \<noteq> StateStopping \<and> sp_call (co_tun s) = NoCall"

definition handler_post :: "handled \<times> 'w core \<Rightarrow> bool" where
  "handler_post x \<longleftrightarrow>
     (case x of
        (Answer r, s) \<Rightarrow> idle_pre s \<and> resp_ok r
      | (AwaitTun w, s) \<Rightarrow> sup_inv (co_tun s) \<and> engine_ok s \<and> out_ok s \<and> (\<forall>f. main_ok (s\<lparr>co_main := MainTun w f\<rparr>)))"

definition answer_post :: "response \<times> 'w core \<Rightarrow> bool" where
  "answer_post x \<longleftrightarrow> idle_pre (snd x) \<and> resp_ok (fst x)"

lemma engine_ok_main [simp]: "engine_ok (s\<lparr>co_main := m\<rparr>) = engine_ok s"
  by (simp add: engine_ok_def core_state_def)

lemma out_ok_main [simp]: "out_ok (s\<lparr>co_main := m\<rparr>) = out_ok s"
  by (simp add: out_ok_def)

lemma core_state_main [simp]: "core_state (s\<lparr>co_main := m\<rparr>) = core_state s"
  by (simp add: core_state_def)

lemma go_on_inv: "handler_post x \<Longrightarrow> core_inv (go_on f x)"
  by (cases x, cases "fst x")
    (auto simp: go_on_def handler_post_def core_inv_def idle_pre_def main_ok_def to_reply_def)

lemma answered_post: "answer_post x \<Longrightarrow> handler_post (answered x)"
  by (simp add: answered_def answer_post_def handler_post_def)

lemma resp_ok_stopped [simp]: "resp_ok (stopped_result i b s)"
  by (simp add: stopped_result_def)

lemma core_state_move: "core_state (move_to now next reason s) =
    (if canTransition (core_state s) next then next else core_state s)"
  by (simp add: core_state_def move_to_def transition_to_state)

lemma move_to_fields [simp]:
  "co_proxy (move_to now next reason s) = co_proxy s" "co_tun (move_to now next reason s) = co_tun s"
  "co_mode (move_to now next reason s) = co_mode s" "co_adapters (move_to now next reason s) = co_adapters s"
  "co_exemption (move_to now next reason s) = co_exemption s" "co_openedEx (move_to now next reason s) = co_openedEx s"
  "co_closedEx (move_to now next reason s) = co_closedEx s" "co_main (move_to now next reason s) = co_main s"
  "out_ok (move_to now next reason s) = out_ok s"
  by (simp_all add: move_to_def out_ok_def)

lemma idle_pre_proxy:
  assumes "idle_pre s" "co_proxy s = Some p" "sv_running p' = sv_running p"
  shows "idle_pre (s\<lparr>co_proxy := Some p'\<rparr>)" "idle_pre (s\<lparr>co_proxy := Some p', co_world := w\<rparr>)"
  using assms by (auto simp: idle_pre_def engine_ok_def core_state_def out_ok_def)

lemma idle_pre_world: "idle_pre s \<Longrightarrow> idle_pre (s\<lparr>co_world := w\<rparr>)"
  by (auto simp: idle_pre_def engine_ok_def core_state_def out_ok_def)

section \<open>Handlers keep the invariant\<close>

lemma Snapshot_running: "Snapshot now b p = (t, p') \<Longrightarrow> sv_running p' = sv_running p"
  by (auto simp: Snapshot_def Let_def split: option.splits prod.splits)

lemma DNSStatus_running: "DNSStatus now p = (st, p') \<Longrightarrow> sv_running p' = sv_running p"
  by (auto simp: DNSStatus_def Let_def split: option.splits prod.splits if_splits)

lemma ResolveDNS_running: "ResolveDNS env d a t p w = (out, p', w') \<Longrightarrow> sv_running p' = sv_running p"
  by (auto simp: ResolveDNS_def Let_def split: option.splits prod.splits if_splits)

lemma Start_running: "Start env p w = (Inr e, p', w') \<Longrightarrow> sv_running p'"
  by (auto simp: Start_def startChannelListeners_def Let_def split: sum.splits option.splits prod.splits if_splits)

lemma status_post: "idle_pre s \<Longrightarrow> core_status clock s = (r, t) \<Longrightarrow> idle_pre t"
  by (auto simp: core_status_def Let_def split: option.splits prod.splits dest: Snapshot_running intro: idle_pre_proxy)

lemma proxyTelemetry_post: "idle_pre s \<Longrightarrow> answer_post (proxyTelemetry env clock rq s)"
  by (auto simp: proxyTelemetry_def answer_post_def Let_def split: option.splits prod.splits
      dest: Snapshot_running intro: idle_pre_proxy)

lemma resolveDNS_post: "idle_pre s \<Longrightarrow> answer_post (resolveDNS env rq s)"
  by (auto simp: resolveDNS_def answer_post_def Let_def split: option.splits prod.splits sum.splits
      dest: ResolveDNS_running intro: idle_pre_proxy)

lemma dnsStatus_post: "idle_pre s \<Longrightarrow> answer_post (dnsStatus clock i s)"
  by (auto simp: dnsStatus_def answer_post_def Let_def split: option.splits prod.splits
      dest: DNSStatus_running intro: idle_pre_proxy)

lemma start_transition:
  assumes "core_state s \<in> {StateStopped, StateFailed}"
  obtains r ch where "Transition now (co_runtime s) StateStarting reason = (r, Inr ch)" "rt_state r = StateStarting"
  using assms by (auto simp: Transition_def core_state_def rt_state_def Let_def)

text \<open>A start that failed: the engine is failed, and nothing else has changed.\<close>

lemma start_failed_pre:
  assumes "idle_pre s" "core_state s \<in> {StateStopped, StateFailed}" "rt_state r = StateStarting"
  shows "idle_pre (move_to now StateFailed reason (s\<lparr>co_runtime := r\<rparr>))"
    "idle_pre (move_to now StateFailed reason (s\<lparr>co_runtime := r, co_world := w\<rparr>))"
proof -
  have "core_state (move_to now StateFailed reason (s\<lparr>co_runtime := r\<rparr>)) = StateFailed"
    "core_state (move_to now StateFailed reason (s\<lparr>co_runtime := r, co_world := w\<rparr>)) = StateFailed"
    using assms(3) core_state_def [of "s\<lparr>co_runtime := r\<rparr>"] core_state_def [of "s\<lparr>co_runtime := r, co_world := w\<rparr>"]
    by (simp_all add: core_state_move)
  moreover have "out_ok (s\<lparr>co_runtime := r\<rparr>) = out_ok s" "out_ok (s\<lparr>co_runtime := r, co_world := w\<rparr>) = out_ok s"
    by (simp_all add: out_ok_def)
  ultimately show "idle_pre (move_to now StateFailed reason (s\<lparr>co_runtime := r\<rparr>))"
    "idle_pre (move_to now StateFailed reason (s\<lparr>co_runtime := r, co_world := w\<rparr>))"
    using assms(1,2) by (auto simp: idle_pre_def engine_ok_def)
qed

lemma started_pre:
  assumes "idle_pre s" "core_state s \<in> {StateStopped, StateFailed}" "rt_state r = StateStarting" "sv_running p" "mode \<noteq> []"
  shows "idle_pre (move_to now StateRunning reason
           (s\<lparr>co_runtime := r, co_world := w, co_proxy := Some p, co_mode := mode, co_adapters := as\<rparr>))"
proof -
  let ?s = "s\<lparr>co_runtime := r, co_world := w, co_proxy := Some p, co_mode := mode, co_adapters := as\<rparr>"
  have "core_state (move_to now StateRunning reason ?s) = StateRunning"
    using assms(3) core_state_def [of ?s] by (simp add: core_state_move)
  moreover have "out_ok ?s = out_ok s" by (simp add: out_ok_def)
  ultimately show ?thesis using assms by (auto simp: idle_pre_def engine_ok_def)
qed

lemma start_engine_post:
  assumes pre: "idle_pre s" and st: "core_state s \<in> {StateStopped, StateFailed}" and mode: "mode \<noteq> []"
  shows "answer_post (start_engine env clock i mode params s)"
proof -
  obtain r ch where tr: "Transition (clock 0) (co_runtime s) StateStarting (mode @ '' start requested'') = (r, Inr ch)"
    and r: "rt_state r = StateStarting" by (rule start_transition [OF st])
  show ?thesis
  proof (cases "New (clock 1) (ProxyConfig params)")
    case (Inl e)
    then show ?thesis
      using tr start_failed_pre [OF pre st r] by (simp add: start_engine_def answer_post_def Let_def)
  next
    case (Inr p)
    obtain res p' w where run: "Start (ce_proxy env) (SetDNSFallbackHandler True p) (co_world s) = (res, p', w)"
      by (metis prod_cases3)
    then show ?thesis
      using Inr tr start_failed_pre [OF pre st r] started_pre [OF pre st r _ mode, of p']
        Start_running [of "ce_proxy env" "SetDNSFallbackHandler True p" "co_world s" _ p' w]
      by (cases res) (simp_all add: start_engine_def answer_post_def Let_def)
  qed
qed

lemma startProxy_post:
  assumes "idle_pre s"
  shows "answer_post (startProxy env clock rq s)"
proof -
  have bad: "answer_post (Failure i c m d, s)" for i c m d using assms by (simp add: answer_post_def)
  show ?thesis
  proof (cases "ce_start env (rq_Params rq)")
    case None
    then show ?thesis by (simp add: startProxy_def Let_def bad)
  next
    case (Some params)
    define mode where "mode = (if ep_Mode params = [] then ''proxy'' else ep_Mode params)"
    have "mode \<noteq> []" by (simp add: mode_def)
    then show ?thesis
      unfolding startProxy_def Let_def Some option.case mode_def [symmetric]
      by (simp add: bad) (auto intro: start_engine_post [OF assms])
  qed
qed

subsection \<open>Handlers that call the supervisor\<close>

lemma sup_inv_tun: "sup_inv (co_tun s) \<Longrightarrow> sup_exec ev (co_tun s) = Some (co_tun t) \<Longrightarrow> sup_inv (co_tun t)"
  by (rule sup_inv_exec)

lemma core_state_same: "same_engine s t \<Longrightarrow> core_state t = core_state s"
  by (simp add: same_engine_def core_state_def)

lemma stop_keeps_quiet:
  "tun_quiet t \<Longrightarrow> sup_exec CallStop t = Some t' \<Longrightarrow> tun_quiet t'"
  by (auto simp: tun_quiet_def sup_exec_def call_step_def stop_begin_def give_back_def tun_state_of_def blank_status_def Let_def)

lemma engine_ok_same:
  assumes "engine_ok s" "same_engine s t" "tun_quiet (co_tun s) \<Longrightarrow> tun_quiet (co_tun t)"
  shows "engine_ok t"
  using assms core_state_same [OF assms(2)] by (auto simp: engine_ok_def same_engine_def)

text \<open>The call of \<open>tun.Stop\<close> with which several handlers begin.\<close>

lemma call_stop_post:
  assumes "sup_inv (co_tun s)" "engine_ok s" "out_ok s" "sp_call (co_tun s) = NoCall"
  shows "sup_inv (co_tun (tun_call CallStop s)) \<and> engine_ok (tun_call CallStop s) \<and> out_ok (tun_call CallStop s)
    \<and> stop_wait_ok (co_tun (tun_call CallStop s)) \<and> core_state (tun_call CallStop s) = core_state s"
proof (rule tun_call_stop [OF assms(4)])
  assume a: "sup_exec CallStop (co_tun s) = Some (co_tun (tun_call CallStop s))" "same_engine s (tun_call CallStop s)"
    "stop_wait_ok (co_tun (tun_call CallStop s))" "out_ok s \<Longrightarrow> out_ok (tun_call CallStop s)"
  have "engine_ok (tun_call CallStop s)"
    by (rule engine_ok_same [OF assms(2) a(2)]) (rule stop_keeps_quiet [OF _ a(1)])
  with a assms sup_inv_tun [OF assms(1) a(1)] core_state_same [OF a(2)] show ?thesis by blast
qed

lemma idle_call_stop:
  assumes "idle_pre s"
  shows "sup_inv (co_tun (tun_call CallStop s))" "engine_ok (tun_call CallStop s)" "out_ok (tun_call CallStop s)"
    "stop_wait_ok (co_tun (tun_call CallStop s))" "core_state (tun_call CallStop s) = core_state s"
  using call_stop_post [of s] assms by (auto simp: idle_pre_def)

lemma main_ok_tun [simp]:
  "main_ok (s\<lparr>co_main := MainTun (WActivate i) f\<rparr>) = (core_state s = StateRunning)"
  "main_ok (s\<lparr>co_main := MainTun (WUndo i e) f\<rparr>) = (core_state s = StateRunning \<and> stop_wait_ok (co_tun s))"
  "main_ok (s\<lparr>co_main := MainTun (WStop i failed) f\<rparr>) =
     (core_state s = (if failed then StateFailed else StateStopping) \<and> stop_wait_ok (co_tun s))"
  "main_ok (s\<lparr>co_main := MainTun (WDeactivate i b) f\<rparr>) = (core_state s \<noteq> StateStopping \<and> stop_wait_ok (co_tun s))"
  "main_ok (s\<lparr>co_main := MainTun WHostExit f\<rparr>) = (core_state s \<noteq> StateStopping \<and> stop_wait_ok (co_tun s))"
  "main_ok (s\<lparr>co_main := MainIdle\<rparr>) = (core_state s \<noteq> StateStopping \<and> sp_call (co_tun s) = NoCall)"
  "main_ok (s\<lparr>co_main := MainExited\<rparr>) = (core_state s \<noteq> StateStopping \<and> sp_call (co_tun s) = NoCall)"
  by (simp_all add: main_ok_def)

lemma deactivateTun_post: "idle_pre s \<Longrightarrow> handler_post (deactivateTun i s)"
  using idle_call_stop [of s] by (auto simp: deactivateTun_def handler_post_def idle_pre_def)

lemma stopProxy_post:
  assumes pre: "idle_pre s"
  shows "handler_post (stopProxy clock i s)"
proof -
  have e: "core_state s \<noteq> StateStarting" "core_state s \<noteq> StateDegraded" "core_state s \<noteq> StateStopping"
    using pre by (auto simp: idle_pre_def engine_ok_def)
  consider "core_state s = StateStopped" | "core_state s = StateFailed" | "core_state s = StateRunning"
    using e by (cases "core_state s") auto
  then show ?thesis
  proof cases
    case 1
    then show ?thesis using pre by (simp add: stopProxy_def handler_post_def)
  next
    case 2
    then show ?thesis using idle_call_stop [OF pre] by (simp add: stopProxy_def handler_post_def)
  next
    case 3
    define t where "t = move_to (clock 0) StateStopping ''proxy stop requested'' s"
    have t: "core_state t = StateStopping" using 3 by (simp add: t_def core_state_move)
    have "sup_inv (co_tun t)" "engine_ok t" "out_ok t" "sp_call (co_tun t) = NoCall"
      using pre t unfolding t_def by (auto simp: idle_pre_def engine_ok_def)
    from call_stop_post [OF this] 3 t show ?thesis by (simp add: stopProxy_def handler_post_def t_def)
  qed
qed

text \<open>Closing the exemption and stopping the proxy.\<close>

lemma close_exemption:
  assumes "closeDNSExemption env s = (e, t)"
  shows "co_exemption t = None" "mset (co_openedEx s) = mset (co_closedEx s) + held (co_exemption s) \<Longrightarrow>
      mset (co_openedEx t) = mset (co_closedEx t)"
    "co_runtime t = co_runtime s" "co_proxy t = co_proxy s" "co_tun t = co_tun s" "co_mode t = co_mode s"
    "co_adapters t = co_adapters s" "core_state t = core_state s" "out_ok t = out_ok s" "co_main t = co_main s"
  using assms by (auto simp: closeDNSExemption_def core_state_def out_ok_def held_def split: option.splits)

lemma Stop_running: "Stop ce d p = (res, p') \<Longrightarrow> \<not> sv_running p'"
  by (auto simp: Stop_def Let_def split: if_splits)

lemma stop_server:
  assumes "stop_proxy_server env s = (e, t)"
  shows "co_exemption t = co_exemption s" "co_openedEx t = co_openedEx s" "co_closedEx t = co_closedEx s"
    "(co_proxy t = None) = (co_proxy s = None)" "co_proxy t = Some p \<Longrightarrow> \<not> sv_running p"
    "co_tun t = co_tun s" "co_mode t = co_mode s"
    "co_adapters t = co_adapters s" "core_state t = core_state s" "out_ok t = out_ok s" "co_main t = co_main s"
  using assms by (auto simp: stop_proxy_server_def core_state_def out_ok_def split: option.splits prod.splits dest: Stop_running)

lemma clear_proxy_fields [simp]:
  "co_proxy (clear_proxy s) = None" "co_mode (clear_proxy s) = []" "co_adapters (clear_proxy s) = []"
  "co_exemption (clear_proxy s) = co_exemption s" "co_openedEx (clear_proxy s) = co_openedEx s"
  "co_closedEx (clear_proxy s) = co_closedEx s" "co_tun (clear_proxy s) = co_tun s" "core_state (clear_proxy s) = core_state s"
  "out_ok (clear_proxy s) = out_ok s" "co_main (clear_proxy s) = co_main s"
  by (simp_all add: clear_proxy_def core_state_def out_ok_def)

text \<open>The state after the exemption has been closed and the proxy stopped, whatever became of them.\<close>

definition torn_down :: "'w core \<Rightarrow> 'w core \<Rightarrow> bool" where
  "torn_down s t \<longleftrightarrow>
     co_exemption t = None \<and> mset (co_openedEx t) = mset (co_closedEx t) \<and> co_tun t = co_tun s \<and> co_main t = co_main s
     \<and> core_state t = core_state s \<and> out_ok t = out_ok s \<and> (co_proxy t = None \<longleftrightarrow> co_mode t = [])
     \<and> (co_proxy t = None \<longrightarrow> co_adapters t = []) \<and> (co_proxy s = None \<longrightarrow> co_proxy t = None)"

lemma torn_down_stop:
  assumes "engine_ok s" "closeDNSExemption env s = (e, t)" "stop_proxy_server env t = (e', u)"
  shows "torn_down s u" "torn_down s (clear_proxy u)"
  using assms(1) close_exemption [OF assms(2)] stop_server [OF assms(3)]
  by (auto simp: torn_down_def engine_ok_def)

lemma torn_down_engine_ok:
  assumes "torn_down s t" "core_state (move_to now next reason t) = StateFailed
      \<or> (core_state (move_to now next reason t) = StateStopped \<and> co_proxy t = None \<and> tun_quiet (co_tun s))"
  shows "engine_ok (move_to now next reason t)"
  using assms by (auto simp: torn_down_def engine_ok_def held_def)

lemma stop_wait_quiet: "stop_wait_ok t \<Longrightarrow> sp_call t = NoCall \<Longrightarrow> tun_quiet t"
  by (auto simp: stop_wait_ok_def)

lemma stop_resume_post:
  assumes inv: "sup_inv (co_tun s)" "engine_ok s" "out_ok s" "stop_wait_ok (co_tun s)" "sp_call (co_tun s) = NoCall"
    and st: "core_state s = (if failed then StateFailed else StateStopping)"
  shows "answer_post (stop_resume env clock i failed tunErr s)"
proof -
  obtain e t where c: "closeDNSExemption env s = (e, t)" by (cases "closeDNSExemption env s")
  obtain e' u where p: "stop_proxy_server env t = (e', u)" by (cases "stop_proxy_server env t")
  have d: "torn_down s u" "torn_down s (clear_proxy u)" by (rule torn_down_stop [OF inv(2) c p])+
  have q: "tun_quiet (co_tun s)" by (rule stop_wait_quiet [OF inv(4,5)])
  have "idle_pre (move_to now StateStopped reason (clear_proxy u))" for now reason
    using torn_down_engine_ok [OF d(2), of now StateStopped reason] d inv q st
    by (simp add: idle_pre_def core_state_move torn_down_def)
  moreover have "idle_pre (move_to now StateFailed reason u)" if "\<not> failed" for now reason
    using torn_down_engine_ok [OF d(1), of now StateFailed reason] d inv st that
    by (simp add: idle_pre_def core_state_move torn_down_def)
  ultimately show ?thesis
    by (simp add: stop_resume_def c p answer_post_def Let_def split: option.split)
qed

lemma undo_resume_post:
  assumes inv: "sup_inv (co_tun s)" "engine_ok s" "out_ok s" "sp_call (co_tun s) = NoCall"
    and st: "core_state s = StateRunning"
  shows "answer_post (undo_resume env clock i e tunErr s)"
proof -
  obtain e1 t where c: "closeDNSExemption env s = (e1, t)" by (cases "closeDNSExemption env s")
  obtain e' u where p: "stop_proxy_server env t = (e', u)" by (cases "stop_proxy_server env t")
  have d: "torn_down s (clear_proxy u)" by (rule torn_down_stop [OF inv(2) c p])
  have "idle_pre (move_to now StateFailed reason (clear_proxy u))" for now reason
    using torn_down_engine_ok [OF d, of now StateFailed reason] d inv st
    by (simp add: idle_pre_def core_state_move torn_down_def)
  then show ?thesis by (simp add: undo_resume_def c p answer_post_def Let_def)
qed

lemma close_exemption_engine_ok:
  assumes "engine_ok s" "closeDNSExemption env s = (e, t)"
  shows "engine_ok t"
  using assms(1) close_exemption [OF assms(2)] by (auto simp: engine_ok_def held_def)

lemma deactivate_resume_post:
  assumes "sup_inv (co_tun s)" "engine_ok s" "out_ok s" "sp_call (co_tun s) = NoCall" "core_state s \<noteq> StateStopping"
  shows "answer_post (deactivate_resume env i before ret s)"
proof -
  obtain e t where c: "closeDNSExemption env s = (e, t)" by (cases "closeDNSExemption env s")
  with assms close_exemption [OF c] close_exemption_engine_ok [OF assms(2) c]
  show ?thesis by (simp add: deactivate_resume_def answer_post_def idle_pre_def split: option.split)
qed

lemma activate_resume_post:
  assumes "sup_inv (co_tun s)" "engine_ok s" "out_ok s" "sp_call (co_tun s) = NoCall" "core_state s = StateRunning"
  shows "handler_post (activate_resume i ret s)"
  using assms call_stop_post [of s]
  by (auto simp: activate_resume_def handler_post_def idle_pre_def split: prod.splits option.splits)

lemma strict_route_post:
  assumes pre: "idle_pre s" and st: "core_state s = StateRunning" and run: "strict_route env i s = (res, t)"
  shows "idle_pre t \<and> core_state t = StateRunning \<and> (\<forall>r. res = Some r \<longrightarrow> resp_ok r)"
proof (cases "id_Elevated (co_identity s)")
  case False
  then show ?thesis using assms by (auto simp: strict_route_def)
next
  case True
  obtain x w where o: "ce_openExemption env (co_adapters s) (co_world s) = (x, w)" by (metis prod.exhaust)
  show ?thesis
  proof (cases x)
    case (Inl e)
    have "core_state (s\<lparr>co_world := w\<rparr>) = core_state s" by (simp add: core_state_def)
    with True o Inl assms idle_pre_world [OF pre, of w] show ?thesis by (auto simp: strict_route_def Let_def)
  next
    case (Inr h)
    define s1 where "s1 = s\<lparr>co_world := w, co_openedEx := co_openedEx s @ [h]\<rparr>"
    obtain e t1 where c: "closeDNSExemption env s1 = (e, t1)" by (cases "closeDNSExemption env s1")
    have s1: "co_runtime s1 = co_runtime s" "co_proxy s1 = co_proxy s" "co_tun s1 = co_tun s" "co_mode s1 = co_mode s"
      "co_adapters s1 = co_adapters s" "co_exemption s1 = co_exemption s" "co_openedEx s1 = co_openedEx s @ [h]"
      "co_closedEx s1 = co_closedEx s" "core_state s1 = core_state s" "out_ok s1 = out_ok s"
      by (simp_all add: s1_def core_state_def out_ok_def)
    have e: "engine_ok s" using pre by (simp add: idle_pre_def)
    have m: "mset (co_openedEx t1) = mset (co_closedEx t1) + {#h#}"
      using e c s1 by (auto simp: engine_ok_def closeDNSExemption_def held_def split: option.splits)
    have fin: "idle_pre t \<and> core_state t = StateRunning"
      if "t = t1\<lparr>co_closedEx := co_closedEx t1 @ [h]\<rparr> \<or> t = t1\<lparr>co_exemption := Some h\<rparr>"
    proof -
      have t: "co_runtime t = co_runtime t1" "co_proxy t = co_proxy t1" "co_tun t = co_tun t1" "co_mode t = co_mode t1"
        "co_adapters t = co_adapters t1" "core_state t = core_state t1" "out_ok t = out_ok t1"
        using that by (auto simp: core_state_def out_ok_def)
      have "mset (co_openedEx t) = mset (co_closedEx t) + held (co_exemption t)"
        using that m close_exemption(1) [OF c] by (auto simp: held_def)
      with t close_exemption [OF c] s1 pre st show ?thesis
        by (auto simp: idle_pre_def engine_ok_def)
    qed
    show ?thesis
      using run True o Inr c fin unfolding strict_route_def s1_def [symmetric]
      by (auto simp: Let_def s1_def [symmetric] split: option.splits)
  qed
qed

lemma activateTun_post:
  assumes pre: "idle_pre s"
  shows "handler_post (activateTun env rq s)"
proof -
  have call: "handler_post (AwaitTun (WActivate i), tun_call (CallActivate fs c) t)"
    if t: "idle_pre t" "core_state t = StateRunning" for i fs c t
  proof (rule tun_call_activate [of t fs c])
    show "sp_call (co_tun t) = NoCall" using t by (simp add: idle_pre_def)
    assume a: "sup_exec (CallActivate fs c) (co_tun t) = Some (co_tun (tun_call (CallActivate fs c) t))"
      "same_engine t (tun_call (CallActivate fs c) t)" "out_ok t \<Longrightarrow> out_ok (tun_call (CallActivate fs c) t)"
    have "engine_ok (tun_call (CallActivate fs c) t)"
      using t a(2) core_state_same [OF a(2)] by (auto simp: idle_pre_def engine_ok_def same_engine_def)
    with t a core_state_same [OF a(2)] sup_inv_tun [OF _ a(1)] show ?thesis
      by (auto simp: handler_post_def idle_pre_def)
  qed
  have bad: "handler_post (Answer (Failure i c m d), s)" for i c m d using pre by (simp add: handler_post_def)
  show ?thesis
  proof (cases "core_state s \<noteq> StateRunning \<or> co_proxy s = None \<or> co_mode s \<noteq> ''tun_tcp_pool'' \<or> ce_tun env (rq_Params rq) = None")
    case True
    then show ?thesis by (auto simp: activateTun_def bad Let_def)
  next
    case False
    then obtain params where p: "core_state s = StateRunning" "ce_tun env (rq_Params rq) = Some params" by auto
    obtain res t where r: "(if tp_StrictRoute params then strict_route env (rq_ID rq) s else (None, s)) = (res, t)"
      by (metis prod.exhaust)
    then have "idle_pre t \<and> core_state t = StateRunning \<and> (\<forall>r. res = Some r \<longrightarrow> resp_ok r)"
      using strict_route_post [OF pre p(1)] pre p(1) by (auto split: if_splits)
    with False p r call show ?thesis
      by (cases res) (auto simp: activateTun_def Let_def handler_post_def)
  qed
qed

section \<open>Steps keep the invariant\<close>

lemma runDiagnostic_ok: "resp_ok (runDiagnostic env rq)"
  by (auto simp: runDiagnostic_def split: option.splits)

lemma inspectWFP_ok: "resp_ok (inspectWFP env rq s)"
  by (auto simp: inspectWFP_def split: option.splits prod.splits)

lemma dispatch_post:
  assumes "idle_pre s"
  shows "handler_post (dispatch env clock rq s)"
proof -
  have ans: "handler_post (Answer r, s)" if "resp_ok r" for r using that assms by (simp add: handler_post_def)
  obtain sr t where st: "core_status clock s = (sr, t)" by (cases "core_status clock s")
  then have "handler_post (Answer (Result i (PStatus sr)), t)" for i
    using status_post [OF assms] by (simp add: handler_post_def)
  note status = this
  have split: "handler_post a \<Longrightarrow> handler_post b \<Longrightarrow> handler_post (if c then a else b)" for c and a b :: "handled \<times> 'a core"
    by simp
  show ?thesis
    unfolding dispatch_def Let_def st prod.case
    by (intro split status ans answered_post startProxy_post stopProxy_post activateTun_post proxyTelemetry_post deactivateTun_post
        resolveDNS_post dnsStatus_post runDiagnostic_ok inspectWFP_ok resp_ok_simps assms)
qed

lemma handle_post: "idle_pre s \<Longrightarrow> handler_post (handle env clock line s)"
  using dispatch_post [of s] by (simp add: handle_def handler_post_def split: decoded.split)

lemma idle_of_main:
  "core_inv s \<Longrightarrow> lock_free (co_main s) \<Longrightarrow> idle_pre s"
  by (auto simp: core_inv_def idle_pre_def main_ok_def lock_free_def split: main.splits)

lemma idle_main_inv: "idle_pre s \<Longrightarrow> core_inv (s\<lparr>co_main := MainIdle\<rparr>)" "idle_pre s \<Longrightarrow> core_inv (s\<lparr>co_main := MainExited\<rparr>)"
  by (simp_all add: core_inv_def idle_pre_def)

lemma run_line_inv: "core_inv s \<Longrightarrow> co_main s = MainIdle \<Longrightarrow> core_inv (run_line env clock text s)"
  by (auto simp: run_line_def Let_def lock_free_def intro!: go_on_inv handle_post idle_of_main)

lemma begin_exit_inv: "idle_pre s \<Longrightarrow> core_inv (begin_exit f s)"
  using idle_call_stop [of s] by (auto simp: begin_exit_def core_inv_def idle_pre_def)

lemma exit_resume_post:
  assumes inv: "sup_inv (co_tun s)" "engine_ok s" "out_ok s" "stop_wait_ok (co_tun s)" "sp_call (co_tun s) = NoCall"
    and st: "core_state s \<noteq> StateStopping"
  shows "idle_pre (exit_resume env clock s)"
proof -
  obtain e t where c: "closeDNSExemption env s = (e, t)" by (cases "closeDNSExemption env s")
  obtain e' u where p: "stop_proxy_server env t = (e', u)" by (cases "stop_proxy_server env t")
  define v where "v = clear_proxy u"
  have d: "torn_down s v" unfolding v_def by (rule torn_down_stop [OF inv(2) c p])
  have v: "co_proxy v = None" "co_mode v = []" "co_adapters v = []" by (simp_all add: v_def)
  have q: "tun_quiet (co_tun s)" by (rule stop_wait_quiet [OF inv(4,5)])
  have e: "core_state s \<noteq> StateStarting" "core_state s \<noteq> StateDegraded" using inv(2) by (auto simp: engine_ok_def)
  have x: "exit_resume env clock s = (if core_state v = StateRunning \<or> core_state v = StateDegraded
      then move_to (clock 1) StateStopped ''host exited'' (move_to (clock 0) StateStopping ''host exiting'' v) else v)"
    by (simp add: exit_resume_def c p v_def Let_def)
  show ?thesis
  proof (cases "core_state s = StateRunning")
    case True
    then show ?thesis
      using d inv q v by (simp add: x idle_pre_def engine_ok_def torn_down_def core_state_move held_def)
  next
    case False
    then show ?thesis
      using d inv q v e st by (simp add: x idle_pre_def engine_ok_def torn_down_def held_def)
  qed
qed

lemma resume_inv:
  assumes inv: "core_inv s" and m: "co_main s = MainTun w f" and c: "sp_call (co_tun s) = NoCall"
  shows "core_inv (resume env clock w f ret s)"
proof -
  have i: "sup_inv (co_tun s)" "engine_ok s" "out_ok s" and mo: "main_ok s" using inv by (simp_all add: core_inv_def)
  show ?thesis
  proof (cases w)
    case (WActivate j)
    with mo m have "core_state s = StateRunning" by (simp add: main_ok_def)
    with WActivate i c show ?thesis by (simp add: resume_def go_on_inv activate_resume_post)
  next
    case (WUndo j e)
    with mo m have "core_state s = StateRunning" by (simp add: main_ok_def)
    with WUndo i c show ?thesis by (simp add: resume_def go_on_inv answered_post undo_resume_post)
  next
    case (WStop j failed)
    with mo m have "core_state s = (if failed then StateFailed else StateStopping)" "stop_wait_ok (co_tun s)"
      by (simp_all add: main_ok_def)
    with WStop i c show ?thesis by (simp add: resume_def go_on_inv answered_post stop_resume_post)
  next
    case (WDeactivate j b)
    with mo m have "core_state s \<noteq> StateStopping" by (simp add: main_ok_def)
    with WDeactivate i c show ?thesis by (simp add: resume_def go_on_inv answered_post deactivate_resume_post)
  next
    case WHostExit
    with mo m have "core_state s \<noteq> StateStopping" "stop_wait_ok (co_tun s)" by (simp_all add: main_ok_def)
    with WHostExit i c show ?thesis by (simp add: resume_def idle_main_inv exit_resume_post)
  qed
qed

lemma idle_pre_same:
  assumes "idle_pre s" "same_engine s t" "co_tun t = co_tun s" "out_ok t"
  shows "idle_pre t"
  using assms engine_ok_same [of s t] core_state_same [OF assms(2)] by (simp add: idle_pre_def)

lemma idle_pre_emit: "idle_pre s \<Longrightarrow> idle_pre (snd (emitEvent name d s))"
  by (rule idle_pre_same [of s]) (auto simp: same_engine_emit out_ok_emit idle_pre_def)

lemma idle_pre_write: "idle_pre s \<Longrightarrow> resp_ok r \<Longrightarrow> idle_pre (snd (writeMessage (MResponse r) s))"
  by (rule idle_pre_same [of s]) (auto simp: same_engine_write out_ok_write idle_pre_def)

lemma run_reply_inv:
  assumes pre: "idle_pre s" and r: "resp_ok r"
  shows "core_inv (run_reply r f s)"
proof -
  have p1: "idle_pre (snd (if c then emitEvent n d t else (b, t)))" if "idle_pre t" for c n d b and t :: "'a core"
    using that idle_pre_emit [of t] by simp
  show ?thesis
    unfolding run_reply_def Let_def split_beta
    by (simp only: if_split) (intro conjI impI idle_main_inv begin_exit_inv p1 idle_pre_write pre r)
qed

lemma tun_step_inv:
  assumes inv: "core_inv s" and ev: "\<not> starts_call ev" and run: "tun_piece ev s = Some t"
  shows "core_inv t"
proof (rule tun_piece_keeps [OF run])
  assume a: "sup_exec ev (co_tun s) = Some (co_tun t)" "same_engine s t" "out_ok s \<Longrightarrow> out_ok t"
  have i: "sup_inv (co_tun s)" "engine_ok s" "out_ok s" "main_ok s" using inv by (simp_all add: core_inv_def)
  have "engine_ok t" by (rule engine_ok_same [OF i(2) a(2)]) (rule tun_quiet_step [OF _ ev a(1)])
  moreover have "stop_wait_ok (co_tun s) \<Longrightarrow> stop_wait_ok (co_tun t)" by (rule stop_wait_step [OF _ i(1) ev a(1)])
  moreover have "sp_call (co_tun s) = NoCall \<Longrightarrow> sp_call (co_tun t) = NoCall"
    using a(1) ev run_step_call [of ev "co_tun s" "co_tun t"] by (simp add: sup_exec_NoCall)
  moreover have "co_main t = co_main s" using a(2) by (simp add: same_engine_def)
  ultimately show ?thesis
    using a i sup_inv_tun [OF i(1) a(1)] core_state_same [OF a(2)]
    by (simp add: core_inv_def main_ok_def split: main.splits tun_wait.splits)
qed

lemma same_main_inv:
  assumes "core_inv s" "lock_free (co_main s)" "idle_pre t" "co_main t = co_main s"
  shows "core_inv t"
  using assms by (auto simp: core_inv_def idle_pre_def main_ok_def lock_free_def split: main.splits)

lemma unexpected_exit_inv:
  assumes inv: "core_inv s" and free: "lock_free (co_main s)"
  shows "core_inv (handleTunUnexpectedExit env clock st s)"
proof -
  have pre: "idle_pre s" by (rule idle_of_main [OF inv free])
  then have e: "engine_ok s" "sup_inv (co_tun s)" "out_ok s" "sp_call (co_tun s) = NoCall" "core_state s \<noteq> StateStopping"
    by (simp_all add: idle_pre_def)
  obtain x t where c: "closeDNSExemption env s = (x, t)" by (cases "closeDNSExemption env s")
  obtain x' u where p: "stop_proxy_server env t = (x', u)" by (cases "stop_proxy_server env t")
  define v where "v = (if co_mode t = ''tun_tcp_pool'' \<and> co_proxy t \<noteq> None then clear_proxy u else t)"
  have d: "torn_down s v"
    using torn_down_stop(2) [OF e(1) c p] close_exemption [OF c] e(1) by (auto simp: v_def torn_down_def engine_ok_def)
  define w where "w = (if core_state v = StateRunning \<or> core_state v = StateDegraded
      then move_to (clock 0) StateFailed ''managed TUN sidecar exited unexpectedly'' v else v)"
  have st: "core_state w = (if core_state s = StateRunning then StateFailed else core_state s)"
    using d e(1) by (auto simp: w_def torn_down_def engine_ok_def core_state_move)
  have "co_exemption w = None" "mset (co_openedEx w) = mset (co_closedEx w)" "co_tun w = co_tun s" "co_main w = co_main s"
    "out_ok w = out_ok s" "(co_proxy w = None) = (co_mode w = [])" "co_proxy w = None \<longrightarrow> co_adapters w = []"
    "co_proxy s = None \<longrightarrow> co_proxy w = None"
    using d by (simp_all add: w_def torn_down_def)
  then have w: "idle_pre w" "co_main w = co_main s"
    using e st by (auto simp: idle_pre_def engine_ok_def held_def)
  have "handleTunUnexpectedExit env clock st s = snd (emitEvent EventEngineStateChanged (EState (rt_snapshot (co_runtime w)))
      (snd (emitEvent EventTunStateChanged (ETun st) w)))"
    by (simp only: handleTunUnexpectedExit_def Let_def c p snd_conv v_def w_def)
  moreover have "same_engine w (snd (emitEvent n1 d1 (snd (emitEvent n2 d2 w))))" for n1 d1 n2 d2
    by (rule same_engine_trans) (rule same_engine_emit)+
  ultimately show ?thesis
    using w by (intro same_main_inv [OF inv free]) (simp_all add: idle_pre_emit same_engine_def)
qed

lemma main_ok_cong:
  assumes "core_state t = core_state s" "co_tun t = co_tun s" "co_main t = co_main s"
  shows "main_ok t = main_ok s"
  unfolding main_ok_def assms by (rule refl)

lemma core_inv_update:
  assumes "core_inv s" "co_runtime t = co_runtime s" "co_tun t = co_tun s" "co_main t = co_main s" "co_mode t = co_mode s"
    "co_adapters t = co_adapters s" "co_exemption t = co_exemption s" "co_openedEx t = co_openedEx s"
    "co_closedEx t = co_closedEx s" "map_option sv_running (co_proxy t) = map_option sv_running (co_proxy s)" "out_ok t"
  shows "core_inv t"
proof -
  have "core_state t = core_state s" using assms(2) by (simp add: core_state_def)
  moreover have "(co_proxy t = None) = (co_proxy s = None)"
    "(\<exists>p. co_proxy t = Some p \<and> sv_running p) = (\<exists>p. co_proxy s = Some p \<and> sv_running p)"
    using assms(10) by (cases "co_proxy s"; cases "co_proxy t"; auto)+
  moreover have "main_ok t = main_ok s"
    using calculation(1) assms by (intro main_ok_cong)
  ultimately show ?thesis
    using assms by (auto simp: core_inv_def engine_ok_def)
qed

lemma core_exec_inv:
  assumes inv: "core_inv s" and run: "core_exec env ev s = Some t"
  shows "core_inv t"
proof (cases ev)
  case (Line clock line)
  then show ?thesis using assms by (auto simp: core_exec_def run_line_inv split: if_splits)
next
  case EndOfInput
  then show ?thesis using assms idle_of_main [OF inv]
    by (auto simp: core_exec_def begin_exit_inv lock_free_def split: if_splits)
next
  case (Resume clock)
  then show ?thesis using assms by (auto simp: core_exec_def resume_inv split: if_splits main.splits)
next
  case Reply
  then obtain r f where m: "co_main s = MainReply r f" "t = run_reply r f s"
    using run by (auto simp: core_exec_def split: main.splits)
  then have "resp_ok r" using inv by (simp add: core_inv_def main_ok_def)
  with m idle_of_main [OF inv] show ?thesis by (simp add: run_reply_inv lock_free_def)
next
  case (Tun ev)
  then show ?thesis using assms by (auto simp: core_exec_def tun_step_inv split: if_splits)
next
  case (SidecarExit clock)
  then have l: "lock_free (co_main s)"
    and t: "t = handleTunUnexpectedExit env clock (snd (sp_reports (co_tun s) ! co_taken s)) (s\<lparr>co_taken := co_taken s + 1\<rparr>)"
    using run by (auto simp: core_exec_def split: if_splits)
  have "core_inv (s\<lparr>co_taken := co_taken s + 1\<rparr>)"
    by (rule core_inv_update [OF inv]) (use inv in \<open>simp_all add: core_inv_def out_ok_def\<close>)
  with l show ?thesis by (simp add: t unexpected_exit_inv)
next
  case (Fallback a p r)
  then have t: "t = snd (emitEvent EventDNSFallbackRequired (EFallback a p r) s)"
    using run by (simp add: core_exec_def handleDNSFallback_def)
  have "same_engine s t" "co_tun t = co_tun s" by (simp_all add: t same_engine_emit)
  moreover have "out_ok t" using inv by (simp add: t core_inv_def out_ok_emit)
  ultimately show ?thesis
    by (intro core_inv_update [OF inv]) (simp_all add: same_engine_def)
next
  case (UseProxy p')
  then obtain p where "co_proxy s = Some p" "sv_running p' = sv_running p" "t = s\<lparr>co_proxy := Some p'\<rparr>"
    using run by (auto simp: core_exec_def bind_eq_Some_conv split: if_splits)
  then show ?thesis
    by (intro core_inv_update [OF inv]) (use inv in \<open>simp_all add: core_inv_def out_ok_def\<close>)
next
  case BreakOutput
  then have "t = s\<lparr>co_broken := True\<rparr>" using run by (simp add: core_exec_def)
  then show ?thesis
    by (intro core_inv_update [OF inv]) (use inv in \<open>simp_all add: core_inv_def out_ok_def Let_def\<close>)
qed

definition core_init :: "'w core \<Rightarrow> bool" where
  "core_init s \<longleftrightarrow> (\<exists>now name version commit ident w. s = New_core now name version commit ident w)"

text \<open>The environment of a step is part of its label: what the outside answers may change from step to step.\<close>

definition core_step :: "'w core \<Rightarrow> 'w core_env \<times> core_event \<Rightarrow> 'w core \<Rightarrow> bool" where
  "core_step s l t \<longleftrightarrow> core_exec (fst l) (snd l) s = Some t"

lemma core_init_inv: "core_inv (New_core now name version commit ident w)"
  by (simp add: New_core_def core_inv_def main_ok_def engine_ok_def out_ok_def core_state_def new_runtime_def rt_state_def
      held_def tun_quiet_def SetHandlers_def NewSupervisor_def tun_state_of_def blank_status_def
      sup_inv_NewSupervisor(1) [unfolded SetHandlers_def NewSupervisor_def blank_status_def, simplified])

interpretation core: invariant_system core_init core_step core_inv
  by unfold_locales (auto simp: core_init_def core_step_def core_init_inv core_exec_inv)

section \<open>Properties\<close>

text \<open>
  C23. The state the engine reports is the state of its parts, in every reachable state: running means that there is
  a proxy server and that it is listening; stopped means that nothing is left, no proxy, no mode, no
  packet filter exemption, the TUN supervisor stopped, and every sidecar process that may still be
  alive has been killed. An exemption is only held while the engine runs or is being stopped, and
  every exemption that was ever opened is closed or is the one held.
\<close>

theorem engine_state_is_true:
  assumes "reach core_init core_step s"
  shows "(core_state s = StateRunning \<longrightarrow> (\<exists>p. co_proxy s = Some p \<and> Running p))
       \<and> (core_state s = StateStopped \<longrightarrow>
            co_proxy s = None \<and> co_mode s = [] \<and> co_exemption s = None \<and> tun_state_of (co_tun s) = TunStopped
            \<and> (\<forall>r x. run_of (co_tun s) r = Some x \<and> rn_alive x \<longrightarrow> rn_killed x))
       \<and> (co_exemption s \<noteq> None \<longrightarrow> core_state s \<in> {StateRunning, StateStopping})
       \<and> mset (co_openedEx s) = mset (co_closedEx s) + (case co_exemption s of None \<Rightarrow> {#} | Some h \<Rightarrow> {#h#})"
proof -
  have inv: "core_inv s" by (rule core.reach_inv [OF assms])
  then have e: "engine_ok s" and i: "sup_inv (co_tun s)" by (simp_all add: core_inv_def)
  have "rn_killed x" if q: "tun_quiet (co_tun s)" and x: "run_of (co_tun s) r = Some x" "rn_alive x" for r x
  proof -
    have "run_ok x" "rn_intentional x \<or> marked (rn_stage x)"
      using i q x(1) by (auto simp: sup_inv_def tun_quiet_def run_of_Some list_all_length)
    with x(2) show ?thesis by (auto simp: run_ok_def)
  qed
  with e show ?thesis
    by (auto simp: engine_ok_def Running_def held_def tun_quiet_def)
qed

text \<open>
  C24. What the engine writes keeps to the protocol, however requests, sidecar exits, log lines and a broken output
  interleave: the events written are numbered 1, 2, 3 and so on without a gap, modulo \<open>2 ^ 64\<close>, and every
  response has the protocol's version and exactly one of a result and an error.
\<close>

theorem output_keeps_protocol:
  assumes "reach core_init core_step s"
  shows "(\<forall>k < length (events_of (co_output s)). ev_Sequence (events_of (co_output s) ! k) = of_nat (k + 1))
       \<and> (\<forall>r \<in> set (responses_of (co_output s)). rs_Protocol r = Version \<and> (rs_Result r = None) \<noteq> (rs_Error r = None))"
proof -
  have "out_ok s" using core.reach_inv [OF assms] by (simp add: core_inv_def)
  then have m: "map ev_Sequence (events_of (co_output s)) = map of_nat [1..<Suc (length (events_of (co_output s)))]"
    and r: "list_all resp_ok (responses_of (co_output s))"
    by (simp_all add: out_ok_def Let_def)
  have "ev_Sequence (events_of (co_output s) ! k) = of_nat (k + 1)" if "k < length (events_of (co_output s))" for k
    using arg_cong [OF m, of "\<lambda>xs. xs ! k"] that by (simp del: upt_Suc)
  with r show ?thesis by (auto simp: list_all_iff resp_ok_def)
qed

text \<open>The codes with which a request is refused before anything is done.\<close>

definition refusals :: "string list" where
  "refusals = [''invalid_json'', ''unsupported_protocol'', ''invalid_request'', ''method_not_found'', ''invalid_params'',
               ''unsupported_mode'', ''invalid_state'', ''elevation_required'']"

definition refused :: "handled \<times> 'w core \<Rightarrow> 'w core \<Rightarrow> bool" where
  "refused x s \<longleftrightarrow>
     (case x of (Answer r, t) \<Rightarrow> (\<exists>c \<in> set refusals. failure_code r = Some c) \<longrightarrow> t = s | _ \<Rightarrow> True)"

lemma failure_code_simps [simp]: "failure_code (Result i p) = None" "failure_code (Failure i c m d) = Some c"
  by (simp_all add: failure_code_def Result_def Failure_def)

lemma not_refusals [simp]:
  "''start_failed'' \<notin> set refusals" "''dns_failed'' \<notin> set refusals" "''wfp_unavailable'' \<notin> set refusals"
  by (simp_all add: refusals_def)

lemma refused_same [simp]: "refused (Answer r, s) s" "refused (AwaitTun w, t) s" "refused (Answer (Result i p), t) s"
  "refused (Answer (Failure i ''start_failed'' m d), t) s" "refused (Answer (Failure i ''dns_failed'' m d), t) s"
  "refused (Answer (Failure i ''wfp_unavailable'' m d), t) s"
  using not_refusals by (auto simp: refused_def)

lemma startProxy_refused:
  assumes "idle_pre s"
  shows "refused (answered (startProxy env clock rq s)) s"
proof -
  have "refused (answered (start_engine env clock i mode params s)) s"
    if st: "core_state s \<in> {StateStopped, StateFailed}" for i mode params
  proof -
    obtain r ch where "Transition (clock 0) (co_runtime s) StateStarting (mode @ '' start requested'') = (r, Inr ch)"
      using start_transition [OF st] by metis
    then show ?thesis
      by (simp add: start_engine_def answered_def Let_def split: sum.split prod.split)
  qed
  note start = this
  have bad: "refused (answered (Failure i c m d, s)) s" for i c m d by (simp add: answered_def)
  show ?thesis
  proof (cases "ce_start env (rq_Params rq)")
    case None
    then show ?thesis by (simp add: startProxy_def Let_def bad)
  next
    case (Some params)
    define mode where "mode = (if ep_Mode params = [] then ''proxy'' else ep_Mode params)"
    show ?thesis
      unfolding startProxy_def Let_def Some option.case mode_def [symmetric]
      by (simp add: bad) (auto intro: start)
  qed
qed

lemma stopProxy_refused: "refused (stopProxy clock i s) s"
  by (simp add: stopProxy_def Let_def)

lemma activateTun_refused: "refused (activateTun env rq s) s"
proof -
  have "refused (Answer r, t) s" if "strict_route env i s = (Some r, t)" for i r t
    using that by (auto simp: strict_route_def Let_def split: if_splits sum.splits prod.splits option.splits)
  then show ?thesis
    by (auto simp: activateTun_def Let_def split: option.splits prod.splits if_splits)
qed

lemma proxy_requests_refused:
  "refused (answered (proxyTelemetry env clock rq s)) s" "refused (answered (resolveDNS env rq s)) s"
  "refused (answered (dnsStatus clock i s)) s"
proof -
  show "refused (answered (proxyTelemetry env clock rq s)) s"
    by (simp add: proxyTelemetry_def answered_def Let_def split: option.split prod.split)
  show "refused (answered (resolveDNS env rq s)) s"
    by (simp add: resolveDNS_def answered_def Let_def split: option.split prod.split sum.split)
  have "s\<lparr>co_proxy := Some p'\<rparr> = s" if "DNSStatus now p = (None, p')" "co_proxy s = Some p" for now p p'
    using that by (auto simp: DNSStatus_def Let_def split: option.splits if_splits prod.splits)
  then show "refused (answered (dnsStatus clock i s)) s"
    by (auto simp: dnsStatus_def answered_def Let_def split: option.splits prod.splits)
qed

lemma handle_refused:
  assumes "idle_pre s"
  shows "refused (handle env clock line s) s"
proof -
  have split: "refused a s \<Longrightarrow> refused b s \<Longrightarrow> refused (if c then a else b) s" for c and a b :: "handled \<times> 'a core"
    by simp
  obtain sr t where st: "core_status clock s = (sr, t)" by (cases "core_status clock s")
  have "refused (dispatch env clock rq s) s" for rq
    unfolding dispatch_def Let_def st prod.case
    by (intro split refused_same startProxy_refused [OF assms] stopProxy_refused activateTun_refused proxy_requests_refused
        deactivateTun_def [THEN ssubst])
  then show ?thesis by (simp add: handle_def split: decoded.split)
qed

text \<open>
  C25. A request that is refused changes nothing: when the answer is that the line is not a request, that the
  protocol, the method, the parameters or the mode are not supported, that the engine is in the wrong state
  or that the rights are missing, the server is exactly as it was before the line was read.
\<close>

theorem refused_requests_change_nothing:
  assumes "reach core_init core_step s" "co_main s = MainIdle" "handle env clock line s = (Answer r, t)"
    "failure_code r \<in> Some ` {''invalid_json'', ''unsupported_protocol'', ''invalid_request'', ''method_not_found'',
                              ''invalid_params'', ''unsupported_mode'', ''invalid_state'', ''elevation_required''}"
  shows "t = s"
proof -
  have "idle_pre s" using idle_of_main [OF core.reach_inv [OF assms(1)]] assms(2) by (simp add: lock_free_def)
  from handle_refused [OF this, of env clock line] assms(3,4) show ?thesis by (auto simp: refused_def refusals_def)
qed

end
