(* ===== verification/Core_Runs.thy ===== *)
theory Core_Runs
  imports Core_Inv Proxy_Server_Inv
begin

text \<open>
  Concrete runs of the engine: a start request, an activation of the TUN sidecar, its exit. They
  show that the properties of \<open>Core_Inv\<close> speak of reachable states, and one of them is a run in
  which the report of an old sidecar's exit stops the engine of the new one.
\<close>

definition example_start :: start_params where
  "example_start = \<lparr>ep_Mode = ''tun_tcp_pool'', ep_ListenHost = [], ep_SOCKSPort = 0, ep_HTTPPort = 0, ep_Weighted = True,
     ep_Adapters = [\<lparr>ad_Name = ''eth'', ad_SourceIP = ''10.0.0.2'', ad_IfIndex = 4, ad_SourceIPv6 = [], ad_IPv6IfIndex = 0,
                     ad_Weight = 0, ad_DNSServers = []\<rparr>],
     ep_Channels = map (\<lambda>n. \<lparr>chn_Name = n, chn_Port = 0, chn_AdapterNames = [''eth'']\<rparr>)
                     [ChannelEthernet, ChannelWiFi, ChannelAggregation],
     ep_ConnectTimeoutMS = 0, ep_DNS = \<lparr>ds_Policy = [], ds_LegacyServers = [], ds_CacheTTLMS = 0, ds_QueryTimeoutMS = 0\<rparr>,
     ep_DomainIsolation = None, ep_DomainIsolationExpiry = None, ep_DomainQuarantines = []\<rparr>"

definition example_tun :: tun_params where
  "example_tun = \<lparr>tp_Executable = ''/sb'', tp_ConfigPath = ''/c'', tp_StartupTimeoutMS = 0, tp_StrictRoute = False\<rparr>"

definition example_request :: "string \<Rightarrow> request" where
  "example_request method = \<lparr>rq_Protocol = 1, rq_ID = ''1'', rq_Method = method, rq_Params = []\<rparr>"

text \<open>An environment whose lines are the names of methods.\<close>

definition example_core_env :: "nat core_env" where
  "example_core_env =
     \<lparr>ce_decode = (\<lambda>line. Decoded (example_request line)), ce_start = (\<lambda>_. Some example_start), ce_telemetry = (\<lambda>_. None),
      ce_dns = (\<lambda>_. None), ce_tun = (\<lambda>_. Some example_tun), ce_diagnostic = (\<lambda>_. None), ce_wfp = (\<lambda>_. None),
      ce_os = ''linux'', ce_arch = ''amd64'', ce_proxy = example_senv_nat, ce_closeError = (\<lambda>_. False), ce_drained = (\<lambda>_. True),
      ce_openExemption = (\<lambda>_ w. (Inl ''no'', w)), ce_closeExemption = (\<lambda>_. None),
      ce_inspectWFP = (\<lambda>_. (\<lparr>wf_Elevated = False, wf_BFERunning = False, wf_EngineReady = False, wf_RepairAttempted = False,
                            wf_Repaired = False, wf_Detail = []\<rparr>, Some ''no'')),
      ce_newProber = None, ce_cancelled = (\<lambda>_. False), ce_icmp = (\<lambda>_ _ _ _. EchoFailed 1), ce_fs = example_fs\<rparr>"

definition example_core :: "nat core" where
  "example_core = New_core 1 ''HypoMux'' ''1.0'' ''abc'' \<lparr>id_ProcessID = 9, id_Elevated = False\<rparr> 0"

definition example_clock :: clock where "example_clock = (\<lambda>_. 5)"

lemma example_core_reach: "reach core_init core_step example_core"
  by (rule reach_init) (unfold core_init_def example_core_def, blast)

lemma core_run_reach:
  "reach core_init core_step s \<Longrightarrow> core_run env evs s = Some t \<Longrightarrow> reach core_init core_step t"
proof (induction evs arbitrary: s)
  case (Cons ev evs)
  then obtain u where "core_exec env ev s = Some u" "core_run env evs u = Some t" by (auto simp: bind_eq_Some_conv)
  then have "core_step s (env, ev) u" by (simp add: core_step_def)
  with Cons \<open>core_run env evs u = Some t\<close> show ?case by (meson reach_step)
qed simp

lemma core_run_append: "core_run env (xs @ ys) s = Option.bind (core_run env xs s) (core_run env ys)"
  by (induction xs arbitrary: s) (auto split: bind_splits)

section \<open>Starting the engine\<close>

lemma example_New: "\<exists>p. New 5 (ProxyConfig example_start) = Inr p \<and> cf_Channels (sv_config p) \<noteq> []
    \<and> \<not> sv_running p \<and> \<not> isl (new_resolver (cf_DNS (sv_config p)) True)"
proof -
  have "\<not> isl (New 5 (ProxyConfig example_start))"
    "\<not> isl (New 5 (ProxyConfig example_start)) \<and> (let p = projr (New 5 (ProxyConfig example_start))
       in cf_Channels (sv_config p) \<noteq> [] \<and> \<not> sv_running p \<and> \<not> isl (new_resolver (cf_DNS (sv_config p)) True))"
    by code_simp+
  then show ?thesis by (cases "New 5 (ProxyConfig example_start)") (auto simp: Let_def)
qed

text \<open>What the runs look at: the rest of the state stays abstract.\<close>

definition tun_ready :: "nat core \<Rightarrow> bool" where
  "tun_ready s \<longleftrightarrow> core_state s = StateRunning \<and> (\<exists>p. co_proxy s = Some p \<and> sv_running p)
     \<and> co_mode s = ''tun_tcp_pool'' \<and> co_main s = MainIdle \<and> \<not> co_broken s"

definition core_started :: "nat core" where
  "core_started = the (core_run example_core_env [Line example_clock ''engine.start'', Reply] example_core)"

lemma graphic_trim [simp]:
  "trim_space ''engine.start'' = ''engine.start''" "trim_space ''tun.activate'' = ''tun.activate''" "trim_space ''1'' = ''1''"
  by (rule trim_space_graphic; simp add: graphic_def)+

lemma handle_example:
  assumes "trim_space m = m" "m \<noteq> []"
  shows "handle example_core_env clock m s = dispatch example_core_env clock (example_request m) s"
    "shuts_down example_core_env m \<longleftrightarrow> m = MethodHostShutdown"
  using assms by (simp_all add: handle_def shuts_down_def example_core_env_def example_request_def Version_def)

lemma dispatch_start:
  "dispatch env clock (example_request ''engine.start'') s = answered (startProxy env clock (example_request ''engine.start'') s)"
  by (simp add: dispatch_def example_request_def Let_def MethodEngineHello_def MethodEngineStatus_def MethodEngineStart_def)

lemma dispatch_activate:
  "dispatch env clock (example_request ''tun.activate'') s = activateTun env (example_request ''tun.activate'') s"
  by (simp add: dispatch_def example_request_def Let_def MethodEngineHello_def MethodEngineStatus_def MethodEngineStart_def
      MethodEngineStop_def MethodEngineTelemetry_def MethodTunActivate_def)

lemma run_reply_idle:
  assumes "\<not> co_broken s" "\<not> fr_shutdown f"
  shows "same_engine s ((run_reply r f s)\<lparr>co_main := co_main s\<rparr>)" "co_tun (run_reply r f s) = co_tun s"
    "\<not> co_broken (run_reply r f s)" "co_main (run_reply r f s) = MainIdle"
  using assms by (simp_all add: run_reply_def writeMessage_def emitEvent_def same_engine_def Let_def)

lemma Start_example:
  assumes "\<not> sv_running p" "cf_Channels (sv_config p) \<noteq> []" "\<not> isl (new_resolver (cf_DNS (sv_config p)) True)"
    "Start example_senv_nat (SetDNSFallbackHandler True p) w = (res, q, v)"
  shows "\<not> isl res" "sv_running q"
proof -
  obtain r ls u where l: "listen_channels example_senv_nat (cf_ListenHost (sv_config p)) (cf_Channels (sv_config p)) [] [] w = (r, ls, u)"
    by (metis prod_cases3)
  moreover have "\<not> isl r"
    using listen_channels_total [of example_senv_nat "cf_ListenHost (sv_config p)" "cf_Channels (sv_config p)" "[]" "[]" w] l
    by (simp add: example_senv_nat_def)
  ultimately show "\<not> isl res" "sv_running q"
    using assms by (auto simp: Start_def startChannelListeners_def SetDNSFallbackHandler_def Let_def split: sum.splits prod.splits)
qed

lemma example_start_engine:
  assumes "start_engine example_core_env example_clock i mode example_start example_core = (r, t)" "mode = ''tun_tcp_pool''"
  shows "tun_ready t" "co_tun t = SetHandlers NewSupervisor" "co_taken t = 0"
proof -
  obtain p where p: "New 5 (ProxyConfig example_start) = Inr p" "cf_Channels (sv_config p) \<noteq> []" "\<not> sv_running p"
    "\<not> isl (new_resolver (cf_DNS (sv_config p)) True)" using example_New by blast
  obtain res q v where s: "Start example_senv_nat (SetDNSFallbackHandler True p) 0 = (res, q, v)" by (metis prod_cases3)
  note q = Start_example [OF p(3,2,4) s]
  have st: "core_state example_core \<in> {StateStopped, StateFailed}"
    by (simp add: example_core_def New_core_def core_state_def new_runtime_def rt_state_def)
  obtain u ch where tr: "Transition (example_clock 0) (co_runtime example_core) StateStarting (mode @ '' start requested'') = (u, Inr ch)"
    "rt_state u = StateStarting" by (rule start_transition [OF st])
  have e: "ce_proxy example_core_env = example_senv_nat" "example_clock (Suc 0) = 5" "co_world example_core = 0"
    "co_main example_core = MainIdle" "\<not> co_broken example_core" "co_tun example_core = SetHandlers NewSupervisor"
    "co_taken example_core = 0"
    by (simp_all add: example_core_env_def example_clock_def example_core_def New_core_def)
  obtain eps where eps: "res = Inr eps" using q(1) by (cases res) auto
  have m: "core_state (move_to 5 StateRunning rs x) = StateRunning" if "co_runtime x = u" for rs and x :: "nat core"
    using that tr(2) by (simp add: move_to_def core_state_def transition_to_def Transition_def rt_state_def Let_def)
  have t: "t = move_to (example_clock 2) StateRunning (mode @ '' listeners ready'')
     (example_core\<lparr>co_runtime := u, co_world := v, co_proxy := Some q, co_mode := mode,
        co_adapters := wfp_adapters (ep_Adapters example_start)\<rparr>)"
    using assms(1) by (simp add: start_engine_def tr(1) Let_def e p(1) s eps)
  show "tun_ready t" "co_tun t = SetHandlers NewSupervisor" "co_taken t = 0"
    using q(2) e m assms(2) by (simp_all add: t tun_ready_def example_clock_def core_state_def) (simp_all add: move_to_def)
qed

lemma start_line:
  "\<exists>r t f. run_line example_core_env example_clock ''engine.start'' example_core = t\<lparr>co_main := MainReply r f\<rparr>
     \<and> \<not> fr_shutdown f \<and> tun_ready t \<and> co_tun t = SetHandlers NewSupervisor \<and> co_taken t = 0"
proof -
  define mode where "mode = ''tun_tcp_pool''"
  define rq where "rq = example_request ''engine.start''"
  define f where "f = current_frame False example_core"
  obtain r t where st: "start_engine example_core_env example_clock ''1'' mode example_start example_core = (r, t)"
    by (cases "start_engine example_core_env example_clock ''1'' mode example_start example_core")
  have "core_state example_core = StateStopped" "rq_ID rq = ''1''"
    "ce_start example_core_env (rq_Params rq) = Some example_start" "ep_Channels example_start \<noteq> []"
    "ep_Mode example_start = mode" "mode \<noteq> []" "mode \<noteq> ''proxy''" "mode = ''tun_tcp_pool''"
    by (simp_all add: example_core_def New_core_def core_state_def new_runtime_def rt_state_def rq_def example_request_def
        example_core_env_def example_start_def mode_def)
  then have "startProxy example_core_env example_clock rq example_core = (r, t)"
    using st by (simp add: startProxy_def Let_def)
  then have "dispatch example_core_env example_clock rq example_core = (Answer r, t)"
    by (simp add: rq_def dispatch_start answered_def)
  moreover have "shuts_down example_core_env ''engine.start'' = False"
    by (simp add: handle_example MethodHostShutdown_def)
  ultimately have "run_line example_core_env example_clock ''engine.start'' example_core
      = t\<lparr>co_main := MainReply (to_reply f r) f\<rparr>"
    by (simp add: run_line_def handle_example(1) go_on_def flip: rq_def f_def)
  moreover have "\<not> fr_shutdown f" by (simp add: f_def current_frame_def)
  ultimately show ?thesis using example_start_engine [OF st mode_def] by blast
qed

lemma tun_ready_cong:
  "same_engine s (t\<lparr>co_main := co_main s\<rparr>) \<Longrightarrow> co_main t = MainIdle \<Longrightarrow> \<not> co_broken t \<Longrightarrow>
   tun_ready (s\<lparr>co_main := MainIdle\<rparr>) \<Longrightarrow> tun_ready t"
  by (auto simp: tun_ready_def same_engine_def core_state_def)

lemma core_started_run:
  "core_run example_core_env [Line example_clock ''engine.start'', Reply] example_core = Some core_started"
  "tun_ready core_started" "co_tun core_started = SetHandlers NewSupervisor" "co_taken core_started = 0"
  "reach core_init core_step core_started"
proof -
  obtain r t f where l: "run_line example_core_env example_clock ''engine.start'' example_core = t\<lparr>co_main := MainReply r f\<rparr>"
    and t: "\<not> fr_shutdown f" "tun_ready t" "co_tun t = SetHandlers NewSupervisor" "co_taken t = 0"
    using start_line by blast
  define u where "u = t\<lparr>co_main := MainReply r f\<rparr>"
  have "core_run example_core_env [Line example_clock ''engine.start'', Reply] example_core = Some (run_reply r f u)"
    using l by (simp add: core_exec_def u_def) (simp add: example_core_def New_core_def)
  then have eq: "core_started = run_reply r f u"
    and run: "core_run example_core_env [Line example_clock ''engine.start'', Reply] example_core = Some core_started"
    by (simp_all add: core_started_def)
  show "core_run example_core_env [Line example_clock ''engine.start'', Reply] example_core = Some core_started" by (rule run)
  show "reach core_init core_step core_started" by (rule core_run_reach [OF example_core_reach run])
  have b: "\<not> co_broken u" using t(2) by (simp add: u_def tun_ready_def)
  note rr = run_reply_idle [OF b t(1), of r, folded eq]
  show "tun_ready core_started"
    by (rule tun_ready_cong [OF rr(1,4,3)]) (use t(2) in \<open>simp add: u_def tun_ready_def core_state_def\<close>)
  show "co_tun core_started = SetHandlers NewSupervisor" "co_taken core_started = 0"
    using rr t by (simp_all add: u_def same_engine_def)
qed

section \<open>Activating the sidecar\<close>

lemma handleTunLogs_broken: "co_broken (fold handleTunLog ms s) = co_broken s"
  by (induction ms arbitrary: s) (auto simp: handleTunLog_def emitEvent_def writeMessage_def Let_def)

lemma tun_events_run:
  assumes "sup_run evs (co_tun s) = Some u" "list_all (\<lambda>ev. \<not> starts_call ev) evs"
  shows "\<exists>t. core_run env (map Tun evs) s = Some t \<and> co_tun t = u \<and> same_engine s t \<and> co_broken t = co_broken s"
  using assms
proof (induction evs arbitrary: s)
  case Nil
  then show ?case by (simp add: same_engine_def)
next
  case (Cons ev evs)
  then obtain v where v: "sup_exec ev (co_tun s) = Some v" "sup_run evs v = Some u" by (auto simp: bind_eq_Some_conv)
  then obtain t where t: "tun_piece ev s = Some t" by (auto simp: tun_piece_def)
  have k: "co_tun t = v" "same_engine s t" using tun_piece_keeps [OF t] v(1) by auto
  have b: "co_broken t = co_broken s" using t by (auto simp: tun_piece_def handleTunLogs_broken)
  have "sup_run evs (co_tun t) = Some u" using v(2) k by simp
  then obtain x where "core_run env (map Tun evs) t = Some x" "co_tun x = u" "same_engine t x" "co_broken x = co_broken t"
    using Cons.IH Cons.prems by fastforce
  then show ?case using t k b Cons.prems by (auto simp: core_exec_def intro: same_engine_trans)
qed

definition activation :: "int \<Rightarrow> core_event list" where
  "activation pid = Line example_clock ''tun.activate'' # map Tun (tl (activate_events pid)) @ [Resume example_clock, Reply]"

lemma activation_run:
  assumes "tun_ready s" "sp_call (co_tun s) = NoCall" "sup_run (activate_events pid) (co_tun s) = Some u"
    "sp_call u = NoCall" "snd (last (sp_returned u)) = None"
  shows "\<exists>t. core_run example_core_env (activation pid) s = Some t \<and> tun_ready t \<and> co_tun t = u \<and> co_taken t = co_taken s"
proof -
  define f where "f = current_frame False s"
  define ev where "ev = CallActivate example_fs example_tun_config"
  define c where "c = (tun_call ev s)\<lparr>co_main := MainTun (WActivate ''1'') f\<rparr>"
  have nf: "\<not> fr_shutdown f" by (simp add: f_def current_frame_def)
  have evs: "activate_events pid = ev # tl (activate_events pid)" "list_all (\<lambda>ev. \<not> starts_call ev) (tl (activate_events pid))"
    by (simp_all add: activate_events_def ev_def starts_call_def)
  from assms(3) obtain v where v: "sup_exec ev (co_tun s) = Some v" "sup_run (tl (activate_events pid)) v = Some u"
    by (subst (asm) evs(1)) (auto simp: bind_eq_Some_conv)
  then obtain w where w: "tun_piece ev s = Some w" by (auto simp: tun_piece_def)
  have k: "co_tun w = v" "same_engine s w" using tun_piece_keeps [OF w] v(1) by auto
  have b: "co_broken w = co_broken s" using w by (auto simp: tun_piece_def handleTunLogs_broken)
  have cw: "c = w\<lparr>co_main := MainTun (WActivate ''1'') f\<rparr>" by (simp add: c_def tun_call_def w)
  obtain fa where fa: "core_state s = StateRunning" "co_proxy s = Some fa" "co_mode s = ''tun_tcp_pool''" "co_main s = MainIdle"
      "\<not> co_broken s"
    using assms(1) by (auto simp: tun_ready_def)
  have env: "ce_tun example_core_env p = Some example_tun" "ce_fs example_core_env = example_fs"
    "tun_params_config example_tun = example_tun_config" "\<not> tp_StrictRoute example_tun" "rq_ID (example_request m) = ''1''" for p m
    by (simp_all add: example_core_env_def example_tun_def tun_params_config_def example_tun_config_def millis_def
        example_request_def time_defs wrap64_def)
  have "handle example_core_env example_clock ''tun.activate'' s = (AwaitTun (WActivate ''1''), w)"
    using fa env w
    by (simp add: handle_example(1) dispatch_activate activateTun_def Let_def tun_call_def ev_def)
  moreover have "shuts_down example_core_env ''tun.activate'' = False" by (simp add: handle_example MethodHostShutdown_def)
  ultimately have line: "core_exec example_core_env (Line example_clock ''tun.activate'') s = Some c"
    using fa(4) by (simp add: core_exec_def run_line_def go_on_def cw flip: f_def)
  have "sup_run (tl (activate_events pid)) (co_tun c) = Some u" using v(2) k(1) by (simp add: cw)
  from tun_events_run [OF this evs(2)] obtain x where x: "core_run example_core_env (map Tun (tl (activate_events pid))) c = Some x"
    "co_tun x = u" "same_engine c x" "co_broken x = co_broken c" by blast
  define r where "r = Result ''1'' (PTun True (fst (last (sp_returned u))))"
  define y where "y = x\<lparr>co_main := MainReply r f\<rparr>"
  have mx: "co_main x = MainTun (WActivate ''1'') f" using x(3) by (simp add: same_engine_def cw)
  obtain st where st: "last (sp_returned u) = (st, None)" using assms(5) by (metis prod.collapse)
  have resume: "core_exec example_core_env (Resume example_clock) x = Some y"
    using nf assms(4) by (simp add: core_exec_def mx x(2) resume_def activate_resume_def st go_on_def to_reply_def y_def r_def)
  have reply: "core_exec example_core_env Reply y = Some (run_reply r f y)" by (simp add: core_exec_def y_def)
  have run: "core_run example_core_env (activation pid) s = Some (run_reply r f y)"
    by (simp add: activation_def line core_run_append x(1) resume reply)
  have "\<not> co_broken y" using fa(5) x(4) b by (simp add: y_def cw)
  note rr = run_reply_idle [OF this nf, of r]
  have "tun_ready (y\<lparr>co_main := MainIdle\<rparr>)"
    using assms(1) k(2) x(3,4) b by (auto simp: y_def cw tun_ready_def same_engine_def core_state_def)
  then have "tun_ready (run_reply r f y)" by (rule tun_ready_cong [OF rr(1,4,3)])
  moreover have "co_taken (run_reply r f y) = co_taken s" using rr(1) x(3) k(2) by (simp add: same_engine_def y_def cw)
  ultimately show ?thesis using run rr(2) x(2) by (auto simp: y_def)
qed

lemma sup_run_append: "sup_run (xs @ ys) s = Option.bind (sup_run xs s) (sup_run ys)"
  by (induction xs arbitrary: s) (auto split: bind_splits)

definition core_activated :: "nat core" where
  "core_activated = the (core_run example_core_env (activation 7) core_started)"

lemma core_activated_run:
  "core_run example_core_env (activation 7) core_started = Some core_activated"
  "tun_ready core_activated" "co_tun core_activated = tun_running" "co_taken core_activated = 0"
  "reach core_init core_step core_activated"
proof -
  have "sp_call (co_tun core_started) = NoCall" "sup_run (activate_events 7) (co_tun core_started) = Some tun_running"
    "sp_call tun_running = NoCall" "snd (last (sp_returned tun_running)) = None"
    using tun_running_run by (simp_all add: core_started_run(3)) (simp_all add: tun_running_eval)
  from activation_run [OF core_started_run(2) this] core_started_run(4)
  have "\<exists>t. core_run example_core_env (activation 7) core_started = Some t \<and> tun_ready t \<and> co_tun t = tun_running \<and> co_taken t = 0"
    by simp
  then show "core_run example_core_env (activation 7) core_started = Some core_activated"
    and f: "tun_ready core_activated" "co_tun core_activated = tun_running" "co_taken core_activated = 0"
    by (auto simp: core_activated_def)
  then show "reach core_init core_step core_activated" using core_run_reach [OF core_started_run(5)] by blast
qed

section \<open>Witnesses\<close>

theorem engine_state_is_true_witness:
  "core_state core_activated = StateRunning \<and> co_tun core_activated = tun_running
   \<and> (\<exists>p. co_proxy core_activated = Some p \<and> Running p)"
  using engine_state_is_true [OF core_activated_run(5)] core_activated_run(2,3) by (simp add: tun_ready_def)

text \<open>A TUN activation while the engine is stopped is refused.\<close>

lemma activate_refused:
  "\<exists>d. handle example_core_env example_clock ''tun.activate'' example_core = (Answer (Failure ''1'' ''invalid_state'' d []), example_core)"
proof -
  have "core_state example_core = StateStopped" "rq_ID (example_request m) = ''1''" for m
    by (simp_all add: example_core_def New_core_def core_state_def new_runtime_def rt_state_def example_request_def)
  then show ?thesis by (auto simp: handle_example(1) dispatch_activate activateTun_def)
qed

theorem output_keeps_protocol_witness:
  "\<exists>s :: nat core. reach core_init core_step s \<and> length (responses_of (co_output s)) = 1
     \<and> (\<forall>r \<in> set (responses_of (co_output s)). rs_Protocol r = Version \<and> (rs_Result r = None) \<noteq> (rs_Error r = None))
     \<and> length (events_of (co_output s)) = 1 \<and> ev_Sequence (events_of (co_output s) ! 0) = 1"
proof -
  define f where "f = current_frame False example_core"
  obtain d where h: "handle example_core_env example_clock ''tun.activate'' example_core
      = (Answer (Failure ''1'' ''invalid_state'' d []), example_core)" using activate_refused by blast
  define r where "r = Failure ''1'' ''invalid_state'' d []"
  define s where "s = handleDNSFallback ''eth'' ''strict'' ''timeout'' (run_reply r f (example_core\<lparr>co_main := MainReply r f\<rparr>))"
  have c: "co_main example_core = MainIdle" "\<not> co_broken example_core" "co_output example_core = []" "co_eventSeq example_core = 0"
    by (simp_all add: example_core_def New_core_def)
  have nf: "\<not> fr_shutdown f" by (simp add: f_def current_frame_def)
  have "core_run example_core_env [Line example_clock ''tun.activate'', Reply, Fallback ''eth'' ''strict'' ''timeout''] example_core = Some s"
    using nf by (simp add: core_exec_def c run_line_def handle_example(2) MethodHostShutdown_def h go_on_def to_reply_def s_def
        flip: f_def r_def)
  then have reach: "reach core_init core_step s" by (rule core_run_reach [OF example_core_reach])
  have same: "Status (co_tun example_core) = fr_tun f" "rt_snapshot (co_runtime example_core) = fr_state f"
    by (simp_all add: f_def current_frame_def)
  have "length (responses_of (co_output s)) = 1" "length (events_of (co_output s)) = 1"
    using nf c same by (simp_all add: s_def handleDNSFallback_def emitEvent_def run_reply_def writeMessage_def Let_def
        events_of_def responses_of_def List.map_filter_def)
  with output_keeps_protocol [OF reach] reach show ?thesis by (intro exI [of _ s] conjI) simp_all
qed

theorem refused_requests_change_nothing_witness:
  "\<exists>r t. handle example_core_env example_clock ''tun.activate'' example_core = (Answer r, t)
     \<and> failure_code r = Some ''invalid_state'' \<and> t = example_core"
proof -
  obtain d where h: "handle example_core_env example_clock ''tun.activate'' example_core
      = (Answer (Failure ''1'' ''invalid_state'' d []), example_core)" using activate_refused by blast
  have "co_main example_core = MainIdle" by (simp add: example_core_def New_core_def)
  from refused_requests_change_nothing [OF example_core_reach this h] h show ?thesis by simp
qed

section \<open>A late report\<close>

text \<open>
  The report of a sidecar's unexpected exit is handled when its cleanup is done, whatever has
  started in between: here the first sidecar exits, a second one is activated while the cleanup for
  the first is pending, and the report then stops the proxy and fails the engine although
  the second sidecar is running.
\<close>

definition first_exit :: "tun_event list" where
  "first_exit = [ProcessExits 0, Waited 0 4 1 None, Marked 0]"

definition late_report :: "tun_event list" where
  "late_report = [RunCleaned 0 None None, Closed 0, Reported 0]"

lemma exit_fails_engine:
  assumes "tun_ready s"
  shows "core_state (handleTunUnexpectedExit env clock st s) = StateFailed" "co_proxy (handleTunUnexpectedExit env clock st s) = None"
    "co_tun (handleTunUnexpectedExit env clock st s) = co_tun s"
proof -
  obtain e t where c: "closeDNSExemption env s = (e, t)" by (cases "closeDNSExemption env s")
  obtain e' u where p: "stop_proxy_server env t = (e', u)" by (cases "stop_proxy_server env t")
  have t: "co_mode t = ''tun_tcp_pool''" "co_proxy t \<noteq> None" "core_state t = StateRunning" "co_tun t = co_tun s"
    using c assms by (auto simp: closeDNSExemption_def tun_ready_def core_state_def split: option.splits)
  have u: "core_state u = StateRunning" "co_tun u = co_tun s"
    using p t by (auto simp: stop_proxy_server_def core_state_def Let_def split: option.splits prod.splits)
  define v where "v = move_to (clock 0) StateFailed ''managed TUN sidecar exited unexpectedly'' (clear_proxy u)"
  have "core_state v = StateFailed" "co_proxy v = None" "co_tun v = co_tun s"
    using u by (simp_all add: v_def core_state_move)
  moreover have "handleTunUnexpectedExit env clock st s = snd (emitEvent EventEngineStateChanged (EState (rt_snapshot (co_runtime v)))
      (snd (emitEvent EventTunStateChanged (ETun st) v)))"
    using t u by (simp add: handleTunUnexpectedExit_def Let_def c p v_def)
  ultimately show "core_state (handleTunUnexpectedExit env clock st s) = StateFailed"
    "co_proxy (handleTunUnexpectedExit env clock st s) = None" "co_tun (handleTunUnexpectedExit env clock st s) = co_tun s"
    by (simp_all add: emitEvent_def writeMessage_def Let_def core_state_def)
qed

theorem late_exit_fails_the_engine_of_a_new_sidecar:
  "\<exists>s :: nat core. reach core_init core_step s \<and> core_state s = StateFailed \<and> co_proxy s = None
     \<and> tun_state_of (co_tun s) = TunRunning \<and> tu_PID (Status (co_tun s)) = 8
     \<and> (\<exists>y. run_of (co_tun s) 1 = Some y \<and> rn_alive y)"
proof -
  obtain u where u: "sup_run first_exit tun_running = Some u" "sp_call u = NoCall"
    by (simp add: first_exit_def tun_running_eval)
  obtain v where v: "sup_run (activate_events 8) u = Some v" "sp_call v = NoCall" "snd (last (sp_returned v)) = None"
    using u by (auto simp: first_exit_def tun_running_eval)
  obtain w where w: "sup_run late_report v = Some w" "length (sp_reports w) = 1" "tun_state_of w = TunRunning" "tu_PID (Status w) = 8"
    "\<exists>y. run_of w 1 = Some y \<and> rn_alive y"
    using u v by (auto simp: first_exit_def late_report_def tun_running_eval)
  have nc: "list_all (\<lambda>ev. \<not> starts_call ev) first_exit" "list_all (\<lambda>ev. \<not> starts_call ev) late_report"
    by (simp_all add: first_exit_def late_report_def starts_call_def)
  have "sup_run first_exit (co_tun core_activated) = Some u" using u core_activated_run by simp
  from tun_events_run [OF this nc(1)] obtain a where a: "core_run example_core_env (map Tun first_exit) core_activated = Some a"
    "co_tun a = u" "same_engine core_activated a" "co_broken a = co_broken core_activated" by blast
  have "tun_ready a" using core_activated_run(2) a(3,4) by (simp add: tun_ready_def same_engine_def core_state_def)
  from activation_run [OF this] u v a(2) obtain b where b: "core_run example_core_env (activation 8) a = Some b"
    "tun_ready b" "co_tun b = v" "co_taken b = co_taken a" by metis
  from w(1) b(3) have "sup_run late_report (co_tun b) = Some w" by simp
  from tun_events_run [OF this nc(2)] obtain c where c: "core_run example_core_env (map Tun late_report) b = Some c"
    "co_tun c = w" "same_engine b c" "co_broken c = co_broken b" by blast
  define s where "s = handleTunUnexpectedExit example_core_env example_clock (snd (sp_reports w ! 0)) (c\<lparr>co_taken := 1\<rparr>)"
  have taken: "co_taken c = 0" "co_main c = MainIdle" "tun_ready c"
    using a(3) b c(3,4) core_activated_run by (simp_all add: same_engine_def tun_ready_def core_state_def)
  have last: "core_exec example_core_env (SidecarExit example_clock) c = Some s"
    using taken w(2) c(2) by (simp add: core_exec_def lock_free_def s_def)
  have "core_run example_core_env (map Tun first_exit @ activation 8 @ map Tun late_report @ [SidecarExit example_clock]) core_activated = Some s"
    by (simp add: core_run_append a(1) b(1) c(1) last)
  then have "reach core_init core_step s" by (rule core_run_reach [OF core_activated_run(5)])
  moreover have "tun_ready (c\<lparr>co_taken := 1\<rparr>)" using taken(3) by (simp add: tun_ready_def core_state_def)
  from exit_fails_engine [OF this] have "core_state s = StateFailed \<and> co_proxy s = None \<and> co_tun s = w"
    using c(2) by (simp add: s_def)
  ultimately show ?thesis using w by auto
qed

end
