(* ===== verification/Json.thy ===== *)
theory Json
  imports Go_Prelude
begin

text \<open>
  JSON as the desktop decodes it with Go's \<open>encoding/json\<close>: a document is a tree, and the decoding of a tree into
  a Go variable keeps the old value where Go does (\<open>null\<close>, and most errors). A number is its literal.
  The syntax of documents is not modelled: a text is what the parser makes of it, a tree or an error.
\<close>

datatype json =
    JNull
  | JBool bool
  | JNum string
  | JStr string
  | JArr "json list"
  | JObj "(string \<times> json) list"

text \<open>\<open>map[string]json.RawMessage\<close>: of equal keys the last one counts.\<close>

definition decode_object :: "json \<Rightarrow> (string \<times> json) list option" where
  "decode_object v = (case v of JObj kvs \<Rightarrow> Some kvs | JNull \<Rightarrow> Some [] | _ \<Rightarrow> None)"

definition member :: "(string \<times> json) list \<Rightarrow> string \<Rightarrow> json option" where
  "member kvs k = map_of (rev kvs) k"

text \<open>Decoding into a variable with an old value; \<^const>\<open>None\<close> is the error, which leaves the variable alone.\<close>

definition decode_string :: "string \<Rightarrow> json \<Rightarrow> string option" where
  "decode_string old v = (case v of JStr s \<Rightarrow> Some s | JNull \<Rightarrow> Some old | _ \<Rightarrow> None)"

definition decode_bool :: "bool \<Rightarrow> json \<Rightarrow> bool option" where
  "decode_bool old v = (case v of JBool b \<Rightarrow> Some b | JNull \<Rightarrow> Some old | _ \<Rightarrow> None)"

definition decode_int :: "int \<Rightarrow> json \<Rightarrow> int option" where
  "decode_int old v = (case v of JNum s \<Rightarrow> atoi s | JNull \<Rightarrow> Some old | _ \<Rightarrow> None)"

definition decode_array :: "json \<Rightarrow> json list option" where
  "decode_array v = (case v of JArr xs \<Rightarrow> Some xs | JNull \<Rightarrow> Some [] | _ \<Rightarrow> None)"

fun collect :: "('a \<Rightarrow> 'b option) \<Rightarrow> 'a list \<Rightarrow> 'b list option" where
  "collect f [] = Some []"
| "collect f (x # xs) =
     (case f x of None \<Rightarrow> None | Some y \<Rightarrow> map_option ((#) y) (collect f xs))"

definition decode_strings :: "json \<Rightarrow> string list option" where
  "decode_strings v = Option.bind (decode_array v) (collect (decode_string []))"

text \<open>\<open>_ = json.Unmarshal(raw[key], target)\<close>: nothing changes when the key is missing or the value does not fit.\<close>

definition decode_into :: "('a \<Rightarrow> json \<Rightarrow> 'a option) \<Rightarrow> (string \<times> json) list \<Rightarrow> string \<Rightarrow> 'a \<Rightarrow> 'a" where
  "decode_into decode raw key old =
     (case member raw key of None \<Rightarrow> old | Some v \<Rightarrow> (case decode old v of None \<Rightarrow> old | Some x \<Rightarrow> x))"

end
