(* ===== verification/Net_Cidr.thy ===== *)
theory Net_Cidr
  imports Net_Addr
begin

text \<open>
  The parts of Go's package \<open>net\<close> on networks that the desktop's routing rules call: \<open>net.CIDRMask\<close>,
  \<open>IP.Mask\<close>, \<open>net.ParseCIDR\<close>, \<open>IPMask.Size\<close> and \<open>IPNet.String\<close>. Proved here: printing and parsing
  an IPv6 address gives the address back, zero compression included, and printing and parsing a
  network changes nothing.
\<close>

section \<open>Networks\<close>

record ip_net =
  in_IP :: ip
  in_Mask :: "byte list"

fun cidr_mask :: "nat \<Rightarrow> nat \<Rightarrow> byte list" where
  "cidr_mask 0 n = []"
| "cidr_mask (Suc l) n =
     (if 8 \<le> n then 255 # cidr_mask l (n - 8) else NOT (drop_bit n 255) # cidr_mask l 0)"

definition ip_mask :: "ip \<Rightarrow> byte list \<Rightarrow> ip" where
  "ip_mask ip m =
     (let m = (if length m = 16 \<and> length ip = 4 \<and> take 12 m = replicate 12 255 then drop 12 m else m);
          ip = (if length m = 4 \<and> length ip = 16 \<and> take 12 ip = v4InV6Prefix then drop 12 ip else ip)
      in if length ip \<noteq> length m then [] else map2 (AND) ip m)"

definition mask_bits :: "nat \<Rightarrow> string \<Rightarrow> nat option" where
  "mask_bits bits s =
     (if s = [] \<or> \<not> list_all is_digit s then None
      else let n = digits_val 0 s in if n \<le> int bits then Some (nat n) else None)"

definition is_ipv4_text :: "string \<Rightarrow> bool" where
  "is_ipv4_text s \<longleftrightarrow> find (\<lambda>c. c = CHR ''.'' \<or> c = CHR '':'' \<or> c = CHR ''%'') s = Some CHR ''.''"

definition parse_cidr :: "string \<Rightarrow> (ip \<times> ip_net) option" where
  "parse_cidr s =
     (let addr = takeWhile (\<lambda>c. c \<noteq> CHR ''/'') s; rest = drop (length addr) s
      in if rest = [] then None
         else case parse_ip addr of
                None \<Rightarrow> None
              | Some ip \<Rightarrow>
                  let l = (if is_ipv4_text addr then 4 else 16)
                  in case mask_bits (8 * l) (tl rest) of
                       None \<Rightarrow> None
                     | Some n \<Rightarrow> let m = cidr_mask l n in Some (ip, \<lparr>in_IP = ip_mask ip m, in_Mask = m\<rparr>))"

text \<open>The leading one bits of a byte, and whether only zero bits follow.\<close>

fun byte_ones :: "nat \<Rightarrow> byte \<Rightarrow> nat \<times> byte" where
  "byte_ones 0 v = (0, v)"
| "byte_ones (Suc k) v =
     (if v AND 0x80 \<noteq> 0 then (let (n, w) = byte_ones k (push_bit 1 v) in (n + 1, w)) else (0, v))"

fun simpleMaskLength :: "byte list \<Rightarrow> int" where
  "simpleMaskLength [] = 0"
| "simpleMaskLength (v # vs) =
     (if v = 255 then (let n = simpleMaskLength vs in if n = -1 then -1 else n + 8)
      else let (n, w) = byte_ones 8 v in if w \<noteq> 0 \<or> list_ex (\<lambda>b. b \<noteq> 0) vs then -1 else int n)"

definition mask_size :: "byte list \<Rightarrow> int" where
  "mask_size m = (let n = simpleMaskLength m in if n = -1 then 0 else n)"

definition network_parts :: "ip_net \<Rightarrow> (ip \<times> byte list) option" where
  "network_parts n =
     (let ip = (case to4 (in_IP n) of Some v4 \<Rightarrow> v4 | None \<Rightarrow> in_IP n); m = in_Mask n
      in if length ip \<noteq> 4 \<and> length ip \<noteq> 16 then None
         else if length m = 4 then (if length ip = 4 then Some (ip, m) else None)
         else if length m = 16 then Some (ip, if length ip = 4 then drop 12 m else m)
         else None)"

definition ip_net_string :: "ip_net \<Rightarrow> string" where
  "ip_net_string n =
     (case network_parts n of
        None \<Rightarrow> ''<nil>''
      | Some (ip, m) \<Rightarrow>
          (let l = simpleMaskLength m
           in ip_string ip @ ''/'' @ (if l = -1 then concat (map hex_byte m) else nat_str (nat l))))"

section \<open>Hexadecimal groups\<close>

lemma hex_val_digit: "n < 16 \<Longrightarrow> hex_val (hex_digit n) = Some n"
  by (simp add: hex_val_def hex_digit_def)

lemma hex_digit_is_hex [simp]: "n < 16 \<Longrightarrow> is_hex (hex_digit n)"
  by (simp add: is_hex_def hex_val_digit)

lemma hex_str_nonempty [simp]: "hex_str n \<noteq> []"
  by (subst hex_str.simps) simp

lemma hex_str_hex: "list_all is_hex (hex_str n)"
  by (induction n rule: hex_str.induct) (subst hex_str.simps, simp)

lemma hex_number_hex_str [simp]: "hex_number (hex_str n) = n"
proof (induction n rule: hex_str.induct)
  case (1 n)
  then show ?case
    by (subst hex_str.simps) (auto simp: hex_number_def hex_val_digit)
qed

lemma hex_str_length: "n < 16 ^ Suc k \<Longrightarrow> length (hex_str n) \<le> Suc k"
proof (induction k arbitrary: n)
  case (Suc k)
  then have "n div 16 < 16 ^ Suc k" by (simp add: less_mult_imp_div_less)
  from Suc.IH [OF this] show ?case by (subst hex_str.simps) simp
qed (subst hex_str.simps, simp)

lemma hex_str_length_4: "n < 65536 \<Longrightarrow> length (hex_str n) \<le> 4"
  using hex_str_length [of n 3] by simp

lemma not_hex: "\<not> is_hex CHR '':''" "\<not> is_hex CHR ''.''" "\<not> is_hex CHR ''%''" "\<not> is_hex CHR ''/''"
  by (simp_all add: is_hex_def hex_val_def)

lemma takeWhile_hex: "takeWhile is_hex (hex_str n @ CHR '':'' # t) = hex_str n" "takeWhile is_hex (hex_str n) = hex_str n"
  using hex_str_hex [of n] not_hex by (simp_all add: takeWhile_append2 list_all_iff)

definition ungroup :: "nat list \<Rightarrow> byte list" where
  "ungroup gs = concat (map (\<lambda>g. [of_nat (g div 256), of_nat (g mod 256)]) gs)"

lemma ungroup_simps [simp]: "ungroup [] = []" "ungroup (g # gs) = of_nat (g div 256) # of_nat (g mod 256) # ungroup gs"
  "ungroup (xs @ ys) = ungroup xs @ ungroup ys"
  by (simp_all add: ungroup_def)

lemma ungroup_length [simp]: "length (ungroup gs) = 2 * length gs"
  by (induction gs) auto

lemma ungroup_zero: "(\<forall>g \<in> set gs. g = 0) \<Longrightarrow> ungroup gs = replicate (2 * length gs) 0"
  by (induction gs) auto

lemma byte_less_256: "unat (b :: byte) < 256"
  using unsigned_less [where 'a = nat and w = b] by simp

lemma ungroup_groups16: "even (length bs) \<Longrightarrow> ungroup (groups16 bs) = bs"
proof (induction bs rule: groups16.induct)
  case (1 hi lo bs)
  have "(unat hi * 256 + unat lo) div 256 = unat hi" "(unat hi * 256 + unat lo) mod 256 = unat lo"
    using byte_less_256 [of lo] by auto
  with 1 show ?case by simp
qed auto

lemma groups16_length: "length (groups16 bs) = length bs div 2"
  by (induction bs rule: groups16.induct) auto

lemma groups16_bound: "g \<in> set (groups16 bs) \<Longrightarrow> g < 65536"
proof (induction bs rule: groups16.induct)
  case (1 hi lo bs)
  have "unat hi * 256 + unat lo < 65536" using byte_less_256 [of hi] byte_less_256 [of lo] by linarith
  with 1 show ?case by auto
qed auto

section \<open>IPv6 round trip\<close>

lemma join_hex_hd: "gs \<noteq> [] \<Longrightarrow> \<exists>c cs. join_with '':'' (map hex_str gs) @ t = c # cs \<and> is_hex c"
proof (induction gs)
  case (Cons g gs)
  obtain c cs where c: "hex_str g = c # cs" by (cases "hex_str g") auto
  then have "is_hex c" using hex_str_hex [of g] by simp
  with c show ?case by (cases gs) auto
qed simp

lemma ipv6_loop_group:
  assumes "length acc < 16" "g < 65536"
  shows "ipv6_loop acc ell (hex_str g) = Some (acc @ ungroup [g], ell, [])"
    "is_hex c \<Longrightarrow> ipv6_loop acc ell (hex_str g @ CHR '':'' # c # t) = ipv6_loop (acc @ ungroup [g]) ell (c # t)"
    "ipv6_loop acc None (hex_str g @ CHR '':'' # CHR '':'' # t) =
       (if t = [] then Some (acc @ ungroup [g], Some (length acc + 2), [])
        else ipv6_loop (acc @ ungroup [g]) (Some (length acc + 2)) t)"
proof -
  have l: "\<not> 4 < length (hex_str g)" using hex_str_length_4 [OF assms(2)] by simp
  show "ipv6_loop acc ell (hex_str g) = Some (acc @ ungroup [g], ell, [])"
    using assms l by (subst ipv6_loop.simps) (simp add: takeWhile_hex)
  show "ipv6_loop acc ell (hex_str g @ CHR '':'' # c # t) = ipv6_loop (acc @ ungroup [g]) ell (c # t)" if "is_hex c"
  proof -
    have "c \<noteq> CHR '':''" using that not_hex by blast
    then show ?thesis using assms l by (subst ipv6_loop.simps) (auto simp: takeWhile_hex Let_def)
  qed
  show "ipv6_loop acc None (hex_str g @ CHR '':'' # CHR '':'' # t) =
       (if t = [] then Some (acc @ ungroup [g], Some (length acc + 2), [])
        else ipv6_loop (acc @ ungroup [g]) (Some (length acc + 2)) t)"
    using assms l by (subst ipv6_loop.simps) (auto simp: takeWhile_hex)
qed

lemma ipv6_loop_join:
  assumes "gs \<noteq> []" "length acc + 2 * length gs \<le> 16" "\<forall>g \<in> set gs. g < 65536"
  shows "ipv6_loop acc ell (join_with '':'' (map hex_str gs)) = Some (acc @ ungroup gs, ell, [])"
  using assms
proof (induction gs arbitrary: acc)
  case (Cons g gs)
  show ?case
  proof (cases gs)
    case Nil
    then show ?thesis using Cons.prems by (simp add: ipv6_loop_group(1))
  next
    case (Cons h hs)
    then obtain c cs where c: "join_with '':'' (map hex_str gs) @ [] = c # cs" "is_hex c" using join_hex_hd [of gs "[]"] by blast
    have "join_with '':'' (map hex_str (g # gs)) = hex_str g @ CHR '':'' # c # cs" using c Cons by simp
    then show ?thesis
      using ipv6_loop_group(2) [of acc g c ell cs] c Cons.IH [of "acc @ ungroup [g]"] Cons.prems Cons by simp
  qed
qed simp

lemma ipv6_loop_ellipsis:
  assumes "gs \<noteq> []" "length acc + 2 * length gs < 16" "\<forall>g \<in> set gs. g < 65536"
  shows "ipv6_loop acc None (join_with '':'' (map hex_str gs) @ CHR '':'' # CHR '':'' # t) =
    (if t = [] then Some (acc @ ungroup gs, Some (length acc + 2 * length gs), [])
     else ipv6_loop (acc @ ungroup gs) (Some (length acc + 2 * length gs)) t)"
  using assms
proof (induction gs arbitrary: acc)
  case (Cons g gs)
  show ?case
  proof (cases gs)
    case Nil
    then show ?thesis using Cons.prems by (simp add: ipv6_loop_group(3))
  next
    case (Cons h hs)
    then obtain c cs where c: "join_with '':'' (map hex_str gs) @ CHR '':'' # CHR '':'' # t = c # cs" "is_hex c"
      using join_hex_hd [of gs "CHR '':'' # CHR '':'' # t"] by blast
    have "join_with '':'' (map hex_str (g # gs)) @ CHR '':'' # CHR '':'' # t = hex_str g @ CHR '':'' # c # cs"
      using c Cons by simp
    then show ?thesis
      using ipv6_loop_group(2) [of acc g c None cs] c Cons.IH [of "acc @ ungroup [g]"] Cons.prems Cons by simp
  qed
qed simp

lemma takeWhile_drop_nth:
  assumes "i \<le> k" "k < i + length (takeWhile P (drop i xs))"
  shows "P (xs ! k)"
proof -
  let ?ys = "takeWhile P (drop i xs)"
  have m: "k - i < length ?ys" using assms by simp
  have "k - i < length (drop i xs)" using m length_takeWhile_le [of P "drop i xs"] by simp
  then have "drop i xs ! (k - i) = xs ! k" using assms(1) by (simp add: nth_drop)
  moreover have "?ys ! (k - i) = drop i xs ! (k - i)" using m by (rule takeWhile_nth)
  moreover have "P (?ys ! (k - i))" using set_takeWhileD [OF nth_mem [OF m]] by simp
  ultimately show ?thesis by simp
qed

lemma zero_run_spec:
  assumes "length gs = 8" "zero_run gs = (zs, ze)"
  shows "zs = 255 \<or> (zs + 2 \<le> ze \<and> ze \<le> 8 \<and> (\<forall>k. zs \<le> k \<and> k < ze \<longrightarrow> gs ! k = 0))"
proof -
  let ?ok = "\<lambda>(zs, ze). (zs = 255 \<and> ze = 255) \<or> (zs + 2 \<le> ze \<and> ze \<le> 8 \<and> (\<forall>k. zs \<le> k \<and> k < ze \<longrightarrow> gs ! k = 0))"
  let ?f = "\<lambda>(zs, ze) i. let j = i + length (takeWhile (\<lambda>g. g = 0) (drop i gs))
              in if 2 \<le> j - i \<and> ze - zs < j - i then (i, j) else (zs, ze)"
  have step: "?ok (?f p i)" if "?ok p" "i < 8" for p i
  proof -
    let ?n = "length (takeWhile (\<lambda>g. g = 0) (drop i gs))"
    have "?n \<le> 8 - i" using length_takeWhile_le [of "\<lambda>g. g = 0" "drop i gs"] assms(1) by simp
    moreover have "gs ! k = 0" if "i \<le> k" "k < i + ?n" for k
      using takeWhile_drop_nth [OF that] .
    ultimately show ?thesis using that by (auto simp: Let_def split: prod.splits)
  qed
  have "?ok (foldl ?f p is)" if "?ok p" "\<forall>i \<in> set is. i < 8" for p "is"
    using that
  proof (induction "is" arbitrary: p)
    case (Cons i "is")
    have "?ok (?f p i)" using step [of p i] Cons.prems by simp
    then show ?case using Cons.IH [of "?f p i"] Cons.prems(2) by simp
  qed simp
  from this [of "(255, 255)" "[0..<8]"] assms(2) show ?thesis by (auto simp: zero_run_def)
qed

lemma join_chars: "c \<in> set (join_with '':'' (map hex_str gs)) \<Longrightarrow> is_hex c \<or> c = CHR '':''"
proof (induction gs rule: induct_list012)
  case (2 g)
  then show ?case using hex_str_hex [of g] by (auto simp: list_all_iff)
next
  case (3 g h gs)
  then show ?case using hex_str_hex [of g] by (auto simp: list_all_iff)
qed simp

lemma ipv6_string_parts:
  assumes "length bs = 16"
  obtains (all) "ipv6_string bs = join_with '':'' (map hex_str (groups16 bs))"
  | (cut) zs ze where "zs + 2 \<le> ze" "ze \<le> 8" "\<forall>k. zs \<le> k \<and> k < ze \<longrightarrow> groups16 bs ! k = 0"
      "ipv6_string bs = join_with '':'' (map hex_str (take zs (groups16 bs))) @ ''::'' @
         join_with '':'' (map hex_str (drop ze (groups16 bs)))"
proof -
  obtain zs ze where z: "zero_run (groups16 bs) = (zs, ze)" by (cases "zero_run (groups16 bs)")
  have "length (groups16 bs) = 8" using assms by (simp add: groups16_length)
  from zero_run_spec [OF this z] show thesis
    using that(1) that(2) [of zs ze] z by (auto simp: ipv6_string_def Let_def)
qed

lemma zero_middle:
  assumes "length gs = 8" "zs \<le> ze" "ze \<le> 8" "\<forall>k. zs \<le> k \<and> k < ze \<longrightarrow> gs ! k = (0 :: nat)"
  shows "ungroup (take zs gs) @ replicate (2 * (ze - zs)) 0 @ ungroup (drop ze gs) = ungroup gs"
proof -
  have "gs = take zs gs @ take (ze - zs) (drop zs gs) @ drop ze gs"
    using assms(2) by (metis append_take_drop_id drop_drop le_add_diff_inverse2)
  then have u: "ungroup gs = ungroup (take zs gs) @ ungroup (take (ze - zs) (drop zs gs)) @ ungroup (drop ze gs)"
    by (metis ungroup_simps(3))
  have "\<forall>g \<in> set (take (ze - zs) (drop zs gs)). g = 0"
    using assms by (auto simp: in_set_conv_nth)
  from ungroup_zero [OF this] show ?thesis using assms u by simp
qed

lemma parse_ipv6_string:
  assumes "length bs = 16"
  shows "parse_ip (ipv6_string bs) = Some bs" "\<not> is_ipv4_text (ipv6_string bs)" "CHR ''/'' \<notin> set (ipv6_string bs)"
proof -
  let ?gs = "groups16 bs"
  have gs: "length ?gs = 8" "\<forall>g \<in> set ?gs. g < 65536" "ungroup ?gs = bs"
    using assms groups16_bound ungroup_groups16 by (auto simp: groups16_length)
  have chars: "\<forall>c \<in> set (ipv6_string bs). is_hex c \<or> c = CHR '':''"
    using assms by (cases rule: ipv6_string_parts) (auto dest: join_chars)
  then show "CHR ''/'' \<notin> set (ipv6_string bs)" using not_hex by auto
  have pct: "CHR ''%'' \<notin> set (ipv6_string bs)" using chars not_hex by auto
  have hd: "\<not> prefix ''::'' (join_with '':'' (map hex_str hs) @ t)" if ne: "hs \<noteq> []" for hs t
    using join_hex_hd [OF ne, of t] not_hex by (auto simp: prefix_Cons)
  have loop: "parse_ipv6 (ipv6_string bs) = Some bs \<and> CHR '':'' \<in> set (ipv6_string bs)"
    using assms
  proof (cases rule: ipv6_string_parts)
    case all
    have ne: "?gs \<noteq> []" using gs(1) by auto
    obtain x y zs where "?gs = x # y # zs" using gs(1) by (auto simp: numeral_eq_Suc length_Suc_conv)
    then have "CHR '':'' \<in> set (ipv6_string bs)" by (simp add: all)
    then show ?thesis
      using assms hd [OF ne, of "[]"] ipv6_loop_join [OF ne, of "[]" None] gs pct
      by (simp add: parse_ipv6_def all ipv6_finish_def)
  next
    case (cut zs ze)
    let ?a = "take zs ?gs" and ?b = "drop ze ?gs"
    have sub: "\<forall>g \<in> set ?a. g < 65536" "\<forall>g \<in> set ?b. g < 65536" using gs(2) by (meson in_set_takeD in_set_dropD)+
    have len: "length ?a = zs" "length ?b = 8 - ze" using cut gs(1) by simp_all
    have mid: "ungroup ?a @ replicate (2 * (ze - zs)) 0 @ ungroup ?b = bs"
      using zero_middle [OF gs(1) _ cut(2,3)] cut(1) gs(3) by simp
    have fin: "ipv6_finish (ungroup ?a @ ungroup ?b, Some (2 * zs), []) = Some bs"
    proof -
      have "16 - (2 * zs + 2 * (8 - ze)) = 2 * (ze - zs)" "2 * zs + 2 * (8 - ze) < 16" using cut by linarith+
      then show ?thesis using mid len cut by (simp add: ipv6_finish_def)
    qed
    have b: "ipv6_loop acc ell (join_with '':'' (map hex_str ?b)) = Some (acc @ ungroup ?b, ell, [])"
      if "?b \<noteq> []" "length acc = 2 * zs" for acc ell
      using ipv6_loop_join [OF that(1) _ sub(2)] that(2) len cut by simp
    have bn: "join_with '':'' (map hex_str hs) = [] \<longleftrightarrow> hs = []" for hs by (cases hs rule: remdups_adj.cases) auto
    show ?thesis
    proof (cases "zs = 0")
      case True
      show ?thesis
      proof (cases "?b = []")
        case e: True
        then have "ze = 8" using len cut by simp
        then show ?thesis using mid True pct e by (simp add: parse_ipv6_def cut(4))
      next
        case False
        then show ?thesis using True b [of "[]"] fin pct bn [of ?b] by (simp add: parse_ipv6_def cut(4))
      qed
    next
      case False
      then have ne: "?a \<noteq> []" using len gs(1) by auto
      have "ipv6_loop [] None (ipv6_string bs) = Some (ungroup ?a @ ungroup ?b, Some (2 * zs), [])"
        using ipv6_loop_ellipsis [OF ne _ sub(1), of "[]"] len cut b [of "ungroup ?a"] bn [of ?b] by auto
      then show ?thesis using hd [OF ne] fin pct by (simp add: parse_ipv6_def cut(4))
    qed
  qed
  then have colon: "CHR '':'' \<in> set (ipv6_string bs)" by simp
  have f: "find (\<lambda>c. c = CHR ''.'' \<or> c = CHR '':'' \<or> c = CHR ''%'') xs = Some CHR '':''"
    if "\<forall>c \<in> set xs. is_hex c \<or> c = CHR '':''" "CHR '':'' \<in> set xs" for xs
    using that not_hex by (induction xs) auto
  show "parse_ip (ipv6_string bs) = Some bs" "\<not> is_ipv4_text (ipv6_string bs)"
    using f [OF chars colon] loop by (simp_all add: parse_ip_def is_ipv4_text_def)
qed

section \<open>Masks\<close>

lemma cidr_mask_length [simp]: "length (cidr_mask l n) = l"
  by (induction l n rule: cidr_mask.induct) auto

lemma mask_byte:
  assumes "n < 8"
  shows "NOT (drop_bit n (255 :: byte)) \<noteq> 255" "byte_ones 8 (NOT (drop_bit n (255 :: byte))) = (n, 0)"
proof -
  have "list_all (\<lambda>n. NOT (drop_bit n (255 :: byte)) \<noteq> 255 \<and> byte_ones 8 (NOT (drop_bit n (255 :: byte))) = (n, 0)) [0..<8]"
    by code_simp
  then show "NOT (drop_bit n (255 :: byte)) \<noteq> 255" "byte_ones 8 (NOT (drop_bit n (255 :: byte))) = (n, 0)"
    using assms by (simp_all add: list_all_iff)
qed

lemma cidr_mask_0: "cidr_mask l 0 = replicate l 0"
  by (induction l) auto

lemma simpleMaskLength_cidr: "n \<le> 8 * l \<Longrightarrow> simpleMaskLength (cidr_mask l n) = int n"
proof (induction l n rule: cidr_mask.induct)
  case (2 l n)
  show ?case
  proof (cases "8 \<le> n")
    case True
    then show ?thesis using 2 by simp
  next
    case False
    then show ?thesis using mask_byte [of n] by (simp add: cidr_mask_0 list_ex_iff)
  qed
qed simp

lemma cidr_mask_nth: "i < l \<Longrightarrow> cidr_mask l n ! i = 255 \<Longrightarrow> 8 * Suc i \<le> n"
proof (induction l n arbitrary: i rule: cidr_mask.induct)
  case (2 l n)
  show ?case
  proof (cases "8 \<le> n")
    case True
    then show ?thesis using 2 by (cases i) fastforce+
  next
    case False
    then show ?thesis using 2 mask_byte(1) [of n] by (cases i) (auto simp: cidr_mask_0)
  qed
qed simp

lemma cidr_mask_drop: "k \<le> l \<Longrightarrow> 8 * k \<le> n \<Longrightarrow> drop k (cidr_mask l n) = cidr_mask (l - k) (n - 8 * k)"
proof (induction l n arbitrary: k rule: cidr_mask.induct)
  case (2 l n)
  show ?case
  proof (cases k)
    case (Suc j)
    with 2 have "8 \<le> n" "j \<le> l" "8 * j \<le> n - 8" by simp_all
    with 2(1) [of j] show ?thesis by (simp add: Suc diff_diff_left)
  qed simp
qed simp

section \<open>Parsed addresses\<close>

lemma ipv4_fields_length: "ipv4_fields val d acc s = Some f \<Longrightarrow> length acc \<le> 3 \<Longrightarrow> length f = 4"
  by (induction val d acc s rule: ipv4_fields.induct) (auto simp: Let_def split: if_splits)

lemma ipv6_loop_length:
  "ipv6_loop acc ell s = Some (acc', ell', rest) \<Longrightarrow> even (length acc) \<Longrightarrow> length acc \<le> 16 \<Longrightarrow> length acc' \<le> 16"
proof (induction acc ell s arbitrary: acc' ell' rest rule: ipv6_loop.induct)
  case (1 acc ell s)
  have f: "length f = 4" if "ipv4_fields 0 0 [] s = Some f" for f using ipv4_fields_length [OF that] by simp
  have e: "length acc < 16 \<Longrightarrow> length acc + 2 \<le> 16" using "1.prems"(2) by presburger
  show ?case
  proof (cases "16 \<le> length acc")
    case True
    then show ?thesis using "1.prems" by (simp add: ipv6_loop.simps [of acc])
  next
    case False
    let ?ds = "takeWhile is_hex s"
    let ?acc = "acc @ [of_nat (hex_number ?ds div 256), of_nat (hex_number ?ds mod 256)]"
    have ok: "even (length ?acc)" "length ?acc \<le> 16" using "1.prems"(2) e False by auto
    have le: "length ?acc \<le> 16 \<Longrightarrow> Suc (Suc (length acc)) \<le> 16" by simp
    from "1.prems"(1) False
    show ?thesis
      using "1.IH" [OF False refl refl] ok f e
      by (subst (asm) ipv6_loop.simps) (auto simp: Let_def split: if_splits list.splits)
  qed
qed

definition masked :: "ip_net \<Rightarrow> bool" where
  "masked net \<longleftrightarrow> (\<exists>l n. (l = 4 \<or> l = 16) \<and> n \<le> 8 * l \<and> in_Mask net = cidr_mask l n \<and> length (in_IP net) = l
     \<and> map2 (AND) (in_IP net) (in_Mask net) = in_IP net)"

lemma parse_ip_length: "parse_ip s = Some ip \<Longrightarrow> length ip = 16"
proof -
  have l: "length bs = 16" if h: "Option.bind (ipv6_loop [] e t) ipv6_finish = Some bs" for e t bs
  proof -
    obtain acc ell rest where "ipv6_loop [] e t = Some (acc, ell, rest)" "ipv6_finish (acc, ell, rest) = Some bs"
      using h by (auto simp: bind_eq_Some_conv)
    then show ?thesis using ipv6_loop_length [of "[]" e t acc ell rest]
      by (auto simp: ipv6_finish_def split: if_splits option.splits)
  qed
  show "parse_ip s = Some ip \<Longrightarrow> length ip = 16"
    by (auto simp: parse_ip_def parse_ipv6_def v4InV6Prefix_def dest: l ipv4_fields_length split: option.splits if_splits)
qed

lemma parse_ip_ipv4_text:
  assumes "parse_ip s = Some ip" "is_ipv4_text s"
  obtains f where "ip = v4InV6Prefix @ f" "length f = 4"
  using assms ipv4_fields_length by (fastforce simp: parse_ip_def is_ipv4_text_def split: option.splits if_splits)

lemma map2_and_idem: "map2 (AND) (map2 (AND) xs ys) ys = map2 (AND) xs (ys :: byte list)"
  by (induction xs ys rule: list_induct2') (auto simp: and.assoc)

lemma mask_bits_le: "mask_bits b s = Some n \<Longrightarrow> n \<le> b"
  by (auto simp: mask_bits_def Let_def split: if_splits)

lemma mask_bits_nat_str: "n \<le> b \<Longrightarrow> mask_bits b (nat_str n) = Some n"
  using nat_str_digits [of n] by (simp add: mask_bits_def)

lemma parse_cidr_masked:
  assumes "parse_cidr s = Some (ip, net)"
  shows "masked net"
proof -
  define addr where "addr = takeWhile (\<lambda>c. c \<noteq> CHR ''/'') s"
  define l :: nat where "l = (if is_ipv4_text addr then 4 else 16)"
  from assms obtain n where p: "parse_ip addr = Some ip" and n: "n \<le> 8 * l"
    and net: "net = \<lparr>in_IP = ip_mask ip (cidr_mask l n), in_Mask = cidr_mask l n\<rparr>"
    by (auto simp: parse_cidr_def Let_def l_def simp flip: addr_def dest: mask_bits_le split: option.splits if_splits)
  have len: "length ip = 16" by (rule parse_ip_length [OF p])
  obtain a where "ip_mask ip (cidr_mask l n) = map2 (AND) a (cidr_mask l n)" "length a = l"
  proof (cases "is_ipv4_text addr")
    case True
    then obtain f where "ip = v4InV6Prefix @ f" "length f = 4" using parse_ip_ipv4_text [OF p] by blast
    then show thesis using that [of f] True by (simp add: ip_mask_def l_def v4InV6Prefix_def)
  next
    case False
    then show thesis using that [of ip] len by (simp add: ip_mask_def l_def)
  qed
  moreover have "l = 4 \<or> l = 16" by (simp add: l_def)
  ultimately show ?thesis
    unfolding masked_def using n by (intro exI [of _ l] exI [of _ n]) (auto simp: net map2_and_idem)
qed

lemma is_ipv4_text_string: "length bs = 4 \<Longrightarrow> is_ipv4_text (ipv4_string bs)" "length bs = 4 \<Longrightarrow> CHR ''/'' \<notin> set (ipv4_string bs)"
proof -
  show "is_ipv4_text (ipv4_string bs)" if len: "length bs = 4"
  proof -
    obtain a b c d where bs: "bs = [a, b, c, d]" using len by (auto simp: length_Suc_conv numeral_eq_Suc)
    show ?thesis using find_skip_digits [OF nat_str_digits] by (simp add: bs ipv4_string_def is_ipv4_text_def)
  qed
  show "CHR ''/'' \<notin> set (ipv4_string bs)" using ipv4_string_chars [of "CHR ''/''" bs] by (auto simp: is_digit_def)
qed

lemma parse_cidr_string:
  assumes "CHR ''/'' \<notin> set addr" "parse_ip addr = Some ip" "l = (if is_ipv4_text addr then 4 else 16)" "n \<le> 8 * l"
  shows "parse_cidr (addr @ ''/'' @ nat_str n) = Some (ip, \<lparr>in_IP = ip_mask ip (cidr_mask l n), in_Mask = cidr_mask l n\<rparr>)"
  using assms takeWhile_sep [of "CHR ''/''" addr "nat_str n"] mask_bits_nat_str [of n "8 * l"]
  by (simp add: parse_cidr_def Let_def)

text \<open>The text of a network.\<close>

definition net_text :: "string \<Rightarrow> bool" where
  "net_text s \<longleftrightarrow> (\<exists>a k. k \<le> 128 \<and> (length a = 4 \<and> s = ipv4_string a @ ''/'' @ nat_str k
     \<or> length a = 16 \<and> s = ipv6_string a @ ''/'' @ nat_str k))"

text \<open>
  A masked network is printed so that parsing gives a network that prints alike, with a mask of the same
  size: the same network, or its IPv4 form when it lies in the IPv4 part of IPv6.
\<close>

lemma parse_cidr_ip_net_string:
  assumes "masked net"
  obtains ip net' where "parse_cidr (ip_net_string net) = Some (ip, net')" "ip_net_string net' = ip_net_string net"
    "masked net'" "ip_mask ip (in_Mask net') = in_IP net'" "net_text (ip_net_string net)"
proof -
  obtain l n where l: "l = 4 \<or> l = 16" "n \<le> 8 * l" "in_Mask net = cidr_mask l n" "length (in_IP net) = l"
    and m: "map2 (AND) (in_IP net) (cidr_mask l n) = in_IP net"
    using assms by (auto simp: masked_def)
  note goal = that
  have v4: thesis if a: "length a = 4" and k: "k \<le> 32" and am: "map2 (AND) a (cidr_mask 4 k) = a"
    and s: "ip_net_string net = ipv4_string a @ ''/'' @ nat_str k" for a k
  proof -
    let ?net = "\<lparr>in_IP = a, in_Mask = cidr_mask 4 k\<rparr>"
    have im: "ip_mask (v4InV6Prefix @ a) (cidr_mask 4 k) = a" using a am by (simp add: ip_mask_def v4InV6Prefix_def)
    have "parse_cidr (ip_net_string net) = Some (v4InV6Prefix @ a, ?net)"
      using parse_cidr_string [OF is_ipv4_text_string(2) [OF a] parse_ipv4_string [OF a], of 4 k] is_ipv4_text_string(1) [OF a] k im
      by (simp add: s)
    moreover have "ip_net_string ?net = ipv4_string a @ ''/'' @ nat_str k"
      using a k simpleMaskLength_cidr [of k 4] by (simp add: ip_net_string_def network_parts_def to4_id ip_string_to4 Let_def)
    then have "ip_net_string ?net = ip_net_string net" by (simp add: s)
    moreover have "masked ?net" unfolding masked_def using a k am by (intro exI [of _ 4] exI [of _ k]) simp
    moreover have "net_text (ip_net_string net)" unfolding net_text_def s using a k by (intro exI [of _ a] exI [of _ k]) simp
    ultimately show thesis using goal im by fastforce
  qed
  show thesis
  proof (cases "to4 (in_IP net)")
    case None
    then have l16: "l = 16" using l(1,4) by (auto simp: to4_def)
    let ?a = "in_IP net"
    have s: "ip_net_string net = ipv6_string ?a @ ''/'' @ nat_str n"
      using l None simpleMaskLength_cidr [of n 16] by (auto simp: ip_net_string_def network_parts_def ip_string_def l16 Let_def)
    note p6 = parse_ipv6_string [of ?a]
    have "parse_cidr (ip_net_string net) = Some (?a, \<lparr>in_IP = ip_mask ?a (cidr_mask 16 n), in_Mask = cidr_mask 16 n\<rparr>)"
      using parse_cidr_string [OF p6(3) p6(1), of 16 n] p6(2) l by (simp add: s l16)
    moreover have im: "ip_mask ?a (cidr_mask 16 n) = ?a" using l m by (simp add: ip_mask_def l16)
    moreover have "\<lparr>in_IP = ?a, in_Mask = cidr_mask 16 n\<rparr> = net" using l by (simp add: l16)
    moreover have "net_text (ip_net_string net)"
      unfolding net_text_def s using l l16 by (intro exI [of _ ?a] exI [of _ n]) simp
    ultimately show thesis using that [of ?a net] assms l l16 by simp
  next
    case (Some v4)
    have len: "length v4 = 4" by (rule to4_length [OF Some])
    show thesis
    proof (cases "l = 4")
      case True
      then have "v4 = in_IP net" using Some l by (simp add: to4_def)
      then show thesis using v4 [of v4 n] len l m True simpleMaskLength_cidr [of n 4] Some
        by (simp add: ip_net_string_def network_parts_def ip_string_to4 to4_id Let_def)
    next
      case False
      then have l16: "l = 16" using l by simp
      have parts: "take 12 (in_IP net) = v4InV6Prefix" "drop 12 (in_IP net) = v4"
        using Some l by (auto simp: to4_def l16 split: if_splits)
      have "in_IP net ! 11 = 255" using arg_cong [OF parts(1), of "\<lambda>xs. xs ! 11"] by (simp add: v4InV6Prefix_def nth_append nth_Cons')
      moreover have "in_IP net ! 11 = in_IP net ! 11 AND cidr_mask 16 n ! 11"
        using arg_cong [OF m, of "\<lambda>xs. xs ! 11"] l by (simp add: l16)
      moreover have "255 AND b = b" for b :: byte
      proof -
        have "(255 :: byte) = - 1" by simp
        then show ?thesis by (simp only: and.left_neutral)
      qed
      ultimately have "cidr_mask 16 n ! 11 = 255" by metis
      from cidr_mask_nth [OF _ this] have n: "96 \<le> n" by simp
      have dm: "drop 12 (cidr_mask 16 n) = cidr_mask 4 (n - 96)" using cidr_mask_drop [of 12 16 n] n by simp
      have am: "map2 (AND) v4 (cidr_mask 4 (n - 96)) = v4"
        using arg_cong [OF m, of "drop 12"] parts(2) dm by (simp add: l16 drop_map drop_zip)
      have k: "n - 96 \<le> 32" using l n by (simp add: l16)
      have nat_diff: "nat (int n - 96) = n - 96" using n by linarith
      have s: "ip_net_string net = ipv4_string v4 @ ''/'' @ nat_str (n - 96)"
        using l len Some n dm simpleMaskLength_cidr [of "n - 96" 4] nat_diff
        by (simp add: ip_net_string_def network_parts_def ip_string_to4 to4_id l16 Let_def)
      show thesis by (rule v4 [OF len k am s])
    qed
  qed
qed

lemma join_length: "length (join_with [c] xs) \<le> sum_list (map (\<lambda>x. Suc (length x)) xs)"
  by (induction xs rule: induct_list012) auto

lemma sum_list_bound: "(\<And>x. x \<in> set xs \<Longrightarrow> f x \<le> b) \<Longrightarrow> sum_list (map f xs) \<le> length xs * (b :: nat)"
  by (induction xs) (auto simp: add_mono)

lemma nat_str_length: "n < 1000 \<Longrightarrow> length (nat_str n) \<le> 3"
proof -
  have g: "n < 10 ^ Suc k \<Longrightarrow> length (nat_str n) \<le> Suc k" for k
  proof (induction k arbitrary: n)
    case (Suc k)
    then have "n div 10 < 10 ^ Suc k" by (simp add: less_mult_imp_div_less)
    from Suc.IH [OF this] show ?case by (subst nat_str.simps) simp
  qed (subst nat_str.simps, simp)
  show "n < 1000 \<Longrightarrow> length (nat_str n) \<le> 3" using g [of 2] by simp
qed

lemma byte_text_length: "Suc (length (nat_str (unat (b :: byte)))) \<le> 4"
  using nat_str_length [of "unat b"] byte_less_256 [of b] by simp

lemma net_text_length: "net_text s \<Longrightarrow> length s \<le> 64"
proof -
  have v4: "length (ipv4_string a) \<le> 16" if "length a = 4" for a
  proof -
    have "sum_list (map (\<lambda>x. Suc (length x)) (map (\<lambda>b. nat_str (unat b)) a)) \<le> length a * 4"
      unfolding map_map comp_def
      by (rule sum_list_bound) (rule byte_text_length)
    with join_length [of "CHR ''.''" "map (\<lambda>b. nat_str (unat b)) a"] that show ?thesis by (simp add: ipv4_string_def)
  qed
  have v6: "length (ipv6_string a) \<le> 56" if a: "length a = 16" for a
  proof -
    have g: "length (join_with '':'' (map hex_str gs)) \<le> length gs * 5" if "set gs \<subseteq> set (groups16 a)" for gs
    proof -
      have "sum_list (map (\<lambda>x. Suc (length x)) (map hex_str gs)) \<le> length gs * 5"
        unfolding map_map comp_def
        by (rule sum_list_bound) (use that hex_str_length_4 groups16_bound in \<open>fastforce\<close>)
      with join_length [of "CHR '':''" "map hex_str gs"] show ?thesis by simp
    qed
    have l: "length (groups16 a) = 8" using a by (simp add: groups16_length)
    from a show ?thesis
    proof (cases rule: ipv6_string_parts)
      case all
      then show ?thesis using g [of "groups16 a"] l by simp
    next
      case (cut zs ze)
      then show ?thesis
        using g [OF set_take_subset, of zs] g [OF set_drop_subset, of ze] l by simp
    qed
  qed
  assume "net_text s"
  then obtain a k where k: "k \<le> 128" and s: "length a = 4 \<and> s = ipv4_string a @ ''/'' @ nat_str k
      \<or> length a = 16 \<and> s = ipv6_string a @ ''/'' @ nat_str k"
    unfolding net_text_def by blast
  have "length (nat_str k) \<le> 3" using k by (intro nat_str_length) simp
  with s v4 [of a] v6 [of a] show "length s \<le> 64" by auto
qed

lemma net_text_chars: "net_text s \<Longrightarrow> c \<in> set s \<Longrightarrow> is_hex c \<or> c = CHR '':'' \<or> c = CHR ''.'' \<or> c = CHR ''/''"
proof -
  have d: "is_digit c \<Longrightarrow> is_hex c" by (auto simp: is_digit_def is_hex_def hex_val_def Let_def)
  have v6: "is_hex c \<or> c = CHR '':''" if "length a = 16" "c \<in> set (ipv6_string a)" for a
    using that(1) that(2) by (cases rule: ipv6_string_parts) (auto dest: join_chars)
  have v4: "is_hex c \<or> c = CHR ''.''" if "c \<in> set (ipv4_string a)" for a
    using ipv4_string_chars [OF that] d by blast
  have n: "is_hex c" if "c \<in> set (nat_str k)" for k
    using nat_str_digits [of k] that d by (auto simp: list_all_iff)
  show "net_text s \<Longrightarrow> c \<in> set s \<Longrightarrow> is_hex c \<or> c = CHR '':'' \<or> c = CHR ''.'' \<or> c = CHR ''/''"
    unfolding net_text_def using v4 v6 n by fastforce
qed

end
