(* ===== verification/Routing.thy ===== *)
theory Routing
  imports Json Net_Cidr "HOL-Library.List_Lexorder" "HOL-Library.Char_ord" "HOL-Library.Product_Lexorder"
begin

text \<open>
  The routing rules of \<open>desktop/internal/services/routing.go\<close>: reading them from backups and old files, the
  normalisation of a rule, and the order in which rules are tried. The conversion of
  international domain names is the parameter \<open>idna\<close>.
\<close>

definition MatchProcess :: string where "MatchProcess = ''process''"
definition MatchDomain :: string where "MatchDomain = ''domain''"
definition MatchIP :: string where "MatchIP = ''ip''"

lemma match_distinct [simp]:
  "MatchProcess \<noteq> MatchDomain" "MatchProcess \<noteq> MatchIP" "MatchDomain \<noteq> MatchIP"
  "MatchDomain \<noteq> MatchProcess" "MatchIP \<noteq> MatchProcess" "MatchIP \<noteq> MatchDomain"
  by (simp_all add: MatchProcess_def MatchDomain_def MatchIP_def)

definition RoutingBackupFormat :: string where "RoutingBackupFormat = ''hypomux-routing-rules''"
definition RoutingBackupVersion :: int where "RoutingBackupVersion = 2"

record routing_rule =
  rr_MatchType :: string
  rr_Value :: string
  rr_Outbound :: string

datatype rule_error =
    UnknownMatchType
  | UnknownOutbound
  | InvalidProcess
  | InvalidDomain
  | InvalidDomainFormat
  | InvalidDomainLabel
  | InvalidAddress

datatype routing_error =
    InvalidRule nat rule_error
  | UnavailableOutbound nat string
  | NotOneMatchType
  | ValueNotString
  | FieldNotStrings string
  | NoMatchValue
  | NotJSON
  | NotOneRule nat
  | InvalidLegacyRule nat routing_error
  | NotRuleArray
  | UnsupportedFormat string
  | UnsupportedVersion int
  | MissingRules

section \<open>Normalising a rule\<close>

definition canonicalMatchType :: "string \<Rightarrow> string" where
  "canonicalMatchType value =
     (let v = to_lower (trim_space value)
      in if v = ''process'' \<or> v = ''process_name'' then MatchProcess
         else if v = ''domain'' \<or> v = ''domain_suffix'' then MatchDomain
         else if v = ''ip'' \<or> v = ''ip_cidr'' then MatchIP
         else v)"

definition isValidOutbound :: "string \<Rightarrow> bool" where
  "isValidOutbound value \<longleftrightarrow>
     value = ''aggregation'' \<or> value = ''direct'' \<or> value = ''nic_ethernet'' \<or> value = ''nic_wifi''
     \<or> (has_prefix value ''nic_'' \<and> length value > 4)"

definition ruleIdentity :: "routing_rule \<Rightarrow> string" where
  "ruleIdentity rule = rr_MatchType rule @ [CHR 0x00] @ to_lower (rr_Value rule)"

definition trim_prefix :: "string \<Rightarrow> string \<Rightarrow> string" where
  "trim_prefix s p = (if prefix p s then drop (length p) s else s)"

definition contains_any :: "string \<Rightarrow> string \<Rightarrow> bool" where
  "contains_any s chars \<longleftrightarrow> list_ex (\<lambda>c. c \<in> set chars) s"

definition path_chars :: string where "path_chars = [CHR ''/'', CHR 0x5C, CHR '':'', CHR 0x00]"

definition bad_label :: "string \<Rightarrow> bool" where
  "bad_label l \<longleftrightarrow> l = [] \<or> length l > 63 \<or> prefix ''-'' l \<or> suffix ''-'' l"

definition normalize_process :: "string \<Rightarrow> rule_error + string" where
  "normalize_process value =
     (if value = [] \<or> length value > 260 \<or> contains_any value path_chars then Inl InvalidProcess else Inr value)"

definition normalize_domain :: "(string \<Rightarrow> string option) \<Rightarrow> string \<Rightarrow> rule_error + string" where
  "normalize_domain idna value0 =
     (let value = to_lower (trim_suffix value0 ''.'');
          value = trim_prefix (trim_prefix value ''*.'') ''.''
      in if value = [] \<or> length value > 253 \<or> contains_any value (path_chars @ ''?#@ '') \<or> parse_ip value \<noteq> None
         then Inl InvalidDomain
         else case idna value of
                None \<Rightarrow> Inl InvalidDomainFormat
              | Some ascii \<Rightarrow>
                  if length ascii > 253 then Inl InvalidDomainFormat
                  else if list_ex bad_label (split_on CHR ''.'' ascii) then Inl InvalidDomainLabel
                  else Inr (to_lower ascii))"

definition normalize_address :: "string \<Rightarrow> rule_error + string" where
  "normalize_address value0 =
     (if value0 = [] \<or> length value0 > 64 then Inl InvalidAddress
      else
        case (if CHR ''/'' \<in> set value0 then Some value0
              else map_option (\<lambda>ip. value0 @ (if to4 ip \<noteq> None then ''/32'' else ''/128'')) (parse_ip value0)) of
          None \<Rightarrow> Inl InvalidAddress
        | Some value \<Rightarrow>
            (case parse_cidr value of
               None \<Rightarrow> Inl InvalidAddress
             | Some (ip, network) \<Rightarrow>
                 Inr (ip_net_string (network\<lparr>in_IP := ip_mask ip (in_Mask network)\<rparr>))))"

definition normalizeRule :: "(string \<Rightarrow> string option) \<Rightarrow> routing_rule \<Rightarrow> rule_error + routing_rule" where
  "normalizeRule idna rule =
     (let t = canonicalMatchType (rr_MatchType rule); out = trim_space (rr_Outbound rule)
      in if t \<noteq> MatchProcess \<and> t \<noteq> MatchDomain \<and> t \<noteq> MatchIP then Inl UnknownMatchType
         else if \<not> isValidOutbound out then Inl UnknownOutbound
         else
           let value = trim_space (rr_Value rule)
           in case (if t = MatchProcess then normalize_process value
                    else if t = MatchDomain then normalize_domain idna value
                    else normalize_address value) of
                Inl e \<Rightarrow> Inl e
              | Inr v \<Rightarrow> Inr \<lparr>rr_MatchType = t, rr_Value = v, rr_Outbound = out\<rparr>)"

section \<open>Ordering and merging rules\<close>

definition match_rank :: "string \<Rightarrow> nat" where
  "match_rank t = (if t = MatchDomain then 1 else if t = MatchIP then 2 else 0)"

definition rule_bits :: "routing_rule \<Rightarrow> int" where
  "rule_bits r = (case parse_cidr (rr_Value r) of Some (_, net) \<Rightarrow> mask_size (in_Mask net) | None \<Rightarrow> 0)"

definition rule_less :: "routing_rule \<Rightarrow> routing_rule \<Rightarrow> bool" where
  "rule_less a b \<longleftrightarrow>
     (if match_rank (rr_MatchType a) \<noteq> match_rank (rr_MatchType b)
      then match_rank (rr_MatchType a) < match_rank (rr_MatchType b)
      else if rr_MatchType a = MatchIP \<and> rule_bits a \<noteq> rule_bits b then rule_bits a > rule_bits b
      else to_lower (rr_Value a) < to_lower (rr_Value b))"

text \<open>The key whose order is \<open>rule_less\<close>, so that \<open>sort.SliceStable\<close> is \<^const>\<open>sort_key\<close>.\<close>

definition rule_key :: "routing_rule \<Rightarrow> nat \<times> int \<times> string" where
  "rule_key r = (match_rank (rr_MatchType r), if rr_MatchType r = MatchIP then - rule_bits r else 0, to_lower (rr_Value r))"

definition sortRules :: "routing_rule list \<Rightarrow> routing_rule list" where
  "sortRules rules = sort_key rule_key rules"

fun rules_strict_loop ::
    "(string \<Rightarrow> string option) \<Rightarrow> nat \<Rightarrow> string list \<Rightarrow> routing_rule list \<Rightarrow> routing_error + routing_rule list" where
  "rules_strict_loop idna i seen [] = Inr []"
| "rules_strict_loop idna i seen (raw # rs) =
     (case normalizeRule idna raw of
        Inl e \<Rightarrow> Inl (InvalidRule i e)
      | Inr rule \<Rightarrow>
          if ruleIdentity rule \<in> set seen then rules_strict_loop idna (i + 1) seen rs
          else map_sum id ((#) rule) (rules_strict_loop idna (i + 1) (ruleIdentity rule # seen) rs))"

definition normalizeRulesStrict :: "(string \<Rightarrow> string option) \<Rightarrow> routing_rule list \<Rightarrow> routing_error + routing_rule list" where
  "normalizeRulesStrict idna rules = map_sum id sortRules (rules_strict_loop idna 1 [] rules)"

fun rules_loop :: "(string \<Rightarrow> string option) \<Rightarrow> string list \<Rightarrow> routing_rule list \<Rightarrow> routing_rule list" where
  "rules_loop idna seen [] = []"
| "rules_loop idna seen (raw # rs) =
     (case normalizeRule idna raw of
        Inl e \<Rightarrow> rules_loop idna seen rs
      | Inr rule \<Rightarrow>
          if ruleIdentity rule \<in> set seen then rules_loop idna seen rs
          else rule # rules_loop idna (ruleIdentity rule # seen) rs)"

definition normalizeRules :: "(string \<Rightarrow> string option) \<Rightarrow> routing_rule list \<Rightarrow> routing_rule list" where
  "normalizeRules idna rules = sortRules (rules_loop idna [] rules)"

section \<open>Reading rules\<close>

definition legacy_types :: "(string \<times> json) list \<Rightarrow> string list" where
  "legacy_types raw =
     (if member raw ''process_name'' \<noteq> None then [MatchProcess] else [])
     @ (if member raw ''domain'' \<noteq> None \<or> member raw ''domain_suffix'' \<noteq> None then [MatchDomain] else [])
     @ (if member raw ''ip_cidr'' \<noteq> None \<or> member raw ''ip'' \<noteq> None then [MatchIP] else [])"

definition legacy_fields :: "string \<Rightarrow> string list" where
  "legacy_fields t =
     (if t = MatchProcess then [''process_name'']
      else if t = MatchDomain then [''domain'', ''domain_suffix'']
      else if t = MatchIP then [''ip_cidr'', ''ip'']
      else [])"

fun field_values :: "(string \<times> json) list \<Rightarrow> string list \<Rightarrow> routing_error + string list" where
  "field_values raw [] = Inr []"
| "field_values raw (f # fs) =
     (case member raw f of
        None \<Rightarrow> field_values raw fs
      | Some payload \<Rightarrow>
          (case decode_strings payload of
             Some many \<Rightarrow> map_sum id ((@) many) (field_values raw fs)
           | None \<Rightarrow>
               (case decode_string [] payload of
                  None \<Rightarrow> Inl (FieldNotStrings f)
                | Some one \<Rightarrow> map_sum id ((#) one) (field_values raw fs))))"

definition rule_values :: "(string \<times> json) list \<Rightarrow> string \<Rightarrow> routing_error + string list" where
  "rule_values raw t =
     (case member raw ''value'' of
        Some payload \<Rightarrow> (case decode_string [] payload of None \<Rightarrow> Inl ValueNotString | Some v \<Rightarrow> Inr [v])
      | None \<Rightarrow> field_values raw (legacy_fields t))"

definition expandRoutingRule :: "json \<Rightarrow> routing_error + routing_rule list" where
  "expandRoutingRule data =
     (case decode_object data of
        None \<Rightarrow> Inl NotJSON
      | Some raw \<Rightarrow>
          let matchType = decode_into decode_string raw ''match_type'' [];
              outbound = decode_into decode_string raw ''outbound'' [];
              present = legacy_types raw
          in if matchType = [] \<and> length present \<noteq> 1 then Inl NotOneMatchType
             else
               let t = canonicalMatchType (if matchType = [] then hd present else matchType)
               in case rule_values raw t of
                    Inl e \<Rightarrow> Inl e
                  | Inr values \<Rightarrow>
                      if values = [] then Inl NoMatchValue
                      else Inr (map (\<lambda>v. \<lparr>rr_MatchType = t, rr_Value = v, rr_Outbound = trim_space outbound\<rparr>) values))"

definition UnmarshalRoutingRule :: "json \<Rightarrow> routing_error + routing_rule" where
  "UnmarshalRoutingRule data =
     (case expandRoutingRule data of
        Inl e \<Rightarrow> Inl e
      | Inr rules \<Rightarrow> if length rules \<noteq> 1 then Inl (NotOneRule (length rules)) else Inr (hd rules))"

fun expand_entries :: "nat \<Rightarrow> json list \<Rightarrow> routing_error + routing_rule list" where
  "expand_entries i [] = Inr []"
| "expand_entries i (e # es) =
     (case expandRoutingRule e of
        Inl err \<Rightarrow> Inl (InvalidLegacyRule i err)
      | Inr rules \<Rightarrow> map_sum id ((@) rules) (expand_entries (i + 1) es))"

text \<open>\<^const>\<open>None\<close> is a text that is not JSON.\<close>

definition parseRoutingRulesJSON :: "(string \<Rightarrow> string option) \<Rightarrow> json option \<Rightarrow> routing_error + routing_rule list" where
  "parseRoutingRulesJSON idna data =
     (case Option.bind data decode_array of
        None \<Rightarrow> Inl NotRuleArray
      | Some entries \<Rightarrow>
          (case expand_entries 1 entries of
             Inl e \<Rightarrow> Inl e
           | Inr expanded \<Rightarrow> normalizeRulesStrict idna expanded))"

text \<open>\<open>json.Unmarshal\<close> into the envelope: field names match without regard to case, a field that does not fit is an error at the end.\<close>

record backup_envelope =
  be_Format :: string
  be_Version :: "json option"
  be_Rules :: "json option"
  be_RoutingRules :: "json option"

definition envelope_field :: "string \<times> json \<Rightarrow> bool \<times> backup_envelope \<Rightarrow> bool \<times> backup_envelope" where
  "envelope_field kv st =
     (let (k, v) = kv; (ok, e) = st
      in if equal_fold k ''format'' then
           (case decode_string (be_Format e) v of Some s \<Rightarrow> (ok, e\<lparr>be_Format := s\<rparr>) | None \<Rightarrow> (False, e))
         else if equal_fold k ''version'' then (ok, e\<lparr>be_Version := Some v\<rparr>)
         else if equal_fold k ''rules'' then (ok, e\<lparr>be_Rules := Some v\<rparr>)
         else if equal_fold k ''routing_rules'' then (ok, e\<lparr>be_RoutingRules := Some v\<rparr>)
         else (ok, e))"

definition decode_envelope :: "json \<Rightarrow> backup_envelope option" where
  "decode_envelope data =
     (case decode_object data of
        None \<Rightarrow> None
      | Some kvs \<Rightarrow>
          let (ok, e) = fold envelope_field kvs (True, \<lparr>be_Format = [], be_Version = None, be_Rules = None, be_RoutingRules = None\<rparr>)
          in if ok then Some e else None)"

text \<open>The value that \<open>strconv.Atoi\<close> returns beside its error: the bound for a number out of range, else 0.\<close>

definition atoi_value :: "string \<Rightarrow> int" where
  "atoi_value s =
     (case atoi s of
        Some v \<Rightarrow> v
      | None \<Rightarrow>
          let neg = prefix ''-'' s; ds = (if neg \<or> prefix ''+'' s then tl s else s)
          in if ds = [] \<or> \<not> list_all is_digit ds then 0 else if neg then - (2 ^ 63) else 2 ^ 63 - 1)"

definition backup_version :: "json option \<Rightarrow> int" where
  "backup_version version =
     (case version of
        None \<Rightarrow> 0
      | Some v \<Rightarrow>
          let n = (case decode_int 0 v of Some n \<Rightarrow> n | None \<Rightarrow> 0)
          in if n = 0 then (case decode_string [] v of Some text \<Rightarrow> atoi_value text | None \<Rightarrow> n) else n)"

definition parseRoutingBackup :: "(string \<Rightarrow> string option) \<Rightarrow> (string \<Rightarrow> json option) \<Rightarrow> string \<Rightarrow> routing_error + routing_rule list" where
  "parseRoutingBackup idna parse data =
     (if prefix ''['' data then parseRoutingRulesJSON idna (parse data)
      else
        case Option.bind (parse data) decode_envelope of
          None \<Rightarrow> Inl MissingRules
        | Some e \<Rightarrow>
            if be_Format e \<noteq> [] \<and> be_Format e \<noteq> RoutingBackupFormat then Inl (UnsupportedFormat (be_Format e))
            else
              let version = backup_version (be_Version e)
              in if be_Format e = RoutingBackupFormat \<and> version \<noteq> 1 \<and> version \<noteq> RoutingBackupVersion
                 then Inl (UnsupportedVersion version)
                 else
                   case (case be_Rules e of Some r \<Rightarrow> Some r | None \<Rightarrow> be_RoutingRules e) of
                     None \<Rightarrow> Inl MissingRules
                   | Some rules \<Rightarrow> parseRoutingRulesJSON idna (Some rules))"

end
