(* ===== verification/Routing_Inv.thy ===== *)
theory Routing_Inv
  imports Routing
begin

text \<open>
  Properties of the routing rules: a normalised rule is stable, a list of rules is merged and ordered
  the same way by the strict and by the lenient path, the most specific network comes first, and an exported list is
  read back unchanged.
\<close>

section \<open>Strings\<close>


lemma split_on_not_empty [simp]: "split_on sep s \<noteq> []"
  by (induction s) (auto split: list.splits)

lemma lower_char_fix:
  assumes "\<not> (97 \<le> (of_char x :: nat) \<and> (of_char x :: nat) \<le> 122)" "\<not> (65 \<le> (of_char x :: nat) \<and> (of_char x :: nat) \<le> 90)"
  shows "lower_char c = x \<longleftrightarrow> c = x"
proof (cases "65 \<le> (of_char c :: nat) \<and> (of_char c :: nat) \<le> 90")
  case True
  then have "(of_char (lower_char c) :: nat) = of_char c + 32" by (simp add: lower_char_def)
  with True assms show ?thesis by auto
qed (auto simp: lower_char_def)

lemma lower_char_sep [simp]: "lower_char c = CHR ''.'' \<longleftrightarrow> c = CHR ''.''" "lower_char c = CHR ''-'' \<longleftrightarrow> c = CHR ''-''"
  by (rule lower_char_fix; simp)+

lemma split_on_lower: "split_on CHR ''.'' (to_lower s) = map to_lower (split_on CHR ''.'' s)"
  by (induction s) (auto simp: to_lower_def split: list.splits)

lemma to_lower_Nil [simp]: "to_lower s = [] \<longleftrightarrow> s = []"
  by (simp add: to_lower_def)

lemma prefix_lower: "prefix [CHR ''-''] (to_lower s) \<longleftrightarrow> prefix [CHR ''-''] s"
  by (cases s) (auto simp: to_lower_def eq_commute [of "CHR ''-''"])

lemma suffix_lower: "suffix [CHR ''-''] (to_lower s) \<longleftrightarrow> suffix [CHR ''-''] s"
  by (cases s rule: rev_cases) (auto simp: to_lower_def suffix_def)

lemma bad_label_lower [simp]: "bad_label (to_lower l) = bad_label l"
  using prefix_lower [of l] suffix_lower [of l] by (simp add: bad_label_def)

lemma bad_labels_lower: "list_ex bad_label (split_on CHR ''.'' (to_lower s)) = list_ex bad_label (split_on CHR ''.'' s)"
  by (simp add: split_on_lower list_ex_iff)

lemma split_on_snoc: "split_on sep (xs @ [sep]) = split_on sep xs @ [[]]"
  by (induction xs) (auto simp: neq_Nil_conv split: list.splits)

lemma split_on_dot_ends:
  "prefix ''.'' s \<Longrightarrow> [] \<in> set (split_on CHR ''.'' s)" "suffix ''.'' s \<Longrightarrow> [] \<in> set (split_on CHR ''.'' s)"
  by (cases s, auto) (auto simp: suffix_def split_on_snoc)

section \<open>A normalised rule is stable\<close>

text \<open>
  What the documentation of \<open>golang.org/x/net/idna\<close> promises of \<open>Lookup.ToASCII\<close>: the result only has letters, digits,
  hyphens and dots, and a converted name converts to itself in lower case.
\<close>

definition ldh :: "char \<Rightarrow> bool" where
  "ldh c \<longleftrightarrow> is_digit c \<or> c = CHR ''-'' \<or> c = CHR ''.'' \<or> (let n = (of_char c :: nat) in (65 \<le> n \<and> n \<le> 90) \<or> (97 \<le> n \<and> n \<le> 122))"

definition idna_law :: "(string \<Rightarrow> string option) \<Rightarrow> bool" where
  "idna_law idna \<longleftrightarrow> (\<forall>d a. idna d = Some a \<longrightarrow> list_all ldh a \<and> idna (to_lower a) = Some (to_lower a))"

text \<open>A domain that reads as an IP address: what the conversion of full-width digits can give.\<close>

definition reads_as_ip :: "routing_rule \<Rightarrow> bool" where
  "reads_as_ip r \<longleftrightarrow> rr_MatchType r = MatchDomain \<and> parse_ip (rr_Value r) \<noteq> None"

lemma ldh_lower: "ldh c \<Longrightarrow> ldh (lower_char c)"
proof (cases "65 \<le> (of_char c :: nat) \<and> (of_char c :: nat) \<le> 90")
  case True
  then have "(of_char (lower_char c) :: nat) = of_char c + 32" by (simp add: lower_char_def)
  with True show ?thesis by (simp add: ldh_def Let_def)
qed (auto simp: lower_char_def)

lemma ldh_graphic: "ldh c \<Longrightarrow> graphic c"
  by (auto simp: ldh_def graphic_def is_digit_def Let_def)

lemma ldh_not: "ldh c \<Longrightarrow> c \<notin> set (path_chars @ ''?#@ '')" "\<not> ldh CHR ''*''"
  by (auto simp: ldh_def path_chars_def is_digit_def Let_def)

lemma list_all_lower: "list_all ldh s \<Longrightarrow> list_all ldh (to_lower s)"
  by (auto simp: list_all_iff to_lower_def intro: ldh_lower)

lemma normalize_process_stable: "normalize_process v = Inr w \<Longrightarrow> normalize_process w = Inr w \<and> w = v"
  by (auto simp: normalize_process_def split: if_splits)

lemma normalize_domain_form:
  assumes law: "idna_law idna" and n: "normalize_domain idna v = Inr w"
  shows "trim_space w = w" "trim_prefix (trim_prefix (to_lower (trim_suffix w ''.'')) ''*.'') ''.'' = w" "idna w = Some w"
    "w \<noteq> [] \<and> length w \<le> 253 \<and> \<not> contains_any w (path_chars @ ''?#@ '') \<and> to_lower w = w \<and> \<not> list_ex bad_label (split_on CHR ''.'' w)"
proof -
  obtain d a where a: "idna d = Some a" "length a \<le> 253" "\<not> list_ex bad_label (split_on CHR ''.'' a)" and w: "w = to_lower a"
    using n by (auto simp: normalize_domain_def Let_def split: if_splits option.splits)
  have l: "list_all ldh w" "idna w = Some w" using law a(1) list_all_lower by (auto simp: idna_law_def w)
  have labels: "\<not> list_ex bad_label (split_on CHR ''.'' w)" using a(3) by (simp add: w bad_labels_lower)
  then have ends: "\<not> prefix ''.'' w" "\<not> suffix ''.'' w"
    using split_on_dot_ends [of w] by (auto simp: list_ex_iff bad_label_def)
  have star: "\<not> prefix ''*.'' w" using l(1) ldh_not(2) by (cases w) auto
  have ne: "w \<noteq> []" using labels by (auto simp: bad_label_def)
  have "\<not> contains_any w (path_chars @ ''?#@ '')"
    using l(1) ldh_not(1) by (auto simp: contains_any_def list_ex_iff list_all_iff)
  moreover have lower: "to_lower w = w" by (simp add: w)
  moreover have "length w \<le> 253" using a(2) by (simp add: w)
  ultimately show "w \<noteq> [] \<and> length w \<le> 253 \<and> \<not> contains_any w (path_chars @ ''?#@ '') \<and> to_lower w = w
      \<and> \<not> list_ex bad_label (split_on CHR ''.'' w)" using ne labels by simp
  show "trim_prefix (trim_prefix (to_lower (trim_suffix w ''.'')) ''*.'') ''.'' = w"
    using ends star by (simp add: lower trim_suffix_def trim_prefix_def)
  show "trim_space w = w" using l(1) ldh_graphic by (intro trim_space_graphic) (auto simp: list_all_iff)
  show "idna w = Some w" by (rule l)
qed

lemma normalize_domain_again:
  assumes "idna_law idna" "normalize_domain idna v = Inr w"
  shows "normalize_domain idna w = (if parse_ip w = None then Inr w else Inl InvalidDomain)"
  using normalize_domain_form [OF assms] by (simp add: normalize_domain_def Let_def)

lemma normalize_address_network:
  assumes "normalize_address v = Inr w"
  obtains net where "masked net" "w = ip_net_string net"
proof -
  obtain v' ip net where p: "parse_cidr v' = Some (ip, net)" and w: "w = ip_net_string (net\<lparr>in_IP := ip_mask ip (in_Mask net)\<rparr>)"
    using assms by (auto simp: normalize_address_def split: if_splits option.splits)
  have "in_IP net = ip_mask ip (in_Mask net)"
    using p by (auto simp: parse_cidr_def Let_def split: if_splits option.splits)
  then have "net\<lparr>in_IP := ip_mask ip (in_Mask net)\<rparr> = net" by simp
  with w that parse_cidr_masked [OF p] show thesis by simp
qed

lemma normalize_address_stable:
  assumes "normalize_address v = Inr w"
  shows "normalize_address w = Inr w" "trim_space w = w" "\<exists>x. parse_cidr w = Some x"
proof -
  obtain net where "masked net" and w: "w = ip_net_string net" by (rule normalize_address_network [OF assms])
  then obtain ip net' where p: "parse_cidr w = Some (ip, net')" "ip_net_string net' = w" "ip_mask ip (in_Mask net') = in_IP net'"
    and t: "net_text w" by (metis parse_cidr_ip_net_string)
  have "w \<noteq> []" "CHR ''/'' \<in> set w" using t by (auto simp: net_text_def)
  with p net_text_length [OF t] show "normalize_address w = Inr w" "\<exists>x. parse_cidr w = Some x"
    by (simp_all add: normalize_address_def)
  have hex: "graphic c" if "is_hex c" for c using that by (auto simp: is_hex_def hex_val_def graphic_def Let_def split: if_splits)
  have sep: "graphic CHR '':''" "graphic CHR ''.''" "graphic CHR ''/''" by (simp_all add: graphic_def)
  have "graphic c" if "c \<in> set w" for c using net_text_chars [OF t that] hex sep by blast
  then show "trim_space w = w" by (intro trim_space_graphic) (simp add: list_all_iff)
qed

lemma canonical_fixed [simp]: "canonicalMatchType MatchProcess = MatchProcess" "canonicalMatchType MatchDomain = MatchDomain"
  "canonicalMatchType MatchIP = MatchIP"
proof -
  have "trim_space ''process'' = ''process''" "trim_space ''domain'' = ''domain''" "trim_space ''ip'' = ''ip''"
    by (rule trim_space_graphic; simp add: graphic_def)+
  then show "canonicalMatchType MatchProcess = MatchProcess" "canonicalMatchType MatchDomain = MatchDomain"
    "canonicalMatchType MatchIP = MatchIP"
    by (simp_all add: canonicalMatchType_def MatchProcess_def MatchDomain_def MatchIP_def to_lower_def lower_char_def Let_def)
qed

lemma normalizeRule_cases:
  assumes "normalizeRule idna raw = Inr r"
  obtains (process) "rr_MatchType r = MatchProcess" "normalize_process (trim_space (rr_Value raw)) = Inr (rr_Value r)"
  | (domain) "rr_MatchType r = MatchDomain" "normalize_domain idna (trim_space (rr_Value raw)) = Inr (rr_Value r)"
  | (ip) "rr_MatchType r = MatchIP" "normalize_address (trim_space (rr_Value raw)) = Inr (rr_Value r)"
  using assms by (auto simp: normalizeRule_def Let_def split: if_splits sum.splits)

lemma normalizeRule_outbound:
  "normalizeRule idna raw = Inr r \<Longrightarrow> trim_space (rr_Outbound r) = rr_Outbound r \<and> isValidOutbound (rr_Outbound r)"
  by (auto simp: normalizeRule_def Let_def split: if_splits sum.splits)

text \<open>Normalising again changes nothing, except that a domain that reads as an IP address is refused.\<close>

lemma normalizeRule_again:
  assumes "idna_law idna" "normalizeRule idna raw = Inr r"
  shows "normalizeRule idna r = (if reads_as_ip r then Inl InvalidDomain else Inr r)"
  using assms(2)
proof (cases rule: normalizeRule_cases)
  case process
  then have "\<not> reads_as_ip r" by (simp add: reads_as_ip_def MatchProcess_def MatchDomain_def)
  with process show ?thesis
    using normalize_process_stable [of "trim_space (rr_Value raw)" "rr_Value r"] normalizeRule_outbound [OF assms(2)]
    by (simp add: normalizeRule_def)
next
  case domain
  from normalize_domain_again [OF assms(1) domain(2)] normalize_domain_form(1) [OF assms(1) domain(2)] show ?thesis
    using domain(1) normalizeRule_outbound [OF assms(2)] by (simp add: normalizeRule_def reads_as_ip_def)
next
  case ip
  then have "\<not> reads_as_ip r" by (simp add: reads_as_ip_def MatchIP_def MatchDomain_def)
  with normalize_address_stable [OF ip(2)] show ?thesis
    using ip(1) normalizeRule_outbound [OF assms(2)] by (simp add: normalizeRule_def)
qed

lemma normalizeRule_stable:
  "idna_law idna \<Longrightarrow> normalizeRule idna raw = Inr r \<Longrightarrow> \<not> reads_as_ip r \<Longrightarrow> normalizeRule idna r = Inr r"
  by (simp add: normalizeRule_again)

section \<open>Order\<close>

lemma rule_less_key: "rule_less a b \<longleftrightarrow> rule_key a < rule_key b"
  by (auto simp: rule_less_def rule_key_def match_rank_def less_prod_def)

definition normal :: "(string \<Rightarrow> string option) \<Rightarrow> routing_rule \<Rightarrow> bool" where
  "normal idna r \<longleftrightarrow> (\<exists>raw. normalizeRule idna raw = Inr r)"

lemma normal_type: "normal idna r \<Longrightarrow> rr_MatchType r = MatchProcess \<or> rr_MatchType r = MatchDomain \<or> rr_MatchType r = MatchIP"
  unfolding normal_def by (auto elim: normalizeRule_cases)

text \<open>Comparing normalised rules never meets a network that does not parse (a nil dereference in the code).\<close>

lemma normal_parses: "normal idna r \<Longrightarrow> rr_MatchType r = MatchIP \<Longrightarrow> parse_cidr (rr_Value r) \<noteq> None"
  unfolding normal_def by (elim exE, erule normalizeRule_cases) (auto dest!: normalize_address_stable(3))

text \<open>The rules that are valid, and of those the first of every identity.\<close>

definition valid_rules :: "(string \<Rightarrow> string option) \<Rightarrow> routing_rule list \<Rightarrow> routing_rule list" where
  "valid_rules idna rules = List.map_filter (\<lambda>r. case normalizeRule idna r of Inl _ \<Rightarrow> None | Inr v \<Rightarrow> Some v) rules"

fun first_of_each :: "string list \<Rightarrow> routing_rule list \<Rightarrow> routing_rule list" where
  "first_of_each seen [] = []"
| "first_of_each seen (r # rs) =
     (if ruleIdentity r \<in> set seen then first_of_each seen rs else r # first_of_each (ruleIdentity r # seen) rs)"

lemma rules_loop_first: "rules_loop idna seen rules = first_of_each seen (valid_rules idna rules)"
  by (induction rules arbitrary: seen) (auto simp: valid_rules_def List.map_filter_def split: sum.splits)

lemma first_of_each_props:
  "distinct (map ruleIdentity (first_of_each seen rs))" "set (first_of_each seen rs) \<subseteq> set rs"
  "ruleIdentity ` set (first_of_each seen rs) = ruleIdentity ` set rs - set seen"
proof (induction rs arbitrary: seen)
  case (Cons r rs)
  {
    case 1
    show ?case using Cons.IH by auto
  next
    case 2
    show ?case using Cons.IH(2) [of seen] Cons.IH(2) [of "ruleIdentity r # seen"] by auto
  next
    case 3
    show ?case using Cons.IH(3) by auto
  }
qed simp_all

lemma first_of_each_id: "distinct (map ruleIdentity rs) \<Longrightarrow> ruleIdentity ` set rs \<inter> set seen = {} \<Longrightarrow> first_of_each seen rs = rs"
  by (induction rs arbitrary: seen) auto

lemma first_of_each_first:
  "r \<in> set (first_of_each seen rs) \<longleftrightarrow> ruleIdentity r \<notin> set seen \<and> find (\<lambda>q. ruleIdentity q = ruleIdentity r) rs = Some r"
  by (induction rs arbitrary: seen) auto

lemma valid_rules_set: "r \<in> set (valid_rules idna rules) \<longleftrightarrow> (\<exists>raw \<in> set rules. normalizeRule idna raw = Inr r)"
  by (induction rules) (auto simp: valid_rules_def List.map_filter_def split: sum.splits)

lemma valid_rules_id: "(\<And>r. r \<in> set rules \<Longrightarrow> normalizeRule idna r = Inr r) \<Longrightarrow> valid_rules idna rules = rules"
  by (induction rules) (auto simp: valid_rules_def List.map_filter_def)

lemma normalizeRules_eq: "normalizeRules idna rules = sort_key rule_key (first_of_each [] (valid_rules idna rules))"
  by (simp add: normalizeRules_def sortRules_def rules_loop_first)

lemma normalizeRules_set:
  "r \<in> set (normalizeRules idna rules) \<longleftrightarrow> find (\<lambda>q. ruleIdentity q = ruleIdentity r) (valid_rules idna rules) = Some r"
  by (simp add: normalizeRules_eq first_of_each_first)

lemma normalizeRules_normal: "r \<in> set (normalizeRules idna rules) \<Longrightarrow> \<exists>raw \<in> set rules. normalizeRule idna raw = Inr r"
  by (auto simp: normalizeRules_set find_Some_iff simp flip: valid_rules_set)

lemma normalizeRules_distinct: "distinct (map ruleIdentity (normalizeRules idna rules))"
  using first_of_each_props(1) [of "[]" "valid_rules idna rules"] by (simp add: normalizeRules_eq distinct_map)

lemma normalizeRules_sorted: "sorted (map rule_key (normalizeRules idna rules))"
  by (simp add: normalizeRules_eq)

text \<open>The three kinds of rules in their order, and what identifies a rule.\<close>

lemma sorted_by_three:
  "sorted_wrt (\<lambda>a b. f a \<le> f b) xs \<Longrightarrow> \<forall>x \<in> set xs. f x \<le> (2 :: nat) \<Longrightarrow>
   xs = filter (\<lambda>x. f x = 0) xs @ filter (\<lambda>x. f x = 1) xs @ filter (\<lambda>x. f x = 2) xs"
proof (induction xs)
  case (Cons x xs)
  then have IH: "xs = filter (\<lambda>x. f x = 0) xs @ filter (\<lambda>x. f x = 1) xs @ filter (\<lambda>x. f x = 2) xs" by simp
  have above: "\<forall>y \<in> set xs. f x \<le> f y" using Cons.prems(1) by simp
  consider "f x = 0" | "f x = 1" | "f x = 2" using Cons.prems(2) by fastforce
  then show ?case
  proof cases
    case 2
    then have "filter (\<lambda>x. f x = 0) xs = []" using above by (auto simp: filter_empty_conv)
    with 2 IH show ?thesis by simp
  next
    case 3
    then have "filter (\<lambda>x. f x = 0) xs = []" "filter (\<lambda>x. f x = 1) xs = []" using above by (auto simp: filter_empty_conv)
    with 3 IH show ?thesis by simp
  qed (use IH in simp)
qed simp

lemma identity_iff:
  assumes "normal idna a" "normal idna b"
  shows "ruleIdentity a = ruleIdentity b \<longleftrightarrow> rr_MatchType a = rr_MatchType b \<and> to_lower (rr_Value a) = to_lower (rr_Value b)"
  using normal_type [OF assms(1)] normal_type [OF assms(2)]
  by (auto simp: ruleIdentity_def MatchProcess_def MatchDomain_def MatchIP_def)

lemma find_first:
  "find P xs = Some x \<longleftrightarrow> (\<exists>before after. xs = before @ x # after \<and> P x \<and> (\<forall>y \<in> set before. \<not> P y))"
proof (induction xs)
  case (Cons y ys)
  show ?case
  proof (cases "P y")
    case True
    then show ?thesis by (auto simp: Cons_eq_append_conv)
  next
    case False
    then have "find P (y # ys) = Some x \<longleftrightarrow> (\<exists>before after. ys = before @ x # after \<and> P x \<and> (\<forall>y \<in> set before. \<not> P y))"
      using Cons.IH by simp
    also have "\<dots> \<longleftrightarrow> (\<exists>before after. y # ys = before @ x # after \<and> P x \<and> (\<forall>y \<in> set before. \<not> P y))"
      using False by (auto simp: Cons_eq_append_conv) (metis set_ConsD)
    finally show ?thesis .
  qed
qed simp

lemma valid_rules_append: "valid_rules idna (xs @ ys) = valid_rules idna xs @ valid_rules idna ys"
  by (simp add: valid_rules_def List.map_filter_def)

lemma valid_rules_split:
  "valid_rules idna rules = before @ r # after \<Longrightarrow>
   \<exists>pre raw post. rules = pre @ raw # post \<and> normalizeRule idna raw = Inr r \<and> valid_rules idna pre = before"
proof (induction rules arbitrary: before)
  case (Cons x rules)
  show ?case
  proof (cases "normalizeRule idna x")
    case (Inl e)
    then have "valid_rules idna rules = before @ r # after" using Cons.prems by (simp add: valid_rules_def List.map_filter_def)
    from Cons.IH [OF this] obtain pre raw post where "rules = pre @ raw # post" "normalizeRule idna raw = Inr r" "valid_rules idna pre = before"
      by blast
    then show ?thesis using Inl by (intro exI [of _ "x # pre"]) (simp add: valid_rules_def List.map_filter_def)
  next
    case (Inr v)
    then have v: "v # valid_rules idna rules = before @ r # after" using Cons.prems by (simp add: valid_rules_def List.map_filter_def)
    show ?thesis
    proof (cases before)
      case Nil
      then have "x # rules = [] @ x # rules \<and> normalizeRule idna x = Inr r \<and> valid_rules idna [] = before"
        using v Inr by (simp add: valid_rules_def List.map_filter_def)
      then show ?thesis by blast
    next
      case (Cons b before')
      then have "valid_rules idna rules = before' @ r # after" "v = b" using v by auto
      from Cons.IH [OF this(1)] obtain pre raw post where "rules = pre @ raw # post" "normalizeRule idna raw = Inr r" "valid_rules idna pre = before'"
        by blast
      then show ?thesis using Inr Cons \<open>v = b\<close> by (intro exI [of _ "x # pre"]) (simp add: valid_rules_def List.map_filter_def)
    qed
  qed
qed (simp add: valid_rules_def List.map_filter_def)

lemma normalizeRules_members:
  "r \<in> set (normalizeRules idna rules) \<longleftrightarrow>
     (\<exists>pre raw post. rules = pre @ raw # post \<and> normalizeRule idna raw = Inr r
        \<and> (\<forall>old \<in> set pre. \<forall>q. normalizeRule idna old = Inr q \<longrightarrow>
             \<not> (rr_MatchType q = rr_MatchType r \<and> to_lower (rr_Value q) = to_lower (rr_Value r))))"
  (is "_ \<longleftrightarrow> ?first")
proof -
  have same: "ruleIdentity q = ruleIdentity r \<longleftrightarrow> rr_MatchType q = rr_MatchType r \<and> to_lower (rr_Value q) = to_lower (rr_Value r)"
    if "normalizeRule idna x = Inr q" "normalizeRule idna raw = Inr r" for x q raw
    using that by (intro identity_iff) (auto simp: normal_def)
  have old: "(\<forall>q \<in> set (valid_rules idna pre). ruleIdentity q \<noteq> ruleIdentity r) \<longleftrightarrow>
      (\<forall>old \<in> set pre. \<forall>q. normalizeRule idna old = Inr q \<longrightarrow>
         \<not> (rr_MatchType q = rr_MatchType r \<and> to_lower (rr_Value q) = to_lower (rr_Value r)))"
    if "normalizeRule idna raw = Inr r" for pre raw
    using same [OF _ that] unfolding Ball_def valid_rules_set by blast
  have "r \<in> set (normalizeRules idna rules) \<longleftrightarrow> (\<exists>before after. valid_rules idna rules = before @ r # after
      \<and> (\<forall>q \<in> set before. ruleIdentity q \<noteq> ruleIdentity r))"
    by (simp add: normalizeRules_set find_first)
  also have "\<dots> \<longleftrightarrow> (\<exists>pre raw post. rules = pre @ raw # post \<and> normalizeRule idna raw = Inr r
      \<and> (\<forall>q \<in> set (valid_rules idna pre). ruleIdentity q \<noteq> ruleIdentity r))" (is "?l \<longleftrightarrow> ?r")
  proof
    assume ?l
    then show ?r using valid_rules_split by metis
  next
    assume ?r
    then obtain pre raw post where r: "rules = pre @ raw # post" "normalizeRule idna raw = Inr r"
      "\<forall>q \<in> set (valid_rules idna pre). ruleIdentity q \<noteq> ruleIdentity r" by blast
    have "valid_rules idna rules = valid_rules idna pre @ r # valid_rules idna post"
      using r(2) by (simp add: r(1) valid_rules_append) (simp add: valid_rules_def List.map_filter_def)
    with r(3) show ?l by blast
  qed
  also have "\<dots> \<longleftrightarrow> ?first" by (intro iff_exI conj_cong refl) (rule old)
  finally show ?thesis .
qed

text \<open>
  C39. The list of rules the application works with. Its members are the normal forms of the rules of the input that can be normalised; a
  rule is left out exactly when an earlier rule of the input has the same kind and, without regard to case, the
  same value in normal form, so of two rules for the same thing the first wins, and none is there twice. First come the rules
  for processes, then those for domains, then those for addresses; processes and domains are in the order of their values in lower
  case, and of the addresses, which all parse as networks, those with the longer prefix come first, those with the same in the order of their
  text: the first rule that matches an address is a most specific one.
\<close>

theorem normalizeRules_canonical:
  fixes idna rules
  defines "bits \<equiv> \<lambda>r :: routing_rule. mask_size (in_Mask (snd (the (parse_cidr (rr_Value r)))))"
    and "in_order \<equiv> \<lambda>a b :: routing_rule. to_lower (rr_Value a) \<le> to_lower (rr_Value b)"
  shows "distinct (normalizeRules idna rules)
    \<and> (\<forall>r. r \<in> set (normalizeRules idna rules) \<longleftrightarrow>
         (\<exists>pre raw post. rules = pre @ raw # post \<and> normalizeRule idna raw = Inr r
            \<and> (\<forall>old \<in> set pre. \<forall>q. normalizeRule idna old = Inr q \<longrightarrow>
                 \<not> (rr_MatchType q = rr_MatchType r \<and> to_lower (rr_Value q) = to_lower (rr_Value r)))))
    \<and> (\<exists>processes domains addresses. normalizeRules idna rules = processes @ domains @ addresses
         \<and> (\<forall>r \<in> set processes. rr_MatchType r = ''process'') \<and> sorted_wrt in_order processes
         \<and> (\<forall>r \<in> set domains. rr_MatchType r = ''domain'') \<and> sorted_wrt in_order domains
         \<and> (\<forall>r \<in> set addresses. rr_MatchType r = ''ip'' \<and> parse_cidr (rr_Value r) \<noteq> None)
         \<and> sorted_wrt (\<lambda>a b. bits b < bits a \<or> bits a = bits b \<and> in_order a b) addresses)"
proof -
  define out where "out = normalizeRules idna rules"
  have normal: "normal idna r" if "r \<in> set out" for r
    using normalizeRules_normal that unfolding out_def normal_def by blast
  have sorted: "sorted_wrt (\<lambda>a b. rule_key a \<le> rule_key b) out"
    using normalizeRules_sorted [of idna rules] by (simp add: out_def sorted_map)
  define rank where "rank = (\<lambda>r :: routing_rule. match_rank (rr_MatchType r))"
  have "sorted_wrt (\<lambda>a b. rank a \<le> rank b) out"
    using sorted by (rule sorted_wrt_mono_rel [rotated]) (auto simp: rule_key_def less_eq_prod_def rank_def)
  moreover have "\<forall>r \<in> set out. rank r \<le> 2" by (simp add: rank_def match_rank_def)
  ultimately have out: "out = filter (\<lambda>r. rank r = 0) out @ filter (\<lambda>r. rank r = 1) out @ filter (\<lambda>r. rank r = 2) out"
    by (rule sorted_by_three)
  have kinds: "rank r = 0 \<Longrightarrow> rr_MatchType r = ''process''" "rank r = 1 \<Longrightarrow> rr_MatchType r = ''domain''" "rank r = 2 \<Longrightarrow> rr_MatchType r = ''ip''"
    if "r \<in> set out" for r
    using normal_type [OF normal [OF that]] by (auto simp: rank_def match_rank_def MatchProcess_def MatchDomain_def MatchIP_def split: if_splits)
  have part: "sorted_wrt (\<lambda>a b. rule_key a \<le> rule_key b) (filter P out)" for P
    using sorted by (rule sorted_wrt_filter)
  have low: "sorted_wrt in_order (filter (\<lambda>r. rank r = k) out)" if "k \<noteq> 2" for k
    using part by (rule sorted_wrt_mono_rel [rotated])
      (use that in \<open>auto simp: rule_key_def less_eq_prod_def rank_def match_rank_def in_order_def MatchDomain_def MatchIP_def split: if_splits\<close>)
  have parses: "parse_cidr (rr_Value r) \<noteq> None" if "r \<in> set out" "rank r = 2" for r
    using normal_parses [OF normal [OF that(1)]] kinds(3) [OF that] by (simp add: MatchIP_def)
  have bits: "rule_bits r = bits r" if "r \<in> set out" "rank r = 2" for r
    using parses [OF that] by (auto simp: rule_bits_def bits_def)
  have high: "sorted_wrt (\<lambda>a b. bits b < bits a \<or> bits a = bits b \<and> in_order a b) (filter (\<lambda>r. rank r = 2) out)"
    using part by (rule sorted_wrt_mono_rel [rotated])
      (use kinds(3) bits in \<open>fastforce simp: rule_key_def less_eq_prod_def in_order_def MatchIP_def\<close>)
  have "distinct out" using normalizeRules_distinct [of idna rules] by (simp add: out_def distinct_map)
  moreover have "\<exists>processes domains addresses. out = processes @ domains @ addresses
         \<and> (\<forall>r \<in> set processes. rr_MatchType r = ''process'') \<and> sorted_wrt in_order processes
         \<and> (\<forall>r \<in> set domains. rr_MatchType r = ''domain'') \<and> sorted_wrt in_order domains
         \<and> (\<forall>r \<in> set addresses. rr_MatchType r = ''ip'' \<and> parse_cidr (rr_Value r) \<noteq> None)
         \<and> sorted_wrt (\<lambda>a b. bits b < bits a \<or> bits a = bits b \<and> in_order a b) addresses"
    using kinds parses
    by (intro exI [of _ "filter (\<lambda>r. rank r = 0) out"] exI [of _ "filter (\<lambda>r. rank r = 1) out"] exI [of _ "filter (\<lambda>r. rank r = 2) out"]
        conjI out low high) auto
  ultimately show ?thesis using normalizeRules_members [of _ idna rules] unfolding out_def by blast
qed

lemma normalizeRules_idem:
  assumes "idna_law idna" "\<forall>r \<in> set (normalizeRules idna rules). \<not> reads_as_ip r"
  shows "normalizeRules idna (normalizeRules idna rules) = normalizeRules idna rules"
proof -
  let ?out = "normalizeRules idna rules"
  have "normalizeRule idna r = Inr r" if "r \<in> set ?out" for r
    using normalizeRules_normal [OF that] normalizeRule_stable [OF assms(1)] assms(2) that by blast
  then have "valid_rules idna ?out = ?out" by (rule valid_rules_id)
  moreover have "first_of_each [] ?out = ?out" by (rule first_of_each_id) (simp_all add: normalizeRules_distinct)
  ultimately show ?thesis
    using normalizeRules_sorted [of idna rules] by (simp add: normalizeRules_eq [of idna ?out] sort_key_id_if_sorted)
qed

text \<open>
  Normalising a list of rules twice is the same as once, unless a domain was converted to a text that
  reads as an IP address.
\<close>

theorem normalizeRules_idempotent:
  assumes "idna_law idna" "\<forall>r \<in> set (normalizeRules idna rules). \<not> reads_as_ip r"
  shows "normalizeRules idna (normalizeRules idna rules) = normalizeRules idna rules"
  using assms by (rule normalizeRules_idem)

section \<open>Strict and lenient\<close>

fun first_error :: "(string \<Rightarrow> string option) \<Rightarrow> nat \<Rightarrow> routing_rule list \<Rightarrow> routing_error option" where
  "first_error idna i [] = None"
| "first_error idna i (r # rs) = (case normalizeRule idna r of Inl e \<Rightarrow> Some (InvalidRule i e) | Inr _ \<Rightarrow> first_error idna (i + 1) rs)"

lemma rules_strict_loop_eq:
  "rules_strict_loop idna i seen rules =
     (case first_error idna i rules of Some e \<Rightarrow> Inl e | None \<Rightarrow> Inr (rules_loop idna seen rules))"
  by (induction idna i seen rules rule: rules_strict_loop.induct) (auto split: sum.splits option.splits)

lemma normalizeRulesStrict_eq:
  "normalizeRulesStrict idna rules = (case first_error idna 1 rules of Some e \<Rightarrow> Inl e | None \<Rightarrow> Inr (normalizeRules idna rules))"
  by (simp add: normalizeRulesStrict_def rules_strict_loop_eq normalizeRules_def split: option.split)

lemma normalizeRulesStrict_ok:
  assumes "list_all (\<lambda>r. \<not> isl (normalizeRule idna r)) rules"
  shows "normalizeRulesStrict idna rules = Inr (normalizeRules idna rules)"
proof -
  have "first_error idna k rules = None" for k
    using assms
  proof (induction rules arbitrary: k)
    case (Cons r rs)
    then show ?case by (cases "normalizeRule idna r") auto
  qed simp
  then show ?thesis by (simp add: normalizeRulesStrict_eq)
qed

text \<open>
  Saving, importing and migrating rules are strict: they give exactly the canonical list when every rule is valid, and otherwise
  the error of the first invalid rule with its position.
\<close>

theorem normalizeRulesStrict_reference:
  "normalizeRulesStrict idna rules =
     (if list_all (\<lambda>r. \<not> isl (normalizeRule idna r)) rules then Inr (normalizeRules idna rules)
      else let i = length (takeWhile (\<lambda>r. \<not> isl (normalizeRule idna r)) rules)
           in Inl (InvalidRule (i + 1) (projl (normalizeRule idna (rules ! i)))))"
proof -
  have e: "first_error idna k rules = Some (InvalidRule (k + length (takeWhile (\<lambda>r. \<not> isl (normalizeRule idna r)) rules))
        (projl (normalizeRule idna (rules ! length (takeWhile (\<lambda>r. \<not> isl (normalizeRule idna r)) rules)))))"
    if "\<exists>r \<in> set rules. isl (normalizeRule idna r)" for k
    using that
  proof (induction rules arbitrary: k)
    case (Cons r rs)
    then show ?case by (cases "normalizeRule idna r") auto
  qed simp
  show ?thesis using e [of 1] normalizeRulesStrict_ok [of idna rules] by (auto simp: normalizeRulesStrict_eq Let_def list_all_iff)
qed

section \<open>Backups\<close>

text \<open>The document that \<open>Export\<close> writes.\<close>

definition rule_json :: "routing_rule \<Rightarrow> json" where
  "rule_json r = JObj [(''match_type'', JStr (rr_MatchType r)), (''value'', JStr (rr_Value r)), (''outbound'', JStr (rr_Outbound r))]"

definition export_json :: "string \<Rightarrow> routing_rule list \<Rightarrow> json" where
  "export_json at rules =
     JObj [(''format'', JStr RoutingBackupFormat), (''version'', JNum ''2''), (''exported_at'', JStr at),
           (''rules'', JArr (map rule_json rules))]"

lemma expand_rule_json:
  assumes "normalizeRule idna raw = Inr r"
  shows "expandRoutingRule (rule_json r) = Inr [r]"
proof -
  have "canonicalMatchType (rr_MatchType r) = rr_MatchType r" "rr_MatchType r \<noteq> []"
    using assms by (auto elim!: normalizeRule_cases simp: MatchProcess_def MatchDomain_def MatchIP_def
        canonical_fixed [unfolded MatchProcess_def MatchDomain_def MatchIP_def])
  with normalizeRule_outbound [OF assms] show ?thesis
    by (simp add: expandRoutingRule_def rule_json_def decode_object_def decode_into_def member_def decode_string_def
        rule_values_def Let_def)
qed

lemma expand_entries_json:
  "(\<And>r. r \<in> set rules \<Longrightarrow> \<exists>raw. normalizeRule idna raw = Inr r) \<Longrightarrow> expand_entries i (map rule_json rules) = Inr rules"
proof (induction rules arbitrary: i)
  case (Cons r rs)
  then obtain raw where "normalizeRule idna raw = Inr r" by (metis list.set_intros(1))
  then show ?case using Cons.IH [of "i + 1"] Cons.prems by (simp add: expand_rule_json)
qed simp

text \<open>
  C40. What \<open>Import\<close> makes of a backup that \<open>Export\<close> wrote, for rules that were accepted and any text that parses to the document
  (and so does not begin as an array), when the IDNA conversion keeps its promises. If no domain of the rules reads as an IP address, the import gives
  exactly the exported rules, in the same order. A domain can read as an IP address, since its check is made before the conversion; then the import
  of the application's own backup is refused, with the position of the first such rule.
\<close>

theorem routing_backup_roundtrip:
  assumes "idna_law idna" "normalizeRulesStrict idna rules = Inr out"
    and "parse text = Some (export_json at out)" "\<not> prefix ''['' text"
  shows "parseRoutingBackup idna parse text =
    (let good = takeWhile (\<lambda>r. \<not> (rr_MatchType r = ''domain'' \<and> parse_ip (rr_Value r) \<noteq> None)) out
     in if good = out then Inr out else Inl (InvalidRule (length good + 1) InvalidDomain))"
proof -
  have is_ip: "rr_MatchType r = ''domain'' \<and> parse_ip (rr_Value r) \<noteq> None \<longleftrightarrow> reads_as_ip r" for r
    by (simp add: reads_as_ip_def MatchDomain_def)
  have out: "out = normalizeRules idna rules" using assms(2) by (auto simp: normalizeRulesStrict_eq split: option.splits)
  have n: "\<exists>raw. normalizeRule idna raw = Inr r" if "r \<in> set out" for r using normalizeRules_normal that out by blast
  have again: "normalizeRule idna r = (if reads_as_ip r then Inl InvalidDomain else Inr r)" if "r \<in> set out" for r
    using n [OF that] normalizeRule_again [OF assms(1)] by blast
  define good where "good = takeWhile (\<lambda>r. \<not> reads_as_ip r) out"
  have e: "first_error idna k rs = (let g = takeWhile (\<lambda>r. \<not> reads_as_ip r) rs
       in if g = rs then None else Some (InvalidRule (k + length g) InvalidDomain))" if "set rs \<subseteq> set out" for k rs
    using that
  proof (induction rs arbitrary: k)
    case (Cons r rs)
    then show ?case using again [of r] by (cases "reads_as_ip r") (auto simp: Let_def)
  qed simp
  have "good = out \<Longrightarrow> normalizeRules idna out = out"
    using normalizeRules_idem [OF assms(1), of rules] out by (auto simp: good_def takeWhile_eq_all_conv)
  then have "normalizeRulesStrict idna out = (if good = out then Inr out else Inl (InvalidRule (length good + 1) InvalidDomain))"
    using e [of out 1] by (simp add: normalizeRulesStrict_eq good_def Let_def)
  then have rules: "parseRoutingRulesJSON idna (Some (JArr (map rule_json out))) =
      (if good = out then Inr out else Inl (InvalidRule (length good + 1) InvalidDomain))"
    using expand_entries_json [of out idna 1, OF n] by (simp add: parseRoutingRulesJSON_def decode_array_def)
  have "RoutingBackupFormat \<noteq> []" by (simp add: RoutingBackupFormat_def)
  moreover have "decode_envelope (export_json at out) = Some \<lparr>be_Format = RoutingBackupFormat, be_Version = Some (JNum ''2''),
      be_Rules = Some (JArr (map rule_json out)), be_RoutingRules = None\<rparr>"
    by (simp add: decode_envelope_def export_json_def decode_object_def envelope_field_def decode_string_def equal_fold_def
        to_lower_def lower_char_def Let_def)
  moreover have "backup_version (Some (JNum ''2'')) = 2"
    by (simp add: backup_version_def decode_int_def atoi_def is_digit_def digit_val_def)
  ultimately have "parseRoutingBackup idna parse text = (if good = out then Inr out else Inl (InvalidRule (length good + 1) InvalidDomain))"
    using assms(3,4) rules by (simp add: parseRoutingBackup_def RoutingBackupVersion_def)
  then show ?thesis unfolding is_ip good_def Let_def .
qed

section \<open>Examples\<close>

text \<open>A conversion that only knows ASCII names.\<close>

definition example_idna :: "string \<Rightarrow> string option" where
  "example_idna d = (if list_all ldh d then Some (to_lower d) else None)"

lemma example_idna_law: "idna_law example_idna"
  by (auto simp: idna_law_def example_idna_def list_all_lower split: if_splits)

definition example_rules :: "routing_rule list" where
  "example_rules =
     [\<lparr>rr_MatchType = ''ip'', rr_Value = ''10.1.2.3/8'', rr_Outbound = ''direct''\<rparr>,
      \<lparr>rr_MatchType = ''IP_CIDR'', rr_Value = ''10.0.0.7'', rr_Outbound = '' nic_eth ''\<rparr>,
      \<lparr>rr_MatchType = ''domain'', rr_Value = ''*.Example.COM.'', rr_Outbound = ''aggregation''\<rparr>,
      \<lparr>rr_MatchType = ''ip'', rr_Value = ''10.9.9.9/8'', rr_Outbound = ''aggregation''\<rparr>]"

definition example_loop_rules :: "routing_rule list" where
  "example_loop_rules =
     [\<lparr>rr_MatchType = MatchIP, rr_Value = ''10.0.0.0/8'', rr_Outbound = ''direct''\<rparr>,
      \<lparr>rr_MatchType = MatchIP, rr_Value = ''10.0.0.7/32'', rr_Outbound = ''nic_eth''\<rparr>,
      \<lparr>rr_MatchType = MatchDomain, rr_Value = ''example.com'', rr_Outbound = ''aggregation''\<rparr>]"

lemma example_values:
  "normalize_address ''10.1.2.3/8'' = Inr ''10.0.0.0/8''" "normalize_address ''10.0.0.7'' = Inr ''10.0.0.7/32''"
  "normalize_address ''10.9.9.9/8'' = Inr ''10.0.0.0/8''" "normalize_domain example_idna ''*.Example.COM.'' = Inr ''example.com''"
proof -
  show "normalize_address ''10.1.2.3/8'' = Inr ''10.0.0.0/8''" "normalize_address ''10.0.0.7'' = Inr ''10.0.0.7/32''"
    "normalize_address ''10.9.9.9/8'' = Inr ''10.0.0.0/8''" by code_simp+
  have "to_lower (trim_suffix ''*.Example.COM.'' ''.'') = ''*.example.com''"
    "trim_prefix (trim_prefix ''*.example.com'' ''*.'') ''.'' = ''example.com''"
    "\<not> contains_any ''example.com'' (path_chars @ ''?#@ '')" "parse_ip ''example.com'' = None"
    "example_idna ''example.com'' = Some ''example.com''" "\<not> list_ex bad_label (split_on CHR ''.'' ''example.com'')"
    "to_lower ''example.com'' = ''example.com''"
    by code_simp+
  then show "normalize_domain example_idna ''*.Example.COM.'' = Inr ''example.com''" by (simp add: normalize_domain_def)
qed

lemma example_trims:
  "trim_space '' nic_eth '' = ''nic_eth''" "trim_space ''direct'' = ''direct''" "trim_space ''aggregation'' = ''aggregation''"
  "trim_space ''10.1.2.3/8'' = ''10.1.2.3/8''" "trim_space ''10.0.0.7'' = ''10.0.0.7''" "trim_space ''10.9.9.9/8'' = ''10.9.9.9/8''"
  "trim_space ''*.Example.COM.'' = ''*.Example.COM.''"
  "canonicalMatchType ''ip'' = MatchIP" "canonicalMatchType ''IP_CIDR'' = MatchIP" "canonicalMatchType ''domain'' = MatchDomain"
  "isValidOutbound ''direct''" "isValidOutbound ''nic_eth''" "isValidOutbound ''aggregation''"
  by code_simp+

lemma example_identities:
  "ruleIdentity \<lparr>rr_MatchType = MatchIP, rr_Value = ''10.0.0.0/8'', rr_Outbound = o1\<rparr>
     \<noteq> ruleIdentity \<lparr>rr_MatchType = MatchIP, rr_Value = ''10.0.0.7/32'', rr_Outbound = o2\<rparr>"
  "ruleIdentity \<lparr>rr_MatchType = MatchIP, rr_Value = v1, rr_Outbound = o1\<rparr>
     \<noteq> ruleIdentity \<lparr>rr_MatchType = MatchDomain, rr_Value = v2, rr_Outbound = o2\<rparr>"
  by (simp_all add: ruleIdentity_def to_lower_def lower_char_def Let_def MatchIP_def MatchDomain_def)

lemma example_rules_loop: "rules_loop example_idna [] example_rules = example_loop_rules"
  using example_identities example_identities(2) [THEN not_sym]
  by (simp add: example_rules_def example_loop_rules_def normalizeRule_def example_values example_trims) (auto simp: ruleIdentity_def)

lemma example_normalized:
  "normalizeRules example_idna example_rules = [example_loop_rules ! 2, example_loop_rules ! 1, example_loop_rules ! 0]"
proof -
  have "map_option (\<lambda>x. mask_size (in_Mask (snd x))) (parse_cidr ''10.0.0.0/8'') = Some 8"
    "map_option (\<lambda>x. mask_size (in_Mask (snd x))) (parse_cidr ''10.0.0.7/32'') = Some 32"
    by code_simp+
  then have "rule_bits \<lparr>rr_MatchType = t, rr_Value = ''10.0.0.0/8'', rr_Outbound = ob\<rparr> = 8"
    "rule_bits \<lparr>rr_MatchType = t, rr_Value = ''10.0.0.7/32'', rr_Outbound = ob\<rparr> = 32" for t ob
    by (auto simp: rule_bits_def)
  then show ?thesis
    by (simp add: normalizeRules_def example_rules_loop sortRules_def example_loop_rules_def rule_key_def match_rank_def
        less_eq_prod_def)
qed

lemma example_not_ip: "\<forall>r \<in> set (normalizeRules example_idna example_rules). \<not> reads_as_ip r"
proof -
  have "parse_ip ''example.com'' = None" by code_simp
  then show ?thesis unfolding example_normalized by (simp add: example_loop_rules_def reads_as_ip_def)
qed

theorem normalizeRules_canonical_witness:
  "\<exists>processes domains addresses. normalizeRules example_idna example_rules = processes @ domains @ addresses
     \<and> map rr_Value (normalizeRules example_idna example_rules) = [''example.com'', ''10.0.0.7/32'', ''10.0.0.0/8'']
     \<and> (\<forall>r \<in> set domains. rr_MatchType r = ''domain'') \<and> (\<forall>r \<in> set addresses. rr_MatchType r = ''ip'')"
proof -
  have v: "map rr_Value (normalizeRules example_idna example_rules) = [''example.com'', ''10.0.0.7/32'', ''10.0.0.0/8'']"
    by (simp add: example_normalized example_loop_rules_def)
  show ?thesis unfolding v using normalizeRules_canonical [of example_idna example_rules] by blast
qed

theorem normalizeRules_idempotent_witness:
  "normalizeRules example_idna (normalizeRules example_idna example_rules) = normalizeRules example_idna example_rules
   \<and> length (normalizeRules example_idna example_rules) = 3"
  using normalizeRules_idempotent [OF example_idna_law example_not_ip] example_normalized by simp

lemma example_strict: "normalizeRulesStrict example_idna example_rules = Inr (normalizeRules example_idna example_rules)"
proof -
  have "list_all (\<lambda>r. \<not> isl (normalizeRule example_idna r)) example_rules"
    by (simp add: example_rules_def normalizeRule_def example_values example_trims)
  then show ?thesis by (simp add: normalizeRulesStrict_ok)
qed

theorem routing_backup_roundtrip_witness:
  "parseRoutingBackup example_idna (\<lambda>text. if text = ''{}'' then Some (export_json ''now'' (normalizeRules example_idna example_rules)) else None) ''{}''
     = Inr (normalizeRules example_idna example_rules)"
proof -
  have "parseRoutingBackup example_idna (\<lambda>text. if text = ''{}'' then Some (export_json ''now'' (normalizeRules example_idna example_rules)) else None) ''{}'' =
    (let good = takeWhile (\<lambda>r. \<not> (rr_MatchType r = ''domain'' \<and> parse_ip (rr_Value r) \<noteq> None)) (normalizeRules example_idna example_rules)
     in if good = normalizeRules example_idna example_rules then Inr (normalizeRules example_idna example_rules)
        else Inl (InvalidRule (length good + 1) InvalidDomain))"
    by (rule routing_backup_roundtrip [OF example_idna_law example_strict]) simp_all
  moreover have "\<forall>r \<in> set (normalizeRules example_idna example_rules). \<not> (rr_MatchType r = ''domain'' \<and> parse_ip (rr_Value r) \<noteq> None)"
    using example_not_ip by (simp add: reads_as_ip_def MatchDomain_def)
  ultimately show ?thesis by (simp add: takeWhile_eq_all_conv [THEN iffD2] Let_def)
qed

section \<open>Two addresses that become other rules\<close>

text \<open>An IPv4 address in its IPv6 form becomes a rule for the whole network \<open>::/32\<close>, because the suffix is chosen by \<open>To4\<close>.\<close>

lemma mapped_address: "parse_ip ''::ffff:1.2.3.4'' = Some (v4InV6Prefix @ [1, 2, 3, 4])"
proof -
  have "takeWhile is_hex ''ffff:1.2.3.4'' = ''ffff''" "takeWhile is_hex ''1.2.3.4'' = ''1''"
    "ipv4_fields 0 0 [] ''1.2.3.4'' = Some [1, 2, 3, 4]" by code_simp+
  moreover have "hex_number ''ffff'' = 65535" by (simp add: hex_number_def hex_val_def)
  ultimately show ?thesis
    by (simp add: parse_ip_def parse_ipv6_def ipv6_loop.simps ipv6_finish_def v4InV6Prefix_def)
qed

theorem mapped_address_becomes_network: "normalize_address ''::ffff:1.2.3.4'' = Inr ''::/32''"
proof -
  have "\<not> is_ipv4_text ''::ffff:1.2.3.4''" "mask_bits 128 ''32'' = Some 32"
    "takeWhile (\<lambda>c. c \<noteq> CHR ''/'') ''::ffff:1.2.3.4/32'' = ''::ffff:1.2.3.4''" by code_simp+
  moreover have m: "cidr_mask 16 32 = replicate 4 255 @ replicate 12 0" by code_simp
  moreover have i: "ip_mask (v4InV6Prefix @ [1, 2, 3, 4]) (cidr_mask 16 32) = replicate 16 0" by code_simp
  ultimately have "parse_cidr ''::ffff:1.2.3.4/32''
      = Some (v4InV6Prefix @ [1, 2, 3, 4], \<lparr>in_IP = replicate 16 0, in_Mask = cidr_mask 16 32\<rparr>)"
    using mapped_address by (simp add: parse_cidr_def)
  moreover have "ip_net_string \<lparr>in_IP = replicate 16 0, in_Mask = cidr_mask 16 32\<rparr> = ''::/32''" by code_simp
  ultimately show ?thesis using mapped_address i by (simp add: normalize_address_def)
qed

text \<open>A domain in full-width digits passes the check that it is not an address, and is then converted to one.\<close>

definition fullwidth_idna :: "string \<Rightarrow> string option" where
  "fullwidth_idna d =
     (if d = [CHR 0xEF, CHR 0xBC, CHR 0x91, CHR ''.'', CHR ''2'', CHR ''.'', CHR ''3'', CHR ''.'', CHR ''4''] then Some ''1.2.3.4''
      else example_idna d)"

definition fullwidth_rule :: routing_rule where
  "fullwidth_rule = \<lparr>rr_MatchType = ''domain'',
     rr_Value = [CHR 0xEF, CHR 0xBC, CHR 0x91, CHR ''.'', CHR ''2'', CHR ''.'', CHR ''3'', CHR ''.'', CHR ''4''], rr_Outbound = ''direct''\<rparr>"

theorem fullwidth_domain_disappears:
  "idna_law fullwidth_idna \<and> length (normalizeRules fullwidth_idna [fullwidth_rule]) = 1
   \<and> normalizeRules fullwidth_idna (normalizeRules fullwidth_idna [fullwidth_rule]) = []"
proof -
  let ?fw = "[CHR 0xEF, CHR 0xBC, CHR 0x91, CHR ''.'', CHR ''2'', CHR ''.'', CHR ''3'', CHR ''.'', CHR ''4'']"
  have nl: "\<not> list_all ldh ?fw" "list_all ldh ''1.2.3.4''" "to_lower ''1.2.3.4'' = ''1.2.3.4''" by code_simp+
  then have a: "fullwidth_idna ''1.2.3.4'' = Some ''1.2.3.4''" by (simp add: fullwidth_idna_def example_idna_def)
  have law: "idna_law fullwidth_idna"
    unfolding idna_law_def
  proof (intro allI impI)
    fix d a
    assume d: "fullwidth_idna d = Some a"
    show "list_all ldh a \<and> fullwidth_idna (to_lower a) = Some (to_lower a)"
    proof (cases "d = ?fw")
      case True
      with d have "a = ''1.2.3.4''" by (simp add: fullwidth_idna_def)
      with nl \<open>fullwidth_idna ''1.2.3.4'' = Some ''1.2.3.4''\<close> show ?thesis by simp
    next
      case False
      then have e: "example_idna d = Some a" using d by (simp add: fullwidth_idna_def)
      then have l: "list_all ldh a" "example_idna (to_lower a) = Some (to_lower a)" using example_idna_law by (auto simp: idna_law_def)
      then have "to_lower a \<noteq> ?fw" using nl(1) list_all_lower by metis
      with l show ?thesis by (simp add: fullwidth_idna_def)
    qed
  qed
  have "trim_space ?fw = ?fw" "to_lower (trim_suffix ?fw ''.'') = ?fw" "trim_prefix (trim_prefix ?fw ''*.'') ''.'' = ?fw"
    "\<not> contains_any ?fw (path_chars @ ''?#@ '')" "parse_ip ?fw = None" "\<not> list_ex bad_label (split_on CHR ''.'' ''1.2.3.4'')"
    "trim_space ''1.2.3.4'' = ''1.2.3.4''" "to_lower (trim_suffix ''1.2.3.4'' ''.'') = ''1.2.3.4''"
    "trim_prefix (trim_prefix ''1.2.3.4'' ''*.'') ''.'' = ''1.2.3.4''" "parse_ip ''1.2.3.4'' \<noteq> None"
    by code_simp+
  then have n: "normalizeRule fullwidth_idna fullwidth_rule = Inr \<lparr>rr_MatchType = MatchDomain, rr_Value = ''1.2.3.4'', rr_Outbound = ''direct''\<rparr>"
    "normalizeRule fullwidth_idna \<lparr>rr_MatchType = MatchDomain, rr_Value = ''1.2.3.4'', rr_Outbound = ''direct''\<rparr> = Inl InvalidDomain"
    using nl by (simp_all add: normalizeRule_def fullwidth_rule_def example_trims normalize_domain_def fullwidth_idna_def)
  with law show ?thesis by (simp add: normalizeRules_def sortRules_def)
qed

end
