(* ===== verification/Settings.thy ===== *)
theory Settings
  imports Routing_Inv "HOL-Library.AList"
begin

text \<open>
  \<open>desktop/internal/services/settings.go\<close>: the settings of the desktop, their validation, the migration of old
  configurations, and the operations that change and save them. The settings file is a JSON
  tree; what the file system answers is an argument of the operations.
\<close>

definition AdapterWeightMin :: int where "AdapterWeightMin = 1"
definition AdapterWeightMax :: int where "AdapterWeightMax = 100"
definition AdapterWeightDefault :: int where "AdapterWeightDefault = 1"

record wfp_state =
  ws_Status :: string
  ws_Fingerprint :: string
  ws_Detail :: string

definition no_wfp_state :: wfp_state where "no_wfp_state = \<lparr>ws_Status = [], ws_Fingerprint = [], ws_Detail = []\<rparr>"

text \<open>A map is an association list; its iteration order is the order of the list.\<close>

record app_settings =
  st_Mode :: string
  st_Language :: string
  st_SOCKSPort :: int
  st_HTTPPort :: int
  st_Weighted :: bool
  st_StrictRoute :: bool
  st_WFP :: wfp_state
  st_ForceTUNBypass :: bool
  st_BlockedBypass :: bool
  st_BlockedExpiry :: bool
  st_CloseToTray :: bool
  st_Autostart :: bool
  st_AutoStartEngine :: bool
  st_DNSServer :: string
  st_DNSPolicy :: string
  st_SelectedIDs :: "string list"
  st_Weights :: "(string \<times> int) list"
  st_Rules :: "routing_rule list"

definition zero_settings :: app_settings where
  "zero_settings = \<lparr>st_Mode = [], st_Language = [], st_SOCKSPort = 0, st_HTTPPort = 0, st_Weighted = False, st_StrictRoute = False,
     st_WFP = no_wfp_state, st_ForceTUNBypass = False, st_BlockedBypass = False, st_BlockedExpiry = False, st_CloseToTray = False,
     st_Autostart = False, st_AutoStartEngine = False, st_DNSServer = [], st_DNSPolicy = [], st_SelectedIDs = [], st_Weights = [],
     st_Rules = []\<rparr>"

definition DefaultSettings :: app_settings where
  "DefaultSettings = zero_settings\<lparr>st_Mode := ''tun'', st_Language := ''zh'', st_SOCKSPort := 10800, st_HTTPPort := 10801,
     st_StrictRoute := True, st_BlockedExpiry := True, st_CloseToTray := False, st_DNSServer := ''223.5.5.5'', st_DNSPolicy := ''auto'',
     st_Weights := [], st_Rules := []\<rparr>"

record migration_status =
  ms_LegacyFound :: bool
  ms_Applied :: bool
  ms_LegacyPath :: string
  ms_BackupPath :: string
  ms_Message :: string

definition no_migration :: migration_status where
  "no_migration = \<lparr>ms_LegacyFound = False, ms_Applied = False, ms_LegacyPath = [], ms_BackupPath = [], ms_Message = []\<rparr>"

datatype settings_error =
    BadMode string
  | BadLanguage string
  | NeedsAutostart
  | BadSOCKSPort
  | BadHTTPPort
  | EqualPorts
  | BadDNSServer
  | BadDNSPolicy string
  | BadWeight string
  | NotSettings
  | NoMigration
  | FileError string
  | PlatformError string
  | LegacyFormat
  | LegacyRules routing_error
  | LegacyInvalid settings_error

section \<open>Validation\<close>

definition bad_weight :: "int \<Rightarrow> bool" where "bad_weight w \<longleftrightarrow> w < AdapterWeightMin \<or> w > AdapterWeightMax"

definition validateSettings :: "app_settings \<Rightarrow> settings_error option" where
  "validateSettings v =
     (if st_Mode v \<noteq> ''proxy'' \<and> st_Mode v \<noteq> ''tun'' then Some (BadMode (st_Mode v))
      else if st_Language v \<noteq> ''zh'' \<and> st_Language v \<noteq> ''en'' then Some (BadLanguage (st_Language v))
      else if st_AutoStartEngine v \<and> \<not> st_Autostart v then Some NeedsAutostart
      else if st_SOCKSPort v < 1 \<or> st_SOCKSPort v > 65534 then Some BadSOCKSPort
      else if st_HTTPPort v < 1 \<or> st_HTTPPort v > 65534 then Some BadHTTPPort
      else if st_SOCKSPort v = st_HTTPPort v then Some EqualPorts
      else if Option.bind (parse_ip (st_DNSServer v)) to4 = None then Some BadDNSServer
      else if st_DNSPolicy v \<notin> set [''auto'', ''off'', ''alidns'', ''dnspod'', ''google''] then Some (BadDNSPolicy (st_DNSPolicy v))
      else map_option (\<lambda>kv. BadWeight (fst kv)) (find (\<lambda>kv. bad_weight (snd kv)) (st_Weights v)))"

definition limitSettingText :: "string \<Rightarrow> nat \<Rightarrow> string" where
  "limitSettingText value limit = (if limit \<le> 0 \<or> length value \<le> limit then value else take limit value)"

fun unique_loop :: "string list \<Rightarrow> string list \<Rightarrow> string list" where
  "unique_loop seen [] = []"
| "unique_loop seen (v # vs) =
     (if v = [] \<or> v \<in> set seen then unique_loop seen vs else v # unique_loop (v # seen) vs)"

definition uniqueNonEmpty :: "string list \<Rightarrow> string list" where
  "uniqueNonEmpty values = unique_loop [] values"

section \<open>The settings as JSON\<close>

text \<open>
  Decoders return whether the value fits and the new value of the variable, which Go also changes in part when it does
  not fit. An element \<open>null\<close> of a list is the empty string.
\<close>

definition dec :: "('a \<Rightarrow> json \<Rightarrow> 'a option) \<Rightarrow> 'a \<Rightarrow> json \<Rightarrow> bool \<times> 'a" where
  "dec f old v = (case f old v of Some x \<Rightarrow> (True, x) | None \<Rightarrow> (False, old))"

definition dec_strings :: "string list \<Rightarrow> json \<Rightarrow> bool \<times> string list" where
  "dec_strings old v =
     (case v of
        JArr xs \<Rightarrow> (list_all (\<lambda>x. decode_string [] x \<noteq> None) xs, map (\<lambda>x. case decode_string [] x of Some s \<Rightarrow> s | None \<Rightarrow> []) xs)
      | JNull \<Rightarrow> (True, [])
      | _ \<Rightarrow> (False, old))"

definition dec_weights :: "(string \<times> int) list \<Rightarrow> json \<Rightarrow> bool \<times> (string \<times> int) list" where
  "dec_weights old v =
     (case v of
        JObj kvs \<Rightarrow>
          fold (\<lambda>(k, x) (ok, m). case decode_int 0 x of Some n \<Rightarrow> (ok, AList.update k n m) | None \<Rightarrow> (False, AList.update k 0 m)) kvs (True, old)
      | JNull \<Rightarrow> (True, [])
      | _ \<Rightarrow> (False, old))"

definition dec_rules :: "routing_rule list \<Rightarrow> json \<Rightarrow> bool \<times> routing_rule list" where
  "dec_rules old v =
     (case v of
        JArr xs \<Rightarrow> (case collect (\<lambda>x. case UnmarshalRoutingRule x of Inl _ \<Rightarrow> None | Inr r \<Rightarrow> Some r) xs of
                      Some rules \<Rightarrow> (True, rules)
                    | None \<Rightarrow> (False, old))
      | JNull \<Rightarrow> (True, [])
      | _ \<Rightarrow> (False, old))"

text \<open>A struct: the fields by name, without regard to case.\<close>

type_synonym 's field_decoder = "json \<Rightarrow> 's \<Rightarrow> bool \<times> 's"

definition field_dec :: "('a \<Rightarrow> json \<Rightarrow> bool \<times> 'a) \<Rightarrow> ('s \<Rightarrow> 'a) \<Rightarrow> (('a \<Rightarrow> 'a) \<Rightarrow> 's \<Rightarrow> 's) \<Rightarrow> 's field_decoder" where
  "field_dec d get upd v s = (let (ok, x) = d (get s) v in (ok, upd (\<lambda>_. x) s))"

definition dec_struct :: "(string \<times> 's field_decoder) list \<Rightarrow> 's \<Rightarrow> json \<Rightarrow> bool \<times> 's" where
  "dec_struct fds old v =
     (case decode_object v of
        None \<Rightarrow> (False, old)
      | Some kvs \<Rightarrow>
          fold (\<lambda>(k, x) (ok, s).
                  case find (\<lambda>f. equal_fold (fst f) k) fds of
                    None \<Rightarrow> (ok, s)
                  | Some (_, d) \<Rightarrow> (let (ok', s') = d x s in (ok \<and> ok', s')))
            kvs (True, old))"

definition wfp_fields :: "(string \<times> wfp_state field_decoder) list" where
  "wfp_fields =
     [(''status'', field_dec (dec decode_string) ws_Status ws_Status_update),
      (''fingerprint'', field_dec (dec decode_string) ws_Fingerprint ws_Fingerprint_update),
      (''detail'', field_dec (dec decode_string) ws_Detail ws_Detail_update)]"

definition settings_fields :: "(string \<times> app_settings field_decoder) list" where
  "settings_fields =
     [(''mode'', field_dec (dec decode_string) st_Mode st_Mode_update),
      (''language'', field_dec (dec decode_string) st_Language st_Language_update),
      (''socks_port'', field_dec (dec decode_int) st_SOCKSPort st_SOCKSPort_update),
      (''http_port'', field_dec (dec decode_int) st_HTTPPort st_HTTPPort_update),
      (''weighted'', field_dec (dec decode_bool) st_Weighted st_Weighted_update),
      (''strict_route'', field_dec (dec decode_bool) st_StrictRoute st_StrictRoute_update),
      (''wfp_compatibility_state'', field_dec (dec_struct wfp_fields) st_WFP st_WFP_update),
      (''force_tun_connectivity_bypass'', field_dec (dec decode_bool) st_ForceTUNBypass st_ForceTUNBypass_update),
      (''blocked_domain_bypass'', field_dec (dec decode_bool) st_BlockedBypass st_BlockedBypass_update),
      (''blocked_domain_expiry'', field_dec (dec decode_bool) st_BlockedExpiry st_BlockedExpiry_update),
      (''close_to_tray'', field_dec (dec decode_bool) st_CloseToTray st_CloseToTray_update),
      (''autostart'', field_dec (dec decode_bool) st_Autostart st_Autostart_update),
      (''auto_start_engine'', field_dec (dec decode_bool) st_AutoStartEngine st_AutoStartEngine_update),
      (''dns_server'', field_dec (dec decode_string) st_DNSServer st_DNSServer_update),
      (''dns_policy'', field_dec (dec decode_string) st_DNSPolicy st_DNSPolicy_update),
      (''selected_adapter_ids'', field_dec dec_strings st_SelectedIDs st_SelectedIDs_update),
      (''adapter_weights'', field_dec dec_weights st_Weights st_Weights_update),
      (''routing_rules'', field_dec dec_rules st_Rules st_Rules_update)]"

definition unmarshal_settings :: "json \<Rightarrow> app_settings option" where
  "unmarshal_settings v = (let (ok, s) = dec_struct settings_fields zero_settings v in if ok then Some s else None)"

definition json_int :: "int \<Rightarrow> json" where "json_int n = JNum (itoa n)"

text \<open>
  \<open>encoding/json\<close> writes a string as UTF-8: every byte that does not begin a valid encoding of a character is replaced by
  the character U+FFFD. \<open>rune_size\<close> is the length of the encoding at the head of a string, 0 when it is not valid.
\<close>

definition byte_in :: "nat \<Rightarrow> nat \<Rightarrow> char \<Rightarrow> bool" where
  "byte_in lo hi c \<longleftrightarrow> lo \<le> of_char c \<and> of_char c \<le> (hi :: nat)"

definition continuation :: "nat \<Rightarrow> string \<Rightarrow> bool" where
  "continuation n s \<longleftrightarrow> n \<le> length s \<and> list_all (byte_in 128 191) (take n s)"

fun rune_size :: "string \<Rightarrow> nat" where
  "rune_size [] = 0"
| "rune_size (b # s) =
     (if byte_in 0 127 b then 1
      else if byte_in 194 223 b \<and> continuation 1 s then 2
      else if byte_in 224 239 b \<and> continuation 2 s
           \<and> (byte_in 224 224 b \<longrightarrow> byte_in 160 191 (hd s)) \<and> (byte_in 237 237 b \<longrightarrow> byte_in 128 159 (hd s)) then 3
      else if byte_in 240 244 b \<and> continuation 3 s
           \<and> (byte_in 240 240 b \<longrightarrow> byte_in 144 191 (hd s)) \<and> (byte_in 244 244 b \<longrightarrow> byte_in 128 143 (hd s)) then 4
      else 0)"

declare rune_size.simps [simp del]

fun json_text :: "string \<Rightarrow> string" where
  "json_text [] = []"
| "json_text (b # s) =
     (let k = rune_size (b # s)
      in if k = 0 then CHR 0xEF # CHR 0xBF # CHR 0xBD # json_text s
         else b # take (k - 1) s @ json_text (drop (k - 1) s))"

declare json_text.simps(2) [simp del]

definition json_str :: "string \<Rightarrow> json" where "json_str s = JStr (json_text s)"

definition wfp_json :: "wfp_state \<Rightarrow> json" where
  "wfp_json w = JObj (filter (\<lambda>kv. snd kv \<noteq> JStr [])
     [(''status'', json_str (ws_Status w)), (''fingerprint'', json_str (ws_Fingerprint w)), (''detail'', json_str (ws_Detail w))])"

definition json_rule :: "routing_rule \<Rightarrow> json" where
  "json_rule r = JObj [(''match_type'', json_str (rr_MatchType r)), (''value'', json_str (rr_Value r)), (''outbound'', json_str (rr_Outbound r))]"

definition settings_json :: "app_settings \<Rightarrow> json" where
  "settings_json s = JObj
     [(''mode'', json_str (st_Mode s)), (''language'', json_str (st_Language s)),
      (''socks_port'', json_int (st_SOCKSPort s)), (''http_port'', json_int (st_HTTPPort s)),
      (''weighted'', JBool (st_Weighted s)), (''strict_route'', JBool (st_StrictRoute s)),
      (''wfp_compatibility_state'', wfp_json (st_WFP s)),
      (''force_tun_connectivity_bypass'', JBool (st_ForceTUNBypass s)),
      (''blocked_domain_bypass'', JBool (st_BlockedBypass s)), (''blocked_domain_expiry'', JBool (st_BlockedExpiry s)),
      (''close_to_tray'', JBool (st_CloseToTray s)), (''autostart'', JBool (st_Autostart s)),
      (''auto_start_engine'', JBool (st_AutoStartEngine s)), (''dns_server'', json_str (st_DNSServer s)),
      (''dns_policy'', json_str (st_DNSPolicy s)), (''selected_adapter_ids'', JArr (map json_str (st_SelectedIDs s))),
      (''adapter_weights'', JObj (map (\<lambda>(k, n). (json_text k, json_int n)) (st_Weights s))),
      (''routing_rules'', JArr (map json_rule (st_Rules s)))]"

section \<open>The service\<close>

text \<open>A file: missing, unreadable, or a text, which is JSON or not.\<close>

datatype stored = Missing | Unreadable string | Stored "json option"

record settings_disk =
  sd_settings :: stored
  sd_legacy :: stored
  sd_backup :: stored

record settings_service =
  ss_settings :: app_settings
  ss_migration :: migration_status

text \<open>
  What the outside answers to one operation: how far \<open>saveLocked\<close> gets (\<^const>\<open>None\<close>: the rename is done; an error leaves the
  file as it was, since the text is written to a temporary file first), the path of the old configuration, whether the
  backup can be written, the autostart entry of the system, the fingerprint of the device.
\<close>

record settings_env =
  se_save :: "string option"
  se_legacyPath :: "string option"
  se_legacyIsFile :: bool
  se_backupPath :: string
  se_backupWrite :: "string option"
  se_autostart :: "bool option"
  se_setAutostart :: "string option"
  se_fingerprint :: string

type_synonym settings_result = "(settings_error + app_settings) \<times> settings_service \<times> settings_disk"

definition saveLocked :: "settings_env \<Rightarrow> settings_service \<Rightarrow> settings_disk \<Rightarrow> settings_error option \<times> settings_disk" where
  "saveLocked env s d =
     (case se_save env of
        Some e \<Rightarrow> (Some (FileError e), d)
      | None \<Rightarrow> (None, d\<lparr>sd_settings := Stored (Some (settings_json (ss_settings s)))\<rparr>))"

text \<open>Saving at the end of an operation, with its result.\<close>

definition commit :: "settings_env \<Rightarrow> settings_service \<Rightarrow> settings_disk \<Rightarrow> settings_result" where
  "commit env s d =
     (case saveLocked env s d of
        (Some e, d) \<Rightarrow> (Inl e, s, d)
      | (None, d) \<Rightarrow> (Inr (ss_settings s), s, d))"

definition settings_Get :: "settings_env \<Rightarrow> settings_service \<Rightarrow> app_settings" where
  "settings_Get env s =
     (case se_autostart env of
        None \<Rightarrow> ss_settings s
      | Some enabled \<Rightarrow>
          let r = (ss_settings s)\<lparr>st_Autostart := enabled\<rparr>
          in if \<not> enabled then r\<lparr>st_AutoStartEngine := False\<rparr> else r)"

definition migrateLegacySettings :: "(string \<Rightarrow> string option) \<Rightarrow> json option \<Rightarrow> settings_error + app_settings" where
  "migrateLegacySettings idna data =
     (case Option.bind data decode_object of
        None \<Rightarrow> Inl LegacyFormat
      | Some raw \<Rightarrow>
          let decode = (\<lambda>key d s. case member raw key of None \<Rightarrow> s | Some v \<Rightarrow> snd (d v s));
              r = fold (\<lambda>(key, d) s. decode key d s)
                [(''run_mode'', field_dec (dec decode_string) st_Mode st_Mode_update),
                 (''selected_adapters'', field_dec dec_strings st_SelectedIDs st_SelectedIDs_update),
                 (''socks_port'', field_dec (dec decode_int) st_SOCKSPort st_SOCKSPort_update),
                 (''http_port'', field_dec (dec decode_int) st_HTTPPort st_HTTPPort_update),
                 (''weighted_scheduler'', field_dec (dec decode_bool) st_Weighted st_Weighted_update),
                 (''wfp_strict_route'', field_dec (dec decode_bool) st_StrictRoute st_StrictRoute_update),
                 (''wfp_compatibility_state'', field_dec (dec_struct wfp_fields) st_WFP st_WFP_update),
                 (''force_tun_connectivity_bypass'', field_dec (dec decode_bool) st_ForceTUNBypass st_ForceTUNBypass_update),
                 (''blocked_domain_bypass'', field_dec (dec decode_bool) st_BlockedBypass st_BlockedBypass_update),
                 (''blocked_domain_expiry'', field_dec (dec decode_bool) st_BlockedExpiry st_BlockedExpiry_update),
                 (''dns_server'', field_dec (dec decode_string) st_DNSServer st_DNSServer_update),
                 (''doh_provider'', field_dec (dec decode_string) st_DNSPolicy st_DNSPolicy_update),
                 (''nic_bandwidth_limits'', field_dec dec_weights st_Weights st_Weights_update)] DefaultSettings
          in case (case member raw ''routing_rules'' of
                     None \<Rightarrow> Inr r
                   | Some payload \<Rightarrow>
                       (case parseRoutingRulesJSON idna (Some payload) of
                          Inl e \<Rightarrow> Inl (LegacyRules e)
                        | Inr rules \<Rightarrow> Inr (r\<lparr>st_Rules := rules\<rparr>))) of
               Inl e \<Rightarrow> Inl e
             | Inr r \<Rightarrow> (case validateSettings r of Some e \<Rightarrow> Inl (LegacyInvalid e) | None \<Rightarrow> Inr r))"

text \<open>What \<open>reload\<close> repairs in the settings it has read.\<close>

definition repair_wfp :: "wfp_state \<Rightarrow> wfp_state" where
  "repair_wfp w =
     (if ws_Status w \<noteq> ''failed'' \<and> ws_Status w \<noteq> ''healthy'' then no_wfp_state
      else w\<lparr>ws_Fingerprint := limitSettingText (ws_Fingerprint w) 512, ws_Detail := limitSettingText (ws_Detail w) 1024\<rparr>)"

definition repair_settings :: "app_settings \<Rightarrow> app_settings" where
  "repair_settings v =
     v\<lparr>st_Mode := (if st_Mode v \<noteq> ''proxy'' \<and> st_Mode v \<noteq> ''tun'' then st_Mode DefaultSettings else st_Mode v),
       st_SOCKSPort := (if st_SOCKSPort v = 0 then st_SOCKSPort DefaultSettings else st_SOCKSPort v),
       st_HTTPPort := (if st_HTTPPort v = 0 then st_HTTPPort DefaultSettings else st_HTTPPort v),
       st_DNSServer := (if st_DNSServer v = [] then st_DNSServer DefaultSettings else st_DNSServer v),
       st_DNSPolicy := (if st_DNSPolicy v = [] then st_DNSPolicy DefaultSettings else st_DNSPolicy v),
       st_Language := (if st_Language v \<noteq> ''zh'' \<and> st_Language v \<noteq> ''en'' then st_Language DefaultSettings else st_Language v),
       st_WFP := repair_wfp (st_WFP v),
       st_Weights := map (\<lambda>(k, w). (k, if bad_weight w then AdapterWeightDefault else w)) (st_Weights v)\<rparr>"

definition migrated_first_start :: string where "migrated_first_start = ''first start''"
definition migrated_manually :: string where "migrated_manually = ''migrated''"
definition migration_rolled_back :: string where "migration_rolled_back = ''rolled back''"
definition migration_available :: string where "migration_available = ''available''"

definition settings_reload ::
    "(string \<Rightarrow> string option) \<Rightarrow> settings_env \<Rightarrow> settings_service \<Rightarrow> settings_disk \<Rightarrow> settings_error option \<times> settings_service \<times> settings_disk" where
  "settings_reload idna env s d =
     (case sd_settings d of
        Missing \<Rightarrow>
          (case se_legacyPath env of
             None \<Rightarrow> (None, s, d)
           | Some path \<Rightarrow>
               (case sd_legacy d of
                  Stored data \<Rightarrow>
                    (case migrateLegacySettings idna data of
                       Inl e \<Rightarrow> (Some e, s, d)
                     | Inr migrated \<Rightarrow>
                         let s = s\<lparr>ss_settings := migrated,
                                   ss_migration := \<lparr>ms_LegacyFound = True, ms_Applied = True, ms_LegacyPath = path,
                                                    ms_BackupPath = [], ms_Message = migrated_first_start\<rparr>\<rparr>;
                             (e, d) = saveLocked env s d
                         in (e, s, d))
                | _ \<Rightarrow> (None, s, d)))
      | Unreadable e \<Rightarrow> (Some (FileError e), s, d)
      | Stored data \<Rightarrow>
          (case Option.bind data unmarshal_settings of
             None \<Rightarrow> (Some NotSettings, s, d)
           | Some loaded \<Rightarrow> (None, s\<lparr>ss_settings := repair_settings loaded\<rparr>, d)))"

definition inspectLegacyConfig :: "settings_env \<Rightarrow> settings_service \<Rightarrow> settings_service" where
  "inspectLegacyConfig env s =
     (case se_legacyPath env of
        None \<Rightarrow> s
      | Some path \<Rightarrow>
          if se_legacyIsFile env then
            let m = (ss_migration s)\<lparr>ms_LegacyFound := True, ms_LegacyPath := path\<rparr>
            in s\<lparr>ss_migration := (if ms_Message m = [] then m\<lparr>ms_Message := migration_available\<rparr> else m)\<rparr>
          else s)"

definition NewSettingsService :: "(string \<Rightarrow> string option) \<Rightarrow> settings_env \<Rightarrow> settings_disk \<Rightarrow> settings_service \<times> settings_disk" where
  "NewSettingsService idna env d =
     (let (_, s, d) = settings_reload idna env \<lparr>ss_settings = DefaultSettings, ss_migration = no_migration\<rparr> d
      in (inspectLegacyConfig env s, d))"

section \<open>Operations\<close>

definition finish_migration :: "settings_env \<Rightarrow> string \<Rightarrow> settings_service \<Rightarrow> settings_disk \<Rightarrow> settings_result" where
  "finish_migration env path s d =
     (case commit env s d of
        (Inl e, s, d) \<Rightarrow> (Inl e, s, d)
      | (Inr r, s, d) \<Rightarrow>
          (Inr r, s\<lparr>ss_migration := (ss_migration s)\<lparr>ms_LegacyFound := True, ms_Applied := True, ms_LegacyPath := path,
             ms_Message := migrated_manually\<rparr>\<rparr>, d))"

definition MigrateLegacy :: "(string \<Rightarrow> string option) \<Rightarrow> settings_env \<Rightarrow> settings_service \<Rightarrow> settings_disk \<Rightarrow> settings_result" where
  "MigrateLegacy idna env s d =
     (case se_legacyPath env of
        None \<Rightarrow> (Inl (PlatformError ''home''), s, d)
      | Some path \<Rightarrow>
          (case sd_legacy d of
             Missing \<Rightarrow> (Inl (FileError ''legacy''), s, d)
           | Unreadable e \<Rightarrow> (Inl (FileError e), s, d)
           | Stored data \<Rightarrow>
               (case migrateLegacySettings idna data of
                  Inl e \<Rightarrow> (Inl e, s, d)
                | Inr migrated \<Rightarrow>
                    (case sd_settings d of
                       Stored _ \<Rightarrow>
                         (case se_backupWrite env of
                            Some e \<Rightarrow> (Inl (FileError e), s, d)
                          | None \<Rightarrow>
                              let d = d\<lparr>sd_backup := sd_settings d\<rparr>;
                                  s = s\<lparr>ss_migration := (ss_migration s)\<lparr>ms_BackupPath := se_backupPath env\<rparr>, ss_settings := migrated\<rparr>
                              in finish_migration env path s d)
                     | _ \<Rightarrow> finish_migration env path (s\<lparr>ss_settings := migrated\<rparr>) d))))"

definition RollbackLegacyMigration :: "settings_env \<Rightarrow> settings_service \<Rightarrow> settings_disk \<Rightarrow> settings_result" where
  "RollbackLegacyMigration env s d =
     (if \<not> ms_Applied (ss_migration s) then (Inl NoMigration, s, d)
      else
        case (if ms_BackupPath (ss_migration s) \<noteq> [] then
                (case sd_backup d of
                   Missing \<Rightarrow> Inl (FileError ''backup'')
                 | Unreadable e \<Rightarrow> Inl (FileError e)
                 | Stored data \<Rightarrow> (case Option.bind data unmarshal_settings of None \<Rightarrow> Inl NotSettings | Some r \<Rightarrow> Inr r))
              else Inr DefaultSettings) of
          Inl e \<Rightarrow> (Inl e, s, d)
        | Inr restored \<Rightarrow>
            (case commit env (s\<lparr>ss_settings := restored\<rparr>) d of
               (Inl e, s, d) \<Rightarrow> (Inl e, s, d)
             | (Inr r, s, d) \<Rightarrow>
                 (Inr r, s\<lparr>ss_migration := (ss_migration s)\<lparr>ms_Applied := False, ms_Message := migration_rolled_back\<rparr>\<rparr>, d)))"

definition settings_Update :: "settings_env \<Rightarrow> app_settings \<Rightarrow> settings_service \<Rightarrow> settings_disk \<Rightarrow> settings_result" where
  "settings_Update env next s d =
     (case validateSettings next of
        Some e \<Rightarrow> (Inl e, s, d)
      | None \<Rightarrow>
          let next = next\<lparr>st_WFP := (if \<not> st_StrictRoute (ss_settings s) \<and> st_StrictRoute next then no_wfp_state
                                      else st_WFP (ss_settings s)),
                           st_SelectedIDs := uniqueNonEmpty (st_SelectedIDs next)\<rparr>
          in commit env (s\<lparr>ss_settings := next\<rparr>) d)"

definition settings_SetAutostart :: "settings_env \<Rightarrow> bool \<Rightarrow> settings_service \<Rightarrow> settings_disk \<Rightarrow> settings_result" where
  "settings_SetAutostart env enabled s d =
     (case se_setAutostart env of
        Some e \<Rightarrow> (Inl (PlatformError e), s, d)
      | None \<Rightarrow>
          let v = (ss_settings s)\<lparr>st_Autostart := enabled\<rparr>;
              v = (if \<not> enabled then v\<lparr>st_AutoStartEngine := False\<rparr> else v)
          in commit env (s\<lparr>ss_settings := v\<rparr>) d)"

definition SetAutoStartEngine :: "settings_env \<Rightarrow> bool \<Rightarrow> settings_service \<Rightarrow> settings_disk \<Rightarrow> settings_result" where
  "SetAutoStartEngine env enabled s d =
     (let refused = (if enabled then
                       (case se_autostart env of
                          None \<Rightarrow> Some (PlatformError ''autostart'')
                        | Some on \<Rightarrow> if \<not> on then Some NeedsAutostart else None)
                     else None)
      in case refused of
           Some e \<Rightarrow> (Inl e, s, d)
         | None \<Rightarrow>
             let v = ss_settings s;
                 v = (if enabled then v\<lparr>st_Autostart := True\<rparr> else v)
             in commit env (s\<lparr>ss_settings := v\<lparr>st_AutoStartEngine := enabled\<rparr>\<rparr>) d)"

definition UpdateHome ::
    "settings_env \<Rightarrow> string \<Rightarrow> bool \<Rightarrow> string list \<Rightarrow> (string \<times> int) list \<Rightarrow> settings_service \<Rightarrow> settings_disk \<Rightarrow> settings_result" where
  "UpdateHome env mode weighted selectedIDs weights s d =
     (if mode \<noteq> ''proxy'' \<and> mode \<noteq> ''tun'' then (Inl (BadMode mode), s, d)
      else case find (\<lambda>kv. bad_weight (snd kv)) weights of
             Some (k, _) \<Rightarrow> (Inl (BadWeight k), s, d)
           | None \<Rightarrow>
               commit env (s\<lparr>ss_settings := (ss_settings s)\<lparr>st_Mode := mode, st_Weighted := weighted,
                 st_SelectedIDs := uniqueNonEmpty selectedIDs, st_Weights := weights\<rparr>\<rparr>) d)"

definition saveRoutingRules :: "settings_env \<Rightarrow> routing_rule list \<Rightarrow> settings_service \<Rightarrow> settings_disk \<Rightarrow> settings_result" where
  "saveRoutingRules env rules s d = commit env (s\<lparr>ss_settings := (ss_settings s)\<lparr>st_Rules := rules\<rparr>\<rparr>) d"

definition rememberedWFPCompatibilityFailure :: "settings_env \<Rightarrow> settings_service \<Rightarrow> bool \<times> string" where
  "rememberedWFPCompatibilityFailure env s =
     (let w = st_WFP (ss_settings s)
      in if ws_Status w \<noteq> ''failed'' \<or> ws_Fingerprint w = [] \<or> ws_Fingerprint w \<noteq> se_fingerprint env then (False, [])
         else (True, ws_Detail w))"

definition RememberWFPCompatibilityFailure :: "settings_env \<Rightarrow> string \<Rightarrow> settings_service \<Rightarrow> settings_disk \<Rightarrow> settings_result" where
  "RememberWFPCompatibilityFailure env detail s d =
     commit env (s\<lparr>ss_settings := (ss_settings s)\<lparr>st_WFP := \<lparr>ws_Status = ''failed'', ws_Fingerprint = se_fingerprint env,
       ws_Detail = limitSettingText detail 1024\<rparr>\<rparr>\<rparr>) d"

definition ClearWFPCompatibilityFailure :: "settings_env \<Rightarrow> settings_service \<Rightarrow> settings_disk \<Rightarrow> settings_result" where
  "ClearWFPCompatibilityFailure env s d =
     commit env (s\<lparr>ss_settings := (ss_settings s)\<lparr>st_WFP := \<lparr>ws_Status = ''healthy'', ws_Fingerprint = se_fingerprint env,
       ws_Detail = []\<rparr>\<rparr>\<rparr>) d"

end
