(* ===== verification/Settings_Inv.thy ===== *)
theory Settings_Inv
  imports Settings
begin

text \<open>
  Properties of the settings: every operation either commits or changes nothing on disk, and what was committed is
  what the next start of the application reads.
\<close>

section \<open>Operations as one type\<close>

datatype settings_op =
    OUpdate app_settings
  | OSetAutostart bool
  | OAutoStartEngine bool
  | OUpdateHome string bool "string list" "(string \<times> int) list"
  | OSaveRules "routing_rule list"
  | ORememberFailure string
  | OClearFailure
  | OMigrate
  | ORollback

definition settings_exec ::
    "(string \<Rightarrow> string option) \<Rightarrow> settings_env \<Rightarrow> settings_op \<Rightarrow> settings_service \<Rightarrow> settings_disk \<Rightarrow> settings_result" where
  "settings_exec idna env op s d =
     (case op of
        OUpdate next \<Rightarrow> settings_Update env next s d
      | OSetAutostart b \<Rightarrow> settings_SetAutostart env b s d
      | OAutoStartEngine b \<Rightarrow> SetAutoStartEngine env b s d
      | OUpdateHome mode weighted ids weights \<Rightarrow> UpdateHome env mode weighted ids weights s d
      | OSaveRules rules \<Rightarrow> saveRoutingRules env rules s d
      | ORememberFailure detail \<Rightarrow> RememberWFPCompatibilityFailure env detail s d
      | OClearFailure \<Rightarrow> ClearWFPCompatibilityFailure env s d
      | OMigrate \<Rightarrow> MigrateLegacy idna env s d
      | ORollback \<Rightarrow> RollbackLegacyMigration env s d)"

text \<open>The contract of an operation: it commits its settings, or it fails and the file is as before.\<close>

definition transactional :: "settings_env \<Rightarrow> settings_service \<Rightarrow> settings_disk \<Rightarrow> settings_result \<Rightarrow> bool" where
  "transactional env s d out \<longleftrightarrow>
     (case out of
        (Inr v, s', d') \<Rightarrow> v = ss_settings s' \<and> sd_settings d' = Stored (Some (settings_json v)) \<and> se_save env = None
      | (Inl e, s', d') \<Rightarrow> sd_settings d' = sd_settings d \<and> (se_save env = None \<longrightarrow> s' = s \<and> d' = d))"

lemma commit_transactional:
  "sd_settings d' = sd_settings d \<Longrightarrow> transactional env s d (commit env s' d')"
  by (auto simp: transactional_def commit_def saveLocked_def split: option.splits)

lemma refuse_transactional [simp]: "transactional env s d (Inl e, s, d)"
  by (simp add: transactional_def)

lemma finish_transactional: "sd_settings d' = sd_settings d \<Longrightarrow> transactional env s d (finish_migration env path s' d')"
  by (auto simp: transactional_def finish_migration_def commit_def saveLocked_def split: option.splits)

lemma exec_transactional: "transactional env s d (settings_exec idna env op s d)"
proof (cases op)
  case OMigrate
  then show ?thesis
    by (auto simp: settings_exec_def MigrateLegacy_def Let_def intro: finish_transactional split: option.splits stored.splits sum.splits)
next
  case ORollback
  have "transactional env s d (case commit env (s\<lparr>ss_settings := r\<rparr>) d of (Inl e, s, d) \<Rightarrow> (Inl e, s, d)
      | (Inr r, s, d) \<Rightarrow> (Inr r, s\<lparr>ss_migration := (ss_migration s)\<lparr>ms_Applied := False, ms_Message := m\<rparr>\<rparr>, d))" for r m
    by (auto simp: transactional_def commit_def saveLocked_def split: option.splits)
  then show ?thesis
    by (auto simp: ORollback settings_exec_def RollbackLegacyMigration_def split: sum.split)
qed (auto simp: settings_exec_def settings_Update_def settings_SetAutostart_def SetAutoStartEngine_def UpdateHome_def saveRoutingRules_def
  RememberWFPCompatibilityFailure_def ClearWFPCompatibilityFailure_def Let_def intro: commit_transactional split: option.splits)

text \<open>
  C37. Changing the settings is a transaction: an operation that succeeds returns the settings it keeps and has written exactly them
  to the settings file; one that fails leaves the file alone, and when the failure is not the write itself nothing has changed at
  all, in memory or on disk.
\<close>

theorem settings_operations_commit:
  assumes "settings_exec idna env op s d = (res, s', d')"
  shows "(\<forall>v. res = Inr v \<longrightarrow> v = ss_settings s' \<and> sd_settings d' = Stored (Some (settings_json v)))
       \<and> (isl res \<longrightarrow> sd_settings d' = sd_settings d \<and> (se_save env = None \<longrightarrow> s' = s \<and> d' = d))"
  using exec_transactional [of env s d idna op] unfolding assms transactional_def by (auto split: sum.splits)

section \<open>Saving and loading\<close>

subsection \<open>Text\<close>

definition utf8 :: "string \<Rightarrow> bool" where "utf8 s \<longleftrightarrow> json_text s = s"

lemma utf8_text [simp]: "utf8 s \<Longrightarrow> json_text s = s"
  by (simp add: utf8_def)

lemma json_text_empty [simp]: "json_text s = [] \<longleftrightarrow> s = []"
  by (cases s) (simp_all add: json_text.simps(2) Let_def)

lemma utf8_ascii: "list_all (byte_in 0 127) s \<Longrightarrow> utf8 s"
  unfolding utf8_def by (induction s) (simp_all add: json_text.simps(2) rune_size.simps Let_def)

lemma utf8_settings_words: "list_all utf8 [[], ''proxy'', ''tun'', ''zh'', ''en'', ''auto'', ''off'', ''223.5.5.5'', ''failed'', ''healthy'']"
  by (simp add: utf8_ascii byte_in_def)

subsection \<open>What is written is what is read\<close>

text \<open>A rule in the shape in which it is read: the canonical name of its match type, no space around its outbound.\<close>

definition stored_rule :: "routing_rule \<Rightarrow> bool" where
  "stored_rule r \<longleftrightarrow> UnmarshalRoutingRule (rule_json r) = Inr r"

lemma normal_stored_rule: "normalizeRule idna raw = Inr r \<Longrightarrow> stored_rule r"
  by (simp add: stored_rule_def UnmarshalRoutingRule_def expand_rule_json)

definition rule_text :: "routing_rule \<Rightarrow> bool" where
  "rule_text r \<longleftrightarrow> utf8 (rr_MatchType r) \<and> utf8 (rr_Value r) \<and> utf8 (rr_Outbound r)"

definition go_int :: "int \<Rightarrow> bool" where "go_int n \<longleftrightarrow> - (2 ^ 63) \<le> n \<and> n < 2 ^ 63"

text \<open>
  Settings as the program can hold them: numbers of 64 bits, one weight for an adapter, rules in the shape in which they are
  read, and text that is valid UTF-8, as all text is that came as JSON, from the user or from a file. Nothing is said of
  the state of the device, whose text the program cuts at a number of bytes.
\<close>

definition go_settings :: "app_settings \<Rightarrow> bool" where
  "go_settings v \<longleftrightarrow> go_int (st_SOCKSPort v) \<and> go_int (st_HTTPPort v)
     \<and> list_all utf8 [st_Mode v, st_Language v, st_DNSServer v, st_DNSPolicy v] \<and> list_all utf8 (st_SelectedIDs v)
     \<and> distinct (map fst (st_Weights v)) \<and> list_all (\<lambda>(k, n). utf8 k \<and> go_int n) (st_Weights v)
     \<and> list_all (\<lambda>r. stored_rule r \<and> rule_text r) (st_Rules v)"

lemma atoi_go_int: "go_int n \<Longrightarrow> atoi (itoa n) = Some n"
proof (cases "0 \<le> n")
  case False
  assume "go_int n"
  then have "- n \<le> 2 ^ 63" by (simp add: go_int_def)
  then show ?thesis
    using False nat_str_digits [of "nat (- n)"] by (simp add: itoa_def atoi_def)
qed (simp add: go_int_def atoi_itoa)

lemma decode_json_int: "go_int n \<Longrightarrow> decode_int old (json_int n) = Some n"
  by (simp add: decode_int_def json_int_def atoi_go_int)

lemma decode_simps [simp]:
  "dec decode_string old (json_str s) = (True, json_text s)" "dec decode_bool old3 (JBool b) = (True, b)"
  "go_int n \<Longrightarrow> dec decode_int old2 (json_int n) = (True, n)"
  by (simp_all add: dec_def decode_string_def decode_bool_def decode_json_int json_str_def)

lemma dec_strings_json: "list_all utf8 xs \<Longrightarrow> dec_strings old (JArr (map json_str xs)) = (True, xs)"
  by (induction xs) (simp_all add: dec_strings_def decode_string_def json_str_def)

lemma dec_rules_json: "list_all (\<lambda>r. stored_rule r \<and> rule_text r) rs \<Longrightarrow> dec_rules old (JArr (map json_rule rs)) = (True, rs)"
proof -
  have rule: "json_rule r = rule_json r" if "rule_text r" for r
    using that by (simp add: rule_text_def json_rule_def rule_json_def json_str_def)
  have "collect (\<lambda>x. case UnmarshalRoutingRule x of Inl _ \<Rightarrow> None | Inr r \<Rightarrow> Some r) (map json_rule rs) = Some rs"
    if "list_all (\<lambda>r. stored_rule r \<and> rule_text r) rs"
    using that by (induction rs) (auto simp: stored_rule_def rule)
  then show "list_all (\<lambda>r. stored_rule r \<and> rule_text r) rs \<Longrightarrow> ?thesis" by (simp add: dec_rules_def)
qed

lemma dec_weights_json:
  assumes "distinct (map fst ws)" "list_all (\<lambda>(k, n). utf8 k \<and> go_int n) ws"
  shows "dec_weights [] (JObj (map (\<lambda>(k, n). (json_text k, json_int n)) ws)) = (True, ws)"
proof -
  have up: "AList.update k n m = m @ [(k, n)]" if "k \<notin> fst ` set m" for k n and m :: "(string \<times> int) list"
    using that by (induction m) auto
  have "fold (\<lambda>(k, x) (ok, m). case decode_int 0 x of Some n \<Rightarrow> (ok, AList.update k n m) | None \<Rightarrow> (False, AList.update k 0 m))
      (map (\<lambda>(k, n). (json_text k, json_int n)) ws) (True, m) = (True, m @ ws)"
    if "distinct (map fst (m @ ws))" "list_all (\<lambda>(k, n). utf8 k \<and> go_int n) ws" for m
    using that
  proof (induction ws arbitrary: m)
    case (Cons kv ws)
    obtain k n where kv: "kv = (k, n)" by (cases kv)
    have "decode_int 0 (json_int n) = Some n" "json_text k = k" using Cons.prems by (auto simp: kv decode_json_int)
    moreover have "AList.update k n m = m @ [(k, n)]" using Cons.prems(1) by (intro up) (auto simp: kv)
    ultimately show ?case using Cons.IH [of "m @ [(k, n)]"] Cons.prems by (simp add: kv)
  qed simp
  from this [of "[]"] assms show ?thesis by (simp add: dec_weights_def)
qed

text \<open>The state of the device as it is read back.\<close>

definition written_wfp :: "wfp_state \<Rightarrow> wfp_state" where
  "written_wfp w = \<lparr>ws_Status = json_text (ws_Status w), ws_Fingerprint = json_text (ws_Fingerprint w), ws_Detail = json_text (ws_Detail w)\<rparr>"

lemma dec_wfp_json: "dec_struct wfp_fields no_wfp_state (wfp_json w) = (True, written_wfp w)"
  by (cases w) (simp add: dec_struct_def wfp_fields_def wfp_json_def decode_object_def no_wfp_state_def field_dec_def equal_fold_def
      to_lower_def lower_char_def dec_def decode_string_def json_str_def written_wfp_def Let_def)

lemma field_names_lower:
  "list_all (\<lambda>k. to_lower k = k) [''mode'', ''language'', ''socks_port'', ''http_port'', ''weighted'', ''strict_route'',
     ''wfp_compatibility_state'', ''force_tun_connectivity_bypass'', ''blocked_domain_bypass'', ''blocked_domain_expiry'',
     ''close_to_tray'', ''autostart'', ''auto_start_engine'', ''dns_server'', ''dns_policy'', ''selected_adapter_ids'',
     ''adapter_weights'', ''routing_rules'']"
  by code_simp

lemma unmarshal_settings_json:
  assumes "go_settings v"
  shows "unmarshal_settings (settings_json v) = Some (v\<lparr>st_WFP := written_wfp (st_WFP v)\<rparr>)"
proof -
  have v: "go_int (st_SOCKSPort v)" "go_int (st_HTTPPort v)" "utf8 (st_Mode v)" "utf8 (st_Language v)" "utf8 (st_DNSServer v)"
    "utf8 (st_DNSPolicy v)" "list_all utf8 (st_SelectedIDs v)" "distinct (map fst (st_Weights v))"
    "list_all (\<lambda>(k, n). utf8 k \<and> go_int n) (st_Weights v)" "list_all (\<lambda>r. stored_rule r \<and> rule_text r) (st_Rules v)"
    using assms by (simp_all add: go_settings_def)
  note fields = v(1-6) dec_strings_json [OF v(7)] dec_weights_json [OF v(8,9)] dec_rules_json [OF v(10)] dec_wfp_json
  note lower = field_names_lower [simplified]
  have "dec_struct settings_fields zero_settings (settings_json v) = (True, v\<lparr>st_WFP := written_wfp (st_WFP v)\<rparr>)"
    unfolding settings_json_def
    by (subst dec_struct_def) (simp add: decode_object_def settings_fields_def equal_fold_def lower field_dec_def fields zero_settings_def Let_def)
  then show ?thesis by (simp add: unmarshal_settings_def)
qed

lemma validate_wfp: "validateSettings (v\<lparr>st_WFP := w\<rparr>) = validateSettings v"
  by (simp add: validateSettings_def)

lemma repair_valid:
  assumes "validateSettings v = None"
  shows "repair_settings v = v\<lparr>st_WFP := repair_wfp (st_WFP v)\<rparr>"
proof -
  have "map (\<lambda>(k, x). (k, if bad_weight x then AdapterWeightDefault else x)) ws = ws" if "list_all (\<lambda>kv. \<not> bad_weight (snd kv)) ws" for ws
    using that by (induction ws) auto
  moreover have "list_all (\<lambda>kv. \<not> bad_weight (snd kv)) (st_Weights v)"
    using assms by (auto simp: validateSettings_def find_None_iff list_all_iff split: if_splits)
  ultimately have m: "map (\<lambda>(k, x). (k, if bad_weight x then AdapterWeightDefault else x)) (st_Weights v) = st_Weights v" by blast
  have f: "st_DNSServer v \<noteq> []" "st_DNSPolicy v \<noteq> []" "st_SOCKSPort v \<noteq> 0" "st_HTTPPort v \<noteq> 0"
    "\<not> (st_Mode v \<noteq> ''proxy'' \<and> st_Mode v \<noteq> ''tun'')" "\<not> (st_Language v \<noteq> ''zh'' \<and> st_Language v \<noteq> ''en'')"
    using assms by (auto simp: validateSettings_def parse_ip_def split: if_splits)
  show ?thesis
    unfolding repair_settings_def m if_not_P [OF f(1)] if_not_P [OF f(2)] if_not_P [OF f(3)] if_not_P [OF f(4)]
      if_not_P [OF f(5)] if_not_P [OF f(6)] by simp
qed

text \<open>
  C38. What the next start of the application makes of the settings that an operation has committed, whichever operation it was, for
  settings as the program can hold them (numbers of 64 bits, one weight for an adapter, rules in the shape in which they are read, text that is valid
  UTF-8 except in the state of the device). It never fails to read them, and loads them with these repairs and no other: a
  mode or language that is unknown, a port 0, an empty DNS server or policy becomes the default, a weight outside 1 to
  100 becomes 1; of the state of the device, bytes that are not UTF-8 become U+FFFD, a fingerprint is cut at 512 bytes and
  a detail at 1024, and a state other than \<open>failed\<close> and \<open>healthy\<close> is dropped. So settings that pass the validation come back
  exactly as they were, up to the state of the device, and with it when it is the empty one or such a record of valid text within the limits. Not every
  operation commits such a state: a migration of an old configuration takes over any.
\<close>

theorem settings_survive_restart:
  assumes "settings_exec idna env op s d = (Inr v, s', d')" "go_settings v"
  shows "\<exists>loaded. NewSettingsService idna' env' d' = (inspectLegacyConfig env' \<lparr>ss_settings = loaded, ss_migration = no_migration\<rparr>, d')
    \<and> loaded = v\<lparr>st_Mode := if st_Mode v \<in> {''proxy'', ''tun''} then st_Mode v else ''tun'',
        st_Language := if st_Language v \<in> {''zh'', ''en''} then st_Language v else ''zh'',
        st_SOCKSPort := if st_SOCKSPort v = 0 then 10800 else st_SOCKSPort v,
        st_HTTPPort := if st_HTTPPort v = 0 then 10801 else st_HTTPPort v,
        st_DNSServer := if st_DNSServer v = [] then ''223.5.5.5'' else st_DNSServer v,
        st_DNSPolicy := if st_DNSPolicy v = [] then ''auto'' else st_DNSPolicy v,
        st_Weights := map (\<lambda>(k, w). (k, if 1 \<le> w \<and> w \<le> 100 then w else 1)) (st_Weights v),
        st_WFP := if json_text (ws_Status (st_WFP v)) \<in> {''failed'', ''healthy''}
          then \<lparr>ws_Status = json_text (ws_Status (st_WFP v)), ws_Fingerprint = take 512 (json_text (ws_Fingerprint (st_WFP v))),
                ws_Detail = take 1024 (json_text (ws_Detail (st_WFP v)))\<rparr>
          else \<lparr>ws_Status = [], ws_Fingerprint = [], ws_Detail = []\<rparr>\<rparr>
    \<and> (validateSettings v = None \<longrightarrow> loaded = v\<lparr>st_WFP := st_WFP loaded\<rparr>)
    \<and> (st_WFP v = \<lparr>ws_Status = [], ws_Fingerprint = [], ws_Detail = []\<rparr>
       \<or> ws_Status (st_WFP v) \<in> {''failed'', ''healthy''} \<and> utf8 (ws_Fingerprint (st_WFP v)) \<and> utf8 (ws_Detail (st_WFP v))
         \<and> length (ws_Fingerprint (st_WFP v)) \<le> 512 \<and> length (ws_Detail (st_WFP v)) \<le> 1024
       \<longrightarrow> st_WFP loaded = st_WFP v)"
proof -
  define loaded where "loaded = repair_settings (v\<lparr>st_WFP := written_wfp (st_WFP v)\<rparr>)"
  have "sd_settings d' = Stored (Some (settings_json v))"
    using exec_transactional [of env s d idna op] assms(1) by (simp add: transactional_def)
  then have n: "NewSettingsService idna' env' d' = (inspectLegacyConfig env' \<lparr>ss_settings = loaded, ss_migration = no_migration\<rparr>, d')"
    using unmarshal_settings_json [OF assms(2)] by (simp add: NewSettingsService_def settings_reload_def loaded_def)
  have limit: "limitSettingText t k = take k t" if "0 < k" for t k
    using that by (simp add: limitSettingText_def)
  have wfp: "st_WFP loaded = (if json_text (ws_Status (st_WFP v)) \<in> {''failed'', ''healthy''}
      then \<lparr>ws_Status = json_text (ws_Status (st_WFP v)), ws_Fingerprint = take 512 (json_text (ws_Fingerprint (st_WFP v))),
            ws_Detail = take 1024 (json_text (ws_Detail (st_WFP v)))\<rparr>
      else \<lparr>ws_Status = [], ws_Fingerprint = [], ws_Detail = []\<rparr>)"
    by (simp add: loaded_def repair_settings_def repair_wfp_def written_wfp_def limit no_wfp_state_def)
  have all: "loaded = v\<lparr>st_Mode := if st_Mode v \<in> {''proxy'', ''tun''} then st_Mode v else ''tun'',
        st_Language := if st_Language v \<in> {''zh'', ''en''} then st_Language v else ''zh'',
        st_SOCKSPort := if st_SOCKSPort v = 0 then 10800 else st_SOCKSPort v,
        st_HTTPPort := if st_HTTPPort v = 0 then 10801 else st_HTTPPort v,
        st_DNSServer := if st_DNSServer v = [] then ''223.5.5.5'' else st_DNSServer v,
        st_DNSPolicy := if st_DNSPolicy v = [] then ''auto'' else st_DNSPolicy v,
        st_Weights := map (\<lambda>(k, w). (k, if 1 \<le> w \<and> w \<le> 100 then w else 1)) (st_Weights v),
        st_WFP := st_WFP loaded\<rparr>"
    by (rule app_settings.equality)
       (auto simp: loaded_def repair_settings_def DefaultSettings_def bad_weight_def AdapterWeightMin_def AdapterWeightMax_def
         AdapterWeightDefault_def)
  have valid: "loaded = v\<lparr>st_WFP := st_WFP loaded\<rparr>" if "validateSettings v = None"
  proof -
    have "validateSettings (v\<lparr>st_WFP := written_wfp (st_WFP v)\<rparr>) = None" using that by (simp only: validate_wfp)
    from repair_valid [OF this] show ?thesis by (simp add: loaded_def)
  qed
  have same: "st_WFP loaded = st_WFP v" if "st_WFP v = \<lparr>ws_Status = [], ws_Fingerprint = [], ws_Detail = []\<rparr>
       \<or> ws_Status (st_WFP v) \<in> {''failed'', ''healthy''} \<and> utf8 (ws_Fingerprint (st_WFP v)) \<and> utf8 (ws_Detail (st_WFP v))
         \<and> length (ws_Fingerprint (st_WFP v)) \<le> 512 \<and> length (ws_Detail (st_WFP v)) \<le> 1024"
    using that utf8_settings_words unfolding wfp by (elim disjE conjE) (auto intro: wfp_state.equality)
  show ?thesis
    by (intro exI [of _ loaded] conjI impI n all [unfolded wfp] valid same)
qed

lemma DefaultSettings_ok: "validateSettings DefaultSettings = None"
proof -
  have "parse_ip ''223.5.5.5'' = Some (v4InV6Prefix @ [223, 5, 5, 5])" by code_simp
  then show ?thesis by (simp add: validateSettings_def DefaultSettings_def zero_settings_def)
qed

text \<open>Lists of adapter ids: no empty ones, no duplicates, in the order of their first occurrence.\<close>

lemma unique_loop_props:
  "distinct (unique_loop seen xs)" "set (unique_loop seen xs) = set xs - {[]} - set seen"
proof (induction xs arbitrary: seen)
  case (Cons x xs)
  {
    case 1
    show ?case using Cons.IH by auto
  next
    case 2
    show ?case using Cons.IH(2) by auto
  }
qed simp_all

lemma validate_ignores: "validateSettings (v\<lparr>st_WFP := w, st_SelectedIDs := ids\<rparr>) = validateSettings v"
  by (simp add: validateSettings_def)

text \<open>
  The settings page cannot forge the state of the device: after \<open>Update\<close> the compatibility record is the one that was there, or
  none when strict routing has just been switched on; everything else is as submitted and valid, with the selected
  adapters unique and in order.
\<close>

theorem Update_result:
  assumes "settings_Update env next s d = (Inr v, s', d')"
  shows "validateSettings v = None
       \<and> st_WFP v = (if \<not> st_StrictRoute (ss_settings s) \<and> st_StrictRoute next then no_wfp_state else st_WFP (ss_settings s))
       \<and> distinct (st_SelectedIDs v) \<and> set (st_SelectedIDs v) = set (st_SelectedIDs next) - {[]}
       \<and> v\<lparr>st_WFP := st_WFP next, st_SelectedIDs := st_SelectedIDs next\<rparr> = next
       \<and> ss_migration s' = ss_migration s"
proof -
  define w where "w = (if \<not> st_StrictRoute (ss_settings s) \<and> st_StrictRoute next then no_wfp_state else st_WFP (ss_settings s))"
  define ids where "ids = uniqueNonEmpty (st_SelectedIDs next)"
  have n: "validateSettings next = None" using assms by (auto simp: settings_Update_def split: option.splits)
  then have c: "commit env (s\<lparr>ss_settings := next\<lparr>st_WFP := w, st_SelectedIDs := ids\<rparr>\<rparr>) d = (Inr v, s', d')"
    using assms unfolding settings_Update_def w_def ids_def Let_def by simp
  have v: "v = next\<lparr>st_WFP := w, st_SelectedIDs := ids\<rparr>" and m: "ss_migration s' = ss_migration s"
    using c by (auto simp: commit_def saveLocked_def split: option.splits)
  have "distinct ids" "set ids = set (st_SelectedIDs next) - {[]}"
    using unique_loop_props [of "[]" "st_SelectedIDs next"] by (auto simp: ids_def uniqueNonEmpty_def)
  moreover have "validateSettings v = None" unfolding v validate_ignores by (rule n)
  ultimately show ?thesis using m unfolding v w_def [symmetric] by simp
qed

section \<open>Examples\<close>

definition example_settings_env :: settings_env where
  "example_settings_env = \<lparr>se_save = None, se_legacyPath = None, se_legacyIsFile = False, se_backupPath = [], se_backupWrite = None,
     se_autostart = Some False, se_setAutostart = None, se_fingerprint = ''fp''\<rparr>"

definition example_service :: settings_service where
  "example_service = \<lparr>ss_settings = DefaultSettings, ss_migration = no_migration\<rparr>"

definition example_disk :: settings_disk where
  "example_disk = \<lparr>sd_settings = Missing, sd_legacy = Missing, sd_backup = Missing\<rparr>"

definition example_settings :: app_settings where
  "example_settings = DefaultSettings\<lparr>st_Mode := ''proxy'', st_SOCKSPort := 2000, st_Weights := [(''eth'', 3)]\<rparr>"

lemma example_settings_ok: "validateSettings example_settings = None" "go_settings example_settings"
proof -
  show "validateSettings example_settings = None"
    using DefaultSettings_ok
    by (auto simp: validateSettings_def example_settings_def DefaultSettings_def zero_settings_def bad_weight_def
        AdapterWeightMin_def AdapterWeightMax_def split: if_splits)
  have "utf8 ''eth''" by (simp add: utf8_ascii byte_in_def)
  then show "go_settings example_settings"
    using utf8_settings_words by (simp add: go_settings_def go_int_def example_settings_def DefaultSettings_def zero_settings_def)
qed

lemma example_Update:
  "settings_exec (\<lambda>_. None) example_settings_env (OUpdate example_settings) example_service example_disk =
     (Inr example_settings, example_service\<lparr>ss_settings := example_settings\<rparr>,
      example_disk\<lparr>sd_settings := Stored (Some (settings_json example_settings))\<rparr>)"
proof -
  have "validateSettings example_settings = None" by (rule example_settings_ok)
  moreover have "example_settings\<lparr>st_WFP := no_wfp_state, st_SelectedIDs := uniqueNonEmpty (st_SelectedIDs example_settings)\<rparr> = example_settings"
    by (simp add: example_settings_def DefaultSettings_def zero_settings_def uniqueNonEmpty_def)
  moreover have "st_WFP (ss_settings example_service) = no_wfp_state"
    by (simp add: example_service_def DefaultSettings_def zero_settings_def)
  ultimately show ?thesis
    by (simp add: settings_exec_def settings_Update_def commit_def saveLocked_def example_settings_env_def)
qed

theorem settings_operations_commit_witness:
  "\<exists>s' d'. settings_exec (\<lambda>_. None) example_settings_env (OUpdate example_settings) example_service example_disk = (Inr example_settings, s', d')
     \<and> ss_settings s' = example_settings \<and> sd_settings d' = Stored (Some (settings_json example_settings))"
  using settings_operations_commit [OF example_Update] example_Update by auto

text \<open>
  The detail of a failure is cut in the middle of a character of three bytes: what is read back has U+FFFD for the two bytes that are
  left, and is cut again, so the file and the memory differ until the next failure.
\<close>

definition cut_detail :: string where
  "cut_detail = replicate 1022 CHR ''x'' @ [CHR 0xE4, CHR 0xB8]"

theorem settings_survive_restart_witness:
  "\<exists>v s' d'. settings_exec (\<lambda>_. None) example_settings_env (ORememberFailure (cut_detail @ [CHR 0xAD])) example_service example_disk = (Inr v, s', d')
     \<and> ws_Detail (st_WFP v) = cut_detail
     \<and> (\<exists>loaded. ss_settings (fst (NewSettingsService (\<lambda>_. None) example_settings_env d')) = loaded
          \<and> st_WFP loaded = \<lparr>ws_Status = ''failed'', ws_Fingerprint = ''fp'', ws_Detail = take 1024 (json_text cut_detail)\<rparr>
          \<and> loaded = DefaultSettings\<lparr>st_WFP := st_WFP loaded\<rparr>)"
proof -
  define v where "v = DefaultSettings\<lparr>st_WFP := \<lparr>ws_Status = ''failed'', ws_Fingerprint = ''fp'', ws_Detail = cut_detail\<rparr>\<rparr>"
  have "limitSettingText (cut_detail @ [CHR 0xAD]) 1024 = cut_detail"
    by (simp add: limitSettingText_def cut_detail_def)
  then have e: "settings_exec (\<lambda>_. None) example_settings_env (ORememberFailure (cut_detail @ [CHR 0xAD])) example_service example_disk
      = (Inr v, example_service\<lparr>ss_settings := v\<rparr>, example_disk\<lparr>sd_settings := Stored (Some (settings_json v))\<rparr>)"
    by (simp add: settings_exec_def RememberWFPCompatibilityFailure_def commit_def saveLocked_def example_settings_env_def example_service_def v_def)
  have "validateSettings v = validateSettings DefaultSettings" unfolding v_def by (rule validate_wfp)
  moreover have "go_settings v"
    using utf8_settings_words by (simp add: go_settings_def go_int_def v_def DefaultSettings_def zero_settings_def)
  ultimately have g: "go_settings v" "validateSettings v = None" by (simp_all add: DefaultSettings_ok)
  have f: "utf8 ''fp''" "utf8 ''failed''" by (simp_all add: utf8_ascii byte_in_def)
  obtain loaded where l: "NewSettingsService (\<lambda>_. None) example_settings_env (example_disk\<lparr>sd_settings := Stored (Some (settings_json v))\<rparr>)
      = (inspectLegacyConfig example_settings_env \<lparr>ss_settings = loaded, ss_migration = no_migration\<rparr>,
         example_disk\<lparr>sd_settings := Stored (Some (settings_json v))\<rparr>)"
    and w: "st_WFP loaded = \<lparr>ws_Status = ''failed'', ws_Fingerprint = ''fp'', ws_Detail = take 1024 (json_text cut_detail)\<rparr>"
    and r: "loaded = v\<lparr>st_WFP := st_WFP loaded\<rparr>"
    using settings_survive_restart [OF e g(1), of "\<lambda>_. None" example_settings_env] g(2) utf8_text [OF f(1)] utf8_text [OF f(2)] by (auto simp: v_def)
  have "loaded = DefaultSettings\<lparr>st_WFP := st_WFP loaded\<rparr>" by (subst r) (simp add: v_def)
  then show ?thesis using e l w by (auto simp: v_def inspectLegacyConfig_def example_settings_env_def)
qed

theorem Update_result_witness:
  "\<exists>v s' d'. settings_Update example_settings_env example_settings example_service example_disk = (Inr v, s', d')
     \<and> validateSettings v = None \<and> st_SOCKSPort v = 2000"
  using example_Update Update_result [of example_settings_env example_settings example_service example_disk]
  by (auto simp: settings_exec_def example_settings_def)

text \<open>
  A write that fails leaves the new settings in memory: \<open>Get\<close> then returns settings that are not on disk and were reported as an error.
\<close>

theorem failed_save_keeps_new_settings:
  "\<exists>e s' d'. settings_Update (example_settings_env\<lparr>se_save := Some ''full''\<rparr>) example_settings example_service example_disk = (Inl e, s', d')
     \<and> ss_settings s' = example_settings \<and> d' = example_disk"
proof -
  have "validateSettings example_settings = None" by (rule example_settings_ok)
  moreover have "example_settings\<lparr>st_WFP := no_wfp_state, st_SelectedIDs := uniqueNonEmpty (st_SelectedIDs example_settings)\<rparr> = example_settings"
    by (simp add: example_settings_def DefaultSettings_def zero_settings_def uniqueNonEmpty_def)
  moreover have "st_WFP (ss_settings example_service) = no_wfp_state"
    by (simp add: example_service_def DefaultSettings_def zero_settings_def)
  ultimately show ?thesis by (simp add: settings_Update_def commit_def saveLocked_def)
qed

text \<open>Loading does not validate: a settings file with the same port twice is loaded as it is, although \<open>Update\<close> refuses it.\<close>

theorem reload_accepts_invalid_settings:
  "\<exists>v. repair_settings v = v \<and> validateSettings v = Some EqualPorts"
proof -
  let ?v = "DefaultSettings\<lparr>st_HTTPPort := 10800\<rparr>"
  have "repair_settings ?v = ?v \<and> validateSettings ?v = Some EqualPorts"
    by (simp add: repair_settings_def validateSettings_def DefaultSettings_def zero_settings_def repair_wfp_def no_wfp_state_def)
  then show ?thesis by blast
qed

end
