(* ===== verification/Adapters.thy ===== *)
theory Adapters
  imports Settings_Inv
begin

text \<open>
  \<open>desktop/internal/services/adapters.go\<close> and the service part of \<open>routing.go\<close>: the network adapters the application offers, and
  the operations on the routing rules that use them. The interfaces of the system, the platform's
  metadata and the file dialogs are arguments. Labels shown to the user are in English here.
\<close>

record net_interface =
  if_Name :: string
  if_Index :: int
  if_Up :: bool
  if_Loopback :: bool
  if_HardwareAddr :: string
  if_Addrs :: "string list option"

record adapter_metadata =
  md_Gateway :: string
  md_DNSServers :: "string list"
  md_Metric :: int
  md_AutoMetric :: bool

record adapter_view =
  av_ID :: string
  av_Name :: string
  av_Description :: string
  av_Address :: string
  av_PrefixLength :: int
  av_SourceIPv6 :: string
  av_IfIndex :: int
  av_IPv6IfIndex :: int
  av_Gateway :: string
  av_DNSServers :: "string list"
  av_Metric :: int
  av_AutoMetric :: bool
  av_Selected :: bool
  av_Weight :: int
  av_Kind :: string
  av_Operational :: bool

section \<open>Listing adapters\<close>

definition isHypoMuxManagedAdapter :: "string \<Rightarrow> bool" where
  "isHypoMuxManagedAdapter name \<longleftrightarrow> equal_fold (trim_space name) ''HypoMux-Tun''"

text \<open>The addresses of one interface: the first usable IPv4 address with its prefix length and the first usable IPv6 address.\<close>

definition address_step :: "string \<Rightarrow> string \<times> string \<times> int \<Rightarrow> string \<times> string \<times> int" where
  "address_step address st =
     (let (ipv4, ipv6, prefixLength) = st
      in case parse_cidr address of
           None \<Rightarrow> st
         | Some (ip, network) \<Rightarrow>
             if ip_is_loopback ip \<or> ip_is_unspecified ip then st
             else
               case to4 ip of
                 Some v \<Rightarrow>
                   if v ! 0 = 169 \<and> v ! 1 = 254 then st
                   else if ipv4 = [] then
                     (ip_string v, ipv6, if length (in_Mask network) = 4 then mask_size (in_Mask network) else prefixLength)
                   else st
               | None \<Rightarrow>
                   if \<not> ip_is_link_local_unicast ip \<and> \<not> ip_is_multicast ip \<and> ipv6 = [] then (ipv4, ip_string ip, prefixLength)
                   else st)"

definition wireless_mark :: "string list" where
  "wireless_mark = [''wi-fi'', ''wifi'', ''wlan'']"

definition chinese_wireless :: string where
  "chinese_wireless = [CHR 0xE6, CHR 0x97, CHR 0xA0, CHR 0xE7, CHR 0xBA, CHR 0xBF]"

definition adapter_kind :: "string \<Rightarrow> string" where
  "adapter_kind name =
     (if list_ex (\<lambda>m. sublist m (to_lower name)) wireless_mark \<or> sublist chinese_wireless name then ''wifi'' else ''ethernet'')"

definition view_of :: "app_settings \<Rightarrow> (int \<Rightarrow> adapter_metadata option) \<Rightarrow> net_interface \<Rightarrow> adapter_view option" where
  "view_of settings metadata item =
     (if \<not> if_Up item \<or> if_Loopback item \<or> isHypoMuxManagedAdapter (if_Name item) then None
      else
        case if_Addrs item of
          None \<Rightarrow> None
        | Some addresses \<Rightarrow>
            let (ipv4, ipv6, prefixLength) = fold address_step addresses ([], [], 0)
            in if ipv4 = [] then None
               else
                 let w = (case map_of (st_Weights settings) (if_Name item) of Some w \<Rightarrow> w | None \<Rightarrow> 0);
                     details = (case metadata (if_Index item) of
                                  Some m \<Rightarrow> m
                                | None \<Rightarrow> \<lparr>md_Gateway = [], md_DNSServers = [], md_Metric = -1, md_AutoMetric = True\<rparr>)
                 in Some \<lparr>av_ID = if_Name item, av_Name = if_Name item,
                          av_Description = (if if_HardwareAddr item = [] then ''Windows network interface'' else if_HardwareAddr item),
                          av_Address = ipv4, av_PrefixLength = prefixLength, av_SourceIPv6 = ipv6,
                          av_IfIndex = if_Index item, av_IPv6IfIndex = if_Index item, av_Gateway = md_Gateway details,
                          av_DNSServers = md_DNSServers details, av_Metric = md_Metric details, av_AutoMetric = md_AutoMetric details,
                          av_Selected = (if_Name item \<in> set (st_SelectedIDs settings)),
                          av_Weight = (if bad_weight w then AdapterWeightDefault else w),
                          av_Kind = adapter_kind (if_Name item), av_Operational = True\<rparr>)"

definition view_key :: "adapter_view \<Rightarrow> string \<times> string" where
  "view_key a = (av_Kind a, to_lower (av_Name a))"

text \<open>\<open>List\<close>; \<^const>\<open>None\<close> is the error of \<open>net.Interfaces\<close>.\<close>

definition adapter_List :: "app_settings \<Rightarrow> (int \<Rightarrow> adapter_metadata option) \<Rightarrow> net_interface list option \<Rightarrow> adapter_view list option" where
  "adapter_List settings metadata interfaces =
     map_option (\<lambda>items. sort_key view_key (List.map_filter (view_of settings metadata) items)) interfaces"

text \<open>\<open>SaveSelection\<close> (without the listing at its end): first the arguments of \<open>UpdateHome\<close>, or the name of the adapter with a bad weight.\<close>

fun selection :: "adapter_view list \<Rightarrow> string + string list \<times> (string \<times> int) list" where
  "selection [] = Inr ([], [])"
| "selection (a # as) =
     (if bad_weight (av_Weight a) then Inl (av_Name a)
      else case selection as of
             Inl e \<Rightarrow> Inl e
           | Inr (ids, weights) \<Rightarrow>
               Inr (if av_Selected a then av_ID a # ids else ids,
                    if av_ID a \<in> fst ` set weights then weights else (av_ID a, av_Weight a) # weights))"

definition SaveSelection ::
    "settings_env \<Rightarrow> string \<Rightarrow> bool \<Rightarrow> adapter_view list \<Rightarrow> settings_service \<Rightarrow> settings_disk \<Rightarrow> settings_result" where
  "SaveSelection env mode weighted adapters s d =
     (case selection adapters of
        Inl name \<Rightarrow> (Inl (BadWeight name), s, d)
      | Inr (ids, weights) \<Rightarrow> UpdateHome env mode weighted ids weights s d)"

section \<open>The routing service\<close>

definition available_outbounds :: "adapter_view list \<Rightarrow> string list" where
  "available_outbounds adapters =
     [''aggregation'', ''direct''] @ map (\<lambda>a. ''nic_'' @ av_ID a) (filter (\<lambda>a. av_Selected a \<and> av_Operational a) adapters)"

definition validateRoutingOutbounds :: "routing_rule list \<Rightarrow> adapter_view list \<Rightarrow> routing_error option" where
  "validateRoutingOutbounds rules adapters =
     map_option (\<lambda>(i, r). UnavailableOutbound (i + 1) (rr_Outbound r))
       (find (\<lambda>(i, r). rr_Outbound r \<notin> set (available_outbounds adapters)) (enumerate 0 rules))"

datatype service_error = RoutingFailed routing_error | RuleFailed rule_error | SettingsFailed settings_error | ListFailed | DuplicateRule | DialogFailed | FileFailed

definition validateSelectedOutbounds :: "adapter_view list option \<Rightarrow> routing_rule list \<Rightarrow> service_error option" where
  "validateSelectedOutbounds adapters rules =
     (case adapters of
        None \<Rightarrow> Some ListFailed
      | Some as \<Rightarrow> map_option RoutingFailed (validateRoutingOutbounds rules as))"

record outbound =
  ob_ID :: string
  ob_Label :: string

definition availableOutbounds :: "adapter_view list option \<Rightarrow> outbound list" where
  "availableOutbounds adapters =
     [\<lparr>ob_ID = ''aggregation'', ob_Label = ''aggregation''\<rparr>, \<lparr>ob_ID = ''direct'', ob_Label = ''direct''\<rparr>]
     @ (case adapters of
          None \<Rightarrow> []
        | Some as \<Rightarrow> map (\<lambda>a. \<lparr>ob_ID = ''nic_'' @ av_ID a, ob_Label = av_Name a\<rparr>) (filter av_Selected as))"

definition routing_Snapshot ::
    "(string \<Rightarrow> string option) \<Rightarrow> app_settings \<Rightarrow> adapter_view list option \<Rightarrow> routing_rule list \<times> outbound list" where
  "routing_Snapshot idna settings adapters = (normalizeRules idna (st_Rules settings), availableOutbounds adapters)"

definition routing_Validate ::
    "(string \<Rightarrow> string option) \<Rightarrow> adapter_view list option \<Rightarrow> routing_rule \<Rightarrow> routing_rule list \<Rightarrow> service_error + routing_rule" where
  "routing_Validate idna adapters rule existing =
     (case normalizeRule idna rule of
        Inl e \<Rightarrow> Inl (RuleFailed e)
      | Inr normalized \<Rightarrow>
          (case validateSelectedOutbounds adapters [normalized] of
             Some e \<Rightarrow> Inl e
           | None \<Rightarrow>
               if list_ex (\<lambda>c. case normalizeRule idna c of Inl _ \<Rightarrow> False | Inr v \<Rightarrow> ruleIdentity v = ruleIdentity normalized) existing
               then Inl DuplicateRule else Inr normalized))"

definition routing_Save ::
    "(string \<Rightarrow> string option) \<Rightarrow> settings_env \<Rightarrow> adapter_view list option \<Rightarrow> routing_rule list \<Rightarrow> settings_service \<Rightarrow> settings_disk
       \<Rightarrow> (service_error + routing_rule list \<times> outbound list) \<times> settings_service \<times> settings_disk" where
  "routing_Save idna env adapters rules s d =
     (case normalizeRulesStrict idna rules of
        Inl e \<Rightarrow> (Inl (RoutingFailed e), s, d)
      | Inr normalized \<Rightarrow>
          (case validateSelectedOutbounds adapters normalized of
             Some e \<Rightarrow> (Inl e, s, d)
           | None \<Rightarrow>
               (case saveRoutingRules env normalized s d of
                  (Inl e, s, d) \<Rightarrow> (Inl (SettingsFailed e), s, d)
                | (Inr _, s, d) \<Rightarrow> (Inr (routing_Snapshot idna (settings_Get env s) adapters), s, d))))"

text \<open>\<open>Import\<close>: the dialog gives an error, no path, or a path whose file may be unreadable; nothing is saved.\<close>

definition routing_Import ::
    "(string \<Rightarrow> string option) \<Rightarrow> (string \<Rightarrow> json option) \<Rightarrow> string option \<Rightarrow> (string \<Rightarrow> string option) \<Rightarrow> app_settings \<Rightarrow> adapter_view list option
       \<Rightarrow> service_error + routing_rule list \<times> outbound list" where
  "routing_Import idna parse dialog read_file settings adapters =
     (case dialog of
        None \<Rightarrow> Inl DialogFailed
      | Some path \<Rightarrow>
          if path = [] then Inr (routing_Snapshot idna settings adapters)
          else
            case read_file path of
              None \<Rightarrow> Inl FileFailed
            | Some data \<Rightarrow>
                (case parseRoutingBackup idna parse data of
                   Inl e \<Rightarrow> Inl (RoutingFailed e)
                 | Inr rules \<Rightarrow> Inr (rules, availableOutbounds adapters)))"

text \<open>\<open>Export\<close>: the path and the document written there, if any. \<open>has_ext\<close> is \<open>filepath.Ext\<close> giving a non-empty extension.\<close>

definition routing_Export ::
    "(string \<Rightarrow> string option) \<Rightarrow> string option \<Rightarrow> (string \<Rightarrow> bool) \<Rightarrow> (string \<Rightarrow> bool) \<Rightarrow> string \<Rightarrow> routing_rule list
       \<Rightarrow> service_error + (string \<times> json) option" where
  "routing_Export idna dialog has_ext write_ok at rules =
     (case normalizeRulesStrict idna rules of
        Inl e \<Rightarrow> Inl (RoutingFailed e)
      | Inr normalized \<Rightarrow>
          (case dialog of
             None \<Rightarrow> Inl DialogFailed
           | Some path \<Rightarrow>
               if path = [] then Inr None
               else
                 let path = (if has_ext path then path else path @ ''.json'')
                 in if write_ok path then Inr (Some (path, export_json at normalized)) else Inl FileFailed))"

section \<open>Properties of the list\<close>

text \<open>An address an adapter may use as its source.\<close>

definition usable_source :: "string \<Rightarrow> string \<Rightarrow> bool" where
  "usable_source address text \<longleftrightarrow>
     (\<exists>ip network v. parse_cidr address = Some (ip, network) \<and> to4 ip = Some v \<and> text = ip_string v
        \<and> \<not> ip_is_loopback ip \<and> \<not> ip_is_unspecified ip \<and> \<not> (v ! 0 = 169 \<and> v ! 1 = 254))"

lemma address_fold:
  assumes "fold address_step addresses (v4, v6, p) = (v4', v6', p')"
  shows "v4' = v4 \<or> (\<exists>address \<in> set addresses. usable_source address v4')"
  using assms
proof (induction addresses arbitrary: v4 v6 p)
  case (Cons a as)
  obtain x y q where st: "address_step a (v4, v6, p) = (x, y, q)" by (metis prod_cases3)
  then have "x = v4 \<or> usable_source a x"
    by (auto simp: address_step_def usable_source_def split: option.splits if_splits)
  with Cons.IH [of x y q] Cons.prems st show ?case by auto
qed simp

lemma view_of_Some:
  assumes "view_of settings metadata item = Some a"
  shows "if_Up item \<and> \<not> if_Loopback item \<and> \<not> isHypoMuxManagedAdapter (if_Name item) \<and> av_ID a = if_Name item \<and> av_Name a = if_Name item
     \<and> 1 \<le> av_Weight a \<and> av_Weight a \<le> 100 \<and> (av_Selected a \<longleftrightarrow> av_ID a \<in> set (st_SelectedIDs settings)) \<and> av_Operational a
     \<and> (\<exists>addresses. if_Addrs item = Some addresses \<and> (\<exists>address \<in> set addresses. usable_source address (av_Address a)))"
proof -
  have g: "if_Up item" "\<not> if_Loopback item" "\<not> isHypoMuxManagedAdapter (if_Name item)"
    using assms by (auto simp: view_of_def split: if_splits)
  with assms obtain addresses where ad: "if_Addrs item = Some addresses" by (auto simp: view_of_def split: option.splits)
  obtain v4 v6 p where f: "fold address_step addresses ([], [], 0) = (v4, v6, p)" by (metis prod_cases3)
  define w where "w = (case map_of (st_Weights settings) (if_Name item) of Some w \<Rightarrow> w | None \<Rightarrow> 0)"
  have wb: "1 \<le> (if bad_weight w then AdapterWeightDefault else w) \<and> (if bad_weight w then AdapterWeightDefault else w) \<le> 100"
    by (simp add: bad_weight_def AdapterWeightDefault_def AdapterWeightMin_def AdapterWeightMax_def)
  have ne: "v4 \<noteq> []" and a: "av_ID a = if_Name item" "av_Name a = if_Name item" "av_Address a = v4" "av_Operational a"
    "av_Weight a = (if bad_weight w then AdapterWeightDefault else w)" "av_Selected a \<longleftrightarrow> if_Name item \<in> set (st_SelectedIDs settings)"
    using assms g unfolding view_of_def ad f w_def [symmetric] by (auto simp: Let_def f split: if_splits)
  from address_fold [OF f] ne have "\<exists>address \<in> set addresses. usable_source address v4" by auto
  with a g ad wb show ?thesis by simp
qed

lemma map_filter_names:
  assumes "\<And>x y. f x = Some y \<Longrightarrow> g y = h x" "distinct (map h xs)"
  shows "distinct (map g (List.map_filter f xs))"
proof -
  have "map g (List.map_filter f xs) = map h (filter (\<lambda>x. f x \<noteq> None) xs)"
    using assms(1) by (induction xs) (auto simp: List.map_filter_def)
  then show ?thesis using assms(2) by (simp add: distinct_map_filter)
qed

text \<open>
  The adapters offered are interfaces that are up, are not loopback and not the tunnel of the application itself, each with an IPv4 address of
  its own that is neither loopback, unspecified nor link-local; the weights are in range, the selection is that of the
  settings, the order is by kind and name, and no id occurs twice when the system's names are distinct.
\<close>

theorem adapter_List_sound:
  assumes "adapter_List settings metadata (Some items) = Some out"
  shows "(\<forall>a \<in> set out. 1 \<le> av_Weight a \<and> av_Weight a \<le> 100 \<and> (av_Selected a \<longleftrightarrow> av_ID a \<in> set (st_SelectedIDs settings))
            \<and> (\<exists>item \<in> set items. if_Name item = av_ID a \<and> if_Up item \<and> \<not> if_Loopback item \<and> \<not> isHypoMuxManagedAdapter (av_ID a)
                 \<and> (\<exists>addresses. if_Addrs item = Some addresses \<and> (\<exists>address \<in> set addresses. usable_source address (av_Address a)))))
       \<and> sorted (map view_key out)
       \<and> (distinct (map if_Name items) \<longrightarrow> distinct (map av_ID out))"
proof -
  have out: "out = sort_key view_key (List.map_filter (view_of settings metadata) items)" using assms by (simp add: adapter_List_def)
  have "\<exists>item \<in> set items. view_of settings metadata item = Some a" if "a \<in> set out" for a
    using that by (auto simp: out List.map_filter_def)
  moreover have "distinct (map av_ID out)" if "distinct (map if_Name items)"
  proof -
    have "distinct (map av_ID (List.map_filter (view_of settings metadata) items))"
      using that by (rule map_filter_names [rotated]) (auto dest: view_of_Some)
    then show ?thesis by (simp add: out distinct_map)
  qed
  ultimately show ?thesis using view_of_Some by (auto simp: out) (metis view_of_Some)+
qed

section \<open>Properties of the routing service\<close>

lemma validateRoutingOutbounds_None:
  "validateRoutingOutbounds rules adapters = None \<longleftrightarrow> (\<forall>r \<in> set rules. rr_Outbound r \<in> set (available_outbounds adapters))"
proof -
  have "set rules = snd ` set (enumerate 0 rules)" by (simp flip: list.set_map)
  then show ?thesis
    by (auto simp: validateRoutingOutbounds_def find_None_iff split_beta)
qed

text \<open>
  What the routing page saves can be used: after a successful save the stored rules are the canonical list of the submitted ones, every
  rule leads to the aggregation, to the direct exit or to an adapter that is selected and working, and the stored list
  is on disk. A refused save changes nothing, unless it was the write that failed.
\<close>

theorem routing_Save_usable:
  assumes "routing_Save idna env adapters rules s d = (res, s', d')"
  shows "(\<not> isl res \<longrightarrow> st_Rules (ss_settings s') = normalizeRules idna rules
            \<and> sd_settings d' = Stored (Some (settings_json (ss_settings s')))
            \<and> (\<exists>as. adapters = Some as \<and> (\<forall>r \<in> set (st_Rules (ss_settings s')). rr_Outbound r \<in> {''aggregation'', ''direct''}
                 \<or> (\<exists>a \<in> set as. rr_Outbound r = ''nic_'' @ av_ID a \<and> av_Selected a \<and> av_Operational a))))
       \<and> (isl res \<longrightarrow> d' = d \<and> (se_save env = None \<longrightarrow> s' = s))"
proof (cases "normalizeRulesStrict idna rules")
  case (Inl e)
  then show ?thesis using assms by (auto simp: routing_Save_def)
next
  case (Inr n)
  then have n: "n = normalizeRules idna rules" by (auto simp: normalizeRulesStrict_eq split: option.splits)
  show ?thesis
  proof (cases "validateSelectedOutbounds adapters n")
    case (Some e)
    then show ?thesis using assms Inr by (auto simp: routing_Save_def)
  next
    case None
    then obtain as where as: "adapters = Some as" "\<forall>r \<in> set n. rr_Outbound r \<in> set (available_outbounds as)"
      by (auto simp: validateSelectedOutbounds_def validateRoutingOutbounds_None split: option.splits)
    show ?thesis
      using assms Inr None as(2)
      by (auto simp: routing_Save_def saveRoutingRules_def commit_def saveLocked_def as(1) available_outbounds_def
          simp flip: n split: option.splits)
  qed
qed

text \<open>A rule that \<open>Validate\<close> accepts is new: with it the list has one more rule.\<close>

lemma routing_Validate_new:
  assumes "routing_Validate idna adapters rule existing = Inr r"
  shows "r \<notin> set (normalizeRules idna existing)" "r \<in> set (normalizeRules idna (existing @ [rule]))"
proof -
  have n: "normalizeRule idna rule = Inr r" and new: "\<forall>c \<in> set existing. \<forall>v. normalizeRule idna c = Inr v \<longrightarrow> ruleIdentity v \<noteq> ruleIdentity r"
    using assms by (auto simp: routing_Validate_def list_ex_iff split: sum.splits option.splits if_splits)
  show "r \<notin> set (normalizeRules idna existing)" using normalizeRules_normal [of r idna existing] new by blast
  have v: "valid_rules idna (existing @ [rule]) = valid_rules idna existing @ [r]"
    using n by (simp add: valid_rules_def List.map_filter_def)
  have "find (\<lambda>q. ruleIdentity q = ruleIdentity r) (valid_rules idna existing) = None"
    using new by (auto simp: find_None_iff valid_rules_set)
  moreover have "find P (xs @ [r]) = (case find P xs of None \<Rightarrow> if P r then Some r else None | Some x \<Rightarrow> Some x)" for P xs
    by (induction xs) auto
  ultimately show "r \<in> set (normalizeRules idna (existing @ [rule]))"
    by (simp add: normalizeRules_set v)
qed

section \<open>Examples\<close>

definition example_interfaces :: "net_interface list" where
  "example_interfaces =
     [\<lparr>if_Name = ''lo'', if_Index = 1, if_Up = True, if_Loopback = True, if_HardwareAddr = [], if_Addrs = Some [''127.0.0.1/8'']\<rparr>,
      \<lparr>if_Name = ''eth'', if_Index = 2, if_Up = True, if_Loopback = False, if_HardwareAddr = ''02:00'',
       if_Addrs = Some [''169.254.1.1/16'', ''10.0.0.2/24'']\<rparr>]"

definition example_selection :: app_settings where
  "example_selection = DefaultSettings\<lparr>st_SelectedIDs := [''eth'']\<rparr>"

definition example_adapters :: "adapter_view list" where
  "example_adapters = the (adapter_List example_selection (\<lambda>_. None) (Some example_interfaces))"

lemma example_adapters_eval:
  "adapter_List example_selection (\<lambda>_. None) (Some example_interfaces) = Some example_adapters"
  "map (\<lambda>a. (av_ID a, av_Address a, av_PrefixLength a)) example_adapters = [(''eth'', ''10.0.0.2'', 24)]"
proof -
  show "adapter_List example_selection (\<lambda>_. None) (Some example_interfaces) = Some example_adapters"
    by (simp add: example_adapters_def adapter_List_def)
  have "fold address_step [''169.254.1.1/16'', ''10.0.0.2/24''] ([], [], 0) = (''10.0.0.2'', [], 24)" by code_simp
  moreover have "\<not> isHypoMuxManagedAdapter ''eth''" by code_simp
  ultimately show "map (\<lambda>a. (av_ID a, av_Address a, av_PrefixLength a)) example_adapters = [(''eth'', ''10.0.0.2'', 24)]"
    by (simp add: example_adapters_def adapter_List_def example_interfaces_def view_of_def List.map_filter_def Let_def)
qed

theorem adapter_List_sound_witness:
  "map av_Address example_adapters = [''10.0.0.2''] \<and> (\<forall>a \<in> set example_adapters. av_Selected a \<and> av_Weight a \<le> 100)"
proof -
  have m: "map av_ID example_adapters = [''eth'']" "map av_Address example_adapters = [''10.0.0.2'']"
    using arg_cong [OF example_adapters_eval(2), of "map fst"] arg_cong [OF example_adapters_eval(2), of "map (fst \<circ> snd)"]
    by (simp_all add: comp_def)
  then obtain a where a: "example_adapters = [a]" "av_ID a = ''eth''" by auto
  have "a \<in> set example_adapters" by (simp add: a(1))
  with adapter_List_sound [OF example_adapters_eval(1)]
  have "av_Weight a \<le> 100" "av_Selected a \<longleftrightarrow> av_ID a \<in> set (st_SelectedIDs example_selection)" by blast+
  with a(2) m(2) show ?thesis unfolding a(1) by (simp add: example_selection_def)
qed

lemma example_adapters_usable: "available_outbounds example_adapters = [''aggregation'', ''direct'', ''nic_eth'']"
proof -
  have "map av_ID example_adapters = [''eth'']"
    using arg_cong [OF example_adapters_eval(2), of "map fst"] by (simp add: comp_def)
  then obtain a where a: "example_adapters = [a]" "av_ID a = ''eth''" by auto
  moreover have "\<exists>item. view_of example_selection (\<lambda>_. None) item = Some a"
  proof -
    have "a \<in> set (List.map_filter (view_of example_selection (\<lambda>_. None)) example_interfaces)"
      using a(1) example_adapters_eval(1) by (metis (no_types, lifting) adapter_List_def list.set_intros(1) option.inject option.simps(9) set_sort)
    then show ?thesis by (auto simp: List.map_filter_def)
  qed
  ultimately have "av_Selected a" "av_Operational a" using view_of_Some [of example_selection] by (auto simp: example_selection_def)
  with a(2) show ?thesis unfolding available_outbounds_def a(1) by simp
qed

theorem routing_Save_usable_witness:
  "\<exists>view s' d'. routing_Save example_idna example_settings_env (Some example_adapters) example_rules example_service example_disk = (Inr view, s', d')
     \<and> map rr_Outbound (st_Rules (ss_settings s')) = [''aggregation'', ''nic_eth'', ''direct'']
     \<and> sd_settings d' = Stored (Some (settings_json (ss_settings s')))"
proof -
  let ?run = "routing_Save example_idna example_settings_env (Some example_adapters) example_rules example_service example_disk"
  obtain res s' d' where r: "?run = (res, s', d')" by (metis prod_cases3)
  have "validateRoutingOutbounds (normalizeRules example_idna example_rules) example_adapters = None"
    unfolding validateRoutingOutbounds_None example_normalized example_adapters_usable by (simp add: example_loop_rules_def)
  then have "\<not> isl (fst ?run)"
    by (simp add: routing_Save_def example_strict validateSelectedOutbounds_def saveRoutingRules_def commit_def saveLocked_def
        example_settings_env_def)
  then obtain view where "res = Inr view" using r by (cases res) auto
  with routing_Save_usable [OF r] r example_normalized show ?thesis by (auto simp: example_loop_rules_def)
qed

end
