(* ===== verification/Tun_Config.thy ===== *)
theory Tun_Config
  imports Adapters Proxy_Config
begin

text \<open>
  \<open>desktop/internal/services/tun_config.go\<close> with \<open>engineAdapters\<close> and \<open>engineChannels\<close> of \<open>engine.go\<close>: the channels the desktop asks
  the engine for, and the configuration it writes for the TUN sidecar from the endpoints it gets. The
  configuration is a JSON tree. Paths, the reserved control port and the outcome of writing
  the file are arguments.
\<close>

section \<open>Channels\<close>

definition engineAdapters :: "adapter_view list \<Rightarrow> adapter list" where
  "engineAdapters adapters =
     map (\<lambda>a. \<lparr>ad_Name = av_Name a, ad_SourceIP = av_Address a, ad_IfIndex = av_IfIndex a, ad_SourceIPv6 = av_SourceIPv6 a,
              ad_IPv6IfIndex = av_IPv6IfIndex a, ad_Weight = av_Weight a, ad_DNSServers = av_DNSServers a\<rparr>) adapters"

definition channel_names :: "adapter_view list \<Rightarrow> string list \<times> string list \<times> string list" where
  "channel_names adapters =
     (let all = map av_Name adapters;
          wireless = map av_Name (filter (\<lambda>a. av_Kind a = ''wifi'') adapters);
          wired = map av_Name (filter (\<lambda>a. av_Kind a \<noteq> ''wifi'') adapters)
      in (all, if wired = [] then all else wired, if wireless = [] then all else wireless))"

definition engineChannels :: "adapter_view list \<Rightarrow> channel list" where
  "engineChannels adapters =
     (let (all, wired, wireless) = channel_names adapters
      in [\<lparr>chn_Name = ''nic_ethernet'', chn_Port = 0, chn_AdapterNames = wired\<rparr>,
          \<lparr>chn_Name = ''nic_wifi'', chn_Port = 0, chn_AdapterNames = wireless\<rparr>,
          \<lparr>chn_Name = ''aggregation'', chn_Port = 0, chn_AdapterNames = all\<rparr>,
          \<lparr>chn_Name = ''direct'', chn_Port = 0, chn_AdapterNames = []\<rparr>]
         @ map (\<lambda>a. \<lparr>chn_Name = ''nic_'' @ av_Name a, chn_Port = 0, chn_AdapterNames = [av_Name a]\<rparr>) adapters)"

section \<open>Endpoints\<close>

type_synonym endpoints = "(string \<times> string) list"

definition endpoint_of :: "endpoints \<Rightarrow> string \<Rightarrow> string" where
  "endpoint_of endpoints name = (case map_of endpoints name of Some e \<Rightarrow> e | None \<Rightarrow> [])"

datatype sing_error =
    NoSuchChannel string
  | UnsafeChannel string
  | InvalidDoHEndpoint
  | InvalidEndpoint
  | MissingSingBox
  | NoClashAPI
  | WriteFailed

definition loopbackPort :: "endpoints \<Rightarrow> string \<Rightarrow> sing_error + int" where
  "loopbackPort endpoints name =
     (case split_host_port (endpoint_of endpoints name) of
        None \<Rightarrow> Inl (NoSuchChannel name)
      | Some (host, portText) \<Rightarrow>
          (case atoi portText of
             None \<Rightarrow> Inl (UnsafeChannel name)
           | Some port \<Rightarrow>
               if port < 1 \<or> port > 65535 \<or> (host \<noteq> ''127.0.0.1'' \<and> host \<noteq> ''localhost'') then Inl (UnsafeChannel name)
               else Inr port))"

definition splitEndpoint :: "string \<Rightarrow> int \<Rightarrow> sing_error + string \<times> int" where
  "splitEndpoint value defaultPort =
     (case split_host_port value of
        Some (host, portText) \<Rightarrow>
          (case atoi portText of
             None \<Rightarrow> Inl InvalidEndpoint
           | Some port \<Rightarrow> if port < 1 \<or> port > 65535 then Inl InvalidEndpoint else Inr (host, port))
      | None \<Rightarrow> if parse_ip value \<noteq> None \<or> CHR '':'' \<notin> set value then Inr (value, defaultPort) else Inl InvalidEndpoint)"

definition json_strings :: "string list \<Rightarrow> json" where "json_strings xs = JArr (map JStr xs)"

definition socksOutbound :: "string \<Rightarrow> int \<Rightarrow> json" where
  "socksOutbound tag port =
     JObj [(''type'', JStr ''socks''), (''tag'', JStr tag), (''server'', JStr ''127.0.0.1''), (''server_port'', json_int port),
           (''version'', JStr ''5'')]"

record dns_answer =
  da_Transport :: string
  da_Server :: string

definition buildDNSUpstream :: "adapter_view \<Rightarrow> dns_answer \<Rightarrow> sing_error + json" where
  "buildDNSUpstream adapter result =
     (if equal_fold (da_Transport result) ''doh'' then
        (let parts = split_n 2 CHR ''@'' (da_Server result)
         in if length parts \<noteq> 2 \<or> parts ! 0 = [] then Inl InvalidDoHEndpoint
            else case splitEndpoint (parts ! 1) 443 of
                   Inl e \<Rightarrow> Inl e
                 | Inr (host, port) \<Rightarrow>
                     Inr (JObj [(''type'', JStr ''https''), (''tag'', JStr ''dns-local''), (''server'', JStr host),
                       (''server_port'', json_int port), (''path'', JStr ''/dns-query''),
                       (''tls'', JObj [(''enabled'', JBool True), (''server_name'', JStr (parts ! 0))]),
                       (''bind_interface'', JStr (av_Name adapter)), (''inet4_bind_address'', JStr (av_Address adapter))]))
      else case splitEndpoint (da_Server result) 53 of
             Inl e \<Rightarrow> Inl e
           | Inr (host, port) \<Rightarrow>
               Inr (JObj [(''type'', JStr ''udp''), (''tag'', JStr ''dns-local''), (''server'', JStr host),
                 (''server_port'', json_int port), (''bind_interface'', JStr (av_Name adapter)),
                 (''inet4_bind_address'', JStr (av_Address adapter))]))"

section \<open>The configuration\<close>

record compatibility_plan =
  cp_ProcessNames :: "string list"
  cp_ProcessPaths :: "string list"

definition direct_processes :: "string \<Rightarrow> string list \<Rightarrow> json" where
  "direct_processes key xs = JObj [(key, json_strings xs), (''outbound'', JStr ''system-direct'')]"

text \<open>The rules that keep the application's own traffic out of the tunnel, and those of other proxies.\<close>

definition own_rules :: "string list \<Rightarrow> compatibility_plan \<Rightarrow> json list" where
  "own_rules processPaths compatibility =
     [direct_processes ''process_path'' processPaths,
      direct_processes ''process_name'' [''HypoMux.exe'', ''hypomux-engine.exe'', ''sing-box.exe'']]
     @ (if cp_ProcessPaths compatibility \<noteq> [] then [direct_processes ''process_path'' (cp_ProcessPaths compatibility)] else [])
     @ (if cp_ProcessNames compatibility \<noteq> [] then [direct_processes ''process_name'' (cp_ProcessNames compatibility)] else [])"

definition dns_rules :: "json list" where
  "dns_rules =
     [JObj [(''port'', JArr [json_int 53]), (''action'', JStr ''hijack-dns'')],
      JObj [(''protocol'', json_strings [''dns'']), (''action'', JStr ''hijack-dns'')],
      JObj [(''action'', JStr ''resolve''), (''server'', JStr ''dns-local''), (''strategy'', JStr ''prefer_ipv4'')]]"

definition user_rule :: "routing_rule \<Rightarrow> json option" where
  "user_rule rule =
     (if rr_MatchType rule = MatchProcess then
        Some (JObj [(''outbound'', JStr (rr_Outbound rule)), (''process_name'', json_strings [rr_Value rule])])
      else if rr_MatchType rule = MatchDomain then
        Some (JObj [(''outbound'', JStr (rr_Outbound rule)), (''domain'', json_strings [rr_Value rule]),
                    (''domain_suffix'', json_strings [''.'' @ trim_prefix (rr_Value rule) ''.''])])
      else if rr_MatchType rule = MatchIP then
        Some (JObj [(''outbound'', JStr (rr_Outbound rule)), (''ip_cidr'', json_strings [rr_Value rule])])
      else None)"

definition route_rules :: "string list \<Rightarrow> compatibility_plan \<Rightarrow> routing_rule list \<Rightarrow> json list" where
  "route_rules processPaths compatibility rules =
     JObj [(''action'', JStr ''sniff''), (''timeout'', JStr ''300ms'')] # own_rules processPaths compatibility @ dns_rules
     @ List.map_filter user_rule rules"

definition builtin_endpoint :: "string \<Rightarrow> bool" where
  "builtin_endpoint name \<longleftrightarrow> name = ''nic_ethernet'' \<or> name = ''nic_wifi'' \<or> name = ''aggregation'' \<or> name = ''direct''"

fun adapter_outbounds :: "endpoints \<Rightarrow> endpoints \<Rightarrow> sing_error + json list" where
  "adapter_outbounds endpoints [] = Inr []"
| "adapter_outbounds endpoints ((name, endpoint) # es) =
     (if builtin_endpoint name \<or> \<not> has_prefix name ''nic_'' then adapter_outbounds endpoints es
      else case loopbackPort endpoints name of
             Inl e \<Rightarrow> Inl e
           | Inr port \<Rightarrow> map_sum id ((#) (socksOutbound name port)) (adapter_outbounds endpoints es))"

definition direct_outbound :: "endpoints \<Rightarrow> json" where
  "direct_outbound endpoints =
     (case loopbackPort endpoints ''direct'' of
        Inr port \<Rightarrow> socksOutbound ''direct'' port
      | Inl _ \<Rightarrow> JObj [(''type'', JStr ''direct''), (''tag'', JStr ''direct'')])"

definition sing_box_json :: "json \<Rightarrow> json list \<Rightarrow> json list \<Rightarrow> bool \<Rightarrow> string \<times> string \<Rightarrow> json" where
  "sing_box_json upstream outbounds rules strictRoute clash = JObj
     [(''log'', JObj [(''level'', JStr ''warn''), (''timestamp'', JBool True)]),
      (''dns'', JObj
         [(''servers'', JArr [upstream,
             JObj [(''type'', JStr ''fakeip''), (''tag'', JStr ''dns-fakeip''), (''inet4_range'', JStr ''198.18.0.0/15''),
                   (''inet6_range'', JStr ''fc00::/18'')]]),
          (''rules'', JArr [JObj [(''query_type'', json_strings [''A'', ''AAAA'']), (''server'', JStr ''dns-fakeip'')]]),
          (''final'', JStr ''dns-local''), (''reverse_mapping'', JBool True)]),
      (''inbounds'', JArr [JObj
         [(''type'', JStr ''tun''), (''tag'', JStr ''tun-in''), (''interface_name'', JStr ''HypoMux-Tun''),
          (''address'', json_strings [''172.19.0.1/30'', ''fdfe:dcba:9876::1/126'']), (''mtu'', json_int 1492),
          (''auto_route'', JBool True), (''strict_route'', JBool strictRoute), (''stack'', JStr ''system'')]]),
      (''outbounds'', JArr outbounds),
      (''route'', JObj
         [(''auto_detect_interface'', JBool True), (''default_domain_resolver'', JStr ''dns-local''), (''find_process'', JBool True),
          (''final'', JStr ''aggregation''), (''rules'', JArr rules)]),
      (''experimental'', JObj
         [(''clash_api'', JObj [(''external_controller'', JStr (fst clash)), (''secret'', JStr (snd clash))])])]"

record config_env =
  cv_singBox :: "string option"
  cv_clash :: "(string \<times> string) option"
  cv_selfPath :: string
  cv_enginePath :: string
  cv_abs :: "string \<Rightarrow> string option"
  cv_written :: bool

definition process_paths :: "config_env \<Rightarrow> string \<Rightarrow> string list" where
  "process_paths env singBox =
     List.map_filter (\<lambda>c. if c = [] then None else cv_abs env c) [cv_selfPath env, cv_enginePath env, singBox]"

text \<open>\<open>writeSingBoxConfig\<close>: the executable, the control endpoint and the configuration written.\<close>

definition writeSingBoxConfig ::
    "config_env \<Rightarrow> endpoints \<Rightarrow> adapter_view \<Rightarrow> dns_answer \<Rightarrow> routing_rule list \<Rightarrow> compatibility_plan \<Rightarrow> bool
       \<Rightarrow> sing_error + string \<times> (string \<times> string) \<times> json" where
  "writeSingBoxConfig env endpoints dnsAdapter dnsResult rules compatibility strictRoute =
     (case loopbackPort endpoints ''nic_ethernet'' of Inl e \<Rightarrow> Inl e | Inr ethernetPort \<Rightarrow>
      (case loopbackPort endpoints ''nic_wifi'' of Inl e \<Rightarrow> Inl e | Inr wifiPort \<Rightarrow>
       (case loopbackPort endpoints ''aggregation'' of Inl e \<Rightarrow> Inl e | Inr aggregationPort \<Rightarrow>
        (case buildDNSUpstream dnsAdapter dnsResult of Inl e \<Rightarrow> Inl e | Inr upstream \<Rightarrow>
         (case cv_singBox env of None \<Rightarrow> Inl MissingSingBox | Some singBox \<Rightarrow>
          (case cv_clash env of None \<Rightarrow> Inl NoClashAPI | Some clash \<Rightarrow>
           (case adapter_outbounds endpoints endpoints of Inl e \<Rightarrow> Inl e | Inr extra \<Rightarrow>
              (let outbounds =
                     [socksOutbound ''nic_ethernet'' ethernetPort, socksOutbound ''nic_wifi'' wifiPort,
                      socksOutbound ''aggregation'' aggregationPort, direct_outbound endpoints,
                      JObj [(''type'', JStr ''direct''), (''tag'', JStr ''system-direct'')]] @ extra;
                   config = sing_box_json upstream outbounds (route_rules (process_paths env singBox) compatibility rules)
                              strictRoute clash
               in if cv_written env then Inr (singBox, clash, config) else Inl WriteFailed))))))))"

section \<open>Properties of the configuration\<close>

definition jfield :: "string \<Rightarrow> json \<Rightarrow> json option" where
  "jfield k v = (case v of JObj kvs \<Rightarrow> map_of kvs k | _ \<Rightarrow> None)"

definition jlist :: "json option \<Rightarrow> json list" where
  "jlist v = (case v of Some (JArr xs) \<Rightarrow> xs | _ \<Rightarrow> [])"

definition jtexts :: "string \<Rightarrow> json list \<Rightarrow> string list" where
  "jtexts k vs = List.map_filter (\<lambda>v. case jfield k v of Some (JStr s) \<Rightarrow> Some s | _ \<Rightarrow> None) vs"

definition config_outbounds :: "json \<Rightarrow> json list" where
  "config_outbounds c = jlist (jfield ''outbounds'' c)"

definition config_rules :: "json \<Rightarrow> json list" where
  "config_rules c = jlist (Option.bind (jfield ''route'' c) (jfield ''rules''))"

text \<open>The exits a configuration defines, and those it uses: in its rules and as its default.\<close>

definition config_tags :: "json \<Rightarrow> string list" where
  "config_tags c = jtexts ''tag'' (config_outbounds c)"

definition config_refs :: "json \<Rightarrow> string list" where
  "config_refs c = jtexts ''final'' (case jfield ''route'' c of Some r \<Rightarrow> [r] | None \<Rightarrow> []) @ jtexts ''outbound'' (config_rules c)"

lemma jtexts_simps [simp]:
  "jtexts k [] = []" "jtexts k (v # vs) = (case jfield k v of Some (JStr s) \<Rightarrow> [s] | _ \<Rightarrow> []) @ jtexts k vs"
  "jtexts k (xs @ ys) = jtexts k xs @ jtexts k ys"
  by (simp_all add: jtexts_def List.map_filter_def split: option.split json.split)

lemma sing_box_parts:
  "config_outbounds (sing_box_json u obs rs st cl) = obs" "config_rules (sing_box_json u obs rs st cl) = rs"
  "config_refs (sing_box_json u obs rs st cl) = ''aggregation'' # jtexts ''outbound'' rs"
  by (simp_all add: sing_box_json_def config_outbounds_def config_rules_def config_refs_def jfield_def jlist_def)

definition safe_outbound :: "json \<Rightarrow> bool" where
  "safe_outbound v \<longleftrightarrow>
     (\<exists>tag port. v = socksOutbound tag port \<and> 1 \<le> port \<and> port \<le> 65535)
     \<or> v = JObj [(''type'', JStr ''direct''), (''tag'', JStr ''direct'')]
     \<or> v = JObj [(''type'', JStr ''direct''), (''tag'', JStr ''system-direct'')]"

lemma loopbackPort_range: "loopbackPort endpoints name = Inr port \<Longrightarrow> 1 \<le> port \<and> port \<le> 65535"
  by (auto simp: loopbackPort_def split: option.splits prod.splits if_splits)

lemma socks_tag [simp]: "jfield ''tag'' (socksOutbound tag port) = Some (JStr tag)"
  by (simp add: jfield_def socksOutbound_def)

lemma direct_outbound_tag [simp]: "jfield ''tag'' (direct_outbound endpoints) = Some (JStr ''direct'')" "safe_outbound (direct_outbound endpoints)"
  subgoal by (simp add: direct_outbound_def split: sum.split) (simp add: jfield_def)
  subgoal by (auto simp: direct_outbound_def safe_outbound_def dest: loopbackPort_range split: sum.split)
  done

lemma safe_socks: "1 \<le> port \<Longrightarrow> port \<le> 65535 \<Longrightarrow> safe_outbound (socksOutbound tag port)"
  by (auto simp: safe_outbound_def)

lemma adapter_outbounds_tags:
  assumes "adapter_outbounds endpoints es = Inr obs"
  shows "set (jtexts ''tag'' obs) = {n \<in> fst ` set es. \<not> builtin_endpoint n \<and> has_prefix n ''nic_''}" "list_all safe_outbound obs"
proof -
  have "set (jtexts ''tag'' obs) = {n \<in> fst ` set es. \<not> builtin_endpoint n \<and> has_prefix n ''nic_''} \<and> list_all safe_outbound obs"
    using assms
  proof (induction es arbitrary: obs)
    case (Cons e es)
    obtain n v where e: "e = (n, v)" by (cases e)
    show ?case
    proof (cases "builtin_endpoint n \<or> \<not> has_prefix n ''nic_''")
      case True
      then show ?thesis using Cons by (auto simp: e)
    next
      case False
      then obtain port obs' where "loopbackPort endpoints n = Inr port" "adapter_outbounds endpoints es = Inr obs'"
        and obs: "obs = socksOutbound n port # obs'"
        using Cons.prems by (auto simp: e split: sum.splits) (metis map_sum.simps sum.exhaust sum.inject(2) sum.distinct(1))
      then show ?thesis using Cons.IH [of obs'] False loopbackPort_range [of endpoints n port] by (auto simp: e safe_outbound_def)
    qed
  qed simp
  then show "set (jtexts ''tag'' obs) = {n \<in> fst ` set es. \<not> builtin_endpoint n \<and> has_prefix n ''nic_''}" "list_all safe_outbound obs"
    by simp_all
qed

lemma rule_refs:
  "jtexts ''outbound'' (List.map_filter user_rule rules) =
     map rr_Outbound (filter (\<lambda>r. rr_MatchType r \<in> {MatchProcess, MatchDomain, MatchIP}) rules)"
  by (induction rules) (auto simp: List.map_filter_def user_rule_def jfield_def)

lemma route_rules_refs:
  "set (jtexts ''outbound'' (route_rules paths plan rules)) \<subseteq> {''system-direct''} \<union> rr_Outbound ` set rules"
  by (auto simp: route_rules_def own_rules_def dns_rules_def direct_processes_def jfield_def rule_refs)

lemma writeSingBoxConfig_parts:
  assumes "writeSingBoxConfig env endpoints dnsAdapter dnsResult rules plan strictRoute = Inr (singBox, clash, config)"
  obtains upstream extra p q r where "loopbackPort endpoints ''nic_ethernet'' = Inr p" "loopbackPort endpoints ''nic_wifi'' = Inr q"
    "loopbackPort endpoints ''aggregation'' = Inr r" "adapter_outbounds endpoints endpoints = Inr extra"
    "config = sing_box_json upstream
       ([socksOutbound ''nic_ethernet'' p, socksOutbound ''nic_wifi'' q, socksOutbound ''aggregation'' r, direct_outbound endpoints,
         JObj [(''type'', JStr ''direct''), (''tag'', JStr ''system-direct'')]] @ extra)
       (route_rules (process_paths env singBox) plan rules) strictRoute clash"
  using assms by (auto simp: writeSingBoxConfig_def Let_def split: sum.splits option.splits if_splits)

lemma channel_of_adapter: "a \<in> set adapters \<Longrightarrow> ''nic_'' @ av_Name a \<in> chn_Name ` set (engineChannels adapters)"
  by (auto simp: engineChannels_def channel_names_def Let_def image_Un image_image)

lemma tag_defined:
  "n \<in> F \<Longrightarrow> has_prefix n p \<Longrightarrow> (builtin_endpoint n \<Longrightarrow> n \<in> B) \<Longrightarrow> n \<in> B \<union> {n \<in> F. \<not> builtin_endpoint n \<and> has_prefix n p}"
  by blast

lemma available_outbound_cases:
  assumes "x \<in> set (available_outbounds adapters)"
  obtains "x = ''aggregation''" | "x = ''direct''" | a where "a \<in> set adapters" "x = ''nic_'' @ av_ID a"
  using assms unfolding available_outbounds_def by (auto simp del: append.simps)

text \<open>
  The configuration written for the sidecar is closed and safe: when the rules were validated against the selected adapters and the engine
  answered an endpoint for every channel it was asked for, every exit that a rule or the default uses is defined, and every
  exit leads to a valid port of the local host or past the tunnel; the rules that keep the application's own
  processes out of the tunnel come before everything that assigns an exit.
\<close>

theorem sing_box_config_closed:
  assumes "writeSingBoxConfig env endpoints dnsAdapter dnsResult rules plan strictRoute = Inr (singBox, clash, config)"
    and "validateRoutingOutbounds rules selected = None" "\<forall>a \<in> set selected. av_ID a = av_Name a"
    and "chn_Name ` set (engineChannels selected) \<subseteq> fst ` set endpoints"
  shows "set (config_refs config) \<subseteq> set (config_tags config)
       \<and> list_all safe_outbound (config_outbounds config)
       \<and> (\<exists>rest. config_rules config = JObj [(''action'', JStr ''sniff''), (''timeout'', JStr ''300ms'')]
                    # direct_processes ''process_path'' (process_paths env singBox) # rest)"
proof -
  from assms(1) obtain upstream extra p q r where ports: "loopbackPort endpoints ''nic_ethernet'' = Inr p"
      "loopbackPort endpoints ''nic_wifi'' = Inr q" "loopbackPort endpoints ''aggregation'' = Inr r"
    and extra: "adapter_outbounds endpoints endpoints = Inr extra"
    and c: "config = sing_box_json upstream
       ([socksOutbound ''nic_ethernet'' p, socksOutbound ''nic_wifi'' q, socksOutbound ''aggregation'' r, direct_outbound endpoints,
         JObj [(''type'', JStr ''direct''), (''tag'', JStr ''system-direct'')]] @ extra)
       (route_rules (process_paths env singBox) plan rules) strictRoute clash"
    by (rule writeSingBoxConfig_parts)
  note tags = adapter_outbounds_tags [OF extra]
  have sys: "jfield ''tag'' (JObj [(''type'', JStr ''direct''), (''tag'', JStr ''system-direct'')]) = Some (JStr ''system-direct'')"
    by (simp add: jfield_def)
  have t: "set (config_tags config) = {''nic_ethernet'', ''nic_wifi'', ''aggregation'', ''direct'', ''system-direct''} \<union> set (jtexts ''tag'' extra)"
    unfolding config_tags_def c sing_box_parts by (auto simp: sys)
  have nic: "''nic_'' @ av_ID a \<in> set (config_tags config)" if a: "a \<in> set selected" for a
  proof -
    have "''nic_'' @ av_Name a \<in> chn_Name ` set (engineChannels selected)" using a by (rule channel_of_adapter)
    then have "''nic_'' @ av_Name a \<in> fst ` set endpoints" by (rule subsetD [OF assms(4)])
    moreover have "av_ID a = av_Name a" using assms(3) a by blast
    ultimately have "''nic_'' @ av_ID a \<in> fst ` set endpoints" by (simp only:)
    moreover have "has_prefix (''nic_'' @ av_ID a) ''nic_''" by (simp add: has_prefix_def)
    ultimately show ?thesis unfolding t tags(1) by (rule tag_defined) (unfold builtin_endpoint_def, elim disjE, simp_all)
  qed
  have base: "''aggregation'' \<in> set (config_tags config)" "''direct'' \<in> set (config_tags config)"
    "''system-direct'' \<in> set (config_tags config)"
    unfolding t by simp_all
  have "rr_Outbound r \<in> set (config_tags config)" if "r \<in> set rules" for r
    using assms(2) that unfolding validateRoutingOutbounds_None by (auto simp only: dest!: bspec elim!: available_outbound_cases intro: base nic)
  then have "set (config_refs config) \<subseteq> set (config_tags config)"
    using route_rules_refs [of "process_paths env singBox" plan rules] base unfolding c sing_box_parts by (simp only: set_simps) blast
  moreover have "list_all safe_outbound (config_outbounds config)"
    unfolding c sing_box_parts using tags(2) ports [THEN loopbackPort_range] direct_outbound_tag(2) [of endpoints]
    by (simp add: safe_socks) (simp add: safe_outbound_def)
  moreover have "config_rules config = JObj [(''action'', JStr ''sniff''), (''timeout'', JStr ''300ms'')]
      # direct_processes ''process_path'' (process_paths env singBox)
      # tl (own_rules (process_paths env singBox) plan) @ dns_rules @ List.map_filter user_rule rules"
    unfolding c sing_box_parts by (simp add: route_rules_def own_rules_def)
  ultimately show ?thesis by blast
qed

section \<open>The channels asked for\<close>

lemma trim_left_graphic: "graphic c \<Longrightarrow> trim_left (c # s) = c # s"
proof -
  assume g: "graphic c"
  have "\<not> (p \<noteq> [] \<and> prefix p (c # s))" if "p \<in> set go_spaces" for p
    using go_spaces_not_graphic [OF that] g by auto
  then show ?thesis unfolding trim_left_def by (intro strip_id) (simp add: find_None_iff)
qed

lemma trim_right_append:
  assumes "trim_right t = t" "t \<noteq> []" "graphic c"
  shows "trim_right (s @ c # t) = s @ c # t"
proof -
  have n: "\<not> (p \<noteq> [] \<and> prefix p (rev t))" if "p \<in> set (map rev go_spaces)" for p
    using strip_no_prefix [of "map rev go_spaces" "rev t"] assms(1) that by (auto simp: trim_right_def find_None_iff rev_swap)
  have "\<not> (p \<noteq> [] \<and> prefix p (rev (s @ c # t)))" if p: "p \<in> set (map rev go_spaces)" for p
  proof
    assume a: "p \<noteq> [] \<and> prefix p (rev (s @ c # t))"
    have "\<not> prefix p (rev t)" using n [OF p] a by blast
    then obtain q where "p = rev t @ q" "q \<noteq> []" "prefix q (c # rev s)"
      using a by (auto simp: prefix_append)
    then have "c \<in> set p" by (cases q) auto
    moreover have "list_all (\<lambda>c. \<not> graphic c) p" using p go_spaces_not_graphic by (fastforce simp: list_all_iff)
    ultimately show False using assms(3) by (auto simp: list_all_iff)
  qed
  then have "find (\<lambda>p. p \<noteq> [] \<and> prefix p (rev (s @ c # t))) (map rev go_spaces) = None"
    unfolding find_None_iff by blast
  then have "strip (map rev go_spaces) (rev (s @ c # t)) = rev (s @ c # t)" by (rule strip_id)
  then show ?thesis unfolding trim_right_def by (simp only: rev_rev_ident)
qed

lemma trim_right_of_trim_space: "trim_space t = t \<Longrightarrow> trim_right t = t"
  by (metis trim_right_idem trim_space_def)

lemma trim_nic:
  assumes "trim_space t = t" "t \<noteq> []"
  shows "trim_space (''nic_'' @ t) = ''nic_'' @ t"
proof -
  have "trim_left (''nic_'' @ t) = ''nic_'' @ t" using trim_left_graphic [of "CHR ''n''"] by (simp add: graphic_def)
  moreover have "trim_right (''nic_'' @ t) = ''nic_'' @ t"
    using trim_right_append [OF trim_right_of_trim_space [OF assms(1)] assms(2), of "CHR ''_''" "''nic''"] by (simp add: graphic_def)
  ultimately show ?thesis by (simp add: trim_space_def)
qed

lemma channel_adapters_loop_good:
  "distinct (names @ xs) \<Longrightarrow> set xs \<subseteq> known \<Longrightarrow> \<forall>x \<in> set xs. trim_space x = x
   \<Longrightarrow> channel_adapters_loop known ch names xs = Inr (names @ xs)"
  by (induction xs arbitrary: names) auto

definition good_channel :: "string set \<Rightarrow> channel \<Rightarrow> bool" where
  "good_channel known c \<longleftrightarrow>
     trim_space (chn_Name c) = chn_Name c \<and> chn_Name c \<noteq> []
     \<and> (chn_Name c \<in> {ChannelEthernet, ChannelWiFi, ChannelAggregation} \<or> chn_Name c = ChannelDirect
          \<or> has_prefix (chn_Name c) ''nic_'' \<and> length (chn_Name c) > 4)
     \<and> chn_Port c = 0 \<and> (chn_AdapterNames c = [] \<longleftrightarrow> chn_Name c = ChannelDirect)
     \<and> distinct (chn_AdapterNames c) \<and> set (chn_AdapterNames c) \<subseteq> known \<and> (\<forall>x \<in> set (chn_AdapterNames c). trim_space x = x)"

lemma channels_loop_good:
  "list_all (good_channel known) chs \<Longrightarrow> distinct (map chn_Name (seen @ chs)) \<Longrightarrow> channels_loop known seen chs = Inr (seen @ chs)"
proof (induction chs arbitrary: seen)
  case (Cons c chs)
  then have g: "good_channel known c" by simp
  have "channel_adapters_loop known (chn_Name c) [] (chn_AdapterNames c) = Inr (chn_AdapterNames c)"
    using channel_adapters_loop_good [of "[]" "chn_AdapterNames c" known] g by (simp add: good_channel_def)
  with g Cons.prems(2) have "channels_loop known seen (c # chs) = channels_loop known (seen @ [c]) chs"
    by (auto simp: good_channel_def Let_def)
  with Cons.IH [of "seen @ [c]"] Cons.prems show ?case by simp
qed simp

text \<open>A name the channels of single adapters can carry.\<close>

definition plain_name :: "string \<Rightarrow> bool" where
  "plain_name s \<longleftrightarrow> s \<noteq> [] \<and> trim_space s = s \<and> s \<noteq> ''ethernet'' \<and> s \<noteq> ''wifi''"

lemma base_trim:
  "trim_space ''nic_ethernet'' = ''nic_ethernet''" "trim_space ''nic_wifi'' = ''nic_wifi''"
  "trim_space ''aggregation'' = ''aggregation''" "trim_space ''direct'' = ''direct''"
  by (rule trim_space_graphic; simp add: graphic_def)+

lemma adapter_names: "map ad_Name (engineAdapters vs) = map av_Name vs"
  by (simp add: engineAdapters_def comp_def)

lemma engineChannels_good:
  assumes "vs \<noteq> []" "distinct (map av_Name vs)" "list_all plain_name (map av_Name vs)"
  shows "list_all (good_channel (av_Name ` set vs)) (engineChannels vs)" "distinct (map chn_Name (engineChannels vs))"
proof -
  have p: "av_Name v \<noteq> []" "trim_space (av_Name v) = av_Name v" if "v \<in> set vs" for v
    using assms(3) that by (auto simp: list_all_iff plain_name_def)
  obtain all wired wireless where n: "channel_names vs = (all, wired, wireless)" by (metis prod_cases3)
  have g: "xs \<noteq> [] \<and> distinct xs \<and> set xs \<subseteq> av_Name ` set vs \<and> (\<forall>x \<in> set xs. trim_space x = x)" if "xs \<in> {all, wired, wireless}" for xs
    using n assms(1,2) p that by (auto simp: channel_names_def Let_def distinct_map_filter split: if_splits)
  show "list_all (good_channel (av_Name ` set vs)) (engineChannels vs)"
    using g [of all] g [of wired] g [of wireless] p trim_nic
    by (auto simp: engineChannels_def n good_channel_def base_trim ChannelEthernet_def ChannelWiFi_def ChannelAggregation_def
        ChannelDirect_def has_prefix_def list_all_iff)
  have "distinct (map (\<lambda>a. ''nic_'' @ av_Name a) vs)" using assms(2) by (simp add: distinct_map inj_on_def)
  moreover have "''nic_ethernet'' \<notin> (\<lambda>a. ''nic_'' @ av_Name a) ` set vs" "''nic_wifi'' \<notin> (\<lambda>a. ''nic_'' @ av_Name a) ` set vs"
    using assms(3) by (auto simp: list_all_iff plain_name_def)
  ultimately show "distinct (map chn_Name (engineChannels vs))"
    by (auto simp: engineChannels_def n comp_def)
qed

text \<open>
  The engine accepts the channels the desktop asks for and keeps them as they are, when the selected adapters have different, trimmed
  names none of which is \<open>ethernet\<close> or \<open>wifi\<close>: the names and members pass \<open>normalizeChannels\<close> of the
  engine unchanged, each channel has at least one adapter except the direct one, and each adapter has its own.
\<close>

theorem desktop_channels_accepted:
  assumes "vs \<noteq> []" "distinct (map av_Name vs)" "list_all plain_name (map av_Name vs)"
  shows "normalizeChannels (engineAdapters vs) (engineChannels vs) = Inr (engineChannels vs)
       \<and> (\<forall>c \<in> set (engineChannels vs). chn_AdapterNames c = [] \<longleftrightarrow> chn_Name c = ''direct'')
       \<and> (\<forall>v \<in> set vs. \<exists>c \<in> set (engineChannels vs). chn_Name c = ''nic_'' @ av_Name v \<and> chn_AdapterNames c = [av_Name v])"
proof -
  note good = engineChannels_good [OF assms]
  obtain all wired wireless where n: "channel_names vs = (all, wired, wireless)" by (metis prod_cases3)
  have k: "ad_Name ` set (engineAdapters vs) = av_Name ` set vs" using adapter_names [of vs] by (metis list.set_map)
  have "find (\<lambda>n. n \<notin> chn_Name ` set (engineChannels vs)) [ChannelEthernet, ChannelWiFi, ChannelAggregation] = None"
    by (simp add: engineChannels_def n ChannelEthernet_def ChannelWiFi_def ChannelAggregation_def)
  moreover have "\<not> length (engineChannels vs) < 3" "engineChannels vs \<noteq> []" by (simp_all add: engineChannels_def n)
  ultimately have "normalizeChannels (engineAdapters vs) (engineChannels vs) = Inr (engineChannels vs)"
    using channels_loop_good [OF good(1), of "[]"] good(2) by (simp add: normalizeChannels_def k)
  moreover have "\<forall>c \<in> set (engineChannels vs). chn_AdapterNames c = [] \<longleftrightarrow> chn_Name c = ''direct''"
    using good(1) by (simp add: list_all_iff good_channel_def ChannelDirect_def)
  moreover have "\<forall>v \<in> set vs. \<exists>c \<in> set (engineChannels vs). chn_Name c = ''nic_'' @ av_Name v \<and> chn_AdapterNames c = [av_Name v]"
    by (auto simp: engineChannels_def n)
  ultimately show ?thesis by blast
qed

text \<open>An adapter called \<open>wifi\<close> makes its own channel collide with the group of the wireless ones: the start is refused.\<close>

lemma adapter_named_wifi_refused:
  "normalizeChannels (engineAdapters [v\<lparr>av_Name := ''wifi''\<rparr>]) (engineChannels [v\<lparr>av_Name := ''wifi''\<rparr>]) = Inl (DuplicateChannelName ''nic_wifi'')"
proof -
  have "trim_space ''wifi'' = ''wifi''" by (rule trim_space_graphic) (simp add: graphic_def)
  then show ?thesis
    by (simp add: normalizeChannels_def engineAdapters_def engineChannels_def channel_names_def base_trim Let_def
        ChannelEthernet_def ChannelWiFi_def ChannelAggregation_def ChannelDirect_def)
qed

section \<open>Examples\<close>

definition example_view :: adapter_view where
  "example_view = \<lparr>av_ID = ''eth'', av_Name = ''eth'', av_Description = ''nic'', av_Address = ''10.0.0.2'', av_PrefixLength = 24, av_SourceIPv6 = [],
     av_IfIndex = 2, av_IPv6IfIndex = 2, av_Gateway = ''10.0.0.1'', av_DNSServers = [], av_Metric = 1, av_AutoMetric = True,
     av_Selected = True, av_Weight = 50, av_Kind = ''ethernet'', av_Operational = True\<rparr>"

definition example_endpoints :: endpoints where
  "example_endpoints =
     [(''nic_ethernet'', ''127.0.0.1:5001''), (''nic_wifi'', ''127.0.0.1:5002''), (''aggregation'', ''127.0.0.1:5003''),
      (''direct'', ''127.0.0.1:5004''), (''nic_eth'', ''127.0.0.1:5005'')]"

definition example_config_env :: config_env where
  "example_config_env = \<lparr>cv_singBox = Some ''/b/sing-box'', cv_clash = Some (''127.0.0.1:5006'', ''aa''), cv_selfPath = ''/b/hypomux'',
     cv_enginePath = ''/b/engine'', cv_abs = Some, cv_written = True\<rparr>"

definition example_user_rules :: "routing_rule list" where
  "example_user_rules = [\<lparr>rr_MatchType = MatchProcess, rr_Value = ''curl'', rr_Outbound = ''nic_eth''\<rparr>]"

lemma example_ports:
  "loopbackPort example_endpoints ''nic_ethernet'' = Inr 5001" "loopbackPort example_endpoints ''nic_wifi'' = Inr 5002"
  "loopbackPort example_endpoints ''aggregation'' = Inr 5003" "loopbackPort example_endpoints ''direct'' = Inr 5004"
  "loopbackPort example_endpoints ''nic_eth'' = Inr 5005"
  "splitEndpoint ''8.8.8.8:53'' 53 = Inr (''8.8.8.8'', 53)"
  by code_simp+

theorem desktop_channels_accepted_witness:
  "normalizeChannels (engineAdapters [example_view]) (engineChannels [example_view]) = Inr (engineChannels [example_view])
   \<and> last (engineChannels [example_view]) = \<lparr>chn_Name = ''nic_eth'', chn_Port = 0, chn_AdapterNames = [''eth'']\<rparr>"
proof -
  have "trim_space ''eth'' = ''eth''" by (rule trim_space_graphic) (simp add: graphic_def)
  then have "list_all plain_name (map av_Name [example_view])" by (simp add: plain_name_def example_view_def)
  then have "normalizeChannels (engineAdapters [example_view]) (engineChannels [example_view]) = Inr (engineChannels [example_view])"
    using desktop_channels_accepted [of "[example_view]"] by simp
  then show ?thesis by (simp add: engineChannels_def channel_names_def Let_def example_view_def)
qed

theorem sing_box_config_closed_witness:
  "\<exists>config. writeSingBoxConfig example_config_env example_endpoints example_view \<lparr>da_Transport = ''udp'', da_Server = ''8.8.8.8:53''\<rparr>
       example_user_rules \<lparr>cp_ProcessNames = [], cp_ProcessPaths = []\<rparr> True = Inr (''/b/sing-box'', (''127.0.0.1:5006'', ''aa''), config)
     \<and> config_refs config = [''aggregation'', ''system-direct'', ''system-direct'', ''nic_eth'']
     \<and> set (config_refs config) \<subseteq> set (config_tags config) \<and> list_all safe_outbound (config_outbounds config)"
proof -
  let ?run = "writeSingBoxConfig example_config_env example_endpoints example_view \<lparr>da_Transport = ''udp'', da_Server = ''8.8.8.8:53''\<rparr>
       example_user_rules \<lparr>cp_ProcessNames = [], cp_ProcessPaths = []\<rparr> True"
  have "\<not> equal_fold ''udp'' ''doh''" by code_simp
  then have "\<exists>up. buildDNSUpstream example_view \<lparr>da_Transport = ''udp'', da_Server = ''8.8.8.8:53''\<rparr> = Inr up"
    by (simp add: buildDNSUpstream_def example_ports)
  moreover have "\<exists>extra. adapter_outbounds example_endpoints example_endpoints = Inr extra"
    unfolding example_endpoints_def [THEN arg_cong [where f = "adapter_outbounds example_endpoints"]]
    by (simp add: builtin_endpoint_def has_prefix_def example_ports)
  ultimately obtain config where r: "?run = Inr (''/b/sing-box'', (''127.0.0.1:5006'', ''aa''), config)"
    by (auto simp: writeSingBoxConfig_def example_ports example_config_env_def)
  have refs: "config_refs config = [''aggregation'', ''system-direct'', ''system-direct'', ''nic_eth'']"
  proof -
    from r obtain up obs where c: "config = sing_box_json up obs
        (route_rules (process_paths example_config_env ''/b/sing-box'') \<lparr>cp_ProcessNames = [], cp_ProcessPaths = []\<rparr> example_user_rules) True (''127.0.0.1:5006'', ''aa'')"
      by (elim writeSingBoxConfig_parts) blast
    show ?thesis unfolding c sing_box_parts
      by (simp add: route_rules_def own_rules_def direct_processes_def dns_rules_def example_user_rules_def user_rule_def
          List.map_filter_def jfield_def MatchProcess_def)
  qed
  have v: "validateRoutingOutbounds example_user_rules [example_view] = None"
    by (simp add: validateRoutingOutbounds_None example_user_rules_def available_outbounds_def example_view_def)
  have ch: "chn_Name ` set (engineChannels [example_view]) \<subseteq> fst ` set example_endpoints"
    by (simp add: engineChannels_def channel_names_def Let_def example_view_def example_endpoints_def)
  have i: "\<forall>a \<in> set [example_view]. av_ID a = av_Name a" by (simp add: example_view_def)
  from sing_box_config_closed [OF r v i ch] r refs show ?thesis by blast
qed

end
