(* ===== verification/Tun_Preflight.thy ===== *)
theory Tun_Preflight
  imports Adapters
begin

text \<open>
  \<open>desktop/internal/services/tun_preflight.go\<close> and \<open>compatibility.go\<close>: the checks made before the TUN starts. What they ask of the
  operating system is the record \<open>preflight_env\<close>. An issue keeps its code, its level and the
  text that carries data; the fixed sentences around it are left out.
\<close>

section \<open>Data\<close>

record tun_issue =
  ti_Code :: string
  ti_Level :: string
  ti_Detail :: string

record gateway_risk =
  gr_Left :: string
  gr_Right :: string
  gr_Network :: string
  gr_Gateway :: string

record tun_preflight =
  tp_Ready :: bool
  tp_CheckedAt :: go_time
  tp_SelectedIDs :: "string list"
  tp_HostElevated :: bool
  tp_Broker :: bool
  tp_EngineAvailable :: bool
  tp_SingBoxAvailable :: bool
  tp_WFPReady :: bool
  tp_WFPDetail :: string
  tp_StrictRouteRequested :: bool
  tp_EffectiveStrictRoute :: bool
  tp_ForeignTUN :: string
  tp_Risks :: "gateway_risk list"
  tp_Issues :: "tun_issue list"

record tun_platform =
  pf_HostElevated :: bool
  pf_Broker :: bool
  pf_WFPReady :: bool
  pf_WFPDetail :: string
  pf_DefaultRouteAliases :: "string list"
  pf_RouteScanError :: string

text \<open>\<open>pe_engine\<close> and \<open>pe_singBox\<close> are the text of an error or a path.\<close>

record preflight_env =
  pe_platform :: "bool \<Rightarrow> tun_platform"
  pe_engine :: "string + string"
  pe_singBox :: "string + string"
  pe_now :: go_time

definition tunBlocker :: "string \<Rightarrow> string \<Rightarrow> tun_issue" where
  "tunBlocker code detail = \<lparr>ti_Code = code, ti_Level = ''blocker'', ti_Detail = detail\<rparr>"

definition tunWarning :: "string \<Rightarrow> string \<Rightarrow> tun_issue" where
  "tunWarning code detail = \<lparr>ti_Code = code, ti_Level = ''warning'', ti_Detail = detail\<rparr>"

section \<open>Shared gateways\<close>

definition primaryGateway :: "string \<Rightarrow> string" where
  "primaryGateway value = trim_space (split_n 2 CHR '','' value ! 0)"

definition adapterIPv4Network :: "adapter_view \<Rightarrow> ip_net option" where
  "adapterIPv4Network a =
     (if av_PrefixLength a < 1 \<or> av_PrefixLength a > 32 then None
      else case Option.bind (parse_ip (av_Address a)) to4 of
             None \<Rightarrow> None
           | Some ip \<Rightarrow>
               let mask = cidr_mask 4 (nat (av_PrefixLength a))
               in Some \<lparr>in_IP = ip_mask ip mask, in_Mask = mask\<rparr>)"

definition gateway_network :: "adapter_view \<Rightarrow> ip_net option" where
  "gateway_network a = (if av_Gateway a = [] then None else adapterIPv4Network a)"

definition shared_gateway :: "adapter_view \<Rightarrow> ip_net \<Rightarrow> adapter_view \<Rightarrow> gateway_risk option" where
  "shared_gateway left leftNetwork right =
     (case gateway_network right of
        None \<Rightarrow> None
      | Some rightNetwork \<Rightarrow>
          if ip_net_string leftNetwork = ip_net_string rightNetwork
             \<and> equal_fold (primaryGateway (av_Gateway left)) (primaryGateway (av_Gateway right))
          then Some \<lparr>gr_Left = av_Name left, gr_Right = av_Name right, gr_Network = ip_net_string leftNetwork,
                     gr_Gateway = primaryGateway (av_Gateway left)\<rparr>
          else None)"

fun sharedIPv4GatewayRisks :: "adapter_view list \<Rightarrow> gateway_risk list" where
  "sharedIPv4GatewayRisks [] = []"
| "sharedIPv4GatewayRisks (left # rest) =
     (case gateway_network left of
        None \<Rightarrow> []
      | Some leftNetwork \<Rightarrow> List.map_filter (shared_gateway left leftNetwork) rest)
     @ sharedIPv4GatewayRisks rest"

section \<open>Programs that are kept out of the tunnel\<close>

definition compatibilityProcessNames :: "string list" where
  "compatibilityProcessNames =
     [''qiyou.exe'', ''networkdaemon.exe'', ''qeetm.exe'', ''injhelper.exe'', ''injhelper64.exe'', ''lsphelper64.exe'',
      ''uu.exe'', ''uu_agent.exe'', ''uu_launcher.exe'', ''uu_ball.exe'', ''uu_neths_helper.exe'', ''uu_neth_helper.exe'',
      ''xunyou.exe'', ''xylauncher.exe'', ''xyprotectservice.exe'', ''xyservicelink.exe'', ''leigod.exe'', ''leigod_launcher.exe'',
      ''leishensdk.exe'', ''leigod-tool.exe'', ''clash.exe'', ''clash-meta.exe'', ''clash-win64.exe'', ''mihomo.exe'',
      ''mihomo-core.exe'', ''clash-verge.exe'', ''clash verge.exe'', ''clash-verge-rev.exe'', ''clash-verge-service.exe'', ''clash for windows.exe'',
      ''cfw.exe'', ''clashnyanpasu.exe'', ''flclash.exe'', ''v2rayn.exe'', ''v2ray.exe'', ''xray.exe'',
      ''nekoray.exe'', ''qv2ray.exe'', ''hiddify.exe'', ''hiddify-cli.exe'', ''shadowsocks.exe'', ''shadowsocksr.exe'',
      ''ss-local.exe'', ''surge.exe'', ''proxifier.exe'']"

fun clean_paths :: "(string \<Rightarrow> string option) \<Rightarrow> (string \<Rightarrow> string) \<Rightarrow> string list \<Rightarrow> string list \<Rightarrow> string list" where
  "clean_paths absolute_of clean seen [] = []"
| "clean_paths absolute_of clean seen (path # paths) =
     (case absolute_of (trim_space path) of
        None \<Rightarrow> clean_paths absolute_of clean seen paths
      | Some absolute \<Rightarrow>
          let key = to_lower (clean absolute)
          in if absolute = [] \<or> key \<in> set seen then clean_paths absolute_of clean seen paths
             else absolute # clean_paths absolute_of clean (key # seen) paths)"

definition normalizedCompatibilityPlan ::
    "(string \<Rightarrow> string option) \<Rightarrow> (string \<Rightarrow> string) \<Rightarrow> string list \<Rightarrow> string list \<times> string list" where
  "normalizedCompatibilityPlan absolute_of clean paths =
     (sort_key to_lower compatibilityProcessNames, sort_key to_lower (clean_paths absolute_of clean [] paths))"

section \<open>The check\<close>

text \<open>One default route: the foreign tunnel reported so far and the issues.\<close>

definition route_alias :: "string \<Rightarrow> string \<times> tun_issue list \<Rightarrow> string \<times> tun_issue list" where
  "route_alias alias st =
     (let (foreign, issues) = st; clean = trim_space alias
      in if clean = [] then st
         else if equal_fold clean ''HypoMux-Tun'' then (foreign, issues @ [tunBlocker ''stale_hypomux_tun'' []])
         else if foreign = [] then (clean, issues @ [tunBlocker ''foreign_tun'' clean])
         else st)"

definition error_detail :: "string + string \<Rightarrow> string" where
  "error_detail r = (case r of Inl e \<Rightarrow> e | Inr _ \<Rightarrow> [])"

definition asset_available :: "string + string \<Rightarrow> bool" where
  "asset_available r = (case r of Inl _ \<Rightarrow> False | Inr path \<Rightarrow> path \<noteq> [])"

definition remembered_detail :: "string \<Rightarrow> string" where
  "remembered_detail detail = ''remembered'' @ (if trim_space detail \<noteq> [] then '': '' @ detail else [])"

definition inspected_platform :: "preflight_env \<Rightarrow> app_settings \<Rightarrow> bool \<times> string \<Rightarrow> tun_platform" where
  "inspected_platform env settings remembered =
     (let platform = pe_platform env (st_StrictRoute settings \<and> \<not> fst remembered)
      in if st_StrictRoute settings \<and> fst remembered
         then platform\<lparr>pf_WFPReady := False, pf_WFPDetail := remembered_detail (snd remembered)\<rparr>
         else platform)"

definition checkSelected :: "preflight_env \<Rightarrow> app_settings \<Rightarrow> bool \<times> string \<Rightarrow> adapter_view list \<Rightarrow> tun_preflight" where
  "checkSelected env settings remembered selected =
     (let platform = inspected_platform env settings remembered;
          engineAvailable = asset_available (pe_engine env);
          singBoxAvailable = asset_available (pe_singBox env);
          risks = sharedIPv4GatewayRisks selected;
          (foreign, routeIssues) = fold route_alias (pf_DefaultRouteAliases platform) ([], []);
          issues =
            (if selected = [] then [tunBlocker ''no_adapter'' []] else [])
            @ (if \<not> engineAvailable then [tunBlocker ''engine_missing'' (error_detail (pe_engine env))] else [])
            @ (if \<not> singBoxAvailable then [tunBlocker ''sing_box_missing'' (error_detail (pe_singBox env))] else [])
            @ (if pf_HostElevated platform then [tunBlocker ''elevated_ui_host'' []]
               else if \<not> pf_Broker platform then [tunBlocker ''privilege_broker_unavailable'' []] else [])
            @ routeIssues
            @ (if pf_RouteScanError platform \<noteq> [] then [tunWarning ''route_scan_failed'' (pf_RouteScanError platform)] else [])
            @ (if st_StrictRoute settings \<and> \<not> pf_WFPReady platform
               then [tunWarning ''wfp_compatibility'' (if fst remembered then pf_WFPDetail platform else [])] else [])
            @ map (\<lambda>r. tunWarning ''shared_lan_gateway'' (gr_Network r)) risks
      in \<lparr>tp_Ready = list_all (\<lambda>i. ti_Level i \<noteq> ''blocker'') issues, tp_CheckedAt = pe_now env,
          tp_SelectedIDs = sort (map av_ID selected), tp_HostElevated = pf_HostElevated platform, tp_Broker = pf_Broker platform,
          tp_EngineAvailable = engineAvailable, tp_SingBoxAvailable = singBoxAvailable, tp_WFPReady = pf_WFPReady platform,
          tp_WFPDetail = pf_WFPDetail platform, tp_StrictRouteRequested = st_StrictRoute settings,
          tp_EffectiveStrictRoute = (st_StrictRoute settings \<and> pf_WFPReady platform), tp_ForeignTUN = foreign,
          tp_Risks = risks, tp_Issues = issues\<rparr>)"

text \<open>\<open>Preflight\<close>, on the list of adapters (\<^const>\<open>None\<close>: the scan failed); the service keeps the result as its latest.\<close>

definition preflight_selected :: "string list \<Rightarrow> adapter_view list \<Rightarrow> adapter_view list" where
  "preflight_selected ids available =
     (let wanted = filter (\<lambda>v. v \<noteq> []) (map trim_space ids)
      in filter (\<lambda>a. (wanted = [] \<and> av_Selected a) \<or> av_ID a \<in> set wanted) available)"

definition Preflight ::
    "preflight_env \<Rightarrow> app_settings \<Rightarrow> bool \<times> string \<Rightarrow> adapter_view list option \<Rightarrow> string list \<Rightarrow> tun_preflight option" where
  "Preflight env settings remembered available ids =
     map_option (\<lambda>as. checkSelected env settings remembered (preflight_selected ids as)) available"

definition firstTunBlocker :: "tun_preflight \<Rightarrow> tun_issue option" where
  "firstTunBlocker p = find (\<lambda>i. ti_Level i = ''blocker'') (tp_Issues p)"

section \<open>When the check passes\<close>

lemma level_simps [simp]: "ti_Level (tunBlocker c d) = ''blocker''" "ti_Level (tunWarning c d) = ''warning''"
  by (simp_all add: tunBlocker_def tunWarning_def)

lemma route_alias_blockers:
  assumes "fold route_alias as (foreign, issues) = (foreign', issues')" "foreign \<noteq> [] \<longrightarrow> (\<exists>i \<in> set issues. ti_Level i = ''blocker'')"
  shows "list_all (\<lambda>i. ti_Level i \<noteq> ''blocker'') issues' \<longleftrightarrow>
      list_all (\<lambda>i. ti_Level i \<noteq> ''blocker'') issues \<and> (\<forall>a \<in> set as. trim_space a = [])"
  using assms
proof (induction as arbitrary: foreign issues)
  case (Cons a as)
  obtain f found where st: "route_alias a (foreign, issues) = (f, found)" by (cases "route_alias a (foreign, issues)")
  have "f \<noteq> [] \<longrightarrow> (\<exists>i \<in> set found. ti_Level i = ''blocker'')"
    using st Cons.prems(2) by (auto simp: route_alias_def Let_def split: if_splits)
  moreover have "list_all (\<lambda>i. ti_Level i \<noteq> ''blocker'') found \<longleftrightarrow> list_all (\<lambda>i. ti_Level i \<noteq> ''blocker'') issues \<and> trim_space a = []"
    using st Cons.prems(2) by (auto simp: route_alias_def Let_def list_all_iff split: if_splits)
  ultimately show ?case using Cons.IH [of f found] Cons.prems(1) st by auto
qed auto

lemma checkSelected_blocker: "tp_Ready (checkSelected env settings remembered selected) \<longleftrightarrow> firstTunBlocker (checkSelected env settings remembered selected) = None"
  unfolding firstTunBlocker_def find_None_iff checkSelected_def Let_def split_beta by (simp only: tun_preflight.simps list_all_iff) blast

text \<open>
  C36. The check passes exactly when an adapter is selected, both executables are there, the window is not elevated while a broker for the
  elevated engine exists, and no tunnel holds a default route; it names a first blocker exactly when it does not pass. A
  strict route is used only if the user asked for it, the filter engine was found working just now and no failure on
  this device is remembered.
\<close>

theorem preflight_ready_exact:
  fixes env settings remembered selected
  defines "p \<equiv> checkSelected env settings remembered selected"
    and "platform \<equiv> pe_platform env (st_StrictRoute settings \<and> \<not> fst remembered)"
  shows "(tp_Ready p \<longleftrightarrow> selected \<noteq> [] \<and> asset_available (pe_engine env) \<and> asset_available (pe_singBox env)
            \<and> \<not> pf_HostElevated platform \<and> pf_Broker platform \<and> (\<forall>a \<in> set (pf_DefaultRouteAliases platform). trim_space a = []))
       \<and> (tp_Ready p \<longleftrightarrow> firstTunBlocker p = None)
       \<and> (tp_EffectiveStrictRoute p \<longleftrightarrow> st_StrictRoute settings \<and> \<not> fst remembered \<and> pf_WFPReady (pe_platform env True))"
proof -
  define pl where "pl = inspected_platform env settings remembered"
  have pl: "pf_HostElevated pl = pf_HostElevated platform" "pf_Broker pl = pf_Broker platform"
    "pf_DefaultRouteAliases pl = pf_DefaultRouteAliases platform"
    "st_StrictRoute settings \<and> pf_WFPReady pl \<longleftrightarrow> st_StrictRoute settings \<and> \<not> fst remembered \<and> pf_WFPReady (pe_platform env True)"
    by (auto simp: pl_def platform_def inspected_platform_def Let_def)
  obtain f found where r: "fold route_alias (pf_DefaultRouteAliases platform) ([], []) = (f, found)"
    by (cases "fold route_alias (pf_DefaultRouteAliases platform) ([], [])")
  from route_alias_blockers [OF r] have b: "list_all (\<lambda>i. ti_Level i \<noteq> ''blocker'') found \<longleftrightarrow> (\<forall>a \<in> set (pf_DefaultRouteAliases platform). trim_space a = [])"
    by simp
  have "tp_Ready p \<longleftrightarrow> firstTunBlocker p = None"
    unfolding p_def by (rule checkSelected_blocker)
  moreover have "tp_Ready p \<longleftrightarrow> selected \<noteq> [] \<and> asset_available (pe_engine env) \<and> asset_available (pe_singBox env)
            \<and> \<not> pf_HostElevated platform \<and> pf_Broker platform \<and> list_all (\<lambda>i. ti_Level i \<noteq> ''blocker'') found"
    unfolding p_def checkSelected_def Let_def pl_def [symmetric] pl(1-3) r
    by (simp add: if_distrib [of "list_all _"] list.pred_map list.pred_True comp_def)
  moreover have "tp_EffectiveStrictRoute p \<longleftrightarrow> st_StrictRoute settings \<and> pf_WFPReady pl"
    unfolding p_def checkSelected_def Let_def pl_def [symmetric] by (simp split: prod.split)
  ultimately show ?thesis using pl(4) b by blast
qed

section \<open>Which adapters share a gateway\<close>

definition byte_bits :: "byte \<Rightarrow> bool list" where
  "byte_bits b = map (bit b) [7, 6, 5, 4, 3, 2, 1, 0]"

definition address_bits :: "ip \<Rightarrow> bool list" where
  "address_bits ip = concat (map byte_bits ip)"

lemma byte_bits_length [simp]: "length (byte_bits b) = 8" by (simp add: byte_bits_def)

lemma byte_bits_eq: "byte_bits a = byte_bits b \<longleftrightarrow> a = b"
proof
  assume "byte_bits a = byte_bits b"
  then have "\<forall>n < 8. bit a n = bit b n" by (simp add: byte_bits_def less_Suc_eq numeral_eq_Suc)
  then show "a = b" by (intro bit_word_eqI) simp
qed simp

lemma bit_255: "bit (255 :: byte) k \<longleftrightarrow> k < 8"
proof -
  have "(255 :: byte) = -1" by simp
  then show ?thesis by (simp only: bit_minus_1_iff possible_bit_word) simp
qed

lemma and_255: "z AND 255 = (z :: byte)"
  by (rule bit_word_eqI) (simp only: bit_and_iff bit_255, simp)

lemma bit_byte_mask: "n < 8 \<Longrightarrow> i < 8 \<Longrightarrow> bit (NOT (drop_bit n (255 :: byte))) i \<longleftrightarrow> 8 \<le> n + i"
proof -
  assume h: "n < 8" "i < 8"
  define m :: byte where "m = 255"
  have "bit m k \<longleftrightarrow> k < 8" for k unfolding m_def by (rule bit_255)
  then have "bit (NOT (drop_bit n m)) i \<longleftrightarrow> 8 \<le> n + i" using h by (simp add: bit_simps not_less)
  then show ?thesis by (simp only: m_def)
qed

lemma top_bits:
  fixes n :: nat
  assumes "n < 8"
  shows "(\<forall>i < 8. 8 \<le> n + i \<longrightarrow> P i) \<longleftrightarrow> (\<forall>k < n. P (7 - k))"
proof (intro iffI allI impI)
  fix k :: nat assume h: "\<forall>i < 8. 8 \<le> n + i \<longrightarrow> P i" "k < n"
  then show "P (7 - k)" using assms by (intro h(1) [rule_format]) auto
next
  fix i :: nat assume h: "\<forall>k < n. P (7 - k)" "i < 8" "8 \<le> n + i"
  then show "P i" using h(1) [rule_format, of "7 - i"] by auto
qed

lemma masked_byte_eq:
  assumes "n < 8"
  shows "a AND NOT (drop_bit n 255) = b AND NOT (drop_bit n (255 :: byte)) \<longleftrightarrow> take n (byte_bits a) = take n (byte_bits b)"
proof -
  define m where "m = NOT (drop_bit n (255 :: byte))"
  have m: "i < 8 \<Longrightarrow> bit m i \<longleftrightarrow> 8 \<le> n + i" for i using bit_byte_mask [OF assms] by (simp add: m_def)
  have "a AND m = b AND m \<longleftrightarrow> (\<forall>i < 8. 8 \<le> n + i \<longrightarrow> bit a i = bit b i)"
    using m by (auto simp: bit_eq_iff bit_and_iff)
  also have "\<dots> \<longleftrightarrow> (\<forall>k < n. bit a (7 - k) = bit b (7 - k))" using assms by (rule top_bits)
  also have "\<dots> \<longleftrightarrow> take n (byte_bits a) = take n (byte_bits b)"
  proof -
    have "byte_bits x ! k = bit x (7 - k)" if "k < 8" for x k
      using that by (auto simp: byte_bits_def less_Suc_eq numeral_eq_Suc)
    then show ?thesis using assms by (auto simp: list_eq_iff_nth_eq min_def)
  qed
  finally show ?thesis by (simp add: m_def)
qed

lemma masked_eq:
  assumes "length a = l" "length b = l"
  shows "map2 (AND) a (cidr_mask l n) = map2 (AND) b (cidr_mask l n) \<longleftrightarrow> take n (address_bits a) = take n (address_bits b)"
  using assms
proof (induction l n arbitrary: a b rule: cidr_mask.induct)
  case (2 l n)
  obtain x xs y ys where ab: "a = x # xs" "b = y # ys" "length xs = l" "length ys = l"
    using 2(3,4) by (auto simp: length_Suc_conv)
  show ?case
  proof (cases "8 \<le> n")
    case True
    then show ?thesis using 2(1) [of xs ys] ab by (simp add: address_bits_def byte_bits_eq and_255)
  next
    case False
    have "map2 (AND) xs (cidr_mask l 0) = map2 (AND) ys (cidr_mask l 0)" using 2(2) [of xs ys] False ab by simp
    then show ?thesis using False ab masked_byte_eq [of n x y] by (simp add: address_bits_def)
  qed
qed simp

text \<open>When two adapters share a gateway, without the text of networks: both are in the same network of the same size.\<close>

definition ipv4_of :: "adapter_view \<Rightarrow> ip option" where
  "ipv4_of a = Option.bind (parse_ip (av_Address a)) to4"

definition same_exit :: "adapter_view \<Rightarrow> adapter_view \<Rightarrow> bool" where
  "same_exit a b \<longleftrightarrow>
     av_Gateway a \<noteq> [] \<and> av_Gateway b \<noteq> [] \<and> equal_fold (primaryGateway (av_Gateway a)) (primaryGateway (av_Gateway b))
     \<and> 1 \<le> av_PrefixLength a \<and> av_PrefixLength a \<le> 32 \<and> av_PrefixLength b = av_PrefixLength a
     \<and> (\<exists>x y. ipv4_of a = Some x \<and> ipv4_of b = Some y
          \<and> take (nat (av_PrefixLength a)) (address_bits x) = take (nat (av_PrefixLength a)) (address_bits y))"

lemma ipv4_length: "ipv4_of a = Some x \<Longrightarrow> length x = 4"
  by (auto simp: ipv4_of_def to4_length split: Option.bind_splits)

lemma ip_mask_v4: "length x = 4 \<Longrightarrow> ip_mask x (cidr_mask 4 n) = map2 (AND) x (cidr_mask 4 n)"
  by (simp add: ip_mask_def Let_def)

lemma network_text:
  assumes "length x = 4" "n \<le> 32"
  shows "ip_net_string \<lparr>in_IP = x, in_Mask = cidr_mask 4 n\<rparr> = ipv4_string x @ ''/'' @ nat_str n"
  using assms simpleMaskLength_cidr [of n 4] by (simp add: ip_net_string_def network_parts_def to4_id ip_string_to4 Let_def)

lemma parse_network_text:
  assumes "length x = 4" "n \<le> 32"
  shows "parse_cidr (ipv4_string x @ ''/'' @ nat_str n)
    = Some (v4InV6Prefix @ x, \<lparr>in_IP = map2 (AND) x (cidr_mask 4 n), in_Mask = cidr_mask 4 n\<rparr>)"
proof -
  have "ip_mask (v4InV6Prefix @ x) (cidr_mask 4 n) = map2 (AND) x (cidr_mask 4 n)"
    using assms(1) by (simp add: ip_mask_def Let_def v4InV6Prefix_def)
  with parse_cidr_string [of "ipv4_string x" "v4InV6Prefix @ x" 4 n] assms parse_ipv4_string [of x] is_ipv4_text_string [of x]
  show ?thesis by simp
qed

lemma network_text_eq:
  assumes "length x = 4" "length y = 4" "n \<le> 32" "m \<le> 32"
  shows "ip_net_string \<lparr>in_IP = map2 (AND) x (cidr_mask 4 n), in_Mask = cidr_mask 4 n\<rparr>
       = ip_net_string \<lparr>in_IP = map2 (AND) y (cidr_mask 4 m), in_Mask = cidr_mask 4 m\<rparr>
    \<longleftrightarrow> n = m \<and> take n (address_bits x) = take n (address_bits y)"
proof
  let ?X = "map2 (AND) x (cidr_mask 4 n)" and ?Y = "map2 (AND) y (cidr_mask 4 m)"
  assume "ip_net_string \<lparr>in_IP = ?X, in_Mask = cidr_mask 4 n\<rparr> = ip_net_string \<lparr>in_IP = ?Y, in_Mask = cidr_mask 4 m\<rparr>"
  then have "ipv4_string ?X @ ''/'' @ nat_str n = ipv4_string ?Y @ ''/'' @ nat_str m"
    using network_text [of ?X n] network_text [of ?Y m] assms by simp
  then have e: "?X = ?Y" "cidr_mask 4 n = cidr_mask 4 m"
    using parse_network_text [of ?X n, symmetric] parse_network_text [of ?Y m] assms by auto
  have "int n = int m" using arg_cong [OF e(2), of simpleMaskLength] simpleMaskLength_cidr [of n 4] simpleMaskLength_cidr [of m 4] assms by simp
  with e(1) show "n = m \<and> take n (address_bits x) = take n (address_bits y)" using masked_eq [of x 4 y n] assms by simp
next
  assume h: "n = m \<and> take n (address_bits x) = take n (address_bits y)"
  then have "map2 (AND) x (cidr_mask 4 n) = map2 (AND) y (cidr_mask 4 m)" using masked_eq [of x 4 y n] assms by blast
  with h show "ip_net_string \<lparr>in_IP = map2 (AND) x (cidr_mask 4 n), in_Mask = cidr_mask 4 n\<rparr>
    = ip_net_string \<lparr>in_IP = map2 (AND) y (cidr_mask 4 m), in_Mask = cidr_mask 4 m\<rparr>"
    by simp
qed

lemma gateway_network_eq:
  "gateway_network a = (if av_Gateway a = [] \<or> av_PrefixLength a < 1 \<or> av_PrefixLength a > 32 then None
     else map_option (\<lambda>x. \<lparr>in_IP = map2 (AND) x (cidr_mask 4 (nat (av_PrefixLength a))), in_Mask = cidr_mask 4 (nat (av_PrefixLength a))\<rparr>)
       (ipv4_of a))"
  by (auto simp: gateway_network_def adapterIPv4Network_def ipv4_of_def [symmetric] Let_def ipv4_length ip_mask_v4 split: option.split)

definition risk_of :: "adapter_view \<Rightarrow> adapter_view \<Rightarrow> gateway_risk" where
  "risk_of a b = \<lparr>gr_Left = av_Name a, gr_Right = av_Name b, gr_Network = ip_net_string (the (gateway_network a)),
     gr_Gateway = primaryGateway (av_Gateway a)\<rparr>"

lemma shared_gateway_iff:
  assumes "gateway_network a = Some n"
  shows "shared_gateway a n b = (if same_exit a b then Some (risk_of a b) else None)"
proof -
  obtain x where x: "ipv4_of a = Some x" "av_Gateway a \<noteq> []" "1 \<le> av_PrefixLength a" "av_PrefixLength a \<le> 32"
    and n: "n = \<lparr>in_IP = map2 (AND) x (cidr_mask 4 (nat (av_PrefixLength a))), in_Mask = cidr_mask 4 (nat (av_PrefixLength a))\<rparr>"
    using assms by (auto simp: gateway_network_eq split: if_splits)
  show ?thesis
  proof (cases "gateway_network b")
    case None
    then have "\<not> same_exit a b" by (auto simp: gateway_network_eq same_exit_def split: if_splits)
    then show ?thesis using None by (simp add: shared_gateway_def)
  next
    case (Some m)
    then obtain y where y: "ipv4_of b = Some y" "av_Gateway b \<noteq> []" "1 \<le> av_PrefixLength b" "av_PrefixLength b \<le> 32"
      and m: "m = \<lparr>in_IP = map2 (AND) y (cidr_mask 4 (nat (av_PrefixLength b))), in_Mask = cidr_mask 4 (nat (av_PrefixLength b))\<rparr>"
      by (auto simp: gateway_network_eq split: if_splits)
    have "ip_net_string n = ip_net_string m \<longleftrightarrow> av_PrefixLength b = av_PrefixLength a
        \<and> take (nat (av_PrefixLength a)) (address_bits x) = take (nat (av_PrefixLength a)) (address_bits y)"
      unfolding n m using network_text_eq [of x y "nat (av_PrefixLength a)" "nat (av_PrefixLength b)"] x y
      by (auto simp: ipv4_length)
    then show ?thesis using Some assms x y by (auto simp: shared_gateway_def same_exit_def risk_of_def)
  qed
qed

lemma same_exit_network: "same_exit a b \<Longrightarrow> gateway_network a \<noteq> None"
  by (auto simp: same_exit_def gateway_network_eq)

text \<open>
  The warnings about shared gateways are exact: there is one for each pair of selected adapters, in the order of the list, whose addresses
  agree in their equally long network parts and whose gateways are the same, and there is no other.
\<close>

theorem gateway_risks_exact:
  "sharedIPv4GatewayRisks adapters =
     concat (map (\<lambda>i. map (risk_of (adapters ! i)) (filter (same_exit (adapters ! i)) (drop (Suc i) adapters))) [0..<length adapters])"
proof (induction adapters)
  case (Cons a as)
  have "(case gateway_network a of None \<Rightarrow> [] | Some n \<Rightarrow> List.map_filter (shared_gateway a n) as) = map (risk_of a) (filter (same_exit a) as)"
  proof (cases "gateway_network a")
    case None
    then have "filter (same_exit a) as = []" using same_exit_network [of a] by (fastforce simp: filter_empty_conv)
    then show ?thesis using None by simp
  next
    case (Some n)
    have "List.map_filter (shared_gateway a n) as = map (risk_of a) (filter (same_exit a) as)"
      by (induction as) (simp_all add: List.map_filter_def shared_gateway_iff [OF Some])
    then show ?thesis using Some by simp
  qed
  moreover have "[0..<length (a # as)] = 0 # map Suc [0..<length as]" by (simp only: list.size map_Suc_upt upt_conv_Cons) simp
  ultimately show ?case using Cons.IH by (simp only: sharedIPv4GatewayRisks.simps) (simp add: comp_def)
qed simp

section \<open>Examples\<close>

definition example_preflight_env :: preflight_env where
  "example_preflight_env = \<lparr>pe_platform = (\<lambda>_. \<lparr>pf_HostElevated = False, pf_Broker = True, pf_WFPReady = True, pf_WFPDetail = [],
     pf_DefaultRouteAliases = [], pf_RouteScanError = []\<rparr>), pe_engine = Inr ''/b/engine'', pe_singBox = Inr ''/b/sing-box'', pe_now = 0\<rparr>"

text \<open>With a remembered failure the start is still allowed, without the strict route.\<close>

theorem preflight_ready_exact_witness:
  "tp_Ready (checkSelected example_preflight_env DefaultSettings (True, ''BFE'') example_adapters)
   \<and> \<not> tp_EffectiveStrictRoute (checkSelected example_preflight_env DefaultSettings (True, ''BFE'') example_adapters)
   \<and> tp_EffectiveStrictRoute (checkSelected example_preflight_env DefaultSettings (False, []) example_adapters)"
proof -
  have "example_adapters \<noteq> []" using example_adapters_eval(2) by auto
  then show ?thesis
    using preflight_ready_exact [of example_preflight_env DefaultSettings "(True, ''BFE'')" example_adapters]
      preflight_ready_exact [of example_preflight_env DefaultSettings "(False, [])" example_adapters]
    by (simp add: example_preflight_env_def asset_available_def DefaultSettings_def zero_settings_def)
qed

end
