(* ===== verification/Engine_Service.thy ===== *)
theory Engine_Service
  imports Tun_Config Tun_Preflight Api
begin

text \<open>
  \<open>desktop/internal/services/engine.go\<close>: how the desktop starts, stops, watches and restarts the engine. An operation is a
  function on the state of the service that may fail. Everything it asks of the outside (the engine behind its client, the system proxy, the
  network, the clock) is answered by the environment, which may look at all calls made so far; the calls are
  recorded in \<open>es_calls\<close> with whether they succeeded. The support log is left out, texts are in English.
\<close>

section \<open>Calls\<close>

datatype core_call =
    CStatus
  | CStart start_params
  | CStop
  | CDNSResolve dns_params
  | CTunActivate tun_params
  | CTunDeactivate
  | CTelemetry
  | CWFPInspect

datatype act =
    AEnsure bool
  | ARequest core_call
  | AShutdown
  | AEnableProxy int int
  | ARestoreProxy
  | AWriteConfig json
  | AProbe
  | ABoundTCP adapter_view
  | AQuarantines "quarantine_seed list"

type_synonym calls = "(act \<times> bool) list"

text \<open>An error of the client: an answer of the engine, or a failure of the connection.\<close>

datatype client_error = Remote string string | Disconnected string

record client_hello =
  ch_ProtocolVersion :: int
  ch_EngineVersion :: string
  ch_Elevated :: bool

datatype service_failure =
    UnsupportedMode string
  | GateTimeout
  | ServiceClosing
  | RecoveryPending string
  | ProxyBlocked string
  | AdapterScan
  | NoAdapterSelected
  | InvalidRules routing_error
  | UnusableOutbound routing_error
  | PreflightBlocked tun_issue
  | ConnectFailed client_error
  | SettingsRefused settings_error
  | StatusFailed client_error
  | StartFailed client_error
  | ProxyEnableFailed string
  | DNSValidationFailed client_error
  | ConfigFailed sing_error
  | NeedsElevatedCore client_error
  | ActivateFailed client_error
  | TunNotRunning string
  | ConnectivityFailed string
  | RestoreAlsoFailed service_failure string
  | EngineStillRunning
  | NotElevated
  | RepairFailed client_error
  | TelemetryFailed client_error

section \<open>Telemetry\<close>

record adapter_traffic =
  at_Name :: string
  at_Connections :: int
  at_BytesUp :: int
  at_BytesDown :: int
  at_HealthState :: string

record telemetry_result =
  te_SampledAt :: go_time
  te_Adapters :: "adapter_traffic list"
  te_Quarantines :: "quarantine_seed list"
  te_TotalConnections :: int
  te_TotalUp :: int
  te_TotalDown :: int

record telemetry_sample =
  sm_at :: go_time
  sm_down :: int
  sm_up :: int
  sm_adapters :: "(string \<times> int \<times> int) list"

definition no_sample :: telemetry_sample where
  "no_sample = \<lparr>sm_at = 0, sm_down = 0, sm_up = 0, sm_adapters = []\<rparr>"

text \<open>A rate is a number of bytes and the time it took, \<^const>\<open>None\<close> the rate 0 of a sample that cannot be compared.\<close>

type_synonym rate = "(int \<times> duration) option"

record adapter_runtime =
  ar_ID :: string
  ar_Download :: rate
  ar_Upload :: rate
  ar_Connections :: int
  ar_BytesDown :: int
  ar_BytesUp :: int
  ar_HealthState :: string

datatype reason =
    NoReason | EngineReason string | DNSNotice | DNSNoticeFailed | WFPNotice | WFPNoticeFailed
  | RecoveryError string | RecoveryNotice string | WatchdogReason

record engine_snapshot =
  en_Phase :: string
  en_Mode :: string
  en_Weighted :: bool
  en_Reason :: reason
  en_CoreConnected :: bool
  en_CoreVersion :: string
  en_CoreElevated :: bool
  en_Download :: rate
  en_Upload :: rate
  en_Connections :: int
  en_SessionBytes :: int
  en_Adapters :: "adapter_runtime list"
  en_SampledAt :: go_time

section \<open>State and environment\<close>

text \<open>
  \<open>es_stops\<close> counts the goroutines with which the watchdog stops the engine; they are steps of their own.
\<close>

record engine_service =
  es_transition :: string
  es_sample :: telemetry_sample
  es_lastCheck :: go_time
  es_failures :: int
  es_watchdogStopping :: bool
  es_dnsFallback :: bool
  es_wfpFallback :: bool
  es_restarting :: bool
  es_notice :: reason
  es_recoveryNotice :: string
  es_recoveryError :: string
  es_hostElevated :: bool
  es_proxySafe :: bool
  es_hostDetail :: string
  es_clash :: "string \<times> string"
  es_closing :: bool
  es_settings :: settings_service
  es_disk :: settings_disk
  es_stops :: nat
  es_calls :: calls

record blocked_entry =
  bl_Adapter :: string
  bl_Domain :: string
  bl_ExpiresAt :: go_time
  bl_Permanent :: bool

text \<open>
  The environment. \<open>ee_acquire\<close> says whether the lifecycle gate was free before the deadline; the other fields are the answers to
  the calls, functions of the calls made before.
\<close>

record engine_env =
  ee_acquire :: bool
  ee_idna :: "string \<Rightarrow> string option"
  ee_settings :: "calls \<Rightarrow> settings_env"
  ee_interfaces :: "calls \<Rightarrow> net_interface list option"
  ee_metadata :: "int \<Rightarrow> adapter_metadata option"
  ee_preflight :: preflight_env
  ee_compatibility :: compatibility_plan
  ee_blocked :: "blocked_entry list option"
  ee_config :: config_env
  ee_ensure :: "calls \<Rightarrow> bool \<Rightarrow> client_error + client_hello"
  ee_hello :: "calls \<Rightarrow> client_hello"
  ee_status :: "calls \<Rightarrow> client_error + string \<times> string"
  ee_start :: "calls \<Rightarrow> start_params \<Rightarrow> client_error + endpoints"
  ee_stop :: "calls \<Rightarrow> client_error + unit"
  ee_dns :: "calls \<Rightarrow> dns_params \<Rightarrow> client_error + dns_answer"
  ee_activate :: "calls \<Rightarrow> tun_params \<Rightarrow> client_error + string \<times> string"
  ee_deactivate :: "calls \<Rightarrow> client_error + unit"
  ee_telemetry :: "calls \<Rightarrow> client_error + telemetry_result"
  ee_inspect :: "calls \<Rightarrow> client_error + wfp_status"
  ee_enableProxy :: "calls \<Rightarrow> int \<Rightarrow> int \<Rightarrow> string + unit"
  ee_restoreProxy :: "calls \<Rightarrow> string + unit"
  ee_probe :: "calls \<Rightarrow> string + string"
  ee_boundTCP :: "calls \<Rightarrow> adapter_view \<Rightarrow> bool"
  ee_now :: "calls \<Rightarrow> go_time"

section \<open>Operations that may fail\<close>

type_synonym 'a operation = "engine_service \<Rightarrow> (service_failure + 'a) \<times> engine_service"

definition ok :: "'a \<Rightarrow> 'a operation" where
  "ok x s = (Inr x, s)"

definition fail :: "service_failure \<Rightarrow> 'a operation" where
  "fail e s = (Inl e, s)"

definition andThen :: "'a operation \<Rightarrow> ('a \<Rightarrow> 'b operation) \<Rightarrow> 'b operation" where
  "andThen m f s = (case m s of (Inl e, s) \<Rightarrow> (Inl e, s) | (Inr x, s) \<Rightarrow> f x s)"

definition change :: "(engine_service \<Rightarrow> engine_service) \<Rightarrow> unit operation" where
  "change g s = (Inr (), g s)"

definition called :: "act \<Rightarrow> bool \<Rightarrow> engine_service \<Rightarrow> engine_service" where
  "called a b s = s\<lparr>es_calls := es_calls s @ [(a, b)]\<rparr>"

text \<open>A call of the outside: its answer stays available to the code.\<close>

definition ask :: "act \<Rightarrow> (calls \<Rightarrow> 'e + 'a) \<Rightarrow> ('e + 'a) operation" where
  "ask a answer s = (let r = answer (es_calls s) in (Inr r, called a (\<not> isl r) s))"

text \<open>A call whose error ends the operation.\<close>

definition demand :: "act \<Rightarrow> (calls \<Rightarrow> 'e + 'a) \<Rightarrow> ('e \<Rightarrow> service_failure) \<Rightarrow> 'a operation" where
  "demand a answer wrap s =
     (let r = answer (es_calls s) in (case r of Inl e \<Rightarrow> Inl (wrap e) | Inr x \<Rightarrow> Inr x, called a (\<not> isl r) s))"

definition from_settings ::
    "engine_env \<Rightarrow> (settings_env \<Rightarrow> settings_service \<Rightarrow> settings_disk \<Rightarrow> settings_result) \<Rightarrow> (settings_error + app_settings) operation" where
  "from_settings env f s =
     (let (r, ss, d) = f (ee_settings env (es_calls s)) (es_settings s) (es_disk s) in (Inr r, s\<lparr>es_settings := ss, es_disk := d\<rparr>))"

definition preferences :: "engine_env \<Rightarrow> app_settings operation" where
  "preferences env s = (Inr (settings_Get (ee_settings env (es_calls s)) (es_settings s)), s)"

definition adapters_now :: "engine_env \<Rightarrow> engine_service \<Rightarrow> adapter_view list option" where
  "adapters_now env s =
     adapter_List (settings_Get (ee_settings env (es_calls s)) (es_settings s)) (ee_metadata env) (ee_interfaces env (es_calls s))"

section \<open>Starting\<close>

definition no_clash :: "string \<times> string" where "no_clash = ([], [])"

definition default_detail :: string where "default_detail = ''the administrator and the desktop user cannot be shown to be the same''"

text \<open>A session of the user forgets the fallbacks of the one before; a restart keeps them.\<close>

definition reset_flags :: "engine_service \<Rightarrow> engine_service" where
  "reset_flags s = (if \<not> es_restarting s then s\<lparr>es_dnsFallback := False, es_wfpFallback := False, es_notice := NoReason\<rparr> else s)"

text \<open>The first locked section of \<open>Start\<close>: the fallbacks in force.\<close>

definition start_guard :: "string \<Rightarrow> (bool \<times> bool) operation" where
  "start_guard mode s =
     (if es_closing s then (Inl ServiceClosing, s)
      else if es_recoveryError s \<noteq> [] then (Inl (RecoveryPending (es_recoveryError s)), s)
      else if mode = ''proxy'' \<and> es_hostElevated s \<and> \<not> es_proxySafe s
        then (Inl (ProxyBlocked (if es_hostDetail s = [] then default_detail else es_hostDetail s)), s)
      else
        let s = reset_flags s
        in (Inr (es_dnsFallback s, es_wfpFallback s), s\<lparr>es_transition := ''starting'', es_clash := no_clash\<rparr>))"

definition clearTransition :: "string \<Rightarrow> engine_service \<Rightarrow> engine_service" where
  "clearTransition expected s = (if es_transition s = expected then s\<lparr>es_transition := []\<rparr> else s)"

definition start_selected :: "engine_env \<Rightarrow> adapter_view list operation" where
  "start_selected env s =
     (case adapters_now env s of
        None \<Rightarrow> (Inl AdapterScan, s)
      | Some available \<Rightarrow>
          let selected = filter av_Selected available
          in if selected = [] then (Inl NoAdapterSelected, s) else (Inr selected, s))"

definition start_rules :: "engine_env \<Rightarrow> string \<Rightarrow> app_settings \<Rightarrow> adapter_view list \<Rightarrow> routing_rule list operation" where
  "start_rules env mode settings selected s =
     (if mode \<noteq> ''tun'' then (Inr [], s)
      else case normalizeRulesStrict (ee_idna env) (st_Rules settings) of
             Inl e \<Rightarrow> (Inl (InvalidRules e), s)
           | Inr rules \<Rightarrow>
               (case validateRoutingOutbounds rules selected of
                  Some e \<Rightarrow> (Inl (UnusableOutbound e), s)
                | None \<Rightarrow> (Inr rules, s)))"

text \<open>The preflight of a TUN start; the result is whether the strict route is used.\<close>

definition start_preflight :: "engine_env \<Rightarrow> string \<Rightarrow> app_settings \<Rightarrow> bool \<Rightarrow> adapter_view list \<Rightarrow> bool operation" where
  "start_preflight env mode settings wfpFallback selected s =
     (if mode \<noteq> ''tun'' then (Inr (st_StrictRoute settings \<and> \<not> wfpFallback), s)
      else
        let senv = ee_settings env (es_calls s);
            preflight = checkSelected (ee_preflight env) (settings_Get senv (es_settings s))
              (rememberedWFPCompatibilityFailure senv (es_settings s)) selected
        in case firstTunBlocker preflight of
             Some blocker \<Rightarrow> (Inl (PreflightBlocked blocker), s)
           | None \<Rightarrow> (Inr (tp_EffectiveStrictRoute preflight \<and> \<not> wfpFallback), s))"

text \<open>The mode is remembered when it changed.\<close>

definition start_save_mode :: "engine_env \<Rightarrow> string \<Rightarrow> app_settings \<Rightarrow> unit operation" where
  "start_save_mode env mode settings =
     (if st_Mode settings = mode then ok ()
      else andThen (from_settings env (\<lambda>senv. UpdateHome senv mode (st_Weighted settings) (st_SelectedIDs settings) (st_Weights settings)))
             (\<lambda>r. case r of Inl e \<Rightarrow> fail (SettingsRefused e) | Inr _ \<Rightarrow> ok ()))"

text \<open>An engine that failed is stopped first.\<close>

definition start_reset :: "engine_env \<Rightarrow> unit operation" where
  "start_reset env =
     andThen (demand (ARequest CStatus) (ee_status env) StatusFailed) (\<lambda>(state, _).
       if state = ''failed'' then andThen (ask (ARequest CStop) (ee_stop env)) (\<lambda>_. ok ()) else ok ())"

definition seeds_of :: "go_time \<Rightarrow> blocked_entry list \<Rightarrow> quarantine_seed list" where
  "seeds_of now entries =
     map (\<lambda>e. \<lparr>qs_Adapter = bl_Adapter e, qs_Domain = bl_Domain e,
               qs_ExpiresAt = (if bl_Permanent e then add_years 100 now else bl_ExpiresAt e)\<rparr>) entries"

definition start_payload ::
    "string \<Rightarrow> app_settings \<Rightarrow> adapter_view list \<Rightarrow> string \<Rightarrow> go_time \<Rightarrow> blocked_entry list option \<Rightarrow> start_params" where
  "start_payload mode settings selected policy now blocked =
     \<lparr>ep_Mode = (if mode = ''proxy'' then ''proxy'' else ''tun_tcp_pool''), ep_ListenHost = ''127.0.0.1'',
      ep_SOCKSPort = (if mode = ''proxy'' then st_SOCKSPort settings else 0),
      ep_HTTPPort = (if mode = ''proxy'' then st_HTTPPort settings else 0),
      ep_Weighted = st_Weighted settings, ep_Adapters = engineAdapters selected,
      ep_Channels = (if mode = ''proxy'' then [] else engineChannels selected), ep_ConnectTimeoutMS = 6000,
      ep_DNS = \<lparr>ds_Policy = policy, ds_LegacyServers = [st_DNSServer settings], ds_CacheTTLMS = 60000, ds_QueryTimeoutMS = 4000\<rparr>,
      ep_DomainIsolation = Some (st_BlockedBypass settings), ep_DomainIsolationExpiry = Some (st_BlockedExpiry settings),
      ep_DomainQuarantines =
        (if st_BlockedBypass settings then (case blocked of Some entries \<Rightarrow> seeds_of now entries | None \<Rightarrow> []) else [])\<rparr>"

text \<open>Taking back what a start has done; the result is the cause.\<close>

definition rollback :: "engine_env \<Rightarrow> service_failure \<Rightarrow> 'a operation" where
  "rollback env cause =
     andThen (ask (ARequest CTunDeactivate) (ee_deactivate env)) (\<lambda>_.
     andThen (ask (ARequest CStop) (ee_stop env)) (\<lambda>_.
     andThen (ask ARestoreProxy (ee_restoreProxy env)) (\<lambda>restored.
     andThen (change (\<lambda>s. s\<lparr>es_clash := no_clash\<rparr>)) (\<lambda>_.
       fail (case restored of Inl e \<Rightarrow> RestoreAlsoFailed cause e | Inr _ \<Rightarrow> cause)))))"

text \<open>A call whose error is rolled back.\<close>

definition demand_or_rollback :: "engine_env \<Rightarrow> act \<Rightarrow> (calls \<Rightarrow> 'e + 'a) \<Rightarrow> ('e \<Rightarrow> service_failure) \<Rightarrow> 'a operation" where
  "demand_or_rollback env a answer wrap =
     andThen (ask a answer) (\<lambda>r. case r of Inl e \<Rightarrow> rollback env (wrap e) | Inr x \<Rightarrow> ok x)"

definition start_proxy_mode :: "engine_env \<Rightarrow> app_settings \<Rightarrow> unit operation" where
  "start_proxy_mode env settings =
     demand_or_rollback env (AEnableProxy (st_HTTPPort settings) (st_SOCKSPort settings))
       (\<lambda>calls. ee_enableProxy env calls (st_HTTPPort settings) (st_SOCKSPort settings)) ProxyEnableFailed"

definition config_path :: string where "config_path = ''runtime/sing-box.json''"

definition write_config ::
    "engine_env \<Rightarrow> endpoints \<Rightarrow> adapter_view list \<Rightarrow> dns_answer \<Rightarrow> routing_rule list \<Rightarrow> bool \<Rightarrow> (string \<times> string \<times> string) operation" where
  "write_config env endpoints selected answer rules strict s =
     (case writeSingBoxConfig (ee_config env) endpoints (hd selected) answer rules (ee_compatibility env) strict of
        Inl e \<Rightarrow> rollback env (ConfigFailed e) s
      | Inr (singBox, clash, config) \<Rightarrow> (Inr (singBox, clash), called (AWriteConfig config) True s))"

definition start_tun_mode ::
    "engine_env \<Rightarrow> app_settings \<Rightarrow> client_hello \<Rightarrow> adapter_view list \<Rightarrow> routing_rule list \<Rightarrow> bool \<Rightarrow> endpoints \<Rightarrow> unit operation" where
  "start_tun_mode env settings hello selected rules strict endpoints =
     (let query = \<lparr>np_Domain = ''www.msftconnecttest.com'', np_Adapter = av_Name (hd selected), np_RecordType = ''A''\<rparr> in
     andThen (demand_or_rollback env (ARequest (CDNSResolve query)) (\<lambda>calls. ee_dns env calls query) DNSValidationFailed) (\<lambda>answer.
     andThen (write_config env endpoints selected answer rules strict) (\<lambda>(singBox, clash).
     let params = \<lparr>tp_Executable = singBox, tp_ConfigPath = config_path, tp_StartupTimeoutMS = 1500, tp_StrictRoute = strict\<rparr> in
     andThen (demand_or_rollback env (ARequest (CTunActivate params)) (\<lambda>calls. ee_activate env calls params)
                (if ch_Elevated hello then ActivateFailed else NeedsElevatedCore)) (\<lambda>(state, lastError).
     if state \<noteq> ''running'' then rollback env (TunNotRunning lastError) else
     andThen (change (\<lambda>s. s\<lparr>es_clash := clash\<rparr>)) (\<lambda>_.
     andThen (if strict then andThen (from_settings env ClearWFPCompatibilityFailure) (\<lambda>_. ok ()) else ok ()) (\<lambda>_.
     if st_ForceTUNBypass settings then ok ()
     else andThen (demand_or_rollback env AProbe (ee_probe env) ConnectivityFailed) (\<lambda>_. ok ())))))))"

definition started_snapshot :: "string \<Rightarrow> app_settings \<Rightarrow> client_hello \<Rightarrow> go_time \<Rightarrow> engine_snapshot" where
  "started_snapshot mode settings hello now =
     \<lparr>en_Phase = ''running'', en_Mode = mode, en_Weighted = st_Weighted settings, en_Reason = NoReason, en_CoreConnected = True,
      en_CoreVersion = ch_EngineVersion hello, en_CoreElevated = ch_Elevated hello, en_Download = None, en_Upload = None,
      en_Connections = 0, en_SessionBytes = 0, en_Adapters = [], en_SampledAt = now\<rparr>"

definition start_engine_calls ::
    "engine_env \<Rightarrow> string \<Rightarrow> bool \<Rightarrow> app_settings \<Rightarrow> adapter_view list \<Rightarrow> routing_rule list \<Rightarrow> bool \<Rightarrow> client_hello \<Rightarrow> engine_snapshot operation" where
  "start_engine_calls env mode dnsFallback settings selected rules strict hello s =
     (let policy = (if mode = ''tun'' \<and> dnsFallback then ''off'' else st_DNSPolicy settings);
          payload = start_payload mode settings selected policy (ee_now env (es_calls s)) (ee_blocked env)
      in andThen (demand (ARequest (CStart payload)) (\<lambda>calls. ee_start env calls payload) StartFailed) (\<lambda>endpoints.
         andThen (if mode = ''proxy'' then start_proxy_mode env settings
                  else start_tun_mode env settings hello selected rules strict endpoints) (\<lambda>_.
         andThen (change (\<lambda>s. s\<lparr>es_sample := no_sample, es_lastCheck := ee_now env (es_calls s), es_failures := 0\<rparr>)) (\<lambda>_ s.
           (Inr (started_snapshot mode settings hello (ee_now env (es_calls s))), s)))) s)"

text \<open>Everything that is checked before the engine is asked for anything.\<close>

definition start_prepare ::
    "engine_env \<Rightarrow> string \<Rightarrow> bool \<Rightarrow> (adapter_view list \<times> app_settings \<times> routing_rule list \<times> bool) operation" where
  "start_prepare env mode wfpFallback =
     andThen (start_selected env) (\<lambda>selected.
     andThen (preferences env) (\<lambda>settings.
     andThen (start_rules env mode settings selected) (\<lambda>rules.
     andThen (start_preflight env mode settings wfpFallback selected) (\<lambda>strict.
       ok (selected, settings, rules, strict)))))"

definition start_connect :: "engine_env \<Rightarrow> string \<Rightarrow> app_settings \<Rightarrow> client_hello operation" where
  "start_connect env mode settings =
     andThen (demand (AEnsure (mode = ''tun'')) (\<lambda>calls. ee_ensure env calls (mode = ''tun'')) ConnectFailed) (\<lambda>hello.
     andThen (start_save_mode env mode settings) (\<lambda>_.
     andThen (start_reset env) (\<lambda>_. ok hello)))"

definition start_body :: "engine_env \<Rightarrow> string \<Rightarrow> bool \<times> bool \<Rightarrow> engine_snapshot operation" where
  "start_body env mode fallbacks =
     andThen (start_prepare env mode (snd fallbacks)) (\<lambda>(selected, settings, rules, strict).
     andThen (start_connect env mode settings) (\<lambda>hello.
       start_engine_calls env mode (fst fallbacks) settings selected rules strict hello))"

definition service_Start :: "engine_env \<Rightarrow> string \<Rightarrow> engine_snapshot operation" where
  "service_Start env mode s =
     (if mode \<noteq> ''proxy'' \<and> mode \<noteq> ''tun'' then (Inl (UnsupportedMode mode), s)
      else if \<not> ee_acquire env then (Inl GateTimeout, s)
      else case start_guard mode s of
             (Inl e, s) \<Rightarrow> (Inl e, s)
           | (Inr fallbacks, s) \<Rightarrow> (let (r, s) = start_body env mode fallbacks s in (r, clearTransition ''starting'' s)))"

section \<open>Stopping\<close>

text \<open>
  A request to stop. The answer \<open>invalid_state\<close>, of an engine that has nothing to stop, is not an error of the operation; the call
  itself is recorded as one that was not answered with success.
\<close>

definition stop_request :: "act \<Rightarrow> (calls \<Rightarrow> client_error + unit) \<Rightarrow> client_error option operation" where
  "stop_request a answer s =
     (let r = answer (es_calls s);
          failed = (case r of Inl (Remote code text) \<Rightarrow> if code = ''invalid_state'' then None else Some (Remote code text)
                            | Inl e \<Rightarrow> Some e
                            | Inr _ \<Rightarrow> None)
      in (Inr failed, called a (\<not> isl r) s))"

datatype stop_error = StopTun client_error | StopEngine client_error | StopRestore string | StopConnect client_error

definition first_of :: "'a option \<Rightarrow> 'a option \<Rightarrow> 'a option" where
  "first_of a b = (if a = None then b else a)"

definition stop_requests :: "engine_env \<Rightarrow> engine_service \<Rightarrow> stop_error option \<times> engine_service" where
  "stop_requests env s =
     (case stop_request (ARequest CTunDeactivate) (ee_deactivate env) s of
        (Inl _, s) \<Rightarrow> (None, s)
      | (Inr tunError, s) \<Rightarrow>
          (case stop_request (ARequest CStop) (ee_stop env) s of
             (Inl _, s) \<Rightarrow> (None, s)
           | (Inr engineError, s) \<Rightarrow> (first_of (map_option StopTun tunError) (map_option StopEngine engineError), s)))"

text \<open>
  \<open>Stop\<close>: the snapshot and the first error, if any; a gate that is not obtained is the failure \<^const>\<open>GateTimeout\<close>. First everything
  it asks of the outside.
\<close>

definition stop_outside :: "engine_env \<Rightarrow> engine_service \<Rightarrow> (client_error + client_hello) \<times> stop_error option \<times> engine_service" where
  "stop_outside env s =
     (let ensured = ee_ensure env (es_calls s) False;
          (firstError, s) = (case ensured of
              Inl _ \<Rightarrow> (None, called (AEnsure False) False s)
            | Inr _ \<Rightarrow> stop_requests env (called (AEnsure False) True s));
          restored = ee_restoreProxy env (es_calls s)
      in (ensured, first_of firstError (case restored of Inl e \<Rightarrow> Some (StopRestore e) | Inr _ \<Rightarrow> None),
          called ARestoreProxy (\<not> isl restored) s))"

definition stopped_snapshot :: "engine_env \<Rightarrow> client_error + client_hello \<Rightarrow> engine_service \<Rightarrow> engine_snapshot" where
  "stopped_snapshot env ensured s =
     (let settings = settings_Get (ee_settings env (es_calls s)) (es_settings s)
      in \<lparr>en_Phase = ''stopped'', en_Mode = st_Mode settings, en_Weighted = st_Weighted settings, en_Reason = NoReason,
          en_CoreConnected = (\<not> isl ensured), en_CoreVersion = (case ensured of Inr h \<Rightarrow> ch_EngineVersion h | Inl _ \<Rightarrow> []),
          en_CoreElevated = (case ensured of Inr h \<Rightarrow> ch_Elevated h | Inl _ \<Rightarrow> False), en_Download = None, en_Upload = None,
          en_Connections = 0, en_SessionBytes = 0, en_Adapters = [], en_SampledAt = ee_now env (es_calls s)\<rparr>)"

definition stop_body :: "engine_env \<Rightarrow> engine_service \<Rightarrow> (engine_snapshot \<times> stop_error option) \<times> engine_service" where
  "stop_body env s =
     (let (ensured, firstError, s) = stop_outside env (s\<lparr>es_transition := ''stopping''\<rparr>);
          s = reset_flags (s\<lparr>es_sample := no_sample, es_clash := no_clash\<rparr>);
          firstError = first_of firstError (case ensured of Inl e \<Rightarrow> Some (StopConnect e) | Inr _ \<Rightarrow> None)
      in ((stopped_snapshot env ensured s, firstError), s))"

definition service_Stop :: "engine_env \<Rightarrow> (engine_snapshot \<times> stop_error option) operation" where
  "service_Stop env s =
     (if \<not> ee_acquire env then (Inl GateTimeout, s)
      else let (r, s) = stop_body env s in (Inr r, clearTransition ''stopping'' s))"

end
