(* ===== verification/Engine_Events.thy ===== *)
theory Engine_Events
  imports Engine_Service
begin

text \<open>
  The rest of \<open>desktop/internal/services/engine.go\<close>: the snapshots with the watchdog of the TUN, the restarts that a core event
  asks for, the repair of the packet filter, and the service as a transition system. Operations that hold the
  lifecycle gate are one step; a restart is the three steps \<open>Stop\<close>, \<open>Start\<close> and its end, between which anything else
  can happen; the goroutine of the watchdog is a step of its own.
\<close>

section \<open>Construction\<close>

text \<open>\<open>newEngineService\<close>; the first answer is that of \<open>restoreSystemProxyDetailed\<close>.\<close>

definition newEngineService :: "string + string \<Rightarrow> bool \<Rightarrow> bool \<Rightarrow> string \<Rightarrow> settings_service \<Rightarrow> settings_disk \<Rightarrow> engine_service" where
  "newEngineService restored elevated proxySafe detail settings disk =
     (let recover = \<not> elevated \<or> proxySafe
      in \<lparr>es_transition = [], es_sample = no_sample, es_lastCheck = 0, es_failures = 0, es_watchdogStopping = False,
          es_dnsFallback = False, es_wfpFallback = False, es_restarting = False, es_notice = NoReason,
          es_recoveryNotice = (case restored of Inr notice \<Rightarrow> if recover then notice else [] | Inl _ \<Rightarrow> []),
          es_recoveryError = (case restored of Inl e \<Rightarrow> if recover then e else [] | Inr _ \<Rightarrow> []),
          es_hostElevated = elevated, es_proxySafe = proxySafe, es_hostDetail = trim_space detail, es_clash = no_clash,
          es_closing = False, es_settings = settings, es_disk = disk, es_stops = 0, es_calls = []\<rparr>)"

section \<open>Restarts\<close>

datatype fallback = FallbackDNS | FallbackWFP

text \<open>Where the goroutine that consumes the core events is: a restart remembers whether a step failed.\<close>

datatype handler = HIdle | HStop fallback | HStart fallback bool | HEnd fallback bool

definition wfp_markers :: "string list" where
  "wfp_markers = [''wfp'', ''bfe'', ''fwpm'', ''filtering platform'', ''strict route'', ''dns leak'']"

definition isWFPCompatibilityError :: "string \<Rightarrow> bool" where
  "isWFPCompatibilityError message = list_ex (\<lambda>m. sublist m (to_lower message)) wfp_markers"

definition dns_restart_begin :: "engine_env \<Rightarrow> engine_service \<Rightarrow> bool \<times> engine_service" where
  "dns_restart_begin env s =
     (let settings = settings_Get (ee_settings env (es_calls s)) (es_settings s)
      in if es_closing s \<or> st_Mode settings \<noteq> ''tun'' \<or> es_dnsFallback s \<or> es_restarting s then (False, s)
         else (True, s\<lparr>es_dnsFallback := True, es_restarting := True, es_notice := NoReason\<rparr>))"

definition wfp_restart_begin :: "engine_env \<Rightarrow> string \<Rightarrow> engine_service \<Rightarrow> bool \<times> engine_service" where
  "wfp_restart_begin env lastError s =
     (let settings = settings_Get (ee_settings env (es_calls s)) (es_settings s)
      in if es_closing s \<or> st_Mode settings \<noteq> ''tun'' \<or> \<not> st_StrictRoute settings \<or> es_wfpFallback s \<or> es_restarting s then (False, s)
         else
           let s = s\<lparr>es_wfpFallback := True, es_restarting := True, es_notice := NoReason\<rparr>
           in (True, snd (from_settings env (\<lambda>senv. RememberWFPCompatibilityFailure senv lastError) s)))"

definition restart_end :: "fallback \<Rightarrow> bool \<Rightarrow> engine_service \<Rightarrow> engine_service" where
  "restart_end k failed s =
     s\<lparr>es_restarting := False,
       es_notice := (case k of FallbackDNS \<Rightarrow> if failed then DNSNoticeFailed else DNSNotice
                             | FallbackWFP \<Rightarrow> if failed then WFPNoticeFailed else WFPNotice)\<rparr>"

datatype core_notice = EvDNSFallback | EvTunState string string | EvLog

text \<open>One event taken by \<open>consumeCoreEvents\<close>.\<close>

definition consume_event :: "engine_env \<Rightarrow> core_notice \<Rightarrow> engine_service \<Rightarrow> engine_service \<times> handler" where
  "consume_event env ev s =
     (case ev of
        EvDNSFallback \<Rightarrow> (let (begun, s) = dns_restart_begin env s in (s, if begun then HStop FallbackDNS else HIdle))
      | EvTunState state lastError \<Rightarrow>
          if state = ''failed'' \<and> isWFPCompatibilityError lastError
          then (let (begun, s) = wfp_restart_begin env lastError s in (s, if begun then HStop FallbackWFP else HIdle))
          else (s, HIdle)
      | EvLog \<Rightarrow> (s, HIdle))"

definition restart_step :: "engine_env \<Rightarrow> engine_service \<Rightarrow> handler \<Rightarrow> (engine_service \<times> handler) option" where
  "restart_step env s h =
     (case h of
        HIdle \<Rightarrow> None
      | HStop k \<Rightarrow>
          (let (r, s) = service_Stop env s in Some (s, HStart k (case r of Inl _ \<Rightarrow> True | Inr (_, e) \<Rightarrow> e \<noteq> None)))
      | HStart k failed \<Rightarrow> (let (r, s) = service_Start env ''tun'' s in Some (s, HEnd k (failed \<or> isl r)))
      | HEnd k failed \<Rightarrow> Some (restart_end k failed s, HIdle))"

section \<open>Snapshots\<close>

definition snapshot_rate :: "duration \<Rightarrow> int \<Rightarrow> int \<Rightarrow> rate" where
  "snapshot_rate elapsed now old =
     (if 0 < elapsed \<and> elapsed < 30 * Second then Some (max 0 (wrap64 (now - old)), elapsed) else None)"

definition runtime_of :: "duration \<Rightarrow> telemetry_sample \<Rightarrow> adapter_traffic \<Rightarrow> adapter_runtime" where
  "runtime_of elapsed before item =
     (let rate = (\<lambda>now pick. case map_of (sm_adapters before) (at_Name item) of
                    None \<Rightarrow> None | Some prev \<Rightarrow> snapshot_rate elapsed now (pick prev))
      in \<lparr>ar_ID = at_Name item, ar_Download = rate (at_BytesDown item) fst, ar_Upload = rate (at_BytesUp item) snd,
          ar_Connections = at_Connections item, ar_BytesDown = at_BytesDown item, ar_BytesUp = at_BytesUp item,
          ar_HealthState = at_HealthState item\<rparr>)"

definition sample_of :: "telemetry_result \<Rightarrow> telemetry_sample" where
  "sample_of t = \<lparr>sm_at = te_SampledAt t, sm_down = te_TotalDown t, sm_up = te_TotalUp t,
     sm_adapters = rev (map (\<lambda>i. (at_Name i, at_BytesDown i, at_BytesUp i)) (te_Adapters t))\<rparr>"

definition measure_traffic :: "telemetry_result \<Rightarrow> engine_snapshot \<Rightarrow> engine_service \<Rightarrow> engine_snapshot \<times> engine_service" where
  "measure_traffic t snap s =
     (let before = es_sample s; elapsed = te_SampledAt t - sm_at before
      in (snap\<lparr>en_SampledAt := te_SampledAt t, en_Connections := te_TotalConnections t,
               en_SessionBytes := wrap64 (te_TotalDown t + te_TotalUp t),
               en_Download := snapshot_rate elapsed (te_TotalDown t) (sm_down before),
               en_Upload := snapshot_rate elapsed (te_TotalUp t) (sm_up before),
               en_Adapters := map (runtime_of elapsed before) (te_Adapters t)\<rparr>,
          s\<lparr>es_sample := sample_of t\<rparr>))"

fun bound_loop :: "engine_env \<Rightarrow> adapter_view list \<Rightarrow> engine_service \<Rightarrow> bool \<times> engine_service" where
  "bound_loop env [] s = (False, s)"
| "bound_loop env (a # as) s =
     (let reached = ee_boundTCP env (es_calls s) a; s = called (ABoundTCP a) reached s
      in if reached then (True, s) else bound_loop env as s)"

definition physical_ok :: "engine_env \<Rightarrow> engine_service \<Rightarrow> bool \<times> engine_service" where
  "physical_ok env s =
     (case adapters_now env s of None \<Rightarrow> (False, s) | Some available \<Rightarrow> bound_loop env (filter av_Selected available) s)"

text \<open>The count of the watchdog; the result is whether the engine is to be stopped.\<close>

definition watchdog_count :: "bool \<Rightarrow> bool \<Rightarrow> engine_service \<Rightarrow> bool \<times> engine_service" where
  "watchdog_count tunOK physicalOK s =
     (if tunOK then (False, s\<lparr>es_failures := 0\<rparr>)
      else
        let s = s\<lparr>es_failures := (if physicalOK then es_failures s + 1 else 0)\<rparr>
        in if es_failures s \<ge> 3 \<and> \<not> es_watchdogStopping s
           then (True, s\<lparr>es_failures := 0, es_watchdogStopping := True, es_stops := es_stops s + 1\<rparr>)
           else (False, s))"

definition watchdog_check :: "engine_env \<Rightarrow> app_settings \<Rightarrow> engine_snapshot \<Rightarrow> engine_service \<Rightarrow> engine_snapshot \<times> engine_service" where
  "watchdog_check env settings snap s =
     (let now = ee_now env (es_calls s)
      in if st_Mode settings = ''tun'' \<and> \<not> st_ForceTUNBypass settings \<and> now - es_lastCheck s \<ge> 30 * Second then
           (let s = s\<lparr>es_lastCheck := now\<rparr>;
                probe = ee_probe env (es_calls s);
                s = called AProbe (\<not> isl probe) s;
                (physicalOK, s) = (if isl probe then physical_ok env s else (False, s));
                (shouldStop, s) = watchdog_count (\<not> isl probe) physicalOK s
            in (if shouldStop then snap\<lparr>en_Phase := ''failed'', en_Reason := WatchdogReason\<rparr> else snap, s))
         else (snap, s))"

definition status_reason :: "engine_service \<Rightarrow> string \<Rightarrow> reason" where
  "status_reason s reason =
     (if es_notice s \<noteq> NoReason then es_notice s
      else if es_recoveryError s \<noteq> [] then RecoveryError (es_recoveryError s)
      else if es_recoveryNotice s \<noteq> [] \<and> reason = [] then RecoveryNotice (es_recoveryNotice s)
      else if reason = [] then NoReason else EngineReason reason)"

definition blank_snapshot :: "string \<Rightarrow> app_settings \<Rightarrow> bool \<Rightarrow> go_time \<Rightarrow> engine_snapshot" where
  "blank_snapshot phase settings connected now =
     \<lparr>en_Phase = phase, en_Mode = st_Mode settings, en_Weighted = st_Weighted settings, en_Reason = NoReason,
      en_CoreConnected = connected, en_CoreVersion = [], en_CoreElevated = False, en_Download = None, en_Upload = None,
      en_Connections = 0, en_SessionBytes = 0, en_Adapters = [], en_SampledAt = now\<rparr>"

text \<open>What follows the answer with the telemetry, and the answer with the status.\<close>

definition snapshot_traffic :: "engine_env \<Rightarrow> app_settings \<Rightarrow> engine_snapshot \<Rightarrow> telemetry_result \<Rightarrow> engine_snapshot operation" where
  "snapshot_traffic env settings snap t s =
     (let (snap, s) = measure_traffic t snap s;
          s = (if st_BlockedBypass settings then called (AQuarantines (te_Quarantines t)) True s else s);
          (snap, s) = watchdog_check env settings snap s
      in (Inr snap, s))"

definition snapshot_status :: "engine_env \<Rightarrow> client_hello \<Rightarrow> string \<Rightarrow> string \<Rightarrow> app_settings \<Rightarrow> engine_snapshot operation" where
  "snapshot_status env hello state reason settings s =
     (let snap = (blank_snapshot state settings True (ee_now env (es_calls s)))\<lparr>en_CoreVersion := ch_EngineVersion hello,
                   en_CoreElevated := ch_Elevated hello, en_Reason := status_reason s reason\<rparr>
      in if state \<noteq> ''running'' then (Inr snap, s\<lparr>es_sample := no_sample\<rparr>)
         else andThen (demand (ARequest CTelemetry) (ee_telemetry env) TelemetryFailed) (snapshot_traffic env settings snap) s)"

definition service_Snapshot :: "engine_env \<Rightarrow> engine_snapshot operation" where
  "service_Snapshot env s =
     (if es_transition s \<noteq> [] then
        (Inr (blank_snapshot (es_transition s) (settings_Get (ee_settings env (es_calls s)) (es_settings s))
                (ch_ProtocolVersion (ee_hello env (es_calls s)) \<noteq> 0) (ee_now env (es_calls s))), s)
      else
        andThen (demand (AEnsure False) (\<lambda>calls. ee_ensure env calls False) ConnectFailed) (\<lambda>hello.
        andThen (demand (ARequest CStatus) (ee_status env) StatusFailed) (\<lambda>(state, reason).
        andThen (preferences env) (snapshot_status env hello state reason))) s)"

text \<open>The goroutine of the watchdog.\<close>

definition watchdog_stop :: "engine_env \<Rightarrow> engine_service \<Rightarrow> engine_service" where
  "watchdog_stop env s = (let s = snd (service_Stop env s) in s\<lparr>es_watchdogStopping := False, es_stops := es_stops s - 1\<rparr>)"

section \<open>Repair and shutdown\<close>

definition remember_wfp :: "engine_env \<Rightarrow> string \<Rightarrow> unit operation" where
  "remember_wfp env detail = andThen (from_settings env (\<lambda>senv. RememberWFPCompatibilityFailure senv detail)) (\<lambda>_. ok ())"

definition repair_refused :: "engine_env \<Rightarrow> unit operation" where
  "repair_refused env s =
     (if ch_ProtocolVersion (ee_hello env (es_calls s)) = 0 then (Inr (), s)
      else
        andThen (ask (ARequest CStatus) (ee_status env)) (\<lambda>status.
          case status of
            Inr (state, _) \<Rightarrow> if state \<noteq> ''stopped'' \<and> state \<noteq> ''failed'' then fail EngineStillRunning else ok ()
          | Inl _ \<Rightarrow> ok ()) s)"

definition client_text :: "client_error \<Rightarrow> string" where
  "client_text e = (case e of Remote code message \<Rightarrow> if code = [] then message else code @ '': '' @ message | Disconnected message \<Rightarrow> message)"

definition repair_body :: "engine_env \<Rightarrow> wfp_status operation" where
  "repair_body env =
     andThen (repair_refused env) (\<lambda>_.
     andThen (demand (AEnsure True) (\<lambda>calls. ee_ensure env calls True) ConnectFailed) (\<lambda>hello.
     if \<not> ch_Elevated hello then fail NotElevated else
     andThen (ask (ARequest CWFPInspect) (ee_inspect env)) (\<lambda>r.
       case r of
         Inl e \<Rightarrow> andThen (remember_wfp env (client_text e)) (\<lambda>_. fail (RepairFailed e))
       | Inr result \<Rightarrow>
           andThen (if wf_EngineReady result then andThen (from_settings env ClearWFPCompatibilityFailure) (\<lambda>_. ok ())
                    else remember_wfp env (wf_Detail result)) (\<lambda>_.
           andThen (change (called AShutdown True)) (\<lambda>_. ok result)))))"

definition RepairWFP :: "engine_env \<Rightarrow> wfp_status operation" where
  "RepairWFP env s =
     (if \<not> ee_acquire env then (Inl GateTimeout, s)
      else if es_closing s then (Inl ServiceClosing, s)
      else repair_body env s)"

definition service_Shutdown :: "engine_env \<Rightarrow> engine_service \<Rightarrow> engine_service" where
  "service_Shutdown env s = called AShutdown True (snd (service_Stop env (s\<lparr>es_closing := True\<rparr>)))"

section \<open>The service as a transition system\<close>

datatype engine_op =
    OpStart string
  | OpStop
  | OpSnapshot
  | OpRepair
  | OpShutdown
  | OpEvent core_notice
  | OpRestart
  | OpWatchdogStop
  | OpSettings settings_op

definition change_settings :: "engine_env \<Rightarrow> settings_op \<Rightarrow> engine_service \<Rightarrow> engine_service" where
  "change_settings env op s =
     snd (from_settings env (\<lambda>senv ss d. settings_exec (ee_idna env) senv op ss d) s)"

definition engine_exec :: "engine_env \<times> engine_op \<Rightarrow> engine_service \<times> handler \<Rightarrow> (engine_service \<times> handler) option" where
  "engine_exec ev st =
     (let (env, op) = ev; (s, h) = st
      in case op of
           OpStart mode \<Rightarrow> Some (snd (service_Start env mode s), h)
         | OpStop \<Rightarrow> Some (snd (service_Stop env s), h)
         | OpSnapshot \<Rightarrow> Some (snd (service_Snapshot env s), h)
         | OpRepair \<Rightarrow> Some (snd (RepairWFP env s), h)
         | OpShutdown \<Rightarrow> Some (service_Shutdown env s, h)
         | OpEvent e \<Rightarrow> if h = HIdle then Some (consume_event env e s) else None
         | OpRestart \<Rightarrow> restart_step env s h
         | OpWatchdogStop \<Rightarrow> if 0 < es_stops s then Some (watchdog_stop env s, h) else None
         | OpSettings so \<Rightarrow> Some (change_settings env so s, h))"

end
