(* ===== verification/Engine_Inv.thy ===== *)
theory Engine_Inv
  imports Engine_Events
begin

text \<open>
  Properties of the engine service: what a start or a stop has called when it returns, what it leaves running, and the
  invariants of the service in every interleaving.
\<close>

section \<open>Reading operations\<close>

lemma andThen_Inr: "andThen m f s = (Inr y, s') \<longleftrightarrow> (\<exists>x s1. m s = (Inr x, s1) \<and> f x s1 = (Inr y, s'))"
  by (auto simp: andThen_def split: prod.splits sum.splits)

lemma andThen_Inl: "andThen m f s = (Inl e, s') \<longleftrightarrow> m s = (Inl e, s') \<or> (\<exists>x s1. m s = (Inr x, s1) \<and> f x s1 = (Inl e, s'))"
  by (auto simp: andThen_def split: prod.splits sum.splits)

lemma ok_iff [simp]: "ok x s = (r, s') \<longleftrightarrow> r = Inr x \<and> s' = s"
  by (auto simp: ok_def)

lemma fail_iff [simp]: "fail e s = (r, s') \<longleftrightarrow> r = Inl e \<and> s' = s"
  by (auto simp: fail_def)

lemma change_iff [simp]: "change g s = (r, s') \<longleftrightarrow> r = Inr () \<and> s' = g s"
  by (auto simp: change_def)

lemma ask_iff: "ask a answer s = (r, s') \<longleftrightarrow> r = Inr (answer (es_calls s)) \<and> s' = called a (\<not> isl (answer (es_calls s))) s"
  by (auto simp: ask_def Let_def)

lemma demand_Inr: "demand a answer wrap s = (Inr x, s') \<longleftrightarrow> answer (es_calls s) = Inr x \<and> s' = called a True s"
  by (auto simp: demand_def Let_def split: sum.splits)

lemma demand_Inl: "demand a answer wrap s = (Inl e, s') \<longleftrightarrow> (\<exists>e'. answer (es_calls s) = Inl e' \<and> e = wrap e') \<and> s' = called a False s"
  by (auto simp: demand_def Let_def split: sum.splits)

lemma from_settings_Inl [simp]: "\<not> from_settings env f s = (Inl e, s')"
  by (auto simp: from_settings_def split: prod.splits)

lemma preferences_iff [simp]:
  "preferences env s = (r, s') \<longleftrightarrow> r = Inr (settings_Get (ee_settings env (es_calls s)) (es_settings s)) \<and> s' = s"
  by (auto simp: preferences_def)

lemma calls_called [simp]: "es_calls (called a b s) = es_calls s @ [(a, b)]"
  by (simp add: called_def)

lemma from_settings_calls: "from_settings env f s = (r, s') \<Longrightarrow> es_calls s' = es_calls s"
  by (auto simp: from_settings_def split: prod.splits)

lemmas operation_iffs = andThen_Inr andThen_Inl ask_iff demand_Inr demand_Inl

section \<open>What a start calls\<close>

definition undo_calls :: "bool \<Rightarrow> bool \<Rightarrow> bool \<Rightarrow> calls" where
  "undo_calls a b c = [(ARequest CTunDeactivate, a), (ARequest CStop, b), (ARestoreProxy, c)]"

text \<open>The last calls of an operation took back what was done.\<close>

definition undone :: "engine_service \<Rightarrow> engine_service \<Rightarrow> bool" where
  "undone s s' \<longleftrightarrow> (\<exists>d a b c. es_calls s' = es_calls s @ d @ undo_calls a b c)"

lemma undone_called: "undone (called a b s) s' \<Longrightarrow> undone s s'"
  unfolding undone_def by (metis append_assoc calls_called)

lemma undone_same: "undone s1 s' \<Longrightarrow> es_calls s1 = es_calls s \<Longrightarrow> undone s s'"
  by (simp add: undone_def)

lemma rollback_undone: "rollback env cause s = (r, s') \<Longrightarrow> isl r \<and> undone s s'"
  unfolding undone_def
  by (auto simp: rollback_def andThen_def ask_def change_def fail_def Let_def undo_calls_def intro: exI [of _ "[]"] split: sum.splits)

lemma rollback_Inr [simp]: "\<not> rollback env cause s = (Inr x, s')"
  using rollback_undone [of env cause s "Inr x" s'] by auto

lemma rollback_Inl: "rollback env cause s = (Inl e, s') \<Longrightarrow> undone s s'"
  using rollback_undone [of env cause s "Inl e" s'] by auto

lemma demand_or_rollback_Inr:
  "demand_or_rollback env a answer wrap s = (Inr x, s') \<longleftrightarrow> answer (es_calls s) = Inr x \<and> s' = called a True s"
  by (auto simp: demand_or_rollback_def andThen_Inr ask_iff split: sum.splits)

lemma demand_or_rollback_Inl: "demand_or_rollback env a answer wrap s = (Inl e, s') \<Longrightarrow> undone s s'"
  by (auto simp: demand_or_rollback_def andThen_Inl ask_iff intro: undone_called dest!: rollback_Inl split: sum.splits)

definition dns_query :: "adapter_view list \<Rightarrow> dns_params" where
  "dns_query selected = \<lparr>np_Domain = ''www.msftconnecttest.com'', np_Adapter = av_Name (hd selected), np_RecordType = ''A''\<rparr>"

text \<open>The configuration was written for these adapters and rules, with the answer to the DNS check that followed the calls \<open>c\<close>.\<close>

definition wrote :: "engine_env \<Rightarrow> calls \<Rightarrow> endpoints \<Rightarrow> adapter_view list \<Rightarrow> routing_rule list \<Rightarrow> bool \<Rightarrow> string \<Rightarrow> json \<Rightarrow> bool" where
  "wrote env c endpoints selected rules strict singBox config \<longleftrightarrow>
     (\<exists>answer clash. ee_dns env c (dns_query selected) = Inr answer
        \<and> writeSingBoxConfig (ee_config env) endpoints (hd selected) answer rules (ee_compatibility env) strict = Inr (singBox, clash, config))"

lemma write_config_Inr:
  assumes "write_config env endpoints selected answer rules strict s = (Inr (singBox, clash), s')"
  shows "\<exists>config. writeSingBoxConfig (ee_config env) endpoints (hd selected) answer rules (ee_compatibility env) strict
      = Inr (singBox, clash, config) \<and> s' = called (AWriteConfig config) True s"
  using assms by (auto simp: write_config_def split: sum.splits)

lemma write_config_Inl: "write_config env endpoints selected answer rules strict s = (Inl e, s') \<Longrightarrow> undone s s'"
  by (auto simp: write_config_def split: sum.splits dest!: rollback_Inl)

definition activation :: "string \<Rightarrow> bool \<Rightarrow> tun_params" where
  "activation singBox strict = \<lparr>tp_Executable = singBox, tp_ConfigPath = config_path, tp_StartupTimeoutMS = 1500, tp_StrictRoute = strict\<rparr>"

definition tun_calls :: "app_settings \<Rightarrow> adapter_view list \<Rightarrow> string \<Rightarrow> bool \<Rightarrow> json \<Rightarrow> calls" where
  "tun_calls settings selected singBox strict config =
     [(ARequest (CDNSResolve (dns_query selected)), True), (AWriteConfig config, True),
      (ARequest (CTunActivate (activation singBox strict)), True)] @ (if st_ForceTUNBypass settings then [] else [(AProbe, True)])"

lemma start_tun_Inr:
  assumes "start_tun_mode env settings hello selected rules strict endpoints s = (Inr u, s')"
  shows "\<exists>singBox config. wrote env (es_calls s) endpoints selected rules strict singBox config
    \<and> es_calls s' = es_calls s @ tun_calls settings selected singBox strict config"
proof -
  from assms obtain answer singBox clash config where w: "ee_dns env (es_calls s) (dns_query selected) = Inr answer"
      "writeSingBoxConfig (ee_config env) endpoints (hd selected) answer rules (ee_compatibility env) strict = Inr (singBox, clash, config)"
    and c: "es_calls s' = es_calls s @ [(ARequest (CDNSResolve (dns_query selected)), True), (AWriteConfig config, True),
      (ARequest (CTunActivate (activation singBox strict)), True)] @ (if st_ForceTUNBypass settings then [] else [(AProbe, True)])"
    by (auto simp: start_tun_mode_def Let_def operation_iffs demand_or_rollback_Inr dns_query_def activation_def
        dest!: write_config_Inr from_settings_calls split: if_splits)
  then show ?thesis unfolding tun_calls_def wrote_def by blast
qed

lemma undone_steps:
  "undone s1 s' \<Longrightarrow> es_calls s1 = es_calls s @ d \<Longrightarrow> undone s s'"
  unfolding undone_def by (metis append_assoc)

lemma start_tun_Inl:
  assumes "start_tun_mode env settings hello selected rules strict endpoints s = (Inl e, s')"
  shows "undone s s'"
  using assms
  by (auto simp: start_tun_mode_def Let_def operation_iffs demand_or_rollback_Inr
      dest!: write_config_Inr write_config_Inl from_settings_calls demand_or_rollback_Inl rollback_Inl intro: undone_steps split: if_splits)

lemma start_proxy_Inr:
  "start_proxy_mode env settings s = (Inr u, s') \<Longrightarrow> es_calls s' = es_calls s @ [(AEnableProxy (st_HTTPPort settings) (st_SOCKSPort settings), True)]"
  by (auto simp: start_proxy_mode_def demand_or_rollback_Inr)

lemma start_proxy_Inl: "start_proxy_mode env settings s = (Inl e, s') \<Longrightarrow> undone s s'"
  by (auto simp: start_proxy_mode_def dest: demand_or_rollback_Inl)

text \<open>The payload a start sends: the settings with the policy in force.\<close>

definition payload_for :: "engine_env \<Rightarrow> string \<Rightarrow> bool \<Rightarrow> app_settings \<Rightarrow> adapter_view list \<Rightarrow> calls \<Rightarrow> start_params" where
  "payload_for env mode dnsFallback settings selected calls =
     start_payload mode settings selected (if mode = ''tun'' \<and> dnsFallback then ''off'' else st_DNSPolicy settings)
       (ee_now env calls) (ee_blocked env)"

lemma start_calls_Inr:
  assumes "start_engine_calls env mode dnsF settings selected rules strict hello s = (Inr snap, s')"
  defines "p \<equiv> payload_for env mode dnsF settings selected (es_calls s)"
  shows "if mode = ''proxy''
    then es_calls s' = es_calls s @ [(ARequest (CStart p), True), (AEnableProxy (st_HTTPPort settings) (st_SOCKSPort settings), True)]
    else \<exists>endpoints singBox config. ee_start env (es_calls s) p = Inr endpoints
       \<and> wrote env (es_calls s @ [(ARequest (CStart p), True)]) endpoints selected rules strict singBox config
       \<and> es_calls s' = es_calls s @ (ARequest (CStart p), True) # tun_calls settings selected singBox strict config"
proof -
  from assms(1) obtain endpoints u s1 where st: "ee_start env (es_calls s) p = Inr endpoints"
    and r: "(if mode = ''proxy'' then start_proxy_mode env settings else start_tun_mode env settings hello selected rules strict endpoints)
      (called (ARequest (CStart p)) True s) = (Inr u, s1)"
    and c: "es_calls s' = es_calls s1"
    unfolding p_def payload_for_def start_engine_calls_def Let_def andThen_Inr demand_Inr by (auto simp: change_def)
  show ?thesis
  proof (cases "mode = ''proxy''")
    case True
    then show ?thesis using r c by (auto dest!: start_proxy_Inr)
  next
    case False
    have "start_tun_mode env settings hello selected rules strict endpoints (called (ARequest (CStart p)) True s) = (Inr u, s1)"
      using r by (simp only: False if_False)
    from start_tun_Inr [OF this, unfolded calls_called] obtain singBox config
      where w: "wrote env (es_calls s @ [(ARequest (CStart p), True)]) endpoints selected rules strict singBox config"
      and t: "es_calls s1 = (es_calls s @ [(ARequest (CStart p), True)]) @ tun_calls settings selected singBox strict config"
      by blast
    have "es_calls s' = es_calls s @ (ARequest (CStart p), True) # tun_calls settings selected singBox strict config"
      unfolding c t by simp
    with w st show ?thesis unfolding if_not_P [OF False] by blast
  qed
qed

lemma start_snapshot:
  "start_engine_calls env mode dnsF settings selected rules strict hello s = (Inr snap, s') \<Longrightarrow>
     en_Phase snap = ''running'' \<and> en_Mode snap = mode"
  unfolding start_engine_calls_def Let_def andThen_Inr by (auto simp: started_snapshot_def)

lemma start_calls_Inl:
  assumes "start_engine_calls env mode dnsF settings selected rules strict hello s = (Inl e, s')"
  defines "p \<equiv> payload_for env mode dnsF settings selected (es_calls s)"
  shows "es_calls s' = es_calls s @ [(ARequest (CStart p), False)] \<or> undone s s'"
proof -
  from assms(1) consider (start) "es_calls s' = es_calls s @ [(ARequest (CStart p), False)]"
    | (mode) endpoints where "(if mode = ''proxy'' then start_proxy_mode env settings else start_tun_mode env settings hello selected rules strict endpoints)
      (called (ARequest (CStart p)) True s) = (Inl e, s')"
    unfolding p_def payload_for_def start_engine_calls_def Let_def andThen_Inl demand_Inr demand_Inl by (auto simp: change_def)
  then show ?thesis
  proof cases
    case (mode endpoints)
    then have "undone (called (ARequest (CStart p)) True s) s'"
      by (auto dest: start_proxy_Inl start_tun_Inl split: if_splits)
    then show ?thesis using undone_called by blast
  qed simp
qed

text \<open>What a start has established before it calls the engine.\<close>

definition start_settings :: "engine_env \<Rightarrow> engine_service \<Rightarrow> app_settings" where
  "start_settings env s = settings_Get (ee_settings env (es_calls s)) (es_settings s)"

definition prepared :: "engine_env \<Rightarrow> string \<Rightarrow> bool \<Rightarrow> engine_service \<Rightarrow> adapter_view list \<Rightarrow> routing_rule list \<Rightarrow> bool \<Rightarrow> bool" where
  "prepared env mode wfpFallback s selected rules strict \<longleftrightarrow>
     (\<exists>available. adapters_now env s = Some available \<and> selected = filter av_Selected available) \<and> selected \<noteq> []
     \<and> (mode = ''tun'' \<longrightarrow> normalizeRulesStrict (ee_idna env) (st_Rules (start_settings env s)) = Inr rules
          \<and> validateRoutingOutbounds rules selected = None
          \<and> tp_Ready (checkSelected (ee_preflight env) (start_settings env s)
               (rememberedWFPCompatibilityFailure (ee_settings env (es_calls s)) (es_settings s)) selected)
          \<and> (strict \<longleftrightarrow> st_StrictRoute (start_settings env s) \<and> tp_WFPReady (checkSelected (ee_preflight env) (start_settings env s)
               (rememberedWFPCompatibilityFailure (ee_settings env (es_calls s)) (es_settings s)) selected) \<and> \<not> wfpFallback))"

text \<open>Calls that only look, or stop an engine that failed.\<close>

fun harmless :: "act \<Rightarrow> bool" where
  "harmless (AEnsure _) = True"
| "harmless (ARequest CStatus) = True"
| "harmless (ARequest CStop) = True"
| "harmless _ = False"

lemma start_selected_iff:
  "start_selected env s = (Inr selected, s') \<longleftrightarrow>
     s' = s \<and> (\<exists>available. adapters_now env s = Some available \<and> selected = filter av_Selected available) \<and> selected \<noteq> []"
  "start_selected env s = (Inl e, s') \<Longrightarrow> s' = s"
  by (auto simp: start_selected_def Let_def split: option.splits if_splits)

lemma start_rules_iff:
  "start_rules env mode settings selected s = (Inr rules, s') \<Longrightarrow>
     s' = s \<and> (mode = ''tun'' \<longrightarrow> normalizeRulesStrict (ee_idna env) (st_Rules settings) = Inr rules \<and> validateRoutingOutbounds rules selected = None)"
  "start_rules env mode settings selected s = (Inl e, s') \<Longrightarrow> s' = s"
  by (auto simp: start_rules_def split: option.splits if_splits sum.splits)

lemma start_preflight_iff:
  "start_preflight env mode (start_settings env s) w selected s = (Inr strict, s') \<Longrightarrow>
     s' = s \<and> (mode = ''tun'' \<longrightarrow> tp_Ready (checkSelected (ee_preflight env) (start_settings env s)
               (rememberedWFPCompatibilityFailure (ee_settings env (es_calls s)) (es_settings s)) selected)
          \<and> (strict \<longleftrightarrow> st_StrictRoute (start_settings env s) \<and> tp_WFPReady (checkSelected (ee_preflight env) (start_settings env s)
               (rememberedWFPCompatibilityFailure (ee_settings env (es_calls s)) (es_settings s)) selected) \<and> \<not> w))"
  "start_preflight env mode settings w selected s = (Inl e, s') \<Longrightarrow> s' = s"
  by (auto simp: start_preflight_def Let_def start_settings_def checkSelected_blocker split: option.splits if_splits)
     (auto simp: checkSelected_def Let_def split: prod.splits)

lemma start_save_mode_calls: "start_save_mode env mode settings s = (r, s') \<Longrightarrow> es_calls s' = es_calls s"
  by (auto simp: start_save_mode_def andThen_def fail_def ok_def split: if_splits prod.splits sum.splits dest: from_settings_calls)

lemma start_reset_calls:
  "start_reset env s = (r, s') \<Longrightarrow> \<exists>d. es_calls s' = es_calls s @ d \<and> list_all (harmless \<circ> fst) d"
  by (cases r) (auto simp: start_reset_def operation_iffs split: if_splits)

text \<open>
  The calls before the engine is asked to start, when those before were \<open>c\<close>: the connection, the question for the status, and the
  request to stop when the status is \<open>failed\<close>, whatever its answer.
\<close>

definition looked :: "engine_env \<Rightarrow> string \<Rightarrow> calls \<Rightarrow> calls \<Rightarrow> bool" where
  "looked env mode c before \<longleftrightarrow>
     (\<exists>state lastError. ee_status env (c @ [(AEnsure (mode = ''tun''), True)]) = Inr (state, lastError)
        \<and> before = [(AEnsure (mode = ''tun''), True), (ARequest CStatus, True)]
             @ (if state = ''failed''
                then [(ARequest CStop, \<not> isl (ee_stop env (c @ [(AEnsure (mode = ''tun''), True), (ARequest CStatus, True)])))] else []))"

lemma looked_harmless: "looked env mode c before \<Longrightarrow> list_all (harmless \<circ> fst) before"
  by (auto simp: looked_def)

lemma start_reset_looked:
  assumes "start_reset env s = (Inr (), s')" "es_calls s = c @ [(AEnsure (mode = ''tun''), True)]"
  shows "\<exists>before. looked env mode c before \<and> es_calls s' = c @ before"
proof -
  obtain state lastError where st: "ee_status env (es_calls s) = Inr (state, lastError)"
    and r: "(if state = ''failed'' then andThen (ask (ARequest CStop) (ee_stop env)) (\<lambda>_. ok ()) else ok ())
      (called (ARequest CStatus) True s) = (Inr (), s')"
    using assms(1) unfolding start_reset_def andThen_Inr [of "demand _ _ _"] demand_Inr by auto
  have "es_calls s' = (es_calls s @ [(ARequest CStatus, True)])
      @ (if state = ''failed'' then [(ARequest CStop, \<not> isl (ee_stop env (es_calls s @ [(ARequest CStatus, True)])))] else [])"
    using r by (auto simp: andThen_Inr ask_iff split: if_splits)
  with st show ?thesis
    by (intro exI [of _ "[(AEnsure (mode = ''tun''), True), (ARequest CStatus, True)] @ (if state = ''failed''
         then [(ARequest CStop, \<not> isl (ee_stop env (c @ [(AEnsure (mode = ''tun''), True), (ARequest CStatus, True)])))] else [])"])
       (simp add: looked_def assms(2))
qed

lemma start_prepare_Inr:
  assumes "start_prepare env mode w s = (Inr (selected, settings, rules, strict), s')"
  shows "s' = s \<and> settings = start_settings env s \<and> prepared env mode w s selected rules strict"
proof -
  from assms have p: "start_selected env s = (Inr selected, s)" "settings = start_settings env s" "s' = s"
    "start_rules env mode (start_settings env s) selected s = (Inr rules, s)"
    "start_preflight env mode (start_settings env s) w selected s = (Inr strict, s)"
    unfolding start_prepare_def start_settings_def andThen_Inr
    by (auto simp: start_selected_iff(1) dest: start_rules_iff(1) start_preflight_iff(1) [unfolded start_settings_def])
  with start_rules_iff(1) [OF p(4)] start_preflight_iff(1) [OF p(5)] show ?thesis
    by (auto simp: prepared_def start_selected_iff(1))
qed

lemma start_prepare_Inl: "start_prepare env mode w s = (Inl e, s') \<Longrightarrow> s' = s"
  unfolding start_prepare_def andThen_Inl
  by (auto simp: start_selected_iff(1) dest: start_selected_iff(2) start_rules_iff start_preflight_iff(1) [unfolded start_settings_def] start_preflight_iff(2))

lemma start_connect_Inr:
  assumes "start_connect env mode settings s = (Inr hello, s')"
  shows "\<exists>before. looked env mode (es_calls s) before \<and> es_calls s' = es_calls s @ before"
proof -
  from assms obtain s1 s2 where r: "start_save_mode env mode settings (called (AEnsure (mode = ''tun'')) True s) = (Inr (), s1)"
      "start_reset env s1 = (Inr (), s')"
    unfolding start_connect_def andThen_Inr demand_Inr by auto
  show ?thesis using start_reset_looked [OF r(2)] start_save_mode_calls [OF r(1)] by simp
qed

lemma start_connect_Inl:
  assumes "start_connect env mode settings s = (Inl e, s')"
  shows "\<exists>pre. es_calls s' = es_calls s @ pre \<and> list_all (harmless \<circ> fst) pre"
proof -
  from assms consider "s' = called (AEnsure (mode = ''tun'')) False s"
    | "start_save_mode env mode settings (called (AEnsure (mode = ''tun'')) True s) = (Inl e, s')"
    | s1 where "start_save_mode env mode settings (called (AEnsure (mode = ''tun'')) True s) = (Inr (), s1)" "start_reset env s1 = (Inl e, s')"
    unfolding start_connect_def andThen_Inl demand_Inr demand_Inl by auto
  then show ?thesis
  proof cases
    case 3
    from start_reset_calls [OF 3(2)] start_save_mode_calls [OF 3(1)] show ?thesis by auto
  qed (auto dest: start_save_mode_calls)
qed

lemma start_body_Inr:
  assumes "start_body env mode (d, w) s = (Inr snap, s')"
  shows "\<exists>selected rules strict s1 hello before. prepared env mode w s selected rules strict
     \<and> start_engine_calls env mode d (start_settings env s) selected rules strict hello s1 = (Inr snap, s')
     \<and> es_calls s1 = es_calls s @ before \<and> looked env mode (es_calls s) before"
proof -
  from assms obtain selected settings rules strict s0 hello s1 where p: "start_prepare env mode w s = (Inr (selected, settings, rules, strict), s0)"
    and c: "start_connect env mode settings s0 = (Inr hello, s1)"
    and r: "start_engine_calls env mode d settings selected rules strict hello s1 = (Inr snap, s')"
    unfolding start_body_def andThen_Inr by (auto simp: andThen_Inr)
  from start_prepare_Inr [OF p] start_connect_Inr [OF c] r show ?thesis by blast
qed

lemma start_body_Inl:
  assumes "start_body env mode (d, w) s = (Inl e, s')"
  shows "\<exists>pre. list_all (harmless \<circ> fst) pre
     \<and> (es_calls s' = es_calls s @ pre \<or> (\<exists>p. es_calls s' = es_calls s @ pre @ [(ARequest (CStart p), False)]) \<or> undone s s')"
proof -
  from assms consider (prepare) "start_prepare env mode w s = (Inl e, s')"
    | (connect) selected settings rules strict s0 where "start_prepare env mode w s = (Inr (selected, settings, rules, strict), s0)"
        "start_connect env mode settings s0 = (Inl e, s')"
    | (engine) selected settings rules strict s0 hello s1 where "start_prepare env mode w s = (Inr (selected, settings, rules, strict), s0)"
        "start_connect env mode settings s0 = (Inr hello, s1)"
        "start_engine_calls env mode d settings selected rules strict hello s1 = (Inl e, s')"
    unfolding start_body_def andThen_Inl by (auto simp: andThen_Inr andThen_Inl)
  then show ?thesis
  proof cases
    case prepare
    then have "s' = s" by (rule start_prepare_Inl)
    then show ?thesis by (intro exI [of _ "[]"]) simp
  next
    case connect
    then show ?thesis using start_prepare_Inr start_connect_Inl by metis
  next
    case engine
    from start_connect_Inr [OF engine(2)] start_prepare_Inr [OF engine(1)] obtain pre
      where "es_calls s1 = es_calls s @ pre" "list_all (harmless \<circ> fst) pre" using looked_harmless by blast
    with start_calls_Inl [OF engine(3)] show ?thesis using undone_steps by (metis append_assoc)
  qed
qed

section \<open>What is left running\<close>

text \<open>
  What the calls so far may have left on. A call that failed may still have had its effect, so only a successful call
  takes something back; a request to start counts even if it failed.
\<close>

fun proxy_effect :: "act \<times> bool \<Rightarrow> bool option" where
  "proxy_effect (AEnableProxy _ _, _) = Some True"
| "proxy_effect (ARestoreProxy, True) = Some False"
| "proxy_effect _ = None"

fun tun_effect :: "act \<times> bool \<Rightarrow> bool option" where
  "tun_effect (ARequest (CTunActivate _), _) = Some True"
| "tun_effect (ARequest CTunDeactivate, True) = Some False"
| "tun_effect _ = None"

fun engine_effect :: "act \<times> bool \<Rightarrow> bool option" where
  "engine_effect (ARequest (CStart _), _) = Some True"
| "engine_effect (ARequest CStop, True) = Some False"
| "engine_effect _ = None"

definition on_after :: "(act \<times> bool \<Rightarrow> bool option) \<Rightarrow> calls \<Rightarrow> bool \<Rightarrow> bool" where
  "on_after f calls b = foldl (\<lambda>b c. case f c of Some v \<Rightarrow> v | None \<Rightarrow> b) b calls"

definition may_be_on :: "(act \<times> bool \<Rightarrow> bool option) \<Rightarrow> engine_service \<Rightarrow> bool" where
  "may_be_on f s = on_after f (es_calls s) False"

definition all_off :: "engine_service \<Rightarrow> bool" where
  "all_off s \<longleftrightarrow> \<not> may_be_on proxy_effect s \<and> \<not> may_be_on tun_effect s \<and> \<not> may_be_on engine_effect s"

text \<open>The calls made since \<open>s\<close>.\<close>

definition since :: "engine_service \<Rightarrow> engine_service \<Rightarrow> calls" where
  "since s s' = drop (length (es_calls s)) (es_calls s')"

fun cleanup :: "act \<Rightarrow> bool" where
  "cleanup (ARequest CTunDeactivate) = True"
| "cleanup (ARequest CStop) = True"
| "cleanup ARestoreProxy = True"
| "cleanup _ = False"

lemma on_after_simps [simp]:
  "on_after f [] b = b" "on_after f (c # cs) b = on_after f cs (case f c of Some v \<Rightarrow> v | None \<Rightarrow> b)"
  "on_after f (cs @ ds) b = on_after f ds (on_after f cs b)"
  by (simp_all add: on_after_def)

lemma may_be_on_append: "es_calls s' = es_calls s @ d \<Longrightarrow> may_be_on f s' = on_after f d (may_be_on f s)"
  by (simp add: may_be_on_def)

lemma since_append: "es_calls s' = es_calls s @ d \<Longrightarrow> since s s' = d"
  by (simp add: since_def)

lemma harmless_effects:
  assumes "list_all (harmless \<circ> fst) d"
  shows "on_after proxy_effect d b = b" "on_after tun_effect d b = b" "on_after engine_effect d False = False"
proof -
  have "on_after proxy_effect d b = b \<and> on_after tun_effect d b = b \<and> on_after engine_effect d False = False"
    using assms
  proof (induction d)
    case (Cons c d)
    obtain a x where c: "c = (a, x)" by (cases c)
    have "harmless a" using Cons.prems by (simp add: c)
    then have "proxy_effect c = None" "tun_effect c = None" "engine_effect c = None \<or> engine_effect c = Some False"
      by (cases a rule: harmless.cases; cases x; simp add: c)+
    then show ?case using Cons by auto
  qed simp
  then show "on_after proxy_effect d b = b" "on_after tun_effect d b = b" "on_after engine_effect d False = False" by simp_all
qed

lemma undone_off:
  assumes "undone s s'" "\<forall>(a, b) \<in> set (since s s'). cleanup a \<longrightarrow> b"
  shows "all_off s'"
proof -
  obtain d a b c where "es_calls s' = es_calls s @ d @ undo_calls a b c" using assms(1) by (auto simp: undone_def)
  moreover from this assms(2) have "a" "b" "c" by (auto simp: since_append undo_calls_def)
  ultimately show ?thesis by (simp add: all_off_def may_be_on_def undo_calls_def)
qed

lemma guard_frame:
  assumes "start_guard mode s = (r, s')"
  shows "es_calls s' = es_calls s" "es_settings s' = es_settings s"
    "r = Inr fallbacks \<Longrightarrow> fallbacks = (es_restarting s \<and> es_dnsFallback s, es_restarting s \<and> es_wfpFallback s)
       \<and> \<not> es_closing s \<and> es_recoveryError s = [] \<and> (mode = ''proxy'' \<longrightarrow> \<not> es_hostElevated s \<or> es_proxySafe s)"
  using assms by (auto simp: start_guard_def reset_flags_def Let_def split: if_splits)

lemma clearTransition_calls [simp]: "es_calls (clearTransition x s) = es_calls s"
  by (simp add: clearTransition_def)

text \<open>
  C26. A start that fails leaves nothing behind: if nothing was running and every call that takes something back succeeds, then no
  system proxy is set, no tunnel is active and no engine is running, whatever failed at whatever point; the
  only exception is an engine whose own start request failed, which is not asked to stop.
\<close>

theorem failed_start_leaves_nothing:
  assumes "service_Start env mode s = (Inl e, s')" "all_off s" "\<forall>(a, b) \<in> set (since s s'). cleanup a \<longrightarrow> b"
  shows "\<not> may_be_on proxy_effect s' \<and> \<not> may_be_on tun_effect s'
       \<and> (may_be_on engine_effect s' \<longrightarrow> (\<exists>p. last (es_calls s') = (ARequest (CStart p), False)))"
proof (cases "es_calls s' = es_calls s")
  case True
  then show ?thesis using assms(2) by (simp add: all_off_def may_be_on_def)
next
  case False
  from assms(1) False obtain d w s0 s1 where g: "start_guard mode s = (Inr (d, w), s0)" and b: "start_body env mode (d, w) s0 = (Inl e, s1)"
    and s': "es_calls s' = es_calls s1"
    by (auto simp: service_Start_def split: if_splits prod.splits sum.splits dest: guard_frame(1))
  note c = guard_frame(1) [OF g]
  have off: "\<not> may_be_on proxy_effect s0" "\<not> may_be_on tun_effect s0" "\<not> may_be_on engine_effect s0"
    using assms(2) c by (simp_all add: all_off_def may_be_on_def)
  have same: "may_be_on f s' = may_be_on f s1" for f by (simp add: may_be_on_def s')
  from start_body_Inl [OF b] obtain pre where pre: "list_all (harmless \<circ> fst) pre"
    and cs: "es_calls s1 = es_calls s0 @ pre \<or> (\<exists>p. es_calls s1 = es_calls s0 @ pre @ [(ARequest (CStart p), False)]) \<or> undone s0 s1"
    by blast
  note h = harmless_effects [OF pre]
  from cs show ?thesis
  proof (elim disjE exE)
    assume a: "es_calls s1 = es_calls s0 @ pre"
    show ?thesis unfolding same using off h by (simp add: may_be_on_append [OF a])
  next
    fix p assume a: "es_calls s1 = es_calls s0 @ pre @ [(ARequest (CStart p), False)]"
    then show ?thesis unfolding same s' using off h by (simp add: may_be_on_append [OF a])
  next
    assume u: "undone s0 s1"
    have "since s s' = since s0 s1" by (simp add: since_def c s')
    with undone_off [OF u] assms(3) have "all_off s1" by simp
    then show ?thesis unfolding same by (simp add: all_off_def)
  qed
qed

text \<open>The parts of a successful start.\<close>

lemma start_success:
  assumes "service_Start env mode s = (Inr snap, s')"
  obtains selected rules strict before p tail where
    "prepared env mode (es_restarting s \<and> es_wfpFallback s) s selected rules strict"
    "looked env mode (es_calls s) before"
    "p = payload_for env mode (es_restarting s \<and> es_dnsFallback s) (start_settings env s) selected (es_calls s @ before)"
    "es_calls s' = es_calls s @ before @ (ARequest (CStart p), True) # tail"
    "mode = ''proxy'' \<and> tail = [(AEnableProxy (ep_HTTPPort p) (ep_SOCKSPort p), True)]
       \<or> mode = ''tun'' \<and> (\<exists>endpoints singBox config. ee_start env (es_calls s @ before) p = Inr endpoints
            \<and> wrote env (es_calls s @ before @ [(ARequest (CStart p), True)]) endpoints selected rules strict singBox config
            \<and> tail = tun_calls (start_settings env s) selected singBox strict config)" "en_Phase snap = ''running'' \<and> en_Mode snap = mode"
proof -
  from assms obtain d w s0 s1 where g: "start_guard mode s = (Inr (d, w), s0)" and b: "start_body env mode (d, w) s0 = (Inr snap, s1)"
    and s': "es_calls s' = es_calls s1" and m: "mode = ''proxy'' \<or> mode = ''tun''"
    by (auto simp: service_Start_def split: if_splits prod.splits sum.splits)
  note c = guard_frame(1,2) [OF g] and f = guard_frame(3) [OF g, of "(d, w)"]
  have dw: "d \<longleftrightarrow> es_restarting s \<and> es_dnsFallback s" "w \<longleftrightarrow> es_restarting s \<and> es_wfpFallback s" using f by auto
  have st: "start_settings env s0 = start_settings env s" "prepared env mode x s0 = prepared env mode x s" for x
    by (simp_all add: start_settings_def prepared_def adapters_now_def c fun_eq_iff)
  from start_body_Inr [OF b] obtain selected rules strict s2 hello before where p: "prepared env mode w s selected rules strict"
    and r: "start_engine_calls env mode d (start_settings env s) selected rules strict hello s2 = (Inr snap, s1)"
    and c2: "es_calls s2 = es_calls s @ before" and look: "looked env mode (es_calls s) before"
    unfolding st c by blast
  define pl where "pl = payload_for env mode d (start_settings env s) selected (es_calls s @ before)"
  have tail: "\<exists>tail. es_calls s' = es_calls s @ before @ (ARequest (CStart pl), True) # tail
    \<and> (mode = ''proxy'' \<and> tail = [(AEnableProxy (ep_HTTPPort pl) (ep_SOCKSPort pl), True)]
       \<or> mode = ''tun'' \<and> (\<exists>endpoints singBox config. ee_start env (es_calls s @ before) pl = Inr endpoints
            \<and> wrote env (es_calls s @ before @ [(ARequest (CStart pl), True)]) endpoints selected rules strict singBox config
            \<and> tail = tun_calls (start_settings env s) selected singBox strict config))"
  proof (cases "mode = ''proxy''")
    case True
    then have "ep_HTTPPort pl = st_HTTPPort (start_settings env s)" "ep_SOCKSPort pl = st_SOCKSPort (start_settings env s)"
      by (simp_all add: pl_def payload_for_def start_payload_def)
    with True start_calls_Inr [OF r] show ?thesis by (simp add: s' c2 pl_def)
  next
    case False
    with m have t: "mode = ''tun''" by simp
    from start_calls_Inr [OF r] False obtain endpoints singBox config where "ee_start env (es_calls s @ before) pl = Inr endpoints"
        "wrote env ((es_calls s @ before) @ [(ARequest (CStart pl), True)]) endpoints selected rules strict singBox config"
      and "es_calls s1 = (es_calls s @ before) @ (ARequest (CStart pl), True) # tun_calls (start_settings env s) selected singBox strict config"
      unfolding c2 pl_def [symmetric] by auto
    then show ?thesis using t by (auto simp: s')
  qed
  show ?thesis
    using p look tail start_snapshot [OF r] that unfolding pl_def dw by blast
qed

lemma engineChannels_eq:
  "engineChannels as =
     [\<lparr>chn_Name = ''nic_ethernet'', chn_Port = 0, chn_AdapterNames = map av_Name
        (if filter (\<lambda>a. av_Kind a \<noteq> ''wifi'') as = [] then as else filter (\<lambda>a. av_Kind a \<noteq> ''wifi'') as)\<rparr>,
      \<lparr>chn_Name = ''nic_wifi'', chn_Port = 0, chn_AdapterNames = map av_Name
        (if filter (\<lambda>a. av_Kind a = ''wifi'') as = [] then as else filter (\<lambda>a. av_Kind a = ''wifi'') as)\<rparr>,
      \<lparr>chn_Name = ''aggregation'', chn_Port = 0, chn_AdapterNames = map av_Name as\<rparr>,
      \<lparr>chn_Name = ''direct'', chn_Port = 0, chn_AdapterNames = []\<rparr>]
     @ map (\<lambda>a. \<lparr>chn_Name = ''nic_'' @ av_Name a, chn_Port = 0, chn_AdapterNames = [av_Name a]\<rparr>) as"
  by (simp add: engineChannels_def channel_names_def Let_def)

text \<open>
  C27. A start that succeeds has made exactly these calls, with these arguments. It connected to the engine (elevated for a tunnel),
  read the status, and sent a stop exactly when the status was \<open>failed\<close>. Then it asked the engine to start with the settings of the
  user: every selected adapter with its addresses, weight and DNS servers, the mode of the pool, the weighting, the ports in proxy
  mode, the channels in tunnel mode (one for the wired and one for the wireless adapters, each with all of them when there are none of
  its kind, one for all, one past them, and one per adapter), the DNS policy (\<open>off\<close> when a restart fell back to the system's DNS), and the quarantined domains when
  the user keeps them. A proxy start last set the system proxy to the very ports it asked the engine to listen on. A tunnel
  start, of rules that are valid and whose preflight is ready, instead checked the DNS, wrote the configuration made from the
  engine's endpoints, the DNS answer and the rules, activated the tunnel and probed it unless the user waived that; the strict route is used
  exactly when the user asks for it, the platform is ready for it and no restart has given it up. The snapshot says so.
\<close>

theorem successful_start_calls:
  assumes "service_Start env mode s = (Inr snap, s')"
  shows "\<exists>available state lastError p tail.
    let user = settings_Get (ee_settings env (es_calls s)) (es_settings s);
        selected = filter av_Selected available; names = map av_Name; or_all = (\<lambda>as. if as = [] then selected else as);
        c1 = es_calls s @ [(AEnsure (mode = ''tun''), True)];
        c2 = c1 @ [(ARequest CStatus, True)];
        c3 = (if state = ''failed'' then c2 @ [(ARequest CStop, \<not> isl (ee_stop env c2))] else c2);
        c4 = c3 @ [(ARequest (CStart p), True)]
    in adapter_List user (ee_metadata env) (ee_interfaces env (es_calls s)) = Some available \<and> selected \<noteq> []
     \<and> ee_status env c1 = Inr (state, lastError)
     \<and> es_calls s' = c4 @ tail
     \<and> p = \<lparr>ep_Mode = (if mode = ''proxy'' then ''proxy'' else ''tun_tcp_pool''), ep_ListenHost = ''127.0.0.1'',
         ep_SOCKSPort = (if mode = ''proxy'' then st_SOCKSPort user else 0), ep_HTTPPort = (if mode = ''proxy'' then st_HTTPPort user else 0),
         ep_Weighted = st_Weighted user,
         ep_Adapters = map (\<lambda>a. \<lparr>ad_Name = av_Name a, ad_SourceIP = av_Address a, ad_IfIndex = av_IfIndex a, ad_SourceIPv6 = av_SourceIPv6 a,
           ad_IPv6IfIndex = av_IPv6IfIndex a, ad_Weight = av_Weight a, ad_DNSServers = av_DNSServers a\<rparr>) selected,
         ep_Channels = (if mode = ''proxy'' then []
           else [\<lparr>chn_Name = ''nic_ethernet'', chn_Port = 0, chn_AdapterNames = names (or_all (filter (\<lambda>a. av_Kind a \<noteq> ''wifi'') selected))\<rparr>,
                 \<lparr>chn_Name = ''nic_wifi'', chn_Port = 0, chn_AdapterNames = names (or_all (filter (\<lambda>a. av_Kind a = ''wifi'') selected))\<rparr>,
                 \<lparr>chn_Name = ''aggregation'', chn_Port = 0, chn_AdapterNames = names selected\<rparr>,
                 \<lparr>chn_Name = ''direct'', chn_Port = 0, chn_AdapterNames = []\<rparr>]
                @ map (\<lambda>a. \<lparr>chn_Name = ''nic_'' @ av_Name a, chn_Port = 0, chn_AdapterNames = [av_Name a]\<rparr>) selected),
         ep_ConnectTimeoutMS = 6000,
         ep_DNS = \<lparr>ds_Policy = (if mode = ''tun'' \<and> es_restarting s \<and> es_dnsFallback s then ''off'' else st_DNSPolicy user),
           ds_LegacyServers = [st_DNSServer user], ds_CacheTTLMS = 60000, ds_QueryTimeoutMS = 4000\<rparr>,
         ep_DomainIsolation = Some (st_BlockedBypass user), ep_DomainIsolationExpiry = Some (st_BlockedExpiry user),
         ep_DomainQuarantines = (case ee_blocked env of
             Some entries \<Rightarrow> if st_BlockedBypass user then map (\<lambda>e. \<lparr>qs_Adapter = bl_Adapter e, qs_Domain = bl_Domain e,
               qs_ExpiresAt = (if bl_Permanent e then add_years 100 (ee_now env c3) else bl_ExpiresAt e)\<rparr>) entries else []
           | None \<Rightarrow> [])\<rparr>
     \<and> (mode = ''proxy'' \<and> tail = [(AEnableProxy (st_HTTPPort user) (st_SOCKSPort user), True)]
        \<or> mode = ''tun'' \<and> (\<exists>endpoints rules answer singBox clash config.
            let query = \<lparr>np_Domain = ''www.msftconnecttest.com'', np_Adapter = av_Name (hd selected), np_RecordType = ''A''\<rparr>;
                preflight = checkSelected (ee_preflight env) user
                  (rememberedWFPCompatibilityFailure (ee_settings env (es_calls s)) (es_settings s)) selected;
                strict = (st_StrictRoute user \<and> tp_WFPReady preflight \<and> \<not> (es_restarting s \<and> es_wfpFallback s))
            in ee_start env c3 p = Inr endpoints \<and> tp_Ready preflight
             \<and> normalizeRulesStrict (ee_idna env) (st_Rules user) = Inr rules \<and> validateRoutingOutbounds rules selected = None
             \<and> ee_dns env c4 query = Inr answer
             \<and> writeSingBoxConfig (ee_config env) endpoints (hd selected) answer rules (ee_compatibility env) strict = Inr (singBox, clash, config)
             \<and> tail = [(ARequest (CDNSResolve query), True), (AWriteConfig config, True),
                 (ARequest (CTunActivate \<lparr>tp_Executable = singBox, tp_ConfigPath = ''runtime/sing-box.json'',
                    tp_StartupTimeoutMS = 1500, tp_StrictRoute = strict\<rparr>), True)]
                 @ (if st_ForceTUNBypass user then [] else [(AProbe, True)])))
     \<and> en_Phase snap = ''running'' \<and> en_Mode snap = mode"
proof -
  obtain selected rules strict before p tail where
    r: "prepared env mode (es_restarting s \<and> es_wfpFallback s) s selected rules strict"
    and l: "looked env mode (es_calls s) before"
    and p: "p = payload_for env mode (es_restarting s \<and> es_dnsFallback s) (start_settings env s) selected (es_calls s @ before)"
    and c: "es_calls s' = es_calls s @ before @ (ARequest (CStart p), True) # tail"
    and t: "mode = ''proxy'' \<and> tail = [(AEnableProxy (ep_HTTPPort p) (ep_SOCKSPort p), True)]
       \<or> mode = ''tun'' \<and> (\<exists>endpoints singBox config. ee_start env (es_calls s @ before) p = Inr endpoints
            \<and> wrote env (es_calls s @ before @ [(ARequest (CStart p), True)]) endpoints selected rules strict singBox config
            \<and> tail = tun_calls (start_settings env s) selected singBox strict config)"
    and n: "en_Phase snap = ''running'' \<and> en_Mode snap = mode"
    by (rule start_success [OF assms])
  obtain available where a: "adapters_now env s = Some available" "selected = filter av_Selected available" "selected \<noteq> []"
    using r by (auto simp: prepared_def)
  obtain state lastError where
    st: "ee_status env (es_calls s @ [(AEnsure (mode = ''tun''), True)]) = Inr (state, lastError)"
    and b: "before = [(AEnsure (mode = ''tun''), True), (ARequest CStatus, True)] @ (if state = ''failed''
      then [(ARequest CStop, \<not> isl (ee_stop env (es_calls s @ [(AEnsure (mode = ''tun''), True), (ARequest CStatus, True)])))] else [])"
    using l unfolding looked_def by blast
  define c2 where "c2 = es_calls s @ [(AEnsure (mode = ''tun''), True)] @ [(ARequest CStatus, True)]"
  have c3: "es_calls s @ before = (if state = ''failed'' then c2 @ [(ARequest CStop, \<not> isl (ee_stop env c2))] else c2)"
    by (simp add: b c2_def)
  define user where "user = settings_Get (ee_settings env (es_calls s)) (es_settings s)"
  have user: "start_settings env s = user" by (simp add: start_settings_def user_def)
  define c3 where "c3 = es_calls s @ before"
  have c3': "(if state = ''failed'' then c2 @ [(ARequest CStop, \<not> isl (ee_stop env c2))] else c2) = c3"
    by (simp add: c3 c3_def)
  have available: "adapter_List user (ee_metadata env) (ee_interfaces env (es_calls s)) = Some available"
    using a(1) by (simp add: adapters_now_def user_def)
  define preflight where "preflight = checkSelected (ee_preflight env) user
     (rememberedWFPCompatibilityFailure (ee_settings env (es_calls s)) (es_settings s)) selected"
  have calls: "es_calls s' = (c3 @ [(ARequest (CStart p), True)]) @ tail" by (simp add: c c3_def)
  have tun: "mode = ''tun'' \<Longrightarrow> \<exists>endpoints rules answer singBox clash config.
      ee_start env c3 p = Inr endpoints \<and> tp_Ready preflight \<and> normalizeRulesStrict (ee_idna env) (st_Rules user) = Inr rules
      \<and> validateRoutingOutbounds rules selected = None \<and> ee_dns env (c3 @ [(ARequest (CStart p), True)]) (dns_query selected) = Inr answer
      \<and> writeSingBoxConfig (ee_config env) endpoints (hd selected) answer rules (ee_compatibility env)
          (st_StrictRoute user \<and> tp_WFPReady preflight \<and> \<not> (es_restarting s \<and> es_wfpFallback s)) = Inr (singBox, clash, config)
      \<and> tail = tun_calls user selected singBox (st_StrictRoute user \<and> tp_WFPReady preflight \<and> \<not> (es_restarting s \<and> es_wfpFallback s)) config"
    using t r unfolding prepared_def user preflight_def [symmetric] wrote_def c3_def append.assoc by auto
  have proxy: "mode = ''proxy'' \<Longrightarrow> tail = [(AEnableProxy (st_HTTPPort user) (st_SOCKSPort user), True)]"
    using t by (auto simp: p payload_for_def start_payload_def user)
  have payload: "p = \<lparr>ep_Mode = (if mode = ''proxy'' then ''proxy'' else ''tun_tcp_pool''), ep_ListenHost = ''127.0.0.1'',
      ep_SOCKSPort = (if mode = ''proxy'' then st_SOCKSPort user else 0), ep_HTTPPort = (if mode = ''proxy'' then st_HTTPPort user else 0),
      ep_Weighted = st_Weighted user, ep_Adapters = engineAdapters selected,
      ep_Channels = (if mode = ''proxy'' then [] else engineChannels selected), ep_ConnectTimeoutMS = 6000,
      ep_DNS = \<lparr>ds_Policy = (if mode = ''tun'' \<and> es_restarting s \<and> es_dnsFallback s then ''off'' else st_DNSPolicy user),
        ds_LegacyServers = [st_DNSServer user], ds_CacheTTLMS = 60000, ds_QueryTimeoutMS = 4000\<rparr>,
      ep_DomainIsolation = Some (st_BlockedBypass user), ep_DomainIsolationExpiry = Some (st_BlockedExpiry user),
      ep_DomainQuarantines = (case ee_blocked env of
        Some entries \<Rightarrow> if st_BlockedBypass user then seeds_of (ee_now env c3) entries else [] | None \<Rightarrow> [])\<rparr>"
    by (simp add: p payload_for_def start_payload_def user c3_def split: option.splits)
  show ?thesis
    by (rule exI [of _ available], rule exI [of _ state], rule exI [of _ lastError], rule exI [of _ p], rule exI [of _ tail],
        simp only: Let_def c2_def [unfolded append.assoc [symmetric], symmetric] user_def [symmetric] a(2) [symmetric] c3' preflight_def [symmetric],
        intro conjI available a(3) st calls n [THEN conjunct1] n [THEN conjunct2]
          payload [unfolded engineAdapters_def engineChannels_eq seeds_of_def],
        use t proxy tun in \<open>unfold tun_calls_def dns_query_def activation_def config_path_def, blast\<close>)
qed

section \<open>Examples\<close>

text \<open>An environment in which everything succeeds, with the adapter of the examples and the settings of a proxy user.\<close>

definition example_env :: engine_env where
  "example_env = \<lparr>ee_acquire = True, ee_idna = (\<lambda>_. None), ee_settings = (\<lambda>_. example_settings_env),
     ee_interfaces = (\<lambda>_. Some example_interfaces), ee_metadata = (\<lambda>_. None), ee_preflight = example_preflight_env,
     ee_compatibility = \<lparr>cp_ProcessNames = [], cp_ProcessPaths = []\<rparr>, ee_blocked = None, ee_config = example_config_env,
     ee_ensure = (\<lambda>_ _. Inr \<lparr>ch_ProtocolVersion = 1, ch_EngineVersion = ''1'', ch_Elevated = True\<rparr>),
     ee_hello = (\<lambda>_. \<lparr>ch_ProtocolVersion = 1, ch_EngineVersion = ''1'', ch_Elevated = True\<rparr>),
     ee_status = (\<lambda>_. Inr (''stopped'', [])), ee_start = (\<lambda>_ _. Inr example_endpoints), ee_stop = (\<lambda>_. Inr ()),
     ee_dns = (\<lambda>_ _. Inr \<lparr>da_Transport = ''udp'', da_Server = ''8.8.8.8:53''\<rparr>), ee_activate = (\<lambda>_ _. Inr (''running'', [])),
     ee_deactivate = (\<lambda>_. Inr ()), ee_telemetry = (\<lambda>_. Inl (Disconnected [])), ee_inspect = (\<lambda>_. Inl (Disconnected [])),
     ee_enableProxy = (\<lambda>_ _ _. Inr ()), ee_restoreProxy = (\<lambda>_. Inr ()), ee_probe = (\<lambda>_. Inr []), ee_boundTCP = (\<lambda>_ _. True),
     ee_now = (\<lambda>_. 0)\<rparr>"

definition proxy_user :: app_settings where
  "proxy_user = example_selection\<lparr>st_Mode := ''proxy''\<rparr>"

definition example_engine :: "app_settings \<Rightarrow> engine_service" where
  "example_engine settings = newEngineService (Inr []) False True [] \<lparr>ss_settings = settings, ss_migration = no_migration\<rparr> example_disk"

lemma example_engine_simps [simp]:
  "es_calls (example_engine st) = []" "es_restarting (example_engine st) = False" "es_transition (example_engine st) = []"
  "es_closing (example_engine st) = False" "es_recoveryError (example_engine st) = []" "es_hostElevated (example_engine st) = False"
  "es_settings (example_engine st) = \<lparr>ss_settings = st, ss_migration = no_migration\<rparr>" "es_stops (example_engine st) = 0"
  "es_watchdogStopping (example_engine st) = False" "es_dnsFallback (example_engine st) = False" "es_wfpFallback (example_engine st) = False"
  by (simp_all add: example_engine_def newEngineService_def Let_def)

lemma Get_example: "settings_Get example_settings_env \<lparr>ss_settings = proxy_user, ss_migration = m\<rparr> = proxy_user"
  by (simp add: settings_Get_def example_settings_env_def proxy_user_def example_selection_def DefaultSettings_def zero_settings_def)

lemma proxy_user_adapters: "adapter_List proxy_user (\<lambda>_. None) (Some example_interfaces) = Some example_adapters"
proof -
  have e: "st_SelectedIDs proxy_user = st_SelectedIDs example_selection" "st_Weights proxy_user = st_Weights example_selection"
    by (simp_all add: proxy_user_def)
  have "view_of proxy_user = view_of example_selection"
    by (intro ext) (simp only: view_of_def e)
  then show ?thesis using example_adapters_eval(1) by (simp add: adapter_List_def)
qed

lemma example_selected: "filter av_Selected example_adapters = example_adapters" "example_adapters \<noteq> []"
proof -
  have "length example_adapters = 1" using arg_cong [OF example_adapters_eval(2), of length] by simp
  then obtain a where a: "example_adapters = [a]" by (auto simp: length_Suc_conv)
  have "length (available_outbounds [a]) = 3" using example_adapters_usable by (simp add: a)
  then have "av_Selected a" by (simp add: available_outbounds_def split: if_splits)
  then show "filter av_Selected example_adapters = example_adapters" "example_adapters \<noteq> []" by (simp_all add: a)
qed

text \<open>A proxy start with an environment that may differ in what it answers to the change of the system proxy.\<close>

lemma example_prepare:
  assumes "env = example_env\<lparr>ee_enableProxy := p\<rparr>" "es_settings s = \<lparr>ss_settings = proxy_user, ss_migration = m\<rparr>"
  shows "start_prepare env ''proxy'' w s = (Inr (example_adapters, proxy_user, [], st_StrictRoute proxy_user \<and> \<not> w), s)"
  using assms
  by (simp add: start_prepare_def andThen_def start_selected_def adapters_now_def preferences_def start_rules_def start_preflight_def
      ok_def example_env_def Get_example proxy_user_adapters example_selected)

lemma example_connect:
  assumes "env = example_env\<lparr>ee_enableProxy := p\<rparr>"
  shows "start_connect env ''proxy'' proxy_user s
    = (Inr \<lparr>ch_ProtocolVersion = 1, ch_EngineVersion = ''1'', ch_Elevated = True\<rparr>, called (ARequest CStatus) True (called (AEnsure False) True s))"
  using assms
  by (simp add: start_connect_def andThen_def demand_def start_save_mode_def start_reset_def ok_def example_env_def proxy_user_def)

definition example_payload :: start_params where
  "example_payload = start_payload ''proxy'' proxy_user example_adapters (st_DNSPolicy proxy_user) 0 None"

definition example_before :: calls where
  "example_before = [(AEnsure False, True), (ARequest CStatus, True)]"

lemma example_start:
  assumes "env = example_env\<lparr>ee_enableProxy := p\<rparr>"
  obtains s1 where "es_calls s1 = example_before" "service_Start env ''proxy'' (example_engine proxy_user)
    = (let (r, s) = start_engine_calls env ''proxy'' False proxy_user example_adapters []
      (st_StrictRoute proxy_user) \<lparr>ch_ProtocolVersion = 1, ch_EngineVersion = ''1'', ch_Elevated = True\<rparr> s1 in (r, clearTransition ''starting'' s))"
proof -
  let ?s = "example_engine proxy_user"
  obtain s0 where g: "start_guard ''proxy'' ?s = (Inr (False, False), s0)" and s0: "es_calls s0 = []" "es_settings s0 = es_settings ?s"
    by (simp add: start_guard_def reset_flags_def Let_def)
  define s1 where "s1 = called (ARequest CStatus) True (called (AEnsure False) True s0)"
  have "start_body env ''proxy'' (False, False) s0 = start_engine_calls env ''proxy'' False proxy_user example_adapters []
      (st_StrictRoute proxy_user) \<lparr>ch_ProtocolVersion = 1, ch_EngineVersion = ''1'', ch_Elevated = True\<rparr> s1"
    using example_prepare [OF assms(1), of s0] example_connect [OF assms(1), of s0] s0(2)
    by (simp add: start_body_def andThen_def s1_def)
  moreover have "es_calls s1 = example_before" by (simp add: s1_def s0 example_before_def)
  moreover have "service_Start env ''proxy'' ?s = (let (r, s) = start_body env ''proxy'' (False, False) s0 in (r, clearTransition ''starting'' s))"
    using g by (simp add: service_Start_def assms(1) example_env_def)
  ultimately show ?thesis using that by simp
qed

lemma example_start_fails:
  "\<exists>e s'. service_Start (example_env\<lparr>ee_enableProxy := \<lambda>_ _ _. Inl ''denied''\<rparr>) ''proxy'' (example_engine proxy_user) = (Inl e, s')
     \<and> es_calls s' = example_before @ [(ARequest (CStart example_payload), True), (AEnableProxy 10801 10800, False)] @ undo_calls True True True"
proof -
  let ?env = "example_env\<lparr>ee_enableProxy := \<lambda>_ _ _. Inl ''denied''\<rparr>"
  obtain s1 where c: "es_calls s1 = example_before" and r: "service_Start ?env ''proxy'' (example_engine proxy_user)
    = (let (r, s) = start_engine_calls ?env ''proxy'' False proxy_user example_adapters []
      (st_StrictRoute proxy_user) \<lparr>ch_ProtocolVersion = 1, ch_EngineVersion = ''1'', ch_Elevated = True\<rparr> s1 in (r, clearTransition ''starting'' s))"
    by (rule example_start) (rule refl)
  have "st_HTTPPort proxy_user = 10801" "st_SOCKSPort proxy_user = 10800"
    by (simp_all add: proxy_user_def example_selection_def DefaultSettings_def)
  then show ?thesis unfolding r
    by (simp add: start_engine_calls_def andThen_def demand_def start_proxy_mode_def demand_or_rollback_def ask_def rollback_def change_def
        fail_def ok_def Let_def c example_env_def undo_calls_def example_payload_def)
qed

lemma example_start_succeeds:
  "\<exists>snap s'. service_Start example_env ''proxy'' (example_engine proxy_user) = (Inr snap, s')
     \<and> es_calls s' = example_before @ [(ARequest (CStart example_payload), True), (AEnableProxy 10801 10800, True)]"
proof -
  obtain s1 where c: "es_calls s1 = example_before" and r: "service_Start example_env ''proxy'' (example_engine proxy_user)
    = (let (r, s) = start_engine_calls example_env ''proxy'' False proxy_user example_adapters []
      (st_StrictRoute proxy_user) \<lparr>ch_ProtocolVersion = 1, ch_EngineVersion = ''1'', ch_Elevated = True\<rparr> s1 in (r, clearTransition ''starting'' s))"
    by (rule example_start [of example_env "ee_enableProxy example_env"]) simp
  have "st_HTTPPort proxy_user = 10801" "st_SOCKSPort proxy_user = 10800"
    by (simp_all add: proxy_user_def example_selection_def DefaultSettings_def)
  then show ?thesis unfolding r
    by (simp add: start_engine_calls_def andThen_def demand_def start_proxy_mode_def demand_or_rollback_def ask_def change_def
        ok_def Let_def c example_env_def example_payload_def)
qed

theorem failed_start_leaves_nothing_witness:
  "\<exists>e s'. service_Start (example_env\<lparr>ee_enableProxy := \<lambda>_ _ _. Inl ''denied''\<rparr>) ''proxy'' (example_engine proxy_user) = (Inl e, s')
     \<and> (ARequest (CStart example_payload), True) \<in> set (es_calls s') \<and> \<not> may_be_on proxy_effect s' \<and> \<not> may_be_on tun_effect s'"
proof -
  obtain e s' where r: "service_Start (example_env\<lparr>ee_enableProxy := \<lambda>_ _ _. Inl ''denied''\<rparr>) ''proxy'' (example_engine proxy_user) = (Inl e, s')"
    and c: "es_calls s' = example_before @ [(ARequest (CStart example_payload), True), (AEnableProxy 10801 10800, False)] @ undo_calls True True True"
    using example_start_fails by blast
  have "all_off (example_engine proxy_user)" by (simp add: all_off_def may_be_on_def)
  moreover have "\<forall>(a, b) \<in> set (since (example_engine proxy_user) s'). cleanup a \<longrightarrow> b"
    by (simp add: since_def c example_before_def undo_calls_def)
  ultimately show ?thesis using failed_start_leaves_nothing [OF r] r c by auto
qed

theorem successful_start_calls_witness:
  "\<exists>snap s'. service_Start example_env ''proxy'' (example_engine proxy_user) = (Inr snap, s') \<and> en_Phase snap = ''running''
     \<and> es_calls s' = [(AEnsure False, True), (ARequest CStatus, True), (ARequest (CStart example_payload), True), (AEnableProxy 10801 10800, True)]
     \<and> map ad_SourceIP (ep_Adapters example_payload) = [''10.0.0.2'']"
proof -
  obtain snap s' where r: "service_Start example_env ''proxy'' (example_engine proxy_user) = (Inr snap, s')"
    and c: "es_calls s' = example_before @ [(ARequest (CStart example_payload), True), (AEnableProxy 10801 10800, True)]"
    using example_start_succeeds by blast
  from successful_start_calls [OF r] have "en_Phase snap = ''running''"
    unfolding Let_def by (elim exE conjE)
  moreover have "map ad_SourceIP (ep_Adapters example_payload) = [''10.0.0.2'']"
    using arg_cong [OF example_adapters_eval(2), of "map (fst \<circ> snd)"]
    by (simp add: example_payload_def start_payload_def engineAdapters_def comp_def)
  ultimately show ?thesis using r c by (simp add: example_before_def)
qed

end
