(* ===== verification/Engine_Runs.thy ===== *)
theory Engine_Runs
  imports Engine_Inv
begin

text \<open>
  The engine service in every interleaving: what a stop has done, the invariants of the service, and the end of the restarts it makes
  on its own.
\<close>

section \<open>Stopping\<close>

text \<open>An answer that is no error of a stop: success, or that there was nothing to stop.\<close>

definition settled :: "client_error + unit \<Rightarrow> bool" where
  "settled r \<longleftrightarrow> r = Inr () \<or> (\<exists>text. r = Inl (Remote ''invalid_state'' text))"

lemma stop_request_result:
  "\<exists>failed. stop_request a answer s = (Inr failed, called a (\<not> isl (answer (es_calls s))) s) \<and> (failed = None \<longleftrightarrow> settled (answer (es_calls s)))"
  by (auto simp: stop_request_def settled_def Let_def split: sum.splits client_error.splits)

lemma stop_requests_result:
  defines "tun \<equiv> \<lambda>env s. ee_deactivate env (es_calls s)"
    and "engine \<equiv> \<lambda>env s. ee_stop env (es_calls s @ [(ARequest CTunDeactivate, \<not> isl (ee_deactivate env (es_calls s)))])"
  shows "\<exists>err. stop_requests env s = (err, called (ARequest CStop) (\<not> isl (engine env s)) (called (ARequest CTunDeactivate) (\<not> isl (tun env s)) s))
     \<and> (err = None \<longleftrightarrow> settled (tun env s) \<and> settled (engine env s))"
proof -
  let ?s = "called (ARequest CTunDeactivate) (\<not> isl (tun env s)) s"
  obtain x where x: "stop_request (ARequest CTunDeactivate) (ee_deactivate env) s = (Inr x, ?s)" "x = None \<longleftrightarrow> settled (tun env s)"
    using stop_request_result unfolding tun_def by blast
  obtain y where y: "stop_request (ARequest CStop) (ee_stop env) ?s = (Inr y, called (ARequest CStop) (\<not> isl (engine env s)) ?s)"
      "y = None \<longleftrightarrow> settled (engine env s)"
    using stop_request_result [of "ARequest CStop" "ee_stop env" ?s] unfolding engine_def tun_def calls_called by blast
  have "first_of (map_option StopTun x) (map_option StopEngine y) = None \<longleftrightarrow> x = None \<and> y = None"
    by (cases x) (simp_all add: first_of_def)
  then show ?thesis unfolding stop_requests_def x(1) prod.case sum.case y(1) using x(2) y(2) by blast
qed

lemma reset_flags_calls [simp]: "es_calls (reset_flags s) = es_calls s" "es_clash (reset_flags s) = es_clash s"
  by (simp_all add: reset_flags_def)

text \<open>The calls of a stop, with the answers to them; \<open>c\<close> are the calls before.\<close>

definition stop_calls :: "bool \<Rightarrow> bool \<Rightarrow> bool \<Rightarrow> bool \<Rightarrow> calls" where
  "stop_calls connected a b c = (AEnsure False, connected)
     # (if connected then [(ARequest CTunDeactivate, a), (ARequest CStop, b)] else []) @ [(ARestoreProxy, c)]"

definition stop_answers ::
    "engine_env \<Rightarrow> calls \<Rightarrow> (client_error + client_hello) \<times> (client_error + unit) \<times> (client_error + unit) \<times> (string + unit)" where
  "stop_answers env c =
     (let ensured = ee_ensure env c False;
          c1 = c @ [(AEnsure False, \<not> isl ensured)];
          tun = ee_deactivate env c1;
          c2 = c1 @ [(ARequest CTunDeactivate, \<not> isl tun)];
          engine = ee_stop env c2;
          c3 = c2 @ [(ARequest CStop, \<not> isl engine)]
      in (ensured, tun, engine, ee_restoreProxy env (if isl ensured then c1 else c3)))"

lemma stop_outside_result:
  assumes "stop_answers env (es_calls s) = (ensured, tun, engine, restored)"
  shows "\<exists>err. stop_outside env s = (ensured, err, s\<lparr>es_calls := es_calls s
       @ stop_calls (\<not> isl ensured) (\<not> isl tun) (\<not> isl engine) (\<not> isl restored)\<rparr>)
     \<and> (\<not> isl ensured \<longrightarrow> (err = None \<longleftrightarrow> settled tun \<and> settled engine \<and> \<not> isl restored))"
proof (cases "ee_ensure env (es_calls s) False")
  case (Inl e)
  then have "ensured = Inl e" "restored = ee_restoreProxy env (es_calls s @ [(AEnsure False, False)])"
    using assms by (auto simp: stop_answers_def Let_def)
  then show ?thesis
    by (intro exI [of _ "case restored of Inl e \<Rightarrow> Some (StopRestore e) | Inr _ \<Rightarrow> None"])
       (simp add: stop_outside_def Let_def stop_calls_def called_def first_of_def Inl)
next
  case (Inr h)
  let ?s1 = "called (AEnsure False) True s"
  obtain err where r: "stop_requests env ?s1
      = (err, called (ARequest CStop) (\<not> isl engine) (called (ARequest CTunDeactivate) (\<not> isl tun) ?s1))"
    and e: "err = None \<longleftrightarrow> settled tun \<and> settled engine"
    using stop_requests_result [of env ?s1] assms Inr by (auto simp: stop_answers_def Let_def)
  define s2 where "s2 = called (ARequest CStop) (\<not> isl engine) (called (ARequest CTunDeactivate) (\<not> isl tun) ?s1)"
  have restored: "ee_restoreProxy env (es_calls s2) = restored" and h: "ensured = Inr h"
    using assms Inr by (auto simp: stop_answers_def Let_def s2_def)
  define err' where "err' = first_of err (case restored of Inl e \<Rightarrow> Some (StopRestore e) | Inr _ \<Rightarrow> None)"
  have "stop_outside env s = (Inr h, err', called ARestoreProxy (\<not> isl restored) s2)"
    by (simp add: stop_outside_def Let_def Inr r s2_def [symmetric] restored err'_def)
  moreover have "called ARestoreProxy (\<not> isl restored) s2 =
      s\<lparr>es_calls := es_calls s @ stop_calls True (\<not> isl tun) (\<not> isl engine) (\<not> isl restored)\<rparr>"
    by (simp add: s2_def called_def stop_calls_def)
  moreover have "err' = None \<longleftrightarrow> settled tun \<and> settled engine \<and> \<not> isl restored"
    using e by (cases restored; cases err) (simp_all add: err'_def first_of_def)
  ultimately show ?thesis by (simp add: h)
qed

lemma stop_body_answers:
  assumes "stop_answers env (es_calls s) = (ensured, tun, engine, restored)"
  shows "\<exists>snap err. stop_body env s = ((snap, err), reset_flags (s\<lparr>es_transition := ''stopping'', es_calls := es_calls s
       @ stop_calls (\<not> isl ensured) (\<not> isl tun) (\<not> isl engine) (\<not> isl restored), es_sample := no_sample, es_clash := no_clash\<rparr>))
     \<and> (err = None \<longleftrightarrow> \<not> isl ensured \<and> settled tun \<and> settled engine \<and> \<not> isl restored) \<and> en_Phase snap = ''stopped''"
proof -
  let ?s = "s\<lparr>es_transition := ''stopping''\<rparr>"
  let ?calls = "es_calls s @ stop_calls (\<not> isl ensured) (\<not> isl tun) (\<not> isl engine) (\<not> isl restored)"
  have "stop_answers env (es_calls ?s) = (ensured, tun, engine, restored)" using assms by simp
  from stop_outside_result [OF this] obtain err where r: "stop_outside env ?s = (ensured, err, ?s\<lparr>es_calls := ?calls\<rparr>)"
    and e: "\<not> isl ensured \<longrightarrow> (err = None \<longleftrightarrow> settled tun \<and> settled engine \<and> \<not> isl restored)"
    by auto
  define err' where "err' = first_of err (case ensured of Inl e \<Rightarrow> Some (StopConnect e) | Inr _ \<Rightarrow> None)"
  have "err' = None \<longleftrightarrow> \<not> isl ensured \<and> settled tun \<and> settled engine \<and> \<not> isl restored"
    using e by (cases ensured) (auto simp: err'_def first_of_def)
  moreover have "stop_body env s = ((stopped_snapshot env ensured (reset_flags (?s\<lparr>es_calls := ?calls,
      es_sample := no_sample, es_clash := no_clash\<rparr>)), err'), reset_flags (?s\<lparr>es_calls := ?calls, es_sample := no_sample, es_clash := no_clash\<rparr>))"
    unfolding stop_body_def r Let_def prod.case err'_def by simp
  moreover have "en_Phase (stopped_snapshot env ensured t) = ''stopped''" for t
    by (simp add: stopped_snapshot_def Let_def)
  ultimately show ?thesis by blast
qed

lemma stop_body_result:
  "\<exists>snap err connected a b c. stop_body env s = ((snap, err), reset_flags (s\<lparr>es_transition := ''stopping'',
       es_calls := es_calls s @ stop_calls connected a b c, es_sample := no_sample, es_clash := no_clash\<rparr>)) \<and> en_Phase snap = ''stopped''"
proof -
  obtain ensured tun engine restored where "stop_answers env (es_calls s) = (ensured, tun, engine, restored)" by (metis prod_cases4)
  from stop_body_answers [OF this] show ?thesis by blast
qed

text \<open>
  C28. Stopping. A stop that does not get its turn within its 35 seconds, because another operation holds the lifecycle gate, fails with a
  timeout and does nothing at all. Any other stop restores the system proxy, as its last call, also when the engine cannot be reached
  or refuses; when the engine was reached, the tunnel was deactivated and then the engine stopped before. It reports no error
  exactly when the engine was reached, each of its two requests succeeded or was answered \<open>invalid_state\<close> (the engine has nothing of the
  kind to stop), and the proxy was restored. Whatever was taken back with success is off afterwards: the proxy, the tunnel and the
  engine each on its own account.
\<close>

theorem stop_takes_everything_back:
  "let ensured = ee_ensure env (es_calls s) False;
       c1 = es_calls s @ [(AEnsure False, \<not> isl ensured)];
       tun = ee_deactivate env c1;
       c2 = c1 @ [(ARequest CTunDeactivate, \<not> isl tun)];
       engine = ee_stop env c2;
       c3 = (if isl ensured then c1 else c2 @ [(ARequest CStop, \<not> isl engine)]);
       restored = ee_restoreProxy env c3;
       fine = (\<lambda>r. r = Inr () \<or> (\<exists>text. r = Inl (Remote ''invalid_state'' text)))
   in if \<not> ee_acquire env then service_Stop env s = (Inl GateTimeout, s)
      else \<exists>snap err s'. service_Stop env s = (Inr (snap, err), s')
        \<and> es_calls s' = c3 @ [(ARestoreProxy, \<not> isl restored)]
        \<and> (err = None \<longleftrightarrow> \<not> isl ensured \<and> fine tun \<and> fine engine \<and> \<not> isl restored)
        \<and> (\<not> isl restored \<longrightarrow> \<not> may_be_on proxy_effect s')
        \<and> (\<not> isl ensured \<and> tun = Inr () \<longrightarrow> \<not> may_be_on tun_effect s')
        \<and> (\<not> isl ensured \<and> engine = Inr () \<longrightarrow> \<not> may_be_on engine_effect s')
        \<and> es_clash s' = no_clash \<and> en_Phase snap = ''stopped''"
proof (cases "ee_acquire env")
  case True
  obtain ensured tun engine restored where answers: "stop_answers env (es_calls s) = (ensured, tun, engine, restored)" by (metis prod_cases4)
  from stop_body_answers [OF this] obtain snap err where
    r: "stop_body env s = ((snap, err), reset_flags (s\<lparr>es_transition := ''stopping'', es_calls := es_calls s
       @ stop_calls (\<not> isl ensured) (\<not> isl tun) (\<not> isl engine) (\<not> isl restored), es_sample := no_sample, es_clash := no_clash\<rparr>))"
    and e: "err = None \<longleftrightarrow> \<not> isl ensured \<and> settled tun \<and> settled engine \<and> \<not> isl restored" and p: "en_Phase snap = ''stopped''"
    by blast
  obtain s' where stop: "service_Stop env s = (Inr (snap, err), s')" and c: "es_clash s' = no_clash"
    "es_calls s' = es_calls s @ stop_calls (\<not> isl ensured) (\<not> isl tun) (\<not> isl engine) (\<not> isl restored)"
    using True by (simp add: service_Stop_def r clearTransition_def)
  have off: "\<not> isl restored \<longrightarrow> \<not> may_be_on proxy_effect s'"
    "\<not> isl ensured \<and> tun = Inr () \<longrightarrow> \<not> may_be_on tun_effect s'" "\<not> isl ensured \<and> engine = Inr () \<longrightarrow> \<not> may_be_on engine_effect s'"
    by (auto simp: may_be_on_def c stop_calls_def)
  define c1 where "c1 = es_calls s @ [(AEnsure False, \<not> isl ensured)]"
  define c2 where "c2 = c1 @ [(ARequest CTunDeactivate, \<not> isl tun)]"
  have a: "ee_ensure env (es_calls s) False = ensured" "ee_deactivate env c1 = tun" "ee_stop env c2 = engine"
    "ee_restoreProxy env (if isl ensured then c1 else c2 @ [(ARequest CStop, \<not> isl engine)]) = restored"
    using answers unfolding stop_answers_def Let_def c1_def c2_def by auto
  have "es_calls s' = (if isl ensured then c1 else c2 @ [(ARequest CStop, \<not> isl engine)]) @ [(ARestoreProxy, \<not> isl restored)]"
    by (simp add: c stop_calls_def c1_def c2_def)
  then show ?thesis
    unfolding Let_def a(1) c1_def [symmetric] a(2) c2_def [symmetric] a(3,4) settled_def [symmetric]
    using stop e p off c True by auto
qed (simp add: service_Stop_def)

theorem stop_takes_everything_back_witness:
  "\<exists>snap s'. service_Stop (example_env\<lparr>ee_deactivate := \<lambda>_. Inl (Remote ''invalid_state'' ''no tunnel'')\<rparr>)
       ((example_engine proxy_user)\<lparr>es_calls := [(AEnableProxy 1 2, True)]\<rparr>) = (Inr (snap, None), s')
     \<and> es_calls s' = [(AEnableProxy 1 2, True), (AEnsure False, True), (ARequest CTunDeactivate, False), (ARequest CStop, True), (ARestoreProxy, True)]
     \<and> \<not> may_be_on proxy_effect s' \<and> \<not> may_be_on engine_effect s'"
proof -
  let ?env = "example_env\<lparr>ee_deactivate := \<lambda>_. Inl (Remote ''invalid_state'' ''no tunnel'')\<rparr>"
  let ?s = "(example_engine proxy_user)\<lparr>es_calls := [(AEnableProxy 1 2, True)]\<rparr>"
  show ?thesis
    using stop_takes_everything_back [of ?env ?s] by (auto simp: Let_def example_env_def)
qed

section \<open>What an operation leaves alone\<close>

text \<open>
  \<open>tame A s s'\<close>: the flags of the service are as before, and only calls in \<open>A\<close> were made. One rule per combinator lifts this to the operations.
\<close>

definition same_flags :: "engine_service \<Rightarrow> engine_service \<Rightarrow> bool" where
  "same_flags s s' \<longleftrightarrow> es_restarting s' = es_restarting s \<and> es_dnsFallback s' = es_dnsFallback s \<and> es_wfpFallback s' = es_wfpFallback s
     \<and> es_notice s' = es_notice s \<and> es_recoveryError s' = es_recoveryError s \<and> es_hostElevated s' = es_hostElevated s
     \<and> es_proxySafe s' = es_proxySafe s \<and> es_closing s' = es_closing s \<and> es_stops s' = es_stops s
     \<and> es_watchdogStopping s' = es_watchdogStopping s \<and> es_transition s' = es_transition s"

definition grown :: "(act \<Rightarrow> bool) \<Rightarrow> engine_service \<Rightarrow> engine_service \<Rightarrow> bool" where
  "grown A s s' \<longleftrightarrow> (\<exists>d. es_calls s' = es_calls s @ d \<and> list_all (A \<circ> fst) d)"

definition tame :: "(act \<Rightarrow> bool) \<Rightarrow> engine_service \<Rightarrow> engine_service \<Rightarrow> bool" where
  "tame A s s' \<longleftrightarrow> same_flags s s' \<and> grown A s s'"

definition keeps :: "(act \<Rightarrow> bool) \<Rightarrow> 'a operation \<Rightarrow> bool" where
  "keeps A m \<longleftrightarrow> (\<forall>s r s'. m s = (r, s') \<longrightarrow> tame A s s')"

lemma grown_refl [simp]: "grown A s s"
  by (simp add: grown_def)

lemma grown_trans: "grown A s t \<Longrightarrow> grown A t u \<Longrightarrow> grown A s u"
  unfolding grown_def by (metis append_assoc list_all_append)

lemma grown_same: "es_calls s' = es_calls s \<Longrightarrow> grown A s s'"
  by (simp add: grown_def)

lemma same_flags_refl [simp]: "same_flags s s"
  by (simp add: same_flags_def)

lemma same_flags_trans: "same_flags s t \<Longrightarrow> same_flags t u \<Longrightarrow> same_flags s u"
  by (simp add: same_flags_def)

lemma tame_refl [simp]: "tame A s s"
  by (simp add: tame_def)

lemma tame_trans: "tame A s t \<Longrightarrow> tame A t u \<Longrightarrow> tame A s u"
  unfolding tame_def by (blast intro: grown_trans same_flags_trans)

lemma tame_called [intro]: "A a \<Longrightarrow> tame A s (called a b s)"
  by (simp add: tame_def same_flags_def grown_def called_def)

named_theorems keep_rules \<open>an operation leaves the flags alone\<close>

lemma keepsD: "keeps A m \<Longrightarrow> m s = (r, s') \<Longrightarrow> tame A s s'"
  by (simp add: keeps_def)

lemma keepsI: "(\<And>s r s'. m s = (r, s') \<Longrightarrow> tame A s s') \<Longrightarrow> keeps A m"
  by (simp add: keeps_def)

lemma keeps_ok [keep_rules]: "keeps A (ok x)"
  by (simp add: keeps_def)

lemma keeps_fail [keep_rules]: "keeps A (fail e)"
  by (simp add: keeps_def)

lemma keeps_preferences [keep_rules]: "keeps A (preferences env)"
  by (simp add: keeps_def)

lemma keeps_andThen [keep_rules]:
  assumes "keeps A m" "\<And>x. keeps A (f x)"
  shows "keeps A (andThen m f)"
  using assms by (intro keepsI) (auto simp: andThen_def split: prod.splits sum.splits dest!: keepsD intro: tame_trans)

lemma keeps_ask [keep_rules]: "A a \<Longrightarrow> keeps A (ask a answer)"
  by (intro keepsI) (auto simp: ask_def Let_def)

lemma keeps_demand [keep_rules]: "A a \<Longrightarrow> keeps A (demand a answer wrap)"
  by (intro keepsI) (auto simp: demand_def Let_def)

lemma keeps_from_settings [keep_rules]: "keeps A (from_settings env f)"
  by (intro keepsI) (auto simp: from_settings_def tame_def same_flags_def grown_def split: prod.splits)

lemma keeps_change: "(\<And>s. same_flags s (g s) \<and> es_calls (g s) = es_calls s) \<Longrightarrow> keeps A (change g)"
  by (intro keepsI) (auto simp: tame_def grown_same)

lemma keeps_if [keep_rules]: "(b \<Longrightarrow> keeps A m) \<Longrightarrow> (\<not> b \<Longrightarrow> keeps A n) \<Longrightarrow> keeps A (if b then m else n)"
  by simp

lemma keeps_case_sum [keep_rules]:
  "(\<And>x. keeps A (f x)) \<Longrightarrow> (\<And>x. keeps A (g x)) \<Longrightarrow> keeps A (case r of Inl x \<Rightarrow> f x | Inr x \<Rightarrow> g x)"
  by (simp split: sum.splits)

lemma keeps_case_prod [keep_rules]: "(\<And>x y. keeps A (f x y)) \<Longrightarrow> keeps A (case p of (x, y) \<Rightarrow> f x y)"
  by (simp split: prod.splits)

text \<open>What only a start may call: the request that starts the engine, the change of the system proxy.\<close>

fun starts :: "act \<Rightarrow> bool" where
  "starts (ARequest (CStart _)) = True"
| "starts _ = False"

fun sets_proxy :: "act \<Rightarrow> bool" where
  "sets_proxy (AEnableProxy _ _) = True"
| "sets_proxy _ = False"

definition quiet :: "act \<Rightarrow> bool" where "quiet a \<longleftrightarrow> \<not> starts a \<and> \<not> sets_proxy a"

definition allowed :: "string \<Rightarrow> act \<Rightarrow> bool" where "allowed mode a \<longleftrightarrow> (sets_proxy a \<longrightarrow> mode = ''proxy'')"

lemma quiet_acts [simp]:
  "quiet (AEnsure b)" "quiet (ARequest CStatus)" "quiet (ARequest CStop)" "quiet (ARequest (CDNSResolve p))" "quiet (ARequest (CTunActivate q))"
  "quiet (ARequest CTunDeactivate)" "quiet (ARequest CTelemetry)" "quiet (ARequest CWFPInspect)" "quiet AShutdown" "quiet ARestoreProxy"
  "quiet (AWriteConfig c)" "quiet AProbe" "quiet (ABoundTCP v)" "quiet (AQuarantines qs)"
  by (simp_all add: quiet_def)

lemma quiet_allowed [simp]: "quiet a \<Longrightarrow> allowed mode a"
  by (simp add: quiet_def allowed_def)

lemma start_allowed [simp]: "allowed mode (ARequest c)" "allowed ''proxy'' a"
  by (simp_all add: allowed_def)

lemma keeps_rollback [keep_rules]: "keeps (allowed mode) (rollback env cause)"
  unfolding rollback_def by (intro keep_rules keeps_change) (simp_all add: same_flags_def)

lemma keeps_demand_or_rollback [keep_rules]: "allowed mode a \<Longrightarrow> keeps (allowed mode) (demand_or_rollback env a answer wrap)"
  unfolding demand_or_rollback_def by (intro keep_rules)

lemma keeps_write_config [keep_rules]: "keeps (allowed mode) (write_config env endpoints selected answer rules strict)"
proof (intro keepsI)
  fix s s' :: engine_service and r
  assume "write_config env endpoints selected answer rules strict s = (r, s')"
  then show "tame (allowed mode) s s'"
    using keepsD [OF keeps_rollback [of mode env]] by (auto simp: write_config_def split: sum.splits intro: tame_called)
qed

lemma keeps_start_tun [keep_rules]: "keeps (allowed mode) (start_tun_mode env settings hello selected rules strict endpoints)"
  unfolding start_tun_mode_def Let_def by (intro keep_rules keeps_change) (simp_all add: same_flags_def)

lemma keeps_start_proxy [keep_rules]: "keeps (allowed ''proxy'') (start_proxy_mode env settings)"
  unfolding start_proxy_mode_def by (intro keep_rules) simp

lemma keeps_start_engine_calls: "keeps (allowed mode) (start_engine_calls env mode d settings selected rules strict hello)"
proof (intro keepsI)
  fix s s' :: engine_service and r
  let ?policy = "if mode = ''tun'' \<and> d then ''off'' else st_DNSPolicy settings"
  let ?payload = "start_payload mode settings selected ?policy (ee_now env (es_calls s)) (ee_blocked env)"
  have mode: "keeps (allowed mode) (if mode = ''proxy'' then start_proxy_mode env settings
      else start_tun_mode env settings hello selected rules strict endpoints)" for endpoints
    using keeps_start_proxy keeps_start_tun by simp
  have last: "keeps (allowed mode) (\<lambda>s. (Inr (started_snapshot mode settings hello (ee_now env (es_calls s))), s))"
    by (simp add: keeps_def)
  assume "start_engine_calls env mode d settings selected rules strict hello s = (r, s')"
  then show "tame (allowed mode) s s'"
    unfolding start_engine_calls_def Let_def
    by (rule keepsD [rotated]) (intro keep_rules mode last keeps_change; simp add: same_flags_def)
qed

lemma keeps_same_state: "(\<And>s. snd (m s) = s) \<Longrightarrow> keeps A m"
  by (intro keepsI) (metis snd_conv tame_refl)

lemma keeps_start_prepare [keep_rules]: "keeps A (start_prepare env mode w)"
  unfolding start_prepare_def
  by (intro keep_rules; rule keeps_same_state;
      auto simp: start_selected_def start_rules_def start_preflight_def Let_def split: option.splits sum.splits)

lemma keeps_start_connect [keep_rules]: "keeps (allowed mode') (start_connect env mode settings)"
  unfolding start_connect_def start_save_mode_def start_reset_def by (intro keep_rules) simp_all

lemma keeps_start_body: "keeps (allowed mode) (start_body env mode fallbacks)"
  unfolding start_body_def by (intro keep_rules keeps_start_engine_calls)

section \<open>The effect of each operation\<close>

text \<open>The calls the service may make: none that starts or sets anything while an earlier proxy is not restored, no proxy for an elevated host of another user.\<close>

definition permitted :: "engine_service \<Rightarrow> act \<Rightarrow> bool" where
  "permitted s a \<longleftrightarrow> (starts a \<or> sets_proxy a \<longrightarrow> es_recoveryError s = []) \<and> (sets_proxy a \<longrightarrow> \<not> es_hostElevated s \<or> es_proxySafe s)"

definition effect :: "(engine_service \<Rightarrow> engine_service) \<Rightarrow> engine_service \<Rightarrow> engine_service \<Rightarrow> bool" where
  "effect f s s' \<longleftrightarrow> same_flags (f s) s' \<and> grown (permitted s) s s'"

definition watch_begins :: "engine_service \<Rightarrow> engine_service" where
  "watch_begins s = s\<lparr>es_watchdogStopping := True, es_stops := es_stops s + 1\<rparr>"

lemma quiet_permitted [simp]: "quiet a \<Longrightarrow> permitted s a"
  by (simp add: quiet_def permitted_def)

lemma list_all_fst_mono: "list_all (A \<circ> fst) d \<Longrightarrow> (\<And>a. A a \<Longrightarrow> B a) \<Longrightarrow> list_all (B \<circ> fst) d"
  by (auto simp: list_all_iff)

lemma grown_mono: "grown A s s' \<Longrightarrow> (\<And>a. A a \<Longrightarrow> B a) \<Longrightarrow> grown B s s'"
  unfolding grown_def using list_all_fst_mono by blast

lemma tame_effect: "tame quiet s s' \<Longrightarrow> effect (\<lambda>s. s) s s'"
  unfolding tame_def effect_def by (auto elim: grown_mono)

lemma grown_stop: "grown quiet s (t\<lparr>es_calls := es_calls s @ stop_calls connected a b c\<rparr>)"
  by (auto simp: grown_def stop_calls_def)

lemma Stop_effect:
  assumes "service_Stop env s = (r, s')" "es_transition s = []"
  shows "effect (\<lambda>s. s) s s' \<or> effect reset_flags s s'"
proof (cases "ee_acquire env")
  case False
  then have "s' = s" using assms by (simp add: service_Stop_def)
  then show ?thesis by (simp add: effect_def)
next
  case True
  obtain snap err connected a b c where r: "stop_body env s = ((snap, err), reset_flags (s\<lparr>es_transition := ''stopping'',
       es_calls := es_calls s @ stop_calls connected a b c, es_sample := no_sample, es_clash := no_clash\<rparr>))"
    using stop_body_result [of env s] by blast
  have "same_flags (reset_flags s) s'" "es_calls s' = es_calls s @ stop_calls connected a b c"
    using assms True by (auto simp: service_Stop_def r same_flags_def reset_flags_def clearTransition_def)
  moreover have "list_all (permitted s \<circ> fst) (stop_calls connected a b c)"
    by (simp add: stop_calls_def)
  ultimately show ?thesis by (auto simp: effect_def grown_def)
qed

lemma Start_effect:
  assumes "service_Start env mode s = (r, s')" "es_transition s = []"
  shows "effect (\<lambda>s. s) s s' \<or> effect reset_flags s s'"
proof (cases "s' = s")
  case True
  then show ?thesis by (simp add: effect_def)
next
  case False
  with assms(1) obtain fallbacks s0 s1 where g: "start_guard mode s = (Inr fallbacks, s0)" and b: "start_body env mode fallbacks s0 = (r, s1)"
    and s': "s' = clearTransition ''starting'' s1"
    by (auto simp: service_Start_def start_guard_def Let_def split: if_splits prod.splits sum.splits)
  have s0: "s0 = (reset_flags s)\<lparr>es_transition := ''starting'', es_clash := no_clash\<rparr>" "es_recoveryError s = []"
    "mode = ''proxy'' \<longrightarrow> \<not> es_hostElevated s \<or> es_proxySafe s"
    using g by (auto simp: start_guard_def Let_def split: if_splits)
  have t: "tame (allowed mode) s0 s1"
    using keepsD [OF keeps_start_body b] .
  have p: "allowed mode a \<Longrightarrow> permitted s a" for a
    using s0(2,3) by (auto simp: allowed_def permitted_def)
  have "es_transition (reset_flags s) = []" using assms(2) by (simp add: reset_flags_def)
  then have "same_flags (reset_flags s) s'"
    using t by (auto simp: tame_def same_flags_def s0(1) s' clearTransition_def)
  moreover have "grown (permitted s) s s'"
    using grown_mono [OF conjunct2 [OF t [unfolded tame_def]] p] by (simp add: grown_def s' s0(1))
  ultimately show ?thesis by (simp add: effect_def)
qed

lemma Repair_effect: "RepairWFP env s = (r, s') \<Longrightarrow> effect (\<lambda>s. s) s s'"
proof -
  have q: "keeps quiet (change (called AShutdown True))"
    by (intro keepsI) (auto simp: tame_called)
  have refused: "keeps quiet (repair_refused env)"
  proof (intro keepsI)
    fix s s' :: engine_service and r
    have k: "keeps quiet (andThen (ask (ARequest CStatus) (ee_status env)) (\<lambda>status.
          case status of Inr (state, _) \<Rightarrow> if state \<noteq> ''stopped'' \<and> state \<noteq> ''failed'' then fail EngineStillRunning else ok ()
          | Inl _ \<Rightarrow> ok ()))"
      by (intro keep_rules) simp
    assume "repair_refused env s = (r, s')"
    then show "tame quiet s s'" using keepsD [OF k] by (auto simp: repair_refused_def split: if_splits)
  qed
  have body: "keeps quiet (repair_body env)"
    unfolding repair_body_def remember_wfp_def by (intro keep_rules refused q) simp_all
  assume "RepairWFP env s = (r, s')"
  then show ?thesis using keepsD [OF body] by (auto simp: RepairWFP_def effect_def tame_effect [unfolded effect_def] split: if_splits)
qed

text \<open>A snapshot: the same, or the watchdog begins to stop the engine.\<close>

definition watched :: "engine_service \<Rightarrow> engine_service \<Rightarrow> bool" where
  "watched s s' \<longleftrightarrow> grown quiet s s' \<and> (same_flags s s' \<or> \<not> es_watchdogStopping s \<and> same_flags (watch_begins s) s')"

definition watches :: "'a operation \<Rightarrow> bool" where
  "watches m \<longleftrightarrow> (\<forall>s r s'. m s = (r, s') \<longrightarrow> watched s s')"

lemma watchedI: "tame quiet s s' \<Longrightarrow> watched s s'"
  by (simp add: tame_def watched_def)

lemma watched_after: "tame quiet s s1 \<Longrightarrow> watched s1 s' \<Longrightarrow> watched s s'"
  unfolding watched_def tame_def by (auto simp: same_flags_def watch_begins_def elim: grown_trans)

lemma watches_andThen:
  assumes "keeps quiet m" "\<And>x. watches (f x)"
  shows "watches (andThen m f)"
  unfolding watches_def
proof (intro allI impI)
  fix s r s'
  assume "andThen m f s = (r, s')"
  then consider e where "m s = (e, s')" | x s1 where "m s = (Inr x, s1)" "f x s1 = (r, s')"
    by (auto simp: andThen_def split: prod.splits sum.splits)
  then show "watched s s'"
    using assms by cases (auto simp: watches_def dest: keepsD intro: watchedI watched_after)
qed

lemma bound_loop_tame: "bound_loop env vs s = (r, s') \<Longrightarrow> tame quiet s s'"
proof (induction vs arbitrary: s)
  case (Cons v vs)
  have t: "tame quiet s (called (ABoundTCP v) b s)" for b by (simp add: tame_called)
  show ?case using Cons t tame_trans [OF t] by (auto simp: Let_def split: if_splits)
qed simp

lemma physical_tame: "physical_ok env s = (r, s') \<Longrightarrow> tame quiet s s'"
  by (auto simp: physical_ok_def split: option.splits dest: bound_loop_tame)

lemma watchdog_count_watched: "watchdog_count tunOK physicalOK s = (r, s') \<Longrightarrow> watched s s'"
proof -
  assume w: "watchdog_count tunOK physicalOK s = (r, s')"
  define n where "n = (if physicalOK then es_failures s + 1 else 0)"
  from w consider "s' = s\<lparr>es_failures := 0\<rparr>" | "s' = s\<lparr>es_failures := n\<rparr>"
    | "\<not> es_watchdogStopping s" "s' = s\<lparr>es_failures := 0, es_watchdogStopping := True, es_stops := es_stops s + 1\<rparr>"
    unfolding watchdog_count_def Let_def n_def [symmetric] by (simp split: if_split_asm)
  then show ?thesis by cases (simp_all add: watched_def same_flags_def watch_begins_def grown_same)
qed

lemma watchdog_watched:
  assumes "watchdog_check env settings snap s = (snap', s')"
  shows "watched s s'"
proof (cases "st_Mode settings = ''tun'' \<and> \<not> st_ForceTUNBypass settings \<and> ee_now env (es_calls s) - es_lastCheck s \<ge> 30 * Second")
  case False
  then show ?thesis using assms by (auto simp: watchdog_check_def Let_def intro: watchedI)
next
  case True
  define s0 where "s0 = s\<lparr>es_lastCheck := ee_now env (es_calls s)\<rparr>"
  define down where "down = isl (ee_probe env (es_calls s0))"
  define s1 where "s1 = called AProbe (\<not> down) s0"
  obtain ok s2 where p: "(if down then physical_ok env s1 else (False, s1)) = (ok, s2)" by (cases "if down then physical_ok env s1 else (False, s1)")
  obtain stop s3 where w: "watchdog_count (\<not> down) ok s2 = (stop, s3)" by (cases "watchdog_count (\<not> down) ok s2")
  have "watchdog_check env settings snap s =
      (case if down then physical_ok env s1 else (False, s1) of (ok, s2) \<Rightarrow> case watchdog_count (\<not> down) ok s2 of
         (stop, s3) \<Rightarrow> (if stop then snap\<lparr>en_Phase := ''failed'', en_Reason := WatchdogReason\<rparr> else snap, s3))"
    unfolding watchdog_check_def Let_def if_P [OF True] s1_def down_def s0_def by (rule refl)
  then have "s' = s3" using assms by (simp only: p w prod.case prod.inject)
  moreover have "tame quiet s s0" by (simp add: s0_def tame_def same_flags_def grown_same)
  moreover have "tame quiet s0 s1" by (simp add: s1_def tame_called)
  moreover have "tame quiet s1 s2" using p physical_tame by (auto split: if_splits)
  ultimately show ?thesis using watchdog_count_watched [OF w] by (blast intro: watched_after)
qed

lemma traffic_watches: "watches (snapshot_traffic env settings snap t)"
  unfolding watches_def
proof (intro allI impI)
  fix s s' :: engine_service and r
  obtain snap1 s1 where m: "measure_traffic t snap s = (snap1, s1)" by (cases "measure_traffic t snap s")
  define s2 where "s2 = (if st_BlockedBypass settings then called (AQuarantines (te_Quarantines t)) True s1 else s1)"
  obtain snap2 s3 where w: "watchdog_check env settings snap1 s2 = (snap2, s3)" by (cases "watchdog_check env settings snap1 s2")
  assume "snapshot_traffic env settings snap t s = (r, s')"
  then have "s' = s3" unfolding snapshot_traffic_def m Let_def prod.case s2_def [symmetric] w by simp
  moreover have "tame quiet s s1" using m by (auto simp: measure_traffic_def Let_def tame_def same_flags_def grown_same)
  moreover have "tame quiet s1 s2" by (simp add: s2_def tame_called)
  ultimately show "watched s s'" using watchdog_watched [OF w] by (blast intro: watched_after)
qed

lemma status_watches: "watches (snapshot_status env hello state reason settings)"
proof -
  have q: "keeps quiet (demand (ARequest CTelemetry) (ee_telemetry env) TelemetryFailed)" by (intro keep_rules) simp
  note w = watches_andThen [OF q traffic_watches [of env settings], unfolded watches_def]
  show ?thesis
    unfolding watches_def snapshot_status_def Let_def
    using w by (auto simp: watched_def same_flags_def grown_same split: if_splits)
qed

lemma Snapshot_watched:
  assumes "service_Snapshot env s = (r, s')"
  shows "watched s s'"
proof -
  have q: "keeps quiet (demand (AEnsure False) (\<lambda>calls. ee_ensure env calls False) ConnectFailed)"
      "keeps quiet (demand (ARequest CStatus) (ee_status env) StatusFailed)" by (intro keep_rules; simp)+
  have c: "watches (case p of (x, y) \<Rightarrow> andThen (preferences env) (snapshot_status env hello x y))" for p hello
    by (cases p) (simp add: watches_andThen keep_rules status_watches)
  have "watches (andThen (demand (AEnsure False) (\<lambda>calls. ee_ensure env calls False) ConnectFailed) (\<lambda>hello.
        andThen (demand (ARequest CStatus) (ee_status env) StatusFailed) (\<lambda>(state, reason).
        andThen (preferences env) (snapshot_status env hello state reason))))"
    by (intro watches_andThen q c)
  then show ?thesis
    using assms unfolding watches_def by (auto simp: service_Snapshot_def watchedI split: if_splits)
qed

end
