(* ===== verification/Engine_Reach.thy ===== *)
theory Engine_Reach
  imports Engine_Runs
begin

text \<open>
  The engine service as a transition system: its invariant, and the end of the restarts it makes on its own.
\<close>

section \<open>The invariant\<close>

fun handled :: "handler \<Rightarrow> fallback option" where
  "handled HIdle = None"
| "handled (HStop k) = Some k"
| "handled (HStart k _) = Some k"
| "handled (HEnd k _) = Some k"

fun applied :: "fallback \<Rightarrow> engine_service \<Rightarrow> bool" where
  "applied FallbackDNS s = es_dnsFallback s"
| "applied FallbackWFP s = es_wfpFallback s"

lemma applied_if: "applied k s \<longleftrightarrow> (if k = FallbackDNS then es_dnsFallback s else es_wfpFallback s)"
  by (cases k) simp_all

text \<open>
  Between two steps no transition is shown; the flag of a restart is set exactly while one is handled, and then its fallback is in force; a
  notice is shown only while a fallback is in force; at most one goroutine of the watchdog is stopping the engine, and it is the one the
  flag announces.
\<close>

definition flags_inv :: "engine_service \<Rightarrow> handler \<Rightarrow> bool" where
  "flags_inv s h \<longleftrightarrow> es_transition s = [] \<and> (es_restarting s \<longleftrightarrow> h \<noteq> HIdle) \<and> (\<forall>k. handled h = Some k \<longrightarrow> applied k s)
     \<and> (es_notice s \<noteq> NoReason \<longrightarrow> es_dnsFallback s \<or> es_wfpFallback s)
     \<and> es_stops s = (if es_watchdogStopping s then 1 else 0)"

definition calls_inv :: "engine_service \<Rightarrow> bool" where
  "calls_inv s \<longleftrightarrow> list_all (permitted s \<circ> fst) (es_calls s)"

definition engine_inv :: "engine_service \<times> handler \<Rightarrow> bool" where
  "engine_inv st \<longleftrightarrow> flags_inv (fst st) (snd st) \<and> calls_inv (fst st)"

definition engine_init :: "engine_service \<times> handler \<Rightarrow> bool" where
  "engine_init st \<longleftrightarrow> (\<exists>restored elevated proxySafe detail settings disk.
     st = (newEngineService restored elevated proxySafe detail settings disk, HIdle))"

definition engine_step :: "engine_service \<times> handler \<Rightarrow> engine_env \<times> engine_op \<Rightarrow> engine_service \<times> handler \<Rightarrow> bool" where
  "engine_step st ev st' \<longleftrightarrow> engine_exec ev st = Some st'"

lemma flags_inv_same: "flags_inv s h \<Longrightarrow> same_flags s s' \<Longrightarrow> flags_inv s' h"
  unfolding flags_inv_def same_flags_def by (cases h; simp; metis applied.simps fallback.exhaust)

lemma flags_inv_reset: "flags_inv s h \<Longrightarrow> flags_inv (reset_flags s) h"
  by (auto simp: flags_inv_def reset_flags_def)

lemma permitted_same:
  "same_flags s s' \<Longrightarrow> permitted s' = permitted s"
  by (auto simp: permitted_def same_flags_def fun_eq_iff)

lemma permitted_reset [simp]: "permitted (reset_flags s) = permitted s"
  by (auto simp: permitted_def reset_flags_def fun_eq_iff)

lemma calls_inv_grown: "calls_inv s \<Longrightarrow> grown (permitted s) s s' \<Longrightarrow> permitted s' = permitted s \<Longrightarrow> calls_inv s'"
  by (auto simp: calls_inv_def grown_def)

lemma inv_effect:
  assumes "engine_inv (s, h)" "effect (\<lambda>s. s) s s' \<or> effect reset_flags s s'"
  shows "engine_inv (s', h)"
proof -
  have "flags_inv s' h"
    using assms flags_inv_same flags_inv_reset unfolding engine_inv_def effect_def fst_conv snd_conv by blast
  moreover have "permitted s' = permitted s"
    using assms(2) permitted_same [of s s'] permitted_same [of "reset_flags s" s'] by (auto simp: effect_def)
  ultimately show ?thesis
    using assms calls_inv_grown by (auto simp: engine_inv_def effect_def)
qed

lemma transition_idle: "engine_inv (s, h) \<Longrightarrow> es_transition s = []"
  by (simp add: engine_inv_def flags_inv_def)

lemma inv_Start: "engine_inv (s, h) \<Longrightarrow> service_Start env mode s = (r, s') \<Longrightarrow> engine_inv (s', h)"
  using inv_effect Start_effect transition_idle by blast

lemma inv_Stop: "engine_inv (s, h) \<Longrightarrow> service_Stop env s = (r, s') \<Longrightarrow> engine_inv (s', h)"
  using inv_effect Stop_effect transition_idle by blast

lemma inv_Snapshot:
  assumes "engine_inv (s, h)" "service_Snapshot env s = (r, s')"
  shows "engine_inv (s', h)"
proof -
  have w: "watched s s'" using Snapshot_watched [OF assms(2)] .
  have f: "flags_inv (watch_begins s) h" if "\<not> es_watchdogStopping s"
    using that assms(1) by (simp add: engine_inv_def flags_inv_def watch_begins_def applied_if)
  have p: "permitted (watch_begins s) = permitted s"
    by (auto simp: permitted_def watch_begins_def fun_eq_iff)
  have "flags_inv s' h"
    using w f assms(1) flags_inv_same unfolding watched_def engine_inv_def fst_conv snd_conv by blast
  moreover have "permitted s' = permitted s"
    using w p permitted_same unfolding watched_def by metis
  moreover have "grown (permitted s) s s'"
    using w by (auto simp: watched_def elim: grown_mono)
  ultimately show ?thesis
    using assms(1) calls_inv_grown [of s s'] by (simp add: engine_inv_def)
qed

lemma from_settings_effect: "from_settings env f s = (r, s') \<Longrightarrow> effect (\<lambda>s. s) s s'"
  using keepsD [OF keeps_from_settings] tame_effect by blast

lemma inv_event:
  assumes "engine_inv (s, HIdle)"
  shows "engine_inv (consume_event env ev s)"
proof -
  have d: "engine_inv (snd (dns_restart_begin env s), if fst (dns_restart_begin env s) then HStop FallbackDNS else HIdle)"
    using assms by (auto simp: dns_restart_begin_def engine_inv_def flags_inv_def calls_inv_def permitted_def [abs_def] Let_def)
  have w: "engine_inv (snd (wfp_restart_begin env e s), if fst (wfp_restart_begin env e s) then HStop FallbackWFP else HIdle)" for e
  proof -
    define s1 where "s1 = s\<lparr>es_wfpFallback := True, es_restarting := True, es_notice := NoReason\<rparr>"
    define s2 where "s2 = snd (from_settings env (\<lambda>senv. RememberWFPCompatibilityFailure senv e) s1)"
    have "engine_inv (s1, HStop FallbackWFP)"
      using assms by (auto simp: s1_def engine_inv_def flags_inv_def calls_inv_def permitted_def [abs_def])
    then have "engine_inv (s2, HStop FallbackWFP)"
      using inv_effect from_settings_effect unfolding s2_def by (metis prod.collapse)
    then show ?thesis using assms by (simp add: wfp_restart_begin_def Let_def s1_def [symmetric] s2_def [symmetric])
  qed
  show ?thesis
    using assms d w by (auto simp: consume_event_def Let_def case_prod_beta split: core_notice.splits)
qed

lemma inv_handler:
  "engine_inv (s, h) \<Longrightarrow> handled h' = handled h \<Longrightarrow> engine_inv (s, h')"
  by (cases h; cases h') (auto simp: engine_inv_def flags_inv_def)

lemma inv_restart_end:
  assumes "engine_inv (s, HEnd k failed)"
  shows "engine_inv (restart_end k failed s, HIdle)"
  using assms by (cases k) (auto simp: engine_inv_def flags_inv_def calls_inv_def restart_end_def permitted_def [abs_def])

lemma inv_restart:
  assumes "engine_inv (s, h)" "restart_step env s h = Some st"
  shows "engine_inv st"
proof (cases h)
  case (HStop k)
  obtain r s' where r: "service_Stop env s = (r, s')" by (cases "service_Stop env s")
  have "engine_inv (s', h)" using inv_Stop [OF assms(1) r] .
  with assms(2) show ?thesis by (auto simp: restart_step_def HStop r intro: inv_handler)
next
  case (HStart k failed)
  obtain r s' where r: "service_Start env ''tun'' s = (r, s')" by (cases "service_Start env ''tun'' s")
  have "engine_inv (s', h)" using inv_Start [OF assms(1) r] .
  with assms(2) show ?thesis by (auto simp: restart_step_def HStart r intro: inv_handler)
next
  case (HEnd k failed)
  with assms show ?thesis by (auto simp: restart_step_def intro: inv_restart_end)
qed (use assms in \<open>simp add: restart_step_def\<close>)

lemma effect_stops: "effect (\<lambda>s. s) s s' \<or> effect reset_flags s s' \<Longrightarrow> es_stops s' = es_stops s"
  by (elim disjE) (simp_all add: effect_def same_flags_def reset_flags_def)

lemma inv_watchdog_stop:
  assumes "engine_inv (s, h)" "0 < es_stops s"
  shows "engine_inv (watchdog_stop env s, h)"
proof -
  obtain r s' where r: "service_Stop env s = (r, s')" by (cases "service_Stop env s")
  have i: "engine_inv (s', h)" by (rule inv_Stop [OF assms(1) r])
  have "es_stops s = 1" using assms by (auto simp: engine_inv_def flags_inv_def split: if_splits)
  then have "es_stops s' = 1"
    using effect_stops [OF Stop_effect [OF r transition_idle [OF assms(1)]]] by simp
  then have t: "watchdog_stop env s = s'\<lparr>es_watchdogStopping := False, es_stops := 0\<rparr>" (is "_ = ?t")
    unfolding watchdog_stop_def Let_def r snd_conv by simp
  have "flags_inv s' h" "calls_inv s'" using i by (simp_all add: engine_inv_def)
  then have "flags_inv ?t h" by (simp add: flags_inv_def applied_if)
  moreover have "permitted ?t = permitted s'" by (simp add: permitted_def fun_eq_iff)
  then have "calls_inv ?t" using \<open>calls_inv s'\<close> by (simp add: calls_inv_def)
  ultimately show ?thesis unfolding t by (simp add: engine_inv_def)
qed

lemma inv_Shutdown:
  assumes "engine_inv (s, h)"
  shows "engine_inv (service_Shutdown env s, h)"
proof -
  define s0 where "s0 = s\<lparr>es_closing := True\<rparr>"
  have i0: "engine_inv (s0, h)"
    using assms by (simp add: s0_def engine_inv_def flags_inv_def calls_inv_def permitted_def [abs_def] applied_if)
  obtain r s' where r: "service_Stop env s0 = (r, s')" by (cases "service_Stop env s0")
  have "engine_inv (s', h)" using inv_Stop [OF i0 r] .
  moreover have "effect (\<lambda>s. s) s' (called AShutdown True s')" by (intro tame_effect tame_called) simp
  ultimately show ?thesis using inv_effect by (auto simp: service_Shutdown_def s0_def [symmetric] r)
qed

lemma engine_step_inv:
  assumes "engine_inv st" "engine_step st ev st'"
  shows "engine_inv st'"
proof -
  obtain s h env op where st: "st = (s, h)" "ev = (env, op)" by (cases st, cases ev)
  have e: "engine_exec (env, op) (s, h) = Some st'" using assms(2) by (simp add: engine_step_def st)
  have i: "engine_inv (s, h)" using assms(1) by (simp add: st)
  show ?thesis
  proof (cases op)
    case (OpStart mode)
    then show ?thesis using e i inv_Start by (metis (no_types, lifting) engine_exec_def engine_op.simps option.inject prod.case prod.collapse Let_def)
  next
    case OpStop
    then show ?thesis using e inv_Stop [OF i] by (cases "service_Stop env s") (auto simp: engine_exec_def)
  next
    case OpSnapshot
    then show ?thesis using e inv_Snapshot [OF i] by (cases "service_Snapshot env s") (auto simp: engine_exec_def)
  next
    case OpRepair
    then show ?thesis using e inv_effect [OF i] Repair_effect by (cases "RepairWFP env s") (auto simp: engine_exec_def)
  next
    case OpShutdown
    then show ?thesis using e inv_Shutdown [OF i] by (auto simp: engine_exec_def)
  next
    case (OpEvent x)
    then show ?thesis using e i inv_event by (auto simp: engine_exec_def split: if_splits)
  next
    case OpRestart
    then show ?thesis using e inv_restart [OF i] by (auto simp: engine_exec_def)
  next
    case OpWatchdogStop
    then show ?thesis using e inv_watchdog_stop [OF i] by (auto simp: engine_exec_def split: if_splits)
  next
    case (OpSettings so)
    have "effect (\<lambda>s. s) s (change_settings env so s)"
      unfolding change_settings_def by (metis from_settings_effect prod.collapse)
    then show ?thesis using e inv_effect [OF i] OpSettings by (auto simp: engine_exec_def)
  qed
qed

lemma engine_init_inv: "engine_init st \<Longrightarrow> engine_inv st"
  by (auto simp: engine_init_def newEngineService_def Let_def engine_inv_def flags_inv_def calls_inv_def)

interpretation engine: invariant_system engine_init engine_step engine_inv
  by unfold_locales (fact engine_init_inv, fact engine_step_inv)

text \<open>
  C31. In every interleaving of starts, stops, snapshots, repairs, events, restarts and stops of the watchdog: while a system proxy of an
  earlier run could not be restored, the service asks no engine to start and sets no proxy; for an elevated host that cannot be
  shown to be the desktop user's, it never sets the system proxy at all. Between two steps no transition is shown, the flag of a
  restart is set exactly while one is handled, and at most one goroutine of the watchdog is stopping the engine.
\<close>

theorem unsafe_proxy_never_set:
  assumes "reach engine_init engine_step (s, h)"
  shows "(es_recoveryError s \<noteq> [] \<longrightarrow> list_all (\<lambda>(a, _). \<not> starts a \<and> \<not> sets_proxy a) (es_calls s))
    \<and> (es_hostElevated s \<and> \<not> es_proxySafe s \<longrightarrow> list_all (\<lambda>(a, _). \<not> sets_proxy a) (es_calls s))
    \<and> es_transition s = [] \<and> (es_restarting s \<longleftrightarrow> h \<noteq> HIdle) \<and> es_stops s = (if es_watchdogStopping s then 1 else 0)"
  using engine.reach_inv [OF assms]
  by (auto simp: engine_inv_def flags_inv_def calls_inv_def permitted_def list_all_iff)

section \<open>Restarts end\<close>

text \<open>
  The restarts still to come: three steps for each fallback that is not in force, and the steps of the one that is being handled. Only an
  operation that begins a session of its own raises it again.
\<close>

fun handler_steps :: "handler \<Rightarrow> nat" where
  "handler_steps HIdle = 0"
| "handler_steps (HStop _) = 3"
| "handler_steps (HStart _ _) = 2"
| "handler_steps (HEnd _ _) = 1"

definition restarts_left :: "engine_service \<Rightarrow> nat" where
  "restarts_left s = (if es_dnsFallback s then 0 else 3) + (if es_wfpFallback s then 0 else 3)"

definition restart_measure :: "engine_service \<times> handler \<Rightarrow> nat" where
  "restart_measure st = restarts_left (fst st) + handler_steps (snd st)"

fun begins_session :: "engine_op \<Rightarrow> bool" where
  "begins_session (OpStart _) = True"
| "begins_session OpStop = True"
| "begins_session OpShutdown = True"
| "begins_session OpWatchdogStop = True"
| "begins_session _ = False"

definition is_restart :: "engine_op \<Rightarrow> bool" where "is_restart op \<longleftrightarrow> op = OpRestart"

lemma measure_bound:
  assumes "engine_inv st"
  shows "restart_measure st \<le> 6"
proof -
  obtain s h where st: "st = (s, h)" by (cases st)
  have "handled h = Some k \<Longrightarrow> applied k s" for k using assms by (simp add: st engine_inv_def flags_inv_def)
  then have "handled h \<noteq> None \<Longrightarrow> restarts_left s \<le> 3" by (auto simp: restarts_left_def applied_if split: if_splits)
  moreover have "handler_steps h \<le> (if handled h = None then 0 else 3)" by (cases h) auto
  ultimately show ?thesis by (auto simp: restart_measure_def st restarts_left_def split: if_splits)
qed

lemma same_left: "same_flags s s' \<Longrightarrow> restarts_left s' = restarts_left s"
  by (simp add: same_flags_def restarts_left_def)

lemma restarting_left:
  assumes "effect (\<lambda>s. s) s s' \<or> effect reset_flags s s'" "es_restarting s"
  shows "restarts_left s' = restarts_left s"
  using assms by (auto simp: effect_def reset_flags_def intro: same_left)

lemma watched_left: "watched s s' \<Longrightarrow> restarts_left s' = restarts_left s"
  by (auto simp: watched_def same_flags_def watch_begins_def restarts_left_def)

lemma event_measure: "restart_measure (consume_event env ev s) \<le> restart_measure (s, HIdle)"
proof -
  have f: "restarts_left (snd (from_settings env f s)) = restarts_left s" for f s
    using from_settings_effect [of env f s] by (cases "from_settings env f s") (auto simp: effect_def intro: same_left)
  show ?thesis
    by (cases ev) (auto simp: consume_event_def dns_restart_begin_def wfp_restart_begin_def restart_measure_def Let_def f,
      auto simp: restarts_left_def)
qed

lemma restart_measure_step:
  assumes "engine_inv (s, h)" "restart_step env s h = Some st"
  shows "Suc (restart_measure st) = restart_measure (s, h)"
proof -
  have i: "es_transition s = []" "es_restarting s \<longleftrightarrow> h \<noteq> HIdle" using assms(1) by (simp_all add: engine_inv_def flags_inv_def)
  show ?thesis
  proof (cases h)
    case (HStop k)
    obtain r s' where r: "service_Stop env s = (r, s')" by (cases "service_Stop env s")
    have "restarts_left s' = restarts_left s" using restarting_left [OF Stop_effect [OF r i(1)]] i(2) HStop by simp
    with assms(2) show ?thesis by (auto simp: restart_step_def HStop r restart_measure_def)
  next
    case (HStart k failed)
    obtain r s' where r: "service_Start env ''tun'' s = (r, s')" by (cases "service_Start env ''tun'' s")
    have "restarts_left s' = restarts_left s" using restarting_left [OF Start_effect [OF r i(1)]] i(2) HStart by simp
    with assms(2) show ?thesis by (auto simp: restart_step_def HStart r restart_measure_def)
  next
    case (HEnd k failed)
    with assms(2) show ?thesis by (auto simp: restart_step_def restart_measure_def restart_end_def restarts_left_def)
  qed (use assms in \<open>simp add: restart_step_def\<close>)
qed

lemma step_measure:
  assumes "engine_inv st" "engine_step st (env, op) st'"
  shows "restart_measure st' + (if is_restart op then 1 else 0) \<le> restart_measure st + (if begins_session op then 6 else 0)"
proof (cases "begins_session op")
  case True
  then have "\<not> is_restart op" by (auto simp: is_restart_def)
  then show ?thesis using True measure_bound [OF engine_step_inv [OF assms]] by simp
next
  case False
  obtain s h where st: "st = (s, h)" by (cases st)
  have e: "engine_exec (env, op) (s, h) = Some st'" using assms(2) by (simp add: engine_step_def st)
  show ?thesis
  proof (cases op)
    case OpSnapshot
    obtain r s' where r: "service_Snapshot env s = (r, s')" by (cases "service_Snapshot env s")
    show ?thesis using e OpSnapshot watched_left [OF Snapshot_watched [OF r]]
      by (auto simp: engine_exec_def st r restart_measure_def is_restart_def)
  next
    case OpRepair
    obtain r s' where r: "RepairWFP env s = (r, s')" by (cases "RepairWFP env s")
    have "same_flags s s'" using Repair_effect [OF r] by (simp add: effect_def)
    then show ?thesis using e OpRepair same_left by (auto simp: engine_exec_def st r restart_measure_def is_restart_def)
  next
    case (OpEvent x)
    then show ?thesis using e event_measure [of env x s] by (auto simp: engine_exec_def st is_restart_def split: if_splits)
  next
    case OpRestart
    then show ?thesis using e restart_measure_step [OF assms(1) [unfolded st]] by (auto simp: engine_exec_def st is_restart_def)
  next
    case (OpSettings so)
    have "effect (\<lambda>s. s) s (change_settings env so s)"
      unfolding change_settings_def by (metis from_settings_effect prod.collapse)
    then show ?thesis using e OpSettings same_left by (auto simp: engine_exec_def st restart_measure_def is_restart_def effect_def)
  qed (use False in simp_all)
qed

fun engine_run :: "(engine_env \<times> engine_op) list \<Rightarrow> engine_service \<times> handler \<Rightarrow> (engine_service \<times> handler) option" where
  "engine_run [] st = Some st"
| "engine_run (ev # evs) st = (case engine_exec ev st of None \<Rightarrow> None | Some st' \<Rightarrow> engine_run evs st')"

definition count_ops :: "(engine_op \<Rightarrow> bool) \<Rightarrow> (engine_env \<times> engine_op) list \<Rightarrow> nat" where
  "count_ops P evs = length (filter (P \<circ> snd) evs)"

lemma run_measure:
  assumes "engine_inv st" "engine_run evs st = Some st'"
  shows "restart_measure st' + count_ops is_restart evs \<le> restart_measure st + 6 * count_ops begins_session evs"
  using assms
proof (induction evs arbitrary: st)
  case (Cons ev evs)
  obtain env op where ev: "ev = (env, op)" by (cases ev)
  from Cons.prems(2) obtain st1 where s: "engine_step st (env, op) st1" "engine_run evs st1 = Some st'"
    by (auto simp: engine_step_def ev split: option.splits)
  have "restart_measure st' + count_ops is_restart evs \<le> restart_measure st1 + 6 * count_ops begins_session evs"
    using Cons.IH [OF engine_step_inv [OF Cons.prems(1) s(1)] s(2)] .
  with step_measure [OF Cons.prems(1) s(1)] show ?case by (simp add: count_ops_def ev split: if_splits)
qed (simp add: count_ops_def)

lemma restart_completes:
  "\<exists>s'. engine_run [(e1, OpRestart), (e2, OpRestart), (e3, OpRestart)] (s, HStop k) = Some (s', HIdle) \<and> \<not> es_restarting s'
     \<and> es_notice s' \<noteq> NoReason"
  by (cases k; cases "service_Stop e1 s"; cases "service_Start e2 ''tun'' (snd (service_Stop e1 s))")
     (auto simp: engine_exec_def restart_step_def restart_end_def Let_def)

text \<open>
  C32. The service cannot restart itself for ever. Between two operations that begin a session of their own (a start, a stop, a stop of the
  watchdog, the shutdown) it makes at most two restarts, one for each fallback, each of three steps, whatever
  events the engine sends and whatever fails; and a restart that has begun ends after three steps of its own, with the flag cleared and a notice
  for the user, also when its stop or its start failed.
\<close>

theorem restarts_end:
  assumes "reach engine_init engine_step st" "engine_run evs st = Some st'"
  shows "count_ops is_restart evs \<le> 6 * (1 + count_ops begins_session evs)
    \<and> (\<forall>k e1 e2 e3. snd st' = HStop k \<longrightarrow> (\<exists>s'. engine_run [(e1, OpRestart), (e2, OpRestart), (e3, OpRestart)] st' = Some (s', HIdle)
         \<and> \<not> es_restarting s' \<and> es_notice s' \<noteq> NoReason))"
proof -
  have i: "engine_inv st" by (rule engine.reach_inv [OF assms(1)])
  have "count_ops is_restart evs \<le> 6 * (1 + count_ops begins_session evs)"
    using run_measure [OF i assms(2)] measure_bound [OF i] by simp
  then show ?thesis using restart_completes by (metis prod.collapse)
qed

section \<open>Examples\<close>

text \<open>The events that restart the service do not look at whether the engine is running: one that is taken after a stop starts the tunnel again.\<close>

lemma late_fallback_restarts:
  assumes "service_Stop env s = (Inr r, s')" "\<not> es_restarting s" "\<not> es_closing s"
    and "st_Mode (settings_Get (ee_settings env' (es_calls s')) (es_settings s')) = ''tun''"
  shows "snd (consume_event env' EvDNSFallback s') = HStop FallbackDNS"
proof -
  obtain snap err connected a b c where "stop_body env s = ((snap, err), reset_flags (s\<lparr>es_transition := ''stopping'',
       es_calls := es_calls s @ stop_calls connected a b c, es_sample := no_sample, es_clash := no_clash\<rparr>))"
    using stop_body_result [of env s] by blast
  then have "\<not> es_restarting s'" "\<not> es_closing s'" "\<not> es_dnsFallback s'"
    using assms(1-3) by (auto simp: service_Stop_def clearTransition_def reset_flags_def split: if_splits)
  with assms(4) show ?thesis by (simp add: consume_event_def dns_restart_begin_def)
qed

definition example_events :: "(engine_env \<times> engine_op) list" where
  "example_events = [(example_env, OpEvent EvDNSFallback), (example_env, OpRestart), (example_env, OpRestart), (example_env, OpRestart)]"

theorem restarts_end_witness:
  "\<exists>st'. engine_run example_events (example_engine example_selection, HIdle) = Some st' \<and> count_ops is_restart example_events = 3
     \<and> count_ops is_restart example_events \<le> 6 * (1 + count_ops begins_session example_events) \<and> snd st' = HIdle"
proof -
  have r: "reach engine_init engine_step (example_engine example_selection, HIdle)"
    unfolding example_engine_def by (rule reach_init, unfold engine_init_def) blast
  have "\<exists>s1. consume_event example_env EvDNSFallback (example_engine example_selection) = (s1, HStop FallbackDNS)"
    by (simp add: consume_event_def dns_restart_begin_def Let_def example_env_def settings_Get_def example_settings_env_def example_selection_def
        DefaultSettings_def)
  then obtain s1 where s1: "consume_event example_env EvDNSFallback (example_engine example_selection) = (s1, HStop FallbackDNS)" ..
  obtain s2 where "engine_run [(example_env, OpRestart), (example_env, OpRestart), (example_env, OpRestart)] (s1, HStop FallbackDNS) = Some (s2, HIdle)"
    using restart_completes by blast
  then have e: "engine_run example_events (example_engine example_selection, HIdle) = Some (s2, HIdle)"
    by (simp add: example_events_def engine_exec_def s1)
  have "count_ops is_restart example_events = 3" by (simp add: count_ops_def example_events_def is_restart_def)
  with restarts_end [OF r e] e show ?thesis by auto
qed

theorem unsafe_proxy_never_set_witness:
  "\<exists>s h. reach engine_init engine_step (s, h) \<and> es_recoveryError s = ''denied'' \<and> es_calls s \<noteq> []
     \<and> list_all (\<lambda>(a, _). \<not> starts a \<and> \<not> sets_proxy a) (es_calls s)"
proof -
  define s0 where "s0 = newEngineService (Inl ''denied'') False True [] example_service example_disk"
  define s1 where "s1 = snd (service_Stop example_env s0)"
  have "engine_init (s0, HIdle)" unfolding engine_init_def s0_def by blast
  then have r0: "reach engine_init engine_step (s0, HIdle)" by (rule reach_init)
  have "engine_step (s0, HIdle) (example_env, OpStop) (s1, HIdle)" by (simp add: engine_step_def engine_exec_def s1_def)
  from reach_step [OF r0 this] have r1: "reach engine_init engine_step (s1, HIdle)" .
  have s1: "es_recoveryError s1 = ''denied''" "es_calls s1 \<noteq> []"
    by (simp_all add: s1_def s0_def newEngineService_def service_Stop_def stop_body_def stop_outside_def stop_requests_def stop_request_def
        first_of_def example_env_def Let_def clearTransition_def called_def reset_flags_def)
  with unsafe_proxy_never_set [OF r1] r1 show ?thesis by auto
qed

end
