(* ===== verification/Engine_Tunnel.thy ===== *)
theory Engine_Tunnel
  imports Engine_Inv
begin

text \<open>
  What the service and the engine agree on: the configuration of the tunnel fits the endpoints the engine returned, and the engine accepts
  the request the service sends.
\<close>

section \<open>The tunnel of a successful start\<close>

text \<open>The engine answers an endpoint for every channel it was asked for.\<close>

definition answers_channels :: "engine_env \<Rightarrow> bool" where
  "answers_channels env \<longleftrightarrow>
     (\<forall>calls p endpoints. ee_start env calls p = Inr endpoints \<longrightarrow> chn_Name ` set (ep_Channels p) \<subseteq> fst ` set endpoints)"

definition config_closed :: "json \<Rightarrow> bool" where
  "config_closed config \<longleftrightarrow> set (config_refs config) \<subseteq> set (config_tags config) \<and> list_all safe_outbound (config_outbounds config)"

text \<open>The configurations written by these calls.\<close>

definition written_configs :: "calls \<Rightarrow> json list" where
  "written_configs calls = List.map_filter (\<lambda>c. case c of (AWriteConfig config, True) \<Rightarrow> Some config | _ \<Rightarrow> None) calls"

lemma written_configs_simps [simp]:
  "written_configs [] = []" "written_configs ((AWriteConfig config, True) # cs) = config # written_configs cs"
  "written_configs ((ARequest c, b) # cs) = written_configs cs" "written_configs ((AEnsure e, b) # cs) = written_configs cs"
  "written_configs ((AProbe, b) # cs) = written_configs cs" "written_configs (cs @ ds) = written_configs cs @ written_configs ds"
  by (simp_all add: written_configs_def List.map_filter_def)

lemma adapters_named:
  assumes "adapter_List settings metadata (interfaces :: net_interface list option) = Some available" "a \<in> set available"
  shows "av_ID a = av_Name a"
proof -
  from assms have "\<exists>item :: net_interface. view_of settings metadata item = Some a"
    by (auto simp: adapter_List_def List.map_filter_def) blast
  then show ?thesis using view_of_Some by metis
qed

text \<open>The engine keeps this contract: the proxy it starts has an endpoint for every channel of its configuration.\<close>

lemma listen_channels_names:
  "listen_channels env host chs ls eps w = (Inr eps', ls', w') \<Longrightarrow> fst ` set eps' = fst ` set eps \<union> chn_Name ` set chs"
proof (induction env host chs ls eps w rule: listen_channels.induct)
  case (2 env host ch chs ls eps w)
  have k: "fst ` set (AList.update a b eps) = insert a (fst ` set eps)" for a and b :: string
    by (simp add: dom_map_of_conv_image_fst [symmetric] update_conv')
  from 2 show ?case by (auto simp: k split: prod.splits option.splits)
qed simp

lemma engine_listens_on_every_channel:
  assumes "Start env s w = (Inr e, s', w')" "\<not> sv_running s" "cf_Channels (sv_config s) \<noteq> []"
  shows "fst ` set (en_Channels e) = chn_Name ` set (cf_Channels (sv_config s))"
  using assms by (auto simp: Start_def startChannelListeners_def Let_def dest!: listen_channels_names split: prod.splits sum.splits) (metis fst_conv image_eqI)+


section \<open>The engine accepts the request\<close>

text \<open>A text that parses as an address has no space around it.\<close>

lemma digit_graphic: "is_digit c \<Longrightarrow> graphic c"
  by (auto simp: is_digit_def graphic_def)

lemma hex_graphic: "is_hex c \<Longrightarrow> graphic c"
  by (auto simp: is_hex_def hex_val_def graphic_def Let_def split: if_splits)

lemma ipv4_fields_digit:
  assumes "ipv4_fields val digLen acc (c # cs) = Some f" "is_digit c"
  shows "\<exists>v. ipv4_fields v (Suc digLen) acc cs = Some f"
  using assms(1) unfolding ipv4_fields.simps(2) if_P [OF assms(2)] Let_def
  by (simp split: if_split_asm) blast

lemma ipv4_fields_dot:
  assumes "ipv4_fields val digLen acc (c # cs) = Some f" "\<not> is_digit c"
  shows "c = CHR ''.'' \<and> (\<exists>a. ipv4_fields 0 0 a cs = Some f)"
proof (rule ccontr)
  assume n: "\<not> ?thesis"
  show False
    using assms(1) n unfolding ipv4_fields.simps(2) if_not_P [OF assms(2)] by (simp split: if_split_asm)
qed

lemma separators_graphic: "graphic CHR ''.''" "graphic CHR '':''"
  by (simp_all add: graphic_def)

lemma ipv4_fields_graphic: "ipv4_fields val digLen acc s = Some f \<Longrightarrow> list_all graphic s"
proof (induction s arbitrary: val digLen acc)
  case (Cons c cs)
  show ?case
  proof (cases "is_digit c")
    case True
    from ipv4_fields_digit [OF Cons.prems True] Cons.IH digit_graphic [OF True] show ?thesis by auto
  next
    case False
    note d = ipv4_fields_dot [OF Cons.prems False]
    have "graphic c" unfolding conjunct1 [OF d] by (rule separators_graphic)
    moreover have "list_all graphic cs" using conjunct2 [OF d] Cons.IH by blast
    ultimately show ?thesis by simp
  qed
qed simp

lemma ipv6_loop_graphic: "ipv6_loop acc ell s = Some (a, e, []) \<Longrightarrow> list_all graphic s"
proof (induction s arbitrary: acc ell a e rule: length_induct)
  case (1 s)
  define ds where "ds = takeWhile is_hex s"
  define rest where "rest = drop (length ds) s"
  have s: "s = ds @ rest" by (simp add: ds_def rest_def dropWhile_eq_drop [symmetric])
  have ds: "list_all graphic ds" using set_takeWhileD hex_graphic unfolding ds_def list_all_iff by metis
  show ?case
  proof (cases "16 \<le> length acc")
    case True
    then show ?thesis using 1(2) by (simp add: ipv6_loop.simps [of acc])
  next
    case False
    define acc' where "acc' = acc @ [of_nat (hex_number ds div 256), of_nat (hex_number ds mod 256)]"
    note u = 1(2) [unfolded ipv6_loop.simps [of acc] if_not_P [OF False] Let_def, folded ds_def, folded rest_def, folded acc'_def]
    have ok: "\<not> (ds = [] \<or> 4 < length ds)" using u by (rule contrapos_pn) simp
    note u = u [unfolded if_not_P [OF ok]]
    show ?thesis
    proof (cases "case rest of c # _ \<Rightarrow> c = CHR ''.'' | [] \<Rightarrow> False")
      case True
      then show ?thesis using u [unfolded if_P [OF True]] ipv4_fields_graphic by (auto split: if_splits)
    next
      case nodot: False
      note u = u [unfolded if_not_P [OF nodot]]
      consider "rest = []" | c d cs where "rest = c # d # cs" "c = CHR '':''" "d = CHR '':''" "ell = None" "cs = []"
        | c d cs where "rest = c # d # cs" "c = CHR '':''" "d = CHR '':''" "ell = None" "cs \<noteq> []" "ipv6_loop acc' (Some (length acc')) cs = Some (a, e, [])"
        | c d cs where "rest = c # d # cs" "c = CHR '':''" "d \<noteq> CHR '':''" "ipv6_loop acc' ell (d # cs) = Some (a, e, [])"
        using u by (auto split: list.splits if_splits)
      then have "list_all graphic rest"
      proof cases
        case 1 then show ?thesis by simp
      next
        case (2 c d cs) then show ?thesis using separators_graphic by simp
      next
        case (3 c d cs)
        have "length cs < length s" by (simp add: s 3(1))
        then have "list_all graphic cs" using 1(1) 3(6) by blast
        then show ?thesis using 3(1-3) separators_graphic by simp
      next
        case (4 c d cs)
        have "length (d # cs) < length s" using ok by (simp add: s 4(1))
        then have "list_all graphic (d # cs)" using 1(1) 4(4) by blast
        then show ?thesis using 4(1,2) separators_graphic by simp
      qed
      then show ?thesis using s ds by simp
    qed
  qed
qed

lemma parse_ip_trim:
  assumes "parse_ip s = Some ip"
  shows "trim_space s = s"
proof (rule trim_space_graphic)
  from assms obtain c where "find (\<lambda>c. c = CHR ''.'' \<or> c = CHR '':'' \<or> c = CHR ''%'') s = Some c"
    and "(\<exists>f. ipv4_fields 0 0 [] s = Some f) \<or> parse_ipv6 s = Some ip"
    unfolding parse_ip_def by (auto split: option.splits if_splits)
  then show "list_all graphic s"
  proof (elim disjE exE)
    assume p: "parse_ipv6 s = Some ip"
    show ?thesis
    proof (cases "prefix ''::'' s")
      case True
      then obtain u where u: "s = ''::'' @ u" by (auto simp: prefix_def)
      have "u = [] \<or> (\<exists>a e. ipv6_loop [] (Some 0) u = Some (a, e, []))"
        using p True by (auto simp: parse_ipv6_def u ipv6_finish_def split: if_splits Option.bind_splits)
      then show ?thesis using separators_graphic ipv6_loop_graphic u by auto
    next
      case False
      have "\<exists>a e. ipv6_loop [] None s = Some (a, e, [])"
        using p False by (auto simp: parse_ipv6_def ipv6_finish_def split: if_splits Option.bind_splits)
      then show ?thesis using ipv6_loop_graphic by blast
    qed
  qed (rule ipv4_fields_graphic)
qed


lemma policies_normal:
  assumes "policy \<in> set [''auto'', ''off'', ''alidns'', ''dnspod'', ''google'']"
  shows "to_lower (trim_space policy) = policy" "policy \<noteq> []" "policy \<in> {PolicyAuto, PolicyOff, PolicyAliDNS, PolicyDNSPod, PolicyGoogle}"
proof -
  have "list_all (\<lambda>p. to_lower (trim_space p) = p) [''auto'', ''off'', ''alidns'', ''dnspod'', ''google'']" by code_simp
  then show "to_lower (trim_space policy) = policy" using assms by (auto simp: list_all_iff)
  show "policy \<noteq> []" using assms by auto
  show "policy \<in> {PolicyAuto, PolicyOff, PolicyAliDNS, PolicyDNSPod, PolicyGoogle}"
    using assms by (simp add: PolicyAuto_def PolicyOff_def PolicyAliDNS_def PolicyDNSPod_def PolicyGoogle_def disj_commute)
qed

lemma dns_accepted:
  assumes "policy \<in> set [''auto'', ''off'', ''alidns'', ''dnspod'', ''google'']" "Option.bind (parse_ip server) to4 \<noteq> None"
  shows "\<exists>dns. NormalizeConfig (ResolverConfig \<lparr>ds_Policy = policy, ds_LegacyServers = [server], ds_CacheTTLMS = a, ds_QueryTimeoutMS = b\<rparr>) = Inr dns
    \<and> dc_Policy dns = policy"
proof -
  obtain ip v4 where ip: "parse_ip server = Some ip" "to4 ip = Some v4" using assms(2) by (auto split: Option.bind_splits)
  have "\<exists>servers. normalizeIPv4List [server] = Inr servers"
    using parse_ip_trim [OF ip(1)] ip by (simp add: normalizeIPv4List_def Let_def)
  then show ?thesis
    using policies_normal [OF assms(1)] by (auto simp: NormalizeConfig_def ResolverConfig_def Let_def)
qed

text \<open>The local host, where the desktop asks the engine to listen.\<close>

lemma local_host: "listen_host ''127.0.0.1'' = ''127.0.0.1''" "parse_ip ''127.0.0.1'' = Some (v4InV6Prefix @ [127, 0, 0, 1])"
  "ip_is_loopback (v4InV6Prefix @ [127, 0, 0, 1])"
  by code_simp+

lemma normalize_adapter_name: "normalize_adapter raw = Inr a \<Longrightarrow> ad_Name a = trim_space (ad_Name raw)"
  by (auto simp: normalize_adapter_def normalize_ipv6_source_def Let_def split: if_splits option.splits sum.splits)

lemma adapters_loop_names:
  "adapters_loop seen raws = Inr as \<Longrightarrow> ad_Name ` set as = ad_Name ` set seen \<union> (\<lambda>a. trim_space (ad_Name a)) ` set raws"
proof (induction seen raws rule: adapters_loop.induct)
  case (2 seen raw rest)
  then obtain a where a: "normalize_adapter raw = Inr a"
    and fresh: "ad_Name a \<notin> ad_Name ` set seen" "ad_SourceIP a \<notin> ad_SourceIP ` set seen"
      "\<not> (ad_SourceIPv6 a \<noteq> [] \<and> ad_SourceIPv6 a \<in> ad_SourceIPv6 ` set seen)"
    and rest: "adapters_loop (seen @ [a]) rest = Inr as"
    by (auto split: sum.splits if_splits)
  show ?case using "2.IH" [OF a fresh rest] normalize_adapter_name [OF a] by auto
qed simp

lemma normalizeChannels_names: "ad_Name ` set as = ad_Name ` set bs \<Longrightarrow> normalizeChannels as chs = normalizeChannels bs chs"
  by (simp add: normalizeChannels_def)


section \<open>Examples\<close>


text \<open>An engine that answers every channel on the same port of the local host, and the start of a tunnel on it.\<close>

definition tunnel_endpoints :: "channel list \<Rightarrow> endpoints" where
  "tunnel_endpoints channels = map (\<lambda>c. (chn_Name c, ''127.0.0.1:5001'')) channels"

definition tunnel_env :: engine_env where
  "tunnel_env = example_env\<lparr>ee_start := \<lambda>_ p. Inr (tunnel_endpoints (ep_Channels p))\<rparr>"

lemma tunnel_env_simps:
  "ee_acquire tunnel_env = True" "ee_idna tunnel_env = (\<lambda>_. None)" "ee_settings tunnel_env = (\<lambda>_. example_settings_env)"
  "ee_interfaces tunnel_env = (\<lambda>_. Some example_interfaces)" "ee_metadata tunnel_env = (\<lambda>_. None)"
  "ee_preflight tunnel_env = example_preflight_env" "ee_config tunnel_env = example_config_env" "ee_status tunnel_env = (\<lambda>_. Inr (''stopped'', []))"
  "ee_ensure tunnel_env = (\<lambda>_ _. Inr \<lparr>ch_ProtocolVersion = 1, ch_EngineVersion = ''1'', ch_Elevated = True\<rparr>)"
  "ee_start tunnel_env = (\<lambda>_ p. Inr (tunnel_endpoints (ep_Channels p)))" "ee_activate tunnel_env = (\<lambda>_ _. Inr (''running'', []))"
  "ee_dns tunnel_env = (\<lambda>_ _. Inr \<lparr>da_Transport = ''udp'', da_Server = ''8.8.8.8:53''\<rparr>)" "ee_probe tunnel_env = (\<lambda>_. Inr [])"
  by (simp_all add: tunnel_env_def example_env_def)

lemma tunnel_port: "n \<in> chn_Name ` set channels \<Longrightarrow> loopbackPort (tunnel_endpoints channels) n = Inr 5001"
proof -
  assume "n \<in> chn_Name ` set channels"
  then have "endpoint_of (tunnel_endpoints channels) n = ''127.0.0.1:5001''"
    unfolding endpoint_of_def tunnel_endpoints_def by (induction channels) auto
  moreover have "split_host_port ''127.0.0.1:5001'' = Some (''127.0.0.1'', ''5001'')" "atoi ''5001'' = Some 5001" by code_simp+
  ultimately show ?thesis by (simp add: loopbackPort_def)
qed

lemma tunnel_outbounds:
  "fst ` set es \<subseteq> chn_Name ` set channels \<Longrightarrow> \<exists>obs. adapter_outbounds (tunnel_endpoints channels) es = Inr obs"
  by (induction es) (auto simp: tunnel_port)

lemma tunnel_config:
  "\<exists>clash config. writeSingBoxConfig example_config_env (tunnel_endpoints (engineChannels vs)) v \<lparr>da_Transport = ''udp'', da_Server = ''8.8.8.8:53''\<rparr>
     rules plan strict = Inr (''/b/sing-box'', clash, config)"
proof -
  let ?e = "tunnel_endpoints (engineChannels vs)"
  have n: "''nic_ethernet'' \<in> chn_Name ` set (engineChannels vs)" "''nic_wifi'' \<in> chn_Name ` set (engineChannels vs)"
    "''aggregation'' \<in> chn_Name ` set (engineChannels vs)"
  proof -
    obtain all wired wireless where n: "channel_names vs = (all, wired, wireless)" by (metis prod_cases3)
    show "''nic_ethernet'' \<in> chn_Name ` set (engineChannels vs)" "''nic_wifi'' \<in> chn_Name ` set (engineChannels vs)"
      "''aggregation'' \<in> chn_Name ` set (engineChannels vs)"
      by (simp_all add: engineChannels_def n)
  qed
  have "\<not> equal_fold ''udp'' ''doh''" by code_simp
  then have "\<exists>up. buildDNSUpstream v \<lparr>da_Transport = ''udp'', da_Server = ''8.8.8.8:53''\<rparr> = Inr up"
    by (simp add: buildDNSUpstream_def example_ports)
  moreover have "fst ` set ?e \<subseteq> chn_Name ` set (engineChannels vs)" by (auto simp: tunnel_endpoints_def)
  from tunnel_outbounds [OF this] have "\<exists>obs. adapter_outbounds ?e ?e = Inr obs" .
  ultimately show ?thesis using n [THEN tunnel_port]
    by (auto simp: writeSingBoxConfig_def example_config_env_def Let_def)
qed

lemma tunnel_prepare:
  assumes "es_settings s = \<lparr>ss_settings = example_selection, ss_migration = m\<rparr>"
  shows "\<exists>strict. start_prepare tunnel_env ''tun'' w s = (Inr (example_adapters, example_selection, [], strict), s)"
proof -
  have get: "settings_Get example_settings_env \<lparr>ss_settings = example_selection, ss_migration = m\<rparr> = example_selection"
    by (simp add: settings_Get_def example_settings_env_def example_selection_def DefaultSettings_def zero_settings_def)
  have rules: "st_Rules example_selection = []" by (simp add: example_selection_def DefaultSettings_def)
  have "firstTunBlocker (checkSelected example_preflight_env example_selection r example_adapters) = None" for r
    unfolding checkSelected_blocker [symmetric]
    by (simp add: checkSelected_def example_preflight_env_def inspected_platform_def asset_available_def example_selected Let_def list.pred_map comp_def
        list.pred_True)
  note blocker = this
  have sel: "start_selected tunnel_env s = (Inr example_adapters, s)"
    using assms by (simp add: start_selected_def adapters_now_def tunnel_env_simps get example_adapters_eval(1) example_selected)
  have none: "validateRoutingOutbounds [] example_adapters = None" by (simp add: validateRoutingOutbounds_None)
  have rul: "start_rules tunnel_env ''tun'' example_selection example_adapters s = (Inr [], s)"
    by (simp add: start_rules_def tunnel_env_simps rules normalizeRulesStrict_def sortRules_def none)
  have pre: "\<exists>strict. start_preflight tunnel_env ''tun'' example_selection w example_adapters s = (Inr strict, s)"
    using assms by (simp add: start_preflight_def tunnel_env_simps get blocker Let_def)
  then obtain strict where "start_preflight tunnel_env ''tun'' example_selection w example_adapters s = (Inr strict, s)" by blast
  with sel rul have "start_prepare tunnel_env ''tun'' w s = (Inr (example_adapters, example_selection, [], strict), s)"
    using assms by (simp add: start_prepare_def andThen_def preferences_def ok_def tunnel_env_simps get)
  then show ?thesis by blast
qed

lemma tunnel_connect:
  "start_connect tunnel_env ''tun'' example_selection s
    = (Inr \<lparr>ch_ProtocolVersion = 1, ch_EngineVersion = ''1'', ch_Elevated = True\<rparr>, called (ARequest CStatus) True (called (AEnsure True) True s))"
proof -
  have "st_Mode example_selection = ''tun''" by (simp add: example_selection_def DefaultSettings_def)
  then show ?thesis
    by (simp add: start_connect_def andThen_def demand_def start_save_mode_def start_reset_def ok_def tunnel_env_simps)
qed

text \<open>Operations that succeed from every state.\<close>

definition yields :: "'a operation \<Rightarrow> ('a \<Rightarrow> bool) \<Rightarrow> bool" where
  "yields m P \<longleftrightarrow> (\<forall>s. \<exists>x s'. m s = (Inr x, s') \<and> P x)"

lemma yields_andThen: "yields m P \<Longrightarrow> (\<And>x. P x \<Longrightarrow> yields (f x) Q) \<Longrightarrow> yields (andThen m f) Q"
  unfolding yields_def andThen_Inr by meson

lemma yields_ok: "P x \<Longrightarrow> yields (ok x) P"
  by (simp add: yields_def ok_def)

lemma yields_change: "P () \<Longrightarrow> yields (change g) P"
  by (simp add: yields_def change_def)

lemma yields_demand: "(\<And>calls. \<exists>x. answer calls = Inr x \<and> P x) \<Longrightarrow> yields (demand a answer wrap) P"
  unfolding yields_def demand_def Let_def by (metis sum.case(2))

lemma yields_demand_or_rollback: "(\<And>calls. \<exists>x. answer calls = Inr x \<and> P x) \<Longrightarrow> yields (demand_or_rollback env a answer wrap) P"
  unfolding yields_def demand_or_rollback_Inr by metis

lemma yields_from_settings: "(\<And>x. P x) \<Longrightarrow> yields (from_settings env f) P"
  by (auto simp: yields_def from_settings_def split: prod.split)

lemma yields_if: "(b \<Longrightarrow> yields m P) \<Longrightarrow> (\<not> b \<Longrightarrow> yields n P) \<Longrightarrow> yields (if b then m else n) P"
  by simp

definition any :: "'a \<Rightarrow> bool" where "any x \<longleftrightarrow> True"

lemma tunnel_mode:
  "yields (start_tun_mode tunnel_env example_selection hello selected rules strict (tunnel_endpoints (engineChannels selected))) any"
proof -
  let ?ans = "\<lparr>da_Transport = ''udp'', da_Server = ''8.8.8.8:53''\<rparr>"
  have w: "yields (write_config tunnel_env (tunnel_endpoints (engineChannels selected)) selected ?ans rules strict) any"
    unfolding yields_def using tunnel_config [of selected "hd selected" rules "ee_compatibility tunnel_env" strict]
    by (auto simp: write_config_def tunnel_env_simps any_def)
  have dns: "yields (demand_or_rollback tunnel_env a (\<lambda>calls. ee_dns tunnel_env calls q) wrap) (\<lambda>x. x = ?ans)" for a q wrap
    by (intro yields_demand_or_rollback) (simp add: tunnel_env_simps)
  have act: "yields (demand_or_rollback tunnel_env a (\<lambda>calls. ee_activate tunnel_env calls q) wrap) (\<lambda>x. x = (''running'', []))" for a q wrap
    by (intro yields_demand_or_rollback) (simp add: tunnel_env_simps)
  have probe: "yields (demand_or_rollback tunnel_env a (ee_probe tunnel_env) wrap) any" for a wrap
    by (intro yields_demand_or_rollback) (simp add: tunnel_env_simps any_def)
  have any: "any x" for x :: 'b by (simp add: any_def)
  have rest: "yields (andThen (change g) (\<lambda>_. andThen (if strict then andThen (from_settings tunnel_env f) (\<lambda>_. ok ()) else ok ()) (\<lambda>_.
     if b then ok () else andThen (demand_or_rollback tunnel_env AProbe (ee_probe tunnel_env) ConnectivityFailed) (\<lambda>_. ok ())))) any" for g f b
    by (intro yields_andThen [of _ any] yields_change yields_if yields_from_settings yields_ok any probe)
  show ?thesis
    unfolding start_tun_mode_def Let_def
    by (rule yields_andThen [OF dns], simp only:, rule yields_andThen [OF w], simp only: split_beta,
        rule yields_andThen [OF act], simp only: prod.case, simp add: rest)
qed

definition tunnel_engine :: engine_service where
  "tunnel_engine = example_engine example_selection"

lemma tunnel_starts: "\<exists>snap s'. service_Start tunnel_env ''tun'' tunnel_engine = (Inr snap, s')"
proof -
  obtain s0 where g: "start_guard ''tun'' tunnel_engine = (Inr (False, False), s0)"
    and s0: "es_settings s0 = \<lparr>ss_settings = example_selection, ss_migration = no_migration\<rparr>"
    by (simp add: start_guard_def reset_flags_def Let_def tunnel_engine_def)
  obtain strict where pre: "start_prepare tunnel_env ''tun'' False s0 = (Inr (example_adapters, example_selection, [], strict), s0)"
    using tunnel_prepare [OF s0] by blast
  define s1 where "s1 = called (ARequest CStatus) True (called (AEnsure True) True s0)"
  have "yields (start_engine_calls tunnel_env ''tun'' False example_selection example_adapters [] strict hello) any" for hello
  proof -
    have any: "any x" for x :: 'b by (simp add: any_def)
    have fin: "yields (\<lambda>s. (Inr (started_snapshot ''tun'' example_selection hello (ee_now tunnel_env (es_calls s))), s)) any"
      by (simp add: yields_def any_def)
    let ?payload = "\<lambda>now. start_payload ''tun'' example_selection example_adapters
      (if ''tun'' = ''tun'' \<and> False then ''off'' else st_DNSPolicy example_selection) now (ee_blocked tunnel_env)"
    have "yields (andThen (demand (ARequest (CStart (?payload now))) (\<lambda>calls. ee_start tunnel_env calls (?payload now)) StartFailed) (\<lambda>endpoints.
         andThen (if ''tun'' = ''proxy'' then start_proxy_mode tunnel_env example_selection
                  else start_tun_mode tunnel_env example_selection hello example_adapters [] strict endpoints) (\<lambda>_.
         andThen (change (\<lambda>s. s\<lparr>es_sample := no_sample, es_lastCheck := ee_now tunnel_env (es_calls s), es_failures := 0\<rparr>)) (\<lambda>_ s.
           (Inr (started_snapshot ''tun'' example_selection hello (ee_now tunnel_env (es_calls s))), s))))) any" for now
    proof (rule yields_andThen [of _ "\<lambda>e. e = tunnel_endpoints (engineChannels example_adapters)"])
      show "yields (demand (ARequest (CStart (?payload now))) (\<lambda>calls. ee_start tunnel_env calls (?payload now)) StartFailed)
          (\<lambda>e. e = tunnel_endpoints (engineChannels example_adapters))"
        by (intro yields_demand) (simp add: tunnel_env_simps start_payload_def)
      fix endpoints assume e: "endpoints = tunnel_endpoints (engineChannels example_adapters)"
      have m: "yields (if ''tun'' = ''proxy'' then start_proxy_mode tunnel_env example_selection
          else start_tun_mode tunnel_env example_selection hello example_adapters [] strict endpoints) any"
        unfolding e using tunnel_mode by simp
      show "yields (andThen (if ''tun'' = ''proxy'' then start_proxy_mode tunnel_env example_selection
                  else start_tun_mode tunnel_env example_selection hello example_adapters [] strict endpoints) (\<lambda>_.
         andThen (change (\<lambda>s. s\<lparr>es_sample := no_sample, es_lastCheck := ee_now tunnel_env (es_calls s), es_failures := 0\<rparr>)) (\<lambda>_ s.
           (Inr (started_snapshot ''tun'' example_selection hello (ee_now tunnel_env (es_calls s))), s)))) any"
        by (rule yields_andThen [OF m], rule yields_andThen [of _ any], rule yields_change, rule any, rule fin)
    qed
    then show ?thesis unfolding yields_def start_engine_calls_def Let_def by blast
  qed
  then obtain snap s2 where r: "start_engine_calls tunnel_env ''tun'' False example_selection example_adapters [] strict
      \<lparr>ch_ProtocolVersion = 1, ch_EngineVersion = ''1'', ch_Elevated = True\<rparr> s1 = (Inr snap, s2)"
    unfolding yields_def by blast
  have "start_body tunnel_env ''tun'' (False, False) s0 = (Inr snap, s2)"
    using pre r tunnel_connect [of s0] by (simp add: start_body_def andThen_def s1_def)
  then show ?thesis using g by (simp add: service_Start_def tunnel_env_simps)
qed


end
