(* ===== verification/Engine_Client.thy ===== *)
theory Engine_Client
  imports Engine_Service
begin

text \<open>
  \<open>desktop/internal/engineclient/client.go\<close>: the connection of the desktop to the engine. Requests, the readers of the sessions, the
  goroutines that wait for a process, the start of a session and every goroutine that tells the waiting requests that a
  session has ended interleave: each locked section, each send and each receive is a step. A session is a
  number, the texts of the errors are in English. Reading the session and the greeting, and what follows without a lock until the next
  wait, is one step. A session that a launcher returns has a writer. The counter of the requests does not wrap (it would after 2 to the 64).
\<close>

section \<open>State\<close>

definition ProtocolVersion :: int where "ProtocolVersion = 1"
definition event_capacity :: nat where "event_capacity = 64"

definition zero_hello :: client_hello where
  "zero_hello = \<lparr>ch_ProtocolVersion = 0, ch_EngineVersion = [], ch_Elevated = False\<rparr>"

text \<open>An answer of the engine: its result (\<^const>\<open>None\<close> if empty) and its error. What is sent to a request: such an answer, or that the session ended.\<close>

record core_answer =
  ca_Result :: "json option"
  ca_Error :: "(string \<times> string) option"

datatype reply = FromCore nat core_answer | Lost string

text \<open>One line that the engine wrote.\<close>

datatype core_line = LGarbage | LEvent string nat json | LReply string core_answer

text \<open>Who sends a reply: the reader of a session, or one of the goroutines that end a session.\<close>

datatype sender = Reader nat | Failer nat

text \<open>
  Where a request is, with the session it was registered on: before the write gate, writing, ending the session after a write
  that took too long, waiting for the answer, done.
\<close>

type_synonym request_result = "client_error + json option"

datatype request_phase = AtGate nat | Writing nat | Killing nat nat | Awaiting nat | Finished request_result

datatype ensure_error =
    GateTimeout
  | NoExecutable
  | LaunchFailed string
  | AlreadyConnected
  | HandshakeFailed client_error
  | WrongProtocol int
  | CoreNotElevated

text \<open>Where the start of a session is: each phase with whether an elevated engine is required.\<close>

datatype ensure_phase =
    EIdle
  | EStale bool
  | ESwitching bool nat
  | ELaunching bool string
  | EInstalled bool nat
  | EGreeting bool nat string
  | ERejecting bool ensure_error nat

record client =
  cl_session :: "nat option"
  cl_path :: string
  cl_hello :: client_hello
  cl_pending :: "string list"
  cl_sequence :: nat
  cl_requests :: "(string \<times> request_phase) list"
  cl_replies :: "(string \<times> reply) list"
  cl_sends :: "(string \<times> reply \<times> sender) list"
  cl_writeGate :: "string option"
  cl_events :: "(string \<times> nat \<times> json) list"
  cl_readers :: "nat list"
  cl_waiters :: "nat list"
  cl_nextSession :: nat
  cl_nextFailer :: nat
  cl_ensure :: ensure_phase
  cl_ensured :: "(bool \<times> (ensure_error + client_hello)) list"
  cl_killed :: "nat list"
  cl_closed :: "nat list"

definition newClient :: client where
  "newClient = \<lparr>cl_session = None, cl_path = [], cl_hello = zero_hello, cl_pending = [], cl_sequence = 0, cl_requests = [], cl_replies = [],
     cl_sends = [], cl_writeGate = None, cl_events = [], cl_readers = [], cl_waiters = [], cl_nextSession = 0, cl_nextFailer = 0,
     cl_ensure = EIdle, cl_ensured = [], cl_killed = [], cl_closed = []\<rparr>"

definition phase_of :: "client \<Rightarrow> string \<Rightarrow> request_phase option" where
  "phase_of c i = map_of (cl_requests c) i"

definition set_phase :: "string \<Rightarrow> request_phase \<Rightarrow> client \<Rightarrow> client" where
  "set_phase i p c = c\<lparr>cl_requests := AList.update i p (cl_requests c)\<rparr>"

definition request_id :: "nat \<Rightarrow> string" where
  "request_id n = ''wails-'' @ nat_str n"

section \<open>Ending a session\<close>

text \<open>
  The locked section of \<open>killCurrent\<close> and \<open>failSession\<close> with the sends that follow it, in the order the scheduler chooses. The result names the
  goroutine, whose code goes on when it has sent them all.
\<close>

definition detach :: "string \<Rightarrow> client \<Rightarrow> client" where
  "detach reason c =
     c\<lparr>cl_session := None, cl_path := [], cl_hello := zero_hello, cl_pending := [],
       cl_sends := cl_sends c @ map (\<lambda>i. (i, Lost reason, Failer (cl_nextFailer c))) (cl_pending c),
       cl_nextFailer := cl_nextFailer c + 1\<rparr>"

definition close_transport :: "nat \<Rightarrow> client \<Rightarrow> client" where
  "close_transport n c = (if n \<in> set (cl_closed c) then c else c\<lparr>cl_closed := cl_closed c @ [n]\<rparr>)"

definition killCurrent :: "string \<Rightarrow> client \<Rightarrow> client" where
  "killCurrent reason c =
     (let c' = detach reason c
      in case cl_session c of
           None \<Rightarrow> c'
         | Some n \<Rightarrow> close_transport n (c'\<lparr>cl_killed := cl_killed c' @ [n]\<rparr>))"

definition client_Kill :: "client \<Rightarrow> client" where
  "client_Kill c = killCurrent ''connection closed'' c"

definition failSession :: "nat \<Rightarrow> string \<Rightarrow> client \<Rightarrow> client" where
  "failSession n reason c = (if cl_session c \<noteq> Some n then c else close_transport n (detach reason c))"

definition finished_failing :: "nat \<Rightarrow> client \<Rightarrow> bool" where
  "finished_failing k c \<longleftrightarrow> list_all (\<lambda>(i, r, owner). owner \<noteq> Failer k) (cl_sends c)"

definition removePending :: "string \<Rightarrow> client \<Rightarrow> client" where
  "removePending i c = c\<lparr>cl_pending := removeAll i (cl_pending c)\<rparr>"

section \<open>Requests\<close>

text \<open>What becomes of the text of a request.\<close>

datatype request_text = BlankMethod | NotMarshalled | TooLong | Sendable

definition plain_error :: "string \<Rightarrow> request_phase" where
  "plain_error text = Finished (Inl (Disconnected text))"

text \<open>\<open>Request\<close> until it stands before the write gate; the result is the id, if one was drawn.\<close>

definition request_begin :: "request_text \<Rightarrow> client \<Rightarrow> string option \<times> client" where
  "request_begin text c =
     (if text = BlankMethod then (None, c)
      else
        let c = c\<lparr>cl_sequence := cl_sequence c + 1\<rparr>; i = request_id (cl_sequence c)
        in (Some i,
            if text = NotMarshalled then set_phase i (plain_error ''not serialised'') c
            else if text = TooLong then set_phase i (plain_error ''longer than 1 MiB'') c
            else case cl_session c of
                   None \<Rightarrow> set_phase i (plain_error ''not connected'') c
                 | Some n \<Rightarrow> set_phase i (AtGate n) (c\<lparr>cl_pending := cl_pending c @ [i]\<rparr>)))"

text \<open>What a request returns for the reply it received; \<open>fits\<close> says whether the result fits the target.\<close>

definition reply_result :: "(json \<Rightarrow> bool) \<Rightarrow> reply \<Rightarrow> request_result" where
  "reply_result fits r =
     (case r of
        Lost reason \<Rightarrow> Inl (Remote ''disconnected'' reason)
      | FromCore n a \<Rightarrow>
          (case ca_Error a of
             Some (code, message) \<Rightarrow> Inl (Remote code message)
           | None \<Rightarrow>
               (case ca_Result a of
                  None \<Rightarrow> Inr None
                | Some v \<Rightarrow> if fits v then Inr (Some v) else Inl (Disconnected ''response not understood''))))"

definition enter_gate :: "string \<Rightarrow> client \<Rightarrow> client option" where
  "enter_gate i c =
     (case phase_of c i of
        Some (AtGate n) \<Rightarrow> if cl_writeGate c = None then Some (set_phase i (Writing n) (c\<lparr>cl_writeGate := Some i\<rparr>)) else None
      | _ \<Rightarrow> None)"

definition gate_timeout :: "string \<Rightarrow> client \<Rightarrow> client option" where
  "gate_timeout i c =
     (case phase_of c i of
        Some (AtGate n) \<Rightarrow> Some (set_phase i (plain_error ''timeout before sending'') (removePending i c))
      | _ \<Rightarrow> None)"

text \<open>The write has returned, with an error or not.\<close>

definition written :: "string \<Rightarrow> string option \<Rightarrow> client \<Rightarrow> client option" where
  "written i failed c =
     (case phase_of c i of
        Some (Writing n) \<Rightarrow>
          let c = c\<lparr>cl_writeGate := None\<rparr>
          in Some (case failed of
                     None \<Rightarrow> set_phase i (Awaiting n) c
                   | Some e \<Rightarrow> set_phase i (plain_error e) (removePending i c))
      | _ \<Rightarrow> None)"

text \<open>The write takes too long: the session is ended, the gate is released when everyone has been told.\<close>

definition write_timeout :: "string \<Rightarrow> client \<Rightarrow> client option" where
  "write_timeout i c =
     (case phase_of c i of
        Some (Writing n) \<Rightarrow> Some (set_phase i (Killing n (cl_nextFailer c)) (killCurrent ''timeout while sending'' c))
      | _ \<Rightarrow> None)"

definition write_abandoned :: "string \<Rightarrow> client \<Rightarrow> client option" where
  "write_abandoned i c =
     (case phase_of c i of
        Some (Killing n k) \<Rightarrow>
          if finished_failing k c then Some (set_phase i (plain_error ''timeout while sending'') (c\<lparr>cl_writeGate := None\<rparr>)) else None
      | _ \<Rightarrow> None)"

definition receive_reply :: "string \<Rightarrow> (json \<Rightarrow> bool) \<Rightarrow> client \<Rightarrow> client option" where
  "receive_reply i fits c =
     (case (phase_of c i, map_of (cl_replies c) i) of
        (Some (Awaiting n), Some r) \<Rightarrow> Some (set_phase i (Finished (reply_result fits r)) (c\<lparr>cl_replies := AList.delete i (cl_replies c)\<rparr>))
      | _ \<Rightarrow> None)"

definition reply_timeout :: "string \<Rightarrow> client \<Rightarrow> client option" where
  "reply_timeout i c =
     (case phase_of c i of
        Some (Awaiting n) \<Rightarrow> Some (set_phase i (plain_error ''timeout waiting for the answer'') (removePending i c))
      | _ \<Rightarrow> None)"

section \<open>Reading\<close>

text \<open>The reader of a session is free when it is not sending.\<close>

definition reader_free :: "nat \<Rightarrow> client \<Rightarrow> bool" where
  "reader_free n c \<longleftrightarrow> n \<in> set (cl_readers c) \<and> list_all (\<lambda>(i, r, owner). owner \<noteq> Reader n) (cl_sends c)"

definition read_line :: "nat \<Rightarrow> core_line \<Rightarrow> client \<Rightarrow> client option" where
  "read_line n line c =
     (if \<not> reader_free n c then None
      else Some (case line of
          LGarbage \<Rightarrow> c
        | LEvent name number data \<Rightarrow>
            if length (cl_events c) < event_capacity then c\<lparr>cl_events := cl_events c @ [(name, number, data)]\<rparr> else c
        | LReply i answer \<Rightarrow>
            if i = [] then c
            else if cl_session c \<noteq> Some n then c\<lparr>cl_readers := removeAll n (cl_readers c)\<rparr>
            else if i \<in> set (cl_pending c)
              then (removePending i c)\<lparr>cl_sends := cl_sends c @ [(i, FromCore n answer, Reader n)]\<rparr>
            else c))"

text \<open>The end of the output, and the end of the process.\<close>

definition read_end :: "nat \<Rightarrow> client \<Rightarrow> client option" where
  "read_end n c =
     (if reader_free n c then Some (failSession n ''output closed'' (c\<lparr>cl_readers := removeAll n (cl_readers c)\<rparr>)) else None)"

definition process_exit :: "nat \<Rightarrow> client \<Rightarrow> client option" where
  "process_exit n c =
     (if n \<in> set (cl_waiters c) then Some (failSession n ''process exited'' (c\<lparr>cl_waiters := removeAll n (cl_waiters c)\<rparr>)) else None)"

text \<open>A send on the channel of a request, which holds one reply: with a reply in it the sender is blocked.\<close>

definition send_reply :: "nat \<Rightarrow> client \<Rightarrow> client option" where
  "send_reply j c =
     (if j < length (cl_sends c) then
        (case cl_sends c ! j of (i, r, owner) \<Rightarrow>
           if map_of (cl_replies c) i = None
           then Some (c\<lparr>cl_replies := (i, r) # cl_replies c, cl_sends := take j (cl_sends c) @ drop (Suc j) (cl_sends c)\<rparr>)
           else None)
      else None)"

definition take_event :: "client \<Rightarrow> client option" where
  "take_event c = (case cl_events c of [] \<Rightarrow> None | e # es \<Rightarrow> Some (c\<lparr>cl_events := es\<rparr>))"

section \<open>Starting a session\<close>

definition ensure_result :: "bool \<Rightarrow> ensure_error + client_hello \<Rightarrow> client \<Rightarrow> client" where
  "ensure_result elevated r c = c\<lparr>cl_ensure := EIdle, cl_ensured := cl_ensured c @ [(elevated, r)]\<rparr>"

text \<open>\<open>ResolveExecutable\<close> has found a path or not.\<close>

definition ensure_resolved :: "bool \<Rightarrow> string option \<Rightarrow> client \<Rightarrow> client" where
  "ensure_resolved elevated executable c =
     (case executable of None \<Rightarrow> ensure_result elevated (Inl NoExecutable) c | Some exe \<Rightarrow> c\<lparr>cl_ensure := ELaunching elevated exe\<rparr>)"

definition ensure_begin :: "bool \<Rightarrow> string option \<Rightarrow> client \<Rightarrow> client option" where
  "ensure_begin elevated executable c =
     (if cl_ensure c \<noteq> EIdle then None
      else if cl_session c \<noteq> None \<and> ch_ProtocolVersion (cl_hello c) = ProtocolVersion \<and> (\<not> elevated \<or> ch_Elevated (cl_hello c))
        then Some (ensure_result elevated (Inr (cl_hello c)) c)
      else if cl_session c \<noteq> None then Some (c\<lparr>cl_ensure := EStale elevated\<rparr>)
      else Some (ensure_resolved elevated executable c))"

text \<open>Another start holds the gate for too long.\<close>

definition ensure_timeout :: "bool \<Rightarrow> client \<Rightarrow> client option" where
  "ensure_timeout elevated c =
     (if cl_ensure c = EIdle then None else Some (c\<lparr>cl_ensured := cl_ensured c @ [(elevated, Inl GateTimeout)]\<rparr>))"

definition ensure_switch :: "client \<Rightarrow> client option" where
  "ensure_switch c =
     (case cl_ensure c of
        EStale elevated \<Rightarrow>
          Some ((killCurrent ''switching the privilege of the engine'' c)\<lparr>cl_ensure := ESwitching elevated (cl_nextFailer c)\<rparr>)
      | _ \<Rightarrow> None)"

definition ensure_switched :: "string option \<Rightarrow> client \<Rightarrow> client option" where
  "ensure_switched executable c =
     (case cl_ensure c of
        ESwitching elevated k \<Rightarrow> if finished_failing k c then Some (ensure_resolved elevated executable c) else None
      | _ \<Rightarrow> None)"

text \<open>The launcher answers an error or a new session, which is installed unless another one is there.\<close>

definition ensure_launched :: "string option \<Rightarrow> client \<Rightarrow> client option" where
  "ensure_launched failed c =
     (case cl_ensure c of
        ELaunching elevated exe \<Rightarrow>
          Some (case failed of
              Some e \<Rightarrow> ensure_result elevated (Inl (LaunchFailed e)) c
            | None \<Rightarrow>
                let n = cl_nextSession c; c = c\<lparr>cl_nextSession := n + 1\<rparr>
                in if cl_session c \<noteq> None
                   then ensure_result elevated (Inl AlreadyConnected) (close_transport n (c\<lparr>cl_killed := cl_killed c @ [n]\<rparr>))
                   else c\<lparr>cl_session := Some n, cl_path := exe, cl_pending := [], cl_hello := zero_hello, cl_readers := cl_readers c @ [n],
                          cl_waiters := cl_waiters c @ [n], cl_ensure := EInstalled elevated n\<rparr>)
      | _ \<Rightarrow> None)"

definition ensure_greet :: "client \<Rightarrow> client option" where
  "ensure_greet c =
     (case cl_ensure c of
        EInstalled elevated n \<Rightarrow>
          (case request_begin Sendable c of
             (Some i, c) \<Rightarrow> Some (c\<lparr>cl_ensure := EGreeting elevated n i\<rparr>)
           | (None, c) \<Rightarrow> None)
      | _ \<Rightarrow> None)"

definition ensure_reject :: "bool \<Rightarrow> ensure_error \<Rightarrow> client \<Rightarrow> client" where
  "ensure_reject elevated e c = (killCurrent ''negotiation failed'' c)\<lparr>cl_ensure := ERejecting elevated e (cl_nextFailer c)\<rparr>"

text \<open>The answer to the greeting; \<open>decode\<close> reads it, an empty answer leaves the zero value.\<close>

definition ensure_negotiated :: "(json \<Rightarrow> client_hello) \<Rightarrow> client \<Rightarrow> client option" where
  "ensure_negotiated decode c =
     (case cl_ensure c of
        EGreeting elevated n i \<Rightarrow>
          (case phase_of c i of
             Some (Finished (Inl e)) \<Rightarrow> Some (ensure_reject elevated (HandshakeFailed e) c)
           | Some (Finished (Inr answer)) \<Rightarrow>
               let hello = (case answer of None \<Rightarrow> zero_hello | Some v \<Rightarrow> decode v)
               in Some (if ch_ProtocolVersion hello \<noteq> ProtocolVersion
                          then ensure_reject elevated (WrongProtocol (ch_ProtocolVersion hello)) c
                        else if elevated \<and> \<not> ch_Elevated hello then ensure_reject elevated CoreNotElevated c
                        else ensure_result elevated (Inr hello) (if cl_session c = Some n then c\<lparr>cl_hello := hello\<rparr> else c))
           | _ \<Rightarrow> None)
      | _ \<Rightarrow> None)"

definition ensure_rejected :: "client \<Rightarrow> client option" where
  "ensure_rejected c =
     (case cl_ensure c of
        ERejecting elevated e k \<Rightarrow> if finished_failing k c then Some (ensure_result elevated (Inl e) c) else None
      | _ \<Rightarrow> None)"

section \<open>The client as a transition system\<close>

datatype client_op =
    CRequest request_text
  | CEnterGate string
  | CGateTimeout string
  | CWritten string "string option"
  | CWriteTimeout string
  | CWriteAbandoned string
  | CReceive string "json \<Rightarrow> bool"
  | CReplyTimeout string
  | CLine nat core_line
  | CReadEnd nat
  | CProcessExit nat
  | CSend nat
  | CTakeEvent
  | CKill
  | CEnsure bool "string option"
  | CEnsureTimeout bool
  | CSwitch
  | CSwitched "string option"
  | CLaunched "string option"
  | CGreet
  | CNegotiated "json \<Rightarrow> client_hello"
  | CRejected

definition client_exec :: "client_op \<Rightarrow> client \<Rightarrow> client option" where
  "client_exec op c =
     (case op of
        CRequest text \<Rightarrow> Some (snd (request_begin text c))
      | CEnterGate i \<Rightarrow> enter_gate i c
      | CGateTimeout i \<Rightarrow> gate_timeout i c
      | CWritten i failed \<Rightarrow> written i failed c
      | CWriteTimeout i \<Rightarrow> write_timeout i c
      | CWriteAbandoned i \<Rightarrow> write_abandoned i c
      | CReceive i fits \<Rightarrow> receive_reply i fits c
      | CReplyTimeout i \<Rightarrow> reply_timeout i c
      | CLine n line \<Rightarrow> read_line n line c
      | CReadEnd n \<Rightarrow> read_end n c
      | CProcessExit n \<Rightarrow> process_exit n c
      | CSend j \<Rightarrow> send_reply j c
      | CTakeEvent \<Rightarrow> take_event c
      | CKill \<Rightarrow> Some (client_Kill c)
      | CEnsure elevated executable \<Rightarrow> ensure_begin elevated executable c
      | CEnsureTimeout elevated \<Rightarrow> ensure_timeout elevated c
      | CSwitch \<Rightarrow> ensure_switch c
      | CSwitched executable \<Rightarrow> ensure_switched executable c
      | CLaunched failed \<Rightarrow> ensure_launched failed c
      | CGreet \<Rightarrow> ensure_greet c
      | CNegotiated decode \<Rightarrow> ensure_negotiated decode c
      | CRejected \<Rightarrow> ensure_rejected c)"

section \<open>Finding the executable\<close>

text \<open>
  \<open>ResolveExecutable\<close>: the candidates in their order, without duplicates up to case, and the first that is a file. \<open>rx_expand\<close>, \<open>rx_dir\<close>, \<open>rx_join\<close>
  and \<open>rx_abs\<close> are \<open>os.ExpandEnv\<close>, \<open>filepath.Dir\<close>, \<open>filepath.Join\<close> and \<open>filepath.Abs\<close>.
\<close>

record executable_env =
  rx_linux :: bool
  rx_lookPath :: "string option"
  rx_configured :: string
  rx_executable :: "string option"
  rx_cwd :: "string option"
  rx_expand :: "string \<Rightarrow> string"
  rx_dir :: "string \<Rightarrow> string"
  rx_join :: "string list \<Rightarrow> string"
  rx_abs :: "string \<Rightarrow> string option"
  rx_isFile :: "string \<Rightarrow> bool"

fun parent_candidates :: "executable_env \<Rightarrow> nat \<Rightarrow> string \<Rightarrow> string list" where
  "parent_candidates env 0 current = []"
| "parent_candidates env (Suc count) current =
     [rx_join env [current, ''hypomux-engine.exe''], rx_join env [current, ''bin'', ''hypomux-engine.exe''],
      rx_join env [current, ''dist'', ''hypomux-engine.exe'']]
     @ (let parent = rx_dir env current in if parent = current then [] else parent_candidates env count parent)"

definition executable_candidates :: "executable_env \<Rightarrow> string list" where
  "executable_candidates env =
     (if rx_configured env \<noteq> [] then [rx_expand env (rx_configured env)] else [])
     @ (case rx_executable env of
          None \<Rightarrow> []
        | Some executable \<Rightarrow>
            let root = rx_dir env executable in [rx_join env [root, ''bin'', ''hypomux-engine.exe''], rx_join env [root, ''hypomux-engine.exe'']])
     @ (case rx_cwd env of None \<Rightarrow> [] | Some cwd \<Rightarrow> parent_candidates env 6 cwd)"

fun first_file :: "executable_env \<Rightarrow> string list \<Rightarrow> string list \<Rightarrow> string option" where
  "first_file env seen [] = None"
| "first_file env seen (candidate # cs) =
     (case rx_abs env candidate of
        None \<Rightarrow> first_file env seen cs
      | Some absolute \<Rightarrow>
          let key = to_lower absolute
          in if key \<in> set seen then first_file env seen cs
             else if rx_isFile env absolute then Some absolute
             else first_file env (key # seen) cs)"

definition ResolveExecutable :: "executable_env \<Rightarrow> string option" where
  "ResolveExecutable env =
     (case (if rx_linux env then Option.bind (rx_lookPath env) (rx_abs env) else None) of
        Some installed \<Rightarrow> Some installed
      | None \<Rightarrow> first_file env [] (executable_candidates env))"

end
