(* ===== verification/Engine_Client_Inv.thy ===== *)
theory Engine_Client_Inv
  imports Engine_Client
begin

text \<open>Properties of the connection to the engine, in every interleaving.\<close>

section \<open>The invariant\<close>

lemma request_id_inject [simp]: "request_id m = request_id n \<longleftrightarrow> m = n"
proof
  assume "request_id m = request_id n"
  then have "nat_str m = nat_str n" by (simp add: request_id_def)
  from arg_cong [OF this, of "digits_val 0"] show "m = n" by simp
qed simp

lemma phase_set [simp]: "phase_of (set_phase i p c) j = (if j = i then Some p else phase_of c j)"
  by (simp add: phase_of_def set_phase_def update_conv')

lemma phase_frame [simp]:
  "phase_of (c\<lparr>cl_pending := x1\<rparr>) j = phase_of c j" "phase_of (c\<lparr>cl_writeGate := x2\<rparr>) j = phase_of c j"
  "phase_of (c\<lparr>cl_sends := x3\<rparr>) j = phase_of c j" "phase_of (c\<lparr>cl_replies := x4\<rparr>) j = phase_of c j"
  "phase_of (c\<lparr>cl_sequence := x5\<rparr>) j = phase_of c j" "phase_of (c\<lparr>cl_readers := x6\<rparr>) j = phase_of c j"
  by (simp_all add: phase_of_def)

definition issued :: "client \<Rightarrow> string set" where
  "issued c = request_id ` {1..cl_sequence c}"

text \<open>A request that has not returned, with the session it was registered on.\<close>

definition live_on :: "client \<Rightarrow> string \<Rightarrow> nat \<Rightarrow> bool" where
  "live_on c i n \<longleftrightarrow> phase_of c i = Some (AtGate n) \<or> phase_of c i = Some (Writing n) \<or> phase_of c i = Some (Awaiting n)"

definition holds_gate :: "client \<Rightarrow> string \<Rightarrow> bool" where
  "holds_gate c i \<longleftrightarrow> (\<exists>n. phase_of c i = Some (Writing n)) \<or> (\<exists>n k. phase_of c i = Some (Killing n k))"

text \<open>
  The id of a request is in one place at most: registered, being answered, or answered. The first three conjuncts bound where ids
  are, the others say that a request is never forgotten, that what is registered waits on the session that
  there is, that an answer of a session goes to a request of that session, and who holds the write gate.
\<close>

definition tokens :: "client \<Rightarrow> string list" where
  "tokens c = cl_pending c @ map fst (cl_sends c) @ map fst (cl_replies c)"

definition from_core :: "client \<Rightarrow> string \<Rightarrow> nat \<Rightarrow> bool" where
  "from_core c i m \<longleftrightarrow> (\<exists>a owner. (i, FromCore m a, owner) \<in> set (cl_sends c)) \<or> (\<exists>a. (i, FromCore m a) \<in> set (cl_replies c))"

definition client_inv :: "client \<Rightarrow> bool" where
  "client_inv c \<longleftrightarrow>
     distinct (tokens c) \<and> set (tokens c) \<subseteq> issued c \<and> (\<forall>i. phase_of c i \<noteq> None \<longrightarrow> i \<in> issued c)
     \<and> (cl_session c = None \<longrightarrow> cl_pending c = [] \<and> cl_hello c = zero_hello)
     \<and> (\<forall>i n. live_on c i n \<longrightarrow> i \<in> set (tokens c))
     \<and> (\<forall>i \<in> set (cl_pending c). \<exists>n. cl_session c = Some n \<and> live_on c i n)
     \<and> (\<forall>i m n. from_core c i m \<longrightarrow> live_on c i n \<longrightarrow> m = n)
     \<and> (\<forall>i. cl_writeGate c = Some i \<longleftrightarrow> holds_gate c i)
     \<and> (\<forall>e h. (e, Inr h) \<in> set (cl_ensured c) \<longrightarrow> ch_ProtocolVersion h = ProtocolVersion \<and> (e \<longrightarrow> ch_Elevated h))"

lemma client_init: "client_inv newClient"
  by (simp add: client_inv_def newClient_def tokens_def live_on_def phase_of_def from_core_def holds_gate_def)

lemmas inv_defs = client_inv_def tokens_def issued_def live_on_def phase_of_def from_core_def holds_gate_def

text \<open>Changes of fields that the invariant does not read.\<close>

lemma inv_frame [simp]:
  "client_inv (c\<lparr>cl_closed := x1\<rparr>) = client_inv c" "client_inv (c\<lparr>cl_killed := x2\<rparr>) = client_inv c"
  "client_inv (c\<lparr>cl_readers := x3\<rparr>) = client_inv c" "client_inv (c\<lparr>cl_waiters := x3\<rparr>) = client_inv c"
  "client_inv (c\<lparr>cl_events := x4\<rparr>) = client_inv c" "client_inv (c\<lparr>cl_ensure := x5\<rparr>) = client_inv c"
  "client_inv (c\<lparr>cl_nextSession := x6\<rparr>) = client_inv c" "client_inv (c\<lparr>cl_path := x7\<rparr>) = client_inv c"
  by (simp_all add: inv_defs)

lemma inv_transfer:
  assumes "client_inv c" "cl_session c' = cl_session c" "cl_pending c' = cl_pending c" "cl_hello c' = cl_hello c" "cl_sequence c' = cl_sequence c"
    "cl_requests c' = cl_requests c" "cl_replies c' = cl_replies c" "cl_sends c' = cl_sends c" "cl_writeGate c' = cl_writeGate c"
    "cl_ensured c' = cl_ensured c"
  shows "client_inv c'"
  using assms by (simp add: inv_defs)

lemma inv_parts:
  assumes "client_inv c"
  shows "distinct (tokens c)" "set (tokens c) \<subseteq> issued c" "phase_of c i \<noteq> None \<Longrightarrow> i \<in> issued c"
    "cl_session c = None \<Longrightarrow> cl_pending c = []" "cl_session c = None \<Longrightarrow> cl_hello c = zero_hello" "live_on c i n \<Longrightarrow> i \<in> set (tokens c)"
    "i \<in> set (cl_pending c) \<Longrightarrow> \<exists>n. cl_session c = Some n \<and> live_on c i n"
    "from_core c i m \<Longrightarrow> live_on c i n \<Longrightarrow> m = n" "cl_writeGate c = Some i \<longleftrightarrow> holds_gate c i"
    "(e, Inr h) \<in> set (cl_ensured c) \<Longrightarrow> ch_ProtocolVersion h = ProtocolVersion \<and> (e \<longrightarrow> ch_Elevated h)"
  using assms unfolding client_inv_def by blast+

lemma client_invI:
  assumes "distinct (tokens c)" "set (tokens c) \<subseteq> issued c" "\<And>i. phase_of c i \<noteq> None \<Longrightarrow> i \<in> issued c"
    "cl_session c = None \<Longrightarrow> cl_pending c = []" "cl_session c = None \<Longrightarrow> cl_hello c = zero_hello"
    "\<And>i n. live_on c i n \<Longrightarrow> i \<in> set (tokens c)" "\<And>i. i \<in> set (cl_pending c) \<Longrightarrow> \<exists>n. cl_session c = Some n \<and> live_on c i n"
    "\<And>i m n. from_core c i m \<Longrightarrow> live_on c i n \<Longrightarrow> m = n" "\<And>i. cl_writeGate c = Some i \<longleftrightarrow> holds_gate c i"
    "\<And>e h. (e, Inr h) \<in> set (cl_ensured c) \<Longrightarrow> ch_ProtocolVersion h = ProtocolVersion \<and> (e \<longrightarrow> ch_Elevated h)"
  shows "client_inv c"
  using assms unfolding client_inv_def by blast

lemma inv_detach: "client_inv c \<Longrightarrow> client_inv (detach reason c)"
proof -
  assume i: "client_inv c"
  have f: "live_on (detach reason c) = live_on c" "holds_gate (detach reason c) = holds_gate c" "from_core (detach reason c) = from_core c"
    "phase_of (detach reason c) = phase_of c" "issued (detach reason c) = issued c"
    by (auto simp: fun_eq_iff live_on_def holds_gate_def from_core_def phase_of_def issued_def detach_def)
  have t: "set (tokens (detach reason c)) = set (tokens c)" "distinct (tokens (detach reason c)) \<longleftrightarrow> distinct (tokens c)"
    by (auto simp: tokens_def detach_def comp_def)
  show ?thesis
    using inv_parts [OF i] unfolding client_inv_def f t by (simp add: detach_def)
qed

lemma inv_close: "client_inv c \<Longrightarrow> client_inv (close_transport n c)"
  by (simp add: close_transport_def)

lemma inv_kill: "client_inv c \<Longrightarrow> client_inv (killCurrent reason c)"
  unfolding killCurrent_def Let_def
  by (auto intro!: inv_close simp: inv_detach split: option.split)

lemma inv_fail: "client_inv c \<Longrightarrow> client_inv (failSession n reason c)"
  unfolding failSession_def by (auto intro: inv_detach inv_close)

text \<open>A request returns without having received anything.\<close>

lemma inv_give_up:
  assumes "client_inv c" "phase_of c i \<noteq> None" "c' = set_phase i (Finished r) (removePending i (c\<lparr>cl_writeGate := g\<rparr>))"
    and "\<forall>j. g = Some j \<longleftrightarrow> holds_gate c' j"
  shows "client_inv c'"
proof -
  have p: "phase_of c' j = (if j = i then Some (Finished r) else phase_of c j)" for j
    by (simp add: assms(3) removePending_def)
  have live: "live_on c' j m \<longleftrightarrow> j \<noteq> i \<and> live_on c j m" for j m by (auto simp: live_on_def p)
  have core: "from_core c' = from_core c" by (simp add: fun_eq_iff from_core_def set_phase_def removePending_def assms(3))
  have iss: "issued c' = issued c" by (simp add: issued_def set_phase_def removePending_def assms(3))
  have tok: "tokens c' = removeAll i (cl_pending c) @ map fst (cl_sends c) @ map fst (cl_replies c)"
    by (simp add: tokens_def set_phase_def removePending_def assms(3))
  have i: "i \<in> issued c" using inv_parts(3) [OF assms(1), of i] assms(2) by auto
  note q = inv_parts [OF assms(1)]
  have "distinct (tokens c')" using q(1) unfolding tok by (auto simp: tokens_def distinct_removeAll)
  moreover have "set (tokens c') \<subseteq> issued c" using q(2) unfolding tok by (auto simp: tokens_def)
  moreover have "\<forall>j. phase_of c' j \<noteq> None \<longrightarrow> j \<in> issued c" using q(3) i by (simp add: p)
  moreover have "\<forall>j m. live_on c' j m \<longrightarrow> j \<in> set (tokens c')" using q(6) unfolding tok live by (fastforce simp: tokens_def)
  moreover have "\<forall>j \<in> set (cl_pending c'). \<exists>n. cl_session c' = Some n \<and> live_on c' j n"
    using q(7) unfolding live by (auto simp: set_phase_def removePending_def assms(3))
  moreover have "\<forall>j. cl_writeGate c' = Some j \<longleftrightarrow> holds_gate c' j"
    using assms(4) by (simp add: set_phase_def removePending_def assms(3))
  ultimately show ?thesis
    using q unfolding client_inv_def live core iss by (auto simp: set_phase_def removePending_def assms(3))
qed

text \<open>A request goes on; it keeps its session, and the write gate goes along.\<close>

lemma inv_advance:
  assumes "client_inv c" "live_on c i n" "p = AtGate n \<or> p = Writing n \<or> p = Awaiting n" "c' = set_phase i p (c\<lparr>cl_writeGate := g\<rparr>)"
    and "\<forall>j. g = Some j \<longleftrightarrow> holds_gate c' j"
  shows "client_inv c'"
proof -
  have ph: "phase_of c' j = (if j = i then Some p else phase_of c j)" for j
    using assms(4) by simp
  have live: "live_on c' j m \<longleftrightarrow> live_on c j m" for j m using assms(2,3) by (auto simp: live_on_def ph)
  have f: "from_core c' = from_core c" "issued c' = issued c" "tokens c' = tokens c"
    by (simp_all add: fun_eq_iff from_core_def issued_def tokens_def set_phase_def assms(4))
  have i: "i \<in> issued c" using inv_parts(3) [OF assms(1), of i] assms(2) by (auto simp: live_on_def)
  note q = inv_parts [OF assms(1)]
  have "\<forall>j. phase_of c' j \<noteq> None \<longrightarrow> j \<in> issued c" using q(3) i by (simp add: ph)
  moreover have "\<forall>j. cl_writeGate c' = Some j \<longleftrightarrow> holds_gate c' j" using assms(4,5) by (simp add: set_phase_def)
  ultimately show ?thesis
    using q unfolding client_inv_def live f by (auto simp: set_phase_def assms(4))
qed

lemma inv_enter_gate: "client_inv c \<Longrightarrow> enter_gate i c = Some c' \<Longrightarrow> client_inv c'"
proof -
  assume c: "client_inv c" and e: "enter_gate i c = Some c'"
  then obtain n where n: "phase_of c i = Some (AtGate n)" "cl_writeGate c = None" "c' = set_phase i (Writing n) (c\<lparr>cl_writeGate := Some i\<rparr>)"
    by (auto simp: enter_gate_def split: option.splits request_phase.splits if_splits)
  have "\<not> holds_gate c j" for j using inv_parts(9) [OF c, of j] n(2) by simp
  then have "\<forall>j. Some i = Some j \<longleftrightarrow> holds_gate c' j"
    by (auto simp: n(3) holds_gate_def)
  with inv_advance [OF c _ _ n(3), of n] n(1) show ?thesis by (simp add: live_on_def)
qed

lemma gate_other: "client_inv c \<Longrightarrow> cl_writeGate c = Some i \<Longrightarrow> holds_gate c j \<longleftrightarrow> j = i"
  using inv_parts(9) [of c j] by auto

lemma inv_written: "client_inv c \<Longrightarrow> written i failed c = Some c' \<Longrightarrow> client_inv c'"
proof -
  assume c: "client_inv c" and e: "written i failed c = Some c'"
  then obtain n where n: "phase_of c i = Some (Writing n)" by (auto simp: written_def split: option.splits request_phase.splits)
  have "cl_writeGate c = Some i" using inv_parts(9) [OF c, of i] n by (auto simp: holds_gate_def)
  note h = gate_other [OF c this]
  have none: "\<not> holds_gate c j" if "j \<noteq> i" for j using h that by simp
  show ?thesis
  proof (cases failed)
    case None
    then have c': "c' = set_phase i (Awaiting n) (c\<lparr>cl_writeGate := None\<rparr>)" using e n by (simp add: written_def)
    have "\<forall>j. None = Some j \<longleftrightarrow> holds_gate c' j" using none by (auto simp: c' holds_gate_def)
    with inv_advance [OF c _ _ c', of n] n show ?thesis by (simp add: live_on_def)
  next
    case (Some f)
    then have c': "c' = set_phase i (Finished (Inl (Disconnected f))) (removePending i (c\<lparr>cl_writeGate := None\<rparr>))"
      using e n by (simp add: written_def plain_error_def)
    have "\<forall>j. None = Some j \<longleftrightarrow> holds_gate c' j" using none by (auto simp: c' holds_gate_def removePending_def)
    with inv_give_up [OF c _ c'] n show ?thesis by simp
  qed
qed

text \<open>A request gives up before it wrote, or while it waits.\<close>

lemma inv_idle_timeout:
  assumes "client_inv c" "phase_of c i = Some (AtGate n) \<or> phase_of c i = Some (Awaiting n)" "c' = set_phase i (plain_error e) (removePending i c)"
  shows "client_inv c'"
proof -
  have c': "c' = set_phase i (Finished (Inl (Disconnected e))) (removePending i (c\<lparr>cl_writeGate := cl_writeGate c\<rparr>))"
    by (simp add: assms(3) plain_error_def)
  have "holds_gate c' j \<longleftrightarrow> holds_gate c j" for j using assms(2) by (auto simp: c' holds_gate_def removePending_def)
  then have "\<forall>j. cl_writeGate c = Some j \<longleftrightarrow> holds_gate c' j" using inv_parts(9) [OF assms(1)] by simp
  from inv_give_up [OF assms(1) _ c' this] assms(2) show ?thesis by auto
qed

lemma inv_gate_timeout: "client_inv c \<Longrightarrow> gate_timeout i c = Some c' \<Longrightarrow> client_inv c'"
  using inv_idle_timeout by (auto simp: gate_timeout_def split: option.splits request_phase.splits)

lemma inv_reply_timeout: "client_inv c \<Longrightarrow> reply_timeout i c = Some c' \<Longrightarrow> client_inv c'"
  using inv_idle_timeout by (auto simp: reply_timeout_def split: option.splits request_phase.splits)

lemma inv_write_timeout: "client_inv c \<Longrightarrow> write_timeout i c = Some c' \<Longrightarrow> client_inv c'"
proof -
  assume c: "client_inv c" and e: "write_timeout i c = Some c'"
  then obtain n where n: "phase_of c i = Some (Writing n)"
    and c': "c' = set_phase i (Killing n (cl_nextFailer c)) (killCurrent ''timeout while sending'' c)"
    by (auto simp: write_timeout_def split: option.splits request_phase.splits)
  define d where "d = killCurrent ''timeout while sending'' c"
  have d: "client_inv d" "cl_pending d = []" "cl_requests d = cl_requests c" "cl_writeGate d = cl_writeGate c"
    using inv_kill [OF c] by (auto simp: d_def killCurrent_def close_transport_def detach_def Let_def split: option.split)
  have pd: "phase_of d j = phase_of c j" for j by (simp add: phase_of_def d(3))
  have c': "c' = set_phase i (Killing n (cl_nextFailer c)) d" by (simp add: c' d_def)
  have live: "live_on c' j m \<longleftrightarrow> j \<noteq> i \<and> live_on d j m" for j m by (auto simp: live_on_def c')
  have gate: "holds_gate c' j \<longleftrightarrow> holds_gate d j" for j using n by (auto simp: holds_gate_def c' pd)
  have f: "from_core c' = from_core d" "issued c' = issued d" "tokens c' = tokens d"
    by (simp_all add: fun_eq_iff from_core_def issued_def tokens_def set_phase_def c')
  have i: "i \<in> issued d" using inv_parts(3) [OF d(1), of i] n by (simp add: pd)
  note q = inv_parts [OF d(1)]
  have "\<forall>j. phase_of c' j \<noteq> None \<longrightarrow> j \<in> issued d" using q(3) i by (simp add: c')
  then show ?thesis
    using q d(2) unfolding client_inv_def live gate f by (auto simp: set_phase_def c')
qed

lemma inv_write_abandoned: "client_inv c \<Longrightarrow> write_abandoned i c = Some c' \<Longrightarrow> client_inv c'"
proof -
  assume c: "client_inv c" and e: "write_abandoned i c = Some c'"
  then obtain n k where n: "phase_of c i = Some (Killing n k)" and c': "c' = set_phase i (plain_error ''timeout while sending'') (c\<lparr>cl_writeGate := None\<rparr>)"
    by (auto simp: write_abandoned_def split: option.splits request_phase.splits if_splits)
  have "i \<notin> set (cl_pending c)" using inv_parts(7) [OF c, of i] n by (auto simp: live_on_def)
  then have c': "c' = set_phase i (Finished (Inl (Disconnected ''timeout while sending''))) (removePending i (c\<lparr>cl_writeGate := None\<rparr>))"
    by (simp add: c' plain_error_def removePending_def)
  have "cl_writeGate c = Some i" using inv_parts(9) [OF c, of i] n by (auto simp: holds_gate_def)
  note h = gate_other [OF c this]
  have "\<forall>j. None = Some j \<longleftrightarrow> holds_gate c' j" using h by (auto simp: c' holds_gate_def removePending_def)
  from inv_give_up [OF c _ c' this] n show ?thesis by simp
qed

lemma inv_receive: "client_inv c \<Longrightarrow> receive_reply i fits c = Some c' \<Longrightarrow> client_inv c'"
proof -
  assume c: "client_inv c" and e: "receive_reply i fits c = Some c'"
  then obtain n r where n: "phase_of c i = Some (Awaiting n)" and r: "map_of (cl_replies c) i = Some r"
    and c': "c' = set_phase i (Finished (reply_result fits r)) (c\<lparr>cl_replies := AList.delete i (cl_replies c)\<rparr>)"
    by (auto simp: receive_reply_def split: option.splits request_phase.splits prod.splits)
  note q = inv_parts [OF c]
  have ph: "phase_of c' j = (if j = i then Some (Finished (reply_result fits r)) else phase_of c j)" for j by (simp add: c')
  have live: "live_on c' j m \<longleftrightarrow> j \<noteq> i \<and> live_on c j m" for j m by (auto simp: live_on_def ph)
  have gate: "holds_gate c' j \<longleftrightarrow> holds_gate c j" for j using n by (auto simp: holds_gate_def ph)
  have core: "from_core c' j m \<Longrightarrow> from_core c j m" for j m
    by (auto simp: from_core_def c' set_phase_def AList.delete_eq)
  have iss: "issued c' = issued c" by (simp add: issued_def set_phase_def c')
  have tok: "tokens c' = cl_pending c @ map fst (cl_sends c) @ map fst (AList.delete i (cl_replies c))"
    by (simp add: tokens_def set_phase_def c')
  have in_replies: "i \<in> fst ` set (cl_replies c)" using r by (metis map_of_eq_None_iff option.simps(3))
  have sub: "fst ` set (AList.delete i (cl_replies c)) = fst ` set (cl_replies c) - {i}" by (auto simp: AList.delete_eq)
  have d: "distinct (tokens c')"
    using q(1) unfolding tok by (auto simp: tokens_def AList.delete_eq distinct_map_filter)
  have s: "set (tokens c') \<subseteq> issued c" using q(2) unfolding tok by (auto simp: tokens_def AList.delete_eq)
  have iss_i: "i \<in> issued c" using q(3) [of i] n by simp
  have ph': "\<forall>j. phase_of c' j \<noteq> None \<longrightarrow> j \<in> issued c" using q(3) iss_i by (simp add: ph)
  have kept: "set (tokens c) - {i} \<subseteq> set (tokens c')" 
  proof
    fix j assume j: "j \<in> set (tokens c) - {i}"
    then have "j \<in> set (cl_pending c) \<or> j \<in> fst ` set (cl_sends c) \<or> j \<in> fst ` set (cl_replies c) - {i}" by (simp add: tokens_def)
    then show "j \<in> set (tokens c')" unfolding tok sub [symmetric] by (elim disjE) simp_all
  qed
  have l: "live_on c' j m \<Longrightarrow> j \<in> set (tokens c')" for j m using q(6) kept unfolding live by blast
  have not_pending: "i \<notin> set (cl_pending c)" using q(1) in_replies by (auto simp: tokens_def)
  have same: "cl_session c' = cl_session c" "cl_pending c' = cl_pending c" "cl_hello c' = cl_hello c" "cl_writeGate c' = cl_writeGate c"
    "cl_ensured c' = cl_ensured c" by (simp_all add: set_phase_def c')
  have pl: "\<exists>n. cl_session c' = Some n \<and> live_on c' j n" if "j \<in> set (cl_pending c')" for j
    using q(7) [of j] not_pending that unfolding live same by metis
  show ?thesis
  proof (rule client_invI)
    show "m = n" if "from_core c' j m" "live_on c' j n" for j m n using q(8) [OF core [OF that(1)]] that(2) by (simp add: live)
  qed (use d s ph' l pl q(4,5,9,10) in \<open>simp_all add: iss same gate\<close>)
qed

lemma new_id: "client_inv c \<Longrightarrow> request_id (Suc (cl_sequence c)) \<notin> issued c"
  by (auto simp: issued_def)

lemma inv_request:
  assumes "client_inv c"
  shows "client_inv (snd (request_begin text c))"
proof (cases "text = BlankMethod")
  case False
  define i where "i = request_id (Suc (cl_sequence c))"
  define c0 where "c0 = c\<lparr>cl_sequence := Suc (cl_sequence c)\<rparr>"
  note q = inv_parts [OF assms]
  have new: "i \<notin> issued c" using new_id [OF assms] by (simp add: i_def)
  have iss: "issued c0 = insert i (issued c)" by (simp add: issued_def c0_def i_def atLeastAtMostSuc_conv)
  have unseen: "i \<notin> set (tokens c)" "phase_of c i = None" "\<not> live_on c i n" "\<not> holds_gate c i" for n
  proof -
    show "i \<notin> set (tokens c)" using q(2) new by auto
    show p: "phase_of c i = None" using q(3) [of i] new by (cases "phase_of c i") simp_all
    show "\<not> live_on c i n" for n by (simp add: live_on_def p)
    show "\<not> holds_gate c i" by (simp add: holds_gate_def p)
  qed
  have p0: "phase_of c0 j = phase_of c j" for j by (simp add: c0_def)
  have fin: "client_inv (set_phase i (Finished r) c0)" for r
  proof -
    let ?c = "set_phase i (Finished r) c0"
    have ph: "phase_of ?c j = (if j = i then Some (Finished r) else phase_of c j)" for j by (simp add: p0)
    have live: "live_on ?c j m \<longleftrightarrow> live_on c j m" for j m using unseen(3) by (simp add: live_on_def ph p0 del: phase_set)
    have gate: "holds_gate ?c j \<longleftrightarrow> holds_gate c j" for j using unseen(4) by (simp add: holds_gate_def ph del: phase_set)
    have f: "from_core ?c = from_core c" "issued ?c = insert i (issued c)" "tokens ?c = tokens c"
      using iss by (simp_all add: fun_eq_iff from_core_def issued_def tokens_def set_phase_def c0_def)
    have "\<forall>j. phase_of ?c j \<noteq> None \<longrightarrow> j \<in> insert i (issued c)" using q(3) by (simp add: ph del: phase_set)
    then show ?thesis using q unfolding client_inv_def live gate f by (auto simp: set_phase_def c0_def)
  qed
  have reg: "client_inv (set_phase i (AtGate n) (c0\<lparr>cl_pending := cl_pending c @ [i]\<rparr>))" if s: "cl_session c = Some n" for n
  proof -
    let ?c = "set_phase i (AtGate n) (c0\<lparr>cl_pending := cl_pending c @ [i]\<rparr>)"
    have ph: "phase_of ?c j = (if j = i then Some (AtGate n) else phase_of c j)" for j by (simp add: p0)
    have live: "live_on ?c j m \<longleftrightarrow> (j = i \<and> m = n) \<or> live_on c j m" for j m using unseen(2,3) by (auto simp add: live_on_def ph simp del: phase_set)
    have gate: "holds_gate ?c j \<longleftrightarrow> holds_gate c j" for j using unseen(4) by (simp add: holds_gate_def ph del: phase_set)
    have f: "from_core ?c = from_core c" "issued ?c = insert i (issued c)" "tokens ?c = cl_pending c @ [i] @ map fst (cl_sends c) @ map fst (cl_replies c)"
      using iss by (simp_all add: fun_eq_iff from_core_def issued_def tokens_def set_phase_def c0_def)
    have no_core: "\<not> from_core c i m" for m using unseen(1) by (auto simp: from_core_def tokens_def rev_image_eqI)
    have d: "distinct (tokens ?c)" using q(1) unseen(1) unfolding f by (auto simp: tokens_def)
    have t: "set (tokens ?c) = insert i (set (tokens c))" unfolding f by (auto simp: tokens_def)
    have "\<forall>j. phase_of ?c j \<noteq> None \<longrightarrow> j \<in> insert i (issued c)" using q(3) by (simp add: ph del: phase_set)
    moreover have "\<forall>j \<in> set (cl_pending ?c). \<exists>m. cl_session ?c = Some m \<and> live_on ?c j m"
      using q(7) s unfolding live by (auto simp: set_phase_def c0_def)
    moreover have "\<forall>j k m. from_core c j k \<longrightarrow> (j = i \<and> m = n) \<or> live_on c j m \<longrightarrow> k = m"
      using q(8) no_core by blast
    ultimately show ?thesis
      using q d t s unfolding client_inv_def live gate f(1,2) by (auto simp: set_phase_def c0_def)
  qed
  show ?thesis
    using False fin reg by (auto simp: request_begin_def Let_def i_def [symmetric] c0_def [symmetric] plain_error_def split: option.split)
       (auto simp: c0_def i_def)
qed (use assms in \<open>simp add: request_begin_def\<close>)

lemma inv_read_line: "client_inv c \<Longrightarrow> read_line n line c = Some c' \<Longrightarrow> client_inv c'"
proof -
  assume c: "client_inv c" and e: "read_line n line c = Some c'"
  note q = inv_parts [OF c]
  have "client_inv ((removePending i c)\<lparr>cl_sends := cl_sends c @ [(i, FromCore n a, Reader n)]\<rparr>)"
    if s: "cl_session c = Some n" and p: "i \<in> set (cl_pending c)" for i a
  proof -
    let ?c = "(removePending i c)\<lparr>cl_sends := cl_sends c @ [(i, FromCore n a, Reader n)]\<rparr>"
    have f: "live_on ?c = live_on c" "holds_gate ?c = holds_gate c" "issued ?c = issued c" "phase_of ?c = phase_of c"
      by (auto simp: fun_eq_iff live_on_def holds_gate_def issued_def removePending_def)
    have t: "set (tokens ?c) = set (tokens c)" using p by (auto simp: tokens_def removePending_def)
    have d: "distinct (tokens ?c)" using q(1) p by (auto simp: tokens_def removePending_def distinct_removeAll)
    have core: "from_core ?c j m \<longleftrightarrow> from_core c j m \<or> j = i \<and> m = n" for j m by (auto simp: from_core_def removePending_def)
    have li: "live_on c i m \<Longrightarrow> m = n" for m using q(7) [OF p] s by (auto simp: live_on_def)
    show ?thesis
      using q d s li unfolding client_inv_def f t core by (auto simp: removePending_def)
  qed
  then show ?thesis using e c by (auto simp: read_line_def split: if_splits core_line.splits)
qed

lemma inv_read_end: "client_inv c \<Longrightarrow> read_end n c = Some c' \<Longrightarrow> client_inv c'"
  by (auto simp: read_end_def intro: inv_fail split: if_splits)

lemma inv_process_exit: "client_inv c \<Longrightarrow> process_exit n c = Some c' \<Longrightarrow> client_inv c'"
  by (auto simp: process_exit_def intro: inv_fail split: if_splits)

lemma inv_take_event: "client_inv c \<Longrightarrow> take_event c = Some c' \<Longrightarrow> client_inv c'"
  by (auto simp: take_event_def split: list.splits)

lemma inv_send: "client_inv c \<Longrightarrow> send_reply j c = Some c' \<Longrightarrow> client_inv c'"
proof -
  assume c: "client_inv c" and e: "send_reply j c = Some c'"
  note q = inv_parts [OF c]
  obtain i r owner where s: "j < length (cl_sends c)" "cl_sends c ! j = (i, r, owner)"
    and c': "c' = c\<lparr>cl_replies := (i, r) # cl_replies c, cl_sends := take j (cl_sends c) @ drop (Suc j) (cl_sends c)\<rparr>"
    using e by (auto simp: send_reply_def split: if_splits prod.splits)
  define pre where "pre = take j (cl_sends c)"
  define post where "post = drop (Suc j) (cl_sends c)"
  have sends: "cl_sends c = pre @ (i, r, owner) # post"
    using id_take_nth_drop [OF s(1)] s(2) by (simp add: pre_def post_def)
  have c'': "cl_sends c' = pre @ post" "cl_replies c' = (i, r) # cl_replies c" by (simp_all add: c' pre_def post_def)
  have f: "live_on c' = live_on c" "holds_gate c' = holds_gate c" "issued c' = issued c" "phase_of c' = phase_of c"
    by (auto simp: fun_eq_iff live_on_def holds_gate_def issued_def c')
  have t: "tokens c' = cl_pending c @ (map fst pre @ map fst post) @ i # map fst (cl_replies c)"
    by (simp add: tokens_def c' pre_def post_def)
  have d: "distinct (tokens c')" "set (tokens c') = set (tokens c)"
    using q(1) unfolding t by (auto simp: tokens_def sends)
  have core: "from_core c' k m \<Longrightarrow> from_core c k m" for k m
    using c'' by (auto simp: from_core_def sends)
  have same: "cl_session c' = cl_session c" "cl_pending c' = cl_pending c" "cl_hello c' = cl_hello c" "cl_writeGate c' = cl_writeGate c"
    "cl_ensured c' = cl_ensured c" by (simp_all add: c')
  show ?thesis
  proof (rule client_invI)
    show "m = n" if "from_core c' k m" "live_on c' k n" for k m n using q(8) [OF core [OF that(1)]] that(2) by (simp add: f)
  qed (use d(1) q in \<open>simp_all add: f d(2) same\<close>)
qed


lemma inv_result:
  assumes "client_inv c" "\<And>h. r = Inr h \<Longrightarrow> ch_ProtocolVersion h = ProtocolVersion \<and> (e \<longrightarrow> ch_Elevated h)"
  shows "client_inv (ensure_result e r c)"
proof -
  have "client_inv (c\<lparr>cl_ensured := cl_ensured c @ [(e, r)]\<rparr>)"
  proof (rule client_invI)
    show "ch_ProtocolVersion h = ProtocolVersion \<and> (e' \<longrightarrow> ch_Elevated h)" if "(e', Inr h) \<in> set (cl_ensured (c\<lparr>cl_ensured := cl_ensured c @ [(e, r)]\<rparr>))" for e' h
      using that assms(2) inv_parts(10) [OF assms(1)] by auto
  qed (use inv_parts(1-9) [OF assms(1)] in \<open>simp_all add: tokens_def issued_def live_on_def phase_of_def from_core_def holds_gate_def\<close>)
  then show ?thesis by (rule inv_transfer) (simp_all add: ensure_result_def)
qed

lemma inv_install:
  assumes "client_inv c" "cl_session c = None"
  shows "client_inv (c\<lparr>cl_session := Some n, cl_pending := [], cl_hello := zero_hello\<rparr>)" (is "client_inv ?c")
proof -
  note q = inv_parts [OF assms(1)]
  have f: "live_on ?c = live_on c" "holds_gate ?c = holds_gate c" "issued ?c = issued c" "phase_of ?c = phase_of c" "tokens ?c = tokens c"
    "from_core ?c = from_core c"
    using q(4) assms(2) by (simp_all add: fun_eq_iff live_on_def holds_gate_def issued_def phase_of_def from_core_def tokens_def)
  show ?thesis
    by (rule client_invI) (use q assms(2) in \<open>simp_all add: f\<close>)
qed

lemma inv_hello: "client_inv c \<Longrightarrow> cl_session c = Some n \<Longrightarrow> client_inv (c\<lparr>cl_hello := h\<rparr>)"
  by (simp add: inv_defs)

lemma inv_resolved: "client_inv c \<Longrightarrow> client_inv (ensure_resolved e x c)"
  unfolding ensure_resolved_def by (cases x) (auto intro!: inv_result)

lemma inv_reject: "client_inv c \<Longrightarrow> client_inv (ensure_reject e x c)"
  by (simp add: ensure_reject_def inv_kill)

lemma inv_ensure:
  assumes "client_inv c"
  shows "ensure_begin e x c = Some c' \<Longrightarrow> client_inv c'" "ensure_timeout e c = Some c' \<Longrightarrow> client_inv c'"
    "ensure_switch c = Some c' \<Longrightarrow> client_inv c'" "ensure_switched x c = Some c' \<Longrightarrow> client_inv c'"
    "ensure_greet c = Some c' \<Longrightarrow> client_inv c'" "ensure_rejected c = Some c' \<Longrightarrow> client_inv c'"
proof -
  show "ensure_begin e x c = Some c' \<Longrightarrow> client_inv c'"
    using assms by (auto simp: ensure_begin_def inv_resolved intro!: inv_result split: if_splits)
  show "ensure_timeout e c = Some c' \<Longrightarrow> client_inv c'"
    by (rule inv_transfer [OF inv_result [OF assms, of "Inl GateTimeout" e]]) (auto simp: ensure_timeout_def ensure_result_def split: if_splits)
  show "ensure_switch c = Some c' \<Longrightarrow> client_inv c'"
    using inv_kill [OF assms] by (auto simp: ensure_switch_def split: ensure_phase.splits)
  show "ensure_switched x c = Some c' \<Longrightarrow> client_inv c'"
    using assms by (auto simp: ensure_switched_def inv_resolved split: ensure_phase.splits if_splits)
  show "ensure_greet c = Some c' \<Longrightarrow> client_inv c'"
  proof -
    assume "ensure_greet c = Some c'"
    then obtain p where "c' = (snd (request_begin Sendable c))\<lparr>cl_ensure := p\<rparr>"
      by (auto simp: ensure_greet_def split: ensure_phase.splits prod.splits option.splits)
    with inv_request [OF assms, of Sendable] show ?thesis by simp
  qed
  show "ensure_rejected c = Some c' \<Longrightarrow> client_inv c'"
    using assms by (auto simp: ensure_rejected_def intro!: inv_result split: ensure_phase.splits if_splits)
qed

lemma inv_launched:
  assumes "client_inv c" "ensure_launched failed c = Some c'"
  shows "client_inv c'"
proof -
  obtain e x where p: "cl_ensure c = ELaunching e x" using assms(2) by (auto simp: ensure_launched_def split: ensure_phase.splits)
  show ?thesis
  proof (cases failed)
    case (Some a)
    with assms p show ?thesis by (auto simp: ensure_launched_def intro!: inv_result)
  next
    case None
    show ?thesis
    proof (cases "cl_session c")
      case None
      have "client_inv (c\<lparr>cl_session := Some (cl_nextSession c), cl_pending := [], cl_hello := zero_hello\<rparr>)"
        by (rule inv_install [OF assms(1) None])
      then show ?thesis
        by (rule inv_transfer) (use \<open>failed = None\<close> None p assms(2) in \<open>auto simp: ensure_launched_def Let_def\<close>)
    next
      case (Some m)
      with \<open>failed = None\<close> p assms show ?thesis by (auto simp: ensure_launched_def Let_def intro!: inv_result inv_close)
    qed
  qed
qed

lemma inv_negotiated:
  assumes "client_inv c" "ensure_negotiated decode c = Some c'"
  shows "client_inv c'"
proof -
  have h: "cl_session c = Some n \<Longrightarrow> client_inv (c\<lparr>cl_hello := h\<rparr>)" for n h
    using assms(1) by (simp add: inv_hello)
  from assms(2) show ?thesis
    unfolding ensure_negotiated_def Let_def
    by (auto simp: inv_reject assms(1) intro!: inv_result h
        split: ensure_phase.splits option.splits request_phase.splits sum.splits if_splits)
qed

section \<open>Every step\<close>

definition client_step :: "client \<Rightarrow> client_op \<Rightarrow> client \<Rightarrow> bool" where
  "client_step c op c' \<longleftrightarrow> client_exec op c = Some c'"

lemma inv_step: "client_inv c \<Longrightarrow> client_step c op c' \<Longrightarrow> client_inv c'"
  unfolding client_step_def client_exec_def client_Kill_def
  by (cases op)
     (auto intro: inv_request inv_kill inv_enter_gate inv_gate_timeout inv_written inv_write_timeout inv_write_abandoned inv_receive
       inv_reply_timeout inv_read_line inv_read_end inv_process_exit inv_send inv_take_event inv_ensure inv_launched inv_negotiated)

end
