(* ===== verification/Engine_Client_Runs.thy ===== *)
theory Engine_Client_Runs
  imports Engine_Client_Inv
begin

text \<open>The start of a session by the connection to the engine, and what holds of the connection in every interleaving.\<close>

section \<open>The start of a session\<close>

text \<open>
  While a session is being launched there is none: only the holder of the start gate installs one. Every session but the current
  one has had its transport closed.
\<close>

definition launching :: "ensure_phase \<Rightarrow> bool" where
  "launching p \<longleftrightarrow> (case p of ESwitching e k \<Rightarrow> True | ELaunching e x \<Rightarrow> True | _ \<Rightarrow> False)"

definition harmless :: "ensure_phase \<Rightarrow> bool" where
  "harmless p \<longleftrightarrow> (case p of ERejecting e x k \<Rightarrow> x \<noteq> AlreadyConnected | _ \<Rightarrow> True)"

definition start_inv :: "client \<Rightarrow> bool" where
  "start_inv c \<longleftrightarrow>
     (launching (cl_ensure c) \<longrightarrow> cl_session c = None) \<and> (\<forall>n. cl_session c = Some n \<longrightarrow> n < cl_nextSession c)
     \<and> (\<forall>n < cl_nextSession c. cl_session c = Some n \<or> n \<in> set (cl_closed c))
     \<and> harmless (cl_ensure c) \<and> (\<forall>e. (e, Inl AlreadyConnected) \<notin> set (cl_ensured c))"

lemma start_init: "start_inv newClient"
  by (simp add: start_inv_def newClient_def launching_def harmless_def)

text \<open>What a step that is none of the start's leaves of the four fields.\<close>

definition start_same :: "client \<Rightarrow> client \<Rightarrow> bool" where
  "start_same c c' \<longleftrightarrow> cl_ensure c' = cl_ensure c \<and> cl_nextSession c' = cl_nextSession c \<and> cl_ensured c' = cl_ensured c
     \<and> (cl_session c' = cl_session c \<and> set (cl_closed c') = set (cl_closed c)
        \<or> cl_session c' = None \<and> set (cl_closed c') = set_option (cl_session c) \<union> set (cl_closed c))"

lemma start_same_inv: "start_inv c \<Longrightarrow> start_same c c' \<Longrightarrow> start_inv c'"
  by (auto simp: start_inv_def start_same_def)

lemma start_same_kill: "start_same c (killCurrent reason c)"
  by (auto simp: start_same_def killCurrent_def close_transport_def detach_def Let_def split: option.split)

lemma start_same_fail: "start_same c (failSession n reason c)"
  by (auto simp: start_same_def failSession_def close_transport_def detach_def)

lemmas start_same_intros = start_same_kill start_same_fail

lemma start_same_phase [simp]:
  "start_same c (set_phase i p c') = start_same c c'" "start_same c (removePending i c') = start_same c c'"
  by (simp_all add: start_same_def set_phase_def removePending_def)

lemma start_same_frame [simp]:
  "start_same c (c'\<lparr>cl_pending := x1\<rparr>) = start_same c c'" "start_same c (c'\<lparr>cl_writeGate := x2\<rparr>) = start_same c c'"
  "start_same c (c'\<lparr>cl_sends := x3\<rparr>) = start_same c c'" "start_same c (c'\<lparr>cl_replies := x4\<rparr>) = start_same c c'"
  "start_same c (c'\<lparr>cl_sequence := x5\<rparr>) = start_same c c'" "start_same c (c'\<lparr>cl_readers := x6\<rparr>) = start_same c c'"
  "start_same c (c'\<lparr>cl_waiters := x7\<rparr>) = start_same c c'" "start_same c (c'\<lparr>cl_events := x8\<rparr>) = start_same c c'"
  "start_same (c\<lparr>cl_readers := x6\<rparr>) c' = start_same c c'"
  "start_same (c\<lparr>cl_waiters := x7\<rparr>) c' = start_same c c'" "start_same c c"
  by (simp_all add: start_same_def)

lemma start_request: "start_same c (snd (request_begin text c))"
  by (auto simp: request_begin_def Let_def plain_error_def start_same_def set_phase_def split: option.split)

lemma start_ordinary:
  "enter_gate i c = Some c' \<Longrightarrow> start_same c c'" "gate_timeout i c = Some c' \<Longrightarrow> start_same c c'"
  "written i failed c = Some c' \<Longrightarrow> start_same c c'" "write_timeout i c = Some c' \<Longrightarrow> start_same c c'"
  "write_abandoned i c = Some c' \<Longrightarrow> start_same c c'" "receive_reply i fits c = Some c' \<Longrightarrow> start_same c c'"
  "reply_timeout i c = Some c' \<Longrightarrow> start_same c c'" "send_reply j c = Some c' \<Longrightarrow> start_same c c'"
  "take_event c = Some c' \<Longrightarrow> start_same c c'"
  by (auto simp: enter_gate_def gate_timeout_def written_def write_timeout_def write_abandoned_def receive_reply_def reply_timeout_def
      send_reply_def take_event_def Let_def start_same_kill split: option.splits request_phase.splits if_splits prod.splits list.splits)

lemma start_reading:
  "read_line n l c = Some c' \<Longrightarrow> start_same c c'" "read_end n c = Some c' \<Longrightarrow> start_same c c'"
  "process_exit n c = Some c' \<Longrightarrow> start_same c c'"
proof -
  show "read_line n l c = Some c' \<Longrightarrow> start_same c c'" by (auto simp: read_line_def split: core_line.splits if_splits)
  have "start_same c (failSession n r (c\<lparr>cl_readers := x\<rparr>))" "start_same c (failSession n r (c\<lparr>cl_waiters := x\<rparr>))" for r x
    using start_same_fail [of "c\<lparr>cl_readers := x\<rparr>" n r] start_same_fail [of "c\<lparr>cl_waiters := x\<rparr>" n r] by simp_all
  then show "read_end n c = Some c' \<Longrightarrow> start_same c c'" "process_exit n c = Some c' \<Longrightarrow> start_same c c'"
    by (auto simp: read_end_def process_exit_def split: if_splits)
qed

text \<open>The steps of the start.\<close>

lemma start_result: "start_inv c \<Longrightarrow> r \<noteq> Inl AlreadyConnected \<Longrightarrow> start_inv (ensure_result e r c)"
  by (auto simp: start_inv_def ensure_result_def launching_def harmless_def)

lemma start_phase: "start_inv c \<Longrightarrow> harmless p \<Longrightarrow> (launching p \<Longrightarrow> cl_session c = None) \<Longrightarrow> start_inv (c\<lparr>cl_ensure := p\<rparr>)"
  by (simp add: start_inv_def)

lemma start_resolved: "start_inv c \<Longrightarrow> cl_session c = None \<Longrightarrow> start_inv (ensure_resolved e x c)"
  by (auto simp: ensure_resolved_def harmless_def intro!: start_result start_phase split: option.split)

lemma start_kill: "start_inv c \<Longrightarrow> start_inv (killCurrent reason c)"
  using start_same_inv start_same_kill by blast

lemma kill_session [simp]: "cl_session (killCurrent reason c) = None"
  by (simp add: killCurrent_def close_transport_def detach_def Let_def split: option.split)

lemma start_reject: "start_inv c \<Longrightarrow> x \<noteq> AlreadyConnected \<Longrightarrow> start_inv (ensure_reject e x c)"
  unfolding ensure_reject_def by (intro start_phase start_kill) (simp_all add: harmless_def)

lemma start_ensure:
  assumes "start_inv c"
  shows "ensure_begin e x c = Some c' \<Longrightarrow> start_inv c'" "ensure_timeout e c = Some c' \<Longrightarrow> start_inv c'"
    "ensure_switch c = Some c' \<Longrightarrow> start_inv c'" "ensure_switched x c = Some c' \<Longrightarrow> start_inv c'"
    "ensure_greet c = Some c' \<Longrightarrow> start_inv c'" "ensure_rejected c = Some c' \<Longrightarrow> start_inv c'"
proof -
  show "ensure_begin e x c = Some c' \<Longrightarrow> start_inv c'"
    using assms by (auto simp: ensure_begin_def harmless_def launching_def intro!: start_result start_phase start_resolved split: if_splits)
  show "ensure_timeout e c = Some c' \<Longrightarrow> start_inv c'"
    using assms by (auto simp: ensure_timeout_def start_inv_def split: if_splits)
  show "ensure_switch c = Some c' \<Longrightarrow> start_inv c'"
    using assms by (auto simp: ensure_switch_def harmless_def intro!: start_phase start_kill split: ensure_phase.splits)
  show "ensure_switched x c = Some c' \<Longrightarrow> start_inv c'"
    using assms by (auto simp: ensure_switched_def start_inv_def [of c] launching_def intro!: start_resolved split: ensure_phase.splits if_splits)
  show "ensure_rejected c = Some c' \<Longrightarrow> start_inv c'"
    using assms by (auto simp: ensure_rejected_def start_inv_def [of c] harmless_def intro!: start_result split: ensure_phase.splits if_splits)
  show "ensure_greet c = Some c' \<Longrightarrow> start_inv c'"
  proof -
    assume "ensure_greet c = Some c'"
    then obtain e n i where "c' = (snd (request_begin Sendable c))\<lparr>cl_ensure := EGreeting e n i\<rparr>"
      by (auto simp: ensure_greet_def split: ensure_phase.splits prod.splits option.splits)
    with start_same_inv [OF assms start_request, of Sendable] show ?thesis by (auto simp: harmless_def launching_def intro!: start_phase)
  qed
qed

lemma start_launched: "start_inv c \<Longrightarrow> ensure_launched failed c = Some c' \<Longrightarrow> start_inv c'"
  by (auto simp: ensure_launched_def start_inv_def ensure_result_def launching_def harmless_def Let_def less_Suc_eq split: ensure_phase.splits option.splits)

lemma start_negotiated:
  assumes "start_inv c" "ensure_negotiated decode c = Some c'"
  shows "start_inv c'"
proof -
  have h: "start_inv (c\<lparr>cl_hello := h\<rparr>)" for h using assms(1) by (simp add: start_inv_def)
  from assms(2) show ?thesis
    unfolding ensure_negotiated_def Let_def
    by (auto intro!: start_reject assms(1) start_result h split: ensure_phase.splits option.splits request_phase.splits sum.splits if_splits)
qed

lemma start_step: "start_inv c \<Longrightarrow> client_step c op c' \<Longrightarrow> start_inv c'"
  unfolding client_step_def client_exec_def client_Kill_def
  by (cases op)
     (auto intro: start_same_inv start_request start_same_kill start_ordinary start_reading start_ensure start_launched start_negotiated)

definition client_init :: "client \<Rightarrow> bool" where
  "client_init c \<longleftrightarrow> c = newClient"

interpretation connection: invariant_system client_init client_step "\<lambda>c. client_inv c \<and> start_inv c"
  by unfold_locales (auto simp: client_init_def client_init start_init intro: inv_step start_step)

fun client_run :: "client_op list \<Rightarrow> client \<Rightarrow> client option" where
  "client_run [] c = Some c"
| "client_run (op # ops) c = Option.bind (client_exec op c) (client_run ops)"

lemma client_run_reach: "reach client_init client_step c \<Longrightarrow> client_run ops c = Some c' \<Longrightarrow> reach client_init client_step c'"
proof (induction ops arbitrary: c)
  case (Cons op ops)
  then obtain d where "client_step c op d" "client_run ops d = Some c'" by (auto simp: bind_eq_Some_conv client_step_def)
  with Cons show ?case by (meson reach_step)
qed simp

lemma run_reach: "client_run ops newClient = Some c \<Longrightarrow> reach client_init client_step c"
  by (rule client_run_reach [OF reach_init]) (simp add: client_init_def)

text \<open>A session is started and greeted, a request is registered, the process exits, a second session is started and greeted.\<close>

definition good_hello :: client_hello where
  "good_hello = \<lparr>ch_ProtocolVersion = 1, ch_EngineVersion = [], ch_Elevated = False\<rparr>"

definition start_run :: "nat \<Rightarrow> string \<Rightarrow> client_op list" where
  "start_run n i =
     [CEnsure False (Some ''core''), CLaunched None, CGreet, CEnterGate i, CWritten i None,
      CLine n (LReply i \<lparr>ca_Result = Some (JBool True), ca_Error = None\<rparr>), CSend 0, CReceive i (\<lambda>v. True), CNegotiated (\<lambda>v. good_hello)]"

definition two_sessions :: "client_op list" where
  "two_sessions = start_run 0 (request_id 1) @ [CRequest Sendable, CProcessExit 0, CSend 0] @ start_run 1 (request_id 3) @ [CEnterGate (request_id 2)]"

lemma example_run:
  "map_option (\<lambda>c. (cl_session c, phase_of c (request_id 2))) (client_run two_sessions newClient) = Some (Some 1, Some (Writing 0))"
  by code_simp

lemma example_lost:
  "map_option (\<lambda>c. (cl_session c, phase_of c (request_id 2), length (cl_sends c)))
     (client_run (start_run 0 (request_id 1) @ [CRequest Sendable, CEnterGate (request_id 2), CWritten (request_id 2) None, CProcessExit 0]) newClient)
   = Some (None, Some (Awaiting 0), 1)"
  by code_simp

lemma example_hello:
  "map_option (\<lambda>c. (cl_session c, cl_nextSession c, cl_ensured c)) (client_run two_sessions newClient)
   = Some (Some 1, 2, [(False, Inr good_hello), (False, Inr good_hello)])"
  by code_simp

lemma send_free:
  assumes "client_inv c" "j < length (cl_sends c)"
  shows "\<exists>i r owner. cl_sends c ! j = (i, r, owner) \<and> i \<notin> set (cl_pending c) \<and> map_of (cl_replies c) i = None"
proof -
  obtain i r owner where s: "cl_sends c ! j = (i, r, owner)" by (cases "cl_sends c ! j") auto
  have "(i, r, owner) \<in> set (cl_sends c)" using s assms(2) nth_mem by force
  then have "i \<in> fst ` set (cl_sends c)" by force
  then have "i \<notin> set (cl_pending c)" "i \<notin> fst ` set (cl_replies c)" using inv_parts(1) [OF assms(1)] by (auto simp: tokens_def)
  with s show ?thesis by (auto simp: map_of_eq_None_iff)
qed

lemma send_works:
  assumes "client_inv c" "j < length (cl_sends c)" "cl_sends c ! j = (i, r, owner)"
  shows "client_step c (CSend j) (c\<lparr>cl_replies := (i, r) # cl_replies c, cl_sends := take j (cl_sends c) @ drop (Suc j) (cl_sends c)\<rparr>)"
  using send_free [OF assms(1,2)] assms(2,3) by (simp add: client_step_def client_exec_def send_reply_def)

lemma lost_has_token:
  assumes "client_inv c" "phase_of c i = Some (Awaiting n)" "cl_session c \<noteq> Some n"
  shows "(\<exists>r. map_of (cl_replies c) i = Some r) \<or> (\<exists>j r owner. j < length (cl_sends c) \<and> cl_sends c ! j = (i, r, owner))"
proof -
  note q = inv_parts [OF assms(1)]
  have live: "live_on c i m \<longleftrightarrow> m = n" for m using assms(2) by (auto simp: live_on_def)
  have "i \<notin> set (cl_pending c)" using q(7) [of i] assms(3) by (auto simp: live)
  with q(6) [of i n] have "i \<in> fst ` set (cl_sends c) \<or> i \<in> fst ` set (cl_replies c)" by (simp add: live tokens_def)
  then show ?thesis
  proof
    assume "i \<in> fst ` set (cl_sends c)"
    then obtain r owner where "(i, r, owner) \<in> set (cl_sends c)" by auto
    then show ?thesis by (auto simp: in_set_conv_nth)
  next
    assume "i \<in> fst ` set (cl_replies c)"
    then show ?thesis by (auto simp: map_of_eq_None_iff dest: weak_map_of_SomeI)
  qed
qed

lemma receive_works:
  assumes "phase_of c i = Some (Awaiting n)" "map_of (cl_replies c) i = Some r"
  shows "\<exists>c'. client_step c (CReceive i fits) c' \<and> phase_of c' i = Some (Finished (reply_result fits r))"
  using assms by (simp add: client_step_def client_exec_def receive_reply_def)

lemma reply_session:
  assumes "client_inv c" "phase_of c i = Some (Awaiting n)" "map_of (cl_replies c) i = Some (FromCore m a)"
  shows "m = n"
  using inv_parts(8) [OF assms(1), of i m n] assms(2) map_of_SomeD [OF assms(3)] by (auto simp: from_core_def live_on_def)

section \<open>The executable\<close>

text \<open>Where case does not matter for whether a path is a file, leaving out the duplicates does not matter either.\<close>

lemma first_file_find:
  assumes "\<forall>a b. to_lower a = to_lower b \<longrightarrow> rx_isFile env a = rx_isFile env b"
    and "\<forall>key \<in> set seen. \<forall>a. to_lower a = key \<longrightarrow> \<not> rx_isFile env a"
  shows "first_file env seen cs = List.find (rx_isFile env) (List.map_filter (rx_abs env) cs)"
  using assms(2)
proof (induction cs arbitrary: seen)
  case (Cons x cs)
  show ?case
  proof (cases "rx_abs env x")
    case None
    with Cons show ?thesis by (simp add: map_filter_simps)
  next
    case (Some a)
    have "\<not> rx_isFile env b" if "\<not> rx_isFile env a" "to_lower b = to_lower a" for b using assms(1) that by metis
    then show ?thesis using Some Cons.prems Cons.IH [of seen] Cons.IH [of "to_lower a # seen"] by (auto simp: map_filter_simps Let_def)
  qed
qed (simp add: map_filter_simps)

section \<open>Properties\<close>

text \<open>
  C33. Whoever has a reply for a request can hand it over at once, in every interleaving of requests, timeouts, readers, ending processes and
  starts: the channel of the request, which holds one reply, is empty, and the request is no longer registered,
  so no second reply will be made. So no reader, no start and no stop of the application hangs on a request that gave up.
\<close>

theorem replies_are_always_accepted:
  assumes "reach client_init client_step c" "j < length (cl_sends c)"
  shows "\<exists>i r owner c'. cl_sends c ! j = (i, r, owner) \<and> i \<notin> set (cl_pending c) \<and> client_step c (CSend j) c'
    \<and> map_of (cl_replies c') i = Some r \<and> length (cl_sends c') < length (cl_sends c)"
proof -
  have inv: "client_inv c" using connection.reach_inv [OF assms(1)] by simp
  obtain i r owner where s: "cl_sends c ! j = (i, r, owner)" "i \<notin> set (cl_pending c)" using send_free [OF inv assms(2)] by blast
  from send_works [OF inv assms(2) s(1)] show ?thesis
    by (intro exI conjI) (rule s, rule s, assumption, use assms(2) in simp_all)
qed

theorem replies_are_always_accepted_witness:
  "\<exists>c c'. reach client_init client_step c \<and> client_step c (CSend 0) c' \<and> phase_of c (request_id 2) = Some (Awaiting 0)"
proof -
  obtain c where c: "client_run (start_run 0 (request_id 1) @ [CRequest Sendable, CEnterGate (request_id 2), CWritten (request_id 2) None, CProcessExit 0])
      newClient = Some c" "phase_of c (request_id 2) = Some (Awaiting 0)" "length (cl_sends c) = 1"
    using example_lost by auto
  have r: "reach client_init client_step c" by (rule run_reach [OF c(1)])
  with replies_are_always_accepted [OF r, of 0] c show ?thesis by auto
qed

text \<open>
  C34. A request that waits for an answer of a session that is no longer the current one never waits in vain: within two steps it
  has a reply and returns with what the reply says, and if the reply is an answer of an engine, then of the engine
  that the request was sent to, never of a later one.
\<close>

theorem lost_request_is_answered:
  assumes "reach client_init client_step c" "phase_of c i = Some (Awaiting n)" "cl_session c \<noteq> Some n"
  shows "\<exists>c1 c2 r. (c1 = c \<or> (\<exists>j. client_step c (CSend j) c1)) \<and> client_step c1 (CReceive i fits) c2
    \<and> phase_of c2 i = Some (Finished (reply_result fits r)) \<and> (\<forall>m a. r = FromCore m a \<longrightarrow> m = n)"
proof -
  have inv: "client_inv c" using connection.reach_inv [OF assms(1)] by simp
  from lost_has_token [OF inv assms(2,3)]
  obtain c1 r where c1: "c1 = c \<or> (\<exists>j. client_step c (CSend j) c1)" "map_of (cl_replies c1) i = Some r" "phase_of c1 i = Some (Awaiting n)" "client_inv c1"
  proof
    assume "\<exists>r. map_of (cl_replies c) i = Some r"
    with that [of c] assms(2) inv show ?thesis by blast
  next
    assume "\<exists>j r owner. j < length (cl_sends c) \<and> cl_sends c ! j = (i, r, owner)"
    then obtain j r owner where j: "j < length (cl_sends c)" "cl_sends c ! j = (i, r, owner)" by blast
    note step = send_works [OF inv j]
    show ?thesis by (rule that [OF disjI2 _ _ inv_step [OF inv step]]) (use step assms(2) in \<open>auto simp: phase_of_def\<close>)
  qed
  with receive_works [OF c1(3,2), of fits] reply_session [OF c1(4,3)] show ?thesis by blast
qed

theorem lost_request_is_answered_witness:
  "\<exists>c c2 r. reach client_init client_step c \<and> cl_session c = None \<and> phase_of c (request_id 2) = Some (Awaiting 0)
    \<and> phase_of c2 (request_id 2) = Some (Finished (reply_result (\<lambda>v. True) r))"
proof -
  obtain c where c: "client_run (start_run 0 (request_id 1) @ [CRequest Sendable, CEnterGate (request_id 2), CWritten (request_id 2) None, CProcessExit 0])
      newClient = Some c" "phase_of c (request_id 2) = Some (Awaiting 0)" "cl_session c = None"
    using example_lost by auto
  have r: "reach client_init client_step c" by (rule run_reach [OF c(1)])
  with lost_request_is_answered [OF r c(2), of "\<lambda>v. True"] c show ?thesis by auto
qed

text \<open>
  C35. In every interleaving there is one session at most that is not closed: the transport of every session that was ever launched has been
  closed, unless it is the current one. A start is never refused because another start connected first, and what a
  start returns without an error is the greeting of an engine that speaks the protocol and is elevated if that was required.
\<close>

theorem one_open_session:
  assumes "reach client_init client_step c"
  shows "(\<forall>n < cl_nextSession c. n \<in> set (cl_closed c) \<or> cl_session c = Some n)
    \<and> (e, Inl AlreadyConnected) \<notin> set (cl_ensured c)
    \<and> ((e, Inr h) \<in> set (cl_ensured c) \<longrightarrow> ch_ProtocolVersion h = ProtocolVersion \<and> (e \<longrightarrow> ch_Elevated h))"
proof -
  have "client_inv c" "start_inv c" using connection.reach_inv [OF assms] by simp_all
  then show ?thesis using inv_parts(10) [of c e h] by (auto simp: start_inv_def)
qed

theorem one_open_session_witness:
  "\<exists>c. reach client_init client_step c \<and> (0::nat) \<in> set (cl_closed c) \<and> cl_session c = Some 1 \<and> (False, Inr good_hello) \<in> set (cl_ensured c)"
proof -
  obtain c where c: "client_run two_sessions newClient = Some c" "cl_session c = Some 1" "cl_nextSession c = 2"
    "(False, Inr good_hello) \<in> set (cl_ensured c)"
    using example_hello by auto
  have r: "reach client_init client_step c" by (rule run_reach [OF c(1)])
  with one_open_session [OF r, of False good_hello] c(2-4) have "0 \<in> set (cl_closed c)" by fastforce
  with r c(2,4) show ?thesis by blast
qed

text \<open>
  A write that takes too long ends the current session, also when the request was registered on an earlier session that had already ended: here
  request 2 was registered on session 0, and its timeout kills session 1, which was started and greeted afterwards.
\<close>

lemma late_write_timeout_kills_next_session:
  "\<exists>c c'. reach client_init client_step c \<and> phase_of c (request_id 2) = Some (Writing 0) \<and> cl_session c = Some 1
    \<and> client_step c (CWriteTimeout (request_id 2)) c' \<and> cl_session c' = None \<and> 1 \<in> set (cl_killed c')"
proof -
  obtain c where c: "client_run two_sessions newClient = Some c" "phase_of c (request_id 2) = Some (Writing 0)" "cl_session c = Some 1"
    using example_run by auto
  have r: "reach client_init client_step c" by (rule run_reach [OF c(1)])
  have "\<exists>c'. client_step c (CWriteTimeout (request_id 2)) c' \<and> cl_session c' = None \<and> 1 \<in> set (cl_killed c')"
    using c(2,3)
    by (simp add: client_step_def client_exec_def write_timeout_def killCurrent_def close_transport_def detach_def set_phase_def Let_def)
  with r c(2,3) show ?thesis by blast
qed

end
