(* ===== verification/Spec2Isabelle.thy ===== *)
theory Spec2Isabelle
  imports Runtime Proxy_Server_Inv Core_Runs Engine_Reach Engine_Tunnel Engine_Client_Runs
begin

text \<open>
  \<^bold>\<open>HypoMux: a verification development.\<close>

  HypoMux spreads the connections of one machine over several network adapters. An \<^emph>\<open>engine\<close>
  (\<open>src/engine\<close>) owns the network: it listens as a SOCKS5 and HTTP proxy, picks an adapter for every
  connection, resolves names over that adapter, relays the bytes and counts them, and supervises a
  TUN sidecar process that captures the traffic of the whole machine. A \<^emph>\<open>desktop\<close> application
  (\<open>src/desktop\<close>) keeps the settings and drives the engine by a protocol of JSON lines.

  \<^bold>\<open>How the theories follow the code.\<close> A Go struct is a record, an enumeration a datatype, an
  integer of a counter or a wire format a word of its width (\<open>uint64\<close>), Go's \<open>int\<close> and \<open>int64\<close> are
  integers with \<open>wrap64\<close> written where a product can leave the range, a \<open>map\<close> that is iterated is an
  association list, a fallible function a sum with its own error datatype. A method on a pointer
  receiver takes the state as its last argument but the world and returns it. What the code reads from the outside (sockets, clock, file
  system, processes, packet filter, JSON text, IDNA, \<open>net/url\<close>) is an argument or a field of an
  environment record, and is never assumed to behave. Mutexes make a locked section one step;
  goroutines are the steps of a transition system, so that a property of the reachable states
  holds in every interleaving.

  \<^bold>\<open>The engine, from the leaves up.\<close>
  \<^item> \<open>Go_Prelude\<close>, \<open>Net_Addr\<close>: strings, byte order, \<open>TrimSpace\<close>, \<open>Split\<close>, \<open>Atoi\<close>, times; parsing and printing of
    addresses, \<open>JoinHostPort\<close>, \<open>SplitHostPort\<close>. \<open>Go_Prelude\<close> also has the locale \<open>invariant_system\<close>
    (an invariant of the initial states kept by every step holds in every reachable state) that the
    transition systems below interpret.
  \<^item> \<open>Runtime\<close> (\<open>runtime/runtime.go\<close>): the lifecycle state machine and its numbered snapshots.
  \<^item> \<open>Dns_Config\<close>, \<open>Dns_Wire\<close>, \<open>Resolver\<close> (\<open>dns/*.go\<close>): configuration and its normalisation; queries and
    responses on bytes; the cache, single flight, policies, the race of the DoH servers and the fallback alert.
  \<^item> \<open>Proxy_Config\<close>, \<open>Health\<close>, \<open>Scheduler\<close> (\<open>proxy/config.go\<close>, \<open>health.go\<close>, \<open>scheduler.go\<close>): adapters and channels;
    backoff and quarantine of domains; round robin and smooth weighted round robin.
  \<^item> \<open>Registry\<close> (\<open>proxy/registry.go\<close>): sessions and traffic counters.
  \<^item> \<open>Dial\<close> (\<open>proxy/dial*.go\<close>): the attempts over different adapters, with their evidence for the health table.
  \<^item> \<open>Socks\<close>, \<open>Http\<close> (\<open>proxy/socks.go\<close>, \<open>proxy/http.go\<close>): the two proxy protocols on byte streams.
  \<^item> \<open>Udp\<close>, \<open>Udp_Inv\<close> (\<open>proxy/udp.go\<close>): UDP associations and their flows as a transition system.
  \<^item> \<open>Proxy_Server\<close>, \<open>Proxy_Server_Inv\<close> (\<open>proxy/server.go\<close>): listeners, clients, relaying.
  \<^item> \<open>Tun_Supervisor\<close>, \<open>Tun_Inv\<close> (\<open>tun/*.go\<close>): \<open>Activate\<close>, \<open>Stop\<close> and the goroutines of every sidecar run, cut
    where the code gives up its lock or waits.
  \<^item> \<open>Diagnostic\<close> (\<open>diagnostic/*.go\<close>): series of echo requests and their summary.
  \<^item> \<open>Api\<close> (\<open>protocol/protocol.go\<close>, \<open>api/v1/types.go\<close>), \<open>Core_Server\<close>, \<open>Core_Inv\<close>, \<open>Core_Runs\<close> (\<open>server/server.go\<close>): the
    messages, every handler, and the engine as a transition system of requests, pieces of the
    supervisor, exits of sidecars, alerts and a breaking output.

  \<^bold>\<open>The desktop.\<close>
  \<^item> \<open>Net_Cidr\<close>, \<open>Json\<close>: Go's CIDR networks with their text, and JSON trees with the decoding rules of \<open>encoding/json\<close>.
  \<^item> \<open>Routing\<close>, \<open>Routing_Inv\<close> (\<open>services/routing.go\<close>): the routing rules, their canonical list and their backups.
  \<^item> \<open>Settings\<close>, \<open>Settings_Inv\<close> (\<open>services/settings.go\<close>): the settings with their file, every operation on them, the
    migration from the old version.
  \<^item> \<open>Adapters\<close> (\<open>services/adapters.go\<close> and the service of \<open>routing.go\<close>): the adapters offered and the operations that check
    rules against them.
  \<^item> \<open>Tun_Config\<close> (\<open>services/tun_config.go\<close>, \<open>engineChannels\<close> of \<open>engine.go\<close>): the channels that the desktop asks of the engine and
    the configuration of the TUN sidecar.
  \<^item> \<open>Tun_Preflight\<close> (\<open>services/tun_preflight.go\<close>, \<open>services/compatibility.go\<close>): the check before a tunnel is started, the adapters
    that share a gateway, the processes kept out of the tunnel.
  \<^item> \<open>Engine_Service\<close>, \<open>Engine_Events\<close> (\<open>services/engine.go\<close>): the service that starts, stops and watches the engine. An operation is
    a function on its state that may fail; every call of the outside is answered by the environment, which may look at
    all earlier calls, and is recorded. A restart on an event of the engine is three steps, between which
    anything else can happen. \<open>Engine_Inv\<close> shows what a start has called and what it leaves, \<open>Engine_Runs\<close> the same for a
    stop and the calculus of what the operations leave alone, \<open>Engine_Reach\<close> the invariant of the
    service and that its restarts end. \<open>Engine_Tunnel\<close> joins the two programs: the engine's \<open>normalizeConfig\<close> accepts the
    request of the desktop, and a tunnel that was started has a closed configuration.
  \<^item> \<open>Engine_Client\<close>, \<open>Engine_Client_Inv\<close>, \<open>Engine_Client_Runs\<close> (\<open>engineclient/client.go\<close>): the connection to the engine. A request is
    cut where it waits (write gate, write, answer), the sends on the channels of the requests are steps of
    their own, and a session is a number; every interleaving is a run.

  \<^bold>\<open>What the lemmas show.\<close> Every component has a well-formedness predicate that its operations keep
  (\<open>registry_ok\<close>, \<open>sup_inv\<close>, \<open>core_inv\<close> and others); the transition systems lift it to all reachable states by an
  interpretation of \<open>invariant_system\<close>. On top stand functional properties (fair scheduling, exact
  telemetry and relay counters, the cascade of candidates), round trips of the wire formats, bounds
  (header size, cache size, attempts, flows), isolation (a channel only uses its adapters, a policy its transport,
  an association its client), progress (idle flows are closed, restarts of the desktop end) and error behaviour (a refused
  request changes nothing, a failed start leaves nothing behind). The witnesses apply the properties to concrete reachable states.

  \<^bold>\<open>Bounds and fuel.\<close> Loops over input are recursions on the list; the loops of the DNS decoder recurse on the offset with
  a measure. Loops that end by an outside event take the list of those events. Eviction takes the length of the cache as
  fuel, one entry each round, which is enough because a round removes one entry.

  \<^bold>\<open>Not modelled.\<close> System calls and the packages that only make them: the Windows packet filter
  (\<open>wfp\<close>), service manager, named pipes and process tokens (\<open>platform\<close>, \<open>cmd/hypomux-engine\<close>); their
  results are arguments. JSON text and TLS are Go's library
  (a JSON document is its tree). \<open>closeWrite\<close> has no effect on the modelled state. Of the desktop the
  platform probes, the system proxy, updates, logs and the window are left out: they call the operating system. The deadlines of the
  desktop's contexts are not modelled; a call that runs into one is a call that fails. The
  user interface, the Wails bindings and the build tools hold no logic of the engine.
\<close>

end
